(* ===== verification/Prelude.thy ===== *)
theory Prelude
  imports Complex_Main "HOL-Library.Word" "HOL-Library.AList" "HOL-Library.Sublist"
begin

text \<open>
  Shared vocabulary of the development: the machine types of the Rust sources, the ASCII fragment
  of Rust's \<open>str\<close> operations, \<open>HashMap\<close> as an association list in iteration order, the
  iterator adaptors \<open>min_by_key\<close> and \<open>max_by_key\<close>, saturating arithmetic, and the
  interface of invariants over step relations.

  Conventions used by every component theory:
  \<^item> a call of \<open>Instant::now()\<close>, \<open>Utc::now()\<close>, \<open>Uuid::new_v4()\<close> or of a random generator
    is an argument of the definition (the value the call returned);
  \<^item> \<open>Result<T, E>\<close> is \<open>'e + 't\<close> with \<open>Inl\<close> for \<open>Err\<close>;
  \<^item> a section that holds a lock is one atomic state transformer;
  \<^item> strings are \<open>string\<close>, read as ASCII text: on it \<open>to_lowercase\<close> and \<open>to_ascii_lowercase\<close>
    agree, \<open>trim\<close> removes the ASCII white space, and a character is one byte.
\<close>

section \<open>Types and theorem collections\<close>

named_theorems str_simps "facts about the string operations"
named_theorems inv_rules "preservation of component invariants"
named_theorems op_defs "definitions of the operations of a component"

type_synonym u32 = "32 word"
type_synonym u64 = "64 word"

text \<open>Identifiers (\<open>Uuid\<close>) are opaque; instants and durations are counted in nanoseconds.\<close>

type_synonym uuid = nat
type_synonym instant = nat
type_synonym duration = nat

text \<open>\<open>rust_decimal::Decimal\<close> values are exact rationals; the scale limit of 28 digits and the overflow
  panic beyond 96 bits are not modelled.\<close>

type_synonym decimal = rat

abbreviation (input) from_secs :: "nat \<Rightarrow> duration" where
  "from_secs s \<equiv> s * 1000000000"

text \<open>\<open>Instant::elapsed\<close> and \<open>Instant::duration_since\<close> saturate at zero, as \<open>nat\<close> subtraction does.\<close>

abbreviation (input) elapsed :: "instant \<Rightarrow> instant \<Rightarrow> duration" where
  "elapsed now t \<equiv> now - t"

definition saturating_sub64 :: "u64 \<Rightarrow> u64 \<Rightarrow> u64" where
  "saturating_sub64 a b = (if b \<le> a then a - b else 0)"

lemma unat_saturating_sub64: "unat (saturating_sub64 a b) = unat a - unat b"
  by (simp add: saturating_sub64_def word_le_nat_alt unat_sub)

lemma unat_plus_one:
  fixes a :: "'a::len word"
  assumes "a < b"
  shows "unat (a + 1) = unat a + 1"
proof -
  have "unat a < unat b" using assms by (simp add: word_less_nat_alt)
  moreover have "unat b < 2 ^ LENGTH('a)" by simp
  ultimately have "unat a + 1 < 2 ^ LENGTH('a)" by linarith
  then show ?thesis by (simp add: unat_word_ariths)
qed

section \<open>Results\<close>

fun is_ok :: "'e + 'a \<Rightarrow> bool" where
  "is_ok (Inl e) = False"
| "is_ok (Inr x) = True"

lemma is_ok_iff: "is_ok r \<longleftrightarrow> (\<exists>x. r = Inr x)"
  by (cases r) auto

section \<open>Strings\<close>

definition is_ws :: "char \<Rightarrow> bool" where
  "is_ws c \<longleftrightarrow> (9 \<le> (of_char c :: nat) \<and> (of_char c :: nat) \<le> 13) \<or> (of_char c :: nat) = 32"

definition trim_start :: "string \<Rightarrow> string" where
  "trim_start s = dropWhile is_ws s"

definition trim_end :: "string \<Rightarrow> string" where
  "trim_end s = rev (dropWhile is_ws (rev s))"

definition trim :: "string \<Rightarrow> string" where
  "trim s = trim_end (trim_start s)"

definition trim_end_matches :: "char \<Rightarrow> string \<Rightarrow> string" where
  "trim_end_matches c s = rev (dropWhile (\<lambda>x. x = c) (rev s))"

definition trim_start_matches :: "char \<Rightarrow> string \<Rightarrow> string" where
  "trim_start_matches c s = dropWhile (\<lambda>x. x = c) s"

definition trim_matches :: "char \<Rightarrow> string \<Rightarrow> string" where
  "trim_matches c s = trim_end_matches c (trim_start_matches c s)"

definition is_upper :: "char \<Rightarrow> bool" where
  "is_upper c \<longleftrightarrow> 65 \<le> (of_char c :: nat) \<and> (of_char c :: nat) \<le> 90"

definition is_lower :: "char \<Rightarrow> bool" where
  "is_lower c \<longleftrightarrow> 97 \<le> (of_char c :: nat) \<and> (of_char c :: nat) \<le> 122"

definition is_digit :: "char \<Rightarrow> bool" where
  "is_digit c \<longleftrightarrow> 48 \<le> (of_char c :: nat) \<and> (of_char c :: nat) \<le> 57"

definition is_alnum :: "char \<Rightarrow> bool" where
  "is_alnum c \<longleftrightarrow> is_upper c \<or> is_lower c \<or> is_digit c"

definition lower_char :: "char \<Rightarrow> char" where
  "lower_char c = (if is_upper c then char_of (of_char c + 32 :: nat) else c)"

definition upper_char :: "char \<Rightarrow> char" where
  "upper_char c = (if is_lower c then char_of (of_char c - 32 :: nat) else c)"

definition lowercase :: "string \<Rightarrow> string" where
  "lowercase s = map lower_char s"

definition uppercase :: "string \<Rightarrow> string" where
  "uppercase s = map upper_char s"

definition starts_with :: "string \<Rightarrow> string \<Rightarrow> bool" where
  "starts_with s p \<longleftrightarrow> take (length p) s = p"

definition ends_with :: "string \<Rightarrow> string \<Rightarrow> bool" where
  "ends_with s p \<longleftrightarrow> length p \<le> length s \<and> drop (length s - length p) s = p"

definition strip_prefix :: "string \<Rightarrow> string \<Rightarrow> string option" where
  "strip_prefix s p = (if starts_with s p then Some (drop (length p) s) else None)"

definition strip_suffix :: "string \<Rightarrow> string \<Rightarrow> string option" where
  "strip_suffix s p = (if ends_with s p then Some (take (length s - length p) s) else None)"

fun str_contains :: "string \<Rightarrow> string \<Rightarrow> bool" where
  "str_contains [] p = (p = [])"
| "str_contains (c # s) p = (starts_with (c # s) p \<or> str_contains s p)"

fun split_on :: "char \<Rightarrow> string \<Rightarrow> string list" where
  "split_on c [] = [[]]"
| "split_on c (x # xs) =
     (if x = c then [] # split_on c xs
      else (case split_on c xs of [] \<Rightarrow> [[x]] | w # ws \<Rightarrow> (x # w) # ws))"

fun join_with :: "string \<Rightarrow> string list \<Rightarrow> string" where
  "join_with sep [] = []"
| "join_with sep [w] = w"
| "join_with sep (w # v # ws) = w @ sep @ join_with sep (v # ws)"

fun split_ws_aux :: "string \<Rightarrow> string \<Rightarrow> string list" where
  "split_ws_aux acc [] = (if acc = [] then [] else [rev acc])"
| "split_ws_aux acc (c # s) =
     (if is_ws c then (if acc = [] then split_ws_aux [] s else rev acc # split_ws_aux [] s)
      else split_ws_aux (c # acc) s)"

definition split_whitespace :: "string \<Rightarrow> string list" where
  "split_whitespace s = split_ws_aux [] s"

text \<open>\<open>eq_ignore_ascii_case\<close>.\<close>

definition eq_ignore_case :: "string \<Rightarrow> string \<Rightarrow> bool" where
  "eq_ignore_case a b \<longleftrightarrow> lowercase a = lowercase b"

lemma starts_with_append [str_simps]: "starts_with s p \<longleftrightarrow> (\<exists>t. s = p @ t)"
  unfolding starts_with_def by (metis append_eq_conv_conj append_take_drop_id)

lemma ends_with_append [str_simps]: "ends_with s p \<longleftrightarrow> (\<exists>t. s = t @ p)"
proof
  assume "ends_with s p"
  then show "\<exists>t. s = t @ p"
    unfolding ends_with_def by (metis append_take_drop_id)
next
  assume "\<exists>t. s = t @ p"
  then show "ends_with s p" by (auto simp: ends_with_def)
qed

lemma strip_prefix_Some [str_simps]: "strip_prefix s p = Some t \<longleftrightarrow> s = p @ t"
  by (auto simp: strip_prefix_def starts_with_def) (metis append_take_drop_id)

lemma lower_char_idem [simp]: "lower_char (lower_char c) = lower_char c"
proof (cases "is_upper c")
  case True
  then have "(of_char c :: nat) + 32 < 256" by (simp add: is_upper_def)
  then have "(of_char (char_of ((of_char c :: nat) + 32)) :: nat) = of_char c + 32" by simp
  with True show ?thesis by (simp add: lower_char_def is_upper_def)
next
  case False
  then show ?thesis by (simp add: lower_char_def)
qed

lemma lowercase_idem [simp]: "lowercase (lowercase s) = lowercase s"
  by (simp add: lowercase_def)

lemma lowercase_append: "lowercase (a @ b) = lowercase a @ lowercase b"
  by (simp add: lowercase_def)

lemma length_lowercase [simp]: "length (lowercase s) = length s"
  by (simp add: lowercase_def)

lemma length_split_on: "split_on c s \<noteq> []"
  by (induction s) (auto split: list.splits)

lemma split_on_no_sep: "w \<in> set (split_on c s) \<Longrightarrow> c \<notin> set w"
proof (induction s arbitrary: w)
  case Nil
  then show ?case by simp
next
  case (Cons x xs)
  then show ?case
    by (cases "split_on c xs") (auto split: if_splits)
qed

lemma split_on_append:
  assumes "c \<notin> set w"
  shows "split_on c (w @ c # s) = w # split_on c s"
  using assms by (induction w) auto

lemma split_on_single: "c \<notin> set w \<Longrightarrow> split_on c w = [w]"
  by (induction w) auto

text \<open>Splitting what was joined gives the fields back, when no field holds the separator.\<close>

lemma find_append: "find P (xs @ ys) = (case find P xs of None \<Rightarrow> find P ys | Some x \<Rightarrow> Some x)"
  by (induction xs) auto

lemma join_append: "ps \<noteq> [] \<Longrightarrow> qs \<noteq> [] \<Longrightarrow> join_with sep (ps @ qs) = join_with sep ps @ sep @ join_with sep qs"
proof (induction sep ps rule: join_with.induct)
  case (2 sep w)
  then show ?case by (cases qs) auto
qed auto

lemma split_on_join:
  assumes "ws \<noteq> []" and "\<And>w. w \<in> set ws \<Longrightarrow> c \<notin> set w"
  shows "split_on c (join_with [c] ws) = ws"
  using assms
proof (induction "[c]" ws rule: join_with.induct)
  case (3 w v ws)
  then show ?case by (simp add: split_on_append)
qed (auto simp: split_on_single)

section \<open>Iterator adaptors\<close>

text \<open>\<open>Iterator::min_by_key\<close> returns the first element of least key, \<open>max_by_key\<close> the last of
  greatest key.\<close>

fun min_by_key :: "('a \<Rightarrow> 'k::linorder) \<Rightarrow> 'a list \<Rightarrow> 'a option" where
  "min_by_key f [] = None"
| "min_by_key f (x # xs) =
     (case min_by_key f xs of None \<Rightarrow> Some x | Some y \<Rightarrow> if f x \<le> f y then Some x else Some y)"

fun max_by_key :: "('a \<Rightarrow> 'k::linorder) \<Rightarrow> 'a list \<Rightarrow> 'a option" where
  "max_by_key f [] = None"
| "max_by_key f (x # xs) =
     (case max_by_key f xs of None \<Rightarrow> Some x | Some y \<Rightarrow> if f y < f x then Some x else Some y)"

lemma min_by_key_None [simp]: "min_by_key f xs = None \<longleftrightarrow> xs = []"
  by (cases xs) (auto split: option.splits)

lemma max_by_key_None [simp]: "max_by_key f xs = None \<longleftrightarrow> xs = []"
  by (cases xs) (auto split: option.splits)

lemma min_by_key_Some:
  "min_by_key f xs = Some y \<Longrightarrow> y \<in> set xs \<and> (\<forall>x \<in> set xs. f y \<le> f x)"
proof (induction xs arbitrary: y)
  case (Cons x xs)
  then show ?case
    by (cases "min_by_key f xs") (fastforce split: if_splits)+
qed simp

lemma max_by_key_Some:
  "max_by_key f xs = Some y \<Longrightarrow> y \<in> set xs \<and> (\<forall>x \<in> set xs. f x \<le> f y)"
proof (induction xs arbitrary: y)
  case (Cons x xs)
  then show ?case
    by (cases "max_by_key f xs") (fastforce split: if_splits)+
qed simp

section \<open>HashMap as an association list\<close>

text \<open>
  The list order stands for the iteration order, which Rust leaves unspecified: the theorems hold
  for every list. A map is well formed when its keys are distinct.
\<close>

type_synonym ('k, 'v) hashmap = "('k \<times> 'v) list"

abbreviation hm_get :: "('k, 'v) hashmap \<Rightarrow> 'k \<Rightarrow> 'v option" where
  "hm_get m k \<equiv> map_of m k"

definition hm_insert :: "'k \<Rightarrow> 'v \<Rightarrow> ('k, 'v) hashmap \<Rightarrow> ('k, 'v) hashmap" where
  "hm_insert k v m = AList.update k v m"

definition hm_remove :: "'k \<Rightarrow> ('k, 'v) hashmap \<Rightarrow> ('k, 'v) hashmap" where
  "hm_remove k m = AList.delete k m"

definition hm_retain :: "('k \<Rightarrow> 'v \<Rightarrow> bool) \<Rightarrow> ('k, 'v) hashmap \<Rightarrow> ('k, 'v) hashmap" where
  "hm_retain P m = filter (\<lambda>(k, v). P k v) m"

definition hm_wf :: "('k, 'v) hashmap \<Rightarrow> bool" where
  "hm_wf m \<longleftrightarrow> distinct (map fst m)"

lemma hm_get_insert: "hm_get (hm_insert k v m) k' = (if k' = k then Some v else hm_get m k')"
  by (simp add: hm_insert_def update_conv')

lemma hm_get_remove: "hm_get (hm_remove k m) k' = (if k' = k then None else hm_get m k')"
  by (simp add: hm_remove_def delete_conv')

lemma hm_wf_Nil [simp, inv_rules]: "hm_wf []"
  by (simp add: hm_wf_def)

lemma hm_wf_insert [simp, inv_rules]: "hm_wf m \<Longrightarrow> hm_wf (hm_insert k v m)"
  by (simp add: hm_wf_def hm_insert_def distinct_update)

lemma hm_wf_remove [simp, inv_rules]: "hm_wf m \<Longrightarrow> hm_wf (hm_remove k m)"
  by (simp add: hm_wf_def hm_remove_def distinct_delete)

lemma hm_wf_retain [simp, inv_rules]: "hm_wf m \<Longrightarrow> hm_wf (hm_retain P m)"
  unfolding hm_wf_def hm_retain_def by (induction m) auto

lemma hm_retain_subset: "set (hm_retain P m) \<subseteq> set m"
  by (auto simp: hm_retain_def)

lemma hm_get_in_set: "hm_get m k = Some v \<Longrightarrow> (k, v) \<in> set m"
  by (rule map_of_SomeD)

lemma hm_in_set_get: "hm_wf m \<Longrightarrow> (k, v) \<in> set m \<Longrightarrow> hm_get m k = Some v"
  by (simp add: hm_wf_def)

lemma hm_get_retain:
  assumes "hm_wf m"
  shows "hm_get (hm_retain P m) k =
    (case hm_get m k of None \<Rightarrow> None | Some v \<Rightarrow> if P k v then Some v else None)"
proof (cases "hm_get m k")
  case None
  then have "k \<notin> fst ` set m" by (simp add: map_of_eq_None_iff)
  then have "k \<notin> fst ` set (hm_retain P m)" using hm_retain_subset by fastforce
  then have "hm_get (hm_retain P m) k = None" by (simp add: map_of_eq_None_iff)
  then show ?thesis using None by simp
next
  case (Some v)
  then have in_m: "(k, v) \<in> set m" by (rule hm_get_in_set)
  show ?thesis
  proof (cases "P k v")
    case True
    then have "(k, v) \<in> set (hm_retain P m)" using in_m by (simp add: hm_retain_def)
    then show ?thesis using Some True assms by (simp add: hm_in_set_get)
  next
    case False
    have "k \<notin> fst ` set (hm_retain P m)"
      using False Some assms by (auto simp: hm_retain_def hm_in_set_get)
    then have "hm_get (hm_retain P m) k = None" by (simp add: map_of_eq_None_iff)
    then show ?thesis using Some False by simp
  qed
qed

lemma length_hm_insert:
  "length (hm_insert k v m) = (if k \<in> fst ` set m then length m else Suc (length m))"
  unfolding hm_insert_def by (induction m) auto

lemma length_hm_insert_le: "length (hm_insert k v m) \<le> Suc (length m)"
  by (simp add: length_hm_insert)

lemma length_hm_remove_less: "k \<in> fst ` set m \<Longrightarrow> length (hm_remove k m) < length m"
  unfolding hm_remove_def by (induction m) (auto simp: le_imp_less_Suc length_delete_le)

lemma length_hm_remove_le: "length (hm_remove k m) \<le> length m"
  by (simp add: hm_remove_def length_delete_le)

lemma length_hm_retain_le: "length (hm_retain P m) \<le> length m"
  by (simp add: hm_retain_def)

lemma hm_insert_in_set:
  "(k', v') \<in> set (hm_insert k v m) \<Longrightarrow> (k' = k \<and> v' = v) \<or> (k', v') \<in> set m"
  unfolding hm_insert_def by (induction m) (auto split: if_splits)

lemma hm_remove_subset: "set (hm_remove k m) \<subseteq> set m"
  by (auto simp: hm_remove_def AList.delete_eq)

section \<open>Sliding windows\<close>

text \<open>The instants of a log that lie in a closed span of length \<open>d\<close>. A limiter that lets an event at
  \<open>now\<close> through only when fewer than \<open>l\<close> events lie in the span ending at \<open>now\<close> keeps every span
  at \<open>l\<close> events or fewer.\<close>

definition in_span :: "nat \<Rightarrow> nat \<Rightarrow> nat list \<Rightarrow> nat list" where
  "in_span d a ts = filter (\<lambda>t. a \<le> t \<and> t \<le> a + d) ts"

lemma in_span_append [simp]: "in_span d a (xs @ ys) = in_span d a xs @ in_span d a ys"
  by (simp add: in_span_def)

lemma in_span_earlier:
  assumes "\<forall>t \<in> set ts. t \<le> now" and "now \<le> a + d"
  shows "length (in_span d a ts) \<le> length (in_span d (now - d) ts)"
  using assms unfolding in_span_def by (induction ts) auto

lemma in_span_add:
  assumes "\<forall>t \<in> set ts. t \<le> now" and "\<forall>a. length (in_span d a ts) \<le> l"
    and "length (in_span d (now - d) ts) < l"
  shows "length (in_span d a (ts @ [now])) \<le> l"
proof (cases "a \<le> now \<and> now \<le> a + d")
  case True
  then show ?thesis using in_span_earlier [OF assms(1), of a d] assms(3) by (simp add: in_span_def)
next
  case False
  then have "in_span d a [now] = []" by (simp add: in_span_def)
  then show ?thesis using assms(2) by simp
qed

section \<open>Step relations and their invariants\<close>

text \<open>
  The states a component can reach from its initial ones; \<open>steps_inv\<close> is the contract of an
  invariant: it holds initially and every step keeps it, so it holds in every reachable state.
\<close>

inductive reach :: "('s \<Rightarrow> bool) \<Rightarrow> ('s \<Rightarrow> 's \<Rightarrow> bool) \<Rightarrow> 's \<Rightarrow> bool"
  for init :: "'s \<Rightarrow> bool" and step :: "'s \<Rightarrow> 's \<Rightarrow> bool" where
  reach_init: "init s \<Longrightarrow> reach init step s"
| reach_step: "reach init step s \<Longrightarrow> step s t \<Longrightarrow> reach init step t"

lemma reach_one: "init s \<Longrightarrow> step s t \<Longrightarrow> reach init step t"
  by (rule reach_step) (rule reach_init)

locale steps_inv =
  fixes init :: "'s \<Rightarrow> bool" and step :: "'s \<Rightarrow> 's \<Rightarrow> bool" and inv :: "'s \<Rightarrow> bool"
  assumes inv_init: "init s \<Longrightarrow> inv s"
    and inv_step: "inv s \<Longrightarrow> step s t \<Longrightarrow> inv t"
begin

lemma reach_inv: "reach init step s \<Longrightarrow> inv s"
  by (induction rule: reach.induct) (auto intro: inv_init inv_step)

lemma reach_step_inv: "reach init step s \<Longrightarrow> step s t \<Longrightarrow> inv s \<and> inv t"
  using reach_inv inv_step by blast

end

section \<open>Refinement\<close>

text \<open>
  A functional refinement: the abstraction of a concrete step is the abstract step on the abstraction, wherever
  the representation is well formed; so whole runs correspond.
\<close>

locale refines =
  fixes wf :: "'c \<Rightarrow> bool" and abs :: "'c \<Rightarrow> 'a"
    and impl :: "'op \<Rightarrow> 'c \<Rightarrow> 'c" and spec :: "'op \<Rightarrow> 'a \<Rightarrow> 'a"
  assumes wf_step: "wf c \<Longrightarrow> wf (impl p c)"
    and abs_step: "wf c \<Longrightarrow> abs (impl p c) = spec p (abs c)"
begin

lemma run_wf: "wf c \<Longrightarrow> wf (fold impl ps c)"
  by (induction ps arbitrary: c) (auto intro: wf_step)

lemma run_abs: "wf c \<Longrightarrow> abs (fold impl ps c) = fold spec ps (abs c)"
  by (induction ps arbitrary: c) (auto simp: wf_step abs_step)

end

text \<open>\<open>str::find\<close>.\<close>

fun str_find :: "string \<Rightarrow> string \<Rightarrow> nat option" where
  "str_find [] p = (if p = [] then Some 0 else None)"
| "str_find (c # s) p = (if starts_with (c # s) p then Some 0 else map_option Suc (str_find s p))"

lemma str_find_Some: "str_find s p = Some i \<Longrightarrow> i + length p \<le> length s \<and> take (length p) (drop i s) = p"
proof (induction s arbitrary: i)
  case (Cons c s)
  show ?case
  proof (cases "starts_with (c # s) p")
    case True
    then have "take (length p) (c # s) = p" by (simp add: starts_with_def)
    moreover have "length (take (length p) (c # s)) \<le> length (c # s)" by simp
    ultimately have "length p \<le> length (c # s)" by simp
    then show ?thesis using Cons.prems True by (simp add: starts_with_def)
  next
    case False
    then show ?thesis using Cons by auto
  qed
qed (auto split: if_splits)

end
