(* ===== verification/Network_Policy.thy ===== *)
theory Network_Policy
  imports Prelude
begin

text \<open>
  Which hosts may be reached: the sandbox proxy (\<open>src/sandbox/proxy/allowlist.rs\<close>, \<open>policy.rs\<close>), the WASM
  tools (\<open>src/tools/wasm/allowlist.rs\<close> and \<open>EndpointPattern\<close> of \<open>capabilities.rs\<close>), and the legal policy
  (\<open>src/legal/policy.rs\<close>). The four host matchers satisfy one contract, the locale \<open>host_matcher\<close>. The
  crates \<open>url\<close> and \<open>urlencoding\<close> are the parameters \<open>parse\<close> and \<open>decode\<close>.
\<close>

section \<open>The contract of a host matcher\<close>

text \<open>\<open>h\<close> is the domain \<open>d\<close> itself or lies below it, at a label boundary.\<close>

definition within_domain :: "string \<Rightarrow> string \<Rightarrow> bool" where
  "within_domain d h \<longleftrightarrow> h = d \<or> (\<exists>t. h = t @ ''.'' @ d)"

locale host_matcher =
  fixes host_ok :: "'p \<Rightarrow> string \<Rightarrow> bool" and domain :: "'p \<Rightarrow> string" and norm :: "string \<Rightarrow> string"
  assumes boundary: "host_ok p h \<Longrightarrow> within_domain (domain p) (norm h)"
begin

text \<open>An allowlist admits only hosts within one of its domains; in particular none that merely ends with
  the text of a domain.\<close>

lemma listed: "list_ex (\<lambda>p. host_ok p h) ps \<Longrightarrow> \<exists>p \<in> set ps. host_ok p h \<and> within_domain (domain p) (norm h)"
  using boundary by (auto simp: list_ex_iff)

lemma no_lookalike: "norm h = x @ domain p \<Longrightarrow> x \<noteq> [] \<Longrightarrow> last x \<noteq> CHR ''.'' \<Longrightarrow> \<not> host_ok p h"
proof
  assume h: "norm h = x @ domain p" "x \<noteq> []" "last x \<noteq> CHR ''.''" and "host_ok p h"
  from boundary [OF this(4)] show False
  proof (cases "norm h = domain p")
    case False
    then obtain t where "x @ domain p = (t @ ''.'') @ domain p"
      using boundary [OF \<open>host_ok p h\<close>] h(1) by (auto simp: within_domain_def)
    then have "x = t @ ''.''" by (metis append_same_eq)
    then show ?thesis using h(3) by simp
  qed (use h in simp)
qed

end

section \<open>Sandbox proxy\<close>

record domain_pattern =
  dp_pattern :: string
  is_wildcard :: bool
  base_domain :: string

definition new_domain_pattern :: "string \<Rightarrow> domain_pattern" where
  "new_domain_pattern pattern =
     (let wild = starts_with pattern ''*.''
      in \<lparr>dp_pattern = pattern, is_wildcard = wild,
          base_domain = (if wild then lowercase (drop 2 pattern) else lowercase pattern)\<rparr>)"

definition dp_matches :: "domain_pattern \<Rightarrow> string \<Rightarrow> bool" where
  "dp_matches p host =
     (let host_lower = lowercase host
      in if is_wildcard p
         then host_lower = base_domain p \<or> ends_with host_lower (''.'' @ base_domain p)
         else host_lower = base_domain p)"

datatype domain_validation = DomainAllowed | DomainDenied string

definition domain_is_allowed :: "domain_pattern list \<Rightarrow> string \<Rightarrow> domain_validation" where
  "domain_is_allowed patterns host =
     (if patterns = [] then DomainDenied ''empty allowlist''
      else if list_ex (\<lambda>p. dp_matches p host) patterns then DomainAllowed
      else DomainDenied (''host '' @ [CHR 0x27] @ host @ [CHR 0x27] @ '' not in allowlist: ['' @
             join_with '', '' (map dp_pattern patterns) @ '']''))"

text \<open>\<open>host_matches_pattern\<close>: \<open>host\<close> is already in lower case.\<close>

definition host_matches_pattern :: "string \<Rightarrow> string \<Rightarrow> bool" where
  "host_matches_pattern host pattern =
     (let pattern_lower = lowercase pattern
      in pattern_lower = host \<or>
         (case strip_prefix pattern_lower ''*.'' of
            Some suf \<Rightarrow>
              ends_with host suf \<and> length host > length suf \<and>
              (let pre = take (length host - length suf) host
               in ends_with pre ''.'' \<or> pre = [])
          | None \<Rightarrow> False))"

datatype credential_location =
    AuthorizationBearer
  | AuthorizationBasic string
  | Header string "string option"
  | QueryParam string
  | UrlPath string

record credential_mapping =
  secret_name :: string
  location :: credential_location
  host_patterns :: "string list"

datatype network_decision = Allow | AllowWithCredentials string credential_location | Deny string

definition find_credential :: "credential_mapping list \<Rightarrow> string \<Rightarrow> credential_mapping option" where
  "find_credential mappings host =
     (let host_lower = lowercase host
      in find (\<lambda>m. list_ex (host_matches_pattern host_lower) (host_patterns m)) mappings)"

record parsed_url =
  pu_scheme :: string
  pu_username :: string
  pu_password :: "string option"
  pu_host :: "string option"
  pu_path :: string

record network_request =
  nr_method :: string
  nr_url :: string
  nr_host :: string
  nr_path :: string

definition strip_brackets :: "string \<Rightarrow> string" where
  "strip_brackets host =
     (case strip_prefix host ''['' of
        Some v \<Rightarrow> (case strip_suffix v '']'' of Some w \<Rightarrow> w | None \<Rightarrow> host)
      | None \<Rightarrow> host)"

definition from_url :: "(string \<Rightarrow> string + parsed_url) \<Rightarrow> string \<Rightarrow> string \<Rightarrow> network_request option" where
  "from_url parse method url =
     (case parse url of
        Inl _ \<Rightarrow> None
      | Inr p \<Rightarrow>
          (if pu_scheme p \<notin> {''http'', ''https''} then None
           else (case pu_host p of
                   None \<Rightarrow> None
                 | Some host \<Rightarrow> Some \<lparr>nr_method = uppercase method, nr_url = url,
                                       nr_host = lowercase (strip_brackets host), nr_path = pu_path p\<rparr>)))"

definition decide :: "domain_pattern list \<Rightarrow> credential_mapping list \<Rightarrow> network_request \<Rightarrow> network_decision" where
  "decide allowlist mappings req =
     (case domain_is_allowed allowlist (nr_host req) of
        DomainDenied reason \<Rightarrow> Deny reason
      | DomainAllowed \<Rightarrow>
          (case find_credential mappings (nr_host req) of
             Some m \<Rightarrow> AllowWithCredentials (secret_name m) (location m)
           | None \<Rightarrow> Allow))"

definition extract_host :: "(string \<Rightarrow> string + parsed_url) \<Rightarrow> string \<Rightarrow> string option" where
  "extract_host parse url =
     (case parse url of
        Inl _ \<Rightarrow> None
      | Inr p \<Rightarrow>
          (if pu_scheme p \<notin> {''http'', ''https''} then None
           else map_option (\<lambda>h. lowercase (strip_brackets h)) (pu_host p)))"

definition allowlist_add :: "domain_pattern list \<Rightarrow> string \<Rightarrow> domain_pattern list" where
  "allowlist_add patterns pattern = patterns @ [new_domain_pattern pattern]"

section \<open>WASM tools\<close>

record endpoint_pattern =
  ep_host :: string
  path_prefix :: "string option"
  ep_methods :: "string list"

definition ep_for_host :: "string \<Rightarrow> endpoint_pattern" where
  "ep_for_host host = \<lparr>ep_host = host, path_prefix = None, ep_methods = []\<rparr>"

definition with_path_prefix :: "string \<Rightarrow> endpoint_pattern \<Rightarrow> endpoint_pattern" where
  "with_path_prefix pre p = p\<lparr>path_prefix := Some pre\<rparr>"

definition with_methods :: "string list \<Rightarrow> endpoint_pattern \<Rightarrow> endpoint_pattern" where
  "with_methods ms p = p\<lparr>ep_methods := ms\<rparr>"

definition ep_host_matches :: "endpoint_pattern \<Rightarrow> string \<Rightarrow> bool" where
  "ep_host_matches p url_host =
     (ep_host p = url_host \<or>
      (case strip_prefix (ep_host p) ''*.'' of
         Some suf \<Rightarrow>
           ends_with url_host suf \<and> length url_host > length suf \<and>
           (let pre = take (length url_host - length suf) url_host
            in ends_with pre ''.'' \<or> pre = [])
       | None \<Rightarrow> False))"

definition ep_matches :: "endpoint_pattern \<Rightarrow> string \<Rightarrow> string \<Rightarrow> string \<Rightarrow> bool" where
  "ep_matches p url_host url_path method =
     (ep_host_matches p url_host \<and>
      (case path_prefix p of Some pre \<Rightarrow> starts_with url_path pre | None \<Rightarrow> True) \<and>
      (ep_methods p = [] \<or> list_ex (\<lambda>m. uppercase m = uppercase method) (ep_methods p)))"

definition is_hex :: "char \<Rightarrow> bool" where
  "is_hex c \<longleftrightarrow> is_digit c \<or> (65 \<le> (of_char c :: nat) \<and> (of_char c :: nat) \<le> 70) \<or>
     (97 \<le> (of_char c :: nat) \<and> (of_char c :: nat) \<le> 102)"

fun has_valid_percent_encoding :: "string \<Rightarrow> bool" where
  "has_valid_percent_encoding [] = True"
| "has_valid_percent_encoding (c # s) =
     (if c = CHR ''%''
      then (case s of a # b # rest \<Rightarrow> is_hex a \<and> is_hex b \<and> has_valid_percent_encoding rest | _ \<Rightarrow> False)
      else has_valid_percent_encoding s)"

text \<open>The loop over the segments; \<open>segs\<close> is the stack, its end the top.\<close>

fun norm_segments :: "(string \<Rightarrow> string option) \<Rightarrow> string list \<Rightarrow> string list \<Rightarrow> string + string list" where
  "norm_segments decode [] segs = Inr segs"
| "norm_segments decode (raw # rest) segs =
     (if \<not> has_valid_percent_encoding raw then Inl (''Invalid percent-encoding in path segment: '' @ raw)
      else (case decode raw of
              None \<Rightarrow> Inl (''Invalid percent-encoding in path segment: '' @ raw)
            | Some segment \<Rightarrow>
                (if CHR ''/'' \<in> set segment \<or> CHR 0x5C \<in> set segment
                 then Inl ''Path segment contains encoded path separator''
                 else if segment = [] \<or> segment = ''.'' then norm_segments decode rest segs
                 else if segment = ''..'' then norm_segments decode rest (butlast segs)
                 else norm_segments decode rest (segs @ [segment]))))"

definition normalize_path :: "(string \<Rightarrow> string option) \<Rightarrow> string \<Rightarrow> string + string" where
  "normalize_path decode path =
     (case norm_segments decode (split_on (CHR ''/'') path) [] of
        Inl e \<Rightarrow> Inl e
      | Inr segs \<Rightarrow>
          let result = ''/'' @ join_with ''/'' segs
          in Inr (if length path > 1 \<and> ends_with path ''/'' \<and> \<not> ends_with result ''/'' then result @ ''/'' else result))"

record url_parts =
  up_scheme :: string
  up_host :: string
  up_path :: string

definition parse_url ::
  "(string \<Rightarrow> string + parsed_url) \<Rightarrow> (string \<Rightarrow> string option) \<Rightarrow> string \<Rightarrow> string + url_parts" where
  "parse_url parse decode url =
     (case parse url of
        Inl e \<Rightarrow> Inl (''URL parse failed: '' @ e)
      | Inr p \<Rightarrow>
          let scheme = lowercase (pu_scheme p)
          in if scheme \<noteq> ''http'' \<and> scheme \<noteq> ''https'' then Inl (''Unsupported scheme: '' @ scheme)
             else if pu_username p \<noteq> [] \<or> pu_password p \<noteq> None
             then Inl ''URL contains userinfo (@) which is not allowed''
             else (case pu_host p of
                     None \<Rightarrow> Inl ''Empty host''
                   | Some host \<Rightarrow>
                       (case normalize_path decode (pu_path p) of
                          Inl e \<Rightarrow> Inl e
                        | Inr path \<Rightarrow> Inr \<lparr>up_scheme = scheme, up_host = lowercase (strip_brackets host), up_path = path\<rparr>)))"

datatype deny_reason =
    InvalidUrl string
  | HostNotAllowed string
  | PathNotAllowed string string
  | MethodNotAllowed string string
  | EmptyAllowlist
  | InsecureScheme string

definition deny_why :: "endpoint_pattern list \<Rightarrow> url_parts \<Rightarrow> string \<Rightarrow> deny_reason" where
  "deny_why patterns u method =
     (let host_matches = filter (\<lambda>p. ep_host_matches p (up_host u)) patterns
      in if host_matches = [] then HostNotAllowed (up_host u)
         else if filter (\<lambda>p. case path_prefix p of None \<Rightarrow> True | Some pre \<Rightarrow> starts_with (up_path u) pre) host_matches = []
         then PathNotAllowed (up_host u) (up_path u)
         else MethodNotAllowed method (up_host u))"

definition allowlist_validate ::
  "(string \<Rightarrow> string + parsed_url) \<Rightarrow> (string \<Rightarrow> string option) \<Rightarrow> bool \<Rightarrow> endpoint_pattern list \<Rightarrow>
   string \<Rightarrow> string \<Rightarrow> deny_reason + unit" where
  "allowlist_validate parse decode require_https patterns url method =
     (if patterns = [] then Inl EmptyAllowlist
      else (case parse_url parse decode url of
              Inl e \<Rightarrow> Inl (InvalidUrl e)
            | Inr u \<Rightarrow>
                (if require_https \<and> up_scheme u \<noteq> ''https'' then Inl (InsecureScheme (up_scheme u))
                 else if list_ex (\<lambda>p. ep_matches p (up_host u) (up_path u) method) patterns then Inr ()
                 else Inl (deny_why patterns u method))))"

definition host_allowed :: "endpoint_pattern list \<Rightarrow> string \<Rightarrow> bool" where
  "host_allowed patterns host = list_ex (\<lambda>p. ep_host_matches p host) patterns"

section \<open>Legal policy\<close>

datatype hardening_profile = Standard | MaxLockdown

record legal_config =
  legal_enabled :: bool
  hardening :: hardening_profile
  active_matter :: "string option"
  privilege_guard :: bool
  deny_by_default :: bool
  allowed_domains :: "string list"

definition normalize_domain :: "string \<Rightarrow> string" where
  "normalize_domain d = lowercase (trim_end_matches (CHR ''.'') (trim d))"

definition legal_domain_match :: "string \<Rightarrow> string \<Rightarrow> bool" where
  "legal_domain_match raw host =
     (let allowed = normalize_domain raw in host = allowed \<or> ends_with host (''.'' @ allowed))"

definition is_network_domain_allowed :: "legal_config \<Rightarrow> string \<Rightarrow> bool" where
  "is_network_domain_allowed cfg raw_host =
     (if \<not> legal_enabled cfg \<or> \<not> deny_by_default cfg then True
      else let host = normalize_domain raw_host
           in host \<noteq> [] \<and> list_ex (\<lambda>raw. legal_domain_match raw host) (allowed_domains cfg))"

definition max_lockdown_side_effect_tools :: "string list" where
  "max_lockdown_side_effect_tools =
     [''http'', ''shell'', ''write_file'', ''apply_patch'', ''memory_write'', ''create_job'', ''cancel_job'',
      ''tool_install'', ''tool_activate'', ''tool_remove'', ''skill_install'', ''skill_remove'',
      ''routine_create'', ''routine_update'', ''routine_delete'']"

definition privilege_guard_egress_tools :: "string list" where
  "privilege_guard_egress_tools = [''http'', ''shell'', ''create_job'']"

definition privilege_guard_confidential_tools :: "string list" where
  "privilege_guard_confidential_tools =
     [''read_file'', ''write_file'', ''list_dir'', ''apply_patch'', ''memory_read'', ''memory_write'',
      ''memory_search'', ''memory_tree'']"

definition is_max_lockdown :: "legal_config \<Rightarrow> bool" where
  "is_max_lockdown cfg \<longleftrightarrow> legal_enabled cfg \<and> hardening cfg = MaxLockdown"

definition requires_explicit_approval :: "legal_config \<Rightarrow> string \<Rightarrow> bool" where
  "requires_explicit_approval cfg tool =
     (if \<not> legal_enabled cfg then False
      else if is_max_lockdown cfg \<and> tool \<in> set max_lockdown_side_effect_tools then True
      else let active_matter_set = (case active_matter cfg of Some m \<Rightarrow> trim m \<noteq> [] | None \<Rightarrow> False)
           in privilege_guard cfg \<and> active_matter_set \<and>
              (tool \<in> set privilege_guard_egress_tools \<or> tool \<in> set privilege_guard_confidential_tools))"

definition sanitize_matter_id :: "string \<Rightarrow> string" where
  "sanitize_matter_id s =
     trim_matches (CHR ''-'')
       (map (\<lambda>c. if is_alnum c \<or> c = CHR ''-'' \<or> c = CHR ''_'' then lower_char c else CHR ''-'') s)"

definition sanitize_optional_matter_id :: "string \<Rightarrow> string option" where
  "sanitize_optional_matter_id s = (let r = sanitize_matter_id s in if r = [] then None else Some r)"

definition non_trivial_keywords :: "string list" where
  "non_trivial_keywords = [''contract'', ''motion'', ''brief'', ''complaint'', ''citation'', ''deposition'',
     ''discovery'', ''research'', ''chronology'', ''evidence'']"

definition is_non_trivial_request :: "string \<Rightarrow> bool" where
  "is_non_trivial_request content =
     (let trimmed = trim content
      in if trimmed = [] then False
         else if length trimmed \<ge> 32 then True
         else if length (split_whitespace trimmed) > 5 then True
         else list_ex (str_contains (lowercase trimmed)) non_trivial_keywords)"

section \<open>The matchers satisfy the contract\<close>

lemma within_domainI: "h = t @ CHR ''.'' # d \<Longrightarrow> within_domain d h"
  by (auto simp: within_domain_def)

text \<open>The wildcard branch shared by \<open>host_matches_pattern\<close> and \<open>EndpointPattern::host_matches\<close>.\<close>

lemma wildcard_branch:
  "(case strip_prefix pat ''*.'' of
      Some suf \<Rightarrow> ends_with h suf \<and> length h > length suf \<and>
        (let pre = take (length h - length suf) h in ends_with pre ''.'' \<or> pre = [])
    | None \<Rightarrow> False) \<longleftrightarrow> (\<exists>d t. pat = ''*.'' @ d \<and> h = t @ ''.'' @ d)"
proof (cases "strip_prefix pat ''*.''")
  case None
  then show ?thesis by (auto simp: strip_prefix_def starts_with_def split: if_splits)
next
  case (Some suf)
  then have "pat = ''*.'' @ suf" by (simp add: str_simps)
  then show ?thesis using Some by (auto simp: ends_with_append Let_def)
qed

text \<open>What a host pattern of a credential mapping or of an endpoint covers: itself, or, when it is
  \<open>*.d\<close>, the hosts strictly below \<open>d\<close>.\<close>

definition covers :: "string \<Rightarrow> string \<Rightarrow> bool" where
  "covers pat h \<longleftrightarrow> h = pat \<or> (\<exists>d t. pat = ''*.'' @ d \<and> h = t @ ''.'' @ d)"

definition pattern_domain :: "string \<Rightarrow> string" where
  "pattern_domain pat = (case strip_prefix pat ''*.'' of Some d \<Rightarrow> d | None \<Rightarrow> pat)"

lemma host_matches_pattern_iff: "host_matches_pattern h pat \<longleftrightarrow> covers (lowercase pat) h"
  unfolding host_matches_pattern_def covers_def Let_def wildcard_branch [unfolded Let_def] by blast

lemma ep_host_matches_iff: "ep_host_matches p h \<longleftrightarrow> covers (ep_host p) h"
  unfolding ep_host_matches_def covers_def wildcard_branch by blast

lemma path_prefix_ok:
  "(case path_prefix p of Some pre \<Rightarrow> starts_with path pre | None \<Rightarrow> True) \<longleftrightarrow>
     (\<forall>pre. path_prefix p = Some pre \<longrightarrow> starts_with path pre)"
  by (auto split: option.splits)

lemma ep_matches_iff:
  "ep_matches p h path method \<longleftrightarrow>
     covers (ep_host p) h \<and> (\<forall>pre. path_prefix p = Some pre \<longrightarrow> starts_with path pre) \<and>
     (ep_methods p = [] \<or> uppercase method \<in> uppercase ` set (ep_methods p))"
  unfolding ep_matches_def path_prefix_ok ep_host_matches_iff list_ex_iff image_iff by (metis (no_types))

lemma covers_within: "covers pat h \<Longrightarrow> within_domain (pattern_domain pat) h"
proof (cases "strip_prefix pat ''*.''")
  case None
  then show "covers pat h \<Longrightarrow> ?thesis"
    by (auto simp: covers_def pattern_domain_def within_domain_def strip_prefix_def starts_with_def split: if_splits)
next
  case (Some d)
  then have "pattern_domain pat = d" by (simp add: pattern_domain_def)
  moreover have "pat = ''*.'' @ d" using Some by (simp add: str_simps)
  moreover have "within_domain d (''*.'' @ d)" by (rule within_domainI [of _ "''*''"]) simp
  ultimately show "covers pat h \<Longrightarrow> ?thesis" by (auto simp: covers_def intro: within_domainI)
qed

lemma dp_matches_iff:
  "dp_matches (new_domain_pattern d) h \<longleftrightarrow>
     (if starts_with d ''*.'' then within_domain (lowercase (drop 2 d)) (lowercase h) else lowercase h = lowercase d)"
  by (auto simp: dp_matches_def new_domain_pattern_def within_domain_def ends_with_append)

lemma dp_matches_within: "dp_matches p h \<Longrightarrow> within_domain (base_domain p) (lowercase h)"
  by (auto simp: dp_matches_def within_domain_def ends_with_append Let_def split: if_splits)

lemma legal_domain_match_iff: "legal_domain_match raw h \<longleftrightarrow> within_domain (normalize_domain raw) h"
  by (auto simp: legal_domain_match_def within_domain_def ends_with_append Let_def)

interpretation proxy_host: host_matcher dp_matches base_domain lowercase
  by unfold_locales (rule dp_matches_within)

interpretation credential_host: host_matcher "\<lambda>pat h. host_matches_pattern h pat" "\<lambda>pat. pattern_domain (lowercase pat)" "\<lambda>h. h"
  by unfold_locales (simp add: host_matches_pattern_iff covers_within)

interpretation endpoint_host: host_matcher ep_host_matches "\<lambda>p. pattern_domain (ep_host p)" "\<lambda>h. h"
  by unfold_locales (simp add: ep_host_matches_iff covers_within)

interpretation legal_host: host_matcher legal_domain_match normalize_domain "\<lambda>h. h"
  by unfold_locales (simp add: legal_domain_match_iff)

section \<open>What the sandbox proxy lets through\<close>

lemma find_credential_sound:
  assumes "find_credential ms host = Some m"
  shows "m \<in> set ms \<and> (\<exists>pat \<in> set (host_patterns m). covers (lowercase pat) (lowercase host))"
  using assms
  by (auto simp: find_credential_def Let_def find_Some_iff list_ex_iff host_matches_pattern_iff in_set_conv_nth)

text \<open>C32: The policy decider of the sandbox proxy allows a request exactly when the request's host,
  compared without regard to case, equals a listed domain or, for a listed \<open>*.d\<close>, is \<open>d\<close> or a
  host below \<open>d\<close> at a label boundary. Credentials are injected only for a mapping one of whose host
  patterns covers that host.\<close>

theorem sandbox_policy:
  "((\<exists>r. decide (map new_domain_pattern ds) ms req = Deny r) \<longleftrightarrow>
      \<not> (\<exists>d \<in> set ds. if starts_with d ''*.''
            then within_domain (lowercase (drop 2 d)) (lowercase (nr_host req))
            else lowercase (nr_host req) = lowercase d)) \<and>
   (decide (map new_domain_pattern ds) ms req = AllowWithCredentials s l \<longrightarrow>
      (\<exists>m \<in> set ms. secret_name m = s \<and> location m = l \<and>
         (\<exists>pat \<in> set (host_patterns m). covers (lowercase pat) (lowercase (nr_host req)))))"
proof
  have "(\<exists>r. decide (map new_domain_pattern ds) ms req = Deny r) \<longleftrightarrow>
      \<not> list_ex (\<lambda>d. dp_matches (new_domain_pattern d) (nr_host req)) ds"
    by (cases "ds = []") (auto simp: decide_def domain_is_allowed_def comp_def list_ex_iff split: option.splits)
  then show "(\<exists>r. decide (map new_domain_pattern ds) ms req = Deny r) \<longleftrightarrow>
      \<not> (\<exists>d \<in> set ds. if starts_with d ''*.''
            then within_domain (lowercase (drop 2 d)) (lowercase (nr_host req))
            else lowercase (nr_host req) = lowercase d)"
    by (simp add: list_ex_iff dp_matches_iff)
  show "decide (map new_domain_pattern ds) ms req = AllowWithCredentials s l \<longrightarrow>
      (\<exists>m \<in> set ms. secret_name m = s \<and> location m = l \<and>
         (\<exists>pat \<in> set (host_patterns m). covers (lowercase pat) (lowercase (nr_host req))))"
    using find_credential_sound
    by (fastforce simp: decide_def split: domain_validation.splits option.splits)
qed

theorem sandbox_policy_witness:
  "decide (map new_domain_pattern [''*.b.c'']) [\<lparr>secret_name = ''k'', location = AuthorizationBearer, host_patterns = [''*.b.c'']\<rparr>]
       \<lparr>nr_method = ''GET'', nr_url = [], nr_host = ''a.b.c'', nr_path = ''/''\<rparr> = AllowWithCredentials ''k'' AuthorizationBearer
   \<and> covers ''*.b.c'' ''a.b.c''"
proof -
  let ?m = "\<lparr>secret_name = ''k'', location = AuthorizationBearer, host_patterns = [''*.b.c'']\<rparr>"
  let ?r = "\<lparr>nr_method = ''GET'', nr_url = [], nr_host = ''a.b.c'', nr_path = ''/''\<rparr>"
  have d: "decide (map new_domain_pattern [''*.b.c'']) [?m] ?r = AllowWithCredentials ''k'' AuthorizationBearer"
    by code_simp
  have l: "lowercase ''*.b.c'' = ''*.b.c''" "lowercase ''a.b.c'' = ''a.b.c''" by code_simp+
  show ?thesis
    using sandbox_policy [of "[''*.b.c'']" "[?m]" ?r "''k''" AuthorizationBearer] d l by simp
qed

section \<open>What the WASM allowlist lets through\<close>

text \<open>A segment that cannot change the meaning of a path.\<close>

definition clean_segment :: "string \<Rightarrow> bool" where
  "clean_segment s \<longleftrightarrow> s \<notin> {[], ''.'', ''..''} \<and> CHR ''/'' \<notin> set s \<and> CHR 0x5C \<notin> set s"

lemma norm_segments_clean:
  "norm_segments decode raws segs = Inr out \<Longrightarrow> list_all clean_segment segs \<Longrightarrow> list_all clean_segment out"
proof (induction decode raws segs rule: norm_segments.induct)
  case (2 decode raw rest segs)
  moreover have "list_all clean_segment (butlast segs)"
    using 2(5) by (auto simp: list_all_iff dest: in_set_butlastD)
  ultimately show ?case unfolding clean_segment_def by (auto split: if_splits option.splits)
qed simp

text \<open>A normalised path is absolute, and its segments are clean.\<close>

definition clean_path :: "string \<Rightarrow> bool" where
  "clean_path path \<longleftrightarrow>
     (\<exists>segs. list_all clean_segment segs \<and>
        (path = ''/'' @ join_with ''/'' segs \<or> path = ''/'' @ join_with ''/'' segs @ ''/''))"

lemma normalize_path_clean: "normalize_path decode path = Inr out \<Longrightarrow> clean_path out"
  using norm_segments_clean [of decode "split_on (CHR ''/'') path" "[]"]
  by (auto simp: normalize_path_def clean_path_def Let_def split: sum.splits if_splits)

lemma parse_url_sound:
  assumes "parse_url parse decode url = Inr u"
  obtains q h where "parse url = Inr q" "pu_username q = []" "pu_password q = None" "pu_host q = Some h"
    "up_scheme u = lowercase (pu_scheme q)" "up_scheme u \<in> {''http'', ''https''}"
    "up_host u = lowercase (strip_brackets h)"
    "normalize_path decode (pu_path q) = Inr (up_path u)" "clean_path (up_path u)"
  using assms normalize_path_clean
  by (auto simp: parse_url_def Let_def split: sum.splits if_splits option.splits)

text \<open>A request of a WASM tool that passes the allowlist has a URL without userinfo, over \<open>https\<close>
  unless plain \<open>http\<close> was asked for; its host is covered by a listed endpoint (so lies within that
  endpoint's domain) which also admits the method; and the path the prefix is compared with is the
  normalised one, absolute and free of empty, \<open>.\<close> and \<open>..\<close> segments and of encoded separators. This
  holds for every URL parser and every percent-decoder.\<close>

theorem wasm_allowlist_sound:
  assumes "allowlist_validate parse decode require_https patterns url method = Inr ()"
  shows "\<exists>q h path. \<exists>p \<in> set patterns.
     parse url = Inr q \<and> pu_username q = [] \<and> pu_password q = None \<and> pu_host q = Some h
   \<and> lowercase (pu_scheme q) \<in> (if require_https then {''https''} else {''http'', ''https''})
   \<and> covers (ep_host p) (lowercase (strip_brackets h))
   \<and> within_domain (pattern_domain (ep_host p)) (lowercase (strip_brackets h))
   \<and> normalize_path decode (pu_path q) = Inr path \<and> clean_path path
   \<and> (\<forall>pre. path_prefix p = Some pre \<longrightarrow> starts_with path pre)
   \<and> (ep_methods p = [] \<or> uppercase method \<in> uppercase ` set (ep_methods p))"
proof -
  from assms obtain u p where u: "parse_url parse decode url = Inr u"
    and s: "require_https \<longrightarrow> up_scheme u = ''https''" and p: "p \<in> set patterns"
    and m: "ep_matches p (up_host u) (up_path u) method"
    by (auto simp: allowlist_validate_def list_ex_iff split: sum.splits if_splits)
  from m have c: "covers (ep_host p) (up_host u)"
    and "\<forall>pre. path_prefix p = Some pre \<longrightarrow> starts_with (up_path u) pre"
    and "ep_methods p = [] \<or> uppercase method \<in> uppercase ` set (ep_methods p)"
    by (auto simp: ep_matches_iff)
  with u s p covers_within [OF c] show ?thesis
    by (elim parse_url_sound) (auto intro!: exI bexI [of _ p])
qed

theorem wasm_allowlist_sound_witness:
  "\<exists>p \<in> set [with_path_prefix ''/v1'' (ep_for_host ''a.b'')]. \<exists>path.
     normalize_path Some ''/x/../v1'' = Inr path \<and> clean_path path \<and> within_domain (pattern_domain (ep_host p)) ''a.b''"
proof -
  let ?q = "\<lparr>pu_scheme = ''https'', pu_username = [], pu_password = None, pu_host = Some ''a.b'', pu_path = ''/x/../v1''\<rparr>"
  have "allowlist_validate (\<lambda>_. Inr ?q) Some True [with_path_prefix ''/v1'' (ep_for_host ''a.b'')] ''u'' ''GET'' = Inr ()"
    by code_simp
  moreover have "lowercase (strip_brackets ''a.b'') = ''a.b''" by code_simp
  ultimately show ?thesis
    using wasm_allowlist_sound [of "\<lambda>_. Inr ?q" Some True "[with_path_prefix ''/v1'' (ep_for_host ''a.b'')]" "''u''" "''GET''"]
    by auto
qed

text \<open>When a WASM request is refused for its host, no listed endpoint covers the host; when it is
  refused for its path, an endpoint covers the host but none of those has a prefix of the path; when
  for its method, an endpoint covers host and path but none of those lists the method.\<close>

theorem wasm_deny_reason:
  assumes "parse_url parse decode url = Inr u"
    and "allowlist_validate parse decode require_https patterns url method = Inl reason"
  shows "case reason of
      EmptyAllowlist \<Rightarrow> patterns = []
    | InvalidUrl _ \<Rightarrow> False
    | InsecureScheme sch \<Rightarrow> require_https \<and> sch = up_scheme u \<and> sch = ''http''
    | HostNotAllowed h \<Rightarrow> h = up_host u \<and> \<not> host_allowed patterns h
    | PathNotAllowed h path \<Rightarrow> host_allowed patterns h \<and> h = up_host u \<and> path = up_path u
        \<and> (\<forall>p \<in> set patterns. covers (ep_host p) h \<longrightarrow> (\<exists>pre. path_prefix p = Some pre \<and> \<not> starts_with path pre))
    | MethodNotAllowed m h \<Rightarrow> m = method \<and> h = up_host u
        \<and> (\<exists>p \<in> set patterns. covers (ep_host p) h \<and> (\<forall>pre. path_prefix p = Some pre \<longrightarrow> starts_with (up_path u) pre)
             \<and> ep_methods p \<noteq> [] \<and> uppercase m \<notin> uppercase ` set (ep_methods p))"
proof -
  have "up_scheme u \<in> {''http'', ''https''}" using assms(1) by (elim parse_url_sound)
  moreover have "?thesis" if "reason = deny_why patterns u method"
    and n: "\<not> list_ex (\<lambda>p. ep_matches p (up_host u) (up_path u) method) patterns"
  proof -
    from n have "\<forall>p \<in> set patterns. covers (ep_host p) (up_host u) \<and>
        (\<forall>pre. path_prefix p = Some pre \<longrightarrow> starts_with (up_path u) pre) \<longrightarrow>
        ep_methods p \<noteq> [] \<and> uppercase method \<notin> uppercase ` set (ep_methods p)"
      by (auto simp: list_ex_iff ep_matches_iff)
    with that(1) show ?thesis
      unfolding deny_why_def Let_def path_prefix_ok
      by (auto simp: host_allowed_def list_ex_iff filter_empty_conv ep_host_matches_iff)
  qed
  ultimately show ?thesis
    using assms by (auto simp: allowlist_validate_def split: if_splits)
qed

theorem wasm_deny_reason_witness:
  "parse_url (\<lambda>_. Inr \<lparr>pu_scheme = ''https'', pu_username = [], pu_password = None, pu_host = Some ''xa.b'', pu_path = ''/''\<rparr>) Some ''u''
     = Inr \<lparr>up_scheme = ''https'', up_host = ''xa.b'', up_path = ''/''\<rparr>
   \<and> \<not> host_allowed [ep_for_host ''*.a.b''] ''xa.b''"
proof -
  let ?f = "\<lambda>_. Inr \<lparr>pu_scheme = ''https'', pu_username = [], pu_password = None, pu_host = Some ''xa.b'', pu_path = ''/''\<rparr>"
  have p: "parse_url ?f Some ''u'' = Inr \<lparr>up_scheme = ''https'', up_host = ''xa.b'', up_path = ''/''\<rparr>"
    by code_simp
  moreover have "allowlist_validate ?f Some True [ep_for_host ''*.a.b''] ''u'' ''GET'' = Inl (HostNotAllowed ''xa.b'')"
    by code_simp
  ultimately show ?thesis using wasm_deny_reason [OF p] by fastforce
qed

section \<open>What the legal policy lets through\<close>

lemma trim_end_matches_last: "trim_end_matches c s \<noteq> [] \<Longrightarrow> last (trim_end_matches c s) \<noteq> c"
  using hd_dropWhile [of "\<lambda>x. x = c" "rev s"] by (auto simp: trim_end_matches_def last_rev)

lemma normalize_domain_last: "normalize_domain d \<noteq> [] \<Longrightarrow> last (normalize_domain d) \<noteq> CHR ''.''"
proof -
  assume "normalize_domain d \<noteq> []"
  then have t: "trim_end_matches (CHR ''.'') (trim d) \<noteq> []" (is "?t \<noteq> []")
    by (auto simp: normalize_domain_def lowercase_def)
  then have "last (normalize_domain d) = lower_char (last ?t)"
    by (simp add: normalize_domain_def lowercase_def last_map)
  moreover have "lower_char c = CHR ''.'' \<Longrightarrow> c = CHR ''.''" for c
    by (auto simp: lower_char_def is_upper_def char_of_eq_iff take_bit_nat_eq_self split: if_splits)
  ultimately show ?thesis using trim_end_matches_last [OF t] by metis
qed

text \<open>With the legal deny-by-default policy in force, a host may be reached exactly when, after
  trimming, dropping trailing dots and lower-casing, it is one of the allowed domains (normalised the
  same way, and not empty) or a host below one at a label boundary. In particular a blank entry of the
  list admits nothing, and a blank host is never admitted.\<close>

theorem legal_network_exact:
  assumes "legal_enabled cfg" "deny_by_default cfg"
  shows "is_network_domain_allowed cfg host \<longleftrightarrow>
     (\<exists>d \<in> set (allowed_domains cfg). normalize_domain d \<noteq> [] \<and> within_domain (normalize_domain d) (normalize_domain host))"
proof
  assume "is_network_domain_allowed cfg host"
  then have ne: "normalize_domain host \<noteq> []"
    and "list_ex (\<lambda>raw. legal_domain_match raw (normalize_domain host)) (allowed_domains cfg)"
    using assms by (auto simp: is_network_domain_allowed_def Let_def)
  from legal_host.listed [OF this(2)] obtain d where d: "d \<in> set (allowed_domains cfg)"
    "within_domain (normalize_domain d) (normalize_domain host)" by auto
  moreover have "normalize_domain d \<noteq> []"
    using d(2) ne normalize_domain_last [OF ne] by (auto simp: within_domain_def)
  ultimately show "\<exists>d \<in> set (allowed_domains cfg). normalize_domain d \<noteq> [] \<and> within_domain (normalize_domain d) (normalize_domain host)"
    by blast
next
  assume "\<exists>d \<in> set (allowed_domains cfg). normalize_domain d \<noteq> [] \<and> within_domain (normalize_domain d) (normalize_domain host)"
  then show "is_network_domain_allowed cfg host"
    using assms by (auto simp: is_network_domain_allowed_def Let_def list_ex_iff legal_domain_match_iff within_domain_def)
qed

theorem legal_network_exact_witness:
  "is_network_domain_allowed \<lparr>legal_enabled = True, hardening = Standard, active_matter = None, privilege_guard = False,
      deny_by_default = True, allowed_domains = ['''', ''Court.Gov'']\<rparr> ''www.court.gov.'' \<longleftrightarrow>
   (\<exists>d \<in> {'''', ''Court.Gov''}. normalize_domain d \<noteq> [] \<and> within_domain (normalize_domain d) (normalize_domain ''www.court.gov.''))"
  using legal_network_exact [of "\<lparr>legal_enabled = True, hardening = Standard, active_matter = None, privilege_guard = False,
      deny_by_default = True, allowed_domains = ['''', ''Court.Gov'']\<rparr>" "''www.court.gov.''"] by simp

section \<open>Matter identifiers\<close>

definition matter_char :: "char \<Rightarrow> bool" where
  "matter_char c \<longleftrightarrow> is_lower c \<or> is_digit c \<or> c \<in> {CHR ''-'', CHR ''_''}"

lemma matter_char_map:
  "matter_char (if is_alnum c \<or> c = CHR ''-'' \<or> c = CHR ''_'' then lower_char c else CHR ''-'')"
  by (auto simp: matter_char_def is_alnum_def is_lower_def is_upper_def is_digit_def lower_char_def)

lemma matter_char_fixed:
  "matter_char c \<Longrightarrow> is_alnum c \<or> c = CHR ''-'' \<or> c = CHR ''_''" "matter_char c \<Longrightarrow> lower_char c = c"
  by (auto simp: matter_char_def is_alnum_def is_lower_def is_upper_def is_digit_def lower_char_def)

lemma set_trim_matches: "set (trim_matches c s) \<subseteq> set s"
  by (auto simp: trim_matches_def trim_start_matches_def trim_end_matches_def dest!: set_dropWhileD)

lemma trim_matches_ends:
  assumes "trim_matches c s \<noteq> []"
  shows "hd (trim_matches c s) \<noteq> c \<and> last (trim_matches c s) \<noteq> c"
proof
  let ?t = "trim_start_matches c s"
  have "?t = trim_matches c s @ rev (takeWhile (\<lambda>x. x = c) (rev ?t))"
    unfolding trim_matches_def trim_end_matches_def
    by (metis rev_append rev_rev_ident takeWhile_dropWhile_id)
  then have "hd (trim_matches c s) = hd ?t" and "?t \<noteq> []" using assms by (metis hd_append2, auto)
  then show "hd (trim_matches c s) \<noteq> c"
    using hd_dropWhile [of "\<lambda>x. x = c" s] by (auto simp: trim_start_matches_def)
  show "last (trim_matches c s) \<noteq> c"
    using trim_end_matches_last assms by (simp add: trim_matches_def)
qed

lemma dropWhile_hd: "s = [] \<or> \<not> P (hd s) \<Longrightarrow> dropWhile P s = s"
  by (cases s) auto

lemma trim_matches_id: "s = [] \<or> hd s \<noteq> c \<and> last s \<noteq> c \<Longrightarrow> trim_matches c s = s"
  using dropWhile_hd [of s "\<lambda>x. x = c"] dropWhile_hd [of "rev s" "\<lambda>x. x = c"]
  by (auto simp: trim_matches_def trim_start_matches_def trim_end_matches_def hd_rev)

text \<open>A sanitised matter identifier holds only lower-case letters, digits, \<open>-\<close> and \<open>_\<close> (so it is one
  safe path component), does not begin or end with \<open>-\<close>, and sanitising it again changes nothing;
  \<open>sanitize_optional_matter_id\<close> answers \<open>None\<close> exactly when nothing is left.\<close>

theorem matter_id_safe:
  "list_all matter_char (sanitize_matter_id s)
   \<and> sanitize_matter_id (sanitize_matter_id s) = sanitize_matter_id s
   \<and> (case sanitize_optional_matter_id s of
        None \<Rightarrow> sanitize_matter_id s = []
      | Some r \<Rightarrow> r = sanitize_matter_id s \<and> hd r \<noteq> CHR ''-'' \<and> last r \<noteq> CHR ''-'')"
proof -
  let ?f = "\<lambda>c. if is_alnum c \<or> c = CHR ''-'' \<or> c = CHR ''_'' then lower_char c else CHR ''-''"
  have set: "list_all matter_char (sanitize_matter_id s)"
    unfolding list_all_iff
  proof
    fix x assume "x \<in> set (sanitize_matter_id s)"
    then have "x \<in> set (map ?f s)"
      using set_trim_matches [of "CHR ''-''" "map ?f s"] unfolding sanitize_matter_id_def by blast
    then obtain c where "x = ?f c" unfolding set_map by (rule imageE)
    then show "matter_char x" by (simp only: matter_char_map)
  qed
  then have "map ?f (sanitize_matter_id s) = sanitize_matter_id s"
    by (intro map_idI) (auto simp: list_all_iff matter_char_fixed)
  moreover have ends: "sanitize_matter_id s = [] \<or> hd (sanitize_matter_id s) \<noteq> CHR ''-'' \<and> last (sanitize_matter_id s) \<noteq> CHR ''-''"
    using trim_matches_ends unfolding sanitize_matter_id_def by blast
  ultimately have "sanitize_matter_id (sanitize_matter_id s) = sanitize_matter_id s"
    using trim_matches_id [OF ends] by (simp add: sanitize_matter_id_def [of "sanitize_matter_id s"])
  then show ?thesis using set ends by (auto simp: sanitize_optional_matter_id_def Let_def)
qed

end
