(* ===== verification/Access_Control.thy ===== *)
theory Access_Control
  imports Network_Policy
begin

text \<open>
  Who may do what in the web gateway: the accounts, token hashes and matter memberships of the libSQL backend
  (\<open>impl RbacStore\<close> of \<open>src/db/libsql/legal_practice.rs\<close>), the bearer token middleware
  (\<open>src/channels/web/auth.rs\<close>) and its set-up in \<open>start_server\<close>, the guard \<open>require_matter_access\<close>, and the handlers
  that manage members (\<open>handlers/matters/core.rs\<close>) and users (\<open>handlers/users.rs\<close>).

  A table is the list of its rows. Whether a connection can be had (\<open>gd_down\<close>, the rendered error otherwise) and whether
  the linked engine enforces foreign keys (\<open>gd_fk\<close>) are parts of the state that no operation changes. A
  \<open>DatabaseError\<close> is its rendered text. The hash functions and the percent decoder are parameters.
\<close>

section \<open>Roles, rows and the store\<close>

datatype user_role = Admin | Attorney | Staff | UserViewer

definition user_role_str :: "user_role \<Rightarrow> string" where
  "user_role_str r = (case r of Admin \<Rightarrow> ''admin'' | Attorney \<Rightarrow> ''attorney'' | Staff \<Rightarrow> ''staff'' | UserViewer \<Rightarrow> ''viewer'')"

definition user_role_from_db_value :: "string \<Rightarrow> user_role option" where
  "user_role_from_db_value s =
     (if s = ''admin'' then Some Admin else if s = ''attorney'' then Some Attorney
      else if s = ''staff'' then Some Staff else if s = ''viewer'' then Some UserViewer else None)"

datatype matter_member_role = Owner | Collaborator | Viewer

definition member_role_str :: "matter_member_role \<Rightarrow> string" where
  "member_role_str r = (case r of Owner \<Rightarrow> ''owner'' | Collaborator \<Rightarrow> ''collaborator'' | Viewer \<Rightarrow> ''viewer'')"

definition member_role_from_db_value :: "string \<Rightarrow> matter_member_role option" where
  "member_role_from_db_value s =
     (if s = ''owner'' then Some Owner else if s = ''collaborator'' then Some Collaborator
      else if s = ''viewer'' then Some Viewer else None)"

record user_record =
  ur_id :: string
  ur_display_name :: string
  ur_role :: user_role
  ur_is_active :: bool
  ur_created_at :: nat
  ur_updated_at :: nat

record matter_membership =
  mm_id :: uuid
  mm_owner :: string
  mm_matter :: string
  mm_member :: string
  mm_role :: matter_member_role
  mm_created_at :: nat
  mm_updated_at :: nat

text \<open>\<open>gd_tokens\<close> holds the pairs of \<open>user_id\<close> and \<open>token_hash\<close>, \<open>gd_matters\<close> the keys of the table \<open>matters\<close>.\<close>

record gateway_db =
  gd_down :: "string option"
  gd_fk :: bool
  gd_users :: "user_record list"
  gd_tokens :: "(string \<times> string) list"
  gd_members :: "matter_membership list"
  gd_matters :: "(string \<times> string) list"

section \<open>The role store\<close>

definition user_exists :: "string \<Rightarrow> 'a gateway_db_scheme \<Rightarrow> bool" where
  "user_exists u db \<longleftrightarrow> (\<exists>r \<in> set (gd_users db). ur_id r = u)"

definition fk_error :: string where
  "fk_error = ''LibSQL error: SQLite failure: `FOREIGN KEY constraint failed`''"

definition get_user_account :: "string \<Rightarrow> 'a gateway_db_scheme \<Rightarrow> string + user_record option" where
  "get_user_account u db =
     (case gd_down db of Some e \<Rightarrow> Inl e | None \<Rightarrow> Inr (find (\<lambda>r. ur_id r = u) (gd_users db)))"

definition ensure_user_account ::
  "nat \<Rightarrow> string \<Rightarrow> string \<Rightarrow> user_role \<Rightarrow> 'a gateway_db_scheme \<Rightarrow> (string + user_record) \<times> 'a gateway_db_scheme" where
  "ensure_user_account now u name default_role db =
     (case gd_down db of Some e \<Rightarrow> (Inl e, db)
      | None \<Rightarrow>
          let rows = (if user_exists u db
                      then map (\<lambda>r. if ur_id r = u then r\<lparr>ur_display_name := name, ur_updated_at := now\<rparr> else r) (gd_users db)
                      else gd_users db @ [\<lparr>ur_id = u, ur_display_name = name, ur_role = default_role, ur_is_active = True,
                                           ur_created_at = now, ur_updated_at = now\<rparr>]);
              db' = db\<lparr>gd_users := rows\<rparr>
          in (case find (\<lambda>r. ur_id r = u) rows of
                Some r \<Rightarrow> (Inr r, db')
              | None \<Rightarrow> (Inl ''Query failed: failed to load ensured user'', db')))"

text \<open>The deletion is a statement of its own: it stays when the insertion fails.\<close>

definition upsert_user_token_hash ::
  "string \<Rightarrow> string \<Rightarrow> 'a gateway_db_scheme \<Rightarrow> (string + unit) \<times> 'a gateway_db_scheme" where
  "upsert_user_token_hash u h db =
     (case gd_down db of Some e \<Rightarrow> (Inl e, db)
      | None \<Rightarrow>
          let kept = filter (\<lambda>(u', h'). \<not> (u' = u \<or> h' = h)) (gd_tokens db)
          in if gd_fk db \<and> \<not> user_exists u db then (Inl fk_error, db\<lparr>gd_tokens := kept\<rparr>)
             else (Inr (), db\<lparr>gd_tokens := kept @ [(u, h)]\<rparr>))"

definition get_user_by_token_hash :: "string \<Rightarrow> 'a gateway_db_scheme \<Rightarrow> string + user_record option" where
  "get_user_by_token_hash h db =
     (case gd_down db of Some e \<Rightarrow> Inl e
      | None \<Rightarrow>
          Inr (case [r. (u, h') \<leftarrow> gd_tokens db, h' = h, r \<leftarrow> gd_users db, ur_id r = u \<and> ur_is_active r] of
                 [] \<Rightarrow> None | r # _ \<Rightarrow> Some r))"

definition member_key :: "matter_membership \<Rightarrow> string \<times> string \<times> string" where
  "member_key m = (mm_owner m, mm_matter m, mm_member m)"

definition upsert_matter_membership ::
  "uuid \<Rightarrow> nat \<Rightarrow> string \<times> string \<times> string \<Rightarrow> matter_member_role \<Rightarrow> 'a gateway_db_scheme \<Rightarrow>
   (string + matter_membership) \<times> 'a gateway_db_scheme" where
  "upsert_matter_membership fresh now k role db =
     (case k of (owner, matter, member) \<Rightarrow>
      case gd_down db of Some e \<Rightarrow> (Inl e, db)
      | None \<Rightarrow>
          if k \<notin> member_key ` set (gd_members db) \<and> gd_fk db \<and> (\<not> user_exists member db \<or> (owner, matter) \<notin> set (gd_matters db))
          then (Inl fk_error, db)
          else
            let rows = (if k \<in> member_key ` set (gd_members db)
                        then map (\<lambda>m. if member_key m = k then m\<lparr>mm_role := role, mm_updated_at := now\<rparr> else m) (gd_members db)
                        else gd_members db @ [\<lparr>mm_id = fresh, mm_owner = owner, mm_matter = matter, mm_member = member, mm_role = role,
                                               mm_created_at = now, mm_updated_at = now\<rparr>]);
                db' = db\<lparr>gd_members := rows\<rparr>
            in (case find (\<lambda>m. member_key m = k) rows of
                  Some m \<Rightarrow> (Inr m, db')
                | None \<Rightarrow> (Inl ''Query failed: failed to load upserted matter membership'', db')))"

text \<open>\<open>ORDER BY created_at ASC, id ASC\<close>: the identifier decides between rows of one instant.\<close>

definition list_matter_memberships :: "string \<Rightarrow> string \<Rightarrow> 'a gateway_db_scheme \<Rightarrow> string + matter_membership list" where
  "list_matter_memberships owner matter db =
     (case gd_down db of Some e \<Rightarrow> Inl e
      | None \<Rightarrow> Inr (sort_key mm_created_at (sort_key mm_id
                   (filter (\<lambda>m. mm_owner m = owner \<and> mm_matter m = matter) (gd_members db)))))"

definition check_matter_access ::
  "string \<Rightarrow> string \<Rightarrow> string \<Rightarrow> 'a gateway_db_scheme \<Rightarrow> string + matter_member_role option" where
  "check_matter_access owner matter requester db =
     (if requester = owner then Inr (Some Owner)
      else case gd_down db of Some e \<Rightarrow> Inl e
           | None \<Rightarrow> Inr (map_option mm_role (find (\<lambda>m. member_key m = (owner, matter, requester)) (gd_members db))))"

definition remove_matter_membership ::
  "string \<times> string \<times> string \<Rightarrow> 'a gateway_db_scheme \<Rightarrow> (string + unit) \<times> 'a gateway_db_scheme" where
  "remove_matter_membership k db =
     (case gd_down db of Some e \<Rightarrow> (Inl e, db)
      | None \<Rightarrow> (Inr (), db\<lparr>gd_members := filter (\<lambda>m. member_key m \<noteq> k) (gd_members db)\<rparr>))"

definition update_user_role ::
  "nat \<Rightarrow> string \<Rightarrow> user_role \<Rightarrow> 'a gateway_db_scheme \<Rightarrow> (string + user_record option) \<times> 'a gateway_db_scheme" where
  "update_user_role now u role db =
     (case gd_down db of Some e \<Rightarrow> (Inl e, db)
      | None \<Rightarrow>
          let rows = map (\<lambda>r. if ur_id r = u then r\<lparr>ur_role := role, ur_updated_at := now\<rparr> else r) (gd_users db)
          in (Inr (find (\<lambda>r. ur_id r = u) rows), db\<lparr>gd_users := rows\<rparr>))"

definition deactivate_user :: "nat \<Rightarrow> string \<Rightarrow> 'a gateway_db_scheme \<Rightarrow> (string + unit) \<times> 'a gateway_db_scheme" where
  "deactivate_user now u db =
     (case gd_down db of Some e \<Rightarrow> (Inl e, db)
      | None \<Rightarrow> (Inr (), db\<lparr>gd_users := map (\<lambda>r. if ur_id r = u then r\<lparr>ur_is_active := False, ur_updated_at := now\<rparr> else r) (gd_users db)\<rparr>))"

section \<open>The bearer token middleware\<close>

record auth_principal =
  ap_user_id :: string
  ap_role :: user_role

record 'key auth_state =
  as_token :: string
  as_fallback :: auth_principal
  as_hmac_key :: "'key option"

text \<open>\<open>hmac\<close> and \<open>sha\<close> are the hexadecimal HMAC-SHA256 and SHA-256.\<close>

definition compute_token_hash :: "('key \<Rightarrow> string \<Rightarrow> string) \<Rightarrow> (string \<Rightarrow> string) \<Rightarrow> string \<Rightarrow> 'key option \<Rightarrow> string" where
  "compute_token_hash hmac sha token key = (case key of Some k \<Rightarrow> hmac k token | None \<Rightarrow> sha token)"




text \<open>\<open>hash\<close> is \<open>compute_token_hash\<close> with the key of the state; \<open>store\<close> is the optional database.\<close>

definition resolve_principal_for_token ::
  "('key \<Rightarrow> string \<Rightarrow> string) \<Rightarrow> (string \<Rightarrow> string) \<Rightarrow> 'key auth_state \<Rightarrow> 'a gateway_db_scheme option \<Rightarrow> string \<Rightarrow>
   auth_principal option" where
  "resolve_principal_for_token hmac sha auth store token =
     (let fallback = (if token = as_token auth then Some (as_fallback auth) else None)
      in case store of None \<Rightarrow> fallback
         | Some db \<Rightarrow>
             (case get_user_by_token_hash (compute_token_hash hmac sha token (as_hmac_key auth)) db of
                Inr (Some u) \<Rightarrow> Some \<lparr>ap_user_id = ur_id u, ap_role = ur_role u\<rparr>
              | Inr None \<Rightarrow> fallback
              | Inl e \<Rightarrow> fallback))"


record 'a gateway =
  gw_user_id :: string
  gw_store :: "'a gateway_db_scheme option"

definition resolve_gateway_principal ::
  "nat \<Rightarrow> 'a gateway \<Rightarrow> (string + auth_principal) \<times> 'a gateway" where
  "resolve_gateway_principal now gw =
     (case gw_store gw of
        None \<Rightarrow> (Inr \<lparr>ap_user_id = gw_user_id gw, ap_role = Admin\<rparr>, gw)
      | Some db \<Rightarrow>
          (case ensure_user_account now (gw_user_id gw) (''Gateway User ('' @ gw_user_id gw @ '')'') Admin db of
             (Inl e, db') \<Rightarrow> (Inl e, gw\<lparr>gw_store := Some db'\<rparr>)
           | (Inr u, db') \<Rightarrow> (Inr \<lparr>ap_user_id = ur_id u, ap_role = ur_role u\<rparr>, gw\<lparr>gw_store := Some db'\<rparr>)))"

text \<open>The part of \<open>start_server\<close> that sets up authentication; \<open>derive\<close> is \<open>derive_token_hmac_key\<close>.\<close>

definition start_auth ::
  "('key \<Rightarrow> string \<Rightarrow> string) \<Rightarrow> (string \<Rightarrow> string) \<Rightarrow> (string \<Rightarrow> 'key) \<Rightarrow> nat \<Rightarrow> string \<Rightarrow> 'a gateway \<Rightarrow>
   (string + 'key auth_state) \<times> 'a gateway" where
  "start_auth hmac sha derive now auth_token gw =
     (case resolve_gateway_principal now gw of
        (Inl e, gw1) \<Rightarrow> (Inl e, gw1)
      | (Inr p, gw1) \<Rightarrow>
          let key = derive auth_token;
              auth = \<lparr>as_token = auth_token, as_fallback = p, as_hmac_key = Some key\<rparr>
          in (case gw_store gw1 of
                None \<Rightarrow> (Inr auth, gw1)
              | Some db \<Rightarrow>
                  (case upsert_user_token_hash (ap_user_id p) (compute_token_hash hmac sha auth_token (Some key)) db of
                     (Inl e, db') \<Rightarrow> (Inl e, gw1\<lparr>gw_store := Some db'\<rparr>)
                   | (Inr _, db') \<Rightarrow> (Inr auth, gw1\<lparr>gw_store := Some db'\<rparr>))))"

section \<open>The guard and the handlers\<close>

datatype status_code = OK | CREATED | NO_CONTENT | BAD_REQUEST | UNAUTHORIZED | FORBIDDEN | NOT_FOUND
  | CONFLICT | UNPROCESSABLE_ENTITY | INTERNAL_SERVER_ERROR | SERVICE_UNAVAILABLE

definition role_rank :: "matter_member_role \<Rightarrow> nat" where
  "role_rank r = (case r of Viewer \<Rightarrow> 1 | Collaborator \<Rightarrow> 2 | Owner \<Rightarrow> 3)"

definition require_matter_access ::
  "'a gateway_db_scheme option \<Rightarrow> string \<Rightarrow> string \<Rightarrow> string \<Rightarrow> matter_member_role \<Rightarrow> status_code + matter_member_role" where
  "require_matter_access store owner matter requester minimum =
     (case store of None \<Rightarrow> Inr Owner
      | Some db \<Rightarrow>
          (case check_matter_access owner matter requester db of
             Inl e \<Rightarrow> Inl INTERNAL_SERVER_ERROR
           | Inr None \<Rightarrow> Inl FORBIDDEN
           | Inr (Some role) \<Rightarrow> if role_rank role < role_rank minimum then Inl FORBIDDEN else Inr role))"

definition sanitize_matter_id_for_route :: "string \<Rightarrow> (status_code \<times> string) + string" where
  "sanitize_matter_id_for_route raw =
     (let s = sanitize_matter_id raw in if s = [] then Inl (NOT_FOUND, ''Matter not found'') else Inr s)"

definition matter_members_list_handler ::
  "auth_principal \<Rightarrow> string \<Rightarrow> 'a gateway \<Rightarrow> status_code + string \<times> matter_membership list" where
  "matter_members_list_handler p raw gw =
     (case sanitize_matter_id_for_route raw of Inl _ \<Rightarrow> Inl BAD_REQUEST
      | Inr matter \<Rightarrow>
          (case require_matter_access (gw_store gw) (gw_user_id gw) matter (ap_user_id p) Owner of Inl s \<Rightarrow> Inl s
           | Inr _ \<Rightarrow>
               (case gw_store gw of None \<Rightarrow> Inl SERVICE_UNAVAILABLE
                | Some db \<Rightarrow>
                    (case list_matter_memberships (gw_user_id gw) matter db of
                       Inl e \<Rightarrow> Inl INTERNAL_SERVER_ERROR
                     | Inr rows \<Rightarrow> Inr (matter, rows)))))"

definition matter_member_upsert_handler ::
  "uuid \<Rightarrow> nat \<Rightarrow> auth_principal \<Rightarrow> string \<Rightarrow> string \<Rightarrow> string \<Rightarrow> 'a gateway \<Rightarrow>
   (status_code + matter_membership) \<times> 'a gateway" where
  "matter_member_upsert_handler fresh now p raw member body_role gw =
     (case sanitize_matter_id_for_route raw of Inl _ \<Rightarrow> (Inl BAD_REQUEST, gw)
      | Inr matter \<Rightarrow>
          (case require_matter_access (gw_store gw) (gw_user_id gw) matter (ap_user_id p) Owner of Inl s \<Rightarrow> (Inl s, gw)
           | Inr _ \<Rightarrow>
               if eq_ignore_case (trim body_role) ''owner'' then (Inl BAD_REQUEST, gw)
               else (case member_role_from_db_value body_role of None \<Rightarrow> (Inl BAD_REQUEST, gw)
                     | Some role \<Rightarrow>
                         (case gw_store gw of None \<Rightarrow> (Inl SERVICE_UNAVAILABLE, gw)
                          | Some db \<Rightarrow>
                              (case upsert_matter_membership fresh now (gw_user_id gw, matter, member) role db of
                                 (Inr m, db') \<Rightarrow> (Inr m, gw\<lparr>gw_store := Some db'\<rparr>)
                               | (Inl e, db') \<Rightarrow>
                                   (Inl (if str_contains e ''FOREIGN KEY constraint'' \<or> str_contains e ''foreign key constraint''
                                         then UNPROCESSABLE_ENTITY else INTERNAL_SERVER_ERROR),
                                    gw\<lparr>gw_store := Some db'\<rparr>))))))"

definition matter_member_remove_handler ::
  "auth_principal \<Rightarrow> string \<Rightarrow> string \<Rightarrow> 'a gateway \<Rightarrow> (status_code + status_code) \<times> 'a gateway" where
  "matter_member_remove_handler p raw member gw =
     (case sanitize_matter_id_for_route raw of Inl _ \<Rightarrow> (Inl BAD_REQUEST, gw)
      | Inr matter \<Rightarrow>
          (case require_matter_access (gw_store gw) (gw_user_id gw) matter (ap_user_id p) Owner of Inl s \<Rightarrow> (Inl s, gw)
           | Inr _ \<Rightarrow>
               (case gw_store gw of None \<Rightarrow> (Inl SERVICE_UNAVAILABLE, gw)
                | Some db \<Rightarrow>
                    (case remove_matter_membership (gw_user_id gw, matter, member) db of
                       (Inl e, db') \<Rightarrow> (Inl INTERNAL_SERVER_ERROR, gw\<lparr>gw_store := Some db'\<rparr>)
                     | (Inr _, db') \<Rightarrow> (Inr NO_CONTENT, gw\<lparr>gw_store := Some db'\<rparr>)))))"

definition update_user_role_handler ::
  "nat \<Rightarrow> auth_principal \<Rightarrow> string \<Rightarrow> string \<Rightarrow> 'a gateway \<Rightarrow> (status_code + user_record) \<times> 'a gateway" where
  "update_user_role_handler now p u body_role gw =
     (if ap_role p \<noteq> Admin then (Inl FORBIDDEN, gw)
      else case user_role_from_db_value body_role of None \<Rightarrow> (Inl BAD_REQUEST, gw)
           | Some role \<Rightarrow>
               (case gw_store gw of None \<Rightarrow> (Inl SERVICE_UNAVAILABLE, gw)
                | Some db \<Rightarrow>
                    (case update_user_role now u role db of
                       (Inl e, db') \<Rightarrow> (Inl INTERNAL_SERVER_ERROR, gw\<lparr>gw_store := Some db'\<rparr>)
                     | (Inr None, db') \<Rightarrow> (Inl NOT_FOUND, gw\<lparr>gw_store := Some db'\<rparr>)
                     | (Inr (Some r), db') \<Rightarrow> (Inr r, gw\<lparr>gw_store := Some db'\<rparr>))))"

definition deactivate_user_handler ::
  "nat \<Rightarrow> auth_principal \<Rightarrow> string \<Rightarrow> 'a gateway \<Rightarrow> (status_code + status_code) \<times> 'a gateway" where
  "deactivate_user_handler now p u gw =
     (if ap_role p \<noteq> Admin then (Inl FORBIDDEN, gw)
      else case gw_store gw of None \<Rightarrow> (Inl SERVICE_UNAVAILABLE, gw)
           | Some db \<Rightarrow>
               (case deactivate_user now u db of
                  (Inl e, db') \<Rightarrow> (Inl INTERNAL_SERVER_ERROR, gw\<lparr>gw_store := Some db'\<rparr>)
                | (Inr _, db') \<Rightarrow> (Inr NO_CONTENT, gw\<lparr>gw_store := Some db'\<rparr>)))"

section \<open>Memberships refine an access matrix\<close>

text \<open>
  The abstract view: a partial function from owner, matter and member to a role. \<open>am_up\<close> and \<open>am_admits\<close> are what
  the surroundings contribute: whether the database answers, and which keys satisfy the foreign keys.
\<close>

record access_matrix =
  am_up :: bool
  am_admits :: "string \<times> string \<times> string \<Rightarrow> bool"
  am_role :: "string \<times> string \<times> string \<Rightarrow> matter_member_role option"

datatype member_op = Upsert uuid nat "string \<times> string \<times> string" matter_member_role | Remove "string \<times> string \<times> string"

fun matrix_op :: "member_op \<Rightarrow> access_matrix \<Rightarrow> access_matrix" where
  "matrix_op (Upsert _ _ k r) m =
     (if am_up m \<and> (am_role m k \<noteq> None \<or> am_admits m k) then m\<lparr>am_role := (am_role m)(k \<mapsto> r)\<rparr> else m)"
| "matrix_op (Remove k) m = (if am_up m then m\<lparr>am_role := (am_role m)(k := None)\<rparr> else m)"

fun store_op :: "member_op \<Rightarrow> 'a gateway_db_scheme \<Rightarrow> 'a gateway_db_scheme" where
  "store_op (Upsert fresh now k r) db = snd (upsert_matter_membership fresh now k r db)"
| "store_op (Remove k) db = snd (remove_matter_membership k db)"

definition members_wf :: "'a gateway_db_scheme \<Rightarrow> bool" where
  "members_wf db \<longleftrightarrow> distinct (map member_key (gd_members db))"

definition role_of :: "'a gateway_db_scheme \<Rightarrow> string \<times> string \<times> string \<Rightarrow> matter_member_role option" where
  "role_of db k = map_option mm_role (find (\<lambda>m. member_key m = k) (gd_members db))"

definition matrix_of :: "'a gateway_db_scheme \<Rightarrow> access_matrix" where
  "matrix_of db = \<lparr>am_up = (gd_down db = None),
     am_admits = (\<lambda>(owner, matter, member). gd_fk db \<longrightarrow> user_exists member db \<and> (owner, matter) \<in> set (gd_matters db)),
     am_role = role_of db\<rparr>"

lemma find_map_keyed:
  assumes "\<And>x. key (f x) = key x"
  shows "find (\<lambda>x. key x = k) (map (\<lambda>x. if key x = k' then f x else x) xs) =
    map_option (\<lambda>x. if key x = k' then f x else x) (find (\<lambda>x. key x = k) xs)"
  using assms by (induction xs) auto

lemma find_filter_key:
  "find (\<lambda>x. key x = k) (filter (\<lambda>x. key x \<noteq> k') xs) = (if k = k' then None else find (\<lambda>x. key x = k) xs)"
  by (induction xs) auto

lemma find_holds: "find P xs = Some x \<Longrightarrow> P x"
  by (auto simp: find_Some_iff)

lemma find_None_key: "find (\<lambda>x. key x = k) xs = None \<longleftrightarrow> k \<notin> key ` set xs"
  by (auto simp: find_None_iff)

lemma role_of_None: "role_of db k = None \<longleftrightarrow> k \<notin> member_key ` set (gd_members db)"
  by (simp add: role_of_def find_None_key)

lemma member_key_upd [simp]: "member_key (m\<lparr>mm_role := r, mm_updated_at := n\<rparr>) = member_key m"
  by (simp add: member_key_def)

text \<open>What an upsert leaves behind, on each of its branches.\<close>

lemma upsert_existing:
  assumes "gd_down db = None" and "k \<in> member_key ` set (gd_members db)"
  shows "snd (upsert_matter_membership fresh now k r db) =
    db\<lparr>gd_members := map (\<lambda>m. if member_key m = k then m\<lparr>mm_role := r, mm_updated_at := now\<rparr> else m) (gd_members db)\<rparr>"
  using assms by (cases k) (auto simp: upsert_matter_membership_def Let_def split: option.splits)

lemma upsert_new:
  assumes "gd_down db = None" and "(ow, ma, me) \<notin> member_key ` set (gd_members db)" and "am_admits (matrix_of db) (ow, ma, me)"
  shows "snd (upsert_matter_membership fresh now (ow, ma, me) r db) =
    db\<lparr>gd_members := gd_members db @ [\<lparr>mm_id = fresh, mm_owner = ow, mm_matter = ma, mm_member = me, mm_role = r,
                                               mm_created_at = now, mm_updated_at = now\<rparr>]\<rparr>"
  using assms by (auto simp: upsert_matter_membership_def matrix_of_def Let_def split: option.splits)

lemma upsert_refused:
  assumes "gd_down db \<noteq> None \<or> (k \<notin> member_key ` set (gd_members db) \<and> \<not> am_admits (matrix_of db) k)"
  shows "snd (upsert_matter_membership fresh now k r db) = db"
  using assms by (cases k) (auto simp: upsert_matter_membership_def matrix_of_def Let_def split: option.splits)

lemma role_of_upd:
  "role_of (db\<lparr>gd_members := map (\<lambda>m. if member_key m = k then m\<lparr>mm_role := r, mm_updated_at := n\<rparr> else m) (gd_members db)\<rparr>) k' =
   (if k' = k \<and> role_of db k \<noteq> None then Some r else role_of db k')"
proof -
  have "find (\<lambda>m. member_key m = k') (map (\<lambda>m. if member_key m = k then m\<lparr>mm_role := r, mm_updated_at := n\<rparr> else m) (gd_members db))
    = map_option (\<lambda>m. if member_key m = k then m\<lparr>mm_role := r, mm_updated_at := n\<rparr> else m) (find (\<lambda>m. member_key m = k') (gd_members db))"
    by (rule find_map_keyed) simp
  then show ?thesis
    by (cases "find (\<lambda>m. member_key m = k') (gd_members db)") (auto simp: role_of_def dest: find_holds)
qed

lemma role_of_new:
  assumes "member_key m \<notin> member_key ` set (gd_members db)"
  shows "role_of (db\<lparr>gd_members := gd_members db @ [m]\<rparr>) = (role_of db)(member_key m \<mapsto> mm_role m)"
proof
  fix k
  show "role_of (db\<lparr>gd_members := gd_members db @ [m]\<rparr>) k = ((role_of db)(member_key m \<mapsto> mm_role m)) k"
    using assms by (cases "find (\<lambda>m. member_key m = k) (gd_members db)")
      (auto simp: role_of_def find_append find_None_key [symmetric])
qed

lemma store_op_wf: "members_wf db \<Longrightarrow> members_wf (store_op p db)"
proof (cases p)
  case (Upsert fresh now k r)
  assume wf: "members_wf db"
  consider (refused) "gd_down db \<noteq> None \<or> (k \<notin> member_key ` set (gd_members db) \<and> \<not> am_admits (matrix_of db) k)"
    | (existing) "gd_down db = None" "k \<in> member_key ` set (gd_members db)"
    | (new) "gd_down db = None" "k \<notin> member_key ` set (gd_members db)" "am_admits (matrix_of db) k" by blast
  then show ?thesis
  proof cases
    case existing
    have "map member_key (map (\<lambda>m. if member_key m = k then m\<lparr>mm_role := r, mm_updated_at := now\<rparr> else m) (gd_members db)) =
      map member_key (gd_members db)" by (simp add: comp_def)
    then show ?thesis using wf Upsert existing by (simp add: upsert_existing members_wf_def del: map_map)
  next
    case new
    obtain ow ma me where "k = (ow, ma, me)" by (cases k)
    then show ?thesis using wf Upsert new upsert_new [of db ow ma me fresh now r] by (simp add: members_wf_def member_key_def)
  qed (use wf Upsert in \<open>simp add: upsert_refused\<close>)
next
  case (Remove k)
  assume "members_wf db"
  then show ?thesis using Remove
    by (auto simp: members_wf_def remove_matter_membership_def distinct_map split: option.splits intro: inj_on_subset)
qed

lemma store_op_abs: "matrix_of (store_op p db) = matrix_op p (matrix_of db)"
proof (cases p)
  case (Upsert fresh now k r)
  obtain ow ma me where k: "k = (ow, ma, me)" by (cases k)
  consider (refused) "gd_down db \<noteq> None \<or> (k \<notin> member_key ` set (gd_members db) \<and> \<not> am_admits (matrix_of db) k)"
    | (existing) "gd_down db = None" "k \<in> member_key ` set (gd_members db)"
    | (new) "gd_down db = None" "k \<notin> member_key ` set (gd_members db)" "am_admits (matrix_of db) k" by blast
  then show ?thesis
  proof cases
    case refused
    have "store_op p db = db" using Upsert refused by (simp add: upsert_refused)
    moreover have "\<not> (am_up (matrix_of db) \<and> (am_role (matrix_of db) k \<noteq> None \<or> am_admits (matrix_of db) k))"
      using refused role_of_None [of db k] by (auto simp: matrix_of_def)
    ultimately show ?thesis using Upsert by auto
  next
    case existing
    then have "role_of db k \<noteq> None" by (simp add: role_of_None)
    then show ?thesis using Upsert existing
      by (auto simp: upsert_existing matrix_of_def user_exists_def role_of_upd fun_eq_iff)
  next
    case new
    have "role_of (db\<lparr>gd_members := gd_members db @ [\<lparr>mm_id = fresh, mm_owner = ow, mm_matter = ma, mm_member = me, mm_role = r,
                                               mm_created_at = now, mm_updated_at = now\<rparr>]\<rparr>) = (role_of db)(k \<mapsto> r)"
      using new(2) k role_of_new [of "\<lparr>mm_id = fresh, mm_owner = ow, mm_matter = ma, mm_member = me, mm_role = r,
                                               mm_created_at = now, mm_updated_at = now\<rparr>" db]
      by (simp add: member_key_def [of "\<lparr>mm_id = fresh, mm_owner = ow, mm_matter = ma, mm_member = me, mm_role = r,
                                               mm_created_at = now, mm_updated_at = now\<rparr>"])
    then show ?thesis using Upsert new k upsert_new [of db ow ma me fresh now r]
      by (simp add: matrix_of_def user_exists_def)
  qed
next
  case (Remove k)
  then show ?thesis
    by (auto simp: remove_matter_membership_def matrix_of_def user_exists_def role_of_def find_filter_key fun_eq_iff split: option.splits)
qed

interpretation members: refines members_wf matrix_of store_op matrix_op
  by unfold_locales (auto intro: store_op_wf simp: store_op_abs)

lemma check_matter_access_role_of:
  "check_matter_access owner matter u db =
     (if u = owner then Inr (Some Owner)
      else case gd_down db of Some e \<Rightarrow> Inl e | None \<Rightarrow> Inr (role_of db (owner, matter, u)))"
  by (simp add: check_matter_access_def role_of_def split: option.splits)

lemma require_ok:
  "require_matter_access (Some db) owner matter u minimum = Inr role \<longleftrightarrow>
     role_rank minimum \<le> role_rank role \<and>
     (u = owner \<and> role = Owner \<or> u \<noteq> owner \<and> gd_down db = None \<and> role_of db (owner, matter, u) = Some role)"
  by (auto simp: require_matter_access_def check_matter_access_role_of not_less split: option.splits)

lemma am_up_matrix_of: "am_up (matrix_of db) \<longleftrightarrow> gd_down db = None"
  and am_role_matrix_of: "am_role (matrix_of db) = role_of db"
  by (simp_all add: matrix_of_def)

lemma am_up_run: "am_up (fold matrix_op ps m) = am_up m"
proof (induction ps arbitrary: m)
  case (Cons p ps)
  then show ?case by (cases p) auto
qed simp

text \<open>C8: Any sequence of membership changes acts on the table as the abstract operations act on an access matrix: an upsert
  that the foreign keys admit sets one entry, a removal clears one, a refused change alters nothing; and what
  the access check answers is the entry of the matrix, except that the owner of a matter always is its owner.\<close>

theorem membership_refines_matrix:
  assumes "members_wf db" and "gd_down db = None"
  shows "members_wf (fold store_op ops db)
    \<and> matrix_of (fold store_op ops db) = fold matrix_op ops (matrix_of db)
    \<and> check_matter_access owner matter u (fold store_op ops db) =
        Inr (if u = owner then Some Owner else am_role (fold matrix_op ops (matrix_of db)) (owner, matter, u))"
proof -
  let ?db = "fold store_op ops db" and ?m = "fold matrix_op ops (matrix_of db)"
  have abs: "matrix_of ?db = ?m" using assms(1) by (rule members.run_abs)
  have "am_up ?m" using assms(2) by (simp add: am_up_run am_up_matrix_of)
  then have "gd_down ?db = None" using am_up_matrix_of [of ?db] abs by simp
  moreover have "role_of ?db = am_role ?m" using am_role_matrix_of [of ?db] abs by simp
  ultimately show ?thesis
    using abs members.run_wf [OF assms(1)] by (simp add: check_matter_access_role_of)
qed

definition office :: gateway_db where
  "office = \<lparr>gd_down = None, gd_fk = True,
     gd_users = [\<lparr>ur_id = ''ann'', ur_display_name = ''Ann'', ur_role = Admin, ur_is_active = True, ur_created_at = 0, ur_updated_at = 0\<rparr>,
                 \<lparr>ur_id = ''bob'', ur_display_name = ''Bob'', ur_role = Staff, ur_is_active = True, ur_created_at = 0, ur_updated_at = 0\<rparr>],
     gd_tokens = [], gd_members = [], gd_matters = [(''ann'', ''acme'')]\<rparr>"

theorem membership_refines_matrix_witness:
  "check_matter_access ''ann'' ''acme'' ''bob'' (fold store_op [Upsert 1 1 (''ann'', ''acme'', ''bob'') Collaborator,
     Upsert 2 2 (''ann'', ''acme'', ''carl'') Viewer, Upsert 3 3 (''ann'', ''acme'', ''bob'') Viewer] office) = Inr (Some Viewer)"
  using membership_refines_matrix [of office "[Upsert 1 1 (''ann'', ''acme'', ''bob'') Collaborator,
     Upsert 2 2 (''ann'', ''acme'', ''carl'') Viewer, Upsert 3 3 (''ann'', ''acme'', ''bob'') Viewer]" "''ann''" "''acme''" "''bob''"]
  by (simp add: office_def members_wf_def matrix_of_def role_of_def user_exists_def)

section \<open>Only the owner manages a matter\<close>

inductive gateway_step :: "'a gateway \<Rightarrow> 'a gateway \<Rightarrow> bool" where
  member_upsert: "gateway_step gw (snd (matter_member_upsert_handler fresh now p raw member role gw))"
| member_remove: "gateway_step gw (snd (matter_member_remove_handler p raw member gw))"
| role_change: "gateway_step gw (snd (update_user_role_handler now p u role gw))"
| deactivation: "gateway_step gw (snd (deactivate_user_handler now p u gw))"
| startup: "gateway_step gw (snd (start_auth hmac sha (derive :: string \<Rightarrow> 8 word list) now tok gw))"

definition fresh_gateway :: "'a gateway \<Rightarrow> bool" where
  "fresh_gateway gw \<longleftrightarrow> (case gw_store gw of None \<Rightarrow> True | Some db \<Rightarrow> gd_members db = [])"

definition gateway_inv :: "'a gateway \<Rightarrow> bool" where
  "gateway_inv gw \<longleftrightarrow> (case gw_store gw of None \<Rightarrow> True
     | Some db \<Rightarrow> members_wf db \<and> (\<forall>k. role_of db k \<noteq> Some Owner))"

definition db_inv :: "'a gateway_db_scheme \<Rightarrow> bool" where
  "db_inv db \<longleftrightarrow> members_wf db \<and> (\<forall>k. role_of db k \<noteq> Some Owner)"

lemma db_inv_members: "gd_members db' = gd_members db \<Longrightarrow> db_inv db' = db_inv db"
  by (simp add: db_inv_def members_wf_def role_of_def)

lemma db_inv_upsert: "db_inv db \<Longrightarrow> r \<noteq> Owner \<Longrightarrow> db_inv (snd (upsert_matter_membership fresh now k r db))"
  using store_op_wf [of db "Upsert fresh now k r"] arg_cong [OF store_op_abs [of "Upsert fresh now k r" db], of am_role]
  by (auto simp: db_inv_def am_role_matrix_of split: if_splits)

lemma db_inv_remove: "db_inv db \<Longrightarrow> db_inv (snd (remove_matter_membership k db))"
  using store_op_wf [of db "Remove k"] arg_cong [OF store_op_abs [of "Remove k" db], of am_role]
  by (auto simp: db_inv_def am_role_matrix_of split: if_splits)

lemma db_inv_others:
  "db_inv (snd (update_user_role now u r db)) = db_inv db"
  "db_inv (snd (deactivate_user now u db)) = db_inv db"
  "db_inv (snd (ensure_user_account now u nm ro db)) = db_inv db"
  "db_inv (snd (upsert_user_token_hash u h db)) = db_inv db"
  by (auto simp: update_user_role_def deactivate_user_def ensure_user_account_def upsert_user_token_hash_def Let_def
      split: option.splits intro!: db_inv_members)

lemma snd_pairE: "f = (r, s') \<Longrightarrow> P (snd f) \<Longrightarrow> P s'"
  by simp

lemma gateway_inv_store: "gateway_inv (gw\<lparr>gw_store := Some db\<rparr>) \<longleftrightarrow> db_inv db"
  by (simp add: gateway_inv_def db_inv_def)

lemma gateway_inv_Some: "gw_store gw = Some db \<Longrightarrow> gateway_inv gw \<longleftrightarrow> db_inv db"
  by (simp add: gateway_inv_def db_inv_def)

lemma parsed_role_not_owner:
  assumes "\<not> eq_ignore_case (trim s) ''owner''"
  shows "member_role_from_db_value s \<noteq> Some Owner"
proof -
  have "eq_ignore_case (trim ''owner'') ''owner''" by code_simp
  then have "s \<noteq> ''owner''" using assms by metis
  then show ?thesis by (auto simp: member_role_from_db_value_def)
qed

lemma gateway_inv_upsert_handler:
  assumes "gateway_inv gw"
  shows "gateway_inv (snd (matter_member_upsert_handler fresh now p raw member role gw))"
proof -
  have "db_inv (snd (upsert_matter_membership fresh now (gw_user_id gw, m, member) r db))"
    if "gw_store gw = Some db" "r \<noteq> Owner" for m r db
    using that assms by (intro db_inv_upsert) (auto simp: gateway_inv_Some)
  then show ?thesis
    using assms parsed_role_not_owner [of role]
    by (auto simp: matter_member_upsert_handler_def gateway_inv_store split: sum.splits option.splits prod.splits
        elim!: snd_pairE [where P = db_inv])
qed

lemma gateway_inv_remove_handler:
  assumes "gateway_inv gw"
  shows "gateway_inv (snd (matter_member_remove_handler p raw member gw))"
proof -
  have "db_inv (snd (remove_matter_membership k db))" if "gw_store gw = Some db" for k db
    using assms that by (simp add: db_inv_remove gateway_inv_Some)
  then show ?thesis using assms
    by (auto simp: matter_member_remove_handler_def gateway_inv_store split: sum.splits option.splits prod.splits
        elim!: snd_pairE [where P = db_inv])
qed

lemma gateway_inv_user_handlers:
  assumes "gateway_inv gw"
  shows "gateway_inv (snd (update_user_role_handler now p u role gw))"
    and "gateway_inv (snd (deactivate_user_handler now p u gw))"
proof -
  have *: "db_inv (snd (update_user_role now u r db))" "db_inv (snd (deactivate_user now u db))"
    if "gw_store gw = Some db" for r db
    using assms that by (simp_all add: db_inv_others gateway_inv_Some)
  show "gateway_inv (snd (update_user_role_handler now p u role gw))"
    using assms * by (auto simp: update_user_role_handler_def gateway_inv_store split: sum.splits option.splits prod.splits
        elim!: snd_pairE [where P = db_inv])
  show "gateway_inv (snd (deactivate_user_handler now p u gw))"
    using assms * by (auto simp: deactivate_user_handler_def gateway_inv_store split: sum.splits option.splits prod.splits
        elim!: snd_pairE [where P = db_inv])
qed

lemma gateway_inv_principal:
  assumes "gateway_inv gw"
  shows "gateway_inv (snd (resolve_gateway_principal now gw))"
proof -
  have "db_inv (snd (ensure_user_account now u nm r db))" if "gw_store gw = Some db" for u nm r db
    using assms that by (simp add: db_inv_others gateway_inv_Some)
  then show ?thesis using assms
    by (auto simp: resolve_gateway_principal_def gateway_inv_store split: sum.splits option.splits prod.splits
        elim!: snd_pairE [where P = db_inv])
qed

lemma gateway_inv_start:
  assumes "gateway_inv gw"
  shows "gateway_inv (snd (start_auth hmac sha derive now tok gw))"
proof -
  obtain r gw1 where r: "resolve_gateway_principal now gw = (r, gw1)" by fastforce
  then have inv1: "gateway_inv gw1" using gateway_inv_principal [OF assms, of now] by simp
  then have "db_inv (snd (upsert_user_token_hash u h db))" if "gw_store gw1 = Some db" for u h db
    using that by (simp add: db_inv_others gateway_inv_Some)
  then show ?thesis using inv1
    by (auto simp: start_auth_def r Let_def gateway_inv_store split: sum.splits option.splits prod.splits
        elim!: snd_pairE [where P = db_inv])
qed

interpretation gateway: steps_inv fresh_gateway gateway_step gateway_inv
proof
  show "gateway_inv gw" if "fresh_gateway gw" for gw :: "'a gateway"
    using that by (auto simp: fresh_gateway_def gateway_inv_def members_wf_def role_of_def split: option.splits)
  show "gateway_inv gw'" if "gateway_inv gw" "gateway_step gw gw'" for gw gw' :: "'a gateway"
    using that(2,1) by (cases rule: gateway_step.cases)
      (simp_all add: gateway_inv_upsert_handler gateway_inv_remove_handler gateway_inv_user_handlers gateway_inv_start)
qed

lemma owner_only:
  assumes "db_inv db" and "u \<noteq> owner"
  shows "\<exists>s. require_matter_access (Some db) owner matter u Owner = Inl s \<and> s \<in> {FORBIDDEN, INTERNAL_SERVER_ERROR}"
proof -
  have "role_of db (owner, matter, u) \<noteq> Some Owner" using assms(1) by (simp add: db_inv_def)
  then show ?thesis using assms(2)
    by (cases "role_of db (owner, matter, u)"; cases "the (role_of db (owner, matter, u))")
      (auto simp: require_matter_access_def check_matter_access_role_of role_rank_def split: option.splits)
qed

text \<open>C7: However the gateway is used, nobody but the account it belongs to ever holds the owner role: a request of
  another user to list, add, change or remove members of a matter is refused and changes nothing, so
  no collaborator can raise their own role.\<close>

theorem only_owner_manages_members:
  assumes "reach fresh_gateway gateway_step gw" and "gw_store gw = Some db" and "ap_user_id p \<noteq> gw_user_id gw"
  shows "matter_members_list_handler p raw gw \<in> {Inl BAD_REQUEST, Inl FORBIDDEN, Inl INTERNAL_SERVER_ERROR}
    \<and> (\<exists>s. matter_member_upsert_handler fresh now p raw member role gw = (Inl s, gw))
    \<and> (\<exists>s. matter_member_remove_handler p raw member gw = (Inl s, gw))
    \<and> check_matter_access (gw_user_id gw) matter (ap_user_id p) db \<noteq> Inr (Some Owner)"
proof -
  have inv: "db_inv db" using gateway.reach_inv [OF assms(1)] assms(2) by (simp add: gateway_inv_Some)
  have no_owner: "check_matter_access (gw_user_id gw) matter (ap_user_id p) db \<noteq> Inr (Some Owner)"
    using inv assms(3) by (auto simp: check_matter_access_role_of db_inv_def split: option.splits)
  have "\<exists>s. require_matter_access (Some db) (gw_user_id gw) m (ap_user_id p) Owner = Inl s \<and> s \<in> {FORBIDDEN, INTERNAL_SERVER_ERROR}" for m
    using owner_only [OF inv assms(3)] by blast
  note refused = this
  show ?thesis
  proof (cases "sanitize_matter_id_for_route raw")
    case (Inr m)
    obtain s where "require_matter_access (Some db) (gw_user_id gw) m (ap_user_id p) Owner = Inl s"
      "s \<in> {FORBIDDEN, INTERNAL_SERVER_ERROR}" using refused by blast
    then show ?thesis using Inr no_owner assms(2)
      by (auto simp: matter_members_list_handler_def matter_member_upsert_handler_def matter_member_remove_handler_def)
  qed (use no_owner assms(2) in
      \<open>simp add: matter_members_list_handler_def matter_member_upsert_handler_def matter_member_remove_handler_def\<close>)
qed

theorem only_owner_manages_members_witness:
  "(let gw = snd (matter_member_upsert_handler 7 1 \<lparr>ap_user_id = ''ann'', ap_role = Admin\<rparr> ''acme'' ''bob'' ''collaborator''
                    \<lparr>gw_user_id = ''ann'', gw_store = Some office\<rparr>)
    in role_of (the (gw_store gw)) (''ann'', ''acme'', ''bob'') = Some Collaborator
       \<and> (\<exists>s. matter_member_upsert_handler 8 2 \<lparr>ap_user_id = ''bob'', ap_role = Staff\<rparr> ''acme'' ''bob'' ''owner'' gw = (Inl s, gw)))"
proof -
  let ?start = "\<lparr>gw_user_id = ''ann'', gw_store = Some office\<rparr>" and ?bob = "\<lparr>ap_user_id = ''bob'', ap_role = Staff\<rparr>"
  let ?gw = "snd (matter_member_upsert_handler 7 1 \<lparr>ap_user_id = ''ann'', ap_role = Admin\<rparr> ''acme'' ''bob'' ''collaborator'' ?start)"
  have "fresh_gateway ?start" by (simp add: fresh_gateway_def office_def)
  then have "reach fresh_gateway gateway_step ?gw" by (rule reach_one) (rule member_upsert)
  moreover have gw: "gw_user_id ?gw = ''ann''" "gw_store ?gw = Some (the (gw_store ?gw))"
    "role_of (the (gw_store ?gw)) (''ann'', ''acme'', ''bob'') = Some Collaborator"
    by code_simp+
  ultimately show ?thesis
    using only_owner_manages_members [of ?gw _ ?bob "''acme''" 8 2 "''bob''" "''owner''"] by (simp add: Let_def)
qed

section \<open>Authentication\<close>

definition token_rows :: "string \<Rightarrow> 'a gateway_db_scheme \<Rightarrow> user_record list" where
  "token_rows h db = [r. (u, h') \<leftarrow> gd_tokens db, h' = h, r \<leftarrow> gd_users db, ur_id r = u \<and> ur_is_active r]"

lemma set_token_rows:
  "set (token_rows h db) = {r \<in> set (gd_users db). ur_is_active r \<and> (ur_id r, h) \<in> set (gd_tokens db)}"
  by (force simp: token_rows_def)

lemma get_user_by_token_hash_rows:
  "get_user_by_token_hash h db =
     (case gd_down db of Some e \<Rightarrow> Inl e | None \<Rightarrow> Inr (case token_rows h db of [] \<Rightarrow> None | r # _ \<Rightarrow> Some r))"
  by (simp add: get_user_by_token_hash_def token_rows_def split: option.split)


lemma token_user_None:
  assumes "gd_down db = None"
  shows "get_user_by_token_hash h db = Inr None \<longleftrightarrow>
    (\<forall>r \<in> set (gd_users db). ur_is_active r \<longrightarrow> (ur_id r, h) \<notin> set (gd_tokens db))"
proof -
  have "get_user_by_token_hash h db = Inr None \<longleftrightarrow> set (token_rows h db) = {}"
    using assms by (simp add: get_user_by_token_hash_rows split: list.splits)
  then show ?thesis by (auto simp: set_token_rows)
qed





text \<open>What a successful start leaves in the store: the account of the gateway exists, and the hash of the gateway's
  token belongs to it alone.\<close>

lemma start_auth_store:
  assumes "start_auth hmac sha derive t tok gw = (Inr auth, gw')" and "gw_store gw' = Some db"
  shows "gd_down db = None" and "as_token auth = tok" and "ap_user_id (as_fallback auth) = gw_user_id gw"
    and "\<And>u. (u, compute_token_hash hmac sha tok (as_hmac_key auth)) \<in> set (gd_tokens db) \<Longrightarrow> u = gw_user_id gw"
proof -
  obtain r gw1 where r: "resolve_gateway_principal t gw = (Inr r, gw1)"
    using assms(1) by (auto simp: start_auth_def split: prod.splits sum.splits)
  have id: "ap_user_id r = gw_user_id gw"
    using r by (auto simp: resolve_gateway_principal_def ensure_user_account_def Let_def
        split: option.splits prod.splits sum.splits if_splits dest: find_holds)
  note d = assms r id
  show "gd_down db = None" "as_token auth = tok" "ap_user_id (as_fallback auth) = gw_user_id gw"
    "\<And>u. (u, compute_token_hash hmac sha tok (as_hmac_key auth)) \<in> set (gd_tokens db) \<Longrightarrow> u = gw_user_id gw"
    using d by (auto simp: start_auth_def upsert_user_token_hash_def Let_def
        split: option.splits prod.splits sum.splits if_splits)
qed

text \<open>C10: Deactivating the gateway's own account does not lock its token out. While the account is active its stored
  role counts; once it is deactivated the stored hash no longer resolves, the comparison with the shared
  token does, and the request runs with the role the account had at start-up, even when that role had been
  lowered since.\<close>

theorem deactivated_gateway_account_keeps_access:
  assumes start: "start_auth hmac sha derive t tok gw = (Inr auth, gw')" and store: "gw_store gw' = Some db"
  shows "resolve_principal_for_token hmac sha auth
           (Some (snd (deactivate_user t2 (gw_user_id gw) (snd (update_user_role t1 (gw_user_id gw) role db))))) tok
         = Some (as_fallback auth) \<and> ap_user_id (as_fallback auth) = gw_user_id gw"
proof -
  let ?u = "gw_user_id gw" and ?h = "compute_token_hash hmac sha tok (as_hmac_key auth)"
  let ?db = "snd (deactivate_user t2 ?u (snd (update_user_role t1 ?u role db)))"
  note st = start_auth_store [OF start store]
  have "gd_down ?db = None" and "gd_tokens ?db = gd_tokens db"
    using st(1) by (simp_all add: deactivate_user_def update_user_role_def Let_def)
  moreover have "\<not> ur_is_active r" if "r \<in> set (gd_users ?db)" "ur_id r = ?u" for r
    using that st(1) by (auto simp: deactivate_user_def update_user_role_def Let_def split: if_splits)
  ultimately have "get_user_by_token_hash ?h ?db = Inr None"
    using st(4) by (fastforce simp: token_user_None)
  then show ?thesis using st(2,3) by (simp add: resolve_principal_for_token_def)
qed

theorem deactivated_gateway_account_keeps_access_witness:
  "(case start_auth (@) id id 0 ''s3cret'' \<lparr>gw_user_id = ''ann'', gw_store = Some office\<rparr> of
      (Inr auth, gw) \<Rightarrow>
        let lowered = snd (update_user_role 1 ''ann'' UserViewer (the (gw_store gw)));
            off = snd (deactivate_user 2 ''ann'' lowered)
        in resolve_principal_for_token (@) id auth (Some lowered) ''s3cret'' = Some \<lparr>ap_user_id = ''ann'', ap_role = UserViewer\<rparr>
         \<and> resolve_principal_for_token (@) id auth (Some off) ''s3cret'' = Some \<lparr>ap_user_id = ''ann'', ap_role = Admin\<rparr>
    | _ \<Rightarrow> False)"
proof -
  let ?r = "start_auth (@) id id 0 ''s3cret'' \<lparr>gw_user_id = ''ann'', gw_store = Some office\<rparr>"
  let ?auth = "\<lparr>as_token = ''s3cret'', as_fallback = \<lparr>ap_user_id = ''ann'', ap_role = Admin\<rparr>, as_hmac_key = Some ''s3cret''\<rparr>"
  let ?db = "the (gw_store (snd ?r))"
  have "fst ?r = Inr ?auth" and store: "gw_store (snd ?r) = Some ?db" by code_simp+
  then have r: "?r = (Inr ?auth, snd ?r)" by (metis prod.collapse)
  have "resolve_principal_for_token (@) id ?auth (Some (snd (update_user_role 1 ''ann'' UserViewer ?db))) ''s3cret''
      = Some \<lparr>ap_user_id = ''ann'', ap_role = UserViewer\<rparr>" by code_simp
  then show ?thesis
    using deactivated_gateway_account_keeps_access [OF r store, of 2 1 UserViewer]
    by (subst r) (simp add: Let_def)
qed

end
