(* ===== verification/Matter_Work.thy ===== *)
theory Matter_Work
  imports Access_Control "HOL-Library.Product_Lexorder"
begin

text \<open>
  The tasks and notes of a matter: the libSQL stores (\<open>impl MatterTaskStore\<close>, \<open>impl MatterNoteStore\<close>), the parsing of
  request fields (\<open>handlers/helpers/parsing.rs\<close>) and the eight handlers of \<open>handlers/matters/work.rs\<close>, composed
  with the access guard. Requests are the records serde produces; responses are the stored rows, whose JSON rendering
  is not modelled. \<open>Uuid::parse_str\<close> and chrono's date parsers are parameters (\<open>parsers\<close>).
\<close>

section \<open>Rows and stores\<close>

datatype matter_task_status = Todo | InProgress | Done | Blocked | Cancelled

record matter_task =
  mt_id :: uuid
  mt_user_id :: string
  mt_matter_id :: string
  mt_title :: string
  mt_description :: "string option"
  mt_status :: matter_task_status
  mt_assignee :: "string option"
  mt_due_at :: "int option"
  mt_blocked_by :: "uuid list"
  mt_created_at :: nat
  mt_updated_at :: nat

record matter_note =
  mn_id :: uuid
  mn_user_id :: string
  mn_matter_id :: string
  mn_author :: string
  mn_body :: string
  mn_pinned :: bool
  mn_created_at :: nat
  mn_updated_at :: nat

record work_db = gateway_db +
  wd_tasks :: "matter_task list"
  wd_notes :: "matter_note list"

type_synonym work_gateway = "unit work_db_ext gateway"

record create_task_params =
  ct_title :: string
  ct_description :: "string option"
  ct_status :: matter_task_status
  ct_assignee :: "string option"
  ct_due_at :: "int option"
  ct_blocked_by :: "uuid list"

record update_task_params =
  ut_title :: "string option"
  ut_description :: "string option option"
  ut_status :: "matter_task_status option"
  ut_assignee :: "string option option"
  ut_due_at :: "int option option"
  ut_blocked_by :: "uuid list option"

record create_note_params =
  cn_author :: string
  cn_body :: string
  cn_pinned :: bool

record update_note_params =
  un_author :: "string option"
  un_body :: "string option"
  un_pinned :: "bool option"

text \<open>\<open>Option::unwrap_or\<close>.\<close>

definition unwrap_or :: "'a option \<Rightarrow> 'a \<Rightarrow> 'a" where
  "unwrap_or x d = (case x of Some v \<Rightarrow> v | None \<Rightarrow> d)"

definition task_at :: "string \<Rightarrow> string \<Rightarrow> uuid \<Rightarrow> matter_task \<Rightarrow> bool" where
  "task_at user matter i t \<longleftrightarrow> mt_user_id t = user \<and> mt_matter_id t = matter \<and> mt_id t = i"

definition note_at :: "string \<Rightarrow> string \<Rightarrow> uuid \<Rightarrow> matter_note \<Rightarrow> bool" where
  "note_at user matter i n \<longleftrightarrow> mn_user_id n = user \<and> mn_matter_id n = matter \<and> mn_id n = i"

text \<open>The order of rows of one instant is not fixed by the query; here the later row comes first.\<close>

definition list_matter_tasks :: "string \<Rightarrow> string \<Rightarrow> work_db \<Rightarrow> string + matter_task list" where
  "list_matter_tasks user matter db =
     (case gd_down db of Some e \<Rightarrow> Inl e
      | None \<Rightarrow> Inr (rev (sort_key mt_created_at (filter (\<lambda>t. mt_user_id t = user \<and> mt_matter_id t = matter) (wd_tasks db)))))"

definition pk_error :: string where
  "pk_error = ''LibSQL error: SQLite failure: `UNIQUE constraint failed`''"

definition create_matter_task ::
  "uuid \<Rightarrow> nat \<Rightarrow> string \<Rightarrow> string \<Rightarrow> create_task_params \<Rightarrow> work_db \<Rightarrow> (string + matter_task) \<times> work_db" where
  "create_matter_task fresh now user matter c db =
     (case gd_down db of Some e \<Rightarrow> (Inl e, db)
      | None \<Rightarrow>
          if fresh \<in> mt_id ` set (wd_tasks db) then (Inl pk_error, db)
          else if gd_fk db \<and> (user, matter) \<notin> set (gd_matters db) then (Inl fk_error, db)
          else let t = \<lparr>mt_id = fresh, mt_user_id = user, mt_matter_id = matter, mt_title = ct_title c,
                        mt_description = ct_description c, mt_status = ct_status c, mt_assignee = ct_assignee c,
                        mt_due_at = ct_due_at c, mt_blocked_by = ct_blocked_by c, mt_created_at = now, mt_updated_at = now\<rparr>;
                   db' = db\<lparr>wd_tasks := wd_tasks db @ [t]\<rparr>
               in (case find (task_at user matter fresh) (wd_tasks db') of
                     Some r \<Rightarrow> (Inr r, db')
                   | None \<Rightarrow> (Inl ''Query failed: failed to load created matter task'', db')))"

definition merge_task :: "nat \<Rightarrow> update_task_params \<Rightarrow> matter_task \<Rightarrow> matter_task" where
  "merge_task now u t =
     t\<lparr>mt_title := unwrap_or (ut_title u) (mt_title t),
       mt_description := unwrap_or (ut_description u) (mt_description t),
       mt_status := unwrap_or (ut_status u) (mt_status t),
       mt_assignee := unwrap_or (ut_assignee u) (mt_assignee t),
       mt_due_at := unwrap_or (ut_due_at u) (mt_due_at t),
       mt_blocked_by := unwrap_or (ut_blocked_by u) (mt_blocked_by t),
       mt_updated_at := now\<rparr>"

text \<open>The \<open>UPDATE\<close> writes the merged columns of the row that was read to every row it selects; the primary key makes
  that one row.\<close>

definition write_task :: "matter_task \<Rightarrow> matter_task \<Rightarrow> matter_task" where
  "write_task merged t =
     t\<lparr>mt_title := mt_title merged, mt_description := mt_description merged, mt_status := mt_status merged,
       mt_assignee := mt_assignee merged, mt_due_at := mt_due_at merged, mt_blocked_by := mt_blocked_by merged,
       mt_updated_at := mt_updated_at merged\<rparr>"

definition update_matter_task ::
  "nat \<Rightarrow> string \<Rightarrow> string \<Rightarrow> uuid \<Rightarrow> update_task_params \<Rightarrow> work_db \<Rightarrow> (string + matter_task option) \<times> work_db" where
  "update_matter_task now user matter i u db =
     (case gd_down db of Some e \<Rightarrow> (Inl e, db)
      | None \<Rightarrow>
          (case find (task_at user matter i) (wd_tasks db) of
             None \<Rightarrow> (Inr None, db)
           | Some existing \<Rightarrow>
               let merged = merge_task now u existing;
                   rows = map (\<lambda>t. if task_at user matter i t then write_task merged t else t) (wd_tasks db)
               in (Inr (find (task_at user matter i) rows), db\<lparr>wd_tasks := rows\<rparr>)))"

definition delete_matter_task :: "string \<Rightarrow> string \<Rightarrow> uuid \<Rightarrow> work_db \<Rightarrow> (string + bool) \<times> work_db" where
  "delete_matter_task user matter i db =
     (case gd_down db of Some e \<Rightarrow> (Inl e, db)
      | None \<Rightarrow> (Inr (filter (task_at user matter i) (wd_tasks db) \<noteq> []),
                 db\<lparr>wd_tasks := filter (\<lambda>t. \<not> task_at user matter i t) (wd_tasks db)\<rparr>))"

definition list_matter_notes :: "string \<Rightarrow> string \<Rightarrow> work_db \<Rightarrow> string + matter_note list" where
  "list_matter_notes user matter db =
     (case gd_down db of Some e \<Rightarrow> Inl e
      | None \<Rightarrow> Inr (rev (sort_key (\<lambda>n. (mn_pinned n, mn_created_at n))
                   (filter (\<lambda>n. mn_user_id n = user \<and> mn_matter_id n = matter) (wd_notes db)))))"

definition create_matter_note ::
  "uuid \<Rightarrow> nat \<Rightarrow> string \<Rightarrow> string \<Rightarrow> create_note_params \<Rightarrow> work_db \<Rightarrow> (string + matter_note) \<times> work_db" where
  "create_matter_note fresh now user matter c db =
     (case gd_down db of Some e \<Rightarrow> (Inl e, db)
      | None \<Rightarrow>
          if fresh \<in> mn_id ` set (wd_notes db) then (Inl pk_error, db)
          else if gd_fk db \<and> (user, matter) \<notin> set (gd_matters db) then (Inl fk_error, db)
          else let n = \<lparr>mn_id = fresh, mn_user_id = user, mn_matter_id = matter, mn_author = cn_author c, mn_body = cn_body c,
                        mn_pinned = cn_pinned c, mn_created_at = now, mn_updated_at = now\<rparr>;
                   db' = db\<lparr>wd_notes := wd_notes db @ [n]\<rparr>
               in (case find (note_at user matter fresh) (wd_notes db') of
                     Some r \<Rightarrow> (Inr r, db')
                   | None \<Rightarrow> (Inl ''Query failed: failed to load created matter note'', db')))"

definition update_matter_note ::
  "nat \<Rightarrow> string \<Rightarrow> string \<Rightarrow> uuid \<Rightarrow> update_note_params \<Rightarrow> work_db \<Rightarrow> (string + matter_note option) \<times> work_db" where
  "update_matter_note now user matter i u db =
     (case gd_down db of Some e \<Rightarrow> (Inl e, db)
      | None \<Rightarrow>
          (case find (note_at user matter i) (wd_notes db) of
             None \<Rightarrow> (Inr None, db)
           | Some existing \<Rightarrow>
               let rows = map (\<lambda>n. if note_at user matter i n
                                then n\<lparr>mn_author := unwrap_or (un_author u) (mn_author existing),
                                       mn_body := unwrap_or (un_body u) (mn_body existing),
                                       mn_pinned := unwrap_or (un_pinned u) (mn_pinned existing), mn_updated_at := now\<rparr>
                                else n) (wd_notes db)
               in (Inr (find (note_at user matter i) rows), db\<lparr>wd_notes := rows\<rparr>)))"

definition delete_matter_note :: "string \<Rightarrow> string \<Rightarrow> uuid \<Rightarrow> work_db \<Rightarrow> (string + bool) \<times> work_db" where
  "delete_matter_note user matter i db =
     (case gd_down db of Some e \<Rightarrow> (Inl e, db)
      | None \<Rightarrow> (Inr (filter (note_at user matter i) (wd_notes db) \<noteq> []),
                 db\<lparr>wd_notes := filter (\<lambda>n. \<not> note_at user matter i n) (wd_notes db)\<rparr>))"

section \<open>Request fields\<close>

text \<open>\<open>pr_date\<close> gives the instant of midnight UTC of a \<open>YYYY-MM-DD\<close> date.\<close>

record parsers =
  pr_uuid :: "string \<Rightarrow> uuid option"
  pr_date :: "string \<Rightarrow> int option"
  pr_rfc3339 :: "string \<Rightarrow> int option"

type_synonym http_error = "status_code \<times> string"

text \<open>The operator \<open>?\<close> on results.\<close>

definition and_then :: "'e + 'a \<Rightarrow> ('a \<Rightarrow> 'e + 'b) \<Rightarrow> 'e + 'b" where
  "and_then r f = (case r of Inl e \<Rightarrow> Inl e | Inr x \<Rightarrow> f x)"

definition in_quotes :: "string \<Rightarrow> string" where
  "in_quotes s = [CHR 0x27] @ s @ [CHR 0x27]"

definition parse_required_matter_field :: "string \<Rightarrow> string \<Rightarrow> http_error + string" where
  "parse_required_matter_field field value =
     (if trim value = [] then Inl (BAD_REQUEST, in_quotes field @ '' is required'') else Inr (trim value))"

definition parse_optional_matter_field :: "string option \<Rightarrow> string option" where
  "parse_optional_matter_field v =
     (case v of None \<Rightarrow> None | Some raw \<Rightarrow> if trim raw = [] then None else Some (trim raw))"

definition parse_matter_task_status :: "string \<Rightarrow> http_error + matter_task_status" where
  "parse_matter_task_status value =
     (let s = lowercase (trim value)
      in if s = ''todo'' then Inr Todo else if s = ''in_progress'' then Inr InProgress
         else if s = ''done'' then Inr Done else if s = ''blocked'' then Inr Blocked
         else if s = ''cancelled'' then Inr Cancelled
         else Inl (BAD_REQUEST, in_quotes ''status'' @ '' must be one of: todo, in_progress, done, blocked, cancelled''))"

definition parse_datetime_value :: "parsers \<Rightarrow> string \<Rightarrow> string \<Rightarrow> http_error + int" where
  "parse_datetime_value ps field raw =
     (if trim raw = [] then Inl (BAD_REQUEST, in_quotes field @ '' cannot be empty'')
      else case pr_date ps (trim raw) of Some d \<Rightarrow> Inr d
           | None \<Rightarrow> (case pr_rfc3339 ps (trim raw) of Some d \<Rightarrow> Inr d
                     | None \<Rightarrow> Inl (BAD_REQUEST, in_quotes field @ '' must be YYYY-MM-DD or RFC3339 datetime'')))"

definition parse_optional_datetime :: "parsers \<Rightarrow> string \<Rightarrow> string option \<Rightarrow> http_error + int option" where
  "parse_optional_datetime ps field raw =
     (case raw of None \<Rightarrow> Inr None
      | Some r \<Rightarrow> if trim r = [] then Inr None else and_then (parse_datetime_value ps field r) (\<lambda>d. Inr (Some d)))"

definition parse_optional_datetime_patch :: "parsers \<Rightarrow> string \<Rightarrow> string option option \<Rightarrow> http_error + int option option" where
  "parse_optional_datetime_patch ps field raw =
     (case raw of None \<Rightarrow> Inr None
      | Some None \<Rightarrow> Inr (Some None)
      | Some (Some r) \<Rightarrow> if trim r = [] then Inr (Some None)
                        else and_then (parse_datetime_value ps field r) (\<lambda>d. Inr (Some (Some d))))"

definition parse_uuid :: "parsers \<Rightarrow> string \<Rightarrow> string \<Rightarrow> http_error + uuid" where
  "parse_uuid ps value field =
     (case pr_uuid ps value of Some i \<Rightarrow> Inr i | None \<Rightarrow> Inl (BAD_REQUEST, in_quotes field @ '' must be a valid UUID''))"

fun parse_uuid_list :: "parsers \<Rightarrow> string list \<Rightarrow> string \<Rightarrow> http_error + uuid list" where
  "parse_uuid_list ps [] field = Inr []"
| "parse_uuid_list ps (v # vs) field =
     and_then (parse_uuid ps v field) (\<lambda>i. and_then (parse_uuid_list ps vs field) (\<lambda>is. Inr (i # is)))"

text \<open>\<open>Option::map(parse).transpose()\<close>.\<close>

definition parse_opt :: "('a \<Rightarrow> 'e + 'b) \<Rightarrow> 'a option \<Rightarrow> 'e + 'b option" where
  "parse_opt f v = (case v of None \<Rightarrow> Inr None | Some x \<Rightarrow> and_then (f x) (\<lambda>y. Inr (Some y)))"

section \<open>Handlers\<close>

record create_task_request =
  ctr_title :: string
  ctr_description :: "string option"
  ctr_status :: "string option"
  ctr_assignee :: "string option"
  ctr_due_at :: "string option"
  ctr_blocked_by :: "string list"

record update_task_request =
  utr_title :: "string option"
  utr_description :: "string option option"
  utr_status :: "string option"
  utr_assignee :: "string option option"
  utr_due_at :: "string option option"
  utr_blocked_by :: "string list option"

record create_note_request =
  cnr_author :: string
  cnr_body :: string
  cnr_pinned :: bool

record update_note_request =
  unr_author :: "string option"
  unr_body :: "string option"
  unr_pinned :: "bool option"

definition ensure_existing_matter_db :: "'a gateway \<Rightarrow> string \<Rightarrow> http_error + unit" where
  "ensure_existing_matter_db gw matter =
     (case gw_store gw of None \<Rightarrow> Inl (SERVICE_UNAVAILABLE, ''Database not available'')
      | Some db \<Rightarrow>
          (case gd_down db of Some e \<Rightarrow> Inl (INTERNAL_SERVER_ERROR, e)
           | None \<Rightarrow> if (gw_user_id gw, matter) \<in> set (gd_matters db) then Inr ()
                     else Inl (NOT_FOUND, ''Matter not found'')))"

text \<open>The opening every handler of this file shares: the store, the sanitised matter, the guard, the existence of the
  matter.\<close>

definition open_matter :: "auth_principal \<Rightarrow> string \<Rightarrow> matter_member_role \<Rightarrow> 'a gateway \<Rightarrow> http_error + (string \<times> 'a gateway_db_scheme)" where
  "open_matter p raw minimum gw =
     (case gw_store gw of None \<Rightarrow> Inl (SERVICE_UNAVAILABLE, ''Database not available'')
      | Some db \<Rightarrow>
          and_then (sanitize_matter_id_for_route raw) (\<lambda>matter.
            case require_matter_access (gw_store gw) (gw_user_id gw) matter (ap_user_id p) minimum of
              Inl s \<Rightarrow> Inl (s, '''')
            | Inr _ \<Rightarrow> and_then (ensure_existing_matter_db gw matter) (\<lambda>_. Inr (matter, db))))"

text \<open>\<open>map_err(|e| (INTERNAL_SERVER_ERROR, e.to_string()))\<close>.\<close>

definition internal :: "string + 'a \<Rightarrow> http_error + 'a" where
  "internal r = (case r of Inl e \<Rightarrow> Inl (INTERNAL_SERVER_ERROR, e) | Inr x \<Rightarrow> Inr x)"

definition matter_tasks_list_handler :: "auth_principal \<Rightarrow> string \<Rightarrow> work_gateway \<Rightarrow> http_error + matter_task list" where
  "matter_tasks_list_handler p raw gw =
     and_then (open_matter p raw Viewer gw) (\<lambda>(matter, db). internal (list_matter_tasks (gw_user_id gw) matter db))"

definition parse_create_task :: "parsers \<Rightarrow> create_task_request \<Rightarrow> http_error + create_task_params" where
  "parse_create_task ps req =
     and_then (parse_required_matter_field ''title'' (ctr_title req)) (\<lambda>title.
     and_then (parse_opt parse_matter_task_status (ctr_status req)) (\<lambda>status.
     and_then (parse_optional_datetime ps ''due_at'' (ctr_due_at req)) (\<lambda>due.
     and_then (parse_uuid_list ps (ctr_blocked_by req) ''blocked_by'') (\<lambda>blocked.
       Inr \<lparr>ct_title = title, ct_description = parse_optional_matter_field (ctr_description req),
            ct_status = unwrap_or status Todo, ct_assignee = parse_optional_matter_field (ctr_assignee req),
            ct_due_at = due, ct_blocked_by = blocked\<rparr>))))"

definition matter_tasks_create_handler ::
  "parsers \<Rightarrow> uuid \<Rightarrow> nat \<Rightarrow> auth_principal \<Rightarrow> string \<Rightarrow> create_task_request \<Rightarrow> work_gateway \<Rightarrow>
   (http_error + matter_task) \<times> work_gateway" where
  "matter_tasks_create_handler ps fresh now p raw req gw =
     (case open_matter p raw Collaborator gw of Inl e \<Rightarrow> (Inl e, gw)
      | Inr (matter, db) \<Rightarrow>
          (case parse_create_task ps req of Inl e \<Rightarrow> (Inl e, gw)
           | Inr c \<Rightarrow> (case create_matter_task fresh now (gw_user_id gw) matter c db of
                         (r, db') \<Rightarrow> (internal r, gw\<lparr>gw_store := Some db'\<rparr>))))"

definition parse_update_task :: "parsers \<Rightarrow> update_task_request \<Rightarrow> http_error + update_task_params" where
  "parse_update_task ps req =
     and_then (parse_opt parse_matter_task_status (utr_status req)) (\<lambda>status.
     and_then (parse_opt (\<lambda>vs. parse_uuid_list ps vs ''blocked_by'') (utr_blocked_by req)) (\<lambda>blocked.
     and_then (parse_optional_datetime_patch ps ''due_at'' (utr_due_at req)) (\<lambda>due.
       Inr \<lparr>ut_title = map_option trim (utr_title req),
            ut_description = map_option (\<lambda>v. Option.bind v (\<lambda>inner. parse_optional_matter_field (Some inner))) (utr_description req),
            ut_status = status,
            ut_assignee = map_option (\<lambda>v. Option.bind v (\<lambda>inner. parse_optional_matter_field (Some inner))) (utr_assignee req),
            ut_due_at = due, ut_blocked_by = blocked\<rparr>)))"

definition or_not_found :: "string \<Rightarrow> 'a option \<Rightarrow> http_error + 'a" where
  "or_not_found msg x = (case x of None \<Rightarrow> Inl (NOT_FOUND, msg) | Some v \<Rightarrow> Inr v)"

definition matter_tasks_patch_handler ::
  "parsers \<Rightarrow> nat \<Rightarrow> auth_principal \<Rightarrow> string \<Rightarrow> string \<Rightarrow> update_task_request \<Rightarrow> work_gateway \<Rightarrow>
   (http_error + matter_task) \<times> work_gateway" where
  "matter_tasks_patch_handler ps now p raw task_id req gw =
     (case open_matter p raw Collaborator gw of Inl e \<Rightarrow> (Inl e, gw)
      | Inr (matter, db) \<Rightarrow>
          (case parse_uuid ps task_id ''task_id'' of Inl e \<Rightarrow> (Inl e, gw)
           | Inr i \<Rightarrow>
               (case parse_update_task ps req of Inl e \<Rightarrow> (Inl e, gw)
                | Inr u \<Rightarrow> (case update_matter_task now (gw_user_id gw) matter i u db of
                              (r, db') \<Rightarrow> (and_then (internal r) (or_not_found ''Task not found''), gw\<lparr>gw_store := Some db'\<rparr>)))))"

definition matter_tasks_delete_handler ::
  "parsers \<Rightarrow> auth_principal \<Rightarrow> string \<Rightarrow> string \<Rightarrow> work_gateway \<Rightarrow> (http_error + status_code) \<times> work_gateway" where
  "matter_tasks_delete_handler ps p raw task_id gw =
     (case open_matter p raw Collaborator gw of Inl e \<Rightarrow> (Inl e, gw)
      | Inr (matter, db) \<Rightarrow>
          (case parse_uuid ps task_id ''task_id'' of Inl e \<Rightarrow> (Inl e, gw)
           | Inr i \<Rightarrow> (case delete_matter_task (gw_user_id gw) matter i db of
                         (r, db') \<Rightarrow> (and_then (internal r) (\<lambda>deleted. if \<not> deleted then Inl (NOT_FOUND, ''Task not found'') else Inr NO_CONTENT),
                                      gw\<lparr>gw_store := Some db'\<rparr>))))"

definition matter_notes_list_handler :: "auth_principal \<Rightarrow> string \<Rightarrow> work_gateway \<Rightarrow> http_error + matter_note list" where
  "matter_notes_list_handler p raw gw =
     and_then (open_matter p raw Viewer gw) (\<lambda>(matter, db). internal (list_matter_notes (gw_user_id gw) matter db))"

definition matter_notes_create_handler ::
  "uuid \<Rightarrow> nat \<Rightarrow> auth_principal \<Rightarrow> string \<Rightarrow> create_note_request \<Rightarrow> work_gateway \<Rightarrow> (http_error + matter_note) \<times> work_gateway" where
  "matter_notes_create_handler fresh now p raw req gw =
     (case open_matter p raw Collaborator gw of Inl e \<Rightarrow> (Inl e, gw)
      | Inr (matter, db) \<Rightarrow>
          (case and_then (parse_required_matter_field ''author'' (cnr_author req)) (\<lambda>author.
                and_then (parse_required_matter_field ''body'' (cnr_body req)) (\<lambda>body.
                  Inr \<lparr>cn_author = author, cn_body = body, cn_pinned = cnr_pinned req\<rparr>)) of Inl e \<Rightarrow> (Inl e, gw)
           | Inr c \<Rightarrow> (case create_matter_note fresh now (gw_user_id gw) matter c db of
                         (r, db') \<Rightarrow> (internal r, gw\<lparr>gw_store := Some db'\<rparr>))))"

definition matter_notes_patch_handler ::
  "parsers \<Rightarrow> nat \<Rightarrow> auth_principal \<Rightarrow> string \<Rightarrow> string \<Rightarrow> update_note_request \<Rightarrow> work_gateway \<Rightarrow>
   (http_error + matter_note) \<times> work_gateway" where
  "matter_notes_patch_handler ps now p raw note_id req gw =
     (case open_matter p raw Collaborator gw of Inl e \<Rightarrow> (Inl e, gw)
      | Inr (matter, db) \<Rightarrow>
          (case parse_uuid ps note_id ''note_id'' of Inl e \<Rightarrow> (Inl e, gw)
           | Inr i \<Rightarrow>
               (case update_matter_note now (gw_user_id gw) matter i
                       \<lparr>un_author = map_option trim (unr_author req), un_body = map_option trim (unr_body req), un_pinned = unr_pinned req\<rparr> db of
                  (r, db') \<Rightarrow> (and_then (internal r) (or_not_found ''Note not found''), gw\<lparr>gw_store := Some db'\<rparr>))))"

definition matter_notes_delete_handler ::
  "parsers \<Rightarrow> auth_principal \<Rightarrow> string \<Rightarrow> string \<Rightarrow> work_gateway \<Rightarrow> (http_error + status_code) \<times> work_gateway" where
  "matter_notes_delete_handler ps p raw note_id gw =
     (case open_matter p raw Collaborator gw of Inl e \<Rightarrow> (Inl e, gw)
      | Inr (matter, db) \<Rightarrow>
          (case parse_uuid ps note_id ''note_id'' of Inl e \<Rightarrow> (Inl e, gw)
           | Inr i \<Rightarrow> (case delete_matter_note (gw_user_id gw) matter i db of
                         (r, db') \<Rightarrow> (and_then (internal r) (\<lambda>deleted. if \<not> deleted then Inl (NOT_FOUND, ''Note not found'') else Inr NO_CONTENT),
                                      gw\<lparr>gw_store := Some db'\<rparr>))))"

section \<open>Routes\<close>

text \<open>The routes of the file, with what each request carries beside the matter in the path.\<close>

datatype work_request =
    ListTasks
  | CreateTask create_task_request
  | PatchTask string update_task_request
  | DeleteTask string
  | ListNotes
  | CreateNote create_note_request
  | PatchNote string update_note_request
  | DeleteNote string

datatype work_response = Tasks "matter_task list" | Task matter_task | Notes "matter_note list" | Note matter_note | Code status_code

definition respond :: "('a \<Rightarrow> work_response) \<Rightarrow> http_error + 'a \<Rightarrow> http_error + work_response" where
  "respond f r = and_then r (\<lambda>x. Inr (f x))"

definition work_routes ::
  "parsers \<Rightarrow> uuid \<Rightarrow> nat \<Rightarrow> auth_principal \<Rightarrow> string \<Rightarrow> work_request \<Rightarrow> work_gateway \<Rightarrow> (http_error + work_response) \<times> work_gateway" where
  "work_routes ps fresh now p raw req gw =
     (case req of
        ListTasks \<Rightarrow> (respond Tasks (matter_tasks_list_handler p raw gw), gw)
      | CreateTask r \<Rightarrow> apfst (respond Task) (matter_tasks_create_handler ps fresh now p raw r gw)
      | PatchTask i r \<Rightarrow> apfst (respond Task) (matter_tasks_patch_handler ps now p raw i r gw)
      | DeleteTask i \<Rightarrow> apfst (respond Code) (matter_tasks_delete_handler ps p raw i gw)
      | ListNotes \<Rightarrow> (respond Notes (matter_notes_list_handler p raw gw), gw)
      | CreateNote r \<Rightarrow> apfst (respond Note) (matter_notes_create_handler fresh now p raw r gw)
      | PatchNote i r \<Rightarrow> apfst (respond Note) (matter_notes_patch_handler ps now p raw i r gw)
      | DeleteNote i \<Rightarrow> apfst (respond Code) (matter_notes_delete_handler ps p raw i gw))"

definition needed_role :: "work_request \<Rightarrow> matter_member_role" where
  "needed_role req = (case req of ListTasks \<Rightarrow> Viewer | ListNotes \<Rightarrow> Viewer | _ \<Rightarrow> Collaborator)"

section \<open>Access\<close>

lemmas handler_defs = matter_tasks_list_handler_def matter_tasks_create_handler_def matter_tasks_patch_handler_def
  matter_tasks_delete_handler_def matter_notes_list_handler_def matter_notes_create_handler_def
  matter_notes_patch_handler_def matter_notes_delete_handler_def

lemma and_then_simps [simp]: "and_then (Inl e) f = Inl e" "and_then (Inr x) f = f x"
  by (simp_all add: and_then_def)

text \<open>A request whose opening fails is answered with that error and changes nothing, whatever the route.\<close>

lemma work_routes_refused:
  assumes "open_matter p raw (needed_role req) gw = Inl e"
  shows "work_routes ps fresh now p raw req gw = (Inl e, gw)"
  using assms by (cases req) (simp_all add: work_routes_def needed_role_def handler_defs respond_def)

lemma open_matter_ok:
  assumes "gw_store gw = Some db"
  shows "open_matter p raw minimum gw = Inr (m, db') \<longleftrightarrow>
    db' = db \<and> sanitize_matter_id_for_route raw = Inr m \<and> gd_down db = None \<and> (gw_user_id gw, m) \<in> set (gd_matters db)
    \<and> (\<exists>role. require_matter_access (Some db) (gw_user_id gw) m (ap_user_id p) minimum = Inr role)"
  using assms by (auto simp: open_matter_def ensure_existing_matter_db_def and_then_def split: sum.splits option.splits if_splits)

lemma open_matter_forbidden:
  assumes "gw_store gw = Some db" and "gd_down db = None" and "sanitize_matter_id_for_route raw = Inr m"
    and "ap_user_id p \<noteq> gw_user_id gw"
    and "case role_of db (gw_user_id gw, m, ap_user_id p) of None \<Rightarrow> True | Some r \<Rightarrow> role_rank r < role_rank minimum"
  shows "open_matter p raw minimum gw = Inl (FORBIDDEN, '''')"
  using assms by (auto simp: open_matter_def require_matter_access_def check_matter_access_role_of split: option.splits)

text \<open>What a request may touch: nothing but the work rows of the one matter it names.\<close>

definition same_outside :: "string \<Rightarrow> string \<Rightarrow> work_db \<Rightarrow> work_db \<Rightarrow> bool" where
  "same_outside user m db db' \<longleftrightarrow>
     gateway_db.truncate db' = gateway_db.truncate db
     \<and> filter (\<lambda>t. (mt_user_id t, mt_matter_id t) \<noteq> (user, m)) (wd_tasks db') = filter (\<lambda>t. (mt_user_id t, mt_matter_id t) \<noteq> (user, m)) (wd_tasks db)
     \<and> filter (\<lambda>n. (mn_user_id n, mn_matter_id n) \<noteq> (user, m)) (wd_notes db') = filter (\<lambda>n. (mn_user_id n, mn_matter_id n) \<noteq> (user, m)) (wd_notes db)"

lemma same_outside_refl [simp]: "same_outside user m db db"
  by (simp add: same_outside_def)

lemma filter_map_in:
  assumes "\<And>x. Q x \<Longrightarrow> \<not> P x" and "\<And>x. Q x \<Longrightarrow> \<not> P (f x)"
  shows "filter P (map (\<lambda>x. if Q x then f x else x) xs) = filter P xs"
  using assms by (induction xs) auto

lemma same_outside_tasks:
  assumes "filter (\<lambda>t. (mt_user_id t, mt_matter_id t) \<noteq> (user, m)) rows = filter (\<lambda>t. (mt_user_id t, mt_matter_id t) \<noteq> (user, m)) (wd_tasks db)"
  shows "same_outside user m db (db\<lparr>wd_tasks := rows\<rparr>)"
  using assms by (simp add: same_outside_def gateway_db.truncate_def)

lemma same_outside_notes:
  assumes "filter (\<lambda>n. (mn_user_id n, mn_matter_id n) \<noteq> (user, m)) rows = filter (\<lambda>n. (mn_user_id n, mn_matter_id n) \<noteq> (user, m)) (wd_notes db)"
  shows "same_outside user m db (db\<lparr>wd_notes := rows\<rparr>)"
  using assms by (simp add: same_outside_def gateway_db.truncate_def)

lemma store_ops_outside:
  "same_outside user m db (snd (create_matter_task fresh now user m c db))"
  "same_outside user m db (snd (update_matter_task now user m i u db))"
  "same_outside user m db (snd (delete_matter_task user m i db))"
  "same_outside user m db (snd (create_matter_note fresh now user m cn db))"
  "same_outside user m db (snd (update_matter_note now user m i un db))"
  "same_outside user m db (snd (delete_matter_note user m i db))"
proof -
  show "same_outside user m db (snd (create_matter_task fresh now user m c db))"
    by (auto simp: create_matter_task_def Let_def intro!: same_outside_tasks split: option.splits)
  show "same_outside user m db (snd (update_matter_task now user m i u db))"
    by (auto simp: update_matter_task_def Let_def task_at_def write_task_def
        intro!: same_outside_tasks filter_map_in split: option.splits)
  show "same_outside user m db (snd (delete_matter_task user m i db))"
    by (auto simp: delete_matter_task_def task_at_def intro!: same_outside_tasks split: option.splits) (rule filter_cong, auto)
  show "same_outside user m db (snd (create_matter_note fresh now user m cn db))"
    by (auto simp: create_matter_note_def Let_def intro!: same_outside_notes split: option.splits)
  show "same_outside user m db (snd (update_matter_note now user m i un db))"
    by (auto simp: update_matter_note_def Let_def note_at_def
        intro!: same_outside_notes filter_map_in split: option.splits)
  show "same_outside user m db (snd (delete_matter_note user m i db))"
    by (auto simp: delete_matter_note_def note_at_def intro!: same_outside_notes split: option.splits) (rule filter_cong, auto)
qed

lemmas store_ops_outside_eq = store_ops_outside [THEN snd_pairE [where P = "same_outside user m db" for user m db, rotated]]

lemma work_routes_outside:
  assumes "gw_store gw = Some db" and "open_matter p raw (needed_role req) gw = Inr (m, db)"
  shows "\<exists>db'. snd (work_routes ps fresh now p raw req gw) = gw\<lparr>gw_store := Some db'\<rparr> \<and> same_outside (gw_user_id gw) m db db'"
proof -
  have self: "gw\<lparr>gw_store := Some db\<rparr> = gw" using assms(1) by simp
  have same: "\<exists>db'. gw = gw\<lparr>gw_store := Some db'\<rparr> \<and> same_outside (gw_user_id gw) m db db'"
    by (rule exI [of _ db]) (simp add: self)
  show ?thesis
    using assms(2) same
    by (cases req)
      (auto simp: work_routes_def needed_role_def handler_defs intro: same store_ops_outside_eq
        split: sum.splits prod.splits)
qed

text \<open>C6: The guard of the tasks and notes of a matter holds on every route. A user who is neither the gateway's account nor
  a member with the rank the route asks for gets a bare \<open>FORBIDDEN\<close> with no text, the same whether or not the matter exists
  or has rows, and nothing changes. No request changes anything but the tasks and notes of the matter it names, and the
  routes open to viewers change nothing at all.\<close>

theorem work_access_confined:
  assumes "gw_store gw = Some db" and "gd_down db = None" and "sanitize_matter_id_for_route raw = Inr m"
  shows "(ap_user_id p \<noteq> gw_user_id gw \<and>
          (case role_of db (gw_user_id gw, m, ap_user_id p) of None \<Rightarrow> True | Some r \<Rightarrow> role_rank r < role_rank (needed_role req))
            \<longrightarrow> work_routes ps fresh now p raw req gw = (Inl (FORBIDDEN, ''''), gw))
    \<and> (\<exists>db'. snd (work_routes ps fresh now p raw req gw) = gw\<lparr>gw_store := Some db'\<rparr> \<and> same_outside (gw_user_id gw) m db db')
    \<and> (needed_role req = Viewer \<longrightarrow> snd (work_routes ps fresh now p raw req gw) = gw)"
proof (intro conjI impI)
  assume "ap_user_id p \<noteq> gw_user_id gw \<and>
    (case role_of db (gw_user_id gw, m, ap_user_id p) of None \<Rightarrow> True | Some r \<Rightarrow> role_rank r < role_rank (needed_role req))"
  then show "work_routes ps fresh now p raw req gw = (Inl (FORBIDDEN, ''''), gw)"
    using open_matter_forbidden [OF assms] by (auto intro: work_routes_refused)
next
  show "\<exists>db'. snd (work_routes ps fresh now p raw req gw) = gw\<lparr>gw_store := Some db'\<rparr> \<and> same_outside (gw_user_id gw) m db db'"
  proof (cases "open_matter p raw (needed_role req) gw")
    case (Inl e)
    then show ?thesis using assms(1) by (intro exI [of _ db]) (simp add: work_routes_refused)
  next
    case (Inr r)
    then obtain m' db' where r: "open_matter p raw (needed_role req) gw = Inr (m', db')" by (cases r) auto
    then have "m' = m" "db' = db" using assms by (auto simp: open_matter_ok)
    then show ?thesis using r assms(1) work_routes_outside by blast
  qed
next
  assume "needed_role req = Viewer"
  then show "snd (work_routes ps fresh now p raw req gw) = gw"
    by (cases req) (simp_all add: needed_role_def work_routes_def)
qed

definition firm :: work_gateway where
  "firm = \<lparr>gw_user_id = ''ann'', gw_store = Some (gateway_db.extend
     (office\<lparr>gd_members := [\<lparr>mm_id = 1, mm_owner = ''ann'', mm_matter = ''acme'', mm_member = ''bob'', mm_role = Viewer,
                             mm_created_at = 0, mm_updated_at = 0\<rparr>]\<rparr>)
     (work_db.fields
        [\<lparr>mt_id = 5, mt_user_id = ''ann'', mt_matter_id = ''acme'', mt_title = ''File answer'', mt_description = None, mt_status = Todo,
          mt_assignee = None, mt_due_at = None, mt_blocked_by = [], mt_created_at = 0, mt_updated_at = 0\<rparr>]
        []))\<rparr>"

definition no_parsers :: parsers where
  "no_parsers = \<lparr>pr_uuid = (\<lambda>s. if s = ''5'' then Some 5 else None), pr_date = (\<lambda>_. None), pr_rfc3339 = (\<lambda>_. None)\<rparr>"

theorem work_access_confined_witness:
  "work_routes no_parsers 9 1 \<lparr>ap_user_id = ''bob'', ap_role = Staff\<rparr> ''acme'' (DeleteTask ''5'') firm = (Inl (FORBIDDEN, ''''), firm)
   \<and> fst (work_routes no_parsers 9 1 \<lparr>ap_user_id = ''bob'', ap_role = Staff\<rparr> ''acme'' ListTasks firm) = Inr (Tasks (wd_tasks (the (gw_store firm))))"
proof -
  have s: "gw_store firm = Some (the (gw_store firm))" and d: "gd_down (the (gw_store firm)) = None"
    and m: "sanitize_matter_id_for_route ''acme'' = Inr ''acme''"
    and r: "role_of (the (gw_store firm)) (''ann'', ''acme'', ''bob'') = Some Viewer" and u: "gw_user_id firm = ''ann''"
    by code_simp+
  have l: "fst (work_routes no_parsers 9 1 \<lparr>ap_user_id = ''bob'', ap_role = Staff\<rparr> ''acme'' ListTasks firm) = Inr (Tasks (wd_tasks (the (gw_store firm))))"
    by code_simp
  show ?thesis
    using work_access_confined [OF s d m, of "\<lparr>ap_user_id = ''bob'', ap_role = Staff\<rparr>" "DeleteTask ''5''" no_parsers 9 1] r u l
    by (simp add: needed_role_def role_rank_def)
qed

section \<open>The life of a task\<close>

lemma find_fresh:
  assumes "i \<notin> mt_id ` set rows" and "task_at user m i t"
  shows "find (task_at user m i) (rows @ [t]) = Some t"
  using assms by (induction rows) (auto simp: task_at_def)

lemma no_task_at: "i \<notin> mt_id ` set rows \<Longrightarrow> x \<in> set rows \<Longrightarrow> \<not> task_at user m i x"
  by (auto simp: task_at_def)

lemma task_at_merge: "task_at user m i (merge_task now u t) = task_at user m i t"
  by (simp add: task_at_def merge_task_def)

text \<open>A task that is created in a matter is stored as given; updating it answers with, and stores, exactly the given fields
  over the old ones, leaving every other row as it was; deleting it reports success and restores the
  table of before the creation.\<close>

theorem task_roundtrip:
  assumes "gd_down db = None" and "(user, m) \<in> set (gd_matters db)" and "fresh \<notin> mt_id ` set (wd_tasks db)"
  shows "\<exists>t. create_matter_task fresh now user m c db = (Inr t, db\<lparr>wd_tasks := wd_tasks db @ [t]\<rparr>)
    \<and> mt_title t = ct_title c \<and> mt_description t = ct_description c \<and> mt_status t = ct_status c
    \<and> mt_assignee t = ct_assignee c \<and> mt_due_at t = ct_due_at c \<and> mt_blocked_by t = ct_blocked_by c
    \<and> update_matter_task now' user m fresh u (db\<lparr>wd_tasks := wd_tasks db @ [t]\<rparr>)
        = (Inr (Some (merge_task now' u t)), db\<lparr>wd_tasks := wd_tasks db @ [merge_task now' u t]\<rparr>)
    \<and> delete_matter_task user m fresh (db\<lparr>wd_tasks := wd_tasks db @ [merge_task now' u t]\<rparr>) = (Inr True, db)"
proof -
  let ?t = "\<lparr>mt_id = fresh, mt_user_id = user, mt_matter_id = m, mt_title = ct_title c,
    mt_description = ct_description c, mt_status = ct_status c, mt_assignee = ct_assignee c,
    mt_due_at = ct_due_at c, mt_blocked_by = ct_blocked_by c, mt_created_at = now, mt_updated_at = now\<rparr>"
  let ?t' = "merge_task now' u ?t"
  have at: "task_at user m fresh ?t" "task_at user m fresh ?t'" by (simp_all add: task_at_def task_at_merge merge_task_def)
  have rows: "map (\<lambda>t. if task_at user m fresh t then write_task ?t' t else t) (wd_tasks db) = wd_tasks db"
    "filter (\<lambda>t. \<not> task_at user m fresh t) (wd_tasks db) = wd_tasks db"
    using no_task_at [OF assms(3)] by (auto simp: map_idI filter_id_conv)
  have "write_task ?t' ?t = ?t'" by (simp add: write_task_def merge_task_def)
  then have "create_matter_task fresh now user m c db = (Inr ?t, db\<lparr>wd_tasks := wd_tasks db @ [?t]\<rparr>)"
    "update_matter_task now' user m fresh u (db\<lparr>wd_tasks := wd_tasks db @ [?t]\<rparr>) = (Inr (Some ?t'), db\<lparr>wd_tasks := wd_tasks db @ [?t']\<rparr>)"
    "delete_matter_task user m fresh (db\<lparr>wd_tasks := wd_tasks db @ [?t']\<rparr>) = (Inr True, db)"
    using assms at rows find_fresh [OF assms(3)]
    by (simp_all add: create_matter_task_def update_matter_task_def delete_matter_task_def Let_def)
  then show ?thesis by (intro exI [of _ ?t]) simp
qed

theorem task_roundtrip_witness:
  "\<exists>t. delete_matter_task ''ann'' ''acme'' 6 ((the (gw_store firm))\<lparr>wd_tasks := wd_tasks (the (gw_store firm)) @ [t]\<rparr>) = (Inr True, the (gw_store firm))"
proof -
  have "gd_down (the (gw_store firm)) = None" "(''ann'', ''acme'') \<in> set (gd_matters (the (gw_store firm)))"
    "6 \<notin> mt_id ` set (wd_tasks (the (gw_store firm)))"
    by (simp_all add: firm_def office_def work_db.defs gateway_db.defs)
  from task_roundtrip [OF this, of 1 _ 2 _] show ?thesis by metis
qed

text \<open>Creating a task refuses a blank title, updating one does not: a title of white space is trimmed and stored as the
  empty title.\<close>

theorem blank_title_by_patch:
  assumes "open_matter p raw Collaborator gw = Inr (m, db)" and "gd_down db = None"
    and "pr_uuid ps i = Some n" and "find (task_at (gw_user_id gw) m n) (wd_tasks db) = Some t" and "trim title = []"
  shows "fst (matter_tasks_create_handler ps fresh now p raw \<lparr>ctr_title = title, ctr_description = None, ctr_status = None, ctr_assignee = None,
            ctr_due_at = None, ctr_blocked_by = []\<rparr> gw) = Inl (BAD_REQUEST, in_quotes ''title'' @ '' is required'')
    \<and> (\<exists>t'. fst (matter_tasks_patch_handler ps now p raw i \<lparr>utr_title = Some title, utr_description = None, utr_status = None,
            utr_assignee = None, utr_due_at = None, utr_blocked_by = None\<rparr> gw) = Inr t' \<and> mt_title t' = [])"
proof -
  let ?u = "\<lparr>ut_title = Some [], ut_description = None, ut_status = None, ut_assignee = None, ut_due_at = None, ut_blocked_by = None\<rparr>"
  let ?f = "\<lambda>x. if task_at (gw_user_id gw) m n x then write_task (merge_task now ?u t) x else x"
  have at: "task_at (gw_user_id gw) m n (?f x) = task_at (gw_user_id gw) m n x" for x
    by (simp add: task_at_def write_task_def)
  then have "find (task_at (gw_user_id gw) m n) (map ?f rows) = map_option ?f (find (task_at (gw_user_id gw) m n) rows)" for rows
    by (induction rows) auto
  then have "find (task_at (gw_user_id gw) m n) (map ?f (wd_tasks db)) = Some (write_task (merge_task now ?u t) t)"
    using assms(4) find_holds [OF assms(4)] by simp
  moreover have "mt_title (write_task (merge_task now ?u t) t) = []"
    by (simp add: write_task_def merge_task_def unwrap_or_def)
  ultimately show ?thesis using assms
    by (simp add: matter_tasks_create_handler_def parse_create_task_def parse_required_matter_field_def
        matter_tasks_patch_handler_def parse_uuid_def parse_update_task_def parse_opt_def parse_optional_datetime_patch_def
        update_matter_task_def Let_def internal_def or_not_found_def)
qed

theorem blank_title_by_patch_witness:
  "\<exists>t'. fst (matter_tasks_patch_handler no_parsers 1 \<lparr>ap_user_id = ''ann'', ap_role = Admin\<rparr> ''acme'' ''5'' \<lparr>utr_title = Some '' '', utr_description = None,
      utr_status = None, utr_assignee = None, utr_due_at = None, utr_blocked_by = None\<rparr> firm) = Inr t' \<and> mt_title t' = []"
proof -
  let ?p = "\<lparr>ap_user_id = ''ann'', ap_role = Admin\<rparr>" and ?db = "the (gw_store firm)"
  have "open_matter ?p ''acme'' Collaborator firm = Inr (''acme'', ?db)" "gd_down ?db = None" "pr_uuid no_parsers ''5'' = Some 5"
    "find (task_at (gw_user_id firm) ''acme'' 5) (wd_tasks ?db) = Some (hd (wd_tasks ?db))" "trim '' '' = []"
    by code_simp+
  from blank_title_by_patch [OF this, of _ 1] show ?thesis by blast
qed

end
