(* ===== verification/Llm_Provider.thy ===== *)
theory Llm_Provider
  imports Prelude
begin

text \<open>
  The error type of the LLM layer (\<open>src/error.rs\<close>), the two classifications of errors the
  decorators use (\<open>retry.rs\<close> and \<open>circuit_breaker.rs\<close>), and the provider interface
  (\<open>LlmProvider::complete\<close>) that every decorator wraps and implements.
\<close>

section \<open>Errors\<close>

text \<open>The payload of \<open>Http\<close>, \<open>Json\<close> and \<open>Io\<close> is a foreign error value, kept as its text.\<close>

datatype llm_error =
    RequestFailed string string
  | RateLimited string "duration option"
  | InvalidResponse string string
  | ContextLengthExceeded nat nat
  | ModelNotAvailable string string
  | AuthFailed string
  | SessionExpired string
  | SessionRenewalFailed string string
  | HttpError string
  | JsonError string
  | IoError string

fun is_retryable :: "llm_error \<Rightarrow> bool" where
  "is_retryable (RequestFailed _ _) = True"
| "is_retryable (RateLimited _ _) = True"
| "is_retryable (InvalidResponse _ _) = True"
| "is_retryable (SessionRenewalFailed _ _) = True"
| "is_retryable (HttpError _) = True"
| "is_retryable (IoError _) = True"
| "is_retryable _ = False"

fun is_transient :: "llm_error \<Rightarrow> bool" where
  "is_transient (RequestFailed _ _) = True"
| "is_transient (RateLimited _ _) = True"
| "is_transient (InvalidResponse _ _) = True"
| "is_transient (SessionExpired _) = True"
| "is_transient (SessionRenewalFailed _ _) = True"
| "is_transient (HttpError _) = True"
| "is_transient (IoError _) = True"
| "is_transient _ = False"

lemma is_transient_iff: "is_transient e \<longleftrightarrow> is_retryable e \<or> (\<exists>p. e = SessionExpired p)"
  by (cases e) auto

section \<open>Providers\<close>

text \<open>
  A provider is a state transformer with a fallible result: its state is whatever the backend and
  the wrapped decorators remember between calls.
\<close>

type_synonym ('p, 'req, 'resp) provider = "'p \<Rightarrow> 'req \<Rightarrow> (llm_error + 'resp) \<times> 'p"

text \<open>
  \<open>answers inner req resp\<close>: some state of the wrapped provider answers the request with the
  response. A decorator is transparent when every response it returns is one the wrapped provider
  gives, or one it has remembered in its own state (\<open>held\<close>, empty for all but the cache).
\<close>

definition answers :: "('p, 'req, 'resp) provider \<Rightarrow> 'req \<Rightarrow> 'resp \<Rightarrow> bool" where
  "answers inner req resp \<longleftrightarrow> (\<exists>p p'. inner p req = (Inr resp, p'))"

lemma answersI: "inner p req = (Inr resp, p') \<Longrightarrow> answers inner req resp"
  unfolding answers_def by blast

lemma answersE:
  assumes "answers inner req resp"
  obtains p p' where "inner p req = (Inr resp, p')"
  using assms unfolding answers_def by blast

text \<open>A provider keeps a predicate on its state, whatever it answers.\<close>

definition keeps :: "('p \<Rightarrow> bool) \<Rightarrow> ('p, 'req, 'resp) provider \<Rightarrow> bool" where
  "keeps I inner \<longleftrightarrow> (\<forall>p req. I p \<longrightarrow> I (snd (inner p req)))"

lemma keepsD: "keeps I inner \<Longrightarrow> I p \<Longrightarrow> inner p req = (r, p') \<Longrightarrow> I p'"
  unfolding keeps_def by (metis snd_conv)

locale transparent_decorator =
  fixes dec :: "('p, 'req, 'resp) provider \<Rightarrow> ('d, 'req, 'resp) provider"
    and held :: "'d \<Rightarrow> 'resp \<Rightarrow> bool"
  assumes transparent:
    "dec inner d req = (Inr resp, d') \<Longrightarrow> answers inner req resp \<or> held d resp"

text \<open>A decorator that remembers nothing: what it answers, the wrapped provider answers.\<close>

locale stateless_decorator = transparent_decorator +
  assumes holds_nothing: "\<not> held d resp"
begin

lemma answers_dec: "answers (dec inner) req resp \<Longrightarrow> answers inner req resp"
  unfolding answers_def using transparent holds_nothing
  by (metis answers_def)

end

end
