(* ===== verification/Circuit_Breaker.thy ===== *)
theory Circuit_Breaker
  imports Llm_Provider
begin

text \<open>
  \<open>src/llm/circuit_breaker.rs\<close>: the breaker's state machine. Every \<open>lock().await\<close> section is
  one transformer of the state; \<open>complete\<close> runs the pre-flight check, the wrapped provider, and the
  record section. The step relation interleaves these sections of any number of calls in flight.
\<close>

section \<open>State and operations\<close>

record breaker_config =
  failure_threshold :: u32
  recovery_timeout :: duration
  half_open_successes_needed :: u32

definition default_breaker_config :: breaker_config where
  "default_breaker_config =
     \<lparr>failure_threshold = 5, recovery_timeout = from_secs 30, half_open_successes_needed = 2\<rparr>"

datatype circuit_state = Closed | Open | HalfOpen

record breaker_state =
  cb_state :: circuit_state
  consecutive_failures :: u32
  opened_at :: "instant option"
  half_open_successes :: u32

definition new_breaker :: breaker_state where
  "new_breaker =
     \<lparr>cb_state = Closed, consecutive_failures = 0, opened_at = None, half_open_successes = 0\<rparr>"

text \<open>
  The clock is read twice in the rejecting branch (\<open>now\<close>, then \<open>now'\<close>). \<open>fmt\<close> renders the
  rejection's reason from the failure count and the remaining time; \<open>model\<close> is the wrapped
  provider's name.
\<close>

definition check_allowed ::
  "breaker_config \<Rightarrow> string \<Rightarrow> (u32 \<Rightarrow> duration \<Rightarrow> string) \<Rightarrow> instant \<Rightarrow> instant \<Rightarrow>
   breaker_state \<Rightarrow> (llm_error + unit) \<times> breaker_state" where
  "check_allowed cfg model fmt now now' s =
     (case cb_state s of
        Closed \<Rightarrow> (Inr (), s)
      | HalfOpen \<Rightarrow> (Inr (), s)
      | Open \<Rightarrow>
          (case opened_at s of
             Some t \<Rightarrow>
               if elapsed now t \<ge> recovery_timeout cfg
               then (Inr (), s\<lparr>cb_state := HalfOpen, half_open_successes := 0\<rparr>)
               else (Inl (RequestFailed model
                            (fmt (consecutive_failures s) (recovery_timeout cfg - elapsed now' t))), s)
           | None \<Rightarrow> (Inr (), s\<lparr>cb_state := Closed\<rparr>)))"

definition record_success :: "breaker_config \<Rightarrow> breaker_state \<Rightarrow> breaker_state" where
  "record_success cfg s =
     (case cb_state s of
        Closed \<Rightarrow> s\<lparr>consecutive_failures := 0\<rparr>
      | HalfOpen \<Rightarrow>
          (let s1 = s\<lparr>half_open_successes := half_open_successes s + 1\<rparr>
           in if half_open_successes s1 \<ge> half_open_successes_needed cfg
              then s1\<lparr>cb_state := Closed, consecutive_failures := 0, opened_at := None\<rparr>
              else s1)
      | Open \<Rightarrow> s\<lparr>cb_state := Closed, consecutive_failures := 0, opened_at := None\<rparr>)"

definition record_failure ::
  "breaker_config \<Rightarrow> instant \<Rightarrow> llm_error \<Rightarrow> breaker_state \<Rightarrow> breaker_state" where
  "record_failure cfg now err s =
     (if \<not> is_transient err then s
      else (case cb_state s of
        Closed \<Rightarrow>
          (let s1 = s\<lparr>consecutive_failures := consecutive_failures s + 1\<rparr>
           in if consecutive_failures s1 \<ge> failure_threshold cfg
              then s1\<lparr>cb_state := Open, opened_at := Some now\<rparr>
              else s1)
      | HalfOpen \<Rightarrow> s\<lparr>cb_state := Open, opened_at := Some now, half_open_successes := 0\<rparr>
      | Open \<Rightarrow> s))"

text \<open>\<open>complete\<close> and \<open>complete_with_tools\<close> have the same body over different request types.\<close>

definition cb_complete ::
  "breaker_config \<Rightarrow> string \<Rightarrow> (u32 \<Rightarrow> duration \<Rightarrow> string) \<Rightarrow> instant \<times> instant \<times> instant \<Rightarrow>
   ('p, 'req, 'resp) provider \<Rightarrow> ('p \<times> breaker_state, 'req, 'resp) provider" where
  "cb_complete cfg model fmt clk inner d req =
     (case (clk, d) of ((now, now', later), (p, s)) \<Rightarrow>
        (case check_allowed cfg model fmt now now' s of
           (Inl e, s1) \<Rightarrow> (Inl e, (p, s1))
         | (Inr _, s1) \<Rightarrow>
             (case inner p req of
                (Inr resp, p') \<Rightarrow> (Inr resp, (p', record_success cfg s1))
              | (Inl err, p') \<Rightarrow> (Inl err, (p', record_failure cfg later err s1)))))"

lemmas cb_defs = check_allowed_def record_success_def record_failure_def

section \<open>Interleaved calls\<close>

text \<open>
  The shared breaker with \<open>inflight\<close> calls between their check and their record section. Any call
  may enter, be rejected, or report its outcome at any time.
\<close>

record cb_system =
  sys_breaker :: breaker_state
  inflight :: nat

inductive cb_step :: "breaker_config \<Rightarrow> string \<Rightarrow> (u32 \<Rightarrow> duration \<Rightarrow> string) \<Rightarrow>
  cb_system \<Rightarrow> cb_system \<Rightarrow> bool" for cfg model fmt where
  enter: "check_allowed cfg model fmt now now' (sys_breaker s) = (Inr (), b) \<Longrightarrow>
     cb_step cfg model fmt s \<lparr>sys_breaker = b, inflight = Suc (inflight s)\<rparr>"
| reject: "check_allowed cfg model fmt now now' (sys_breaker s) = (Inl e, b) \<Longrightarrow>
     cb_step cfg model fmt s \<lparr>sys_breaker = b, inflight = inflight s\<rparr>"
| success: "0 < inflight s \<Longrightarrow>
     cb_step cfg model fmt s
       \<lparr>sys_breaker = record_success cfg (sys_breaker s), inflight = inflight s - 1\<rparr>"
| failure: "0 < inflight s \<Longrightarrow>
     cb_step cfg model fmt s
       \<lparr>sys_breaker = record_failure cfg now err (sys_breaker s), inflight = inflight s - 1\<rparr>"

definition cb_init :: "cb_system \<Rightarrow> bool" where
  "cb_init s \<longleftrightarrow> s = \<lparr>sys_breaker = new_breaker, inflight = 0\<rparr>"

section \<open>The invariant\<close>

text \<open>
  The circuit is closed exactly when no opening time is stored; in the closed state the failure
  count is below the threshold, in the half-open state the success count is below its goal (both
  read as 1 when configured as 0, since the comparison follows the increment). So neither
  counter's increment wraps.
\<close>

definition breaker_ok :: "breaker_config \<Rightarrow> breaker_state \<Rightarrow> bool" where
  "breaker_ok cfg b \<longleftrightarrow>
     (cb_state b = Closed \<longleftrightarrow> opened_at b = None) \<and>
     (cb_state b = Closed \<longrightarrow>
        unat (consecutive_failures b) < max 1 (unat (failure_threshold cfg))) \<and>
     (cb_state b = HalfOpen \<longrightarrow>
        unat (half_open_successes b) < max 1 (unat (half_open_successes_needed cfg)))"

lemma unat_inc_below:
  fixes a t :: u32
  assumes "unat a < max 1 (unat t)"
  shows "unat (a + 1) = unat a + 1"
proof -
  have "unat t < 2 ^ 32" using unsigned_less [of t] by simp
  with assms have "unat a + 1 < 2 ^ 32" by (auto simp: max_def split: if_splits)
  then show ?thesis by (simp add: unat_word_ariths)
qed

lemma breaker_ok_new [inv_rules]: "breaker_ok cfg new_breaker"
  by (simp add: breaker_ok_def new_breaker_def)

lemma breaker_ok_check [inv_rules]:
  assumes "breaker_ok cfg s"
  shows "breaker_ok cfg (snd (check_allowed cfg model fmt now now' s))"
  using assms by (auto simp: breaker_ok_def check_allowed_def split: circuit_state.splits option.splits)

lemma breaker_ok_check_result:
  assumes "check_allowed cfg model fmt now now' s = (r, b)" and "breaker_ok cfg s"
  shows "breaker_ok cfg b"
  using breaker_ok_check [OF assms(2), of model fmt now now'] by (simp add: assms(1))

lemma breaker_ok_success [inv_rules]:
  assumes "breaker_ok cfg s"
  shows "breaker_ok cfg (record_success cfg s)"
proof (cases "cb_state s")
  case HalfOpen
  with assms have "unat (half_open_successes s + 1) = unat (half_open_successes s) + 1"
    by (intro unat_inc_below [where t = "half_open_successes_needed cfg"]) (simp add: breaker_ok_def)
  with HalfOpen assms show ?thesis
    by (auto simp: breaker_ok_def record_success_def Let_def word_le_nat_alt)
qed (use assms in \<open>auto simp: breaker_ok_def record_success_def\<close>)

lemma breaker_ok_failure [inv_rules]:
  assumes "breaker_ok cfg s"
  shows "breaker_ok cfg (record_failure cfg now err s)"
proof (cases "cb_state s")
  case Closed
  with assms have "unat (consecutive_failures s + 1) = unat (consecutive_failures s) + 1"
    by (intro unat_inc_below [where t = "failure_threshold cfg"]) (simp add: breaker_ok_def)
  with Closed assms show ?thesis
    by (auto simp: breaker_ok_def record_failure_def Let_def word_le_nat_alt)
qed (use assms in \<open>auto simp: breaker_ok_def record_failure_def\<close>)

lemma cb_step_ok:
  assumes "breaker_ok cfg (sys_breaker s)" and "cb_step cfg model fmt s t"
  shows "breaker_ok cfg (sys_breaker t)"
  using assms(2)
proof cases
  case (enter now now' b)
  from breaker_ok_check_result [OF this(2) assms(1)] enter(1) show ?thesis by simp
next
  case (reject now now' e b)
  from breaker_ok_check_result [OF this(2) assms(1)] reject(1) show ?thesis by simp
qed (use assms(1) in \<open>simp_all add: breaker_ok_success breaker_ok_failure\<close>)

interpretation breaker: steps_inv cb_init "cb_step cfg model fmt" "\<lambda>s. breaker_ok cfg (sys_breaker s)"
  for cfg model fmt
proof
  fix s assume "cb_init s"
  then show "breaker_ok cfg (sys_breaker s)" by (simp add: cb_init_def breaker_ok_new)
next
  fix s t assume "breaker_ok cfg (sys_breaker s)" "cb_step cfg model fmt s t"
  then show "breaker_ok cfg (sys_breaker t)" by (rule cb_step_ok)
qed

interpretation breaker_dec: stateless_decorator "cb_complete cfg model fmt clk" "\<lambda>_ _. False"
  for cfg model fmt clk
proof
  fix inner :: "('p, 'req, 'resp) provider" and d req resp d'
  assume "cb_complete cfg model fmt clk inner d req = (Inr resp, d')"
  then show "answers inner req resp \<or> False"
    unfolding answers_def
    by (cases d; cases clk) (auto simp: cb_complete_def split: prod.splits sum.splits)
qed simp

section \<open>Runs of failures and successes\<close>

definition fail_all :: "breaker_config \<Rightarrow> (instant \<times> llm_error) list \<Rightarrow> breaker_state \<Rightarrow> breaker_state" where
  "fail_all cfg evs s = fold (\<lambda>(now, err). record_failure cfg now err) evs s"

lemma fail_all_snoc:
  "fail_all cfg (evs @ [(now, err)]) s = record_failure cfg now err (fail_all cfg evs s)"
  by (simp add: fail_all_def)

text \<open>After fewer failures than the threshold the circuit is closed and has counted them all; from
  the threshold on it is open since the failure that reached it.\<close>

lemma fail_all_new:
  assumes "\<forall>(now, err) \<in> set evs. is_transient err" and "failure_threshold cfg \<noteq> 0"
  shows "if length evs < unat (failure_threshold cfg)
         then cb_state (fail_all cfg evs new_breaker) = Closed \<and>
              unat (consecutive_failures (fail_all cfg evs new_breaker)) = length evs \<and>
              opened_at (fail_all cfg evs new_breaker) = None
         else cb_state (fail_all cfg evs new_breaker) = Open \<and>
              opened_at (fail_all cfg evs new_breaker) =
                Some (fst (evs ! (unat (failure_threshold cfg) - 1)))"
  using assms(1)
proof (induction evs rule: rev_induct)
  case Nil
  then show ?case using assms(2) by (simp add: fail_all_def new_breaker_def unat_gt_0)
next
  case (snoc ev evs)
  obtain now err where ev: "ev = (now, err)" by (cases ev)
  let ?thr = "unat (failure_threshold cfg)"
  let ?s = "fail_all cfg evs new_breaker"
  have tr: "is_transient err" using snoc.prems by (simp add: ev)
  have "\<forall>(now, err) \<in> set evs. is_transient err" using snoc.prems by auto
  note IH = snoc.IH [OF this]
  show ?case
  proof (cases "length evs < ?thr")
    case True
    with IH have closed: "cb_state ?s = Closed" and cf: "unat (consecutive_failures ?s) = length evs"
      and op: "opened_at ?s = None" by simp_all
    have inc: "unat (consecutive_failures ?s + 1) = length evs + 1"
      using unat_inc_below [of "consecutive_failures ?s" "failure_threshold cfg"] True cf by simp
    show ?thesis
      using True closed op inc tr
      by (auto simp: ev fail_all_snoc record_failure_def Let_def word_le_nat_alt nth_append)
  next
    case False
    moreover have "0 < ?thr" using assms(2) by (simp add: unat_gt_0)
    ultimately have "?thr - 1 < length evs" by linarith
    then show ?thesis using False IH tr
      by (auto simp: ev fail_all_snoc record_failure_def nth_append)
  qed
qed

lemma record_success_half_open:
  assumes "cb_state s = HalfOpen" and "unat (half_open_successes s) < unat (half_open_successes_needed cfg)"
  shows "if unat (half_open_successes s) + 1 < unat (half_open_successes_needed cfg)
         then cb_state (record_success cfg s) = HalfOpen \<and>
              unat (half_open_successes (record_success cfg s)) = unat (half_open_successes s) + 1
         else cb_state (record_success cfg s) = Closed \<and> consecutive_failures (record_success cfg s) = 0"
proof -
  have "unat (half_open_successes s + 1) = unat (half_open_successes s) + 1"
    using unat_inc_below [of "half_open_successes s" "half_open_successes_needed cfg"] assms(2) by simp
  then show ?thesis using assms by (simp add: record_success_def Let_def word_le_nat_alt)
qed

lemma half_open_run:
  assumes "cb_state s = HalfOpen" and "half_open_successes s = 0"
    and "n < unat (half_open_successes_needed cfg)"
  shows "cb_state ((record_success cfg ^^ n) s) = HalfOpen \<and>
         unat (half_open_successes ((record_success cfg ^^ n) s)) = n"
  using assms(3)
proof (induction n)
  case 0
  then show ?case using assms by simp
next
  case (Suc n)
  let ?s = "(record_success cfg ^^ n) s"
  have st: "cb_state ?s = HalfOpen" and ct: "unat (half_open_successes ?s) = n" using Suc by simp_all
  with record_success_half_open [of ?s cfg] Suc.prems show ?case by simp
qed

lemma reach_entered:
  "reach cb_init (cb_step cfg model fmt) \<lparr>sys_breaker = new_breaker, inflight = k\<rparr>"
proof (induction k)
  case 0
  show ?case by (rule reach_init) (simp add: cb_init_def)
next
  case (Suc k)
  have "check_allowed cfg model fmt 0 0 new_breaker = (Inr (), new_breaker)"
    by (simp add: check_allowed_def new_breaker_def)
  then have "cb_step cfg model fmt \<lparr>sys_breaker = new_breaker, inflight = k\<rparr>
      \<lparr>sys_breaker = new_breaker, inflight = Suc k\<rparr>"
    using cb_step.enter [of cfg model fmt 0 0 "\<lparr>sys_breaker = new_breaker, inflight = k\<rparr>"] by simp
  with Suc show ?case by (rule reach_step)
qed

lemma reach_fail_all:
  assumes "reach cb_init (cb_step cfg model fmt) \<lparr>sys_breaker = b, inflight = length evs + k\<rparr>"
  shows "reach cb_init (cb_step cfg model fmt) \<lparr>sys_breaker = fail_all cfg evs b, inflight = k\<rparr>"
  using assms
proof (induction evs arbitrary: b)
  case Nil
  then show ?case by (simp add: fail_all_def)
next
  case (Cons ev evs)
  obtain now err where ev: "ev = (now, err)" by (cases ev)
  have "cb_step cfg model fmt \<lparr>sys_breaker = b, inflight = Suc (length evs + k)\<rparr>
     \<lparr>sys_breaker = record_failure cfg now err b, inflight = length evs + k\<rparr>"
    using cb_step.failure [of "\<lparr>sys_breaker = b, inflight = Suc (length evs + k)\<rparr>" cfg model fmt now err]
    by simp
  with Cons.prems have "reach cb_init (cb_step cfg model fmt)
     \<lparr>sys_breaker = record_failure cfg now err b, inflight = length evs + k\<rparr>"
    by (auto intro: reach_step)
  from Cons.IH [OF this] show ?case by (simp add: ev fail_all_def)
qed

section \<open>Properties\<close>

text \<open>C31: however calls interleave, the breaker is closed exactly when it stores no opening time,
  its failure count stays below the threshold while closed and its success count below the goal
  while half-open, and so the increment of neither 32-bit counter ever wraps.\<close>

theorem breaker_invariant:
  assumes "reach cb_init (cb_step cfg model fmt) s"
  shows "(cb_state (sys_breaker s) = Closed \<longleftrightarrow> opened_at (sys_breaker s) = None) \<and>
    (cb_state (sys_breaker s) = Closed \<longrightarrow>
       unat (consecutive_failures (sys_breaker s)) < max 1 (unat (failure_threshold cfg)) \<and>
       unat (consecutive_failures (sys_breaker s) + 1) = unat (consecutive_failures (sys_breaker s)) + 1) \<and>
    (cb_state (sys_breaker s) = HalfOpen \<longrightarrow>
       unat (half_open_successes (sys_breaker s)) < max 1 (unat (half_open_successes_needed cfg)) \<and>
       unat (half_open_successes (sys_breaker s) + 1) = unat (half_open_successes (sys_breaker s)) + 1)"
  using breaker.reach_inv [OF assms] unat_inc_below by (auto simp: breaker_ok_def)

theorem breaker_invariant_witness:
  "reach cb_init (cb_step default_breaker_config ''m'' (\<lambda>_ _. []))
     \<lparr>sys_breaker = new_breaker, inflight = 3\<rparr> \<and>
   unat (consecutive_failures new_breaker + 1) = unat (consecutive_failures new_breaker) + 1"
proof -
  have r: "reach cb_init (cb_step default_breaker_config ''m'' (\<lambda>_ _. []))
     \<lparr>sys_breaker = new_breaker, inflight = 3\<rparr>" by (rule reach_entered)
  show ?thesis using r breaker_invariant [OF r] by (simp add: new_breaker_def)
qed

text \<open>while the circuit is open and the recovery timeout has not elapsed, a call is rejected
  without reaching the wrapped provider, and neither the provider nor the breaker changes.\<close>

theorem open_breaker_rejects:
  assumes "cb_state s = Open" and "opened_at s = Some t" and "elapsed now t < recovery_timeout cfg"
  shows "cb_complete cfg model fmt (now, now', later) inner (p, s) req =
    (Inl (RequestFailed model
       (fmt (consecutive_failures s) (recovery_timeout cfg - elapsed now' t))), (p, s))"
  using assms by (simp add: cb_complete_def check_allowed_def)

theorem open_breaker_rejects_witness:
  "cb_complete default_breaker_config ''m'' (\<lambda>_ _. ''open'') (7, 8, 9) (\<lambda>p r. (Inr r, Suc p))
     (0, \<lparr>cb_state = Open, consecutive_failures = 5, opened_at = Some 3, half_open_successes = 0\<rparr>) True
   = (Inl (RequestFailed ''m'' ''open''),
      (0, \<lparr>cb_state = Open, consecutive_failures = 5, opened_at = Some 3, half_open_successes = 0\<rparr>))"
proof -
  have e: "elapsed 7 3 < recovery_timeout default_breaker_config"
    by (simp add: default_breaker_config_def)
  show ?thesis
    using open_breaker_rejects
      [of "\<lparr>cb_state = Open, consecutive_failures = 5, opened_at = Some 3, half_open_successes = 0\<rparr>"
        3 7 default_breaker_config "''m''" "\<lambda>_ _. ''open''" 8 9 "\<lambda>p r. (Inr r, Suc p)" 0 True] e
    by simp
qed

text \<open>from a fresh breaker, consecutive transient failures trip the circuit exactly when their
  number reaches the threshold, and the stored opening time is that of the failure that reached it.\<close>

theorem breaker_trips_at_threshold:
  assumes "\<forall>(now, err) \<in> set evs. is_transient err" and "failure_threshold cfg \<noteq> 0"
  shows "cb_state (fold (\<lambda>(now, err). record_failure cfg now err) evs new_breaker) =
           (if length evs < unat (failure_threshold cfg) then Closed else Open) \<and>
         opened_at (fold (\<lambda>(now, err). record_failure cfg now err) evs new_breaker) =
           (if length evs < unat (failure_threshold cfg) then None
            else Some (fst (evs ! (unat (failure_threshold cfg) - 1))))"
  using fail_all_new [OF assms] by (simp add: fail_all_def split: if_splits)

theorem breaker_trips_at_threshold_witness:
  "cb_state (fold (\<lambda>(now, err). record_failure default_breaker_config now err)
     [(1, HttpError ''x''), (2, IoError ''x''), (3, HttpError ''x''), (4, SessionExpired ''x''),
      (5, HttpError ''x''), (6, HttpError ''x'')] new_breaker) = Open"
  using breaker_trips_at_threshold
    [of "[(1, HttpError ''x''), (2, IoError ''x''), (3, HttpError ''x''), (4, SessionExpired ''x''),
      (5, HttpError ''x''), (6, HttpError ''x'')]" default_breaker_config]
  by (simp add: default_breaker_config_def)

text \<open>once the recovery timeout has elapsed the next call is let through as a probe; the circuit
  then stays half-open until the configured number of successes has been recorded and closes, with
  its failure count cleared, at exactly that success.\<close>

theorem breaker_recovers:
  assumes "cb_state s = Open" and "opened_at s = Some t" and "elapsed now t \<ge> recovery_timeout cfg"
    and "half_open_successes_needed cfg \<noteq> 0"
  shows "\<exists>s1. check_allowed cfg model fmt now now' s = (Inr (), s1) \<and> cb_state s1 = HalfOpen \<and>
    (\<forall>n < unat (half_open_successes_needed cfg). cb_state ((record_success cfg ^^ n) s1) = HalfOpen) \<and>
    cb_state ((record_success cfg ^^ unat (half_open_successes_needed cfg)) s1) = Closed \<and>
    consecutive_failures ((record_success cfg ^^ unat (half_open_successes_needed cfg)) s1) = 0"
proof -
  let ?s1 = "s\<lparr>cb_state := HalfOpen, half_open_successes := 0\<rparr>"
  let ?need = "unat (half_open_successes_needed cfg)"
  have run: "cb_state ((record_success cfg ^^ n) ?s1) = HalfOpen \<and>
      unat (half_open_successes ((record_success cfg ^^ n) ?s1)) = n" if "n < ?need" for n
    by (rule half_open_run) (use that in simp_all)
  obtain m where m: "?need = Suc m" using assms(4) by (cases ?need) (auto simp: unat_eq_0)
  let ?sm = "(record_success cfg ^^ m) ?s1"
  have "cb_state ?sm = HalfOpen" and "unat (half_open_successes ?sm) = m" using run [of m] m by simp_all
  with record_success_half_open [of ?sm cfg] m
  have "cb_state (record_success cfg ?sm) = Closed \<and> consecutive_failures (record_success cfg ?sm) = 0"
    by simp
  moreover have "check_allowed cfg model fmt now now' s = (Inr (), ?s1)"
    using assms by (simp add: check_allowed_def)
  ultimately show ?thesis using run m by (intro exI [of _ ?s1]) simp
qed

theorem breaker_recovers_witness:
  "\<exists>s1. check_allowed default_breaker_config ''m'' (\<lambda>_ _. []) (from_secs 40) 0
       \<lparr>cb_state = Open, consecutive_failures = 5, opened_at = Some 0, half_open_successes = 0\<rparr> = (Inr (), s1) \<and>
     cb_state ((record_success default_breaker_config ^^ 2) s1) = Closed"
  using breaker_recovers
    [of "\<lparr>cb_state = Open, consecutive_failures = 5, opened_at = Some 0, half_open_successes = 0\<rparr>" 0
      default_breaker_config "from_secs 40" "''m''" "\<lambda>_ _. []" 0]
  by (auto simp: default_breaker_config_def)

text \<open>an answer to a call admitted before the circuit opened can arrive while it is open, and
  then closes it at once, whatever the recovery timeout; the branch the source marks with
  "Shouldn't get here" is reached by interleaved calls for every positive threshold.\<close>

theorem late_success_closes_open_breaker:
  assumes "failure_threshold cfg \<noteq> 0"
  shows "\<exists>s t. reach cb_init (cb_step cfg model fmt) s \<and> cb_state (sys_breaker s) = Open \<and>
    opened_at (sys_breaker s) = Some now \<and> cb_step cfg model fmt s t \<and>
    sys_breaker t = record_success cfg (sys_breaker s) \<and> cb_state (sys_breaker t) = Closed"
proof -
  let ?evs = "replicate (unat (failure_threshold cfg)) (now, HttpError [])"
  let ?b = "fail_all cfg ?evs new_breaker"
  let ?s = "\<lparr>sys_breaker = ?b, inflight = 1\<rparr>"
  have pos: "0 < unat (failure_threshold cfg)" using assms by (simp add: unat_gt_0)
  have "reach cb_init (cb_step cfg model fmt)
      \<lparr>sys_breaker = new_breaker, inflight = length ?evs + 1\<rparr>" by (rule reach_entered)
  then have r: "reach cb_init (cb_step cfg model fmt) ?s" by (rule reach_fail_all)
  have op: "cb_state ?b = Open" "opened_at ?b = Some now"
    using fail_all_new [of ?evs cfg] assms pos by (auto simp: nth_replicate)
  have "cb_step cfg model fmt ?s \<lparr>sys_breaker = record_success cfg ?b, inflight = 0\<rparr>"
    using cb_step.success [of ?s cfg model fmt] by simp
  moreover have "cb_state (record_success cfg ?b) = Closed" using op by (simp add: record_success_def)
  ultimately show ?thesis using r op
    by (intro exI [of _ ?s] exI [of _ "\<lparr>sys_breaker = record_success cfg ?b, inflight = 0\<rparr>"]) simp
qed

theorem late_success_closes_open_breaker_witness:
  "\<exists>s t. reach cb_init (cb_step default_breaker_config ''m'' (\<lambda>_ _. [])) s \<and>
     cb_state (sys_breaker s) = Open \<and> cb_step default_breaker_config ''m'' (\<lambda>_ _. []) s t \<and>
     cb_state (sys_breaker t) = Closed"
proof -
  have "failure_threshold default_breaker_config \<noteq> 0" by (simp add: default_breaker_config_def)
  from late_success_closes_open_breaker [OF this, of "''m''" "\<lambda>_ _. []" 0] show ?thesis by blast
qed

end
