(* ===== verification/Retry.thy ===== *)
theory Retry
  imports Llm_Provider
begin

text \<open>
  \<open>src/llm/retry.rs\<close>: the exponential backoff, computed in 64-bit machine arithmetic, and the
  retry loop of \<open>RetryProvider\<close>. The loop's sleeps are returned as a list, so that the theorems
  can speak about them.
\<close>

section \<open>Backoff\<close>

definition u64_max :: nat where
  "u64_max = 2 ^ 64 - 1"

definition saturating_mul64 :: "nat \<Rightarrow> nat \<Rightarrow> nat" where
  "saturating_mul64 a b = min (a * b) u64_max"

definition saturating_pow64 :: "nat \<Rightarrow> nat \<Rightarrow> nat" where
  "saturating_pow64 a n = min (a ^ n) u64_max"

definition backoff_base :: "nat \<Rightarrow> nat" where
  "backoff_base attempt = saturating_mul64 1000 (saturating_pow64 2 attempt)"

text \<open>\<open>offset\<close> is the number drawn from \<open>0..=jitter_range * 2\<close>. The casts \<open>as i64\<close> reinterpret the
  64 bits, and the signed sum wraps as release builds do; milliseconds.\<close>

definition retry_backoff_delay :: "nat \<Rightarrow> nat \<Rightarrow> nat" where
  "retry_backoff_delay attempt offset =
     (let base_ms = backoff_base attempt;
          jitter_range = base_ms div 4;
          jitter = (if jitter_range > 0
                    then (of_nat offset :: u64) - of_nat jitter_range else 0);
          sum = (of_nat base_ms :: u64) + jitter
      in if sint sum < 100 then 100 else unat sum)"

section \<open>The retry loop\<close>

definition retry_delay :: "(nat \<Rightarrow> nat) \<Rightarrow> nat \<Rightarrow> llm_error \<Rightarrow> duration" where
  "retry_delay rnd attempt err =
     (case err of
        RateLimited _ (Some d) \<Rightarrow> d
      | _ \<Rightarrow> retry_backoff_delay attempt (rnd attempt) * 1000000)"

fun retry_loop ::
  "(nat \<Rightarrow> nat) \<Rightarrow> string \<Rightarrow> nat \<Rightarrow> ('p, 'req, 'resp) provider \<Rightarrow> 'req \<Rightarrow>
   nat list \<Rightarrow> llm_error option \<Rightarrow> 'p \<Rightarrow> ((llm_error + 'resp) \<times> 'p) \<times> duration list" where
  "retry_loop rnd model max_retries inner req [] last_error p =
     ((Inl (case last_error of Some e \<Rightarrow> e
            | None \<Rightarrow> RequestFailed model ''retry loop exited unexpectedly''), p), [])"
| "retry_loop rnd model max_retries inner req (attempt # rest) last_error p =
     (case inner p req of
        (Inr resp, p') \<Rightarrow> ((Inr resp, p'), [])
      | (Inl err, p') \<Rightarrow>
          (if \<not> is_retryable err \<or> attempt = max_retries then ((Inl err, p'), [])
           else (case retry_loop rnd model max_retries inner req rest (Some err) p' of
                   (res, sleeps) \<Rightarrow> (res, retry_delay rnd attempt err # sleeps))))"

text \<open>\<open>complete\<close> and \<open>complete_with_tools\<close> run the same loop over \<open>0..=max_retries\<close>.\<close>

definition retry_complete_trace ::
  "(nat \<Rightarrow> nat) \<Rightarrow> string \<Rightarrow> u32 \<Rightarrow> ('p, 'req, 'resp) provider \<Rightarrow> 'p \<Rightarrow> 'req \<Rightarrow>
   ((llm_error + 'resp) \<times> 'p) \<times> duration list" where
  "retry_complete_trace rnd model max_retries inner p req =
     retry_loop rnd model (unat max_retries) inner req [0..<unat max_retries + 1] None p"

definition retry_complete ::
  "(nat \<Rightarrow> nat) \<Rightarrow> string \<Rightarrow> u32 \<Rightarrow> ('p, 'req, 'resp) provider \<Rightarrow> ('p, 'req, 'resp) provider" where
  "retry_complete rnd model max_retries inner p req =
     fst (retry_complete_trace rnd model max_retries inner p req)"

section \<open>Lemmas\<close>

text \<open>The provider's state after \<open>n\<close> calls of the same request.\<close>

definition after_calls :: "('p, 'req, 'resp) provider \<Rightarrow> 'req \<Rightarrow> nat \<Rightarrow> 'p \<Rightarrow> 'p" where
  "after_calls inner req n p = ((\<lambda>q. snd (inner q req)) ^^ n) p"

lemma after_calls_0 [simp]: "after_calls inner req 0 p = p"
  by (simp add: after_calls_def)

lemma after_calls_Suc: "after_calls inner req (Suc n) p = after_calls inner req n (snd (inner p req))"
  by (simp add: after_calls_def funpow_Suc_right del: funpow.simps)

text \<open>What one run of the loop did: \<open>n\<close> retryable failures, each followed by its sleep, and then the
  call whose result is returned.\<close>

definition retried ::
  "(nat \<Rightarrow> nat) \<Rightarrow> nat \<Rightarrow> nat \<Rightarrow> ('p, 'req, 'resp) provider \<Rightarrow> 'req \<Rightarrow> 'p \<Rightarrow>
   nat \<Rightarrow> (llm_error + 'resp) \<times> 'p \<Rightarrow> duration list \<Rightarrow> bool" where
  "retried rnd max_retries first inner req p n res sleeps \<longleftrightarrow>
     first + n \<le> max_retries \<and> length sleeps = n \<and>
     inner (after_calls inner req n p) req = res \<and>
     (\<forall>i < n. \<exists>e. fst (inner (after_calls inner req i p) req) = Inl e \<and> is_retryable e \<and>
        sleeps ! i = retry_delay rnd (first + i) e) \<and>
     (first + n = max_retries \<or> is_ok (fst res) \<or> (\<exists>e. fst res = Inl e \<and> \<not> is_retryable e))"

lemma retry_loop_retried:
  assumes "retry_loop rnd model m inner req [k..<Suc m] le p = (res, sleeps)" and "k \<le> m"
  shows "\<exists>n. retried rnd m k inner req p n res sleeps"
  using assms
proof (induction "m - k" arbitrary: k le p res sleeps)
  case 0
  then have k: "k = m" by simp
  obtain r p' where call: "inner p req = (r, p')" by (cases "inner p req")
  show ?case
    using 0(2) call unfolding k
    by (intro exI [of _ 0]) (cases r; auto simp: retried_def)
next
  case (Suc d)
  then have km: "k < m" by simp
  have upt: "[k..<Suc m] = k # [Suc k..<Suc m]" using km by (simp add: upt_conv_Cons)
  obtain r p' where call: "inner p req = (r, p')" by (cases "inner p req")
  show ?case
  proof (cases "\<exists>e. r = Inl e \<and> is_retryable e")
    case False
    then have "res = (r, p') \<and> sleeps = []"
      using Suc.prems call km by (cases r) (auto simp: upt simp del: upt_Suc)
    then have "retried rnd m k inner req p 0 res sleeps"
      using False call km by (cases r) (auto simp: retried_def)
    then show ?thesis by blast
  next
    case True
    then obtain e where e: "r = Inl e" "is_retryable e" by blast
    obtain res' sl where rec: "retry_loop rnd model m inner req [Suc k..<Suc m] (Some e) p' = (res', sl)"
      by (cases "retry_loop rnd model m inner req [Suc k..<Suc m] (Some e) p'")
    with Suc.prems call e km have res: "res = res'" "sleeps = retry_delay rnd k e # sl"
      by (simp_all add: upt del: upt_Suc)
    have "d = m - Suc k" using Suc.hyps(2) by simp
    then obtain n where n: "retried rnd m (Suc k) inner req p' n res' sl"
      using Suc.hyps(1) [OF _ rec] km by auto
    have "retried rnd m k inner req p (Suc n) res sleeps"
      unfolding retried_def
    proof (intro conjI)
      show "\<forall>i<Suc n. \<exists>e. fst (inner (after_calls inner req i p) req) = Inl e \<and> is_retryable e \<and>
          sleeps ! i = retry_delay rnd (k + i) e"
        using n e call res by (auto simp: retried_def after_calls_Suc less_Suc_eq_0_disj)
    qed (use n e call res in \<open>auto simp: retried_def after_calls_Suc\<close>)
    then show ?thesis by blast
  qed
qed

lemma retry_complete_retried:
  assumes "retry_complete_trace rnd model mr inner p req = (res, sleeps)"
  shows "\<exists>n. retried rnd (unat mr) 0 inner req p n res sleeps"
  using retry_loop_retried [of rnd model "unat mr" inner req 0] assms
  by (simp add: retry_complete_trace_def)

interpretation retry_dec: stateless_decorator "retry_complete rnd model mr" "\<lambda>_ _. False"
  for rnd model mr
proof
  fix inner :: "('p, 'req, 'resp) provider" and d req resp d'
  assume r: "retry_complete rnd model mr inner d req = (Inr resp, d')"
  obtain res sleeps where tr: "retry_complete_trace rnd model mr inner d req = (res, sleeps)"
    by (cases "retry_complete_trace rnd model mr inner d req")
  then have "res = (Inr resp, d')" using r by (simp add: retry_complete_def)
  moreover obtain n where "retried rnd (unat mr) 0 inner req d n res sleeps"
    using retry_complete_retried [OF tr] by blast
  ultimately show "answers inner req resp \<or> False"
    unfolding answers_def by (auto simp: retried_def)
qed simp

text \<open>The backoff in exact arithmetic, where no cast or sum leaves the signed range.\<close>

lemma backoff_base_exact: "attempt \<le> 52 \<Longrightarrow> backoff_base attempt = 1000 * 2 ^ attempt"
proof -
  assume "attempt \<le> 52"
  then have "(2::nat) ^ attempt \<le> 2 ^ 52" by (rule power_increasing) simp
  then show ?thesis
    by (simp add: backoff_base_def saturating_mul64_def saturating_pow64_def u64_max_def)
qed

lemma backoff_base_saturated: "55 \<le> attempt \<Longrightarrow> backoff_base attempt = u64_max"
proof -
  assume "55 \<le> attempt"
  then have "(2::nat) ^ 55 \<le> 2 ^ attempt" by (rule power_increasing) simp
  then show ?thesis
    by (simp add: backoff_base_def saturating_mul64_def saturating_pow64_def u64_max_def)
qed

lemma sint_of_int_u64: "- (2 ^ 63) \<le> i \<Longrightarrow> i < 2 ^ 63 \<Longrightarrow> sint (of_int i :: u64) = i"
  by (simp add: signed_of_int signed_take_bit_int_eq_self)

lemma unat_of_int_u64: "0 \<le> i \<Longrightarrow> i < 2 ^ 64 \<Longrightarrow> unat (of_int i :: u64) = nat i"
  by (simp add: unsigned_of_int take_bit_int_eq_self)

text \<open>The two facts about the 64-bit sum the theorems need: its integer value while it fits, and its
  value once the base has saturated to all ones.\<close>

lemma backoff_delay_int:
  fixes i :: int
  assumes i: "i = int (backoff_base a) + (int off - int (backoff_base a div 4))"
    and "0 < backoff_base a div 4" and "100 \<le> i" and "i < 2 ^ 63"
  shows "retry_backoff_delay a off = nat i"
proof -
  have "(of_nat (backoff_base a) :: u64) + (of_nat off - of_nat (backoff_base a div 4)) = of_int i"
    by (simp add: i)
  then show ?thesis using assms
    by (simp add: retry_backoff_delay_def Let_def sint_of_int_u64 unat_of_int_u64 del: of_int_add of_int_diff)
qed

section \<open>Properties\<close>

text \<open>the retry decorator calls the wrapped provider \<open>n + 1\<close> times with \<open>n\<close> at most
  \<open>max_retries\<close>: \<open>n\<close> retryable failures, each followed by the delay the error or the backoff asks for,
  and a last call whose result is returned unchanged and is a success, a non-retryable error, or the
  outcome of the last permitted attempt. The fallback error of the source is never produced.\<close>

theorem retry_behaviour:
  assumes "retry_complete_trace rnd model mr inner p req = (res, sleeps)"
  shows "\<exists>n \<le> unat mr. length sleeps = n \<and> inner (after_calls inner req n p) req = res \<and>
     (\<forall>i < n. \<exists>e. fst (inner (after_calls inner req i p) req) = Inl e \<and> is_retryable e \<and>
        sleeps ! i = retry_delay rnd i e) \<and>
     (n = unat mr \<or> is_ok (fst res) \<or> (\<exists>e. fst res = Inl e \<and> \<not> is_retryable e))"
  using retry_complete_retried [OF assms] by (auto simp: retried_def)

theorem retry_behaviour_witness:
  "\<exists>n \<le> unat (3 :: u32). n = 2 \<and>
     (\<lambda>p r. (if p < 2 then Inl (HttpError ''down'') else Inr p, Suc p))
       (after_calls (\<lambda>p r. (if p < 2 then Inl (HttpError ''down'') else Inr p, Suc p)) True n 0) True
     = (Inr (2::nat), 3)"
proof -
  have run: "retry_complete_trace (\<lambda>a. 0) ''m'' 3
      (\<lambda>p r. (if p < 2 then Inl (HttpError ''down'') else Inr p, Suc p)) 0 True
      = ((Inr (2::nat), 3), [750000000, 1500000000])"
    by (simp add: retry_complete_trace_def upt_conv_Cons retry_delay_def retry_backoff_delay_def
        backoff_base_def saturating_mul64_def saturating_pow64_def u64_max_def Let_def)
  from retry_behaviour [OF run] show ?thesis by (auto simp: after_calls_def numeral_2_eq_2)
qed

text \<open>for the first 53 attempts the delay lies within 25 percent of 1000 ms doubled per attempt,
  for every jitter the generator can return, and the machine arithmetic never overflows.\<close>

theorem backoff_within_quarter:
  assumes "attempt \<le> 52" and "offset \<le> 2 * (1000 * 2 ^ attempt div 4)"
  shows "1000 * 2 ^ attempt - 250 * 2 ^ attempt \<le> retry_backoff_delay attempt offset \<and>
         retry_backoff_delay attempt offset \<le> 1000 * 2 ^ attempt + 250 * 2 ^ attempt"
proof -
  let ?b = "1000 * 2 ^ attempt :: nat"
  let ?i = "int ?b + (int offset - int (?b div 4))"
  have q: "?b div 4 = 250 * 2 ^ attempt" by simp
  have base: "backoff_base attempt = ?b" using assms(1) by (rule backoff_base_exact)
  have p52: "(2::nat) ^ attempt \<le> 2 ^ 52" using assms(1) by (rule power_increasing) simp
  have "offset \<le> 500 * 2 ^ attempt" using assms(2) q by simp
  then have "int offset \<le> int (500 * 2 ^ attempt)" by (rule of_nat_mono)
  then have off: "int offset \<le> 500 * 2 ^ attempt" by simp
  have lo: "int (750 * 2 ^ attempt) \<le> ?i" and hi: "?i \<le> int (1250 * 2 ^ attempt)"
    using off unfolding q by simp_all
  have one: "(1::nat) \<le> 2 ^ attempt" by simp
  have "100 \<le> ?i" using lo one by linarith
  moreover have "?i < 2 ^ 63"
  proof -
    have "int (1250 * 2 ^ attempt) \<le> int (1250 * 2 ^ 52)" using p52 by (intro of_nat_mono) simp
    also have "\<dots> < 2 ^ 63" by simp
    finally show ?thesis using hi by linarith
  qed
  moreover have "0 < backoff_base attempt div 4" by (simp add: base)
  ultimately have "retry_backoff_delay attempt offset = nat ?i"
    using backoff_delay_int [of ?i attempt offset] by (simp only: base)
  moreover have "750 * 2 ^ attempt \<le> nat ?i" "nat ?i \<le> 1250 * 2 ^ attempt" using lo hi by linarith+
  ultimately show ?thesis by simp
qed

theorem backoff_within_quarter_witness:
  "750 \<le> retry_backoff_delay 0 500 \<and> retry_backoff_delay 0 500 \<le> 1250"
  using backoff_within_quarter [of 0 500] by simp

text \<open>from attempt 55 on the base saturates at 64 ones, which the cast reads as -1, so the delay
  falls back to the 100 ms floor for every jitter draw below the middle of its range: the backoff
  no longer grows.\<close>

theorem backoff_collapses:
  assumes "55 \<le> attempt" and "offset < 2 ^ 62"
  shows "retry_backoff_delay attempt offset = 100"
proof -
  have base: "backoff_base attempt = 2 ^ 64 - 1" using backoff_base_saturated [OF assms(1)] by (simp add: u64_max_def)
  have "(of_nat (2 ^ 64 - 1) :: u64) = of_int (-1)" by simp
  moreover have "(of_nat offset :: u64) = of_int (int offset)" by simp
  ultimately have sum: "(of_nat (2 ^ 64 - 1) :: u64) + (of_nat offset - of_nat ((2 ^ 64 - 1) div 4)) =
      of_int (int offset - 2 ^ 62)" by simp
  have "sint (of_int (int offset - 2 ^ 62) :: u64) = int offset - 2 ^ 62"
    using assms(2) by (intro sint_of_int_u64) auto
  moreover have "int offset - 2 ^ 62 < 100" using assms(2) by simp
  ultimately show ?thesis using sum
    by (simp add: retry_backoff_delay_def Let_def base del: of_int_diff)
qed

theorem backoff_collapses_witness: "retry_backoff_delay 60 7 = 100"
  using backoff_collapses [of 60 7] by simp

end
