(* ===== verification/Failover.thy ===== *)
theory Failover
  imports Llm_Provider
begin

text \<open>
  \<open>src/llm/failover.rs\<close>: per-provider cooldown counters, the selection of providers for a call, the
  loop that tries them in order, and the bounded table that binds a provider to the task it served.
  \<open>providers[i]\<close> is \<open>call i\<close>, a provider over the state \<open>'p\<close> of all backends.
\<close>

section \<open>Cooldown of one provider\<close>

record cooldown_config =
  cooldown_duration :: duration
  cd_failure_threshold :: u32

record provider_cooldown =
  failure_count :: u32
  cooldown_activated_nanos :: u64

definition new_cooldown :: provider_cooldown where
  "new_cooldown = \<lparr>failure_count = 0, cooldown_activated_nanos = 0\<rparr>"

definition is_in_cooldown :: "provider_cooldown \<Rightarrow> u64 \<Rightarrow> u64 \<Rightarrow> bool" where
  "is_in_cooldown c now_nanos cooldown_nanos \<longleftrightarrow>
     cooldown_activated_nanos c \<noteq> 0 \<and>
     saturating_sub64 now_nanos (cooldown_activated_nanos c) < cooldown_nanos"

text \<open>\<open>fetch_add\<close> wraps at 32 bits.\<close>

definition cd_record_failure :: "u32 \<Rightarrow> provider_cooldown \<Rightarrow> bool \<times> provider_cooldown" where
  "cd_record_failure threshold c =
     (let prev = failure_count c
      in (prev + 1 \<ge> threshold, c\<lparr>failure_count := prev + 1\<rparr>))"

definition activate_cooldown :: "u64 \<Rightarrow> provider_cooldown \<Rightarrow> provider_cooldown" where
  "activate_cooldown now_nanos c = c\<lparr>cooldown_activated_nanos := max now_nanos 1\<rparr>"

definition reset_cooldown :: "provider_cooldown \<Rightarrow> provider_cooldown" where
  "reset_cooldown c = c\<lparr>failure_count := 0, cooldown_activated_nanos := 0\<rparr>"

section \<open>The failover provider\<close>

record bound_provider =
  provider_idx :: nat
  bound_at :: instant

record failover =
  last_used :: nat
  cooldowns :: "provider_cooldown list"
  provider_for_task :: "(nat, bound_provider) hashmap"

definition failover_with_cooldown :: "nat \<Rightarrow> llm_error + failover" where
  "failover_with_cooldown n =
     (if n = 0
      then Inl (RequestFailed ''failover'' ''FailoverProvider requires at least one provider'')
      else Inr \<lparr>last_used = 0, cooldowns = map (\<lambda>_. new_cooldown) [0..<n], provider_for_task = []\<rparr>)"

text \<open>Selection: the providers not in cooldown, in order; if there is none, the one whose cooldown
  was activated first. \<open>Duration::as_nanos() as u64\<close> truncates to 64 bits.\<close>

definition select_providers :: "cooldown_config \<Rightarrow> u64 \<Rightarrow> failover \<Rightarrow> nat \<Rightarrow> llm_error + nat list" where
  "select_providers cfg now_nanos fo n =
     (let cooldown_nanos = of_nat (cooldown_duration cfg);
          available = filter (\<lambda>i. \<not> is_in_cooldown (cooldowns fo ! i) now_nanos cooldown_nanos) [0..<n]
      in if available = []
         then (case min_by_key (\<lambda>i. cooldown_activated_nanos (cooldowns fo ! i)) [0..<n] of
                 None \<Rightarrow> Inl (RequestFailed ''failover'' ''FailoverProvider requires at least one provider'')
               | Some oldest \<Rightarrow> Inr (available @ [oldest]))
         else Inr available)"

definition invariant_violated :: llm_error where
  "invariant_violated = RequestFailed ''failover''
     (''Invariant violated in FailoverProvider: providers were exhausted but no last_error was '' @
      ''recorded (this branch should be unreachable; possible causes: no provider attempts were '' @
      ''made or `available` was unexpectedly empty).'')"

text \<open>\<open>later i\<close> is the clock read after the failure of provider \<open>i\<close>.\<close>

fun try_loop ::
  "cooldown_config \<Rightarrow> (nat \<Rightarrow> u64) \<Rightarrow> (nat \<Rightarrow> ('p, 'req, 'resp) provider) \<Rightarrow> 'req \<Rightarrow>
   nat list \<Rightarrow> llm_error option \<Rightarrow> 'p \<Rightarrow> failover \<Rightarrow>
   (llm_error + nat \<times> 'resp) \<times> 'p \<times> failover" where
  "try_loop cfg later call req [] last_error p fo =
     (Inl (case last_error of Some e \<Rightarrow> e | None \<Rightarrow> invariant_violated), p, fo)"
| "try_loop cfg later call req (i # rest) last_error p fo =
     (case call i p req of
        (Inr response, p') \<Rightarrow>
          (Inr (i, response), p',
           fo\<lparr>last_used := i, cooldowns := (cooldowns fo)[i := reset_cooldown (cooldowns fo ! i)]\<rparr>)
      | (Inl err, p') \<Rightarrow>
          (if \<not> is_retryable err then (Inl err, p', fo)
           else (case cd_record_failure (cd_failure_threshold cfg) (cooldowns fo ! i) of
             (reached, c) \<Rightarrow>
               let c' = (if reached then activate_cooldown (later i) c else c)
               in try_loop cfg later call req rest (Some err) p'
                    (fo\<lparr>cooldowns := (cooldowns fo)[i := c']\<rparr>))))"

definition try_providers ::
  "cooldown_config \<Rightarrow> u64 \<Rightarrow> (nat \<Rightarrow> u64) \<Rightarrow> nat \<Rightarrow> (nat \<Rightarrow> ('p, 'req, 'resp) provider) \<Rightarrow> 'req \<Rightarrow>
   'p \<Rightarrow> failover \<Rightarrow> (llm_error + nat \<times> 'resp) \<times> 'p \<times> failover" where
  "try_providers cfg now_nanos later n call req p fo =
     (case select_providers cfg now_nanos fo n of
        Inl e \<Rightarrow> (Inl e, p, fo)
      | Inr available \<Rightarrow> try_loop cfg later call req available None p fo)"

section \<open>Task bindings\<close>

definition max_task_bindings :: nat where
  "max_task_bindings = 2048"

definition task_binding_ttl :: duration where
  "task_binding_ttl = from_secs 300"

definition bind_provider_to_current_task ::
  "nat option \<Rightarrow> instant \<Rightarrow> nat \<Rightarrow> failover \<Rightarrow> failover" where
  "bind_provider_to_current_task current_task now idx fo =
     (let live = hm_retain (\<lambda>_ b. elapsed now (bound_at b) < task_binding_ttl) (provider_for_task fo)
      in (case current_task of
            None \<Rightarrow> fo\<lparr>provider_for_task := live\<rparr>
          | Some task_id \<Rightarrow>
              (let room = (if length live \<ge> max_task_bindings
                           then (case min_by_key (\<lambda>(_, b). bound_at b) live of
                                   Some (oldest_task, _) \<Rightarrow> hm_remove oldest_task live
                                 | None \<Rightarrow> live)
                           else live)
               in fo\<lparr>provider_for_task :=
                       hm_insert task_id \<lparr>provider_idx = idx, bound_at = now\<rparr> room\<rparr>)))"

definition take_bound_provider_for_current_task ::
  "nat option \<Rightarrow> failover \<Rightarrow> nat option \<times> failover" where
  "take_bound_provider_for_current_task current_task fo =
     (case current_task of
        None \<Rightarrow> (None, fo)
      | Some task_id \<Rightarrow>
          (map_option provider_idx (hm_get (provider_for_task fo) task_id),
           fo\<lparr>provider_for_task := hm_remove task_id (provider_for_task fo)\<rparr>))"

text \<open>\<open>complete\<close> and \<open>complete_with_tools\<close>: try the providers, then bind the one that answered.\<close>

definition fo_complete ::
  "cooldown_config \<Rightarrow> u64 \<Rightarrow> (nat \<Rightarrow> u64) \<Rightarrow> instant \<Rightarrow> nat option \<Rightarrow> nat \<Rightarrow>
   (nat \<Rightarrow> ('p, 'req, 'resp) provider) \<Rightarrow> ('p \<times> failover, 'req, 'resp) provider" where
  "fo_complete cfg now_nanos later bind_now current_task n call d req =
     (case d of (p, fo) \<Rightarrow>
        (case try_providers cfg now_nanos later n call req p fo of
           (Inl e, p', fo') \<Rightarrow> (Inl e, (p', fo'))
         | (Inr (i, response), p', fo') \<Rightarrow>
             (Inr response, (p', bind_provider_to_current_task current_task bind_now i fo'))))"

text \<open>The provider index that names the model of the current request.\<close>

definition effective_provider :: "nat option \<Rightarrow> failover \<Rightarrow> nat \<times> failover" where
  "effective_provider current_task fo =
     (case take_bound_provider_for_current_task current_task fo of
        (Some i, fo') \<Rightarrow> (i, fo')
      | (None, fo') \<Rightarrow> (last_used fo', fo'))"

section \<open>Lemmas\<close>

definition bindings_ok :: "nat \<Rightarrow> (nat, bound_provider) hashmap \<Rightarrow> bool" where
  "bindings_ok n m \<longleftrightarrow> hm_wf m \<and> length m \<le> max_task_bindings \<and>
     (\<forall>(t, b) \<in> set m. provider_idx b < n)"

definition failover_ok :: "nat \<Rightarrow> failover \<Rightarrow> bool" where
  "failover_ok n fo \<longleftrightarrow> length (cooldowns fo) = n \<and> last_used fo < n \<and>
     bindings_ok n (provider_for_task fo)"

lemma bindings_ok_shrink:
  assumes "bindings_ok n m" and "hm_wf m'" and "length m' \<le> length m" and "set m' \<subseteq> set m"
  shows "bindings_ok n m'"
  using assms by (auto simp: bindings_ok_def)

lemma bindings_ok_retain: "bindings_ok n m \<Longrightarrow> bindings_ok n (hm_retain P m)"
  using bindings_ok_shrink [of n m "hm_retain P m"]
  by (simp add: bindings_ok_def length_hm_retain_le hm_retain_subset)

lemma bindings_ok_remove: "bindings_ok n m \<Longrightarrow> bindings_ok n (hm_remove k m)"
  using bindings_ok_shrink [of n m "hm_remove k m"]
  by (simp add: bindings_ok_def length_hm_remove_le hm_remove_subset)

lemma bindings_ok_insert:
  assumes "bindings_ok n m" and "length m < max_task_bindings" and "idx < n"
  shows "bindings_ok n (hm_insert t \<lparr>provider_idx = idx, bound_at = now\<rparr> m)"
proof -
  have "length (hm_insert t \<lparr>provider_idx = idx, bound_at = now\<rparr> m) \<le> max_task_bindings"
    using length_hm_insert_le [of t "\<lparr>provider_idx = idx, bound_at = now\<rparr>" m] assms(2) by simp
  moreover have "\<forall>(t', b) \<in> set (hm_insert t \<lparr>provider_idx = idx, bound_at = now\<rparr> m). provider_idx b < n"
    using assms by (fastforce dest!: hm_insert_in_set simp: bindings_ok_def)
  ultimately show ?thesis using assms(1) by (simp add: bindings_ok_def)
qed

text \<open>Evicting the oldest binding makes room for one more.\<close>

lemma evict_oldest:
  assumes "bindings_ok n live"
  shows "let room = (if length live \<ge> max_task_bindings
     then (case min_by_key (\<lambda>(_, b). bound_at b) live of
             Some (oldest_task, _) \<Rightarrow> hm_remove oldest_task live | None \<Rightarrow> live) else live)
   in bindings_ok n room \<and> length room < max_task_bindings"
proof (cases "length live \<ge> max_task_bindings")
  case True
  then have "live \<noteq> []" by (auto simp: max_task_bindings_def)
  then obtain t b where m: "min_by_key (\<lambda>(_, b). bound_at b) live = Some (t, b)"
    by (metis min_by_key_None not_None_eq surj_pair)
  then have "(t, b) \<in> set live" using min_by_key_Some by fast
  then have "t \<in> fst ` set live" by force
  then have "length (hm_remove t live) < length live" by (rule length_hm_remove_less)
  then show ?thesis using True m assms bindings_ok_remove [OF assms, of t]
    by (auto simp: bindings_ok_def)
next
  case False
  then show ?thesis using assms by simp
qed

lemma failover_ok_new [inv_rules]: "failover_with_cooldown n = Inr fo \<Longrightarrow> failover_ok n fo"
  by (auto simp: failover_with_cooldown_def failover_ok_def bindings_ok_def split: if_splits)

lemma select_providers_cases:
  assumes "0 < n"
  obtains av where "select_providers cfg now fo n = Inr av" and "av \<noteq> []" and "\<forall>i \<in> set av. i < n"
proof -
  obtain o1 where o1: "min_by_key (\<lambda>i. cooldown_activated_nanos (cooldowns fo ! i)) [0..<n] = Some o1"
    using assms by (cases "min_by_key (\<lambda>i. cooldown_activated_nanos (cooldowns fo ! i)) [0..<n]") simp_all
  then have "o1 < n" using min_by_key_Some [OF o1] by auto
  show ?thesis
  proof (cases "filter (\<lambda>i. \<not> is_in_cooldown (cooldowns fo ! i) now (of_nat (cooldown_duration cfg))) [0..<n]")
    case Nil
    with o1 \<open>o1 < n\<close> that [of "[o1]"] show ?thesis by (simp add: select_providers_def Let_def)
  next
    case (Cons i js)
    then have "\<forall>j \<in> set (i # js). j < n" by (auto simp flip: Cons)
    with Cons that [of "i # js"] show ?thesis by (simp add: select_providers_def Let_def)
  qed
qed

lemma try_loop_ok:
  assumes "failover_ok n fo" and "\<forall>i \<in> set av. i < n"
    and "try_loop cfg later call req av le p fo = (r, p', fo')"
  shows "failover_ok n fo' \<and> (\<forall>i resp. r = Inr (i, resp) \<longrightarrow> i \<in> set av)"
  using assms
proof (induction av arbitrary: le p fo)
  case (Cons i av)
  show ?case
  proof (cases "\<exists>e. fst (call i p req) = Inl e \<and> is_retryable e")
    case True
    then obtain e q where call: "call i p req = (Inl e, q)" "is_retryable e"
      by (cases "call i p req") auto
    obtain b c where cd: "cd_record_failure (cd_failure_threshold cfg) (cooldowns fo ! i) = (b, c)"
      by (cases "cd_record_failure (cd_failure_threshold cfg) (cooldowns fo ! i)")
    let ?c = "if b then activate_cooldown (later i) c else c"
    have "try_loop cfg later call req av (Some e) q (fo\<lparr>cooldowns := (cooldowns fo)[i := ?c]\<rparr>) = (r, p', fo')"
      using Cons.prems(3) call cd by (simp add: Let_def)
    moreover have "failover_ok n (fo\<lparr>cooldowns := (cooldowns fo)[i := ?c]\<rparr>)"
      using Cons.prems(1) by (simp add: failover_ok_def)
    ultimately show ?thesis using Cons.IH Cons.prems(2) by fastforce
  next
    case False
    then show ?thesis using Cons.prems
      by (cases "call i p req") (auto simp: failover_ok_def split: sum.splits if_splits)
  qed
qed (auto simp: failover_ok_def)

lemma try_providers_ok [inv_rules]:
  assumes "failover_ok n fo" and "try_providers cfg now later n call req p fo = (r, p', fo')"
  shows "failover_ok n fo' \<and> (\<forall>i resp. r = Inr (i, resp) \<longrightarrow> i < n)"
proof -
  have "0 < n" using assms(1) by (auto simp: failover_ok_def)
  then obtain av where "select_providers cfg now fo n = Inr av" "\<forall>i \<in> set av. i < n"
    using select_providers_cases by metis
  then show ?thesis
    using try_loop_ok [OF assms(1), of av cfg later call req None p r p' fo'] assms(2)
    by (auto simp: try_providers_def)
qed

lemma bind_ok [inv_rules]:
  assumes "failover_ok n fo" and "idx < n"
  shows "failover_ok n (bind_provider_to_current_task task now idx fo)"
proof -
  let ?live = "hm_retain (\<lambda>_ b. elapsed now (bound_at b) < task_binding_ttl) (provider_for_task fo)"
  have "bindings_ok n ?live" using assms(1) by (simp add: failover_ok_def bindings_ok_retain)
  then show ?thesis
    using assms evict_oldest [of n ?live]
    by (cases task)
      (simp_all add: bind_provider_to_current_task_def Let_def failover_ok_def bindings_ok_insert)
qed

lemma fo_complete_ok [inv_rules]:
  assumes "failover_ok n fo"
  shows "failover_ok n (snd (snd (fo_complete cfg now later bn task n call (p, fo) req)))"
proof (cases "try_providers cfg now later n call req p fo")
  case (fields r p' fo')
  then show ?thesis
    using try_providers_ok [OF assms fields] bind_ok
    by (cases r) (auto simp: fo_complete_def split: prod.splits)
qed

lemma take_bound_ok [inv_rules]:
  assumes "failover_ok n fo"
  shows "failover_ok n (snd (take_bound_provider_for_current_task task fo))"
  using assms
  by (cases task)
    (simp_all add: take_bound_provider_for_current_task_def failover_ok_def bindings_ok_remove)

text \<open>What one call did: the providers \<open>avail\<close> up to \<open>k\<close> were called in order; all before the last
  one called failed with retryable errors.\<close>

definition state_after :: "(nat \<Rightarrow> ('p, 'req, 'resp) provider) \<Rightarrow> 'req \<Rightarrow> nat list \<Rightarrow> 'p \<Rightarrow> 'p" where
  "state_after call req av p = fold (\<lambda>i q. snd (call i q req)) av p"

definition tried_up_to ::
  "(nat \<Rightarrow> ('p, 'req, 'resp) provider) \<Rightarrow> 'req \<Rightarrow> nat list \<Rightarrow> 'p \<Rightarrow> nat \<Rightarrow>
   (llm_error + nat \<times> 'resp) \<Rightarrow> bool" where
  "tried_up_to call req av p k r \<longleftrightarrow> k < length av \<and>
     (\<forall>j < k. \<exists>e. fst (call (av ! j) (state_after call req (take j av) p) req) = Inl e \<and> is_retryable e) \<and>
     (case fst (call (av ! k) (state_after call req (take k av) p) req) of
        Inr resp \<Rightarrow> r = Inr (av ! k, resp)
      | Inl e \<Rightarrow> r = Inl e \<and> (\<not> is_retryable e \<or> Suc k = length av))"

lemma tried_up_to_Cons:
  assumes "fst (call i p req) = Inl e" and "is_retryable e"
    and "tried_up_to call req av (snd (call i p req)) k r"
  shows "tried_up_to call req (i # av) p (Suc k) r"
proof -
  have "\<forall>j < Suc k. \<exists>e. fst (call ((i # av) ! j) (state_after call req (take j (i # av)) p) req) = Inl e \<and>
      is_retryable e"
    using assms by (auto simp: tried_up_to_def state_after_def less_Suc_eq_0_disj)
  with assms(3) show ?thesis
    by (simp add: tried_up_to_def state_after_def split: sum.splits)
qed

lemma try_loop_tried:
  assumes "try_loop cfg later call req av le p fo = (r, p', fo')"
  shows "(av = [] \<and> r = Inl (case le of Some e \<Rightarrow> e | None \<Rightarrow> invariant_violated)) \<or>
         (\<exists>k. tried_up_to call req av p k r)"
  using assms
proof (induction av arbitrary: le p fo)
  case (Cons i av)
  obtain res q where call: "call i p req = (res, q)" by (cases "call i p req")
  show ?case
  proof (cases "\<exists>e. res = Inl e \<and> is_retryable e")
    case False
    then have "tried_up_to call req (i # av) p 0 r"
      using Cons.prems call by (cases res) (auto simp: tried_up_to_def state_after_def)
    then show ?thesis by blast
  next
    case True
    then obtain e where e: "res = Inl e" "is_retryable e" by blast
    obtain fo1 where rec: "try_loop cfg later call req av (Some e) q fo1 = (r, p', fo')"
      using Cons.prems call e by (auto simp: Let_def split: prod.splits)
    show ?thesis
    proof (cases "av = []")
      case True
      then have "tried_up_to call req (i # av) p 0 r"
        using rec call e by (simp add: tried_up_to_def state_after_def)
      then show ?thesis by blast
    next
      case False
      then obtain k where "tried_up_to call req av q k r" using Cons.IH [OF rec] by blast
      then show ?thesis using tried_up_to_Cons [of call i p req e av k r] call e by auto
    qed
  qed
qed simp

lemma try_providers_tried:
  assumes "0 < n" and "try_providers cfg now later n call req p fo = (r, p', fo')"
  shows "\<exists>av k. select_providers cfg now fo n = Inr av \<and> tried_up_to call req av p k r"
proof -
  obtain av where av: "select_providers cfg now fo n = Inr av" "av \<noteq> []"
    using select_providers_cases [OF assms(1)] by metis
  with assms(2) have "try_loop cfg later call req av None p fo = (r, p', fo')"
    by (simp add: try_providers_def)
  from try_loop_tried [OF this] av show ?thesis by blast
qed

lemma fo_complete_answers:
  assumes "0 < n" and "fo_complete cfg now later bn task n call (p, fo) req = (Inr resp, d')"
  shows "\<exists>i. answers (call i) req resp"
proof -
  obtain i p' fo' where t: "try_providers cfg now later n call req p fo = (Inr (i, resp), p', fo')"
    using assms(2) by (auto simp: fo_complete_def split: prod.splits sum.splits)
  obtain av k where k: "tried_up_to call req av p k (Inr (i, resp))"
    using try_providers_tried [OF assms(1) t] by blast
  let ?st = "state_after call req (take k av) p"
  obtain x q where c: "call (av ! k) ?st req = (x, q)" by (cases "call (av ! k) ?st req")
  with k have "x = Inr resp" by (cases x) (auto simp: tried_up_to_def)
  with c show ?thesis unfolding answers_def by blast
qed

section \<open>Properties\<close>

text \<open>a failover call tries the selected providers in order; every provider before the last one
  called failed with a retryable error, and the result is the last called provider's own: its
  response, a non-retryable error, or the error of the last selected provider. At least one provider
  is always called, so the error the source marks unreachable is never built.\<close>

theorem failover_outcome:
  assumes "failover_ok n fo" and "try_providers cfg now later n call req p fo = (r, p', fo')"
  shows "\<exists>av k. select_providers cfg now fo n = Inr av \<and> k < length av \<and> (\<forall>i \<in> set av. i < n) \<and>
     (\<forall>j < k. \<exists>e. fst (call (av ! j) (state_after call req (take j av) p) req) = Inl e \<and> is_retryable e) \<and>
     (case fst (call (av ! k) (state_after call req (take k av) p) req) of
        Inr resp \<Rightarrow> r = Inr (av ! k, resp)
      | Inl e \<Rightarrow> r = Inl e \<and> (\<not> is_retryable e \<or> Suc k = length av))"
proof -
  have n: "0 < n" using assms(1) by (auto simp: failover_ok_def)
  obtain av where av: "select_providers cfg now fo n = Inr av" "\<forall>i \<in> set av. i < n"
    using select_providers_cases [OF n] by metis
  obtain k where "tried_up_to call req av p k r"
    using try_providers_tried [OF n assms(2)] av by auto
  with av show ?thesis unfolding tried_up_to_def by blast
qed

theorem failover_outcome_witness:
  "\<exists>av k. select_providers \<lparr>cooldown_duration = 300, cd_failure_threshold = 3\<rparr> 5
      \<lparr>last_used = 0, cooldowns = [new_cooldown, new_cooldown], provider_for_task = []\<rparr> 2 = Inr av \<and>
     k < length av \<and> av ! k = 1"
proof -
  let ?cfg = "\<lparr>cooldown_duration = 300, cd_failure_threshold = 3\<rparr>"
  let ?fo = "\<lparr>last_used = 0, cooldowns = [new_cooldown, new_cooldown], provider_for_task = []\<rparr>"
  let ?call = "\<lambda>i p r. (if i = 0 then Inl (HttpError ''down'') else Inr ''ok'', p)"
  let ?call0 = "?call :: nat \<Rightarrow> (nat, bool, string) provider"
  have ok: "failover_ok 2 ?fo" by (simp add: failover_ok_def bindings_ok_def)
  have run: "try_providers ?cfg 5 (\<lambda>_. 6) 2 ?call0 True 0 ?fo =
      (Inr (1, ''ok''), 0, ?fo\<lparr>last_used := 1, cooldowns := [new_cooldown\<lparr>failure_count := 1\<rparr>, new_cooldown]\<rparr>)"
    by (simp add: try_providers_def select_providers_def is_in_cooldown_def new_cooldown_def
        cd_record_failure_def reset_cooldown_def upt_rec Let_def word_le_nat_alt)
  obtain av k where k: "select_providers ?cfg 5 ?fo 2 = Inr av" "k < length av"
    "case fst (?call0 (av ! k) (state_after ?call0 True (take k av) 0) True) of
       Inr resp \<Rightarrow> (Inr (1::nat, ''ok'') :: llm_error + nat \<times> string) = Inr (av ! k, resp)
     | Inl e \<Rightarrow> (Inr (1::nat, ''ok'') :: llm_error + nat \<times> string) = Inl e \<and> (\<not> is_retryable e \<or> Suc k = length av)"
    using failover_outcome [OF ok run] by blast
  then have "av ! k = 1" by (simp split: if_splits)
  with k(1,2) show ?thesis by blast
qed

text \<open>a provider is skipped only while it is in cooldown, and never all of them: the selection is
  exactly the providers out of cooldown in order, or, when there is none, the single provider whose
  cooldown was activated earliest.\<close>

theorem failover_selection:
  assumes "0 < n"
  shows "\<exists>av. select_providers cfg now fo n = Inr av \<and> av \<noteq> [] \<and>
    (let cool = (\<lambda>i. is_in_cooldown (cooldowns fo ! i) now (of_nat (cooldown_duration cfg)))
     in if \<exists>i < n. \<not> cool i then av = filter (\<lambda>i. \<not> cool i) [0..<n]
        else \<exists>i < n. av = [i] \<and> (\<forall>j < n. cooldown_activated_nanos (cooldowns fo ! i) \<le>
                                     cooldown_activated_nanos (cooldowns fo ! j)))"
proof -
  let ?key = "\<lambda>i. cooldown_activated_nanos (cooldowns fo ! i)"
  let ?out = "filter (\<lambda>i. \<not> is_in_cooldown (cooldowns fo ! i) now (of_nat (cooldown_duration cfg))) [0..<n]"
  show ?thesis
  proof (cases "?out = []")
    case True
    obtain i where i: "min_by_key ?key [0..<n] = Some i"
      using assms by (cases "min_by_key ?key [0..<n]") simp_all
    then have "i < n" "\<forall>j < n. ?key i \<le> ?key j" using min_by_key_Some [OF i] by auto
    then show ?thesis using True i
      by (intro exI [of _ "[i]"]) (auto simp: select_providers_def Let_def filter_empty_conv)
  next
    case False
    then have "\<exists>i < n. \<not> is_in_cooldown (cooldowns fo ! i) now (of_nat (cooldown_duration cfg))"
      by (auto simp: filter_empty_conv)
    then show ?thesis using False by (intro exI [of _ ?out]) (auto simp: select_providers_def Let_def)
  qed
qed

theorem failover_selection_witness:
  "\<exists>av. select_providers \<lparr>cooldown_duration = 300, cd_failure_threshold = 3\<rparr> 20
     \<lparr>last_used = 0, cooldowns = [\<lparr>failure_count = 3, cooldown_activated_nanos = 9\<rparr>,
        \<lparr>failure_count = 3, cooldown_activated_nanos = 4\<rparr>], provider_for_task = []\<rparr> 2 = Inr av \<and> av \<noteq> []"
  using failover_selection [of 2 "\<lparr>cooldown_duration = 300, cd_failure_threshold = 3\<rparr>" 20
     "\<lparr>last_used = 0, cooldowns = [\<lparr>failure_count = 3, cooldown_activated_nanos = 9\<rparr>,
        \<lparr>failure_count = 3, cooldown_activated_nanos = 4\<rparr>], provider_for_task = []\<rparr>"]
  by auto

section \<open>Sequences of calls\<close>

inductive fo_step :: "nat \<Rightarrow> cooldown_config \<Rightarrow> (nat \<Rightarrow> ('p, 'req, 'resp) provider) \<Rightarrow>
    'p \<times> failover \<Rightarrow> 'p \<times> failover \<Rightarrow> bool" for n cfg call where
  fo_call: "fo_step n cfg call d (snd (fo_complete cfg now later bn task n call d req))"
| fo_take: "fo_step n cfg call (p, fo) (p, snd (take_bound_provider_for_current_task task fo))"

definition fo_init :: "nat \<Rightarrow> 'p \<times> failover \<Rightarrow> bool" where
  "fo_init n d \<longleftrightarrow> failover_with_cooldown n = Inr (snd d)"

interpretation fo: steps_inv "fo_init n" "fo_step n cfg call" "\<lambda>d. failover_ok n (snd d)" for n cfg call
proof
  fix d :: "'a \<times> failover" assume "fo_init n d"
  then show "failover_ok n (snd d)" by (simp add: fo_init_def failover_ok_new)
next
  fix d d' :: "'a \<times> failover" assume "failover_ok n (snd d)" and "fo_step n cfg call d d'"
  then show "failover_ok n (snd d')"
    by (cases d) (auto elim!: fo_step.cases intro: fo_complete_ok take_bound_ok)
qed

text \<open>from a fresh state, any sequence of calls keeps the failover state well formed, so the
  index reads of the source are in range, and the table of task bindings never exceeds 2048 entries.\<close>

theorem failover_invariant:
  assumes "reach (fo_init n) (fo_step n cfg call) d"
  shows "length (cooldowns (snd d)) = n \<and> last_used (snd d) < n \<and>
    length (provider_for_task (snd d)) \<le> 2048 \<and>
    (\<forall>(t, b) \<in> set (provider_for_task (snd d)). provider_idx b < n)"
  using fo.reach_inv [OF assms] by (simp add: failover_ok_def bindings_ok_def max_task_bindings_def)

theorem failover_invariant_witness:
  "reach (fo_init 2) (fo_step 2 \<lparr>cooldown_duration = 300, cd_failure_threshold = 3\<rparr>
      (\<lambda>i p (r::bool). (Inr i, p)))
     (0::nat, \<lparr>last_used = 0, cooldowns = [new_cooldown, new_cooldown], provider_for_task = []\<rparr>) \<and>
   last_used \<lparr>last_used = 0, cooldowns = [new_cooldown, new_cooldown], provider_for_task = []\<rparr> < 2"
proof -
  have r: "reach (fo_init 2) (fo_step 2 \<lparr>cooldown_duration = 300, cd_failure_threshold = 3\<rparr>
      (\<lambda>i p (r::bool). (Inr i, p)))
     (0::nat, \<lparr>last_used = 0, cooldowns = [new_cooldown, new_cooldown], provider_for_task = []\<rparr>)"
    by (rule reach_init) (simp add: fo_init_def failover_with_cooldown_def numeral_2_eq_2)
  show ?thesis using r failover_invariant [OF r] by simp
qed

end
