(* ===== verification/Llm_Messages.thy ===== *)
theory Llm_Messages
  imports Prelude
begin

text \<open>
  The message and request types of \<open>src/llm/provider.rs\<close>, the constructors of \<open>ChatMessage\<close>, and
  \<open>sanitize_tool_messages\<close>, which every request passes before it is sent to a provider.
  \<open>serde_json::Value\<close> arguments are the type parameter-free \<open>json\<close>, kept as their text.
\<close>

section \<open>Messages\<close>

datatype role = System | User | Assistant | Tool

type_synonym json = string

record tool_call =
  tc_id :: string
  tc_name :: string
  tc_arguments :: json

record chat_message =
  msg_role :: role
  msg_content :: string
  tool_call_id :: "string option"
  msg_name :: "string option"
  tool_calls :: "tool_call list option"

definition system_msg :: "string \<Rightarrow> chat_message" where
  "system_msg c = \<lparr>msg_role = System, msg_content = c, tool_call_id = None, msg_name = None, tool_calls = None\<rparr>"

definition user_msg :: "string \<Rightarrow> chat_message" where
  "user_msg c = \<lparr>msg_role = User, msg_content = c, tool_call_id = None, msg_name = None, tool_calls = None\<rparr>"

definition assistant_msg :: "string \<Rightarrow> chat_message" where
  "assistant_msg c = \<lparr>msg_role = Assistant, msg_content = c, tool_call_id = None, msg_name = None, tool_calls = None\<rparr>"

definition assistant_with_tool_calls :: "string option \<Rightarrow> tool_call list \<Rightarrow> chat_message" where
  "assistant_with_tool_calls c calls =
     \<lparr>msg_role = Assistant, msg_content = (case c of Some s \<Rightarrow> s | None \<Rightarrow> []),
      tool_call_id = None, msg_name = None,
      tool_calls = (if calls = [] then None else Some calls)\<rparr>"

definition tool_result_msg :: "string \<Rightarrow> string \<Rightarrow> string \<Rightarrow> chat_message" where
  "tool_result_msg i n c =
     \<lparr>msg_role = Tool, msg_content = c, tool_call_id = Some i, msg_name = Some n, tool_calls = None\<rparr>"

section \<open>Requests and responses\<close>

text \<open>A temperature is an \<open>f32\<close>: its 32-bit representation.\<close>

record completion_request =
  messages :: "chat_message list"
  req_model :: "string option"
  max_tokens :: "u32 option"
  temperature :: "u32 option"
  stop_sequences :: "string list option"
  req_metadata :: "(string, string) hashmap"

definition new_request :: "chat_message list \<Rightarrow> completion_request" where
  "new_request ms = \<lparr>messages = ms, req_model = None, max_tokens = None, temperature = None,
     stop_sequences = None, req_metadata = []\<rparr>"

datatype finish_reason = Stop | Length | ToolUse | ContentFilter | Unknown

record completion_response =
  resp_content :: string
  input_tokens :: u32
  output_tokens :: u32
  resp_finish_reason :: finish_reason

section \<open>Sanitising tool results\<close>

text \<open>\<open>known_ids\<close> is the \<open>HashSet\<close> of the ids of the calls made by assistant messages, as a list.\<close>

definition known_ids :: "chat_message list \<Rightarrow> string list" where
  "known_ids ms = concat (map (\<lambda>m. if msg_role m = Assistant
      then (case tool_calls m of Some calls \<Rightarrow> map tc_id calls | None \<Rightarrow> []) else []) ms)"

definition sanitize_msg :: "string list \<Rightarrow> chat_message \<Rightarrow> chat_message" where
  "sanitize_msg ids m =
     (if msg_role m \<noteq> Tool then m
      else let is_orphaned = (case tool_call_id m of Some i \<Rightarrow> i \<notin> set ids | None \<Rightarrow> True)
           in if is_orphaned
              then let tool_name = (case msg_name m of Some n \<Rightarrow> n | None \<Rightarrow> ''unknown'')
                   in m\<lparr>msg_role := User,
                        msg_content := ''[Tool `'' @ tool_name @ ''` returned: '' @ msg_content m @ '']'',
                        tool_call_id := None, msg_name := None\<rparr>
              else m)"

definition sanitize_tool_messages :: "chat_message list \<Rightarrow> chat_message list" where
  "sanitize_tool_messages ms = map (sanitize_msg (known_ids ms)) ms"

text \<open>The protocol the providers require of a list of messages.\<close>

definition tool_results_known :: "chat_message list \<Rightarrow> bool" where
  "tool_results_known ms \<longleftrightarrow>
     (\<forall>m \<in> set ms. msg_role m = Tool \<longrightarrow> (\<exists>i \<in> set (known_ids ms). tool_call_id m = Some i))"

lemma sanitize_msg_Assistant: "msg_role (sanitize_msg ids m) = Assistant \<longleftrightarrow> msg_role m = Assistant"
  by (simp add: sanitize_msg_def Let_def)

lemma sanitize_msg_tool_calls: "tool_calls (sanitize_msg ids m) = tool_calls m"
  by (simp add: sanitize_msg_def Let_def)

lemma known_ids_sanitize: "known_ids (map (sanitize_msg ids) ms) = known_ids ms"
  by (simp add: known_ids_def comp_def sanitize_msg_Assistant sanitize_msg_tool_calls cong: if_cong)

lemma sanitize_msg_Tool:
  "msg_role (sanitize_msg ids m) = Tool \<Longrightarrow> \<exists>i \<in> set ids. tool_call_id (sanitize_msg ids m) = Some i"
  by (auto simp: sanitize_msg_def Let_def split: if_splits option.splits)

lemma sanitize_msg_fixed:
  "(msg_role m = Tool \<longrightarrow> (\<exists>i \<in> set ids. tool_call_id m = Some i)) \<Longrightarrow> sanitize_msg ids m = m"
  by (auto simp: sanitize_msg_def Let_def)

lemma sanitize_msg_keeps_text: "\<exists>pre suf. msg_content (sanitize_msg ids m) = pre @ msg_content m @ suf"
proof (cases "sanitize_msg ids m = m")
  case True
  then have "msg_content (sanitize_msg ids m) = [] @ msg_content m @ []" by simp
  then show ?thesis by blast
next
  case False
  then obtain n where "msg_content (sanitize_msg ids m) =
      (''[Tool `'' @ n @ ''` returned: '') @ msg_content m @ '']''"
    by (auto simp: sanitize_msg_def Let_def split: if_splits)
  then show ?thesis by blast
qed

lemma sanitize_known: "tool_results_known (sanitize_tool_messages ms)"
  unfolding tool_results_known_def sanitize_tool_messages_def known_ids_sanitize
  using sanitize_msg_Tool by fastforce

lemma sanitize_fixed: "tool_results_known ms \<Longrightarrow> sanitize_tool_messages ms = ms"
  unfolding tool_results_known_def sanitize_tool_messages_def
  by (rule map_idI) (rule sanitize_msg_fixed, blast)

section \<open>Properties\<close>

text \<open>after \<open>sanitize_tool_messages\<close> every tool result refers to a call some assistant message
  made; a list that already satisfies this is returned unchanged, so the pass is idempotent; and no
  text is lost: message \<open>i\<close> of the result still holds the text of message \<open>i\<close>.\<close>

theorem sanitize_tool_messages_correct:
  "tool_results_known (sanitize_tool_messages ms) \<and>
   sanitize_tool_messages (sanitize_tool_messages ms) = sanitize_tool_messages ms \<and>
   (tool_results_known ms \<longrightarrow> sanitize_tool_messages ms = ms) \<and>
   length (sanitize_tool_messages ms) = length ms \<and>
   (\<forall>i < length ms. \<exists>pre suf. msg_content (sanitize_tool_messages ms ! i) = pre @ msg_content (ms ! i) @ suf)"
proof -
  have "\<forall>i < length ms. \<exists>pre suf. msg_content (sanitize_tool_messages ms ! i) = pre @ msg_content (ms ! i) @ suf"
    by (simp add: sanitize_tool_messages_def sanitize_msg_keeps_text)
  moreover have "length (sanitize_tool_messages ms) = length ms" by (simp add: sanitize_tool_messages_def)
  ultimately show ?thesis using sanitize_known sanitize_fixed by blast
qed

theorem sanitize_tool_messages_correct_witness:
  "sanitize_tool_messages [user_msg ''hi''] = [user_msg ''hi'']"
proof -
  have "tool_results_known [user_msg ''hi'']" by (simp add: tool_results_known_def user_msg_def)
  then show ?thesis using sanitize_tool_messages_correct [of "[user_msg ''hi'']"] by blast
qed

text \<open>the position of the call is not looked at: a tool result that stands \<^emph>\<open>before\<close> the assistant
  message that makes the call is kept as a tool result, although the providers' protocol, as the
  function's documentation states it, wants the call in an immediately preceding message.\<close>

theorem sanitize_ignores_order:
  "sanitize_tool_messages
     [tool_result_msg i n r, assistant_with_tool_calls None [\<lparr>tc_id = i, tc_name = n, tc_arguments = a\<rparr>]] =
     [tool_result_msg i n r, assistant_with_tool_calls None [\<lparr>tc_id = i, tc_name = n, tc_arguments = a\<rparr>]]"
  by (rule sanitize_fixed)
    (simp add: tool_results_known_def known_ids_def tool_result_msg_def assistant_with_tool_calls_def)

end
