(* ===== verification/Smart_Routing.thy ===== *)
theory Smart_Routing
  imports Llm_Provider Llm_Messages
begin

text \<open>
  \<open>src/llm/smart_routing.rs\<close>: classification of a message by keywords and length, detection of an
  uncertain answer, and the routing of \<open>complete\<close> and \<open>complete_with_tools\<close> with the four statistics
  counters. The primary and the cheap provider act on one backend state.
\<close>

datatype task_complexity = Simple | Moderate | Complex

record routing_config =
  cascade_enabled :: bool
  simple_max_chars :: nat
  complex_min_chars :: nat

definition default_routing_config :: routing_config where
  "default_routing_config = \<lparr>cascade_enabled = True, simple_max_chars = 200, complex_min_chars = 1000\<rparr>"

record routing_stats =
  total_requests :: u64
  cheap_requests :: u64
  primary_requests :: u64
  cascade_escalations :: u64

definition new_routing_stats :: routing_stats where
  "new_routing_stats =
     \<lparr>total_requests = 0, cheap_requests = 0, primary_requests = 0, cascade_escalations = 0\<rparr>"

definition complex_keywords :: "string list" where
  "complex_keywords =
     [''implement'', ''refactor'', ''analyze'', ''debug'', ''create a'', ''build a'', ''design'', ''fix the'',
      ''fix this'', ''write a'', ''write the'', ''explain how'', ''explain why'', ''explain the'', ''compare'',
      ''optimize'', ''review'', ''rewrite'', ''migrate'', ''architect'', ''integrate'']"

definition simple_keywords :: "string list" where
  "simple_keywords =
     [''list'', ''show'', ''what is'', ''what's'', ''status'', ''help'', ''yes'', ''no'', ''ok'', ''thanks'',
      ''thank you'', ''hello'', ''hi'', ''hey'', ''ping'', ''version'', ''how many'', ''when'', ''where is'', ''who'']"

definition uncertainty_patterns :: "string list" where
  "uncertainty_patterns =
     [''i'm not sure'', ''i am not sure'', ''i don't know'', ''i do not know'', ''i'm unable to'',
      ''i am unable to'', ''i cannot'', ''i can't'', ''beyond my capabilities'', ''beyond my ability'',
      ''i'm not able to'', ''i am not able to'', ''i don't have enough'', ''i do not have enough'',
      ''i need more context'', ''i need more information'', ''could you clarify'',
      ''could you provide more'', ''i'm not confident'', ''i am not confident'']"

definition classify_message :: "string \<Rightarrow> routing_config \<Rightarrow> task_complexity" where
  "classify_message msg cfg =
     (let trimmed = trim msg; len = length trimmed
      in if len = 0 then Simple
         else if str_contains trimmed ''```'' then Complex
         else let lower = lowercase trimmed
           in if list_ex (str_contains lower) complex_keywords then Complex
              else if len \<ge> complex_min_chars cfg then Complex
              else if len \<le> simple_max_chars cfg \<and> list_ex (str_contains lower) simple_keywords then Simple
              else if len \<le> 10 then Simple
              else Moderate)"

definition classify :: "routing_config \<Rightarrow> completion_request \<Rightarrow> task_complexity" where
  "classify cfg req =
     classify_message
       (case find (\<lambda>m. msg_role m = User) (rev (messages req)) of Some m \<Rightarrow> msg_content m | None \<Rightarrow> []) cfg"

definition response_is_uncertain :: "completion_response \<Rightarrow> bool" where
  "response_is_uncertain r =
     (let content = trim (resp_content r)
      in content = [] \<or> list_ex (str_contains (lowercase content)) uncertainty_patterns)"

text \<open>\<open>fetch_add(1)\<close> wraps at 64 bits.\<close>

definition inc_total :: "routing_stats \<Rightarrow> routing_stats" where
  "inc_total s = s\<lparr>total_requests := total_requests s + 1\<rparr>"

definition inc_cheap :: "routing_stats \<Rightarrow> routing_stats" where
  "inc_cheap s = s\<lparr>cheap_requests := cheap_requests s + 1\<rparr>"

definition inc_primary :: "routing_stats \<Rightarrow> routing_stats" where
  "inc_primary s = s\<lparr>primary_requests := primary_requests s + 1\<rparr>"

definition inc_escalations :: "routing_stats \<Rightarrow> routing_stats" where
  "inc_escalations s = s\<lparr>cascade_escalations := cascade_escalations s + 1\<rparr>"

lemmas inc_defs = inc_total_def inc_cheap_def inc_primary_def inc_escalations_def

text \<open>A provider called from a layer with a state of its own.\<close>

definition lift_provider :: "('p, 'req, 'resp) provider \<Rightarrow> ('p \<times> 's, 'req, 'resp) provider" where
  "lift_provider inner d req = (case d of (p, s) \<Rightarrow> (case inner p req of (r, p') \<Rightarrow> (r, (p', s))))"

definition sr_complete ::
  "routing_config \<Rightarrow> ('p, completion_request, completion_response) provider \<Rightarrow>
   ('p, completion_request, completion_response) provider \<Rightarrow>
   ('p \<times> routing_stats, completion_request, completion_response) provider" where
  "sr_complete cfg primary cheap d req =
     (case d of (p, st) \<Rightarrow>
        let st1 = inc_total st
        in (case classify cfg req of
              Simple \<Rightarrow> lift_provider cheap (p, inc_cheap st1) req
            | Complex \<Rightarrow> lift_provider primary (p, inc_primary st1) req
            | Moderate \<Rightarrow>
                (if cascade_enabled cfg
                 then (case cheap p req of
                         (Inl e, p') \<Rightarrow> (Inl e, (p', inc_cheap st1))
                       | (Inr response, p') \<Rightarrow>
                           (if response_is_uncertain response
                            then lift_provider primary (p', inc_primary (inc_escalations (inc_cheap st1))) req
                            else (Inr response, (p', inc_cheap st1))))
                 else lift_provider cheap (p, inc_cheap st1) req)))"

definition sr_complete_with_tools ::
  "('p, 'req, 'resp) provider \<Rightarrow> ('p \<times> routing_stats, 'req, 'resp) provider" where
  "sr_complete_with_tools primary d req =
     (case d of (p, st) \<Rightarrow> lift_provider primary (p, inc_primary (inc_total st)) req)"

section \<open>Lemmas\<close>

text \<open>Every request is counted once for the provider it starts with and once more when escalated.\<close>

definition stats_ok :: "routing_stats \<Rightarrow> bool" where
  "stats_ok s \<longleftrightarrow> cheap_requests s + primary_requests s = total_requests s + cascade_escalations s"

lemma lift_provider_snd: "snd (snd (lift_provider inner (p, s) req)) = s"
  by (simp add: lift_provider_def split: prod.splits)

lemma lift_provider_answers: "lift_provider inner d req = (Inr resp, d') \<Longrightarrow> answers inner req resp"
  by (auto simp: lift_provider_def answers_def split: prod.splits)

lemma sr_complete_stats: "stats_ok st \<Longrightarrow> stats_ok (snd (snd (sr_complete cfg primary cheap (p, st) req)))"
  by (auto simp: sr_complete_def stats_ok_def inc_defs Let_def lift_provider_snd
      split: task_complexity.splits prod.splits sum.splits)

lemma sr_tools_stats: "stats_ok st \<Longrightarrow> stats_ok (snd (snd (sr_complete_with_tools primary (p, st) req)))"
  by (simp add: sr_complete_with_tools_def stats_ok_def inc_defs lift_provider_snd)

lemma sr_complete_answers:
  "sr_complete cfg primary cheap d req = (Inr resp, d') \<Longrightarrow> answers primary req resp \<or> answers cheap req resp"
  by (cases d)
    (auto simp: sr_complete_def Let_def answers_def dest: lift_provider_answers [unfolded answers_def]
      split: task_complexity.splits if_splits prod.splits sum.splits)

inductive sr_step ::
  "routing_config \<Rightarrow> ('p, completion_request, completion_response) provider \<Rightarrow>
   ('p, completion_request, completion_response) provider \<Rightarrow> ('p, 'treq, 'tresp) provider \<Rightarrow>
   'p \<times> routing_stats \<Rightarrow> 'p \<times> routing_stats \<Rightarrow> bool"
  for cfg primary cheap tools where
  sr_plain: "sr_step cfg primary cheap tools d (snd (sr_complete cfg primary cheap d req))"
| sr_tools: "sr_step cfg primary cheap tools d (snd (sr_complete_with_tools tools d treq))"

interpretation routing: steps_inv "\<lambda>d. snd d = new_routing_stats" "sr_step cfg primary cheap tools"
  "\<lambda>d. stats_ok (snd d)" for cfg primary cheap tools
proof
  fix d :: "'a \<times> routing_stats" assume "snd d = new_routing_stats"
  then show "stats_ok (snd d)" by (simp add: stats_ok_def new_routing_stats_def)
next
  fix d d' :: "'a \<times> routing_stats" assume "stats_ok (snd d)" and "sr_step cfg primary cheap tools d d'"
  then show "stats_ok (snd d')"
    by (cases d) (auto elim!: sr_step.cases intro: sr_complete_stats sr_tools_stats)
qed

section \<open>Properties\<close>

text \<open>routing by complexity. A complex request is the primary provider's result, a simple one (and a
  moderate one without cascade) the cheap provider's; a moderate one with cascade is the cheap
  provider's unless that answered and the answer is uncertain, when it is the primary's, called in the
  state the cheap call left. No other call is made.\<close>

theorem routing_outcome:
  "(case sr_complete cfg primary cheap (p, st) req of (r, (p', st')) \<Rightarrow>
     (case classify cfg req of
        Complex \<Rightarrow> (r, p') = primary p req
      | Simple \<Rightarrow> (r, p') = cheap p req
      | Moderate \<Rightarrow>
          (if cascade_enabled cfg \<and> (\<exists>a. fst (cheap p req) = Inr a \<and> response_is_uncertain a)
           then (r, p') = primary (snd (cheap p req)) req
           else (r, p') = cheap p req)))"
  by (auto simp: sr_complete_def lift_provider_def Let_def
      split: prod.splits task_complexity.splits sum.splits if_splits)

text \<open>the counters stay consistent over any sequence of calls: cheap plus primary requests are the
  total plus the escalations (as 64-bit counters).\<close>

theorem routing_counters:
  assumes "reach (\<lambda>d. snd d = new_routing_stats) (sr_step cfg primary cheap tools) d"
  shows "cheap_requests (snd d) + primary_requests (snd d) =
         total_requests (snd d) + cascade_escalations (snd d)"
  using routing.reach_inv [OF assms] by (simp add: stats_ok_def)

theorem routing_counters_witness:
  "cheap_requests new_routing_stats + primary_requests new_routing_stats =
     total_requests new_routing_stats + cascade_escalations new_routing_stats"
proof -
  let ?p = "\<lambda>(p::unit) (r::completion_request). (Inl (AuthFailed ''x'') :: llm_error + completion_response, p)"
  have "reach (\<lambda>d. snd d = new_routing_stats)
      (sr_step default_routing_config ?p ?p (\<lambda>p (r::unit). (Inl (AuthFailed ''x'') :: llm_error + unit, p)))
      ((), new_routing_stats)"
    by (rule reach_init) simp
  from routing_counters [OF this] show ?thesis by simp
qed

text \<open>a code block or a complex keyword outweighs everything but an empty message, so such a request
  never reaches the cheap model, however short it is.\<close>

theorem complex_beats_simple:
  assumes "trim msg \<noteq> []"
    and "str_contains (trim msg) ''```'' \<or> (\<exists>k \<in> set complex_keywords. str_contains (lowercase (trim msg)) k)"
  shows "classify_message msg cfg = Complex"
  using assms by (auto simp: classify_message_def Let_def list_ex_iff)

theorem complex_beats_simple_witness: "classify_message ''fix this'' default_routing_config = Complex"
proof (rule complex_beats_simple)
  show "trim ''fix this'' \<noteq> []" by code_simp
  have "str_contains (lowercase (trim ''fix this'')) ''fix this''" by code_simp
  then show "str_contains (trim ''fix this'') ''```'' \<or>
      (\<exists>k \<in> set complex_keywords. str_contains (lowercase (trim ''fix this'')) k)"
    unfolding complex_keywords_def by auto
qed

end
