(* ===== verification/Response_Cache.thy ===== *)
theory Response_Cache
  imports Llm_Provider Llm_Messages
begin

text \<open>
  \<open>src/llm/response_cache.rs\<close>: the cache key, and the two critical sections of \<open>complete\<close> (lookup and
  store with expiry and LRU eviction) as atomic operations, composed around the call of the wrapped
  provider. SHA-256, \<open>serde_json\<close> and the wrapped provider's \<open>effective_model_name\<close> are parameters.
\<close>

section \<open>Cache key\<close>

definition le_bytes32 :: "u32 \<Rightarrow> string" where
  "le_bytes32 w = map (\<lambda>i. char_of (unat (drop_bit (8 * i) w))) [0..<4]"

definition key_stops :: "string list option \<Rightarrow> string" where
  "key_stops st = (case st of Some stops \<Rightarrow> concat (map (\<lambda>s. s @ [CHR 0x00]) stops) | None \<Rightarrow> [])"

definition cache_key_input ::
  "(chat_message list \<Rightarrow> string option) \<Rightarrow> string \<Rightarrow> completion_request \<Rightarrow> string" where
  "cache_key_input to_json model req =
     model @ ''|'' @
     (case to_json (messages req) of Some j \<Rightarrow> j | None \<Rightarrow> []) @ ''|'' @
     (case max_tokens req of Some t \<Rightarrow> le_bytes32 t | None \<Rightarrow> []) @ ''|'' @
     (case temperature req of Some t \<Rightarrow> le_bytes32 t | None \<Rightarrow> []) @ ''|'' @
     key_stops (stop_sequences req)"

definition cache_key ::
  "(string \<Rightarrow> string) \<Rightarrow> (chat_message list \<Rightarrow> string option) \<Rightarrow> string \<Rightarrow> completion_request \<Rightarrow> string" where
  "cache_key sha256_hex to_json model req = sha256_hex (cache_key_input to_json model req)"

section \<open>State and operations\<close>

record cache_config =
  ttl :: duration
  max_entries :: nat

definition default_cache_config :: cache_config where
  "default_cache_config = \<lparr>ttl = from_secs 3600, max_entries = 1000\<rparr>"

record 'r cache_entry =
  response :: 'r
  created_at :: instant
  last_accessed :: instant
  hit_count :: u64

type_synonym 'r cache = "(string, 'r cache_entry) hashmap"

definition total_hits :: "'r cache \<Rightarrow> u64" where
  "total_hits m = sum_list (map (\<lambda>(k, e). hit_count e) m)"

text \<open>First critical section: a live entry is returned and touched, an expired one removed.\<close>

definition cache_lookup :: "cache_config \<Rightarrow> string \<Rightarrow> instant \<Rightarrow> 'r cache \<Rightarrow> 'r option \<times> 'r cache" where
  "cache_lookup cfg key now m =
     (case hm_get m key of
        Some entry \<Rightarrow>
          (if elapsed now (created_at entry) < ttl cfg
           then (Some (response entry),
                 hm_insert key (entry\<lparr>last_accessed := now, hit_count := hit_count entry + 1\<rparr>) m)
           else (None, hm_remove key m))
      | None \<Rightarrow> (None, m))"

text \<open>The loop \<open>while guard.len() >= max_entries\<close>.\<close>

function evict_lru :: "nat \<Rightarrow> 'r cache \<Rightarrow> 'r cache" where
  "evict_lru mx m =
     (if length m \<ge> mx
      then (case min_by_key (\<lambda>(_, entry). last_accessed entry) m of
              Some (k, _) \<Rightarrow> evict_lru mx (hm_remove k m)
            | None \<Rightarrow> m)
      else m)"
  by pat_completeness auto
termination
proof (relation "measure (\<lambda>(mx, m). length m)")
  fix mx and m :: "'r cache" and x k and e :: "'r cache_entry"
  assume "min_by_key (\<lambda>(_, entry). last_accessed entry) m = Some x" and "(k, e) = x"
  then have "(k, e) \<in> set m" using min_by_key_Some by fast
  then have "k \<in> fst ` set m" by force
  then show "((mx, hm_remove k m), (mx, m)) \<in> measure (\<lambda>(mx, m). length m)"
    by (simp add: length_hm_remove_less)
qed simp

declare evict_lru.simps [simp del]

text \<open>Second critical section: drop expired entries, make room, insert. \<open>now\<close> is the instant read
  before the lookup.\<close>

definition cache_store :: "cache_config \<Rightarrow> string \<Rightarrow> instant \<Rightarrow> 'r \<Rightarrow> 'r cache \<Rightarrow> 'r cache" where
  "cache_store cfg key now resp m =
     hm_insert key \<lparr>response = resp, created_at = now, last_accessed = now, hit_count = 0\<rparr>
       (evict_lru (max_entries cfg)
         (hm_retain (\<lambda>_ entry. elapsed now (created_at entry) < ttl cfg) m))"

definition cached_complete ::
  "cache_config \<Rightarrow> ('p \<Rightarrow> 'req \<Rightarrow> string) \<Rightarrow> instant \<Rightarrow> ('p, 'req, 'resp) provider \<Rightarrow>
   ('p \<times> 'resp cache, 'req, 'resp) provider" where
  "cached_complete cfg key now inner d req =
     (case d of (p, m) \<Rightarrow>
        (case cache_lookup cfg (key p req) now m of
           (Some resp, m') \<Rightarrow> (Inr resp, (p, m'))
         | (None, m') \<Rightarrow>
             (case inner p req of
                (Inl e, p') \<Rightarrow> (Inl e, (p', m'))
              | (Inr resp, p') \<Rightarrow> (Inr resp, (p', cache_store cfg (key p req) now resp m')))))"

text \<open>\<open>complete_with_tools\<close> is the wrapped provider's: the cache is neither read nor written.\<close>

definition cached_complete_with_tools ::
  "('p, 'req, 'resp) provider \<Rightarrow> ('p \<times> 'c cache, 'req, 'resp) provider" where
  "cached_complete_with_tools inner d req =
     (case d of (p, m) \<Rightarrow> (case inner p req of (r, p') \<Rightarrow> (r, (p', m))))"

section \<open>Concurrent use\<close>

text \<open>Calls interleave between their two critical sections, and \<open>clear\<close> may run at any point. A store
  carries the key computed when its call started (in provider state \<open>p0\<close>) and a response the provider
  gave in whatever state it then had.\<close>

inductive cache_step ::
  "cache_config \<Rightarrow> ('q \<Rightarrow> 'req \<Rightarrow> string) \<Rightarrow> ('p, 'req, 'resp) provider \<Rightarrow> 'resp cache \<Rightarrow> 'resp cache \<Rightarrow> bool"
  for cfg :: cache_config and key :: "'q \<Rightarrow> 'req \<Rightarrow> string" and inner :: "('p, 'req, 'resp) provider" where
  step_lookup: "cache_step cfg key inner m (snd (cache_lookup cfg (key p0 req) now m))"
| step_store: "answers inner req resp \<Longrightarrow>
    cache_step cfg key inner m (cache_store cfg (key p0 req) now resp m)"
| step_clear: "cache_step cfg key inner m []"

definition cache_ok ::
  "cache_config \<Rightarrow> ('q \<Rightarrow> 'req \<Rightarrow> string) \<Rightarrow> ('p, 'req, 'resp) provider \<Rightarrow> 'resp cache \<Rightarrow> bool" where
  "cache_ok cfg key inner m \<longleftrightarrow> hm_wf m \<and> length m \<le> max 1 (max_entries cfg) \<and>
     (\<forall>(k, entry) \<in> set m. \<exists>p0 req. key p0 req = k \<and> answers inner req (response entry))"

lemma evict_lru_Nil [simp]: "evict_lru mx [] = []"
  by (subst evict_lru.simps) simp

lemma evict_lru_props:
  assumes "hm_wf m"
  shows "hm_wf (evict_lru mx m) \<and> set (evict_lru mx m) \<subseteq> set m \<and>
    length (evict_lru mx m) \<le> length m \<and> (evict_lru mx m = [] \<or> length (evict_lru mx m) < mx)"
  using assms
proof (induction mx m rule: evict_lru.induct)
  case (1 mx m)
  show ?case
  proof (cases "length m \<ge> mx")
    case True
    show ?thesis
    proof (cases "min_by_key (\<lambda>(_, entry). last_accessed entry) m")
      case None
      then have "m = []" by simp
      then show ?thesis by simp
    next
      case (Some x)
      obtain k e where x: "x = (k, e)" by (cases x)
      have rec: "evict_lru mx m = evict_lru mx (hm_remove k m)"
        using True Some x by (simp add: evict_lru.simps [of mx m])
      have IH: "hm_wf (evict_lru mx (hm_remove k m)) \<and>
          set (evict_lru mx (hm_remove k m)) \<subseteq> set (hm_remove k m) \<and>
          length (evict_lru mx (hm_remove k m)) \<le> length (hm_remove k m) \<and>
          (evict_lru mx (hm_remove k m) = [] \<or> length (evict_lru mx (hm_remove k m)) < mx)"
        using 1(1) [OF True Some x [symmetric]] 1(2) by simp
      show ?thesis
        unfolding rec using IH hm_remove_subset [of k m] length_hm_remove_le [of k m] by force
    qed
  next
    case False
    then show ?thesis using 1(2) by (simp add: evict_lru.simps [of mx m])
  qed
qed

lemma hm_remove_in_set: "(k', v) \<in> set (hm_remove k m) \<longleftrightarrow> (k', v) \<in> set m \<and> k' \<noteq> k"
  by (auto simp: hm_remove_def AList.delete_eq)

lemma evict_lru_order:
  assumes "hm_wf m" and "(k, e) \<in> set (evict_lru mx m)" and "(j, f) \<in> set m" and "(j, f) \<notin> set (evict_lru mx m)"
  shows "last_accessed f \<le> last_accessed e"
  using assms
proof (induction mx m rule: evict_lru.induct)
  case (1 mx m)
  have big: "length m \<ge> mx" using 1(4,5) by (rule_tac ccontr) (simp add: evict_lru.simps [of mx m] 1(4,5))
  have "m \<noteq> []" using 1(4) by auto
  then obtain x where x: "min_by_key (\<lambda>(_, entry). last_accessed entry) m = Some x"
    by (metis min_by_key_None not_None_eq)
  obtain i g where ig: "x = (i, g)" by (cases x)
  have rec: "evict_lru mx m = evict_lru mx (hm_remove i m)"
    using big x ig by (simp add: evict_lru.simps [of mx m])
  have "(k, e) \<in> set m" using evict_lru_props [OF 1(2), of mx] 1(3) by blast
  then have least: "last_accessed g \<le> last_accessed e" using min_by_key_Some [OF x] ig by fastforce
  show ?case
  proof (cases "j = i")
    case True
    have "(i, g) \<in> set m" using min_by_key_Some [OF x] ig by simp
    then have "f = g" using 1(2,4) True by (metis hm_in_set_get option.inject)
    then show ?thesis using least by simp
  next
    case False
    then show ?thesis
      using 1(1) [OF big x ig [symmetric]] 1(2-5) rec by (simp add: hm_remove_in_set)
  qed
qed

lemma length_cache_store:
  assumes "hm_wf m"
  shows "length (cache_store cfg key now resp m) \<le> max 1 (max_entries cfg)"
proof -
  let ?e = "evict_lru (max_entries cfg) (hm_retain (\<lambda>_ entry. elapsed now (created_at entry) < ttl cfg) m)"
  have "?e = [] \<or> length ?e < max_entries cfg"
    using evict_lru_props [OF hm_wf_retain [OF assms]] by blast
  then show ?thesis
    using length_hm_insert_le [of key "\<lparr>response = resp, created_at = now, last_accessed = now, hit_count = 0\<rparr>" ?e]
    by (auto simp: cache_store_def)
qed

lemma cache_ok_lookup [inv_rules]:
  assumes "cache_ok cfg key inner m"
  shows "cache_ok cfg key inner (snd (cache_lookup cfg k now m))"
proof (cases "hm_get m k")
  case None
  then show ?thesis using assms by (simp add: cache_lookup_def)
next
  case (Some entry)
  then have e: "(k, entry) \<in> set m" by (rule hm_get_in_set)
  then have k: "k \<in> fst ` set m" by force
  show ?thesis
  proof (cases "elapsed now (created_at entry) < ttl cfg")
    case True
    let ?e' = "entry\<lparr>last_accessed := now, hit_count := hit_count entry + 1\<rparr>"
    have "\<forall>(j, x) \<in> set (hm_insert k ?e' m). \<exists>p0 req. key p0 req = j \<and> answers inner req (response x)"
      using assms e by (fastforce dest!: hm_insert_in_set simp: cache_ok_def)
    then show ?thesis using True Some assms k by (simp add: cache_lookup_def cache_ok_def length_hm_insert)
  next
    case False
    then show ?thesis
      using Some assms hm_remove_subset [of k m] length_hm_remove_le [of k m]
      by (auto simp: cache_lookup_def cache_ok_def)
  qed
qed

lemma cache_ok_store [inv_rules]:
  assumes "cache_ok cfg key inner m" and "answers inner req resp"
  shows "cache_ok cfg key inner (cache_store cfg (key p0 req) now resp m)"
proof -
  let ?r = "hm_retain (\<lambda>_ entry. elapsed now (created_at entry) < ttl cfg) m"
  have wf: "hm_wf m" using assms(1) by (simp add: cache_ok_def)
  have ev: "hm_wf (evict_lru (max_entries cfg) ?r)" "set (evict_lru (max_entries cfg) ?r) \<subseteq> set m"
    using evict_lru_props [OF hm_wf_retain [OF wf]] hm_retain_subset by blast+
  have "\<exists>p0 req. key p0 req = j \<and> answers inner req (response x)"
    if jx: "(j, x) \<in> set (cache_store cfg (key p0 req) now resp m)" for j x
  proof -
    have "(j = key p0 req \<and> response x = resp) \<or> (j, x) \<in> set m"
      using hm_insert_in_set [OF jx [unfolded cache_store_def]] ev(2) by auto
    then show ?thesis using assms by (fastforce simp: cache_ok_def)
  qed
  then show ?thesis
    using ev(1) length_cache_store [OF wf, of cfg] by (auto simp: cache_ok_def cache_store_def)
qed

interpretation rcache: steps_inv "\<lambda>m. m = []" "cache_step cfg key inner" "cache_ok cfg key inner"
proof
  fix s t
  show "s = [] \<Longrightarrow> cache_ok cfg key inner s" by (simp add: cache_ok_def)
  assume "cache_ok cfg key inner s" and "cache_step cfg key inner s t"
  then show "cache_ok cfg key inner t"
    by (auto elim!: cache_step.cases intro: cache_ok_lookup cache_ok_store) (simp add: cache_ok_def)
qed

definition holds_resp :: "'p \<times> 'resp cache \<Rightarrow> 'resp \<Rightarrow> bool" where
  "holds_resp d resp \<longleftrightarrow> (\<exists>(k, entry) \<in> set (snd d). response entry = resp)"

lemma cache_lookup_hit:
  "cache_lookup cfg k now m = (Some resp, m') \<Longrightarrow>
   \<exists>entry. hm_get m k = Some entry \<and> response entry = resp \<and> elapsed now (created_at entry) < ttl cfg"
  by (auto simp: cache_lookup_def split: option.splits if_splits)

lemma cached_complete_cases:
  assumes "cached_complete cfg key now inner (p, m) req = (Inr resp, d')"
  obtains (hit) entry where "hm_get m (key p req) = Some entry" and "response entry = resp"
      and "elapsed now (created_at entry) < ttl cfg" and "fst d' = p"
  | (miss) p' where "inner p req = (Inr resp, p')" and "fst d' = p'"
      and "\<And>entry. hm_get m (key p req) = Some entry \<Longrightarrow> \<not> elapsed now (created_at entry) < ttl cfg"
proof (cases "cache_lookup cfg (key p req) now m")
  case (Pair ro m')
  show ?thesis
  proof (cases ro)
    case None
    have "\<And>entry. hm_get m (key p req) = Some entry \<Longrightarrow> \<not> elapsed now (created_at entry) < ttl cfg"
      using Pair None by (auto simp: cache_lookup_def split: if_splits)
    with None Pair assms miss show ?thesis
      by (auto simp: cached_complete_def split: prod.splits sum.splits)
  next
    case (Some r)
    with Pair have "\<exists>entry. hm_get m (key p req) = Some entry \<and> response entry = r \<and>
        elapsed now (created_at entry) < ttl cfg"
      using cache_lookup_hit by metis
    with Some Pair assms hit show ?thesis by (auto simp: cached_complete_def)
  qed
qed

interpretation cache_dec: transparent_decorator "cached_complete cfg key now" holds_resp
proof
  fix inner :: "('a, 'b, 'c) provider" and d :: "'a \<times> 'c cache" and req resp d'
  assume a: "cached_complete cfg key now inner d req = (Inr resp, d')"
  obtain p m where d: "d = (p, m)" by (cases d)
  from a show "answers inner req resp \<or> holds_resp d resp"
    unfolding d
  proof (cases rule: cached_complete_cases)
    case (hit entry)
    then have "(key p req, entry) \<in> set m" by (simp add: hm_get_in_set)
    with hit show "answers inner req resp \<or> holds_resp (p, m) resp" by (force simp: holds_resp_def)
  next
    case (miss p')
    then show "answers inner req resp \<or> holds_resp (p, m) resp" by (auto simp: answers_def)
  qed
qed

section \<open>Key lemmas\<close>

lemma length_le_bytes32 [simp]: "length (le_bytes32 w) = 4"
  by (simp add: le_bytes32_def)

lemma le_bytes32_inj: "le_bytes32 a = le_bytes32 b \<longleftrightarrow> a = b"
proof
  assume eq: "le_bytes32 a = le_bytes32 b"
  have byte: "unat (drop_bit (8 * i) a) mod 256 = unat (drop_bit (8 * i) b) mod 256" if "i < 4" for i
  proof -
    have "le_bytes32 a ! i = le_bytes32 b ! i" using eq by simp
    then have "char_of (unat (drop_bit (8 * i) a)) = char_of (unat (drop_bit (8 * i) b))"
      using that by (simp add: le_bytes32_def)
    then have "(of_char (char_of (unat (drop_bit (8 * i) a))) :: nat) =
        of_char (char_of (unat (drop_bit (8 * i) b)))" by simp
    then show ?thesis by simp
  qed
  show "a = b"
  proof (rule bit_word_eqI)
    fix n assume "n < LENGTH(32)"
    then have n: "n = 8 * (n div 8) + n mod 8" "n div 8 < 4" by auto
    have "bit a n = bit (take_bit 8 (drop_bit (8 * (n div 8)) a)) (n mod 8)"
      using n(1) by (simp add: bit_take_bit_iff bit_drop_bit_eq)
    also have "take_bit 8 (drop_bit (8 * (n div 8)) a) = take_bit 8 (drop_bit (8 * (n div 8)) b)"
      using byte [OF n(2)] by (simp add: word_unat_eq_iff take_bit_eq_mod unat_mod)
    also have "bit (take_bit 8 (drop_bit (8 * (n div 8)) b)) (n mod 8) = bit b n"
      using n(1) by (simp add: bit_take_bit_iff bit_drop_bit_eq)
    finally show "bit a n = bit b n" .
  qed
qed simp

lemma first_sep_unique:
  assumes "x @ c # u = y @ c # v" and "c \<notin> set x" and "c \<notin> set y"
  shows "x = y"
proof -
  have "takeWhile (\<lambda>z. z \<noteq> c) (x @ c # u) = x" "takeWhile (\<lambda>z. z \<noteq> c) (y @ c # v) = y"
    using assms(2,3) by (auto simp: takeWhile_tail)
  then show ?thesis using assms(1) by simp
qed

lemma nul_terminated_inj:
  assumes "concat (map (\<lambda>s. s @ [c]) xs) = concat (map (\<lambda>s. s @ [c]) ys)"
    and "\<forall>s \<in> set xs. c \<notin> set s" and "\<forall>s \<in> set ys. c \<notin> set s"
  shows "xs = ys"
  using assms
proof (induction xs arbitrary: ys)
  case Nil
  then show ?case by (cases ys) auto
next
  case (Cons x xs)
  then obtain y ys' where y: "ys = y # ys'" by (cases ys) auto
  have "x @ c # concat (map (\<lambda>s. s @ [c]) xs) = y @ c # concat (map (\<lambda>s. s @ [c]) ys')"
    using Cons.prems(1) y by simp
  moreover have "c \<notin> set x" "c \<notin> set y" using Cons.prems y by auto
  ultimately have "x = y" by (rule first_sep_unique)
  then show ?case using Cons y by simp
qed

section \<open>Properties\<close>

text \<open>in every state the cache reaches under concurrent use, a response it returns was given by the
  wrapped provider to a request with the same cache key, and it holds at most \<open>max_entries\<close> entries (one,
  when \<open>max_entries\<close> is zero).\<close>

theorem cache_answers_sound:
  assumes "reach (\<lambda>m. m = []) (cache_step cfg key inner) m"
  shows "length m \<le> max 1 (max_entries cfg) \<and>
    (cached_complete cfg key now inner (p, m) req = (Inr resp, d') \<longrightarrow>
      (\<exists>p0 req'. key p0 req' = key p req \<and> answers inner req' resp))"
proof (intro conjI impI)
  have ok: "cache_ok cfg key inner m" using rcache.reach_inv assms by blast
  then show "length m \<le> max 1 (max_entries cfg)" by (simp add: cache_ok_def)
  assume "cached_complete cfg key now inner (p, m) req = (Inr resp, d')"
  then show "\<exists>p0 req'. key p0 req' = key p req \<and> answers inner req' resp"
  proof (cases rule: cached_complete_cases)
    case (hit entry)
    then have "(key p req, entry) \<in> set m" by (simp add: hm_get_in_set)
    with ok hit(2) show ?thesis by (fastforce simp: cache_ok_def)
  next
    case (miss p')
    then show ?thesis by (auto simp: answers_def)
  qed
qed

theorem cache_answers_sound_witness:
  "length (cache_store default_cache_config ''q'' 0 True []) \<le> max 1 (max_entries default_cache_config)"
proof -
  let ?inner = "\<lambda>p (r::string). (Inr True, p) :: (llm_error + bool) \<times> unit"
  have "answers ?inner ''q'' True" by (simp add: answers_def)
  then have "cache_step default_cache_config (\<lambda>_ r. r) ?inner []
      (cache_store default_cache_config ((\<lambda>_ r. r) () ''q'') 0 True [])"
    by (rule step_store)
  then have "reach (\<lambda>m. m = []) (cache_step default_cache_config (\<lambda>_ r. r) ?inner)
      (cache_store default_cache_config ''q'' 0 True [])"
    by (rule reach_step [OF reach_init, rotated]) simp
  from cache_answers_sound [OF this] show ?thesis by blast
qed

text \<open>a response just fetched is remembered: until its time to live has passed the same request is
  answered with it and the wrapped provider is not called (its state does not change, whatever it
  would have done); from then on the entry is not used.\<close>

theorem cache_remembers:
  assumes "cached_complete cfg key now inner (p, m) req = (Inr resp, (p', m'))"
    and "hm_get m (key p req) = None" and "key p' req = key p req"
  shows "(elapsed now2 now < ttl cfg \<longrightarrow>
            (\<exists>m''. cached_complete cfg key now2 inner2 (p', m') req = (Inr resp, (p', m'')))) \<and>
         (\<not> elapsed now2 now < ttl cfg \<longrightarrow>
            fst (cached_complete cfg key now2 inner2 (p', m') req) = fst (inner2 p' req))"
proof -
  have "inner p req = (Inr resp, p')" and m': "m' = cache_store cfg (key p req) now resp m"
    using assms(1,2) by (auto simp: cached_complete_def cache_lookup_def split: prod.splits sum.splits)
  have "hm_get m' (key p' req) = Some \<lparr>response = resp, created_at = now, last_accessed = now, hit_count = 0\<rparr>"
    unfolding m' assms(3) cache_store_def by (simp add: hm_get_insert)
  then show ?thesis
    by (auto simp: cached_complete_def cache_lookup_def split: prod.splits sum.splits)
qed

theorem cache_remembers_witness:
  "\<exists>m''. cached_complete default_cache_config (\<lambda>_ r. r) 5 (\<lambda>p r. (Inl (AuthFailed ''x''), p))
     ((), cache_store default_cache_config ''q'' 0 True []) ''q'' = (Inr True, ((), m''))"
proof -
  let ?inner = "\<lambda>p (r::string). (Inr True, p) :: (llm_error + bool) \<times> unit"
  have "cached_complete default_cache_config (\<lambda>_ r. r) 0 ?inner ((), []) ''q'' =
      (Inr True, ((), cache_store default_cache_config ''q'' 0 True []))"
    by (simp add: cached_complete_def cache_lookup_def)
  from cache_remembers [OF this, of 5 "\<lambda>p r. (Inl (AuthFailed ''x''), p)"]
  show ?thesis by (simp add: default_cache_config_def)
qed

text \<open>eviction is least-recently-used: whatever a store evicts for room was last accessed no later
  than anything it keeps, and it stops as soon as there is room for one entry.\<close>

theorem eviction_is_lru:
  assumes "hm_wf m"
  shows "(evict_lru mx m = [] \<or> length (evict_lru mx m) < mx) \<and>
    (\<forall>(k, e) \<in> set (evict_lru mx m). \<forall>(j, f) \<in> set m - set (evict_lru mx m).
       last_accessed f \<le> last_accessed e) \<and>
    (length m < mx \<longrightarrow> evict_lru mx m = m)"
proof -
  have "length m < mx \<longrightarrow> evict_lru mx m = m" by (simp add: evict_lru.simps [of mx m])
  then show ?thesis using evict_lru_props [OF assms, of mx] evict_lru_order [OF assms] by blast
qed

theorem eviction_is_lru_witness:
  "evict_lru 2 [(''a'', \<lparr>response = 1::nat, created_at = 0, last_accessed = 0, hit_count = 0\<rparr>)] =
     [(''a'', \<lparr>response = 1, created_at = 0, last_accessed = 0, hit_count = 0\<rparr>)]"
proof -
  have "hm_wf [(''a'', \<lparr>response = 1::nat, created_at = 0, last_accessed = 0, hit_count = 0\<rparr>)]"
    by (simp add: hm_wf_def)
  from eviction_is_lru [OF this, of 2] show ?thesis by simp
qed

text \<open>the parameters the source lists are separated by the key: if the hash does not collide, two
  requests for the same model and messages that set the same optional parameters and whose stop
  sequences hold no NUL have equal keys only if \<open>max_tokens\<close>, \<open>temperature\<close> and the stop sequences agree.\<close>

theorem cache_key_separates:
  assumes "\<And>x y. sha x = sha y \<Longrightarrow> x = y"
    and "cache_key sha json model r1 = cache_key sha json model r2" and "messages r1 = messages r2"
    and "max_tokens r1 = None \<longleftrightarrow> max_tokens r2 = None" and "temperature r1 = None \<longleftrightarrow> temperature r2 = None"
    and "stop_sequences r1 = Some s1" and "\<forall>s \<in> set s1. CHR 0x00 \<notin> set s"
    and "stop_sequences r2 = Some s2" and "\<forall>s \<in> set s2. CHR 0x00 \<notin> set s"
  shows "max_tokens r1 = max_tokens r2 \<and> temperature r1 = temperature r2 \<and> s1 = s2"
proof -
  let ?b = "\<lambda>t. case t of Some t \<Rightarrow> le_bytes32 t | None \<Rightarrow> []"
  have len: "length (?b (max_tokens r1)) = length (?b (max_tokens r2))"
    "length (?b (temperature r1)) = length (?b (temperature r2))"
    using assms(4,5) by (auto split: option.splits)
  have "cache_key_input json model r1 = cache_key_input json model r2"
    using assms(1) [OF assms(2) [unfolded cache_key_def]] .
  then have "?b (max_tokens r1) @ ''|'' @ ?b (temperature r1) @ ''|'' @ key_stops (Some s1) =
      ?b (max_tokens r2) @ ''|'' @ ?b (temperature r2) @ ''|'' @ key_stops (Some s2)"
    using assms(3,6,8) by (simp add: cache_key_input_def)
  then have "?b (max_tokens r1) = ?b (max_tokens r2) \<and> ?b (temperature r1) = ?b (temperature r2) \<and>
      key_stops (Some s1) = key_stops (Some s2)"
    using len by simp
  then show ?thesis
    using assms(4,5) nul_terminated_inj [of "CHR 0x00" s1 s2] assms(7,9)
    by (auto simp: key_stops_def le_bytes32_inj split: option.splits)
qed

theorem cache_key_separates_witness:
  "cache_key id (\<lambda>_. Some ''x'') ''m'' ((new_request [])\<lparr>temperature := Some 1, stop_sequences := Some [''END'']\<rparr>) \<noteq>
   cache_key id (\<lambda>_. Some ''x'') ''m'' ((new_request [])\<lparr>temperature := Some 2, stop_sequences := Some [''END'']\<rparr>)"
proof
  let ?r1 = "(new_request [])\<lparr>temperature := Some 1, stop_sequences := Some [''END'']\<rparr>"
  let ?r2 = "(new_request [])\<lparr>temperature := Some 2, stop_sequences := Some [''END'']\<rparr>"
  assume eq: "cache_key id (\<lambda>_. Some ''x'') ''m'' ?r1 = cache_key id (\<lambda>_. Some ''x'') ''m'' ?r2"
  have "max_tokens ?r1 = max_tokens ?r2 \<and> temperature ?r1 = temperature ?r2 \<and> [''END''] = [''END'']"
    by (rule cache_key_separates [OF _ eq]) (simp_all add: new_request_def)
  then show False by simp
qed

end
