(* ===== verification/Llm_Chain.thy ===== *)
theory Llm_Chain
  imports Circuit_Breaker Retry Failover Smart_Routing Response_Cache
begin















section \<open>Transparency\<close>







section \<open>Invariants of the layers\<close>









section \<open>Calls in sequence\<close>









section \<open>Properties\<close>



end
