(* ===== verification/Job_State.thy ===== *)
theory Job_State
  imports Prelude
begin

text \<open>
  \<open>src/context/state.rs\<close>: the job state machine, the job context with its bounded transition history,
  and its operations. A call of \<open>transition_to\<close> reads the clock twice (\<open>now\<close> for the history entry,
  \<open>now'\<close> for the time stamps).
\<close>

section \<open>States\<close>

datatype job_state = Pending | InProgress | Completed | Submitted | Accepted | Failed | Stuck | Cancelled

fun can_transition_to :: "job_state \<Rightarrow> job_state \<Rightarrow> bool" where
  "can_transition_to Pending InProgress = True"
| "can_transition_to Pending Cancelled = True"
| "can_transition_to InProgress Completed = True"
| "can_transition_to InProgress Failed = True"
| "can_transition_to InProgress Stuck = True"
| "can_transition_to InProgress Cancelled = True"
| "can_transition_to Completed Submitted = True"
| "can_transition_to Completed Failed = True"
| "can_transition_to Submitted Accepted = True"
| "can_transition_to Submitted Failed = True"
| "can_transition_to Stuck InProgress = True"
| "can_transition_to Stuck Failed = True"
| "can_transition_to Stuck Cancelled = True"
| "can_transition_to _ _ = False"

definition is_terminal :: "job_state \<Rightarrow> bool" where
  "is_terminal s \<longleftrightarrow> s \<in> {Accepted, Failed, Cancelled}"

definition is_active :: "job_state \<Rightarrow> bool" where
  "is_active s \<longleftrightarrow> \<not> is_terminal s"

fun job_state_str :: "job_state \<Rightarrow> string" where
  "job_state_str Pending = ''pending''"
| "job_state_str InProgress = ''in_progress''"
| "job_state_str Completed = ''completed''"
| "job_state_str Submitted = ''submitted''"
| "job_state_str Accepted = ''accepted''"
| "job_state_str Failed = ''failed''"
| "job_state_str Stuck = ''stuck''"
| "job_state_str Cancelled = ''cancelled''"

section \<open>Job contexts\<close>

record state_transition =
  tr_from :: job_state
  tr_to :: job_state
  tr_timestamp :: instant
  tr_reason :: "string option"

record job_context =
  job_id :: uuid
  job_st :: job_state
  job_user_id :: string
  conversation_id :: "uuid option"
  job_title :: string
  job_description :: string
  category :: "string option"
  budget :: "decimal option"
  budget_token :: "string option"
  bid_amount :: "decimal option"
  estimated_cost :: "decimal option"
  estimated_duration :: "duration option"
  actual_cost :: decimal
  total_tokens_used :: u64
  job_max_tokens :: u64
  job_created_at :: instant
  started_at :: "instant option"
  completed_at :: "instant option"
  repair_attempts :: u32
  transitions :: "state_transition list"
  job_metadata :: string
  extra_env :: "(string, string) hashmap"

definition job_with_user :: "uuid \<Rightarrow> instant \<Rightarrow> string \<Rightarrow> string \<Rightarrow> string \<Rightarrow> job_context" where
  "job_with_user new_id now user title description =
     \<lparr>job_id = new_id, job_st = Pending, job_user_id = user, conversation_id = None, job_title = title,
      job_description = description, category = None, budget = None, budget_token = None,
      bid_amount = None, estimated_cost = None, estimated_duration = None, actual_cost = 0,
      total_tokens_used = 0, job_max_tokens = 0, job_created_at = now, started_at = None,
      completed_at = None, repair_attempts = 0, transitions = [], job_metadata = ''null'', extra_env = []\<rparr>"

definition max_transitions :: nat where
  "max_transitions = 200"

definition stamp_times :: "job_state \<Rightarrow> instant \<Rightarrow> job_context \<Rightarrow> job_context" where
  "stamp_times new_state now c =
     (if new_state = InProgress \<and> started_at c = None then c\<lparr>started_at := Some now\<rparr>
      else if new_state \<in> {Completed, Accepted, Failed, Cancelled} then c\<lparr>completed_at := Some now\<rparr>
      else c)"

definition transition_to ::
  "instant \<Rightarrow> instant \<Rightarrow> job_state \<Rightarrow> string option \<Rightarrow> job_context \<Rightarrow> (string + unit) \<times> job_context" where
  "transition_to now now' new_state reason c =
     (if \<not> can_transition_to (job_st c) new_state
      then (Inl (''Cannot transition from '' @ job_state_str (job_st c) @ '' to '' @ job_state_str new_state), c)
      else
        let transition = \<lparr>tr_from = job_st c, tr_to = new_state, tr_timestamp = now, tr_reason = reason\<rparr>;
            ts = transitions c @ [transition];
            ts' = (if length ts > max_transitions then drop (length ts - max_transitions) ts else ts)
        in (Inr (), stamp_times new_state now' (c\<lparr>transitions := ts', job_st := new_state\<rparr>)))"

definition add_cost :: "decimal \<Rightarrow> job_context \<Rightarrow> job_context" where
  "add_cost cost c = c\<lparr>actual_cost := actual_cost c + cost\<rparr>"

text \<open>\<open>render\<close> is the formatted message; \<open>+=\<close> on \<open>u64\<close> wraps (release builds).\<close>

definition add_tokens ::
  "(u64 \<Rightarrow> u64 \<Rightarrow> string) \<Rightarrow> u64 \<Rightarrow> job_context \<Rightarrow> (string + unit) \<times> job_context" where
  "add_tokens render tokens c =
     (let used = total_tokens_used c + tokens; c' = c\<lparr>total_tokens_used := used\<rparr>
      in if job_max_tokens c' > 0 \<and> used > job_max_tokens c'
         then (Inl (render used (job_max_tokens c')), c') else (Inr (), c'))"

definition budget_exceeded :: "job_context \<Rightarrow> bool" where
  "budget_exceeded c = (case budget c of Some b \<Rightarrow> actual_cost c > b | None \<Rightarrow> False)"

text \<open>\<open>elapsed\<close>, in whole seconds; a negative difference is clamped to zero.\<close>

definition job_elapsed :: "instant \<Rightarrow> job_context \<Rightarrow> nat option" where
  "job_elapsed now c =
     map_option (\<lambda>start. ((case completed_at c of Some e \<Rightarrow> e | None \<Rightarrow> now) - start) div 1000000000)
       (started_at c)"

definition mark_stuck :: "instant \<Rightarrow> instant \<Rightarrow> string \<Rightarrow> job_context \<Rightarrow> (string + unit) \<times> job_context" where
  "mark_stuck now now' reason c = transition_to now now' Stuck (Some reason) c"

definition attempt_recovery :: "instant \<Rightarrow> instant \<Rightarrow> job_context \<Rightarrow> (string + unit) \<times> job_context" where
  "attempt_recovery now now' c =
     (if job_st c \<noteq> Stuck then (Inl ''Job is not stuck'', c)
      else transition_to now now' InProgress (Some ''Recovery attempt'')
             (c\<lparr>repair_attempts := repair_attempts c + 1\<rparr>))"

section \<open>Steps and invariant\<close>

inductive job_step :: "job_context \<Rightarrow> job_context \<Rightarrow> bool" where
  js_transition: "transition_to now now' st reason c = (r, c') \<Longrightarrow> job_step c c'"
| js_cost: "job_step c (add_cost cost c)"
| js_tokens: "add_tokens render n c = (r, c') \<Longrightarrow> job_step c c'"
| js_stuck: "mark_stuck now now' reason c = (r, c') \<Longrightarrow> job_step c c'"
| js_recover: "attempt_recovery now now' c = (r, c') \<Longrightarrow> job_step c c'"

definition job_init :: "job_context \<Rightarrow> bool" where
  "job_init c \<longleftrightarrow> (\<exists>i t u ti d. c = job_with_user i t u ti d)"

text \<open>The history is a path of the state machine that ends in the current state.\<close>

fun path_to :: "state_transition list \<Rightarrow> job_state \<Rightarrow> bool" where
  "path_to [] s = True"
| "path_to [t] s = (can_transition_to (tr_from t) (tr_to t) \<and> tr_to t = s)"
| "path_to (t # u # ts) s =
     (can_transition_to (tr_from t) (tr_to t) \<and> tr_to t = tr_from u \<and> path_to (u # ts) s)"

definition times_ok :: "job_context \<Rightarrow> bool" where
  "times_ok c \<longleftrightarrow>
     (job_st c \<notin> {Pending, Cancelled} \<longrightarrow> started_at c \<noteq> None) \<and>
     (completed_at c \<noteq> None \<longleftrightarrow> job_st c \<in> {Completed, Submitted, Accepted, Failed, Cancelled})"

definition job_ok :: "job_context \<Rightarrow> bool" where
  "job_ok c \<longleftrightarrow> length (transitions c) \<le> max_transitions \<and> path_to (transitions c) (job_st c) \<and>
     (transitions c = [] \<longrightarrow> job_st c = Pending) \<and> times_ok c"

lemma can_transition_not_terminal: "can_transition_to s t \<Longrightarrow> \<not> is_terminal s"
  by (cases s; cases t) (simp_all add: is_terminal_def)

lemma path_to_snoc:
  "path_to ts s \<Longrightarrow> can_transition_to s (tr_to t) \<Longrightarrow> tr_from t = s \<Longrightarrow> path_to (ts @ [t]) (tr_to t)"
  by (induction ts s rule: path_to.induct) auto

lemma path_to_drop: "path_to ts s \<Longrightarrow> path_to (drop n ts) s"
proof (induction n arbitrary: ts)
  case (Suc n)
  then show ?case by (cases ts; cases "tl ts") auto
qed simp

lemma stamp_times_simps [simp]:
  "job_st (stamp_times s now c) = job_st c" "transitions (stamp_times s now c) = transitions c"
  by (simp_all add: stamp_times_def)

lemma stamp_times_ok:
  assumes "times_ok c" and "can_transition_to (job_st c) s"
  shows "times_ok (stamp_times s now (c\<lparr>transitions := ts, job_st := s\<rparr>))"
  using assms by (cases "job_st c"; cases s) (auto simp: stamp_times_def times_ok_def)

lemma transition_to_cases:
  assumes "transition_to now now' s reason c = (r, c')"
  obtains (err) e where "r = Inl e" and "c' = c" and "\<not> can_transition_to (job_st c) s"
  | (ok) ts where "r = Inr ()" and "can_transition_to (job_st c) s"
      and "c' = stamp_times s now' (c\<lparr>transitions := ts, job_st := s\<rparr>)"
      and "ts = drop (length (transitions c) + 1 - max_transitions) (transitions c @
             [\<lparr>tr_from = job_st c, tr_to = s, tr_timestamp = now, tr_reason = reason\<rparr>])"
  using assms by (auto simp: transition_to_def Let_def split: if_splits)

lemma job_ok_transition [inv_rules]:
  assumes "job_ok c" and "transition_to now now' s reason c = (r, c')"
  shows "job_ok c'"
  using assms(2)
proof (cases rule: transition_to_cases)
  case err
  then show ?thesis using assms(1) by simp
next
  case (ok ts)
  let ?t = "\<lparr>tr_from = job_st c, tr_to = s, tr_timestamp = now, tr_reason = reason\<rparr>"
  have "path_to (transitions c @ [?t]) s"
    using path_to_snoc [of "transitions c" "job_st c" ?t] assms(1) ok(2) by (simp add: job_ok_def)
  then have "path_to ts s" unfolding ok(4) by (rule path_to_drop)
  moreover have "length ts \<le> max_transitions" "ts \<noteq> []" unfolding ok(4) by (auto simp: max_transitions_def)
  ultimately show ?thesis
    using stamp_times_ok [OF _ ok(2)] assms(1) ok(3) by (simp add: job_ok_def)
qed

lemma job_ok_update:
  "job_ok (c\<lparr>total_tokens_used := x\<rparr>) = job_ok c" "job_ok (c\<lparr>actual_cost := y\<rparr>) = job_ok c"
  "job_ok (c\<lparr>repair_attempts := z\<rparr>) = job_ok c"
  by (simp_all add: job_ok_def times_ok_def)

lemma job_ok_step [inv_rules]:
  assumes "job_ok c" and "job_step c c'"
  shows "job_ok c'"
  using assms(2)
proof cases
  case js_transition
  then show ?thesis using assms(1) job_ok_transition by blast
next
  case js_stuck
  then show ?thesis using assms(1) job_ok_transition unfolding mark_stuck_def by blast
next
  case (js_recover now now' r)
  then show ?thesis
    using assms(1) job_ok_transition [of "c\<lparr>repair_attempts := repair_attempts c + 1\<rparr>"]
    by (auto simp: attempt_recovery_def job_ok_update split: if_splits)
qed (use assms(1) in \<open>auto simp: add_cost_def add_tokens_def Let_def job_ok_update split: if_splits\<close>)

interpretation job: steps_inv job_init job_step job_ok
proof
  fix c assume "job_init c"
  then show "job_ok c"
    by (auto simp: job_init_def job_with_user_def job_ok_def times_ok_def)
qed (rule job_ok_step)

lemma transition_terminal:
  "transition_to now now' s reason c = (r, c') \<Longrightarrow> is_terminal (job_st c) \<Longrightarrow> c' = c \<and> \<not> is_ok r"
  by (auto elim!: transition_to_cases dest: can_transition_not_terminal)

lemma job_step_terminal:
  assumes "job_step c c'" and "is_terminal (job_st c)"
  shows "job_st c' = job_st c \<and> transitions c' = transitions c \<and> completed_at c' = completed_at c"
  using assms(1)
proof cases
  case (js_recover now now' r)
  then show ?thesis using assms(2) by (auto simp: attempt_recovery_def is_terminal_def)
next
  case (js_tokens render n r)
  then show ?thesis by (auto simp: add_tokens_def Let_def split: if_splits)
qed (use assms(2) in \<open>auto simp: add_cost_def mark_stuck_def dest: transition_terminal\<close>)

section \<open>Properties\<close>

text \<open>in every state a job reaches, its recorded history (the last 200 transitions) is a path of
  allowed transitions that ends in the current state, and the time stamps agree with the state: a
  job has a start time once it has left \<open>Pending\<close> other than by cancellation, and a completion time
  exactly when it is completed, submitted, accepted, failed or cancelled.\<close>

theorem job_history_consistent:
  assumes "reach job_init job_step c"
  shows "length (transitions c) \<le> 200 \<and> path_to (transitions c) (job_st c) \<and>
    (job_st c \<notin> {Pending, Cancelled} \<longrightarrow> started_at c \<noteq> None) \<and>
    (completed_at c \<noteq> None \<longleftrightarrow> job_st c \<in> {Completed, Submitted, Accepted, Failed, Cancelled})"
  using job.reach_inv [OF assms] by (simp add: job_ok_def times_ok_def max_transitions_def)

lemma fresh_job_reachable: "reach job_init job_step (job_with_user i t u ti d)"
  by (rule reach_init) (unfold job_init_def, blast)

theorem job_history_consistent_witness:
  "length (transitions (job_with_user 1 0 ''u'' ''t'' ''d'')) \<le> 200"
  using job_history_consistent [OF fresh_job_reachable] by blast

text \<open>terminal states are final and every other state is not a trap: once a job is accepted, failed
  or cancelled, no sequence of operations changes its state, its history or its completion time; and
  from every other state some allowed transition leads on.\<close>

theorem terminal_is_final:
  assumes "reach (\<lambda>x. x = c) job_step c'" and "is_terminal (job_st c)"
  shows "job_st c' = job_st c \<and> transitions c' = transitions c \<and> completed_at c' = completed_at c"
  using assms(1) by (induction rule: reach.induct) (use assms(2) job_step_terminal in auto)

theorem terminal_is_final_witness:
  "job_st (add_cost 5 ((job_with_user 1 0 ''u'' ''t'' ''d'')\<lparr>job_st := Failed\<rparr>)) = Failed"
proof -
  let ?c = "(job_with_user 1 0 ''u'' ''t'' ''d'')\<lparr>job_st := Failed\<rparr>"
  have "reach (\<lambda>x. x = ?c) job_step (add_cost 5 ?c)"
    by (rule reach_step [where s = ?c]) (simp_all add: reach_init js_cost)
  from terminal_is_final [OF this] show ?thesis by (simp add: is_terminal_def)
qed

text \<open>every job can still end: from every active state a terminal one is reachable by allowed
  transitions, and a state is terminal exactly when no transition leaves it.\<close>

theorem jobs_can_end:
  "(\<exists>t. can_transition_to\<^sup>*\<^sup>* s t \<and> is_terminal t) \<and> (is_terminal s \<longleftrightarrow> (\<forall>t. \<not> can_transition_to s t))"
proof
  have f: "can_transition_to\<^sup>*\<^sup>* s Failed" if "s \<in> {InProgress, Completed, Submitted, Stuck}" for s
    using that by (intro r_into_rtranclp) auto
  have "can_transition_to\<^sup>*\<^sup>* Pending Cancelled" by (rule r_into_rtranclp) simp
  then show "\<exists>t. can_transition_to\<^sup>*\<^sup>* s t \<and> is_terminal t"
    using f [of s] by (cases s) (auto simp: is_terminal_def)
  show "is_terminal s \<longleftrightarrow> (\<forall>t. \<not> can_transition_to s t)"
  proof
    assume "\<forall>t. \<not> can_transition_to s t"
    then show "is_terminal s" using f [of s] \<open>can_transition_to\<^sup>*\<^sup>* Pending Cancelled\<close>
      by (cases s) (auto simp: is_terminal_def elim: converse_rtranclpE)
  qed (auto dest: can_transition_not_terminal)
qed

text \<open>\<open>add_tokens\<close> records the tokens whether or not the budget is exceeded, and reports exactly
  the jobs whose recorded use is over a non-zero limit, provided the 64-bit counter does not wrap.\<close>

theorem token_budget:
  assumes "unat (total_tokens_used c) + unat n < 2 ^ 64" and "add_tokens render n c = (r, c')"
  shows "unat (total_tokens_used c') = unat (total_tokens_used c) + unat n \<and>
    (is_ok r \<longleftrightarrow> job_max_tokens c = 0 \<or> unat (total_tokens_used c) + unat n \<le> unat (job_max_tokens c))"
proof -
  have "unat (total_tokens_used c + n) = unat (total_tokens_used c) + unat n"
    using assms(1) by (simp add: unat_word_ariths)
  then show ?thesis using assms(2)
    by (auto simp: add_tokens_def Let_def word_less_nat_alt unat_eq_0 split: if_splits)
qed

theorem token_budget_witness:
  "unat (total_tokens_used (snd (add_tokens (\<lambda>_ _. ''over'') 7 (job_with_user 1 0 ''u'' ''t'' ''d'')))) = 7"
proof -
  let ?c = "job_with_user 1 0 ''u'' ''t'' ''d''"
  obtain r c' where a: "add_tokens (\<lambda>_ _. ''over'') 7 ?c = (r, c')"
    by (cases "add_tokens (\<lambda>_ _. ''over'') 7 ?c")
  have "unat (total_tokens_used ?c) + unat (7::u64) < 2 ^ 64" by (simp add: job_with_user_def)
  from token_budget [OF this a] have "unat (total_tokens_used c') = 7" by (simp add: job_with_user_def)
  then show ?thesis using a by simp
qed

end
