(* ===== verification/Context_Manager.thy ===== *)
theory Context_Manager
  imports Job_State Llm_Messages
begin

text \<open>
  \<open>src/context/memory.rs\<close> (action records, the bounded conversation, the memory of a job) and
  \<open>src/context/manager.rs\<close> (the table of concurrent jobs with its limit). The manager guards its two
  maps by separate locks: \<open>create_job_for_user\<close> and \<open>remove_job\<close> are two critical sections each.
\<close>

section \<open>Action records\<close>

record action_record =
  act_id :: uuid
  act_sequence :: u32
  act_tool_name :: string
  act_input :: json
  output_raw :: "string option"
  output_sanitized :: "json option"
  sanitization_warnings :: "string list"
  act_cost :: "decimal option"
  act_duration :: duration
  act_success :: bool
  act_error :: "string option"
  executed_at :: instant

definition new_action :: "uuid \<Rightarrow> instant \<Rightarrow> u32 \<Rightarrow> string \<Rightarrow> json \<Rightarrow> action_record" where
  "new_action i now sequence tool input =
     \<lparr>act_id = i, act_sequence = sequence, act_tool_name = tool, act_input = input, output_raw = None,
      output_sanitized = None, sanitization_warnings = [], act_cost = None, act_duration = 0,
      act_success = False, act_error = None, executed_at = now\<rparr>"

definition succeed :: "string option \<Rightarrow> json \<Rightarrow> duration \<Rightarrow> action_record \<Rightarrow> action_record" where
  "succeed raw sanitized d a =
     a\<lparr>act_success := True, output_raw := raw, output_sanitized := Some sanitized, act_duration := d\<rparr>"

definition fail_action :: "string \<Rightarrow> duration \<Rightarrow> action_record \<Rightarrow> action_record" where
  "fail_action err d a = a\<lparr>act_success := False, act_error := Some err, act_duration := d\<rparr>"

definition with_warnings :: "string list \<Rightarrow> action_record \<Rightarrow> action_record" where
  "with_warnings ws a = a\<lparr>sanitization_warnings := ws\<rparr>"

definition with_cost :: "decimal \<Rightarrow> action_record \<Rightarrow> action_record" where
  "with_cost cost a = a\<lparr>act_cost := Some cost\<rparr>"

section \<open>Conversation memory\<close>

record conversation_memory =
  conv_messages :: "chat_message list"
  max_messages :: nat

definition new_conversation :: "nat \<Rightarrow> conversation_memory" where
  "new_conversation mx = \<lparr>conv_messages = [], max_messages = mx\<rparr>"

text \<open>The trimming loop: \<open>remove(1)\<close> keeps a leading system message, \<open>remove(0)\<close> drops the first.\<close>

function trim_conv :: "nat \<Rightarrow> chat_message list \<Rightarrow> chat_message list" where
  "trim_conv mx ms =
     (if length ms > mx
      then (case ms of
              [] \<Rightarrow> ms
            | m # rest \<Rightarrow>
                if msg_role m = System
                then (case rest of [] \<Rightarrow> ms | _ # rest' \<Rightarrow> trim_conv mx (m # rest'))
                else trim_conv mx rest)
      else ms)"
  by pat_completeness auto
termination by (relation "measure (\<lambda>(mx, ms). length ms)") auto

declare trim_conv.simps [simp del]

definition conv_add :: "chat_message \<Rightarrow> conversation_memory \<Rightarrow> conversation_memory" where
  "conv_add m c = c\<lparr>conv_messages := trim_conv (max_messages c) (conv_messages c @ [m])\<rparr>"

definition last_n :: "nat \<Rightarrow> conversation_memory \<Rightarrow> chat_message list" where
  "last_n n c = drop (length (conv_messages c) - n) (conv_messages c)"

section \<open>Job memory\<close>

record memory =
  mem_job_id :: uuid
  conversation :: conversation_memory
  actions :: "action_record list"
  next_sequence :: u32

definition new_memory :: "uuid \<Rightarrow> memory" where
  "new_memory i = \<lparr>mem_job_id = i, conversation = new_conversation 100, actions = [], next_sequence = 0\<rparr>"

definition add_message :: "chat_message \<Rightarrow> memory \<Rightarrow> memory" where
  "add_message m mem = mem\<lparr>conversation := conv_add m (conversation mem)\<rparr>"

definition create_action :: "uuid \<Rightarrow> instant \<Rightarrow> string \<Rightarrow> json \<Rightarrow> memory \<Rightarrow> action_record \<times> memory" where
  "create_action i now tool input mem =
     (let seq = next_sequence mem
      in (new_action i now seq tool input, mem\<lparr>next_sequence := next_sequence mem + 1\<rparr>))"

definition record_action :: "action_record \<Rightarrow> memory \<Rightarrow> memory" where
  "record_action a mem = mem\<lparr>actions := actions mem @ [a]\<rparr>"

definition mem_total_cost :: "memory \<Rightarrow> decimal" where
  "mem_total_cost mem = fold (\<lambda>c acc. acc + c) (List.map_filter act_cost (actions mem)) 0"

definition mem_total_duration :: "memory \<Rightarrow> duration" where
  "mem_total_duration mem = fold (\<lambda>d acc. acc + d) (map act_duration (actions mem)) 0"

definition successful_actions :: "memory \<Rightarrow> nat" where
  "successful_actions mem = length (filter act_success (actions mem))"

definition failed_actions :: "memory \<Rightarrow> nat" where
  "failed_actions mem = length (filter (\<lambda>a. \<not> act_success a) (actions mem))"

definition last_action :: "memory \<Rightarrow> action_record option" where
  "last_action mem = (if actions mem = [] then None else Some (last (actions mem)))"

definition actions_by_tool :: "string \<Rightarrow> memory \<Rightarrow> action_record list" where
  "actions_by_tool tool mem = filter (\<lambda>a. act_tool_name a = tool) (actions mem)"

section \<open>Context manager\<close>

datatype job_error = NotFound uuid | MaxJobsExceeded nat

record manager =
  contexts :: "(uuid, job_context) hashmap"
  memories :: "(uuid, memory) hashmap"

definition new_manager :: manager where
  "new_manager = \<lparr>contexts = [], memories = []\<rparr>"

definition active_count :: "manager \<Rightarrow> nat" where
  "active_count mg = length (filter (\<lambda>(i, c). is_active (job_st c)) (contexts mg))"

text \<open>The two critical sections of \<open>create_job_for_user\<close>, and the operation that runs both.\<close>

definition create_context ::
  "nat \<Rightarrow> uuid \<Rightarrow> instant \<Rightarrow> string \<Rightarrow> string \<Rightarrow> string \<Rightarrow> manager \<Rightarrow> (job_error + uuid) \<times> manager" where
  "create_context max_jobs new_id now user title description mg =
     (if active_count mg \<ge> max_jobs then (Inl (MaxJobsExceeded max_jobs), mg)
      else let context = job_with_user new_id now user title description
           in (Inr (job_id context), mg\<lparr>contexts := hm_insert (job_id context) context (contexts mg)\<rparr>))"

definition create_memory :: "uuid \<Rightarrow> manager \<Rightarrow> manager" where
  "create_memory i mg = mg\<lparr>memories := hm_insert i (new_memory i) (memories mg)\<rparr>"

definition create_job_for_user ::
  "nat \<Rightarrow> uuid \<Rightarrow> instant \<Rightarrow> string \<Rightarrow> string \<Rightarrow> string \<Rightarrow> manager \<Rightarrow> (job_error + uuid) \<times> manager" where
  "create_job_for_user max_jobs new_id now user title description mg =
     (case create_context max_jobs new_id now user title description mg of
        (Inl e, mg1) \<Rightarrow> (Inl e, mg1)
      | (Inr i, mg1) \<Rightarrow> (Inr i, create_memory i mg1))"

definition get_context :: "uuid \<Rightarrow> manager \<Rightarrow> job_error + job_context" where
  "get_context i mg = (case hm_get (contexts mg) i of Some c \<Rightarrow> Inr c | None \<Rightarrow> Inl (NotFound i))"

definition update_context ::
  "uuid \<Rightarrow> (job_context \<Rightarrow> 'r \<times> job_context) \<Rightarrow> manager \<Rightarrow> (job_error + 'r) \<times> manager" where
  "update_context i f mg =
     (case hm_get (contexts mg) i of
        None \<Rightarrow> (Inl (NotFound i), mg)
      | Some c \<Rightarrow> (case f c of (r, c') \<Rightarrow> (Inr r, mg\<lparr>contexts := hm_insert i c' (contexts mg)\<rparr>)))"

definition get_memory :: "uuid \<Rightarrow> manager \<Rightarrow> job_error + memory" where
  "get_memory i mg = (case hm_get (memories mg) i of Some m \<Rightarrow> Inr m | None \<Rightarrow> Inl (NotFound i))"

definition update_memory ::
  "uuid \<Rightarrow> (memory \<Rightarrow> 'r \<times> memory) \<Rightarrow> manager \<Rightarrow> (job_error + 'r) \<times> manager" where
  "update_memory i f mg =
     (case hm_get (memories mg) i of
        None \<Rightarrow> (Inl (NotFound i), mg)
      | Some m \<Rightarrow> (case f m of (r, m') \<Rightarrow> (Inr r, mg\<lparr>memories := hm_insert i m' (memories mg)\<rparr>)))"

definition active_jobs :: "manager \<Rightarrow> uuid list" where
  "active_jobs mg = map fst (filter (\<lambda>(i, c). is_active (job_st c)) (contexts mg))"

definition all_jobs :: "manager \<Rightarrow> uuid list" where
  "all_jobs mg = map fst (contexts mg)"

definition active_jobs_for :: "string \<Rightarrow> manager \<Rightarrow> uuid list" where
  "active_jobs_for user mg =
     map fst (filter (\<lambda>(i, c). job_user_id c = user \<and> is_active (job_st c)) (contexts mg))"

definition all_jobs_for :: "string \<Rightarrow> manager \<Rightarrow> uuid list" where
  "all_jobs_for user mg = map fst (filter (\<lambda>(i, c). job_user_id c = user) (contexts mg))"

definition find_stuck_jobs :: "manager \<Rightarrow> uuid list" where
  "find_stuck_jobs mg = map fst (filter (\<lambda>(i, c). job_st c = Stuck) (contexts mg))"

text \<open>The two critical sections of \<open>remove_job\<close>, and the operation.\<close>

definition remove_context :: "uuid \<Rightarrow> manager \<Rightarrow> (job_error + job_context) \<times> manager" where
  "remove_context i mg =
     ((case hm_get (contexts mg) i of Some c \<Rightarrow> Inr c | None \<Rightarrow> Inl (NotFound i)),
      mg\<lparr>contexts := hm_remove i (contexts mg)\<rparr>)"

definition remove_memory :: "uuid \<Rightarrow> manager \<Rightarrow> (job_error + memory) \<times> manager" where
  "remove_memory i mg =
     ((case hm_get (memories mg) i of Some m \<Rightarrow> Inr m | None \<Rightarrow> Inl (NotFound i)),
      mg\<lparr>memories := hm_remove i (memories mg)\<rparr>)"

definition remove_job :: "uuid \<Rightarrow> manager \<Rightarrow> (job_error + job_context \<times> memory) \<times> manager" where
  "remove_job i mg =
     (case remove_context i mg of
        (Inl e, mg1) \<Rightarrow> (Inl e, mg1)
      | (Inr c, mg1) \<Rightarrow>
          (case remove_memory i mg1 of
             (Inl e, mg2) \<Rightarrow> (Inl e, mg2)
           | (Inr m, mg2) \<Rightarrow> (Inr (c, m), mg2)))"

section \<open>Summary\<close>

record context_summary =
  sum_total :: nat
  sum_pending :: nat
  sum_in_progress :: nat
  sum_completed :: nat
  sum_submitted :: nat
  sum_accepted :: nat
  sum_failed :: nat
  sum_stuck :: nat
  sum_cancelled :: nat

definition default_summary :: context_summary where
  "default_summary = \<lparr>sum_total = 0, sum_pending = 0, sum_in_progress = 0, sum_completed = 0,
     sum_submitted = 0, sum_accepted = 0, sum_failed = 0, sum_stuck = 0, sum_cancelled = 0\<rparr>"

fun count_state :: "job_state \<Rightarrow> context_summary \<Rightarrow> context_summary" where
  "count_state Pending s = s\<lparr>sum_pending := sum_pending s + 1\<rparr>"
| "count_state InProgress s = s\<lparr>sum_in_progress := sum_in_progress s + 1\<rparr>"
| "count_state Completed s = s\<lparr>sum_completed := sum_completed s + 1\<rparr>"
| "count_state Submitted s = s\<lparr>sum_submitted := sum_submitted s + 1\<rparr>"
| "count_state Accepted s = s\<lparr>sum_accepted := sum_accepted s + 1\<rparr>"
| "count_state Failed s = s\<lparr>sum_failed := sum_failed s + 1\<rparr>"
| "count_state Stuck s = s\<lparr>sum_stuck := sum_stuck s + 1\<rparr>"
| "count_state Cancelled s = s\<lparr>sum_cancelled := sum_cancelled s + 1\<rparr>"

definition states_sum :: "context_summary \<Rightarrow> nat" where
  "states_sum s = sum_pending s + sum_in_progress s + sum_completed s + sum_submitted s +
     sum_accepted s + sum_failed s + sum_stuck s + sum_cancelled s"

definition summary :: "manager \<Rightarrow> context_summary" where
  "summary mg =
     (fold (\<lambda>(i, c). count_state (job_st c)) (contexts mg) default_summary)\<lparr>sum_total := length (contexts mg)\<rparr>"

definition summary_for :: "string \<Rightarrow> manager \<Rightarrow> context_summary" where
  "summary_for user mg =
     (let s = fold (\<lambda>(i, c). count_state (job_st c))
                (filter (\<lambda>(i, c). job_user_id c = user) (contexts mg)) default_summary
      in s\<lparr>sum_total := states_sum s\<rparr>)"

section \<open>Lemmas\<close>

lemma trim_conv_stop: "length ms \<le> mx \<Longrightarrow> trim_conv mx ms = ms"
  by (subst trim_conv.simps) simp

lemma trim_conv_system:
  assumes "msg_role m = System"
  shows "trim_conv mx (m # rest) = m # drop (Suc (length rest) - max 1 mx) rest"
proof (induction "length rest" arbitrary: rest)
  case 0
  then show ?case using assms by (subst trim_conv.simps) auto
next
  case (Suc n)
  then obtain r rest' where rest: "rest = r # rest'" by (cases rest) auto
  show ?case
  proof (cases "length (m # rest) > mx")
    case True
    then have "trim_conv mx (m # rest) = trim_conv mx (m # rest')"
      using assms rest by (subst trim_conv.simps) simp
    also have "\<dots> = m # drop (Suc (length rest') - max 1 mx) rest'" using Suc rest by simp
    also have "\<dots> = m # drop (Suc (length rest) - max 1 mx) rest"
      using True rest by (cases mx) (auto simp: Suc_diff_le)
    finally show ?thesis .
  next
    case False
    then show ?thesis by (simp add: trim_conv_stop)
  qed
qed

lemma trim_conv_other:
  "msg_role m \<noteq> System \<Longrightarrow> mx < length (m # rest) \<Longrightarrow> trim_conv mx (m # rest) = trim_conv mx rest"
  by (subst trim_conv.simps) simp

lemma trim_conv_length: "length (trim_conv mx ms) \<le> max 1 mx"
proof (induction ms)
  case Nil
  then show ?case by (simp add: trim_conv.simps)
next
  case (Cons m ms)
  show ?case
  proof (cases "msg_role m = System")
    case True
    then show ?thesis by (simp add: trim_conv_system)
  next
    case False
    then show ?thesis using Cons trim_conv_other [OF False, of mx ms] trim_conv_stop [of "m # ms" mx]
      by (cases "mx < length (m # ms)") auto
  qed
qed

lemma filter_hm_insert_le:
  "length (filter (\<lambda>(k, v). P v) (hm_insert k v m)) \<le>
   length (filter (\<lambda>(k, v). P v) m) + (if P v then 1 else 0)"
  unfolding hm_insert_def by (induction m) auto

lemma filter_hm_update_le:
  "hm_get m k = Some v0 \<Longrightarrow> (P v \<Longrightarrow> P v0) \<Longrightarrow>
   length (filter (\<lambda>(k, v). P v) (hm_insert k v m)) \<le> length (filter (\<lambda>(k, v). P v) m)"
  unfolding hm_insert_def by (induction m) (auto split: if_splits)

lemma filter_hm_remove_le:
  "length (filter Q (hm_remove k m)) \<le> length (filter Q m)"
  unfolding hm_remove_def by (induction m) auto

section \<open>Steps and invariant\<close>

text \<open>The closures given to \<open>update_context\<close> are compositions of job operations, one step at a time.\<close>

inductive cm_step :: "nat \<Rightarrow> manager \<Rightarrow> manager \<Rightarrow> bool" for max_jobs where
  cm_create: "cm_step max_jobs mg (snd (create_context max_jobs i now u t d mg))"
| cm_create_memory: "cm_step max_jobs mg (create_memory i mg)"
| cm_update: "(\<And>c. job_step c (snd (f c))) \<Longrightarrow> cm_step max_jobs mg
    (snd (update_context i (f :: job_context \<Rightarrow> (string + unit) \<times> job_context) mg))"
| cm_update_memory: "cm_step max_jobs mg (snd (update_memory i (g :: memory \<Rightarrow> unit \<times> memory) mg))"
| cm_remove: "cm_step max_jobs mg (snd (remove_context i mg))"
| cm_remove_memory: "cm_step max_jobs mg (snd (remove_memory i mg))"

definition manager_ok :: "nat \<Rightarrow> manager \<Rightarrow> bool" where
  "manager_ok max_jobs mg \<longleftrightarrow>
     active_count mg \<le> max_jobs \<and> hm_wf (contexts mg) \<and> (\<forall>(i, c) \<in> set (contexts mg). job_ok c)"

lemma job_ok_new: "job_ok (job_with_user i t u ti d)"
  by (rule job.reach_inv [OF fresh_job_reachable])

lemma manager_ok_create [inv_rules]:
  assumes "manager_ok max_jobs mg"
  shows "manager_ok max_jobs (snd (create_context max_jobs i now u t d mg))"
proof (cases "active_count mg \<ge> max_jobs")
  case True
  then show ?thesis using assms by (simp add: create_context_def)
next
  case False
  let ?c = "job_with_user i now u t d"
  have "length (filter (\<lambda>(k, c). is_active (job_st c)) (hm_insert i ?c (contexts mg))) \<le> max_jobs"
    using filter_hm_insert_le [of "\<lambda>c. is_active (job_st c)" i ?c "contexts mg"] False
    by (simp add: active_count_def split: if_splits)
  moreover have "\<forall>(k, c) \<in> set (hm_insert i ?c (contexts mg)). job_ok c"
    using assms job_ok_new by (fastforce dest!: hm_insert_in_set simp: manager_ok_def)
  ultimately show ?thesis using False assms
    by (simp add: create_context_def Let_def manager_ok_def active_count_def)
      (simp add: job_with_user_def)
qed

lemma manager_ok_update [inv_rules]:
  assumes "manager_ok max_jobs mg" and "\<And>c. job_step c (snd (f c))"
  shows "manager_ok max_jobs (snd (update_context i f mg))"
proof (cases "hm_get (contexts mg) i")
  case None
  then show ?thesis using assms(1) by (simp add: update_context_def)
next
  case (Some c)
  obtain r c' where f: "f c = (r, c')" by (cases "f c")
  then have st: "job_step c c'" using assms(2) [of c] by simp
  have "is_active (job_st c') \<Longrightarrow> is_active (job_st c)"
    using job_step_terminal [OF st] by (auto simp: is_active_def)
  then have "length (filter (\<lambda>(k, c). is_active (job_st c)) (hm_insert i c' (contexts mg))) \<le> active_count mg"
    unfolding active_count_def by (intro filter_hm_update_le [OF Some])
  moreover have "job_ok c'"
    using assms(1) hm_get_in_set [OF Some] job_ok_step [OF _ st] by (auto simp: manager_ok_def)
  moreover from this have "\<forall>(k, c) \<in> set (hm_insert i c' (contexts mg)). job_ok c"
    using assms(1) by (fastforce dest!: hm_insert_in_set simp: manager_ok_def)
  ultimately show ?thesis using Some f assms(1)
    by (simp add: update_context_def manager_ok_def) (simp add: active_count_def)
qed

lemma manager_ok_remove [inv_rules]:
  assumes "manager_ok max_jobs mg"
  shows "manager_ok max_jobs (snd (remove_context i mg))"
  using assms filter_hm_remove_le [of "\<lambda>(i, c). is_active (job_st c)" i "contexts mg"]
    hm_remove_subset [of i "contexts mg"]
  by (auto simp: remove_context_def manager_ok_def active_count_def)

lemma manager_ok_memories: "manager_ok max_jobs (mg\<lparr>memories := ms\<rparr>) = manager_ok max_jobs mg"
  by (simp add: manager_ok_def active_count_def)

interpretation jobs: steps_inv "\<lambda>mg. mg = new_manager" "cm_step max_jobs" "manager_ok max_jobs" for max_jobs
proof
  fix mg assume "mg = new_manager"
  then show "manager_ok max_jobs mg" by (simp add: new_manager_def manager_ok_def active_count_def)
next
  fix mg mg' assume ok: "manager_ok max_jobs mg" and "cm_step max_jobs mg mg'"
  from this(2) show "manager_ok max_jobs mg'"
  proof cases
    case (cm_update f i)
    then show ?thesis using manager_ok_update [OF ok, of f i] by blast
  next
    case (cm_update_memory i g)
    then show ?thesis using ok
      by (auto simp: update_memory_def manager_ok_memories split: option.splits prod.splits)
  qed (use ok in \<open>auto simp: create_memory_def remove_memory_def manager_ok_memories
        intro: manager_ok_create manager_ok_remove\<close>)
qed

lemma count_states_sum:
  "states_sum (fold (\<lambda>(i, c). count_state (job_st c)) cs s) = states_sum s + length cs"
proof (induction cs arbitrary: s)
  case (Cons x cs)
  obtain i c where "x = (i, c)" by (cases x)
  moreover have "states_sum (count_state (job_st c) s) = Suc (states_sum s)"
    by (cases "job_st c") (simp_all add: states_sum_def)
  ultimately show ?case using Cons by simp
qed simp

lemma states_sum_total [simp]: "states_sum (s\<lparr>sum_total := n\<rparr>) = states_sum s"
  by (simp add: states_sum_def)

lemma states_sum_default [simp]: "states_sum default_summary = 0"
  by (simp add: states_sum_def default_summary_def)

section \<open>Properties\<close>

text \<open>the limit on concurrent jobs holds: however creations, updates by job operations and removals
  interleave, never more than \<open>max_jobs\<close> jobs are active, and every job in the table keeps a consistent
  history and time stamps.\<close>

theorem active_jobs_bounded:
  assumes "reach (\<lambda>mg. mg = new_manager) (cm_step max_jobs) mg"
  shows "active_count mg \<le> max_jobs \<and> (\<forall>(i, c) \<in> set (contexts mg). job_ok c)"
  using jobs.reach_inv [OF assms] by (simp add: manager_ok_def)

theorem active_jobs_bounded_witness:
  "active_count (snd (create_context 1 7 0 ''u'' ''t'' ''d'' new_manager)) \<le> 1"
proof -
  have "cm_step 1 new_manager (snd (create_context 1 7 0 ''u'' ''t'' ''d'' new_manager))"
    by (rule cm_create)
  then have "reach (\<lambda>mg. mg = new_manager) (cm_step 1) (snd (create_context 1 7 0 ''u'' ''t'' ''d'' new_manager))"
    by (intro reach_one [where init = "\<lambda>mg. mg = new_manager", OF refl])
  from active_jobs_bounded [OF this] show ?thesis by blast
qed

text \<open>creating a job below the limit makes exactly it: the job is then found pending under its owner
  with an empty memory, every other job is as before, and after \<open>remove_job\<close>, which returns both
  parts, it is gone. At the limit nothing changes.\<close>

theorem create_get_remove:
  "if active_count mg < max_jobs
   then \<exists>mg' mg''. create_job_for_user max_jobs i now u t d mg = (Inr i, mg') \<and>
     get_context i mg' = Inr (job_with_user i now u t d) \<and> get_memory i mg' = Inr (new_memory i) \<and>
     (\<forall>j. j \<noteq> i \<longrightarrow> get_context j mg' = get_context j mg \<and> get_memory j mg' = get_memory j mg) \<and>
     remove_job i mg' = (Inr (job_with_user i now u t d, new_memory i), mg'') \<and>
     get_context i mg'' = Inl (NotFound i) \<and> get_memory i mg'' = Inl (NotFound i)
   else create_job_for_user max_jobs i now u t d mg = (Inl (MaxJobsExceeded max_jobs), mg)"
  by (auto simp: create_job_for_user_def create_context_def create_memory_def get_context_def
      get_memory_def remove_job_def remove_context_def remove_memory_def hm_get_insert hm_get_remove
      job_with_user_def Let_def)

theorem create_get_remove_witness:
  "fst (create_job_for_user 0 7 0 ''u'' ''t'' ''d'' new_manager) = Inl (MaxJobsExceeded 0)"
  using create_get_remove [of new_manager 0 7 0 "''u''" "''t''" "''d''"] by simp

text \<open>the summary of all jobs and that of one user count every job exactly once: the total is the
  sum over the eight states and the number of the jobs listed.\<close>

theorem summaries_add_up:
  "sum_total (summary mg) = states_sum (summary mg) \<and> sum_total (summary mg) = length (all_jobs mg) \<and>
   sum_total (summary_for u mg) = states_sum (summary_for u mg) \<and>
   sum_total (summary_for u mg) = length (all_jobs_for u mg)"
  by (simp add: summary_def summary_for_def Let_def count_states_sum all_jobs_def all_jobs_for_def)

text \<open>a conversation holds at most \<open>max_messages\<close> messages (one, if the limit is zero), and when it
  starts with a system message that message stays, followed by the newest of the others.\<close>

theorem conversation_trimmed:
  "length (conv_messages (conv_add m c)) \<le> max 1 (max_messages c) \<and>
   (conv_messages c = s # rest \<and> msg_role s = System \<longrightarrow>
     conv_messages (conv_add m c) =
       s # drop (Suc (length (rest @ [m])) - max 1 (max_messages c)) (rest @ [m]))"
proof
  show "length (conv_messages (conv_add m c)) \<le> max 1 (max_messages c)"
    using trim_conv_length [of "max_messages c" "conv_messages c @ [m]"] by (simp add: conv_add_def)
qed (auto simp: conv_add_def trim_conv_system)

theorem conversation_trimmed_witness:
  "conv_messages (conv_add (user_msg ''b'') \<lparr>conv_messages = [system_msg ''s'', user_msg ''a''], max_messages = 2\<rparr>) =
     [system_msg ''s'', user_msg ''b'']"
  using conversation_trimmed [of "user_msg ''b''"
      "\<lparr>conv_messages = [system_msg ''s'', user_msg ''a''], max_messages = 2\<rparr>" "system_msg ''s''" "[user_msg ''a'']"]
  by (simp add: system_msg_def)

end
