(* ===== verification/Undo.thy ===== *)
theory Undo
  imports Llm_Messages
begin

text \<open>
  \<open>src/agent/undo.rs\<close>: checkpoints and the undo and redo stacks of a thread. The back of the
  \<open>VecDeque\<close> and the end of the \<open>Vec\<close> are the ends of the lists.
\<close>

record checkpoint =
  cp_id :: uuid
  cp_turn_number :: nat
  cp_messages :: "chat_message list"
  cp_description :: string

record undo_manager =
  undo_stack :: "checkpoint list"
  redo_stack :: "checkpoint list"
  max_checkpoints :: nat

definition default_max_checkpoints :: nat where
  "default_max_checkpoints = 20"

definition new_undo_manager :: undo_manager where
  "new_undo_manager = \<lparr>undo_stack = [], redo_stack = [], max_checkpoints = default_max_checkpoints\<rparr>"

text \<open>\<open>while len > max { pop_front }\<close>.\<close>

fun trim_front :: "nat \<Rightarrow> 'a list \<Rightarrow> 'a list" where
  "trim_front mx [] = []"
| "trim_front mx (x # xs) = (if length (x # xs) > mx then trim_front mx xs else x # xs)"

definition push_undo :: "checkpoint \<Rightarrow> undo_manager \<Rightarrow> undo_manager" where
  "push_undo c m = m\<lparr>undo_stack := trim_front (max_checkpoints m) (undo_stack m @ [c])\<rparr>"

definition add_checkpoint :: "uuid \<Rightarrow> nat \<Rightarrow> chat_message list \<Rightarrow> string \<Rightarrow> undo_manager \<Rightarrow> undo_manager" where
  "add_checkpoint i turn ms desc m =
     push_undo \<lparr>cp_id = i, cp_turn_number = turn, cp_messages = ms, cp_description = desc\<rparr>
       (m\<lparr>redo_stack := []\<rparr>)"

text \<open>\<open>turn_label n\<close> is \<open>format!("Turn {}", n)\<close>.\<close>

definition undo ::
  "(nat \<Rightarrow> string) \<Rightarrow> uuid \<Rightarrow> nat \<Rightarrow> chat_message list \<Rightarrow> undo_manager \<Rightarrow> checkpoint option \<times> undo_manager" where
  "undo turn_label i turn ms m =
     (if undo_stack m = [] then (None, m)
      else (Some (last (undo_stack m)),
            m\<lparr>redo_stack := redo_stack m @
                 [\<lparr>cp_id = i, cp_turn_number = turn, cp_messages = ms, cp_description = turn_label turn\<rparr>],
              undo_stack := butlast (undo_stack m)\<rparr>))"

text \<open>\<open>redo\<close> pushes onto the undo stack before it pops.\<close>

definition redo ::
  "(nat \<Rightarrow> string) \<Rightarrow> uuid \<Rightarrow> nat \<Rightarrow> chat_message list \<Rightarrow> undo_manager \<Rightarrow> checkpoint option \<times> undo_manager" where
  "redo turn_label i turn ms m =
     (if redo_stack m = [] then (None, m)
      else (Some (last (redo_stack m)),
            (push_undo \<lparr>cp_id = i, cp_turn_number = turn, cp_messages = ms, cp_description = turn_label turn\<rparr> m)
              \<lparr>redo_stack := butlast (redo_stack m)\<rparr>))"

definition can_undo :: "undo_manager \<Rightarrow> bool" where
  "can_undo m \<longleftrightarrow> undo_stack m \<noteq> []"

definition can_redo :: "undo_manager \<Rightarrow> bool" where
  "can_redo m \<longleftrightarrow> redo_stack m \<noteq> []"

definition undo_count :: "undo_manager \<Rightarrow> nat" where
  "undo_count m = length (undo_stack m)"

definition redo_count :: "undo_manager \<Rightarrow> nat" where
  "redo_count m = length (redo_stack m)"

definition clear_undo :: "undo_manager \<Rightarrow> undo_manager" where
  "clear_undo m = m\<lparr>undo_stack := [], redo_stack := []\<rparr>"

text \<open>\<open>restore\<close>: the first checkpoint with the id; what follows it and the redo stack are dropped.\<close>

fun position :: "('a \<Rightarrow> bool) \<Rightarrow> 'a list \<Rightarrow> nat option" where
  "position P [] = None"
| "position P (x # xs) = (if P x then Some 0 else map_option Suc (position P xs))"

definition restore :: "uuid \<Rightarrow> undo_manager \<Rightarrow> checkpoint option \<times> undo_manager" where
  "restore i m =
     (case position (\<lambda>c. cp_id c = i) (undo_stack m) of
        None \<Rightarrow> (None, m)
      | Some pos \<Rightarrow>
          (let stack = take (pos + 1) (undo_stack m)
           in (Some (last stack), m\<lparr>redo_stack := [], undo_stack := butlast stack\<rparr>)))"

section \<open>Steps and invariant\<close>

inductive undo_step :: "undo_manager \<Rightarrow> undo_manager \<Rightarrow> bool" where
  us_checkpoint: "undo_step m (add_checkpoint i t ms d m)"
| us_undo: "undo_step m (snd (undo lbl i t ms m))"
| us_redo: "undo_step m (snd (redo lbl i t ms m))"
| us_clear: "undo_step m (clear_undo m)"
| us_restore: "undo_step m (snd (restore i m))"

definition undo_ok :: "undo_manager \<Rightarrow> bool" where
  "undo_ok m \<longleftrightarrow> undo_count m + redo_count m \<le> max_checkpoints m"

lemma trim_front_drop: "trim_front mx xs = drop (length xs - mx) xs"
proof (induction xs)
  case (Cons x xs)
  then show ?case by (cases "mx \<le> length xs") (auto simp: Suc_diff_le)
qed simp

lemma push_undo_room:
  "undo_count m < max_checkpoints m \<Longrightarrow> push_undo c m = m\<lparr>undo_stack := undo_stack m @ [c]\<rparr>"
  by (simp add: push_undo_def trim_front_drop undo_count_def)

lemma position_Some: "position P xs = Some n \<Longrightarrow> n < length xs \<and> P (xs ! n) \<and> (\<forall>j < n. \<not> P (xs ! j))"
proof (induction xs arbitrary: n)
  case (Cons x xs)
  show ?case
  proof (cases "P x")
    case False
    then obtain k where "position P xs = Some k" "n = Suc k" using Cons.prems by auto
    then show ?thesis using Cons.IH False by (auto simp: less_Suc_eq_0_disj)
  qed (use Cons.prems in auto)
qed simp

lemma undo_ok_checkpoint: "undo_ok (add_checkpoint i t ms d m)"
  by (simp add: undo_ok_def add_checkpoint_def push_undo_def trim_front_drop undo_count_def redo_count_def)

lemma undo_total:
  "undo_count (snd (undo lbl i t ms m)) + redo_count (snd (undo lbl i t ms m)) = undo_count m + redo_count m"
  by (cases "undo_stack m" rule: rev_cases) (simp_all add: undo_def undo_count_def redo_count_def)

lemma redo_total:
  assumes "undo_ok m"
  shows "undo_count (snd (redo lbl i t ms m)) + redo_count (snd (redo lbl i t ms m)) = undo_count m + redo_count m"
proof (cases "redo_stack m" rule: rev_cases)
  case Nil
  then show ?thesis by (simp add: redo_def)
next
  case (snoc cs c)
  then have "undo_count m < max_checkpoints m" using assms by (simp add: undo_ok_def redo_count_def)
  then show ?thesis using snoc by (simp add: redo_def push_undo_room undo_count_def redo_count_def)
qed

lemma max_checkpoints_const:
  "max_checkpoints (snd (undo lbl i t ms m)) = max_checkpoints m"
  "max_checkpoints (snd (redo lbl i t ms m)) = max_checkpoints m"
  by (simp_all add: undo_def redo_def push_undo_def)

lemma undo_ok_restore: "undo_ok m \<Longrightarrow> undo_ok (snd (restore i m))"
  by (auto simp: restore_def undo_ok_def undo_count_def redo_count_def Let_def dest!: position_Some
      split: option.splits)

interpretation undo_mgr: steps_inv "\<lambda>m. m = new_undo_manager" undo_step undo_ok
proof
  fix m assume "m = new_undo_manager"
  then show "undo_ok m" by (simp add: new_undo_manager_def undo_ok_def undo_count_def redo_count_def)
next
  fix m m' assume ok: "undo_ok m" and "undo_step m m'"
  from this(2) show "undo_ok m'"
  proof cases
    case (us_undo lbl i t ms)
    then show ?thesis using ok undo_total [of lbl i t ms m] max_checkpoints_const by (simp add: undo_ok_def)
  next
    case (us_redo lbl i t ms)
    then show ?thesis using ok redo_total [OF ok, of lbl i t ms] max_checkpoints_const by (simp add: undo_ok_def)
  next
    case us_clear
    then show ?thesis by (simp add: clear_undo_def undo_ok_def undo_count_def redo_count_def)
  qed (use ok in \<open>auto intro: undo_ok_checkpoint undo_ok_restore\<close>)
qed

lemma checkpointed_reachable: "reach (\<lambda>m. m = new_undo_manager) undo_step (add_checkpoint i t ms d new_undo_manager)"
  by (rule reach_one [where s = new_undo_manager]) (simp, rule us_checkpoint)

section \<open>Properties\<close>

text \<open>in every state the manager reaches, undo and redo keep \<open>undo_count() + redo_count()\<close> constant, as
  its documentation says: a redo never has to trim the undo stack, because the two stacks together never
  exceed the checkpoint limit.\<close>

theorem undo_redo_total_constant:
  assumes "reach (\<lambda>m. m = new_undo_manager) undo_step m"
  shows "undo_count m + redo_count m \<le> max_checkpoints m \<and>
    undo_count (snd (undo lbl i t ms m)) + redo_count (snd (undo lbl i t ms m)) = undo_count m + redo_count m \<and>
    undo_count (snd (redo lbl i t ms m)) + redo_count (snd (redo lbl i t ms m)) = undo_count m + redo_count m"
proof -
  have ok: "undo_ok m" by (rule undo_mgr.reach_inv [OF assms])
  then show ?thesis using undo_total redo_total [OF ok] by (simp add: undo_ok_def)
qed

theorem undo_redo_total_constant_witness:
  "undo_count (add_checkpoint 1 1 [] ''x'' new_undo_manager) +
   redo_count (add_checkpoint 1 1 [] ''x'' new_undo_manager) \<le>
     max_checkpoints (add_checkpoint 1 1 [] ''x'' new_undo_manager)"
  using undo_redo_total_constant [OF checkpointed_reachable] by blast

text \<open>redo takes an undo back exactly. After an undo of the current state (\<open>ms\<close> at \<open>turn\<close>), a redo from
  the restored checkpoint returns \<open>turn\<close> and \<open>ms\<close>, and the manager's stacks hold the same messages as
  before the undo.\<close>

theorem redo_reverts_undo:
  assumes "reach (\<lambda>m. m = new_undo_manager) undo_step m"
    and "undo lbl i turn ms m = (Some c, m1)"
    and "redo lbl j (cp_turn_number c) (cp_messages c) m1 = (r, m2)"
  shows "\<exists>c'. r = Some c' \<and> cp_turn_number c' = turn \<and> cp_messages c' = ms \<and>
    map cp_messages (undo_stack m2) = map cp_messages (undo_stack m) \<and>
    map cp_turn_number (undo_stack m2) = map cp_turn_number (undo_stack m) \<and> redo_stack m2 = redo_stack m"
proof -
  obtain us where us: "undo_stack m = us @ [c]"
    using assms(2) by (cases "undo_stack m" rule: rev_cases) (auto simp: undo_def)
  have m1: "m1 = m\<lparr>redo_stack := redo_stack m @ [\<lparr>cp_id = i, cp_turn_number = turn, cp_messages = ms,
      cp_description = lbl turn\<rparr>], undo_stack := us\<rparr>"
    using assms(2) us by (auto simp: undo_def)
  have "undo_ok m" by (rule undo_mgr.reach_inv [OF assms(1)])
  then have "undo_count m1 < max_checkpoints m1" using us m1 by (simp add: undo_ok_def undo_count_def redo_count_def)
  from push_undo_room [OF this] show ?thesis using assms(3) us by (auto simp: redo_def m1)
qed

theorem redo_reverts_undo_witness:
  "\<exists>m2 c'. redo (\<lambda>_. ''T'') 3 6 [] (snd (undo (\<lambda>_. ''T'') 2 2 [user_msg ''hi'']
      (add_checkpoint 5 6 [] ''x'' new_undo_manager))) = (Some c', m2) \<and> cp_messages c' = [user_msg ''hi'']"
proof -
  let ?m = "add_checkpoint 5 6 [] ''x'' new_undo_manager"
  let ?c = "\<lparr>cp_id = 5, cp_turn_number = 6, cp_messages = [], cp_description = ''x''\<rparr>"
  have r: "reach (\<lambda>m. m = new_undo_manager) undo_step ?m"
    by (rule checkpointed_reachable)
  have s: "undo_stack ?m = [?c]"
    by (simp add: add_checkpoint_def push_undo_def new_undo_manager_def default_max_checkpoints_def)
  obtain m1 where u: "undo (\<lambda>_. ''T'') 2 2 [user_msg ''hi''] ?m = (Some ?c, m1)" by (simp add: undo_def s)
  obtain res m2 where rd: "redo (\<lambda>_. ''T'') 3 (cp_turn_number ?c) (cp_messages ?c) m1 = (res, m2)"
    by (cases "redo (\<lambda>_. ''T'') 3 (cp_turn_number ?c) (cp_messages ?c) m1")
  from redo_reverts_undo [OF r u rd] show ?thesis using rd u by auto
qed

text \<open>a checkpoint is never lost while there is room, and \<open>restore\<close> finds the oldest checkpoint with
  the id, keeps exactly the checkpoints before it and empties the redo stack.\<close>

theorem restore_behaviour:
  "(case restore i m of
      (None, m') \<Rightarrow> m' = m \<and> (\<forall>c \<in> set (undo_stack m). cp_id c \<noteq> i)
    | (Some c, m') \<Rightarrow> \<exists>pos < length (undo_stack m). c = undo_stack m ! pos \<and> cp_id c = i \<and>
        (\<forall>j < pos. cp_id (undo_stack m ! j) \<noteq> i) \<and> undo_stack m' = take pos (undo_stack m) \<and> redo_stack m' = [])"
proof -
  have none: "position P xs = None \<Longrightarrow> \<forall>x \<in> set xs. \<not> P x" for P and xs :: "checkpoint list"
    by (induction xs) (auto split: if_splits)
  show ?thesis
  proof (cases "position (\<lambda>c. cp_id c = i) (undo_stack m)")
    case None
    then show ?thesis using none [OF None] by (simp add: restore_def)
  next
    case (Some pos)
    from position_Some [OF this] have pos: "pos < length (undo_stack m)" by simp
    then have "take (pos + 1) (undo_stack m) = take pos (undo_stack m) @ [undo_stack m ! pos]"
      by (simp add: take_Suc_conv_app_nth)
    then show ?thesis using Some position_Some [OF Some] by (auto simp: restore_def)
  qed
qed

theorem restore_behaviour_witness: "fst (restore 9 new_undo_manager) = None"
proof -
  have "restore 9 new_undo_manager = (None, new_undo_manager)" by (simp add: restore_def new_undo_manager_def)
  then show ?thesis using restore_behaviour [of new_undo_manager 9] by simp
qed

end
