(* ===== verification/Session.thy ===== *)
theory Session
  imports Undo
begin

text \<open>
  \<open>src/agent/session.rs\<close> (turns, threads, sessions) and the thread commands of
  \<open>src/agent/thread_ops.rs\<close> (undo, redo, resume, interrupt, clear, switching, the approval gate and the
  compaction guard). The thread and turn states share constructor names in the source; the turn states
  carry a prefix here. Clock reads are the argument \<open>now\<close>.
\<close>

section \<open>Turns\<close>

datatype turn_state = TurnProcessing | TurnCompleted | TurnFailed | TurnInterrupted

record turn_tool_call =
  ttc_name :: string
  ttc_parameters :: json
  ttc_result :: "json option"
  ttc_error :: "string option"

record turn =
  turn_number :: nat
  user_input :: string
  turn_response :: "string option"
  turn_tool_calls :: "turn_tool_call list"
  turn_st :: turn_state
  turn_started_at :: instant
  turn_completed_at :: "instant option"
  turn_error :: "string option"

definition new_turn :: "instant \<Rightarrow> nat \<Rightarrow> string \<Rightarrow> turn" where
  "new_turn now n input =
     \<lparr>turn_number = n, user_input = input, turn_response = None, turn_tool_calls = [],
      turn_st = TurnProcessing, turn_started_at = now, turn_completed_at = None, turn_error = None\<rparr>"

definition complete_t :: "instant \<Rightarrow> string \<Rightarrow> turn \<Rightarrow> turn" where
  "complete_t now r t =
     t\<lparr>turn_response := Some r, turn_st := TurnCompleted, turn_completed_at := Some now\<rparr>"

definition fail_t :: "instant \<Rightarrow> string \<Rightarrow> turn \<Rightarrow> turn" where
  "fail_t now e t = t\<lparr>turn_error := Some e, turn_st := TurnFailed, turn_completed_at := Some now\<rparr>"

definition interrupt_t :: "instant \<Rightarrow> turn \<Rightarrow> turn" where
  "interrupt_t now t = t\<lparr>turn_st := TurnInterrupted, turn_completed_at := Some now\<rparr>"

text \<open>\<open>last_mut\<close>: update the last element, if there is one.\<close>

definition upd_last :: "('a \<Rightarrow> 'a) \<Rightarrow> 'a list \<Rightarrow> 'a list" where
  "upd_last f xs = (if xs = [] then [] else butlast xs @ [f (last xs)])"

definition record_tool_call :: "string \<Rightarrow> json \<Rightarrow> turn \<Rightarrow> turn" where
  "record_tool_call n ps t =
     t\<lparr>turn_tool_calls := turn_tool_calls t @
        [\<lparr>ttc_name = n, ttc_parameters = ps, ttc_result = None, ttc_error = None\<rparr>]\<rparr>"

definition record_tool_result :: "json \<Rightarrow> turn \<Rightarrow> turn" where
  "record_tool_result r t = t\<lparr>turn_tool_calls := upd_last (\<lambda>c. c\<lparr>ttc_result := Some r\<rparr>) (turn_tool_calls t)\<rparr>"

definition record_tool_error :: "string \<Rightarrow> turn \<Rightarrow> turn" where
  "record_tool_error e t = t\<lparr>turn_tool_calls := upd_last (\<lambda>c. c\<lparr>ttc_error := Some e\<rparr>) (turn_tool_calls t)\<rparr>"

section \<open>Threads\<close>

datatype thread_state = Idle | Processing | AwaitingApproval | ThreadCompleted | Interrupted

record pending_approval =
  pa_request_id :: uuid
  pa_tool_name :: string
  pa_parameters :: json
  pa_description :: string
  pa_tool_call_id :: string
  pa_context_messages :: "chat_message list"
  pa_deferred_tool_calls :: "tool_call list"

record thread =
  thread_id :: uuid
  thread_session_id :: uuid
  thread_st :: thread_state
  turns :: "turn list"
  thread_created_at :: instant
  updated_at :: instant
  thread_metadata :: json
  pending_appr :: "pending_approval option"
  pending_auth :: "string option"

definition thread_with_id :: "instant \<Rightarrow> uuid \<Rightarrow> uuid \<Rightarrow> thread" where
  "thread_with_id now i sid =
     \<lparr>thread_id = i, thread_session_id = sid, thread_st = Idle, turns = [], thread_created_at = now,
      updated_at = now, thread_metadata = ''null'', pending_appr = None, pending_auth = None\<rparr>"

definition current_turn :: "thread \<Rightarrow> nat" where
  "current_turn th = length (turns th) + 1"

definition start_turn :: "instant \<Rightarrow> string \<Rightarrow> thread \<Rightarrow> thread" where
  "start_turn now input th =
     th\<lparr>turns := turns th @ [new_turn now (length (turns th)) input], thread_st := Processing, updated_at := now\<rparr>"

definition complete_turn :: "instant \<Rightarrow> string \<Rightarrow> thread \<Rightarrow> thread" where
  "complete_turn now r th =
     th\<lparr>turns := upd_last (complete_t now r) (turns th), thread_st := Idle, updated_at := now\<rparr>"

definition fail_turn :: "instant \<Rightarrow> string \<Rightarrow> thread \<Rightarrow> thread" where
  "fail_turn now e th =
     th\<lparr>turns := upd_last (fail_t now e) (turns th), thread_st := Idle, updated_at := now\<rparr>"

definition await_approval :: "instant \<Rightarrow> pending_approval \<Rightarrow> thread \<Rightarrow> thread" where
  "await_approval now p th = th\<lparr>thread_st := AwaitingApproval, pending_appr := Some p, updated_at := now\<rparr>"

definition take_pending_approval :: "thread \<Rightarrow> pending_approval option \<times> thread" where
  "take_pending_approval th = (pending_appr th, th\<lparr>pending_appr := None\<rparr>)"

definition clear_pending_approval :: "instant \<Rightarrow> thread \<Rightarrow> thread" where
  "clear_pending_approval now th = th\<lparr>pending_appr := None, thread_st := Idle, updated_at := now\<rparr>"

definition enter_auth_mode :: "instant \<Rightarrow> string \<Rightarrow> thread \<Rightarrow> thread" where
  "enter_auth_mode now ext th = th\<lparr>pending_auth := Some ext, updated_at := now\<rparr>"

definition take_pending_auth :: "thread \<Rightarrow> string option \<times> thread" where
  "take_pending_auth th = (pending_auth th, th\<lparr>pending_auth := None\<rparr>)"

definition interrupt_thread :: "instant \<Rightarrow> thread \<Rightarrow> thread" where
  "interrupt_thread now th =
     th\<lparr>turns := upd_last (interrupt_t now) (turns th), thread_st := Interrupted, updated_at := now\<rparr>"

definition resume_thread :: "instant \<Rightarrow> thread \<Rightarrow> thread" where
  "resume_thread now th = (if thread_st th = Interrupted then th\<lparr>thread_st := Idle, updated_at := now\<rparr> else th)"

definition thread_messages :: "thread \<Rightarrow> chat_message list" where
  "thread_messages th = concat (map (\<lambda>t. user_msg (user_input t) #
     (case turn_response t of Some r \<Rightarrow> [assistant_msg r] | None \<Rightarrow> [])) (turns th))"

fun renumber :: "nat \<Rightarrow> turn list \<Rightarrow> turn list" where
  "renumber i [] = []"
| "renumber i (t # ts) = t\<lparr>turn_number := i\<rparr> # renumber (i + 1) ts"

definition truncate_turns :: "nat \<Rightarrow> thread \<Rightarrow> thread" where
  "truncate_turns keep th =
     (if length (turns th) > keep
      then th\<lparr>turns := renumber 0 (drop (length (turns th) - keep) (turns th))\<rparr> else th)"

text \<open>The loop of \<open>restore_from_messages\<close> over the peekable iterator.\<close>

fun rebuild_turns :: "instant \<Rightarrow> nat \<Rightarrow> chat_message list \<Rightarrow> turn list" where
  "rebuild_turns now n [] = []"
| "rebuild_turns now n (m # ms) =
     (if msg_role m = User
      then (case ms of
              [] \<Rightarrow> [new_turn now n (msg_content m)]
            | a # ms' \<Rightarrow>
                if msg_role a = Assistant
                then complete_t now (msg_content a) (new_turn now n (msg_content m)) # rebuild_turns now (n + 1) ms'
                else new_turn now n (msg_content m) # rebuild_turns now (n + 1) ms)
      else rebuild_turns now n ms)"

definition restore_from_messages :: "instant \<Rightarrow> chat_message list \<Rightarrow> thread \<Rightarrow> thread" where
  "restore_from_messages now ms th =
     th\<lparr>turns := rebuild_turns now 0 ms, thread_st := Idle, updated_at := now\<rparr>"

section \<open>Sessions\<close>

record session =
  session_id :: uuid
  session_user_id :: string
  active_thread :: "uuid option"
  threads :: "(uuid, thread) hashmap"
  session_created_at :: instant
  last_active_at :: instant
  session_metadata :: json
  auto_approved_tools :: "string set"

definition new_session :: "uuid \<Rightarrow> instant \<Rightarrow> string \<Rightarrow> session" where
  "new_session i now u =
     \<lparr>session_id = i, session_user_id = u, active_thread = None, threads = [], session_created_at = now,
      last_active_at = now, session_metadata = ''null'', auto_approved_tools = {}\<rparr>"

definition is_tool_auto_approved :: "string \<Rightarrow> session \<Rightarrow> bool" where
  "is_tool_auto_approved t s \<longleftrightarrow> t \<in> auto_approved_tools s"

definition auto_approve_tool :: "string \<Rightarrow> session \<Rightarrow> session" where
  "auto_approve_tool t s = s\<lparr>auto_approved_tools := insert t (auto_approved_tools s)\<rparr>"

text \<open>\<open>entry(id).or_insert(thread)\<close> keeps an entry that exists.\<close>

definition create_thread :: "uuid \<Rightarrow> instant \<Rightarrow> session \<Rightarrow> uuid \<times> session" where
  "create_thread i now s =
     (i, s\<lparr>active_thread := Some i, last_active_at := now,
           threads := (case hm_get (threads s) i of
                         Some _ \<Rightarrow> threads s
                       | None \<Rightarrow> hm_insert i (thread_with_id now i (session_id s)) (threads s))\<rparr>)"

definition get_active_thread :: "session \<Rightarrow> thread option" where
  "get_active_thread s = Option.bind (active_thread s) (hm_get (threads s))"

definition get_or_create_thread :: "uuid \<Rightarrow> instant \<Rightarrow> session \<Rightarrow> uuid \<times> session" where
  "get_or_create_thread new_id now s =
     (case active_thread s of
        None \<Rightarrow> create_thread new_id now s
      | Some i \<Rightarrow> (if hm_get (threads s) i \<noteq> None then (i, s) else create_thread new_id now s))"

definition switch_thread :: "uuid \<Rightarrow> instant \<Rightarrow> session \<Rightarrow> bool \<times> session" where
  "switch_thread i now s =
     (if hm_get (threads s) i \<noteq> None then (True, s\<lparr>active_thread := Some i, last_active_at := now\<rparr>)
      else (False, s))"

section \<open>Thread commands\<close>

text \<open>A command works on the session and the thread's undo manager. \<open>Inl\<close> is \<open>JobError::NotFound\<close>.\<close>

record agent_state =
  ag_session :: session
  ag_undo :: undo_manager

datatype submission_result = OkMessage string | ErrMessage string

definition put_thread :: "thread \<Rightarrow> uuid \<Rightarrow> session \<Rightarrow> session" where
  "put_thread th i s = s\<lparr>threads := hm_insert i th (threads s)\<rparr>"

definition process_undo ::
  "(nat \<Rightarrow> string) \<Rightarrow> (nat \<Rightarrow> nat \<Rightarrow> string) \<Rightarrow> uuid \<Rightarrow> instant \<Rightarrow> uuid \<Rightarrow> agent_state \<Rightarrow>
   (uuid + submission_result) \<times> agent_state" where
  "process_undo lbl msg new_id now i s =
     (case hm_get (threads (ag_session s)) i of
        None \<Rightarrow> (Inl i, s)
      | Some th \<Rightarrow>
          (if \<not> can_undo (ag_undo s) then (Inr (OkMessage ''Nothing to undo.''), s)
           else (case undo lbl new_id (current_turn th) (thread_messages th) (ag_undo s) of
                   (None, m) \<Rightarrow> (Inr (ErrMessage ''Undo failed.''), s\<lparr>ag_undo := m\<rparr>)
                 | (Some c, m) \<Rightarrow>
                     (Inr (OkMessage (msg (cp_turn_number c) (undo_count m))),
                      s\<lparr>ag_undo := m,
                        ag_session := put_thread (restore_from_messages now (cp_messages c) th) i (ag_session s)\<rparr>))))"

definition process_redo ::
  "(nat \<Rightarrow> string) \<Rightarrow> (nat \<Rightarrow> string) \<Rightarrow> uuid \<Rightarrow> instant \<Rightarrow> uuid \<Rightarrow> agent_state \<Rightarrow>
   (uuid + submission_result) \<times> agent_state" where
  "process_redo lbl msg new_id now i s =
     (case hm_get (threads (ag_session s)) i of
        None \<Rightarrow> (Inl i, s)
      | Some th \<Rightarrow>
          (if \<not> can_redo (ag_undo s) then (Inr (OkMessage ''Nothing to redo.''), s)
           else (case redo lbl new_id (current_turn th) (thread_messages th) (ag_undo s) of
                   (None, m) \<Rightarrow> (Inr (ErrMessage ''Redo failed.''), s\<lparr>ag_undo := m\<rparr>)
                 | (Some c, m) \<Rightarrow>
                     (Inr (OkMessage (msg (cp_turn_number c))),
                      s\<lparr>ag_undo := m,
                        ag_session := put_thread (restore_from_messages now (cp_messages c) th) i (ag_session s)\<rparr>))))"

definition process_resume ::
  "(string \<Rightarrow> string) \<Rightarrow> uuid \<Rightarrow> instant \<Rightarrow> uuid \<Rightarrow> agent_state \<Rightarrow>
   (uuid + submission_result) \<times> agent_state" where
  "process_resume msg cp now i s =
     (case hm_get (threads (ag_session s)) i of
        None \<Rightarrow> (Inl i, s)
      | Some th \<Rightarrow>
          (case restore cp (ag_undo s) of
             (None, m) \<Rightarrow> (Inr (ErrMessage ''Checkpoint not found.''), s\<lparr>ag_undo := m\<rparr>)
           | (Some c, m) \<Rightarrow>
               (Inr (OkMessage (msg (cp_description c))),
                s\<lparr>ag_undo := m,
                  ag_session := put_thread (restore_from_messages now (cp_messages c) th) i (ag_session s)\<rparr>)))"

definition process_interrupt :: "instant \<Rightarrow> uuid \<Rightarrow> agent_state \<Rightarrow> (uuid + submission_result) \<times> agent_state" where
  "process_interrupt now i s =
     (case hm_get (threads (ag_session s)) i of
        None \<Rightarrow> (Inl i, s)
      | Some th \<Rightarrow>
          (if thread_st th \<in> {Processing, AwaitingApproval}
           then (Inr (OkMessage ''Interrupted.''),
                 s\<lparr>ag_session := put_thread (interrupt_thread now th) i (ag_session s)\<rparr>)
           else (Inr (OkMessage ''Nothing to interrupt.''), s)))"

definition process_clear :: "uuid \<Rightarrow> agent_state \<Rightarrow> (uuid + submission_result) \<times> agent_state" where
  "process_clear i s =
     (case hm_get (threads (ag_session s)) i of
        None \<Rightarrow> (Inl i, s)
      | Some th \<Rightarrow>
          (Inr (OkMessage ''Thread cleared.''),
           s\<lparr>ag_session := put_thread (th\<lparr>turns := [], thread_st := Idle\<rparr>) i (ag_session s),
             ag_undo := clear_undo (ag_undo s)\<rparr>))"

text \<open>The part of \<open>process_user_input\<close> that changes the thread: the state gate, the checkpoint taken before
  the turn, and the start of the turn.\<close>

definition input_gate :: "thread_state \<Rightarrow> string option" where
  "input_gate st =
     (case st of
        Processing \<Rightarrow> Some ''Turn in progress. Use /interrupt to cancel.''
      | AwaitingApproval \<Rightarrow> Some ''Waiting for approval. Use /interrupt to cancel.''
      | ThreadCompleted \<Rightarrow> Some ''Thread completed. Use /thread new.''
      | Idle \<Rightarrow> None
      | Interrupted \<Rightarrow> None)"

definition begin_turn ::
  "(nat \<Rightarrow> string) \<Rightarrow> uuid \<Rightarrow> instant \<Rightarrow> string \<Rightarrow> uuid \<Rightarrow> agent_state \<Rightarrow>
   (uuid + submission_result) \<times> agent_state" where
  "begin_turn before_label new_id now content i s =
     (case hm_get (threads (ag_session s)) i of
        None \<Rightarrow> (Inl i, s)
      | Some th \<Rightarrow>
          (case input_gate (thread_st th) of
             Some reason \<Rightarrow> (Inr (ErrMessage reason), s)
           | None \<Rightarrow>
               (Inr (OkMessage []),
                s\<lparr>ag_undo := add_checkpoint new_id (current_turn th) (thread_messages th)
                                (before_label (current_turn th)) (ag_undo s),
                  ag_session := put_thread (start_turn now content th) i (ag_session s)\<rparr>)))"

text \<open>The gate of \<open>process_approval\<close>: take the pending request, check the request id and put the request
  back on a mismatch. When approved, record an always-approval unless the legal policy forces approval
  (\<open>legal_forced\<close>) and set the thread to processing; \<open>Inr (Inr p)\<close> is then the request to execute. When
  rejected, complete the turn with the rejection text. The execution of the tool and the continuation of
  the agentic loop that follow an approval are not part of this definition.\<close>

definition approval_gate ::
  "(string \<Rightarrow> bool) \<Rightarrow> instant \<Rightarrow> uuid option \<Rightarrow> bool \<Rightarrow> bool \<Rightarrow> uuid \<Rightarrow> session \<Rightarrow>
   (uuid + (submission_result + pending_approval)) \<times> session" where
  "approval_gate legal_forced now request_id approved always i s =
     (case hm_get (threads s) i of
        None \<Rightarrow> (Inl i, s)
      | Some th \<Rightarrow>
          (if thread_st th \<noteq> AwaitingApproval
           then (Inr (Inl (ErrMessage ''No pending approval request.'')), s)
           else (case take_pending_approval th of
                   (None, th1) \<Rightarrow>
                     (Inr (Inl (ErrMessage ''No pending approval request.'')), put_thread th1 i s)
                 | (Some p, th1) \<Rightarrow>
                     (if (case request_id of Some r \<Rightarrow> r \<noteq> pa_request_id p | None \<Rightarrow> False)
                      then (Inr (Inl (ErrMessage ''Request ID mismatch. Use the correct request ID.'')),
                            put_thread (await_approval now p th1) i s)
                      else if approved
                      then
                        let s1 = put_thread th1 i s;
                            s2 = (if always \<and> \<not> legal_forced (pa_tool_name p)
                                  then auto_approve_tool (pa_tool_name p) s1 else s1)
                        in (Inr (Inr p), put_thread (th1\<lparr>thread_st := Processing\<rparr>) i s2)
                      else
                        let rejection = ''Tool '' @ [CHR 0x27] @ pa_tool_name p @ [CHR 0x27] @
                              '' was rejected. The agent will not execute this tool.'' @ [CHR 0x0A, CHR 0x0A] @
                              ''You can continue the conversation or try a different approach.''
                        in (Inr (Inl (OkMessage rejection)),
                            put_thread (complete_turn now rejection (clear_pending_approval now th1)) i s)))))"

text \<open>The compaction guard.\<close>

record compaction_snapshot =
  snap_updated_at :: instant
  snap_turn_count :: nat
  snap_state :: thread_state

definition capture :: "thread \<Rightarrow> compaction_snapshot" where
  "capture th = \<lparr>snap_updated_at = updated_at th, snap_turn_count = length (turns th), snap_state = thread_st th\<rparr>"

definition can_apply_compaction_update :: "thread \<Rightarrow> compaction_snapshot \<Rightarrow> bool" where
  "can_apply_compaction_update th snap \<longleftrightarrow>
     updated_at th = snap_updated_at snap \<and> length (turns th) = snap_turn_count snap \<and> thread_st th = snap_state snap"

definition apply_compaction_if_unchanged :: "thread \<Rightarrow> compaction_snapshot \<Rightarrow> thread \<Rightarrow> bool \<times> thread" where
  "apply_compaction_if_unchanged th snap compacted =
     (if can_apply_compaction_update th snap then (True, compacted) else (False, th))"

section \<open>Lemmas\<close>

definition numbered :: "turn list \<Rightarrow> bool" where
  "numbered ts \<longleftrightarrow> map turn_number ts = [0..<length ts]"

definition turn_msgs :: "turn \<Rightarrow> chat_message list" where
  "turn_msgs t = user_msg (user_input t) # (case turn_response t of Some r \<Rightarrow> [assistant_msg r] | None \<Rightarrow> [])"

lemma thread_messages_turn_msgs: "thread_messages th = concat (map turn_msgs (turns th))"
  by (simp add: thread_messages_def turn_msgs_def [abs_def])

lemma roles [simp]:
  "msg_role (user_msg c) = User" "msg_content (user_msg c) = c"
  "msg_role (assistant_msg c) = Assistant" "msg_content (assistant_msg c) = c"
  by (simp_all add: user_msg_def assistant_msg_def)

lemma turn_msgs_new [simp]: "turn_msgs (new_turn now n u) = [user_msg u]"
  "turn_msgs (complete_t now r (new_turn now n u)) = [user_msg u, assistant_msg r]"
  by (simp_all add: turn_msgs_def new_turn_def complete_t_def)

lemma rebuild_not_assistant:
  "ms = [] \<or> msg_role (hd ms) \<noteq> Assistant \<Longrightarrow> msg_role m = User \<Longrightarrow>
   rebuild_turns now n (m # ms) = new_turn now n (msg_content m) # rebuild_turns now (n + 1) ms"
  by (cases ms) auto

text \<open>Rebuilding the turns from their own messages gives turns with the same messages.\<close>

lemma rebuild_turns_msgs:
  "concat (map turn_msgs (rebuild_turns now n (concat (map turn_msgs ts)))) = concat (map turn_msgs ts)"
proof (induction ts arbitrary: n)
  case (Cons t ts)
  have head: "concat (map turn_msgs ts) = [] \<or> msg_role (hd (concat (map turn_msgs ts))) \<noteq> Assistant"
    by (cases ts) (auto simp: turn_msgs_def)
  show ?case
  proof (cases "turn_response t")
    case None
    then show ?thesis using Cons rebuild_not_assistant [OF head, of "user_msg (user_input t)"]
      by (simp add: turn_msgs_def [of t])
  next
    case (Some r)
    then show ?thesis using Cons by (simp add: turn_msgs_def [of t])
  qed
qed simp

lemma new_turn_number [simp]: "turn_number (new_turn now n u) = n" "turn_number (complete_t now r t) = turn_number t"
  by (simp_all add: new_turn_def complete_t_def)

lemma rebuild_turns_numbers: "map turn_number (rebuild_turns now n ms) = [n..<n + length (rebuild_turns now n ms)]"
proof (induction now n ms rule: rebuild_turns.induct)
  case (2 now n m ms)
  then show ?case by (cases ms) (auto simp: upt_conv_Cons)
qed simp

lemma renumber_numbers: "map turn_number (renumber n ts) = [n..<n + length ts]"
  by (induction ts arbitrary: n) (auto simp: upt_conv_Cons simp del: upt_Suc)

lemma length_renumber [simp]: "length (renumber n ts) = length ts"
  by (induction ts arbitrary: n) auto

lemma map_upd_last: "(\<And>x. g (f x) = g x) \<Longrightarrow> map g (upd_last f xs) = map g xs"
  by (cases xs rule: rev_cases) (simp_all add: upd_last_def)

lemma length_upd_last [simp]: "length (upd_last f xs) = length xs"
  by (cases xs rule: rev_cases) (simp_all add: upd_last_def)

lemma numbered_upd_last: "(\<And>t. turn_number (f t) = turn_number t) \<Longrightarrow> numbered ts \<Longrightarrow> numbered (upd_last f ts)"
  by (simp add: numbered_def map_upd_last)

lemmas thread_op_defs = start_turn_def complete_turn_def fail_turn_def await_approval_def
  clear_pending_approval_def interrupt_thread_def resume_thread_def truncate_turns_def
  restore_from_messages_def enter_auth_mode_def

inductive thread_step :: "thread \<Rightarrow> thread \<Rightarrow> bool" where
  ts_start: "thread_step th (start_turn now c th)"
| ts_complete: "thread_step th (complete_turn now r th)"
| ts_fail: "thread_step th (fail_turn now e th)"
| ts_await: "thread_step th (await_approval now p th)"
| ts_take: "thread_step th (snd (take_pending_approval th))"
| ts_clear_pending: "thread_step th (clear_pending_approval now th)"
| ts_interrupt: "thread_step th (interrupt_thread now th)"
| ts_resume: "thread_step th (resume_thread now th)"
| ts_truncate: "thread_step th (truncate_turns keep th)"
| ts_restore: "thread_step th (restore_from_messages now ms th)"
| ts_clear: "thread_step th (th\<lparr>turns := [], thread_st := Idle\<rparr>)"

interpretation thread: steps_inv "\<lambda>th. \<exists>now i sid. th = thread_with_id now i sid" thread_step
  "\<lambda>th. numbered (turns th)"
proof
  fix th assume "\<exists>now i sid. th = thread_with_id now i sid"
  then show "numbered (turns th)" by (auto simp: thread_with_id_def numbered_def)
next
  fix th th' assume n: "numbered (turns th)" and "thread_step th th'"
  from this(2) show "numbered (turns th')"
  proof cases
    case (ts_start now c)
    then show ?thesis using n by (simp add: start_turn_def numbered_def)
  next
    case (ts_truncate keep)
    then show ?thesis using n by (simp add: truncate_turns_def numbered_def renumber_numbers)
  next
    case (ts_restore now ms)
    then show ?thesis using rebuild_turns_numbers [of now 0 ms] by (simp add: restore_from_messages_def numbered_def)
  next
    case ts_clear
    then show ?thesis by (simp add: numbered_def)
  qed (use n in \<open>auto simp: thread_op_defs take_pending_approval_def fail_t_def interrupt_t_def
        intro: numbered_upd_last\<close>)
qed

lemma put_thread_get: "hm_get (threads (put_thread th i s)) j = (if j = i then Some th else hm_get (threads s) j)"
  by (simp add: put_thread_def hm_get_insert)

lemma restore_messages_of_thread:
  "thread_messages (restore_from_messages now (thread_messages th) th') = thread_messages th"
  by (simp add: thread_messages_turn_msgs restore_from_messages_def rebuild_turns_msgs)

section \<open>Properties\<close>

text \<open>rebuilding a thread from the messages of a thread loses none of them, and the turns of every
  thread, whatever operations it went through, are numbered by their position.\<close>

theorem restore_roundtrip:
  assumes "reach (\<lambda>th. \<exists>now i sid. th = thread_with_id now i sid) thread_step th"
  shows "thread_messages (restore_from_messages now (thread_messages th) th') = thread_messages th \<and>
    (\<forall>k < length (turns th). turn_number (turns th ! k) = k)"
proof -
  have "map turn_number (turns th) = [0..<length (turns th)]"
    using thread.reach_inv [OF assms] by (simp add: numbered_def)
  then have "\<forall>k < length (turns th). turn_number (turns th ! k) = k"
    by (metis add_0 length_upt minus_nat.diff_0 nth_map nth_upt)
  then show ?thesis using restore_messages_of_thread by blast
qed

theorem restore_roundtrip_witness:
  "turn_number (turns (start_turn 0 ''hi'' (thread_with_id 0 1 2)) ! 0) = 0"
proof -
  have "reach (\<lambda>th. \<exists>now i sid. th = thread_with_id now i sid) thread_step (start_turn 0 ''hi'' (thread_with_id 0 1 2))"
    by (rule reach_one [where s = "thread_with_id 0 1 2"]) (blast, rule ts_start)
  from restore_roundtrip [OF this] show ?thesis by (simp add: start_turn_def thread_with_id_def)
qed

text \<open>a turn can be taken back. When the thread accepts input, begins a turn and that turn (or any
  number of operations on the thread that leave the undo manager alone) leads to \<open>th2\<close>, an undo restores exactly the
  messages from before the turn, and a redo after it brings the messages of \<open>th2\<close> back.\<close>

theorem undo_redo_turn:
  assumes "0 < max_checkpoints (ag_undo s)"
    and "hm_get (threads (ag_session s)) i = Some th" and "input_gate (thread_st th) = None"
    and "begin_turn bl id1 t1 content i s = (r1, s1)"
    and "s2 = s1\<lparr>ag_session := put_thread th2 i (ag_session s1)\<rparr>"
    and "process_undo lbl umsg id2 t2 i s2 = (r3, s3)" and "process_redo lbl rmsg id3 t3 i s3 = (r4, s4)"
  shows "\<exists>th3 th4. hm_get (threads (ag_session s3)) i = Some th3 \<and> thread_messages th3 = thread_messages th \<and>
    hm_get (threads (ag_session s4)) i = Some th4 \<and> thread_messages th4 = thread_messages th2"
proof -
  let ?c = "\<lparr>cp_id = id1, cp_turn_number = current_turn th, cp_messages = thread_messages th,
      cp_description = bl (current_turn th)\<rparr>"
  let ?m = "add_checkpoint id1 (current_turn th) (thread_messages th) (bl (current_turn th)) (ag_undo s)"
  have s1: "s1 = s\<lparr>ag_undo := ?m, ag_session := put_thread (start_turn t1 content th) i (ag_session s)\<rparr>"
    using assms(2-4) by (auto simp: begin_turn_def)
  obtain us where us: "undo_stack ?m = us @ [?c]" "redo_stack ?m = []"
    using assms(1) by (auto simp: add_checkpoint_def push_undo_def trim_front_drop)
  let ?d = "\<lparr>cp_id = id2, cp_turn_number = current_turn th2, cp_messages = thread_messages th2,
      cp_description = lbl (current_turn th2)\<rparr>"
  let ?th3 = "restore_from_messages t2 (thread_messages th) th2"
  have s3: "s3 = s2\<lparr>ag_undo := ?m\<lparr>redo_stack := [?d], undo_stack := us\<rparr>,
      ag_session := put_thread ?th3 i (ag_session s2)\<rparr>"
    using assms(6) us by (auto simp: process_undo_def assms(5) s1 put_thread_get can_undo_def undo_def)
  let ?th4 = "restore_from_messages t3 (thread_messages th2) ?th3"
  have "hm_get (threads (ag_session s4)) i = Some ?th4"
    using assms(7) by (auto simp: process_redo_def s3 put_thread_get can_redo_def redo_def)
  moreover have "hm_get (threads (ag_session s3)) i = Some ?th3" by (simp add: s3 put_thread_get)
  ultimately show ?thesis using restore_messages_of_thread by blast
qed

theorem undo_redo_turn_witness:
  "\<exists>s3. snd (process_undo (\<lambda>_. ''T'') (\<lambda>_ _. ''m'') 8 0 1 (snd (begin_turn (\<lambda>_. ''B'') 7 0 ''hi'' 1
      \<lparr>ag_session = (new_session 2 0 ''u'')\<lparr>threads := [(1, thread_with_id 0 1 2)]\<rparr>, ag_undo = new_undo_manager\<rparr>))) = s3 \<and>
    (\<exists>th3. hm_get (threads (ag_session s3)) 1 = Some th3 \<and> thread_messages th3 = [])"
proof -
  let ?s = "\<lparr>ag_session = (new_session 2 0 ''u'')\<lparr>threads := [(1, thread_with_id 0 1 2)]\<rparr>, ag_undo = new_undo_manager\<rparr>"
  let ?th = "thread_with_id 0 1 2"
  let ?th2 = "start_turn 0 ''hi'' ?th"
  obtain r1 s1 where b: "begin_turn (\<lambda>_. ''B'') 7 0 ''hi'' 1 ?s = (r1, s1)"
    by (cases "begin_turn (\<lambda>_. ''B'') 7 0 ''hi'' 1 ?s")
  then have s1: "s1 = s1\<lparr>ag_session := put_thread ?th2 1 (ag_session s1)\<rparr>"
    by (auto simp: begin_turn_def input_gate_def thread_with_id_def put_thread_def hm_insert_def)
  obtain r3 s3 where u: "process_undo (\<lambda>_. ''T'') (\<lambda>_ _. ''m'') 8 0 1 s1 = (r3, s3)"
    by (cases "process_undo (\<lambda>_. ''T'') (\<lambda>_ _. ''m'') 8 0 1 s1")
  obtain r4 s4 where d: "process_redo (\<lambda>_. ''T'') (\<lambda>_. ''m'') 9 0 1 s3 = (r4, s4)"
    by (cases "process_redo (\<lambda>_. ''T'') (\<lambda>_. ''m'') 9 0 1 s3")
  have "0 < max_checkpoints (ag_undo ?s)" by (simp add: new_undo_manager_def default_max_checkpoints_def)
  moreover have "hm_get (threads (ag_session ?s)) 1 = Some ?th" by simp
  moreover have "input_gate (thread_st ?th) = None" by (simp add: input_gate_def thread_with_id_def)
  ultimately have "\<exists>th3. hm_get (threads (ag_session s3)) 1 = Some th3 \<and> thread_messages th3 = thread_messages ?th"
    using undo_redo_turn [OF _ _ _ b s1 u d] by blast
  then show ?thesis using b u by (simp add: thread_messages_def thread_with_id_def)
qed

text \<open>C27: the approval gate. A tool request leaves it for execution only when the thread was awaiting
  approval, the answer approves it and an answer that names a request names this one; then the thread is
  processing with no request left, so a second answer is refused. The set of always-approved tools only
  grows, by the request's own tool, on such an approval with \<open>always\<close>, and never by a tool for which the
  legal policy forces approval.\<close>

theorem approval_gate_sound:
  assumes "approval_gate forced now rid approved always i s = (r, s')"
  shows "(\<forall>p. r = Inr (Inr p) \<longrightarrow>
      (\<exists>th th'. hm_get (threads s) i = Some th \<and> thread_st th = AwaitingApproval \<and> pending_appr th = Some p \<and>
        approved \<and> (rid = None \<or> rid = Some (pa_request_id p)) \<and>
        hm_get (threads s') i = Some th' \<and> thread_st th' = Processing \<and> pending_appr th' = None \<and>
        (\<forall>now2 rid2 ap2 al2. fst (approval_gate forced now2 rid2 ap2 al2 i s') =
           Inr (Inl (ErrMessage ''No pending approval request.''))))) \<and>
    (auto_approved_tools s' = auto_approved_tools s \<or>
     (\<exists>p. r = Inr (Inr p) \<and> always \<and> \<not> forced (pa_tool_name p) \<and>
        auto_approved_tools s' = insert (pa_tool_name p) (auto_approved_tools s)))"
  using assms
  by (auto simp: approval_gate_def take_pending_approval_def put_thread_def auto_approve_tool_def
      hm_get_insert Let_def split: option.splits if_splits)

theorem approval_gate_sound_witness:
  "fst (approval_gate (\<lambda>_. True) 0 (Some 4) True True 1
      ((new_session 2 0 ''u'')\<lparr>threads := [(1, thread_with_id 0 1 2)]\<rparr>)) \<noteq>
    Inr (Inr \<lparr>pa_request_id = 4, pa_tool_name = ''shell'', pa_parameters = [], pa_description = [],
       pa_tool_call_id = [], pa_context_messages = [], pa_deferred_tool_calls = []\<rparr>)"
proof
  let ?s = "(new_session 2 0 ''u'')\<lparr>threads := [(1, thread_with_id 0 1 2)]\<rparr>"
  let ?p = "\<lparr>pa_request_id = 4, pa_tool_name = ''shell'', pa_parameters = [], pa_description = [],
       pa_tool_call_id = [], pa_context_messages = [], pa_deferred_tool_calls = []\<rparr>"
  assume a: "fst (approval_gate (\<lambda>_. True) 0 (Some 4) True True 1 ?s) = Inr (Inr ?p)"
  obtain s' where "approval_gate (\<lambda>_. True) 0 (Some 4) True True 1 ?s = (Inr (Inr ?p), s')"
    using a by (cases "approval_gate (\<lambda>_. True) 0 (Some 4) True True 1 ?s") auto
  from approval_gate_sound [OF this] show False by (auto simp: thread_with_id_def)
qed

text \<open>compaction never overwrites newer work: when any turn operation ran on the thread after the
  snapshot was taken, with a clock that has moved on, the compacted copy is not installed and the thread
  is left as it is.\<close>

theorem compaction_guard:
  assumes "th' \<in> {start_turn now c th, complete_turn now c th, fail_turn now c th, await_approval now p th,
      clear_pending_approval now th, interrupt_thread now th, restore_from_messages now ms th}"
    and "now \<noteq> updated_at th"
  shows "apply_compaction_if_unchanged th' (capture th) compacted = (False, th')"
  using assms by (auto simp: apply_compaction_if_unchanged_def can_apply_compaction_update_def capture_def
      thread_op_defs)

theorem compaction_guard_witness:
  "apply_compaction_if_unchanged (start_turn 5 ''hi'' (thread_with_id 0 1 2)) (capture (thread_with_id 0 1 2))
     (thread_with_id 0 1 2) = (False, start_turn 5 ''hi'' (thread_with_id 0 1 2))"
  by (rule compaction_guard [where now = 5 and c = "''hi''" and p = undefined and ms = "[]"])
    (simp_all add: thread_with_id_def)

section \<open>The active thread\<close>

inductive session_step :: "session \<Rightarrow> session \<Rightarrow> bool" where
  ss_create: "session_step s (snd (create_thread i now s))"
| ss_get_or_create: "session_step s (snd (get_or_create_thread i now s))"
| ss_switch: "session_step s (snd (switch_thread i now s))"
| ss_approve: "session_step s (auto_approve_tool t s)"
| ss_thread: "hm_get (threads s) i = Some th \<Longrightarrow> thread_step th th' \<Longrightarrow> session_step s (put_thread th' i s)"

definition active_exists :: "session \<Rightarrow> bool" where
  "active_exists s \<longleftrightarrow> (\<forall>i. active_thread s = Some i \<longrightarrow> hm_get (threads s) i \<noteq> None)"

lemma active_exists_create: "active_exists (snd (create_thread i now s))"
  by (auto simp: active_exists_def create_thread_def hm_get_insert split: option.splits)

interpretation sess: steps_inv "\<lambda>s. \<exists>i now u. s = new_session i now u" session_step active_exists
proof
  fix s assume "\<exists>i now u. s = new_session i now u"
  then show "active_exists s" by (auto simp: active_exists_def new_session_def)
next
  fix s s' assume ok: "active_exists s" and "session_step s s'"
  from this(2) show "active_exists s'"
  proof cases
    case (ss_get_or_create i now)
    then show ?thesis using ok active_exists_create
      by (auto simp: get_or_create_thread_def split: option.splits)
  next
    case (ss_thread i th th')
    then show ?thesis using ok by (auto simp: active_exists_def put_thread_get) (simp add: put_thread_def)
  qed (use ok active_exists_create in
      \<open>auto simp: active_exists_def switch_thread_def auto_approve_tool_def split: if_splits\<close>)
qed

text \<open>in every session that is reached the active thread exists, so \<open>get_or_create_thread\<close> returns it
  unchanged when one is set; switching succeeds exactly for threads of the session and changes nothing
  otherwise.\<close>

theorem active_thread_exists:
  assumes "reach (\<lambda>s. \<exists>i now u. s = new_session i now u) session_step s"
  shows "(\<forall>i. active_thread s = Some i \<longrightarrow>
       hm_get (threads s) i \<noteq> None \<and> get_or_create_thread j now s = (i, s)) \<and>
     (fst (switch_thread k now s) \<longleftrightarrow> hm_get (threads s) k \<noteq> None) \<and>
     (\<not> fst (switch_thread k now s) \<longrightarrow> snd (switch_thread k now s) = s)"
  using sess.reach_inv [OF assms]
  by (auto simp: active_exists_def get_or_create_thread_def switch_thread_def)

theorem active_thread_exists_witness:
  "get_or_create_thread 9 0 (snd (create_thread 3 0 (new_session 1 0 ''u''))) =
     (3, snd (create_thread 3 0 (new_session 1 0 ''u'')))"
proof -
  have "reach (\<lambda>s. \<exists>i now u. s = new_session i now u) session_step (snd (create_thread 3 0 (new_session 1 0 ''u'')))"
    by (rule reach_one [where s = "new_session 1 0 ''u''"]) (blast, rule ss_create)
  from active_thread_exists [OF this, of 9 0] show ?thesis by (simp add: create_thread_def)
qed

end
