(* ===== verification/Cost_Guard.thy ===== *)
theory Cost_Guard
  imports Prelude
begin

text \<open>
  \<open>src/llm/costs.rs\<close> (the price table) and \<open>src/agent/cost_guard.rs\<close> (daily budget and hourly action
  limit). A day is its number, an instant counts nanoseconds.
\<close>

section \<open>Prices\<close>

text \<open>\<open>rsplit_once('/')\<close>: the part after the last slash.\<close>

definition base_name :: "string \<Rightarrow> string" where
  "base_name s = rev (takeWhile (\<lambda>c. c \<noteq> CHR ''/'') (rev s))"

definition price_table :: "(string list \<times> decimal \<times> decimal) list" where
  "price_table =
     [([''gpt-5.3-codex'', ''gpt-5.3-codex-spark''], (2 / 1000000, 8 / 1000000)),
      ([''gpt-5.2-codex'', ''gpt-5.2-pro'', ''gpt-5.2''], (2 / 1000000, 8 / 1000000)),
      ([''gpt-5.1-codex'', ''gpt-5.1-codex-max'', ''gpt-5.1''], (2 / 1000000, 8 / 1000000)),
      ([''gpt-5.1-codex-mini''], (3 / 10000000, 12 / 10000000)),
      ([''gpt-5-codex'', ''gpt-5-pro'', ''gpt-5''], (2 / 1000000, 8 / 1000000)),
      ([''gpt-5-mini'', ''gpt-5-nano''], (3 / 10000000, 12 / 10000000)),
      ([''gpt-4.1''], (2 / 1000000, 8 / 1000000)),
      ([''gpt-4.1-mini''], (4 / 10000000, 16 / 10000000)),
      ([''gpt-4.1-nano''], (1 / 10000000, 4 / 10000000)),
      ([''gpt-4o'', ''gpt-4o-2024-11-20'', ''gpt-4o-2024-08-06''], (25 / 10000000, 1 / 100000)),
      ([''gpt-4o-mini'', ''gpt-4o-mini-2024-07-18''], (15 / 100000000, 6 / 10000000)),
      ([''gpt-4-turbo'', ''gpt-4-turbo-2024-04-09''], (1 / 100000, 3 / 100000)),
      ([''gpt-4'', ''gpt-4-0613''], (3 / 100000, 6 / 100000)),
      ([''gpt-3.5-turbo'', ''gpt-3.5-turbo-0125''], (5 / 10000000, 15 / 10000000)),
      ([''o3''], (2 / 1000000, 8 / 1000000)),
      ([''o3-mini'', ''o3-mini-2025-01-31''], (11 / 10000000, 44 / 10000000)),
      ([''o4-mini''], (11 / 10000000, 44 / 10000000)),
      ([''o1'', ''o1-2024-12-17''], (15 / 1000000, 6 / 100000)),
      ([''o1-mini'', ''o1-mini-2024-09-12''], (3 / 1000000, 12 / 1000000)),
      ([''claude-opus-4-6'', ''claude-opus-4-5'', ''claude-opus-4-5-20251101'', ''claude-opus-4-1'', ''claude-opus-4-1-20250805'', ''claude-opus-4-0'', ''claude-opus-4-20250514'', ''claude-3-opus-20240229'', ''claude-3-opus-latest''], (15 / 1000000, 75 / 1000000)),
      ([''claude-sonnet-4-6'', ''claude-sonnet-4-5'', ''claude-sonnet-4-5-20250929'', ''claude-sonnet-4-0'', ''claude-sonnet-4-20250514'', ''claude-3-7-sonnet-20250219'', ''claude-3-7-sonnet-latest'', ''claude-3-5-sonnet-20241022'', ''claude-3-5-sonnet-latest''], (3 / 1000000, 15 / 1000000)),
      ([''claude-haiku-4-5'', ''claude-haiku-4-5-20251001'', ''claude-3-5-haiku-20241022'', ''claude-3-5-haiku-latest''], (8 / 10000000, 4 / 1000000)),
      ([''claude-3-haiku-20240307''], (25 / 100000000, 125 / 100000000))]"

definition is_local_model :: "string \<Rightarrow> bool" where
  "is_local_model model_id =
     (let lower = lowercase model_id
      in list_ex (starts_with lower)
           [''llama'', ''mistral'', ''mixtral'', ''phi'', ''gemma'', ''qwen'', ''codellama'', ''deepseek'',
            ''starcoder'', ''vicuna'', ''yi''] \<or>
         str_contains lower '':latest'' \<or> str_contains lower '':instruct'')"

definition model_cost :: "string \<Rightarrow> (decimal \<times> decimal) option" where
  "model_cost model_id =
     (let i = base_name model_id
      in case find (\<lambda>(names, _). i \<in> set names) price_table of
           Some (_, price) \<Rightarrow> Some price
         | None \<Rightarrow> (if is_local_model i then Some (0, 0) else None))"

definition default_cost :: "decimal \<times> decimal" where
  "default_cost = (25 / 10000000, 1 / 100000)"

section \<open>Cost guard\<close>

record cost_guard_config =
  max_cost_per_day_cents :: "u64 option"
  max_actions_per_hour :: "u64 option"

datatype cost_limit_exceeded = DailyBudget u64 u64 | HourlyRate u64 u64

record model_tokens =
  mt_input_tokens :: u64
  mt_output_tokens :: u64
  mt_cost :: decimal

record cost_guard =
  daily_total :: decimal
  reset_date :: nat
  action_window :: "instant list"
  budget_exceeded_flag :: bool
  model_usage :: "(string, model_tokens) hashmap"

definition new_cost_guard :: "nat \<Rightarrow> cost_guard" where
  "new_cost_guard today = \<lparr>daily_total = 0, reset_date = today, action_window = [],
     budget_exceeded_flag = False, model_usage = []\<rparr>"

text \<open>\<open>to_cents\<close>: truncation towards zero; a negative or too large number does not parse as \<open>u64\<close> and
  becomes 0.\<close>

definition trunc :: "decimal \<Rightarrow> int" where
  "trunc x = (if x < 0 then \<lceil>x\<rceil> else \<lfloor>x\<rfloor>)"

definition to_cents :: "decimal \<Rightarrow> u64" where
  "to_cents usd = (let cents = trunc (usd * 100) in if 0 \<le> cents \<and> cents < 2 ^ 64 then of_int cents else 0)"

text \<open>\<open>while front < cutoff { pop_front }\<close> with the cutoff one hour before \<open>now\<close>.\<close>

definition hour :: duration where
  "hour = from_secs 3600"

definition drain_expired :: "instant \<Rightarrow> instant list \<Rightarrow> instant list" where
  "drain_expired now w = dropWhile (\<lambda>t. t + hour < now) w"

definition daily_limit_hit :: "cost_guard_config \<Rightarrow> cost_guard \<Rightarrow> u64 option" where
  "daily_limit_hit cfg g =
     (case max_cost_per_day_cents cfg of
        Some limit \<Rightarrow> (if to_cents (daily_total g) \<ge> limit then Some limit else None)
      | None \<Rightarrow> None)"

definition cost_check_allowed ::
  "cost_guard_config \<Rightarrow> instant \<Rightarrow> cost_guard \<Rightarrow> (cost_limit_exceeded + unit) \<times> cost_guard" where
  "cost_check_allowed cfg now g =
     (if budget_exceeded_flag g
      then (Inl (DailyBudget (to_cents (daily_total g))
              (case max_cost_per_day_cents cfg of Some l \<Rightarrow> l | None \<Rightarrow> 0)), g)
      else (case daily_limit_hit cfg g of
        Some limit \<Rightarrow>
          (Inl (DailyBudget (to_cents (daily_total g)) limit), g\<lparr>budget_exceeded_flag := True\<rparr>)
      | None \<Rightarrow>
          (case max_actions_per_hour cfg of
             None \<Rightarrow> (Inr (), g)
           | Some limit \<Rightarrow>
               let window = drain_expired now (action_window g);
                   g' = g\<lparr>action_window := window\<rparr>;
                   count = of_nat (length window)
               in if count \<ge> limit then (Inl (HourlyRate count limit), g') else (Inr (), g'))))"

definition add_usage :: "string \<Rightarrow> u32 \<Rightarrow> u32 \<Rightarrow> decimal \<Rightarrow> (string, model_tokens) hashmap \<Rightarrow> (string, model_tokens) hashmap" where
  "add_usage model i out cost m =
     (let e = (case hm_get m model of Some e \<Rightarrow> e
               | None \<Rightarrow> \<lparr>mt_input_tokens = 0, mt_output_tokens = 0, mt_cost = 0\<rparr>)
      in hm_insert model (e\<lparr>mt_input_tokens := mt_input_tokens e + ucast i,
           mt_output_tokens := mt_output_tokens e + ucast out, mt_cost := mt_cost e + cost\<rparr>) m)"

definition record_llm_call ::
  "cost_guard_config \<Rightarrow> nat \<Rightarrow> instant \<Rightarrow> string \<Rightarrow> u32 \<Rightarrow> u32 \<Rightarrow> (decimal \<times> decimal) option \<Rightarrow>
   cost_guard \<Rightarrow> decimal \<times> cost_guard" where
  "record_llm_call cfg today now model i out cost_per_token g =
     (let rates = (case cost_per_token of Some r \<Rightarrow> r
                   | None \<Rightarrow> (case model_cost model of Some r \<Rightarrow> r | None \<Rightarrow> default_cost));
          cost = fst rates * of_nat (unat i) + snd rates * of_nat (unat out);
          g1 = (if today \<noteq> reset_date g
                then g\<lparr>daily_total := 0, reset_date := today, budget_exceeded_flag := False\<rparr> else g);
          g2 = g1\<lparr>daily_total := daily_total g1 + cost\<rparr>;
          g3 = (case daily_limit_hit cfg g2 of
                  Some _ \<Rightarrow> g2\<lparr>budget_exceeded_flag := True\<rparr>
                | None \<Rightarrow> g2)
      in (cost, g3\<lparr>action_window := action_window g3 @ [now],
                   model_usage := add_usage model i out cost (model_usage g3)\<rparr>))"

definition daily_spend :: "nat \<Rightarrow> cost_guard \<Rightarrow> decimal" where
  "daily_spend today g = (if today \<noteq> reset_date g then 0 else daily_total g)"

definition actions_this_hour :: "instant \<Rightarrow> cost_guard \<Rightarrow> u64 \<times> cost_guard" where
  "actions_this_hour now g =
     (let w = drain_expired now (action_window g) in (of_nat (length w), g\<lparr>action_window := w\<rparr>))"

text \<open>The agentic loop checks before each LLM call and records after it.\<close>

definition guarded_call ::
  "cost_guard_config \<Rightarrow> nat \<Rightarrow> instant \<Rightarrow> string \<Rightarrow> u32 \<Rightarrow> u32 \<Rightarrow> (decimal \<times> decimal) option \<Rightarrow>
   cost_guard \<Rightarrow> (cost_limit_exceeded + decimal) \<times> cost_guard" where
  "guarded_call cfg today now model i out rates g =
     (case cost_check_allowed cfg now g of
        (Inl e, g') \<Rightarrow> (Inl e, g')
      | (Inr _, g') \<Rightarrow> (case record_llm_call cfg today now model i out rates g' of (c, g'') \<Rightarrow> (Inr c, g'')))"

section \<open>The hourly window\<close>

text \<open>A run of guarded calls with a clock that does not go back; \<open>run_log\<close> collects the instants of the calls
  that were let through.\<close>

record cost_run =
  run_guard :: cost_guard
  run_clock :: instant
  run_log :: "instant list"

inductive cost_step :: "cost_guard_config \<Rightarrow> cost_run \<Rightarrow> cost_run \<Rightarrow> bool" for cfg where
  cs_call: "run_clock s \<le> now \<Longrightarrow> guarded_call cfg today now model i out rates (run_guard s) = (r, g') \<Longrightarrow>
    cost_step cfg s \<lparr>run_guard = g', run_clock = now,
      run_log = run_log s @ (if is_ok r then [now] else [])\<rparr>"
| cs_query: "run_clock s \<le> now \<Longrightarrow>
    cost_step cfg s (s\<lparr>run_guard := snd (actions_this_hour now (run_guard s)), run_clock := now\<rparr>)"

definition cost_run_init :: "cost_run \<Rightarrow> bool" where
  "cost_run_init s \<longleftrightarrow> (\<exists>today now. s = \<lparr>run_guard = new_cost_guard today, run_clock = now, run_log = []\<rparr>)"

abbreviation in_hour :: "instant \<Rightarrow> instant list \<Rightarrow> instant list" where
  "in_hour \<equiv> in_span hour"

definition window_ok :: "nat option \<Rightarrow> instant list \<Rightarrow> instant \<Rightarrow> instant list \<Rightarrow> bool" where
  "window_ok limit w clock lg \<longleftrightarrow>
     sorted lg \<and> (\<forall>t \<in> set lg. t \<le> clock) \<and>
     (\<exists>old. lg = old @ w \<and> (\<forall>t \<in> set old. t + hour < clock)) \<and>
     (\<forall>l a. limit = Some l \<longrightarrow> length (in_hour a lg) \<le> l)"

lemma drain_sorted: "sorted w \<Longrightarrow> drain_expired now w = filter (\<lambda>t. now \<le> t + hour) w"
proof (induction w)
  case (Cons t w)
  show ?case
  proof (cases "t + hour < now")
    case False
    then have "\<forall>x \<in> set w. now \<le> x + hour" using Cons.prems by fastforce
    then show ?thesis using False by (simp add: drain_expired_def)
  qed (use Cons in \<open>simp add: drain_expired_def\<close>)
qed (simp add: drain_expired_def)

lemma drain_split: "\<exists>old. w = old @ drain_expired now w \<and> (\<forall>t \<in> set old. t + hour < now)"
  unfolding drain_expired_def by (metis set_takeWhileD takeWhile_dropWhile_id)

lemma window_ok_drain:
  assumes "window_ok limit w clock lg" and "clock \<le> now"
  shows "window_ok limit (drain_expired now w) now lg"
proof -
  obtain old where old: "lg = old @ w" "\<forall>t \<in> set old. t + hour < clock"
    using assms(1) by (auto simp: window_ok_def)
  obtain old2 where old2: "w = old2 @ drain_expired now w" "\<forall>t \<in> set old2. t + hour < now"
    using drain_split by blast
  have "lg = (old @ old2) @ drain_expired now w" using old(1) old2(1) by simp
  moreover have "\<forall>t \<in> set (old @ old2). t + hour < now" using old(2) old2(2) assms(2) by fastforce
  ultimately show ?thesis using assms unfolding window_ok_def by (metis le_trans)
qed

lemma window_ok_advance:
  "window_ok limit w clock lg \<Longrightarrow> clock \<le> now \<Longrightarrow> window_ok limit w now lg"
  unfolding window_ok_def by (auto intro!: exI [where P = "\<lambda>old. _ = old @ w \<and> _ old"])

text \<open>The entries left after draining are those of the last hour.\<close>

lemma drained_length:
  assumes "window_ok limit w clock lg" and "clock \<le> now"
  shows "length (drain_expired now w) = length (in_hour (now - hour) lg)"
proof -
  obtain old where old: "lg = old @ w" "\<forall>t \<in> set old. t + hour < clock"
    using assms(1) by (auto simp: window_ok_def)
  have "sorted w" using assms(1) old(1) by (auto simp: window_ok_def sorted_append)
  have le: "\<forall>t \<in> set lg. t \<le> now" using assms by (auto simp: window_ok_def)
  have "in_hour (now - hour) old = []" using old(2) assms(2) by (auto simp: in_span_def filter_empty_conv)
  moreover have "in_hour (now - hour) w = filter (\<lambda>t. now \<le> t + hour) w"
    unfolding in_span_def
  proof (rule filter_cong)
    fix t assume "t \<in> set w"
    then have "t \<le> now" using le old(1) by simp
    then show "(now - hour \<le> t \<and> t \<le> now - hour + hour) = (now \<le> t + hour)" by linarith
  qed simp
  ultimately show ?thesis using old(1) drain_sorted [OF \<open>sorted w\<close>] by (simp add: in_span_def)
qed

lemma window_ok_add:
  assumes "window_ok limit w now lg" and "\<And>l. limit = Some l \<Longrightarrow> length (in_hour (now - hour) lg) < l"
  shows "window_ok limit (w @ [now]) now (lg @ [now])"
proof -
  have le: "\<forall>t \<in> set lg. t \<le> now" using assms(1) by (simp add: window_ok_def)
  have "length (in_hour a (lg @ [now])) \<le> l" if l: "limit = Some l" for l a
    using assms l by (intro in_span_add) (auto simp: window_ok_def)
  moreover have "sorted (lg @ [now])" using assms(1) by (simp add: window_ok_def sorted_append)
  moreover obtain old where "lg = old @ w" "\<forall>t \<in> set old. t + hour < now"
    using assms(1) by (auto simp: window_ok_def)
  ultimately show ?thesis using le unfolding window_ok_def by (auto intro!: exI [of _ old])
qed

definition hour_limit :: "cost_guard_config \<Rightarrow> nat option" where
  "hour_limit cfg = map_option unat (max_actions_per_hour cfg)"

lemma record_window:
  "action_window (snd (record_llm_call cfg today now model i out rates g)) = action_window g @ [now]"
  by (simp add: record_llm_call_def Let_def split: option.splits)

lemma check_window:
  assumes "cost_check_allowed cfg now g = (r, g')"
  shows "action_window g' = action_window g \<or> action_window g' = drain_expired now (action_window g)"
  using assms by (auto simp: cost_check_allowed_def Let_def split: if_splits option.splits)

lemma check_hourly:
  assumes "cost_check_allowed cfg now g = (Inr u, g')" and "max_actions_per_hour cfg = Some l"
  shows "action_window g' = drain_expired now (action_window g) \<and>
    \<not> of_nat (length (drain_expired now (action_window g))) \<ge> l"
  using assms by (auto simp: cost_check_allowed_def Let_def split: if_splits option.splits)

lemma window_ok_check:
  assumes "window_ok limit (action_window g) clock lg" and "clock \<le> now"
    and "cost_check_allowed cfg now g = (r, g')"
  shows "window_ok limit (action_window g') now lg"
  using check_window [OF assms(3)] window_ok_drain [OF assms(1,2)] window_ok_advance [OF assms(1,2)] by auto

lemma below_hour_limit:
  assumes "window_ok (hour_limit cfg) (action_window g) clock lg" and "clock \<le> now"
    and "cost_check_allowed cfg now g = (Inr u, g')" and "hour_limit cfg = Some l"
  shows "length (in_hour (now - hour) lg) < l"
proof -
  obtain lw where lw: "max_actions_per_hour cfg = Some lw" "l = unat lw"
    using assms(4) by (auto simp: hour_limit_def)
  let ?n = "length (drain_expired now (action_window g))"
  have n: "?n = length (in_hour (now - hour) lg)" by (rule drained_length [OF assms(1,2)])
  then have "?n \<le> unat lw" using assms(1,4) lw(2) by (simp add: window_ok_def)
  moreover have "unat lw < 2 ^ LENGTH(64)" by (rule unsigned_less)
  ultimately have "?n < 2 ^ 64" by simp
  then have "unat (of_nat ?n :: u64) = ?n" by (simp add: unat_of_nat take_bit_nat_eq_self)
  then show ?thesis using check_hourly [OF assms(3) lw(1)] n lw(2) by (simp add: word_le_nat_alt)
qed

interpretation cost: steps_inv cost_run_init "cost_step cfg"
  "\<lambda>s. window_ok (hour_limit cfg) (action_window (run_guard s)) (run_clock s) (run_log s)" for cfg
proof
  fix s assume "cost_run_init s"
  then show "window_ok (hour_limit cfg) (action_window (run_guard s)) (run_clock s) (run_log s)"
    by (auto simp: cost_run_init_def new_cost_guard_def window_ok_def in_span_def)
next
  fix s s' assume ok: "window_ok (hour_limit cfg) (action_window (run_guard s)) (run_clock s) (run_log s)"
    and "cost_step cfg s s'"
  from this(2) show "window_ok (hour_limit cfg) (action_window (run_guard s')) (run_clock s') (run_log s')"
  proof cases
    case (cs_query now)
    then show ?thesis using window_ok_drain [OF ok] by (simp add: actions_this_hour_def Let_def)
  next
    case (cs_call now today model i out rates r g')
    obtain rc gc where c: "cost_check_allowed cfg now (run_guard s) = (rc, gc)"
      by (cases "cost_check_allowed cfg now (run_guard s)")
    have okc: "window_ok (hour_limit cfg) (action_window gc) now (run_log s)"
      by (rule window_ok_check [OF ok cs_call(2) c])
    show ?thesis
    proof (cases rc)
      case (Inl e)
      then show ?thesis using cs_call c okc by (auto simp: guarded_call_def)
    next
      case (Inr u)
      have "action_window g' = action_window gc @ [now]" "is_ok r"
        using cs_call(3) c Inr record_window [of cfg today now model i out rates gc]
        by (auto simp: guarded_call_def split: prod.splits)
      then show ?thesis
        using cs_call(1) window_ok_add [OF okc below_hour_limit [OF ok cs_call(2) c [unfolded Inr]]] by simp
    qed
  qed
qed

section \<open>Lemmas on the budget\<close>

lemma flag_rejects:
  "budget_exceeded_flag g \<Longrightarrow> \<exists>sp l. cost_check_allowed cfg now g = (Inl (DailyBudget sp l), g)"
  by (simp add: cost_check_allowed_def)

text \<open>The calls of the agentic loop, one after the other.\<close>

type_synonym llm_call = "nat \<times> instant \<times> string \<times> u32 \<times> u32 \<times> (decimal \<times> decimal) option"

fun run_calls :: "cost_guard_config \<Rightarrow> llm_call list \<Rightarrow> cost_guard \<Rightarrow>
    (cost_limit_exceeded + decimal) list \<times> cost_guard" where
  "run_calls cfg [] g = ([], g)"
| "run_calls cfg ((today, now, model, i, out, rates) # cs) g =
     (case guarded_call cfg today now model i out rates g of
        (r, g') \<Rightarrow> (case run_calls cfg cs g' of (rs, g'') \<Rightarrow> (r # rs, g'')))"

lemma flag_stays: "budget_exceeded_flag g \<Longrightarrow> run_calls cfg cs g = (rs, g') \<Longrightarrow>
    g' = g \<and> (\<forall>r \<in> set rs. \<exists>sp l. r = Inl (DailyBudget sp l))"
proof (induction cs arbitrary: rs)
  case (Cons c cs)
  obtain today now model i out rates where c: "c = (today, now, model, i, out, rates)" by (cases c)
  obtain sp l where "cost_check_allowed cfg now g = (Inl (DailyBudget sp l), g)"
    using flag_rejects [OF Cons.prems(1)] by blast
  then have "guarded_call cfg today now model i out rates g = (Inl (DailyBudget sp l), g)"
    by (simp add: guarded_call_def)
  then obtain rs' where "run_calls cfg cs g = (rs', g')" "rs = Inl (DailyBudget sp l) # rs'"
    using Cons.prems(2) c by (auto split: prod.splits)
  then show ?case using Cons by auto
qed simp

lemma over_budget_guarded:
  assumes "max_cost_per_day_cents cfg = Some l" and "to_cents (daily_total g) \<ge> l"
  shows "\<exists>sp l' g'. guarded_call cfg today now model i out rates g = (Inl (DailyBudget sp l'), g') \<and>
    budget_exceeded_flag g' \<and> daily_total g' = daily_total g \<and> reset_date g' = reset_date g"
  using assms by (auto simp: guarded_call_def cost_check_allowed_def daily_limit_hit_def)

section \<open>Properties\<close>

text \<open>the hourly limit is a true sliding window: whatever calls the agent attempts, no interval of one
  hour contains more than \<open>max_actions_per_hour\<close> calls that were let through.\<close>

theorem hourly_limit_holds:
  assumes "reach cost_run_init (cost_step cfg) s" and "max_actions_per_hour cfg = Some l"
  shows "length (filter (\<lambda>t. a \<le> t \<and> t \<le> a + hour) (run_log s)) \<le> unat l"
  using cost.reach_inv [OF assms(1)] assms(2) by (simp add: window_ok_def hour_limit_def in_span_def)

theorem hourly_limit_holds_witness:
  "length (filter (\<lambda>t. 0 \<le> t \<and> t \<le> 0 + hour)
     (run_log \<lparr>run_guard = new_cost_guard 1, run_clock = 0, run_log = []\<rparr>)) \<le> unat (3::u64)"
proof (rule hourly_limit_holds [where cfg = "\<lparr>max_cost_per_day_cents = None, max_actions_per_hour = Some 3\<rparr>"])
  show "reach cost_run_init (cost_step \<lparr>max_cost_per_day_cents = None, max_actions_per_hour = Some 3\<rparr>)
      \<lparr>run_guard = new_cost_guard 1, run_clock = 0, run_log = []\<rparr>"
    by (rule reach_init) (auto simp: cost_run_init_def)
qed simp

text \<open>an allowed action is within the daily budget: \<open>check_allowed\<close> succeeds only when the whole cents
  spent are below the limit, and a recorded call that reaches the limit makes every later check of the
  same day fail.\<close>

theorem daily_budget_enforced:
  assumes "max_cost_per_day_cents cfg = Some l"
  shows "(\<forall>g' u. cost_check_allowed cfg now g = (Inr u, g') \<longrightarrow> to_cents (daily_total g) < l \<and> \<not> budget_exceeded_flag g) \<and>
    (\<forall>c g'. record_llm_call cfg today now model i out rates g = (c, g') \<and> l \<le> to_cents (daily_total g') \<longrightarrow>
       (\<forall>now'. \<exists>sp. fst (cost_check_allowed cfg now' g') = Inl (DailyBudget sp l)))"
  using assms
  by (auto simp: cost_check_allowed_def record_llm_call_def daily_limit_hit_def Let_def not_le
      split: if_splits option.splits)

theorem daily_budget_enforced_witness:
  "to_cents (daily_total (new_cost_guard 1)) < 5"
proof -
  let ?cfg = "\<lparr>max_cost_per_day_cents = Some 5, max_actions_per_hour = None\<rparr>"
  have z: "to_cents 0 = 0" by (simp add: to_cents_def trunc_def)
  have "\<not> (5::u64) \<le> 0" by (simp add: word_le_nat_alt)
  then have "cost_check_allowed ?cfg 0 (new_cost_guard 1) = (Inr (), new_cost_guard 1)"
    by (simp add: cost_check_allowed_def daily_limit_hit_def new_cost_guard_def z)
  then show ?thesis using daily_budget_enforced [of ?cfg 5 0 "new_cost_guard 1"] by simp
qed

text \<open>the daily budget does not come back with a new day. Once the spending has reached the limit, every
  later call of the agentic loop is rejected, on whatever day it is made, because only
  \<open>record_llm_call\<close> resets the counter and the loop records a call only after a check has succeeded; and
  yet \<open>daily_spend\<close> reports zero for those days.\<close>

theorem budget_never_resets:
  assumes "max_cost_per_day_cents cfg = Some l" and "to_cents (daily_total g) \<ge> l"
    and "run_calls cfg cs g = (rs, g')" and "today \<noteq> reset_date g"
  shows "(\<forall>r \<in> set rs. \<exists>sp lm. r = Inl (DailyBudget sp lm)) \<and>
    daily_total g' = daily_total g \<and> daily_spend today g' = 0"
proof (cases cs)
  case Nil
  then show ?thesis using assms(3,4) by (auto simp: daily_spend_def)
next
  case (Cons c cs')
  obtain day now model i out rates where c: "c = (day, now, model, i, out, rates)" by (cases c)
  obtain sp l' g1 where g1: "guarded_call cfg day now model i out rates g = (Inl (DailyBudget sp l'), g1)"
    "budget_exceeded_flag g1" "daily_total g1 = daily_total g" "reset_date g1 = reset_date g"
    using over_budget_guarded [OF assms(1,2)] by blast
  obtain rs' where rs': "run_calls cfg cs' g1 = (rs', g')" "rs = Inl (DailyBudget sp l') # rs'"
    using assms(3) Cons c g1(1) by (auto split: prod.splits)
  then show ?thesis using flag_stays [OF g1(2) rs'(1)] g1(3,4) assms(4) by (auto simp: daily_spend_def)
qed

theorem budget_never_resets_witness:
  "\<exists>sp lm. fst (run_calls \<lparr>max_cost_per_day_cents = Some 0, max_actions_per_hour = None\<rparr>
      [(2, 0, ''gpt-4o'', 1, 1, None)] (new_cost_guard 1)) = [Inl (DailyBudget sp lm)]"
proof -
  let ?cfg = "\<lparr>max_cost_per_day_cents = Some 0, max_actions_per_hour = None\<rparr>"
  obtain rs g' where r: "run_calls ?cfg [(2, 0, ''gpt-4o'', 1, 1, None)] (new_cost_guard 1) = (rs, g')"
    by (cases "run_calls ?cfg [(2, 0, ''gpt-4o'', 1, 1, None)] (new_cost_guard 1)")
  have "2 \<noteq> reset_date (new_cost_guard 1)" by (simp add: new_cost_guard_def)
  then have "\<forall>x \<in> set rs. \<exists>sp lm. x = Inl (DailyBudget sp lm)"
    using budget_never_resets [OF _ _ r, of 0 2] by simp
  moreover have "length rs = 1" using r by (auto split: prod.splits)
  ultimately show ?thesis using r by (cases rs) auto
qed

text \<open>prices are looked up by the model name after the last slash, so a provider prefix changes
  nothing, and no price is negative.\<close>

theorem model_cost_lookup:
  "model_cost (pre @ ''/'' @ m) = model_cost m \<and>
   (case model_cost m of Some (i, out) \<Rightarrow> 0 \<le> i \<and> i \<le> out | None \<Rightarrow> True)"
proof
  have "base_name (pre @ ''/'' @ m) = base_name m"
    by (induction m rule: rev_induct) (simp_all add: base_name_def)
  then show "model_cost (pre @ ''/'' @ m) = model_cost m" by (simp add: model_cost_def)
  have table: "list_all (\<lambda>(names, i, out). 0 \<le> i \<and> i \<le> out) price_table"
    unfolding price_table_def by simp
  show "case model_cost m of Some (i, out) \<Rightarrow> 0 \<le> i \<and> i \<le> out | None \<Rightarrow> True"
  proof (cases "find (\<lambda>(names, _). base_name m \<in> set names) price_table")
    case None
    then show ?thesis by (simp add: model_cost_def Let_def)
  next
    case (Some x)
    then have "x \<in> set price_table" by (metis find_Some_iff nth_mem)
    then have "case x of (names, i, out) \<Rightarrow> 0 \<le> i \<and> i \<le> out" using table by (simp only: list_all_iff)
    then show ?thesis using Some by (simp add: model_cost_def Let_def split: prod.splits)
  qed
qed

end
