(* ===== verification/Rate_Limiter.thy ===== *)
theory Rate_Limiter
  imports Prelude
begin

text \<open>
  \<open>src/tools/rate_limiter.rs\<close> and \<open>ToolRateLimitConfig\<close> of \<open>src/tools/tool.rs\<close>: per user and tool, a
  window per minute and one per hour. A critical section reads the clock several times within
  nanoseconds; the model gives it the single instant \<open>now\<close>.
\<close>

section \<open>Windows\<close>

record tool_rate_limit_config =
  requests_per_minute :: u32
  requests_per_hour :: u32

definition default_rate_limit :: tool_rate_limit_config where
  "default_rate_limit = \<lparr>requests_per_minute = 60, requests_per_hour = 1000\<rparr>"

datatype limit_type = PerMinute | PerHour

datatype rate_limit_result = Allowed u32 u32 | Limited duration limit_type

fun is_allowed :: "rate_limit_result \<Rightarrow> bool" where
  "is_allowed (Allowed _ _) = True"
| "is_allowed (Limited _ _) = False"

fun to_result :: "rate_limit_result \<Rightarrow> (duration \<times> limit_type) + unit" where
  "to_result (Allowed _ _) = Inr ()"
| "to_result (Limited d l) = Inl (d, l)"

definition minute_dur :: duration where
  "minute_dur = from_secs 60"

definition hour_dur :: duration where
  "hour_dur = from_secs 3600"

definition stale_entry_prune :: duration where
  "stale_entry_prune = from_secs 7200"

definition rate_limit_state_soft_cap :: nat where
  "rate_limit_state_soft_cap = 4096"

record window_state =
  window_start :: instant
  window_count :: u32

definition new_window :: "instant \<Rightarrow> window_state" where
  "new_window now = \<lparr>window_start = now, window_count = 0\<rparr>"

definition maybe_reset :: "instant \<Rightarrow> duration \<Rightarrow> window_state \<Rightarrow> window_state" where
  "maybe_reset now dur w = (if elapsed now (window_start w) \<ge> dur then \<lparr>window_start = now, window_count = 0\<rparr> else w)"

definition time_until_reset :: "instant \<Rightarrow> duration \<Rightarrow> window_state \<Rightarrow> duration" where
  "time_until_reset now dur w =
     (let e = elapsed now (window_start w) in if e \<ge> dur then 0 else dur - e)"

record tool_rate_limit_state =
  minute_window :: window_state
  hour_window :: window_state
  last_seen :: instant

definition new_tool_state :: "instant \<Rightarrow> tool_rate_limit_state" where
  "new_tool_state now = \<lparr>minute_window = new_window now, hour_window = new_window now, last_seen = now\<rparr>"

section \<open>The limiter\<close>

type_synonym limiter = "(string \<times> string, tool_rate_limit_state) hashmap"

definition prune_stale :: "instant \<Rightarrow> limiter \<Rightarrow> limiter" where
  "prune_stale now st =
     (if length st > rate_limit_state_soft_cap
      then hm_retain (\<lambda>_ entry. elapsed now (last_seen entry) div 1000000000 < 7200) st else st)"

definition bump :: "window_state \<Rightarrow> window_state" where
  "bump w = w\<lparr>window_count := window_count w + 1\<rparr>"

text \<open>The body of \<open>check_internal\<close> on the entry of one key.\<close>

definition check_entry ::
  "tool_rate_limit_config \<Rightarrow> bool \<Rightarrow> instant \<Rightarrow> tool_rate_limit_state \<Rightarrow>
   rate_limit_result \<times> tool_rate_limit_state" where
  "check_entry cfg rec now ts =
     (let ts1 = ts\<lparr>last_seen := now,
                   minute_window := maybe_reset now minute_dur (minute_window ts),
                   hour_window := maybe_reset now hour_dur (hour_window ts)\<rparr>
      in if window_count (minute_window ts1) \<ge> requests_per_minute cfg
         then (Limited (time_until_reset now minute_dur (minute_window ts1)) PerMinute, ts1)
         else if window_count (hour_window ts1) \<ge> requests_per_hour cfg
         then (Limited (time_until_reset now hour_dur (hour_window ts1)) PerHour, ts1)
         else
           let ts2 = (if rec then ts1\<lparr>minute_window := bump (minute_window ts1), hour_window := bump (hour_window ts1)\<rparr>
                      else ts1)
           in (Allowed (requests_per_minute cfg - window_count (minute_window ts2))
                       (requests_per_hour cfg - window_count (hour_window ts2)), ts2))"

definition check_internal ::
  "string \<Rightarrow> string \<Rightarrow> tool_rate_limit_config \<Rightarrow> bool \<Rightarrow> instant \<Rightarrow> limiter \<Rightarrow> rate_limit_result \<times> limiter" where
  "check_internal user tool cfg rec now st =
     (let key = (user, tool);
          st1 = prune_stale now st;
          ts = (case hm_get st1 key of Some ts \<Rightarrow> ts | None \<Rightarrow> new_tool_state now)
      in case check_entry cfg rec now ts of (r, ts') \<Rightarrow> (r, hm_insert key ts' st1))"

definition check_and_record ::
  "string \<Rightarrow> string \<Rightarrow> tool_rate_limit_config \<Rightarrow> instant \<Rightarrow> limiter \<Rightarrow> rate_limit_result \<times> limiter" where
  "check_and_record user tool cfg now st = check_internal user tool cfg True now st"

definition rl_check ::
  "string \<Rightarrow> string \<Rightarrow> tool_rate_limit_config \<Rightarrow> instant \<Rightarrow> limiter \<Rightarrow> rate_limit_result \<times> limiter" where
  "rl_check user tool cfg now st = check_internal user tool cfg False now st"

definition get_usage :: "string \<Rightarrow> string \<Rightarrow> limiter \<Rightarrow> (u32 \<times> u32) option" where
  "get_usage user tool st =
     map_option (\<lambda>s. (window_count (minute_window s), window_count (hour_window s))) (hm_get st (user, tool))"

definition clear_limit :: "string \<Rightarrow> string \<Rightarrow> limiter \<Rightarrow> limiter" where
  "clear_limit user tool st = hm_remove (user, tool) st"

definition clear_all_limits :: "limiter \<Rightarrow> limiter" where
  "clear_all_limits st = []"

section \<open>One window over time\<close>

text \<open>\<open>entries\<close> lists the recorded requests of one key as pairs of the start of the window that counted
  them and their instant. \<open>win_ok\<close>: each lies in its window, windows do not overlap, no window counts
  more than \<open>mx\<close>, and the current window (start \<open>ws\<close>, \<open>n\<close> requests) is the last one.\<close>

definition entries_ok :: "duration \<Rightarrow> nat \<Rightarrow> (instant \<times> instant) list \<Rightarrow> bool" where
  "entries_ok dur mx L \<longleftrightarrow>
     (\<forall>(w, t) \<in> set L. w \<le> t \<and> t < w + dur) \<and>
     (\<forall>(w, t) \<in> set L. \<forall>(w', t') \<in> set L. w < w' \<longrightarrow> w + dur \<le> w') \<and>
     (\<forall>w. length (filter (\<lambda>(w', t). w' = w) L) \<le> mx)"

definition win_ok :: "duration \<Rightarrow> nat \<Rightarrow> (instant \<times> instant) list \<Rightarrow> instant \<Rightarrow> nat \<Rightarrow> bool" where
  "win_ok dur mx L ws n \<longleftrightarrow> entries_ok dur mx L \<and>
     (\<forall>(w, t) \<in> set L. w = ws \<or> w + dur \<le> ws) \<and> length (filter (\<lambda>(w, t). w = ws) L) \<le> n"

definition closed_before :: "duration \<Rightarrow> (instant \<times> instant) list \<Rightarrow> instant \<Rightarrow> bool" where
  "closed_before dur L now \<longleftrightarrow> (\<forall>(w, t) \<in> set L. w + dur \<le> now)"

lemma win_ok_fresh:
  assumes "entries_ok dur mx L" and "closed_before dur L now" and "0 < dur"
  shows "win_ok dur mx L now 0"
proof -
  have "filter (\<lambda>(w, t). w = now) L = []"
    using assms(2,3) by (auto simp: closed_before_def filter_empty_conv)
  then show ?thesis using assms by (auto simp: win_ok_def closed_before_def)
qed

lemma win_ok_reset:
  assumes "win_ok dur mx L (window_start w) (unat (window_count w))" and "0 < dur"
  shows "win_ok dur mx L (window_start (maybe_reset now dur w)) (unat (window_count (maybe_reset now dur w)))"
proof (cases "elapsed now (window_start w) \<ge> dur")
  case True
  have "closed_before dur L now" using assms True by (fastforce simp: win_ok_def closed_before_def)
  moreover have "entries_ok dur mx L" using assms(1) by (simp add: win_ok_def)
  ultimately have "win_ok dur mx L now 0" using win_ok_fresh assms(2) by blast
  then show ?thesis using True by (simp add: maybe_reset_def)
next
  case False
  then show ?thesis using assms by (simp add: maybe_reset_def)
qed

lemma win_ok_hit:
  assumes "win_ok dur mx L ws n" and "n < mx" and "ws \<le> now" and "now < ws + dur"
  shows "win_ok dur mx (L @ [(ws, now)]) ws (Suc n)"
proof -
  have "length (filter (\<lambda>(w', t). w' = w) (L @ [(ws, now)])) \<le> mx" for w
    using assms(1,2) by (cases "w = ws") (auto simp: win_ok_def entries_ok_def)
  moreover have "\<forall>(w, t) \<in> set (L @ [(ws, now)]). \<forall>(w', t') \<in> set (L @ [(ws, now)]). w < w' \<longrightarrow> w + dur \<le> w'"
    using assms(1) by (fastforce simp: win_ok_def entries_ok_def)
  ultimately show ?thesis using assms by (auto simp: win_ok_def entries_ok_def)
qed

text \<open>An interval no longer than the window meets at most two windows.\<close>

lemma entries_two_windows:
  assumes "entries_ok dur mx L"
  shows "length (filter (\<lambda>(w, t). a \<le> t \<and> t < a + dur) L) \<le> 2 * mx"
proof -
  let ?I = "filter (\<lambda>(w, t). a \<le> t \<and> t < a + dur) L"
  let ?of = "\<lambda>w. filter (\<lambda>(w', t). w' = w) L"
  have mx: "length (?of w) \<le> mx" for w using assms by (simp add: entries_ok_def)
  have pair: "w' = w \<or> w' = u" if "(w, t) \<in> set ?I" "(u, s) \<in> set ?I" "(w', t') \<in> set ?I" "w < u" for w t u s w' t'
  proof (rule ccontr)
    assume ne: "\<not> (w' = w \<or> w' = u)"
    have sep: "x + dur \<le> y" if "(x, p) \<in> set L" "(y, q) \<in> set L" "x < y" for x p y q
      using assms that by (fastforce simp: entries_ok_def)
    have inw: "x \<le> p \<and> p < x + dur" if "(x, p) \<in> set L" for x p
      using assms that by (fastforce simp: entries_ok_def)
    have L: "(w, t) \<in> set L" "(u, s) \<in> set L" "(w', t') \<in> set L" using that by auto
    have I: "a \<le> t" "t < a + dur" "a \<le> s" "s < a + dur" "a \<le> t'" "t' < a + dur" using that by auto
    consider "w' < w" | "w < w'" "w' < u" | "u < w'" using ne by linarith
    then show False
    proof cases
      case 1
      then show ?thesis using sep [OF L(3,1)] sep [OF L(1,2) that(4)] inw [OF L(2)] inw [OF L(3)] I by linarith
    next
      case 2
      then show ?thesis using sep [OF L(1,3)] sep [OF L(3,2)] inw [OF L(1)] inw [OF L(2)] I by linarith
    next
      case 3
      then show ?thesis using sep [OF L(2,3)] sep [OF L(1,2) that(4)] inw [OF L(1)] inw [OF L(3)] I by linarith
    qed
  qed
  obtain w u where wu: "\<forall>(w', t') \<in> set ?I. w' = w \<or> w' = u"
  proof (cases "\<exists>(w, t) \<in> set ?I. \<exists>(u, s) \<in> set ?I. w < u")
    case True
    then obtain w t u s where "(w, t) \<in> set ?I" "(u, s) \<in> set ?I" "w < u" by blast
    then show ?thesis using pair that [of w u] by blast
  next
    case False
    have "w' = fst (hd ?I)" if i: "(w', t') \<in> set ?I" for w' t'
    proof -
      obtain h s where hs: "hd ?I = (h, s)" by (cases "hd ?I")
      have "?I \<noteq> []" using i by force
      then have "hd ?I \<in> set ?I" by (rule hd_in_set)
      then have "(h, s) \<in> set ?I" by (simp only: hs)
      then have "\<not> h < w'" "\<not> w' < h" using False i by blast+
      then show ?thesis unfolding hs by simp
    qed
    then show ?thesis using that by blast
  qed
  have "length ?I \<le> length (?of w) + length (?of u)"
  proof -
    have "length ?I \<le> length (filter (\<lambda>(w', t). w' = w \<or> w' = u) L)"
      using wu by (induction L) (auto split: if_splits)
    also have "\<dots> \<le> length (?of w) + length (?of u)" by (induction L) auto
    finally show ?thesis .
  qed
  then show ?thesis using mx [of w] mx [of u] by simp
qed

section \<open>Runs of the limiter\<close>

text \<open>\<open>limit_of\<close> gives each tool its configuration. The log holds, for each recorded request that was
  allowed, its key, the starts of the two windows that counted it, and its instant.\<close>

type_synonym rl_log = "((string \<times> string) \<times> instant \<times> instant \<times> instant) list"

record rl_run =
  rl_state :: limiter
  rl_clock :: instant
  rl_log :: rl_log

definition minute_entries :: "string \<times> string \<Rightarrow> rl_log \<Rightarrow> (instant \<times> instant) list" where
  "minute_entries k lg = map (\<lambda>(_, m, h, t). (m, t)) (filter (\<lambda>(k', _). k' = k) lg)"

definition hour_entries :: "string \<times> string \<Rightarrow> rl_log \<Rightarrow> (instant \<times> instant) list" where
  "hour_entries k lg = map (\<lambda>(_, m, h, t). (h, t)) (filter (\<lambda>(k', _). k' = k) lg)"

definition log_entry :: "string \<times> string \<Rightarrow> instant \<Rightarrow> limiter \<Rightarrow> rl_log" where
  "log_entry k now st = (case hm_get st k of
     Some ts \<Rightarrow> [(k, window_start (minute_window ts), window_start (hour_window ts), now)] | None \<Rightarrow> [])"

inductive rl_step :: "(string \<Rightarrow> tool_rate_limit_config) \<Rightarrow> rl_run \<Rightarrow> rl_run \<Rightarrow> bool" for limit_of where
  rl_call: "rl_clock s \<le> now \<Longrightarrow> check_internal user tool (limit_of tool) rec now (rl_state s) = (r, st') \<Longrightarrow>
    rl_step limit_of s \<lparr>rl_state = st', rl_clock = now,
      rl_log = rl_log s @ (if rec \<and> is_allowed r then log_entry (user, tool) now st' else [])\<rparr>"

definition rl_init :: "rl_run \<Rightarrow> bool" where
  "rl_init s \<longleftrightarrow> rl_state s = [] \<and> rl_log s = []"

definition entry_ok :: "tool_rate_limit_config \<Rightarrow> (instant \<times> instant) list \<Rightarrow> (instant \<times> instant) list \<Rightarrow>
    instant \<Rightarrow> tool_rate_limit_state \<Rightarrow> bool" where
  "entry_ok cfg M H clock ts \<longleftrightarrow>
     win_ok minute_dur (unat (requests_per_minute cfg)) M (window_start (minute_window ts)) (unat (window_count (minute_window ts))) \<and>
     win_ok hour_dur (unat (requests_per_hour cfg)) H (window_start (hour_window ts)) (unat (window_count (hour_window ts))) \<and>
     window_start (minute_window ts) \<le> last_seen ts \<and> window_start (hour_window ts) \<le> last_seen ts \<and>
     last_seen ts \<le> clock"

definition absent_ok :: "tool_rate_limit_config \<Rightarrow> (instant \<times> instant) list \<Rightarrow> (instant \<times> instant) list \<Rightarrow>
    instant \<Rightarrow> bool" where
  "absent_ok cfg M H clock \<longleftrightarrow>
     entries_ok minute_dur (unat (requests_per_minute cfg)) M \<and> closed_before minute_dur M clock \<and>
     entries_ok hour_dur (unat (requests_per_hour cfg)) H \<and> closed_before hour_dur H clock"

definition key_ok :: "(string \<Rightarrow> tool_rate_limit_config) \<Rightarrow> limiter \<Rightarrow> instant \<Rightarrow> rl_log \<Rightarrow> string \<times> string \<Rightarrow> bool" where
  "key_ok limit_of st clock lg k \<longleftrightarrow>
     (case hm_get st k of
        Some ts \<Rightarrow> entry_ok (limit_of (snd k)) (minute_entries k lg) (hour_entries k lg) clock ts
      | None \<Rightarrow> absent_ok (limit_of (snd k)) (minute_entries k lg) (hour_entries k lg) clock)"

definition rl_ok :: "(string \<Rightarrow> tool_rate_limit_config) \<Rightarrow> rl_run \<Rightarrow> bool" where
  "rl_ok limit_of s \<longleftrightarrow> hm_wf (rl_state s) \<and> (\<forall>k. key_ok limit_of (rl_state s) (rl_clock s) (rl_log s) k)"

lemma durs [simp]: "0 < minute_dur" "0 < hour_dur" "minute_dur \<le> from_secs 7200" "hour_dur \<le> from_secs 7200"
  by (simp_all add: minute_dur_def hour_dur_def)

lemma win_ok_closed:
  assumes "win_ok dur mx L ws n" and "ws + dur \<le> now"
  shows "closed_before dur L now"
  using assms by (fastforce simp: win_ok_def closed_before_def)

lemma entry_stale:
  assumes "entry_ok cfg M H clock ts" and "last_seen ts + from_secs 7200 \<le> now"
  shows "absent_ok cfg M H now"
proof -
  have "window_start (minute_window ts) + minute_dur \<le> now" "window_start (hour_window ts) + hour_dur \<le> now"
    using assms durs(3,4) by (auto simp: entry_ok_def minute_dur_def hour_dur_def)
  then show ?thesis using assms(1) win_ok_closed by (auto simp: absent_ok_def entry_ok_def win_ok_def)
qed

lemma key_ok_prune:
  assumes "key_ok limit_of st clock lg k" and "hm_wf st" and "clock \<le> now"
  shows "key_ok limit_of (prune_stale now st) now lg k"
proof (cases "hm_get st k")
  case None
  then have "hm_get (prune_stale now st) k = None"
    using hm_get_retain [OF assms(2)] by (simp add: prune_stale_def)
  then show ?thesis using assms None by (fastforce simp: key_ok_def absent_ok_def closed_before_def)
next
  case (Some ts)
  have ok: "entry_ok (limit_of (snd k)) (minute_entries k lg) (hour_entries k lg) clock ts"
    using assms(1) Some by (simp add: key_ok_def)
  show ?thesis
  proof (cases "hm_get (prune_stale now st) k")
    case None
    then have "\<not> elapsed now (last_seen ts) div 1000000000 < 7200"
      using Some hm_get_retain [OF assms(2), of "\<lambda>_ entry. elapsed now (last_seen entry) div 1000000000 < 7200" k]
      by (auto simp: prune_stale_def split: if_splits)
    then have "last_seen ts + from_secs 7200 \<le> now" by linarith
    from entry_stale [OF ok this] show ?thesis using None by (simp add: key_ok_def)
  next
    case (Some ts')
    then have "ts' = ts" using \<open>hm_get st k = Some ts\<close> hm_get_retain [OF assms(2)]
      by (auto simp: prune_stale_def split: if_splits)
    then show ?thesis using ok Some assms(3) by (auto simp: key_ok_def entry_ok_def)
  qed
qed

lemma entry_ok_new: "absent_ok cfg M H now \<Longrightarrow> entry_ok cfg M H now (new_tool_state now)"
  by (simp add: entry_ok_def absent_ok_def new_tool_state_def new_window_def win_ok_fresh)

lemma maybe_reset_current:
  assumes "window_start w \<le> now" and "0 < dur"
  shows "window_start (maybe_reset now dur w) \<le> now \<and> now < window_start (maybe_reset now dur w) + dur"
  using assms by (auto simp: maybe_reset_def)

lemma unat_bump: "window_count w < l \<Longrightarrow> unat (window_count (bump w)) = Suc (unat (window_count w))"
  by (simp add: bump_def unat_plus_one)

lemma check_entry_ok:
  assumes "entry_ok cfg M H clock ts" and "clock \<le> now" and "check_entry cfg rec now ts = (r, ts')"
  shows "entry_ok cfg (M @ (if rec \<and> is_allowed r then [(window_start (minute_window ts'), now)] else []))
      (H @ (if rec \<and> is_allowed r then [(window_start (hour_window ts'), now)] else [])) now ts'"
proof -
  let ?m = "maybe_reset now minute_dur (minute_window ts)" and ?h = "maybe_reset now hour_dur (hour_window ts)"
  have st: "window_start (minute_window ts) \<le> now" "window_start (hour_window ts) \<le> now"
    using assms(1,2) by (auto simp: entry_ok_def)
  have m: "win_ok minute_dur (unat (requests_per_minute cfg)) M (window_start ?m) (unat (window_count ?m))"
    and h: "win_ok hour_dur (unat (requests_per_hour cfg)) H (window_start ?h) (unat (window_count ?h))"
    using assms(1) by (simp_all add: entry_ok_def win_ok_reset)
  have mc: "window_start ?m \<le> now" "now < window_start ?m + minute_dur"
    and hc: "window_start ?h \<le> now" "now < window_start ?h + hour_dur"
    using maybe_reset_current st by auto
  show ?thesis
  proof (cases "rec \<and> is_allowed r")
    case True
    have lt: "window_count ?m < requests_per_minute cfg" "window_count ?h < requests_per_hour cfg"
      and ts': "minute_window ts' = bump ?m" "hour_window ts' = bump ?h" "last_seen ts' = now"
      using assms(3) True by (auto simp: check_entry_def Let_def not_le split: if_splits)
    have "win_ok minute_dur (unat (requests_per_minute cfg)) (M @ [(window_start ?m, now)]) (window_start ?m)
        (Suc (unat (window_count ?m)))"
      using win_ok_hit [OF m _ mc] lt(1) by (simp add: word_less_nat_alt)
    moreover have "win_ok hour_dur (unat (requests_per_hour cfg)) (H @ [(window_start ?h, now)]) (window_start ?h)
        (Suc (unat (window_count ?h)))"
      using win_ok_hit [OF h _ hc] lt(2) by (simp add: word_less_nat_alt)
    ultimately show ?thesis using True ts' mc(1) hc(1) unat_bump [OF lt(1)] unat_bump [OF lt(2)]
      by (simp add: entry_ok_def) (simp add: bump_def)
  next
    case False
    then have "minute_window ts' = ?m" "hour_window ts' = ?h" "last_seen ts' = now"
      using assms(3) by (auto simp: check_entry_def Let_def split: if_splits)
    then show ?thesis using False m h mc(1) hc(1) by (simp only: entry_ok_def append_Nil2 if_False if_True) simp
  qed
qed

lemma entries_other:
  assumes "k \<noteq> k'"
  shows "minute_entries k (lg @ log_entry k' now st) = minute_entries k lg"
    and "hour_entries k (lg @ log_entry k' now st) = hour_entries k lg"
  using assms by (auto simp: minute_entries_def hour_entries_def log_entry_def split: option.splits)

lemma entries_same:
  assumes "hm_get st k = Some ts"
  shows "minute_entries k (lg @ log_entry k now st) = minute_entries k lg @ [(window_start (minute_window ts), now)]"
    and "hour_entries k (lg @ log_entry k now st) = hour_entries k lg @ [(window_start (hour_window ts), now)]"
  using assms by (auto simp: minute_entries_def hour_entries_def log_entry_def)

lemma rl_ok_step:
  assumes "rl_ok limit_of s" and "rl_step limit_of s s'"
  shows "rl_ok limit_of s'"
  using assms(2)
proof cases
  case (rl_call now user tool rec r st')
  let ?k = "(user, tool)" and ?st1 = "prune_stale now (rl_state s)" and ?lg = "rl_log s"
  have ok1: "key_ok limit_of ?st1 now ?lg k" for k
    using assms(1) rl_call(2) unfolding rl_ok_def by (blast intro: key_ok_prune)
  define ts where "ts = (case hm_get ?st1 ?k of Some ts \<Rightarrow> ts | None \<Rightarrow> new_tool_state now)"
  have ets: "entry_ok (limit_of tool) (minute_entries ?k ?lg) (hour_entries ?k ?lg) now ts"
    using ok1 [of ?k] entry_ok_new by (auto simp: key_ok_def ts_def split: option.splits)
  obtain ts' where ce: "check_entry (limit_of tool) rec now ts = (r, ts')" and st': "st' = hm_insert ?k ts' ?st1"
    using rl_call(3) by (auto simp: check_internal_def Let_def ts_def split: prod.splits)
  have "key_ok limit_of st' now (?lg @ (if rec \<and> is_allowed r then log_entry ?k now st' else [])) k" for k
  proof (cases "k = ?k")
    case True
    have g: "hm_get st' ?k = Some ts'" by (simp add: st' hm_get_insert)
    show ?thesis using check_entry_ok [OF ets order_refl ce] g entries_same [OF g] True
      by (cases "rec \<and> is_allowed r") (auto simp: key_ok_def)
  next
    case False
    let ?lg' = "?lg @ (if rec \<and> is_allowed r then log_entry ?k now st' else [])"
    have e: "minute_entries k ?lg' = minute_entries k ?lg" "hour_entries k ?lg' = hour_entries k ?lg"
      using entries_other [OF False] by simp_all
    have "hm_get st' k = hm_get ?st1 k" using False by (simp add: st' hm_get_insert)
    then show ?thesis using ok1 [of k] unfolding key_ok_def e by simp
  qed
  moreover have "hm_wf st'" using assms(1) by (simp add: st' prune_stale_def rl_ok_def)
  ultimately show ?thesis using rl_call(1) by (simp add: rl_ok_def)
qed

interpretation limiter: steps_inv rl_init "rl_step limit_of" "rl_ok limit_of" for limit_of
proof
  fix s assume "rl_init s"
  then show "rl_ok limit_of s"
    by (simp add: rl_init_def rl_ok_def key_ok_def absent_ok_def entries_ok_def closed_before_def
        minute_entries_def hour_entries_def)
qed (rule rl_ok_step)

section \<open>Properties\<close>

text \<open>the limits hold per user and tool. Over any run of the limiter with a clock that does not go back,
  every span of a minute contains at most twice \<open>requests_per_minute\<close> recorded requests of a key that
  were allowed, and every span of an hour at most twice \<open>requests_per_hour\<close>; pruning stale entries of a
  large table does not weaken this. (Explicit \<open>clear\<close> calls, which forget the counts, are excluded.)\<close>

theorem rate_limit_holds:
  assumes "reach rl_init (rl_step limit_of) s"
  shows "length (filter (\<lambda>(k, m, h, t). k = (user, tool) \<and> a \<le> t \<and> t < a + minute_dur) (rl_log s)) \<le>
           2 * unat (requests_per_minute (limit_of tool)) \<and>
         length (filter (\<lambda>(k, m, h, t). k = (user, tool) \<and> a \<le> t \<and> t < a + hour_dur) (rl_log s)) \<le>
           2 * unat (requests_per_hour (limit_of tool))"
proof -
  let ?k = "(user, tool)"
  have "key_ok limit_of (rl_state s) (rl_clock s) (rl_log s) ?k"
    using limiter.reach_inv [OF assms] by (simp add: rl_ok_def)
  then have m: "entries_ok minute_dur (unat (requests_per_minute (limit_of tool))) (minute_entries ?k (rl_log s))"
    and h: "entries_ok hour_dur (unat (requests_per_hour (limit_of tool))) (hour_entries ?k (rl_log s))"
    by (auto simp: key_ok_def entry_ok_def absent_ok_def win_ok_def split: option.splits)
  have "length (filter (\<lambda>(w, t). a \<le> t \<and> t < a + d) (minute_entries ?k (rl_log s))) =
      length (filter (\<lambda>(k, m, h, t). k = ?k \<and> a \<le> t \<and> t < a + d) (rl_log s))" for d
    unfolding minute_entries_def by (induction "rl_log s") (auto simp: case_prod_unfold filter_map comp_def)
  moreover have "length (filter (\<lambda>(w, t). a \<le> t \<and> t < a + d) (hour_entries ?k (rl_log s))) =
      length (filter (\<lambda>(k, m, h, t). k = ?k \<and> a \<le> t \<and> t < a + d) (rl_log s))" for d
    unfolding hour_entries_def by (induction "rl_log s") (auto simp: case_prod_unfold filter_map comp_def)
  ultimately show ?thesis using entries_two_windows [OF m, of a] entries_two_windows [OF h, of a] by simp
qed

theorem rate_limit_holds_witness:
  "length (filter (\<lambda>(k, m, h, t). k = (''u'', ''shell'') \<and> 0 \<le> t \<and> t < 0 + minute_dur)
     (rl_log \<lparr>rl_state = [], rl_clock = 0, rl_log = []\<rparr>)) \<le> 2 * unat (60::u32)"
proof -
  have "reach rl_init (rl_step (\<lambda>_. default_rate_limit)) \<lparr>rl_state = [], rl_clock = 0, rl_log = []\<rparr>"
    by (rule reach_init) (simp add: rl_init_def)
  from rate_limit_holds [OF this] show ?thesis unfolding default_rate_limit_def by simp
qed

text \<open>the counters are exact within a window and the remaining numbers never underflow: an allowed,
  recorded request counts one in each window, and the numbers returned are the limits minus the counts
  as natural numbers; a rejected request changes no count, and the time it is told to wait is positive
  and ends exactly when its window does.\<close>

theorem rate_limit_result:
  assumes "check_entry cfg rec now ts = (r, ts')" and "window_start (minute_window ts) \<le> now"
    and "window_start (hour_window ts) \<le> now"
  shows "(case r of
      Allowed rm rh \<Rightarrow>
        unat rm + unat (window_count (minute_window ts')) = unat (requests_per_minute cfg) \<and>
        unat rh + unat (window_count (hour_window ts')) = unat (requests_per_hour cfg) \<and>
        unat (window_count (minute_window ts')) =
          unat (window_count (maybe_reset now minute_dur (minute_window ts))) + (if rec then 1 else 0)
    | Limited wait PerMinute \<Rightarrow> 0 < wait \<and> now + wait = window_start (minute_window ts') + minute_dur \<and>
        requests_per_minute cfg \<le> window_count (minute_window ts')
    | Limited wait PerHour \<Rightarrow> 0 < wait \<and> now + wait = window_start (hour_window ts') + hour_dur \<and>
        requests_per_hour cfg \<le> window_count (hour_window ts'))"
proof -
  let ?m = "maybe_reset now minute_dur (minute_window ts)" and ?h = "maybe_reset now hour_dur (hour_window ts)"
  have cur: "window_start ?m \<le> now" "now < window_start ?m + minute_dur"
    "window_start ?h \<le> now" "now < window_start ?h + hour_dur"
    using maybe_reset_current assms(2,3) by auto
  have sub: "unat (l - c) + unat c = unat l" if "c \<le> l" for l c :: u32
    using that by (simp add: unat_sub word_le_nat_alt)
  have inc: "window_count (bump w) \<le> l" if "window_count w < l" for w l
    using unat_bump [OF that] that by (simp add: word_le_nat_alt word_less_nat_alt)
  consider "requests_per_minute cfg \<le> window_count ?m"
    | "window_count ?m < requests_per_minute cfg" "requests_per_hour cfg \<le> window_count ?h"
    | "window_count ?m < requests_per_minute cfg" "window_count ?h < requests_per_hour cfg"
    by fastforce
  then show ?thesis
  proof cases
    case 1
    then have "r = Limited (time_until_reset now minute_dur ?m) PerMinute \<and> minute_window ts' = ?m"
      using assms(1) by (auto simp: check_entry_def Let_def)
    then show ?thesis using 1 cur by (auto simp: time_until_reset_def Let_def)
  next
    case 2
    then have "r = Limited (time_until_reset now hour_dur ?h) PerHour \<and> hour_window ts' = ?h"
      using assms(1) by (auto simp: check_entry_def Let_def 2(1) [THEN not_le [THEN iffD2]])
    then show ?thesis using 2 cur by (auto simp: time_until_reset_def Let_def)
  next
    case 3
    have "r = Allowed (requests_per_minute cfg - window_count (minute_window ts'))
        (requests_per_hour cfg - window_count (hour_window ts')) \<and>
      minute_window ts' = (if rec then bump ?m else ?m) \<and> hour_window ts' = (if rec then bump ?h else ?h)"
      using assms(1) by (cases rec) (auto simp: check_entry_def Let_def 3(1) [THEN not_le [THEN iffD2]] 3(2) [THEN not_le [THEN iffD2]])
    then show ?thesis
      using sub [OF inc [OF 3(1)]] sub [OF inc [OF 3(2)]] sub [OF less_imp_le [OF 3(1)]]
        sub [OF less_imp_le [OF 3(2)]] unat_bump [OF 3(1)]
      by (cases rec) simp_all
  qed
qed

theorem rate_limit_result_witness:
  "\<exists>ts' rm rh. check_entry \<lparr>requests_per_minute = 2, requests_per_hour = 5\<rparr> True 0 (new_tool_state 0) =
     (Allowed rm rh, ts') \<and> unat rm + unat (window_count (minute_window ts')) = 2"
proof -
  let ?cfg = "\<lparr>requests_per_minute = 2, requests_per_hour = 5\<rparr>"
  have le: "\<not> (2::u32) \<le> 0" "\<not> (5::u32) \<le> 0" by (simp_all add: word_le_nat_alt)
  obtain rm rh ts' where c: "check_entry ?cfg True 0 (new_tool_state 0) = (Allowed rm rh, ts')"
    by (simp add: check_entry_def new_tool_state_def new_window_def maybe_reset_def minute_dur_def hour_dur_def le Let_def)
  have "unat rm + unat (window_count (minute_window ts')) = unat (requests_per_minute ?cfg)"
    using rate_limit_result [OF c] by (simp add: new_tool_state_def new_window_def)
  then show ?thesis using c by auto
qed

text \<open>the window is fixed, not sliding, so the single limit can be exceeded in a span of a minute: with a
  limit of two requests per minute, requests at 0, 59, 60 and 61 s are all allowed, three of them within
  three seconds.\<close>

theorem rate_limit_burst:
  "let cfg = \<lparr>requests_per_minute = 2, requests_per_hour = 100\<rparr>;
       run = (\<lambda>secs (st, rs). case check_and_record ''u'' ''t'' cfg (from_secs secs) st of
                (r, st') \<Rightarrow> (st', rs @ [is_allowed r]))
   in snd (fold run [0, 59, 60, 61] ([], [])) = [True, True, True, True]"
  by (simp add: check_and_record_def check_internal_def check_entry_def prune_stale_def new_tool_state_def
      new_window_def maybe_reset_def bump_def minute_dur_def hour_dur_def rate_limit_state_soft_cap_def
      hm_insert_def word_le_nat_alt Let_def)

end
