(* ===== verification/Pairing.thy ===== *)
theory Pairing
  imports Prelude "HOL-Library.List_Lexorder" "HOL-Library.Char_ord"
begin

text \<open>
  \<open>src/pairing/store.rs\<close>: pairing codes, the pending requests, the allow list and the record of failed
  approvals of each channel. A file is its parsed content (a missing file is \<open>None\<close>; what \<open>serde_json\<close>
  cannot parse, as a truncated file, is the empty default). Other I/O errors are not modelled. Times are
  seconds since the epoch; \<open>render_ts\<close> renders one and \<open>parse_ts\<close> is \<open>parse_timestamp\<close> (both \<open>chrono\<close>).
\<close>

section \<open>Constants and data\<close>

definition pairing_pending_ttl_secs :: nat where
  "pairing_pending_ttl_secs = 15 * 60"

definition pairing_pending_max :: nat where
  "pairing_pending_max = 3"

definition pairing_approve_rate_limit :: nat where
  "pairing_approve_rate_limit = 10"

definition pairing_approve_rate_window_secs :: nat where
  "pairing_approve_rate_window_secs = 5 * 60"

datatype pairing_error = InvalidChannel string | ApproveRateLimited

record upsert_result =
  ur_code :: string
  ur_created :: bool

record pairing_request =
  pr_id :: string
  pr_code :: string
  pr_created_at :: string
  pr_last_seen_at :: string
  pr_meta :: "string option"

record pairing_fs =
  pairing_files :: "string \<rightharpoonup> pairing_request list"
  allow_files :: "string \<rightharpoonup> string list"
  attempt_files :: "string \<rightharpoonup> nat list"

section \<open>Channel keys\<close>

text \<open>\<open>str::replace("..", "_")\<close>.\<close>

fun replace_dots :: "string \<Rightarrow> string" where
  "replace_dots (a # b # s) =
     (if a = CHR ''.'' \<and> b = CHR ''.'' then CHR ''_'' # replace_dots s else a # replace_dots (b # s))"
| "replace_dots s = s"

definition forbidden_chars :: "char list" where
  "forbidden_chars = [CHR 0x5C, CHR ''/'', CHR '':'', CHR ''*'', CHR ''?'', CHR 0x22, CHR ''<'', CHR ''>'', CHR ''|'']"

definition safe_channel_key :: "string \<Rightarrow> pairing_error + string" where
  "safe_channel_key channel =
     (let raw = lowercase (trim channel)
      in if raw = [] then Inl (InvalidChannel ''empty'')
         else let safe = replace_dots (map (\<lambda>c. if c \<in> set forbidden_chars then CHR ''_'' else c) raw)
           in if safe = [] \<or> safe = ''_'' then Inl (InvalidChannel channel) else Inr safe)"

definition pairing_path :: "string \<Rightarrow> pairing_error + string" where
  "pairing_path channel = (case safe_channel_key channel of Inl e \<Rightarrow> Inl e | Inr k \<Rightarrow> Inr (k @ ''-pairing.json''))"

definition allow_from_path :: "string \<Rightarrow> pairing_error + string" where
  "allow_from_path channel = (case safe_channel_key channel of Inl e \<Rightarrow> Inl e | Inr k \<Rightarrow> Inr (k @ ''-allowFrom.json''))"

definition approve_attempts_path :: "string \<Rightarrow> pairing_error + string" where
  "approve_attempts_path channel =
     (case safe_channel_key channel of Inl e \<Rightarrow> Inl e | Inr k \<Rightarrow> Inr (k @ ''-approve-attempts.json''))"

section \<open>Requests\<close>

definition is_expired :: "(string \<Rightarrow> nat option) \<Rightarrow> pairing_request \<Rightarrow> nat \<Rightarrow> bool" where
  "is_expired parse_ts req now =
     (now - (case parse_ts (pr_created_at req) of Some t \<Rightarrow> t | None \<Rightarrow> 0) > pairing_pending_ttl_secs)"

text \<open>\<open>draws\<close> are the 500 random codes tried in order, \<open>fallback\<close> the suffixed code.\<close>

definition generate_unique_code :: "string list \<Rightarrow> string \<Rightarrow> string list \<Rightarrow> string" where
  "generate_unique_code draws fallback existing =
     (case find (\<lambda>c. c \<notin> set existing) draws of Some c \<Rightarrow> c | None \<Rightarrow> fallback)"

abbreviation file_or_empty :: "'a list option \<Rightarrow> 'a list" where
  "file_or_empty f \<equiv> (case f of Some xs \<Rightarrow> xs | None \<Rightarrow> [])"

definition list_pending ::
  "(string \<Rightarrow> nat option) \<Rightarrow> nat \<Rightarrow> string \<Rightarrow> pairing_fs \<Rightarrow> (pairing_error + pairing_request list) \<times> pairing_fs" where
  "list_pending parse_ts now channel fs =
     (case pairing_path channel of
        Inl e \<Rightarrow> (Inl e, fs)
      | Inr path \<Rightarrow>
          (case pairing_files fs path of
             None \<Rightarrow> (Inr [], fs)
           | Some reqs \<Rightarrow>
               let live = filter (\<lambda>r. \<not> is_expired parse_ts r now) reqs;
                   fs' = (if length live \<noteq> length reqs
                          then fs\<lparr>pairing_files := (pairing_files fs)(path \<mapsto> live)\<rparr> else fs)
               in (Inr (sort_key pr_created_at live), fs')))"

fun update_first :: "('a \<Rightarrow> bool) \<Rightarrow> ('a \<Rightarrow> 'a) \<Rightarrow> 'a list \<Rightarrow> 'a list" where
  "update_first P f [] = []"
| "update_first P f (x # xs) = (if P x then f x # xs else x # update_first P f xs)"

definition upsert_request ::
  "(string \<Rightarrow> nat option) \<Rightarrow> (nat \<Rightarrow> string) \<Rightarrow> nat \<Rightarrow> string list \<Rightarrow> string \<Rightarrow> string \<Rightarrow> string \<Rightarrow> string option \<Rightarrow>
   pairing_fs \<Rightarrow> (pairing_error + upsert_result) \<times> pairing_fs" where
  "upsert_request parse_ts render_ts now draws fallback channel raw_id meta fs =
     (case pairing_path channel of
        Inl e \<Rightarrow> (Inl e, fs)
      | Inr path \<Rightarrow>
          let stored = file_or_empty (pairing_files fs path);
              fs0 = fs\<lparr>pairing_files := (pairing_files fs)(path \<mapsto> stored)\<rparr>;
              i = trim raw_id
          in if i = [] then (Inl (InvalidChannel ''empty id''), fs0)
             else
               let live = filter (\<lambda>r. \<not> is_expired parse_ts r now) stored;
                   existing_codes = map (\<lambda>r. uppercase (pr_code r)) live
               in (case find (\<lambda>r. pr_id r = i) live of
                     Some req \<Rightarrow>
                       let code = (if pr_code req = [] then generate_unique_code draws fallback existing_codes
                                   else pr_code req);
                           upd = (\<lambda>r. r\<lparr>pr_last_seen_at := render_ts now, pr_code := code,
                                        pr_meta := (case meta of Some m \<Rightarrow> Some m | None \<Rightarrow> pr_meta r)\<rparr>);
                           live' = update_first (\<lambda>r. pr_id r = i) upd live
                       in (Inr \<lparr>ur_code = code, ur_created = False\<rparr>,
                           fs\<lparr>pairing_files := (pairing_files fs)(path \<mapsto> live')\<rparr>)
                   | None \<Rightarrow>
                       if length live \<ge> pairing_pending_max
                       then (Inr \<lparr>ur_code = [], ur_created = False\<rparr>, fs0)
                       else
                         let code = generate_unique_code draws fallback existing_codes;
                             req = \<lparr>pr_id = i, pr_code = code, pr_created_at = render_ts now,
                                    pr_last_seen_at = render_ts now, pr_meta = meta\<rparr>
                         in (Inr \<lparr>ur_code = code, ur_created = True\<rparr>,
                             fs\<lparr>pairing_files := (pairing_files fs)(path \<mapsto> live @ [req])\<rparr>)))"

section \<open>Approval\<close>

definition is_approve_rate_limited :: "nat \<Rightarrow> string \<Rightarrow> pairing_fs \<Rightarrow> pairing_error + bool" where
  "is_approve_rate_limited now channel fs =
     (case approve_attempts_path channel of
        Inl e \<Rightarrow> Inl e
      | Inr path \<Rightarrow>
          (case attempt_files fs path of
             None \<Rightarrow> Inr False
           | Some failed_at \<Rightarrow>
               let cutoff = now - pairing_approve_rate_window_secs
               in Inr (length (filter (\<lambda>t. t \<ge> cutoff) failed_at) \<ge> pairing_approve_rate_limit)))"

definition record_failed_approve :: "nat \<Rightarrow> string \<Rightarrow> pairing_fs \<Rightarrow> (pairing_error + unit) \<times> pairing_fs" where
  "record_failed_approve now channel fs =
     (case approve_attempts_path channel of
        Inl e \<Rightarrow> (Inl e, fs)
      | Inr path \<Rightarrow>
          let failed_at = file_or_empty (attempt_files fs path) @ [now];
              cutoff = now - pairing_approve_rate_window_secs
          in (Inr (), fs\<lparr>attempt_files := (attempt_files fs)(path \<mapsto> filter (\<lambda>t. t \<ge> cutoff) failed_at)\<rparr>))"

text \<open>\<open>add_allow_from\<close> opens the file with \<open>truncate(true)\<close> and reads it afterwards: what it reads is the
  truncated, empty file.\<close>

definition truncated :: "string list option \<Rightarrow> string list" where
  "truncated f = []"

definition add_allow_from :: "string \<Rightarrow> string \<Rightarrow> pairing_fs \<Rightarrow> (pairing_error + unit) \<times> pairing_fs" where
  "add_allow_from channel raw_entry fs =
     (let entry = trim raw_entry
      in if entry = [] then (Inr (), fs)
         else (case allow_from_path channel of
                 Inl e \<Rightarrow> (Inl e, fs)
               | Inr path \<Rightarrow>
                   let stored = truncated (allow_files fs path);
                       fs0 = fs\<lparr>allow_files := (allow_files fs)(path \<mapsto> stored)\<rparr>
                   in if list_ex (\<lambda>e. lowercase e = lowercase entry) stored then (Inr (), fs0)
                      else (Inr (), fs\<lparr>allow_files := (allow_files fs)(path \<mapsto> stored @ [entry])\<rparr>)))"

fun remove_first :: "('a \<Rightarrow> bool) \<Rightarrow> 'a list \<Rightarrow> 'a list" where
  "remove_first P [] = []"
| "remove_first P (x # xs) = (if P x then xs else x # remove_first P xs)"

text \<open>The clock is read for the rate limit (\<open>now\<close>), for the expiry (\<open>now'\<close>) and when a failure is recorded
  (\<open>now''\<close>).\<close>

definition approve ::
  "(string \<Rightarrow> nat option) \<Rightarrow> nat \<times> nat \<times> nat \<Rightarrow> string \<Rightarrow> string \<Rightarrow> pairing_fs \<Rightarrow>
   (pairing_error + pairing_request option) \<times> pairing_fs" where
  "approve parse_ts clk channel raw_code fs =
     (case clk of (now, now', now'') \<Rightarrow>
        let code = uppercase (trim raw_code)
        in if code = [] then (Inr None, fs)
           else (case is_approve_rate_limited now channel fs of
                   Inl e \<Rightarrow> (Inl e, fs)
                 | Inr True \<Rightarrow> (Inl ApproveRateLimited, fs)
                 | Inr False \<Rightarrow>
                     (case pairing_path channel of
                        Inl e \<Rightarrow> (Inl e, fs)
                      | Inr path \<Rightarrow>
                          (case pairing_files fs path of
                             None \<Rightarrow> (Inl (InvalidChannel ''no pairing file''), fs)
                           | Some reqs \<Rightarrow>
                               let live = filter (\<lambda>r. \<not> is_expired parse_ts r now') reqs
                               in (case find (\<lambda>r. uppercase (pr_code r) = code) live of
                                     None \<Rightarrow>
                                       (case record_failed_approve now'' channel fs of
                                          (Inl e, fs') \<Rightarrow> (Inl e, fs')
                                        | (Inr _, fs') \<Rightarrow> (Inr None, fs'))
                                   | Some entry \<Rightarrow>
                                       let fs1 = fs\<lparr>pairing_files := (pairing_files fs)
                                             (path \<mapsto> remove_first (\<lambda>r. uppercase (pr_code r) = code) live)\<rparr>
                                       in (case add_allow_from channel (pr_id entry) fs1 of
                                             (Inl e, fs2) \<Rightarrow> (Inl e, fs2)
                                           | (Inr _, fs2) \<Rightarrow> (Inr (Some entry), fs2)))))))"

definition read_allow_from :: "string \<Rightarrow> pairing_fs \<Rightarrow> pairing_error + string list" where
  "read_allow_from channel fs =
     (case allow_from_path channel of
        Inl e \<Rightarrow> Inl e
      | Inr path \<Rightarrow> Inr (file_or_empty (allow_files fs path)))"

definition is_sender_allowed :: "string \<Rightarrow> string \<Rightarrow> string option \<Rightarrow> pairing_fs \<Rightarrow> pairing_error + bool" where
  "is_sender_allowed channel raw_id username fs =
     (case read_allow_from channel fs of
        Inl e \<Rightarrow> Inl e
      | Inr allow \<Rightarrow>
          let i = trim raw_id
          in if list_ex (\<lambda>e. trim e = i) allow then Inr True
             else (case username of
                     None \<Rightarrow> Inr False
                   | Some raw_u \<Rightarrow>
                       let u = lowercase (trim raw_u);
                           u_norm = (case strip_prefix u ''@'' of Some v \<Rightarrow> v | None \<Rightarrow> u)
                       in Inr (list_ex (\<lambda>e. lowercase (trim e) = u \<or> lowercase (trim e) = ''@'' @ u_norm) allow)))"

section \<open>Lemmas\<close>

lemma replace_dots_no_dots: "\<not> str_contains (replace_dots s) ''..''"
proof -
  have hd: "(\<exists>t. replace_dots s = CHR ''.'' # t) \<longrightarrow> (\<exists>u. s = CHR ''.'' # u \<and> (u = [] \<or> hd u \<noteq> CHR ''.''))" for s
    by (induction s rule: replace_dots.induct) auto
  show ?thesis
  proof (induction s rule: replace_dots.induct)
    case (1 a b s)
    show ?case
    proof (cases "a = CHR ''.'' \<and> b = CHR ''.''")
      case True
      then show ?thesis using 1 by (simp add: starts_with_def)
    next
      case False
      have "\<not> starts_with (a # replace_dots (b # s)) ''..''"
      proof
        assume "starts_with (a # replace_dots (b # s)) ''..''"
        then have "a = CHR ''.''" "\<exists>t. replace_dots (b # s) = CHR ''.'' # t"
          by (auto simp: starts_with_append)
        then show False using hd [of "b # s"] False by auto
      qed
      then show ?thesis using 1 False by auto
    qed
  qed (simp_all add: starts_with_def)
qed

lemma replace_dots_set: "set (replace_dots s) \<subseteq> set s \<union> {CHR ''_''}"
  by (induction s rule: replace_dots.induct) auto

lemma find_Some_in: "find P xs = Some x \<Longrightarrow> x \<in> set xs \<and> P x"
  by (induction xs) (auto split: if_splits)

lemma remove_first_subset: "set (remove_first P xs) \<subseteq> set xs"
  by (induction xs) auto

lemma length_remove_first_le: "length (remove_first P xs) \<le> length xs"
  by (induction xs) auto

lemma length_update_first [simp]: "length (update_first P f xs) = length xs"
  by (induction xs) auto

lemma map_update_first: "(\<And>x. g (f x) = g x) \<Longrightarrow> map g (update_first P f xs) = map g xs"
  by (induction xs) auto

lemma distinct_map_filter_ids: "distinct (map g xs) \<Longrightarrow> distinct (map g (filter P xs))"
  by (induction xs) auto

lemma distinct_remove_first: "distinct (map g xs) \<Longrightarrow> distinct (map g (remove_first P xs))"
  using remove_first_subset by (induction xs) fastforce+

text \<open>All paths of one channel come from the same key.\<close>

lemma channel_paths:
  "pairing_path channel = Inr path \<longleftrightarrow> (\<exists>k. safe_channel_key channel = Inr k \<and> path = k @ ''-pairing.json'')"
  "allow_from_path channel = Inr path \<longleftrightarrow> (\<exists>k. safe_channel_key channel = Inr k \<and> path = k @ ''-allowFrom.json'')"
  "approve_attempts_path channel = Inr path \<longleftrightarrow>
     (\<exists>k. safe_channel_key channel = Inr k \<and> path = k @ ''-approve-attempts.json'')"
  by (auto simp: pairing_path_def allow_from_path_def approve_attempts_path_def split: sum.splits)

section \<open>Invariant\<close>

definition pending_ok :: "pairing_request list \<Rightarrow> bool" where
  "pending_ok rs \<longleftrightarrow> length rs \<le> pairing_pending_max \<and> distinct (map pr_id rs) \<and> (\<forall>r \<in> set rs. pr_id r \<noteq> [])"

definition pairing_ok :: "pairing_fs \<Rightarrow> bool" where
  "pairing_ok fs \<longleftrightarrow> (\<forall>path rs. pairing_files fs path = Some rs \<longrightarrow> pending_ok rs)"

lemma pending_ok_filter: "pending_ok rs \<Longrightarrow> pending_ok (filter P rs)"
  unfolding pending_ok_def using le_trans [OF length_filter_le [of P rs]] by (auto simp: distinct_map_filter_ids)

lemma pending_ok_remove: "pending_ok rs \<Longrightarrow> pending_ok (remove_first P rs)"
  unfolding pending_ok_def
  using length_remove_first_le [of P rs] remove_first_subset [of P rs] by (auto simp: distinct_remove_first)

lemma pairing_ok_upd: "pairing_ok fs \<Longrightarrow> pending_ok rs \<Longrightarrow>
    pairing_ok (fs\<lparr>pairing_files := (pairing_files fs)(path \<mapsto> rs)\<rparr>)"
  by (simp add: pairing_ok_def)

lemma pairing_ok_other: "pairing_ok (fs\<lparr>allow_files := a\<rparr>) = pairing_ok fs"
  "pairing_ok (fs\<lparr>attempt_files := b\<rparr>) = pairing_ok fs"
  by (simp_all add: pairing_ok_def)

lemma pairing_ok_stored: "pairing_ok fs \<Longrightarrow> pending_ok (file_or_empty (pairing_files fs path))"
  by (auto simp: pairing_ok_def pending_ok_def split: option.splits)

lemma pairing_ok_add_allow: "pairing_ok (snd (add_allow_from channel e fs)) = pairing_ok fs"
  by (simp add: add_allow_from_def Let_def pairing_ok_other split: sum.splits)

lemma pairing_ok_record: "pairing_ok (snd (record_failed_approve now channel fs)) = pairing_ok fs"
  by (simp add: record_failed_approve_def Let_def pairing_ok_other split: sum.splits)

lemma find_None_ids: "find (\<lambda>r. pr_id r = i) rs = None \<Longrightarrow> i \<notin> set (map pr_id rs)"
  by (auto simp: find_None_iff)

lemma pending_ok_add:
  assumes "pending_ok live" and "length live < pairing_pending_max" and "pr_id req \<noteq> []"
    and "find (\<lambda>r. pr_id r = pr_id req) live = None"
  shows "pending_ok (live @ [req])"
  using assms find_None_ids [OF assms(4)] by (auto simp: pending_ok_def)

lemma pending_ok_update:
  assumes "pending_ok rs" and "\<And>r. pr_id (f r) = pr_id r"
  shows "pending_ok (update_first P f rs)"
proof -
  have "map pr_id (update_first P f rs) = map pr_id rs" using assms(2) by (rule map_update_first)
  then have "set (map pr_id (update_first P f rs)) = set (map pr_id rs)" by simp
  then show ?thesis using assms(1) \<open>map pr_id (update_first P f rs) = map pr_id rs\<close>
    unfolding pending_ok_def by (metis (no_types, lifting) image_iff length_update_first list.set_map)
qed

lemma pairing_ok_upsert:
  assumes "pairing_ok fs"
  shows "pairing_ok (snd (upsert_request parse_ts render_ts now draws fb channel raw_id meta fs))"
proof (cases "pairing_path channel")
  case (Inl e)
  then show ?thesis using assms by (simp add: upsert_request_def)
next
  case (Inr path)
  let ?stored = "file_or_empty (pairing_files fs path)"
  let ?live = "filter (\<lambda>r. \<not> is_expired parse_ts r now) ?stored"
  have ok: "pending_ok ?stored" "pending_ok ?live" using pairing_ok_stored [OF assms] pending_ok_filter by blast+
  show ?thesis
  proof (cases "trim raw_id = []")
    case True
    then show ?thesis using Inr assms ok(1) by (simp add: upsert_request_def Let_def pairing_ok_upd)
  next
    case False
    show ?thesis
    proof (cases "find (\<lambda>r. pr_id r = trim raw_id) ?live")
      case None
      then show ?thesis using Inr assms ok False
        by (simp add: upsert_request_def Let_def pairing_ok_upd pending_ok_add)
    next
      case (Some req)
      then show ?thesis using Inr assms ok False
        by (auto simp: upsert_request_def Let_def intro!: pairing_ok_upd pending_ok_update)
    qed
  qed
qed

lemma pairing_ok_list:
  assumes "pairing_ok fs"
  shows "pairing_ok (snd (list_pending parse_ts now channel fs))"
proof -
  have "pending_ok (filter (\<lambda>r. \<not> is_expired parse_ts r now) reqs)" if "pairing_files fs path = Some reqs" for path reqs
    using assms that pending_ok_filter by (simp add: pairing_ok_def)
  then show ?thesis using assms
    by (auto simp: list_pending_def Let_def pairing_ok_upd split: sum.splits option.splits)
qed

lemma add_allow_from_ok:
  "safe_channel_key channel = Inr k \<Longrightarrow> \<exists>fs2. add_allow_from channel e fs = (Inr (), fs2)"
  by (simp add: add_allow_from_def allow_from_path_def Let_def)

lemma record_failed_approve_ok:
  "safe_channel_key channel = Inr k \<Longrightarrow> \<exists>fs2. record_failed_approve now channel fs = (Inr (), fs2)"
  by (simp add: record_failed_approve_def approve_attempts_path_def Let_def)

lemma approve_cases:
  assumes "approve parse_ts (now, now', now'') channel code fs = (r, fs')"
  obtains (unchanged) "fs' = fs" and "r = Inr None \<and> uppercase (trim code) = [] \<or> (\<exists>e. r = Inl e)"
  | (failed) k where "safe_channel_key channel = Inr k" and "r = Inr None"
      and "is_approve_rate_limited now channel fs = Inr False"
      and "fs' = snd (record_failed_approve now'' channel fs)" and "uppercase (trim code) \<noteq> []"
  | (approved) k reqs entry where "safe_channel_key channel = Inr k" and "r = Inr (Some entry)"
      and "is_approve_rate_limited now channel fs = Inr False"
      and "pairing_files fs (k @ ''-pairing.json'') = Some reqs"
      and "find (\<lambda>r. uppercase (pr_code r) = uppercase (trim code)) (filter (\<lambda>r. \<not> is_expired parse_ts r now') reqs) = Some entry"
      and "fs' = snd (add_allow_from channel (pr_id entry)
             (fs\<lparr>pairing_files := (pairing_files fs)(k @ ''-pairing.json'' \<mapsto>
                remove_first (\<lambda>r. uppercase (pr_code r) = uppercase (trim code))
                  (filter (\<lambda>r. \<not> is_expired parse_ts r now') reqs))\<rparr>))"
proof (cases "uppercase (trim code) = []")
  case True
  then show ?thesis using assms unchanged by (simp add: approve_def)
next
  case False
  show ?thesis
  proof (cases "is_approve_rate_limited now channel fs")
    case (Inl e)
    then show ?thesis using assms False unchanged by (auto simp: approve_def Let_def)
  next
    case (Inr limited)
    then obtain k where k: "safe_channel_key channel = Inr k"
      by (cases "safe_channel_key channel") (auto simp: is_approve_rate_limited_def approve_attempts_path_def)
    show ?thesis
    proof (cases "limited \<or> pairing_files fs (k @ ''-pairing.json'') = None")
      case True
      then show ?thesis using assms False Inr k unchanged
        by (cases limited) (auto simp: approve_def Let_def pairing_path_def)
    next
      case nl: False
      then obtain reqs where reqs: "pairing_files fs (k @ ''-pairing.json'') = Some reqs" by auto
      let ?live = "filter (\<lambda>r. \<not> is_expired parse_ts r now') reqs"
      have lim: "is_approve_rate_limited now channel fs = Inr False" using Inr nl by simp
      show ?thesis
      proof (cases "find (\<lambda>r. uppercase (pr_code r) = uppercase (trim code)) ?live")
        case None
        obtain fs2 where fs2: "record_failed_approve now'' channel fs = (Inr (), fs2)"
          using record_failed_approve_ok [OF k] by blast
        show ?thesis using assms None False lim k reqs fs2
          by (intro failed [OF k]) (simp_all add: approve_def Let_def pairing_path_def)
      next
        case (Some entry)
        let ?fs1 = "fs\<lparr>pairing_files := (pairing_files fs)(k @ ''-pairing.json'' \<mapsto>
            remove_first (\<lambda>r. uppercase (pr_code r) = uppercase (trim code)) ?live)\<rparr>"
        obtain fs2 where fs2: "add_allow_from channel (pr_id entry) ?fs1 = (Inr (), fs2)"
          using add_allow_from_ok [OF k] by blast
        show ?thesis using assms Some False lim k reqs fs2
          by (intro approved [OF k _ lim reqs Some]) (simp_all add: approve_def Let_def pairing_path_def)
      qed
    qed
  qed
qed

lemma pairing_ok_approve:
  assumes "pairing_ok fs" and "approve parse_ts (now, now', now'') channel code fs = (r, fs')"
  shows "pairing_ok fs'"
  using assms(2)
proof (cases rule: approve_cases)
  case (approved k reqs entry)
  have "pending_ok reqs" using assms(1) approved(4) by (simp add: pairing_ok_def)
  then show ?thesis using assms(1) approved(6)
    by (simp add: pairing_ok_add_allow pairing_ok_upd pending_ok_filter pending_ok_remove)
qed (use assms(1) pairing_ok_record in auto)

section \<open>Runs\<close>

text \<open>Operations on all channels, with a clock that does not go back; the log holds the instants of the
  failed approvals of the channel with key \<open>k\<close>.\<close>

record pairing_run =
  prun_fs :: pairing_fs
  prun_clock :: nat
  prun_failed :: "nat list"

inductive pairing_step ::
  "(string \<Rightarrow> nat option) \<Rightarrow> (nat \<Rightarrow> string) \<Rightarrow> string \<Rightarrow> pairing_run \<Rightarrow> pairing_run \<Rightarrow> bool"
  for parse_ts render_ts k where
  ps_upsert: "pairing_step parse_ts render_ts k s
     (s\<lparr>prun_fs := snd (upsert_request parse_ts render_ts now draws fb channel i meta (prun_fs s))\<rparr>)"
| ps_list: "pairing_step parse_ts render_ts k s (s\<lparr>prun_fs := snd (list_pending parse_ts now channel (prun_fs s))\<rparr>)"
| ps_approve: "prun_clock s \<le> now \<Longrightarrow> now \<le> now' \<Longrightarrow> now' \<le> now'' \<Longrightarrow>
    approve parse_ts (now, now', now'') channel code (prun_fs s) = (r, fs') \<Longrightarrow>
    pairing_step parse_ts render_ts k s \<lparr>prun_fs = fs', prun_clock = now'',
      prun_failed = prun_failed s @
        (if r = Inr None \<and> uppercase (trim code) \<noteq> [] \<and> safe_channel_key channel = Inr k then [now''] else [])\<rparr>"

definition pairing_init :: "pairing_run \<Rightarrow> bool" where
  "pairing_init s \<longleftrightarrow> prun_fs s = \<lparr>pairing_files = Map.empty, allow_files = Map.empty, attempt_files = Map.empty\<rparr> \<and>
     prun_failed s = []"

definition attempts_ok :: "nat list option \<Rightarrow> nat \<Rightarrow> nat list \<Rightarrow> bool" where
  "attempts_ok f clock lg \<longleftrightarrow>
     (\<forall>t \<in> set lg. t \<le> clock) \<and>
     (\<forall>n \<ge> clock. filter (\<lambda>t. n - pairing_approve_rate_window_secs \<le> t) (file_or_empty f) =
                  filter (\<lambda>t. n - pairing_approve_rate_window_secs \<le> t) lg) \<and>
     (\<forall>a. length (in_span pairing_approve_rate_window_secs a lg) \<le> pairing_approve_rate_limit)"

definition prun_ok :: "string \<Rightarrow> pairing_run \<Rightarrow> bool" where
  "prun_ok k s \<longleftrightarrow> pairing_ok (prun_fs s) \<and>
     attempts_ok (attempt_files (prun_fs s) (k @ ''-approve-attempts.json'')) (prun_clock s) (prun_failed s)"

lemma attempts_kept:
  "attempt_files (snd (upsert_request parse_ts render_ts now draws fb channel i meta fs)) = attempt_files fs"
  "attempt_files (snd (list_pending parse_ts now channel fs)) = attempt_files fs"
  "attempt_files (snd (add_allow_from channel e fs)) = attempt_files fs"
  by (auto simp: upsert_request_def list_pending_def add_allow_from_def Let_def split: sum.splits option.splits)

lemma attempts_ok_advance: "attempts_ok f clock lg \<Longrightarrow> clock \<le> now \<Longrightarrow> attempts_ok f now lg"
  by (auto simp: attempts_ok_def intro: le_trans)

lemma attempts_ok_fail:
  assumes "attempts_ok f clock lg" and "clock \<le> now" and "now \<le> now''"
    and "length (filter (\<lambda>t. now - pairing_approve_rate_window_secs \<le> t) (file_or_empty f)) < pairing_approve_rate_limit"
  shows "attempts_ok (Some (filter (\<lambda>t. now'' - pairing_approve_rate_window_secs \<le> t) (file_or_empty f @ [now''])))
    now'' (lg @ [now''])"
proof -
  let ?d = pairing_approve_rate_window_secs
  have le: "\<forall>t \<in> set lg. t \<le> now''" using assms(1-3) by (fastforce simp: attempts_ok_def)
  have "length (in_span ?d (now'' - ?d) lg) \<le> length (filter (\<lambda>t. now - ?d \<le> t) lg)"
    unfolding in_span_def using assms(3) by (induction lg) auto
  also have "filter (\<lambda>t. now - ?d \<le> t) lg = filter (\<lambda>t. now - ?d \<le> t) (file_or_empty f)"
    using assms(1,2) by (simp add: attempts_ok_def)
  finally have "length (in_span ?d (now'' - ?d) lg) < pairing_approve_rate_limit" using assms(4) by simp
  then have "\<forall>a. length (in_span ?d a (lg @ [now''])) \<le> pairing_approve_rate_limit"
    using in_span_add [OF le] assms(1) by (simp add: attempts_ok_def)
  moreover have "filter (\<lambda>t. n - ?d \<le> t) (filter (\<lambda>t. now'' - ?d \<le> t) (file_or_empty f @ [now''])) =
      filter (\<lambda>t. n - ?d \<le> t) (lg @ [now''])" if "now'' \<le> n" for n
  proof -
    have "filter (\<lambda>t. n - ?d \<le> t) (file_or_empty f) = filter (\<lambda>t. n - ?d \<le> t) lg"
      using assms(1-3) that by (simp add: attempts_ok_def)
    moreover have "filter (\<lambda>t. now'' - ?d \<le> t \<and> n - ?d \<le> t) xs = filter (\<lambda>t. n - ?d \<le> t) xs" for xs
      by (rule filter_cong) (use that in auto)
    ultimately show ?thesis by (simp add: conj_commute)
  qed
  ultimately show ?thesis using le unfolding attempts_ok_def by simp
qed

lemma prun_ok_approve:
  assumes "prun_ok k s" and "prun_clock s \<le> now" and "now \<le> now'" and "now' \<le> now''"
    and a: "approve parse_ts (now, now', now'') channel code (prun_fs s) = (r, fs')"
  shows "attempts_ok (attempt_files fs' (k @ ''-approve-attempts.json'')) now''
    (prun_failed s @ (if r = Inr None \<and> uppercase (trim code) \<noteq> [] \<and> safe_channel_key channel = Inr k then [now''] else []))"
proof -
  let ?f = "attempt_files (prun_fs s) (k @ ''-approve-attempts.json'')"
  have ok: "attempts_ok ?f (prun_clock s) (prun_failed s)" using assms(1) by (simp add: prun_ok_def)
  have adv: "attempts_ok ?f now'' (prun_failed s)"
    by (rule attempts_ok_advance [OF ok]) (use assms(2-4) in linarith)
  from a show ?thesis
  proof (cases rule: approve_cases)
    case unchanged
    then show ?thesis using adv by auto
  next
    case (approved k' reqs entry)
    then show ?thesis using adv by (simp add: attempts_kept)
  next
    case (failed k')
    have path: "approve_attempts_path channel = Inr (k' @ ''-approve-attempts.json'')"
      using failed(1) by (simp add: channel_paths)
    show ?thesis
    proof (cases "k' = k")
      case True
      have lt: "length (filter (\<lambda>t. now - pairing_approve_rate_window_secs \<le> t) (file_or_empty ?f)) < pairing_approve_rate_limit"
        using failed(3) path True
        by (auto simp: is_approve_rate_limited_def Let_def pairing_approve_rate_limit_def split: option.splits)
      show ?thesis using attempts_ok_fail [OF ok assms(2) _ lt, of now''] assms(3,4) failed path True
        by (simp add: record_failed_approve_def Let_def)
    next
      case False
      then show ?thesis using adv failed path by (simp add: record_failed_approve_def Let_def)
    qed
  qed
qed

interpretation pairing: steps_inv pairing_init "pairing_step parse_ts render_ts k" "prun_ok k" for parse_ts render_ts k
proof
  fix s assume "pairing_init s"
  then show "prun_ok k s"
    by (simp add: pairing_init_def prun_ok_def pairing_ok_def attempts_ok_def in_span_def)
next
  fix s s' assume ok: "prun_ok k s" and "pairing_step parse_ts render_ts k s s'"
  from this(2) show "prun_ok k s'"
  proof cases
    case (ps_approve now now' now'' channel code r fs')
    then show ?thesis
      using prun_ok_approve [OF ok ps_approve(2-5)] pairing_ok_approve [OF _ ps_approve(5)] ok by (simp add: prun_ok_def)
  qed (use ok in \<open>auto simp: prun_ok_def attempts_kept pairing_ok_upsert pairing_ok_list\<close>)
qed

section \<open>Properties\<close>

text \<open>a channel name cannot leave the pairing directory: the key made from it is not empty and contains
  neither a path separator (nor any other reserved character) nor two dots in a row.\<close>

theorem channel_key_safe:
  assumes "safe_channel_key channel = Inr key"
  shows "key \<noteq> [] \<and> set key \<inter> set forbidden_chars = {} \<and> \<not> str_contains key ''..''"
proof -
  let ?m = "map (\<lambda>c. if c \<in> set forbidden_chars then CHR ''_'' else c) (lowercase (trim channel))"
  have key: "key = replace_dots ?m" "key \<noteq> []"
    using assms by (auto simp: safe_channel_key_def Let_def split: if_splits)
  have "CHR ''_'' \<notin> set forbidden_chars" by (simp add: forbidden_chars_def)
  then have "set ?m \<inter> set forbidden_chars = {}" by auto
  then have "set key \<inter> set forbidden_chars = {}"
    using replace_dots_set [of ?m] key(1) \<open>CHR ''_'' \<notin> set forbidden_chars\<close> by auto
  then show ?thesis using key replace_dots_no_dots by simp
qed

theorem channel_key_safe_witness: "\<not> str_contains ''__telegram'' ''..''"
proof -
  have "safe_channel_key ''../Telegram'' = Inr ''__telegram''" by code_simp
  from channel_key_safe [OF this] show ?thesis by blast
qed

text \<open>guessing is bounded: over any run of the store, with a clock that does not go back, at most 10
  failed approvals of a channel fall into any span of five minutes, no channel ever has more than three
  pending requests, and pending requests of one channel have distinct non-empty senders.\<close>

theorem approve_attempts_bounded:
  assumes "reach pairing_init (pairing_step parse_ts render_ts k) s"
  shows "length (filter (\<lambda>t. a \<le> t \<and> t \<le> a + 300) (prun_failed s)) \<le> 10 \<and>
    (\<forall>path rs. pairing_files (prun_fs s) path = Some rs \<longrightarrow>
       length rs \<le> 3 \<and> distinct (map pr_id rs) \<and> (\<forall>r \<in> set rs. pr_id r \<noteq> []))"
  using pairing.reach_inv [OF assms]
  by (simp add: prun_ok_def attempts_ok_def in_span_def pairing_approve_rate_window_secs_def
      pairing_approve_rate_limit_def pairing_ok_def pending_ok_def pairing_pending_max_def)

theorem approve_attempts_bounded_witness:
  "length (filter (\<lambda>t. 0 \<le> t \<and> t \<le> 0 + 300) (prun_failed
     \<lparr>prun_fs = \<lparr>pairing_files = Map.empty, allow_files = Map.empty, attempt_files = Map.empty\<rparr>,
      prun_clock = 5, prun_failed = []\<rparr>)) \<le> 10"
proof -
  have "reach pairing_init (pairing_step (\<lambda>_. None) (\<lambda>_. []) ''k'')
     \<lparr>prun_fs = \<lparr>pairing_files = Map.empty, allow_files = Map.empty, attempt_files = Map.empty\<rparr>,
      prun_clock = 5, prun_failed = []\<rparr>"
    by (rule reach_init) (simp add: pairing_init_def)
  from approve_attempts_bounded [OF this] show ?thesis by blast
qed

text \<open>a sender is approved only through a live code: a successful approval names a pending request of
  that channel that has not expired and whose code is the given one up to case, it is removed from the
  pending requests, and the sender is then allowed; any other outcome leaves the allow lists alone.\<close>

theorem approve_sound:
  assumes "approve parse_ts (now, now', now'') channel code fs = (r, fs')"
  shows "(\<forall>e. r = Inr (Some e) \<longrightarrow>
      (\<exists>path reqs. pairing_path channel = Inr path \<and> pairing_files fs path = Some reqs \<and> e \<in> set reqs \<and>
         \<not> is_expired parse_ts e now' \<and> uppercase (pr_code e) = uppercase (trim code) \<and>
         (\<exists>rest. pairing_files fs' path = Some rest \<and> set rest \<subseteq> set reqs) \<and>
         (trim (pr_id e) = pr_id e \<and> pr_id e \<noteq> [] \<longrightarrow> is_sender_allowed channel (pr_id e) None fs' = Inr True))) \<and>
    ((\<forall>e. r \<noteq> Inr (Some e)) \<longrightarrow> allow_files fs' = allow_files fs)"
  using assms
proof (cases rule: approve_cases)
  case unchanged
  then show ?thesis by auto
next
  case (failed k)
  then show ?thesis by (simp add: record_failed_approve_def Let_def split: sum.splits)
next
  case (approved k reqs entry)
  let ?live = "filter (\<lambda>r. \<not> is_expired parse_ts r now') reqs"
  have e: "entry \<in> set reqs" "\<not> is_expired parse_ts entry now'" "uppercase (pr_code entry) = uppercase (trim code)"
    using find_Some_in [OF approved(5)] by auto
  have rest: "set (remove_first (\<lambda>r. uppercase (pr_code r) = uppercase (trim code)) ?live) \<subseteq> set reqs"
    using remove_first_subset by fastforce
  have paths: "pairing_path channel = Inr (k @ ''-pairing.json'')" "allow_from_path channel = Inr (k @ ''-allowFrom.json'')"
    using approved(1) by (simp_all add: channel_paths)
  have "is_sender_allowed channel (pr_id entry) None fs' = Inr True" if "trim (pr_id entry) = pr_id entry" "pr_id entry \<noteq> []"
    using that approved(6)
    by (simp add: is_sender_allowed_def read_allow_from_def add_allow_from_def paths Let_def truncated_def)
  then show ?thesis using approved(2,4,6) e rest paths
    by (auto simp: add_allow_from_def Let_def truncated_def)
qed

theorem approve_sound_witness:
  "fst (approve (\<lambda>_. Some 0) (0, 0, 0) ''telegram'' ''wrong''
      \<lparr>pairing_files = [''telegram-pairing.json'' \<mapsto> []], allow_files = Map.empty, attempt_files = Map.empty\<rparr>) = Inr None \<and>
   allow_files (snd (approve (\<lambda>_. Some 0) (0, 0, 0) ''telegram'' ''wrong''
      \<lparr>pairing_files = [''telegram-pairing.json'' \<mapsto> []], allow_files = Map.empty, attempt_files = Map.empty\<rparr>)) = Map.empty"
proof -
  let ?fs = "\<lparr>pairing_files = [''telegram-pairing.json'' \<mapsto> []], allow_files = Map.empty, attempt_files = Map.empty\<rparr>"
  obtain r fs' where a: "approve (\<lambda>_. Some 0) (0, 0, 0) ''telegram'' ''wrong'' ?fs = (r, fs')"
    by (cases "approve (\<lambda>_. Some 0) (0, 0, 0) ''telegram'' ''wrong'' ?fs")
  have k: "safe_channel_key ''telegram'' = Inr ''telegram''" "uppercase (trim ''wrong'') \<noteq> []" by code_simp+
  have "r = Inr None" using a k
    by (auto simp: approve_def Let_def is_approve_rate_limited_def approve_attempts_path_def pairing_path_def
        record_failed_approve_def)
  then show ?thesis using approve_sound [OF a] a by auto
qed

text \<open>approving a sender revokes everybody approved before. The allow list is read after the file has
  been opened with truncation, so after any successful approval (of a sender with a non-blank id) the
  channel's list is that one sender alone.\<close>

theorem approval_erases_allow_list:
  assumes "approve parse_ts (now, now', now'') channel code fs = (Inr (Some e), fs')" and "trim (pr_id e) \<noteq> []"
  shows "read_allow_from channel fs' = Inr [trim (pr_id e)]"
  using assms(1)
proof (cases rule: approve_cases)
  case (approved k reqs entry)
  then show ?thesis using assms(2)
    by (auto simp: read_allow_from_def add_allow_from_def allow_from_path_def Let_def truncated_def)
qed auto

theorem approval_erases_allow_list_witness:
  "read_allow_from ''telegram'' (snd (approve (\<lambda>_. Some 0) (0, 0, 0) ''telegram'' ''ABCD''
     \<lparr>pairing_files = [''telegram-pairing.json'' \<mapsto> [\<lparr>pr_id = ''bob'', pr_code = ''ABCD'', pr_created_at = ''0'',
        pr_last_seen_at = ''0'', pr_meta = None\<rparr>]],
      allow_files = [''telegram-allowFrom.json'' \<mapsto> [''alice'']], attempt_files = Map.empty\<rparr>)) = Inr [''bob'']"
proof -
  let ?b = "\<lparr>pr_id = ''bob'', pr_code = ''ABCD'', pr_created_at = ''0'', pr_last_seen_at = ''0'', pr_meta = None\<rparr>"
  let ?fs = "\<lparr>pairing_files = [''telegram-pairing.json'' \<mapsto> [?b]],
      allow_files = [''telegram-allowFrom.json'' \<mapsto> [''alice'']], attempt_files = Map.empty\<rparr>"
  have k: "safe_channel_key ''telegram'' = Inr ''telegram''" "uppercase (trim ''ABCD'') = ''ABCD''"
    "uppercase ''ABCD'' = ''ABCD''" "trim ''bob'' = ''bob''" by code_simp+
  obtain fs' where a: "approve (\<lambda>_. Some 0) (0, 0, 0) ''telegram'' ''ABCD'' ?fs = (Inr (Some ?b), fs')"
    using k by (simp add: approve_def Let_def is_approve_rate_limited_def approve_attempts_path_def pairing_path_def
        is_expired_def pairing_pending_ttl_secs_def add_allow_from_def allow_from_path_def truncated_def)
  from approval_erases_allow_list [OF a] show ?thesis using k(4) a by simp
qed

end
