(* ===== verification/Legal_Billing.thy ===== *)
theory Legal_Billing
  imports Prelude "HOL-Library.Product_Lexorder" "HOL-Library.List_Lexorder" "HOL-Library.Char_ord"
begin

text \<open>
  Billing of legal work (\<open>src/legal/billing.rs\<close>) over the tables of the libSQL backend
  (\<open>src/db/libsql/legal_practice.rs\<close>, \<open>legal_hardening.rs\<close>): billing-rate schedules and their overlap
  check, the rate of a time entry, draft invoices, invoice totals, UTBMS codes and the LEDES field check.

  A table is the list of its rows in the order of their \<open>rowid\<close>; a \<open>SELECT\<close> filters it and an
  \<open>UPDATE\<close> maps over it. A \<open>NaiveDate\<close> is a day number, its rendering a parameter. Errors of the
  database engine, JSON and the time stamps the code only stores are left out.
\<close>

section \<open>Decimals\<close>

text \<open>\<open>Decimal::round_dp(2)\<close>, which rounds a midpoint to the even neighbour.\<close>

definition round_half_even :: "rat \<Rightarrow> int" where
  "round_half_even x =
     (let f = \<lfloor>x\<rfloor>; d = x - of_int f
      in if d < 1 / 2 then f else if 1 / 2 < d then f + 1 else if even f then f else f + 1)"

definition round_dp2 :: "decimal \<Rightarrow> decimal" where
  "round_dp2 x = of_int (round_half_even (x * 100)) / 100"

definition whole_cents :: "decimal \<Rightarrow> bool" where
  "whole_cents x \<longleftrightarrow> of_int \<lfloor>x * 100\<rfloor> = x * 100"

section \<open>Tables\<close>

datatype billing_rate_source = MatterOverride | TimekeeperDefault | ManualOverride

datatype fallback_reason = FallbackManualOverride | NoRateFound

datatype invoice_status = Draft | Sent | Paid | Void | WriteOff

text \<open>\<open>Engine\<close> is an error the database engine raises for a row that breaks a \<open>CHECK\<close> or \<open>UNIQUE\<close> clause of
  its table.\<close>

datatype database_error = Constraint string | Query string | Engine

record rate_schedule =
  rs_id :: uuid
  rs_user_id :: string
  rs_matter_id :: "string option"
  rs_timekeeper :: string
  rs_rate :: decimal
  effective_start :: int
  effective_end :: "int option"

record time_entry =
  te_id :: uuid
  te_user_id :: string
  te_matter_id :: string
  te_timekeeper :: string
  te_description :: string
  te_hours :: decimal
  te_hourly_rate :: "decimal option"
  te_task_code :: "string option"
  te_activity_code :: "string option"
  te_resolved_rate :: "decimal option"
  te_rate_source :: "billing_rate_source option"
  te_entry_date :: int
  te_billable :: bool
  te_billed_invoice_id :: "uuid option"
  te_created_at :: int

record expense_entry =
  ee_id :: uuid
  ee_user_id :: string
  ee_matter_id :: string
  ee_description :: string
  ee_amount :: decimal
  ee_entry_date :: int
  ee_billable :: bool
  ee_billed_invoice_id :: "uuid option"
  ee_created_at :: int

record invoice_params =
  inv_matter_id :: string
  inv_number :: string
  inv_status :: invoice_status
  inv_issued_date :: "int option"
  inv_due_date :: "int option"
  inv_subtotal :: decimal
  inv_tax :: decimal
  inv_total :: decimal
  inv_paid_amount :: decimal
  inv_notes :: "string option"

record invoice = invoice_params +
  inv_id :: uuid
  inv_user_id :: string

record line_item_params =
  li_description :: string
  li_quantity :: decimal
  li_unit_price :: decimal
  li_amount :: decimal
  li_time_entry_id :: "uuid option"
  li_expense_entry_id :: "uuid option"
  li_task_code :: "string option"
  li_activity_code :: "string option"
  li_timekeeper :: "string option"
  li_resolved_rate :: "decimal option"
  li_rate_source :: "billing_rate_source option"
  li_sort_order :: int

record line_item = line_item_params +
  li_id :: uuid
  li_user_id :: string
  li_invoice_id :: uuid

datatype ledger_entry_type = Deposit | Withdrawal | InvoicePayment | Refund | BankFee | FirmFunds

datatype ledger_source = Manual | StatementImport | FromInvoicePayment

record trust_entry =
  tl_id :: uuid
  tl_user_id :: string
  tl_matter_id :: string
  tl_account_id :: "uuid option"
  tl_entry_type :: ledger_entry_type
  tl_amount :: decimal
  tl_delta :: decimal
  tl_balance_after :: decimal
  tl_description :: string
  tl_reference_number :: "string option"
  tl_source :: ledger_source
  tl_invoice_id :: "uuid option"
  tl_recorded_by :: string
  tl_created_at :: nat

record trust_account =
  ta_id :: uuid
  ta_user_id :: string
  ta_name :: string
  ta_bank_name :: "string option"
  ta_last4 :: "string option"
  ta_is_primary :: bool

record practice_db =
  schedules :: "rate_schedule list"
  time_entries :: "time_entry list"
  expense_entries :: "expense_entry list"
  invoices :: "invoice list"
  line_items :: "line_item list"
  trust_accounts :: "trust_account list"
  trust_ledger :: "trust_entry list"

section \<open>Queries\<close>

definition list_billing_rate_schedules ::
  "practice_db \<Rightarrow> string \<Rightarrow> string option \<Rightarrow> string option \<Rightarrow> rate_schedule list" where
  "list_billing_rate_schedules db user matter timekeeper =
     sort_key (\<lambda>s. (case rs_matter_id s of None \<Rightarrow> [] | Some m \<Rightarrow> m, rs_timekeeper s, - effective_start s))
       (filter (\<lambda>s. rs_user_id s = user \<and> (matter = None \<or> rs_matter_id s = matter) \<and>
                    (timekeeper = None \<or> Some (rs_timekeeper s) = timekeeper)) (schedules db))"

definition list_time_entries :: "practice_db \<Rightarrow> string \<Rightarrow> string \<Rightarrow> time_entry list" where
  "list_time_entries db user matter =
     sort_key (\<lambda>e. (- te_entry_date e, - te_created_at e))
       (filter (\<lambda>e. te_user_id e = user \<and> te_matter_id e = matter) (time_entries db))"

definition list_expense_entries :: "practice_db \<Rightarrow> string \<Rightarrow> string \<Rightarrow> expense_entry list" where
  "list_expense_entries db user matter =
     sort_key (\<lambda>e. (- ee_entry_date e, - ee_created_at e))
       (filter (\<lambda>e. ee_user_id e = user \<and> ee_matter_id e = matter) (expense_entries db))"

section \<open>Rate schedules\<close>

definition schedule_applies :: "rate_schedule \<Rightarrow> int \<Rightarrow> bool" where
  "schedule_applies s d \<longleftrightarrow> effective_start s \<le> d \<and> (case effective_end s of None \<Rightarrow> True | Some e \<Rightarrow> d \<le> e)"

definition best_schedule :: "rate_schedule list \<Rightarrow> int \<Rightarrow> rate_schedule option" where
  "best_schedule ss d = max_by_key effective_start (filter (\<lambda>s. schedule_applies s d) ss)"

definition schedule_matches_scope :: "rate_schedule \<Rightarrow> string option \<Rightarrow> bool" where
  "schedule_matches_scope s matter =
     (case matter of Some m \<Rightarrow> rs_matter_id s = Some m | None \<Rightarrow> rs_matter_id s = None)"

definition load_scoped_schedules :: "practice_db \<Rightarrow> string \<Rightarrow> string option \<Rightarrow> string \<Rightarrow> rate_schedule list" where
  "load_scoped_schedules db user matter timekeeper =
     filter (\<lambda>s. schedule_matches_scope s matter) (list_billing_rate_schedules db user matter (Some timekeeper))"

definition date_ranges_overlap :: "int \<Rightarrow> int option \<Rightarrow> int \<Rightarrow> int option \<Rightarrow> bool" where
  "date_ranges_overlap left_start left_end right_start right_end \<longleftrightarrow>
     (case left_end of None \<Rightarrow> True | Some e \<Rightarrow> right_start \<le> e) \<and>
     (case right_end of None \<Rightarrow> True | Some e \<Rightarrow> left_start \<le> e)"

definition matching_schedule_for_snapshot ::
  "rate_schedule list \<Rightarrow> int \<Rightarrow> decimal option \<Rightarrow> rate_schedule option" where
  "matching_schedule_for_snapshot ss d resolved =
     (case resolved of
        None \<Rightarrow> None
      | Some r \<Rightarrow> max_by_key effective_start (filter (\<lambda>s. rs_rate s = r) (filter (\<lambda>s. schedule_applies s d) ss)))"

datatype schedule_error = InvalidRange | Overlap rate_schedule

definition validate_billing_rate_schedule_date_range :: "int \<Rightarrow> int option \<Rightarrow> schedule_error + unit" where
  "validate_billing_rate_schedule_date_range start fin =
     (case fin of Some e \<Rightarrow> if e < start then Inl InvalidRange else Inr () | None \<Rightarrow> Inr ())"

fun check_overlaps :: "int \<Rightarrow> int option \<Rightarrow> uuid option \<Rightarrow> rate_schedule list \<Rightarrow> schedule_error + unit" where
  "check_overlaps start fin excl [] = Inr ()"
| "check_overlaps start fin excl (s # ss) =
     (if excl = Some (rs_id s) then check_overlaps start fin excl ss
      else if date_ranges_overlap start fin (effective_start s) (effective_end s) then Inl (Overlap s)
      else check_overlaps start fin excl ss)"

definition ensure_no_overlapping_billing_rate_schedule ::
  "practice_db \<Rightarrow> string \<Rightarrow> string option \<Rightarrow> string \<Rightarrow> int \<Rightarrow> int option \<Rightarrow> uuid option \<Rightarrow> schedule_error + unit" where
  "ensure_no_overlapping_billing_rate_schedule db user matter timekeeper start fin excl =
     (case validate_billing_rate_schedule_date_range start fin of
        Inl e \<Rightarrow> Inl e
      | Inr _ \<Rightarrow> check_overlaps start fin excl (load_scoped_schedules db user matter timekeeper))"

definition create_billing_rate_schedule :: "rate_schedule \<Rightarrow> practice_db \<Rightarrow> practice_db" where
  "create_billing_rate_schedule s db = db\<lparr>schedules := schedules db @ [s]\<rparr>"

section \<open>The rate of a time entry\<close>

record resolved_rate =
  rr_rate :: "decimal option"
  rr_source :: "billing_rate_source option"
  rr_matched :: "rate_schedule option"
  rr_fallback :: "fallback_reason option"

record rate_snapshot =
  sn_entry_date :: int
  sn_manual_rate :: "decimal option"
  sn_persisted_rate :: "decimal option"
  sn_persisted_source :: "billing_rate_source option"

definition from_schedule :: "billing_rate_source \<Rightarrow> rate_schedule \<Rightarrow> resolved_rate" where
  "from_schedule src s = \<lparr>rr_rate = Some (rs_rate s), rr_source = Some src, rr_matched = Some s, rr_fallback = None\<rparr>"

definition manual_rate :: "decimal option \<Rightarrow> resolved_rate" where
  "manual_rate r =
     \<lparr>rr_rate = r, rr_source = map_option (\<lambda>_. ManualOverride) r, rr_matched = None,
      rr_fallback = Some (if r \<noteq> None then FallbackManualOverride else NoRateFound)\<rparr>"

definition resolve_time_entry_rate_details ::
  "practice_db \<Rightarrow> string \<Rightarrow> string \<Rightarrow> string \<Rightarrow> int \<Rightarrow> decimal option \<Rightarrow> resolved_rate" where
  "resolve_time_entry_rate_details db user matter timekeeper d manual =
     (case best_schedule (load_scoped_schedules db user (Some matter) timekeeper) d of
        Some s \<Rightarrow> from_schedule MatterOverride s
      | None \<Rightarrow>
          (case best_schedule (load_scoped_schedules db user None timekeeper) d of
             Some s \<Rightarrow> from_schedule TimekeeperDefault s
           | None \<Rightarrow> manual_rate manual))"

definition review_time_entry_rate_from_schedules ::
  "rate_schedule list \<Rightarrow> rate_schedule list \<Rightarrow> rate_snapshot \<Rightarrow> resolved_rate" where
  "review_time_entry_rate_from_schedules matter_ss default_ss sn =
     (case sn_persisted_source sn of
        Some MatterOverride \<Rightarrow>
          \<lparr>rr_rate = sn_persisted_rate sn, rr_source = Some MatterOverride,
           rr_matched = matching_schedule_for_snapshot matter_ss (sn_entry_date sn) (sn_persisted_rate sn), rr_fallback = None\<rparr>
      | Some TimekeeperDefault \<Rightarrow>
          \<lparr>rr_rate = sn_persisted_rate sn, rr_source = Some TimekeeperDefault,
           rr_matched = matching_schedule_for_snapshot default_ss (sn_entry_date sn) (sn_persisted_rate sn), rr_fallback = None\<rparr>
      | Some ManualOverride \<Rightarrow>
          \<lparr>rr_rate = (case sn_persisted_rate sn of Some r \<Rightarrow> Some r | None \<Rightarrow> sn_manual_rate sn),
           rr_source = Some ManualOverride, rr_matched = None, rr_fallback = Some FallbackManualOverride\<rparr>
      | None \<Rightarrow>
          (if sn_persisted_rate sn \<noteq> None
           then \<lparr>rr_rate = sn_persisted_rate sn, rr_source = None, rr_matched = None, rr_fallback = None\<rparr>
           else (case best_schedule matter_ss (sn_entry_date sn) of
                   Some s \<Rightarrow> from_schedule MatterOverride s
                 | None \<Rightarrow>
                     (case best_schedule default_ss (sn_entry_date sn) of
                        Some s \<Rightarrow> from_schedule TimekeeperDefault s
                      | None \<Rightarrow> manual_rate (sn_manual_rate sn)))))"

definition review_time_entry_rate ::
  "practice_db \<Rightarrow> string \<Rightarrow> string \<Rightarrow> string \<Rightarrow> rate_snapshot \<Rightarrow> resolved_rate" where
  "review_time_entry_rate db user matter timekeeper sn =
     review_time_entry_rate_from_schedules
       (load_scoped_schedules db user (Some matter) timekeeper) (load_scoped_schedules db user None timekeeper) sn"

definition resolve_time_entry_rate ::
  "practice_db \<Rightarrow> string \<Rightarrow> string \<Rightarrow> string \<Rightarrow> int \<Rightarrow> decimal option \<Rightarrow> decimal option \<times> billing_rate_source option" where
  "resolve_time_entry_rate db user matter timekeeper d manual =
     (let r = resolve_time_entry_rate_details db user matter timekeeper d manual in (rr_rate r, rr_source r))"

section \<open>UTBMS codes, block billing, the LEDES check\<close>

text \<open>The regular expressions \<open>^B\d{3}$\<close> and \<open>^A\d{3}$\<close>.\<close>

definition utbms_match :: "char \<Rightarrow> string \<Rightarrow> bool" where
  "utbms_match c v \<longleftrightarrow> length v = 4 \<and> hd v = c \<and> list_all is_digit (tl v)"

definition normalize_code :: "char \<Rightarrow> string \<Rightarrow> string option \<Rightarrow> string + string option" where
  "normalize_code c msg raw =
     (let value = (case raw of
                     None \<Rightarrow> None
                   | Some r \<Rightarrow> let v = uppercase (trim r) in if v = [] then None else Some v)
      in case value of
           Some v \<Rightarrow> if \<not> utbms_match c v then Inl msg else Inr value
         | None \<Rightarrow> Inr value)"

definition normalize_task_code :: "string option \<Rightarrow> string + string option" where
  "normalize_task_code = normalize_code (CHR ''B'') ''task_code must match UTBMS format like B110''"

definition normalize_activity_code :: "string option \<Rightarrow> string + string option" where
  "normalize_activity_code = normalize_code (CHR ''A'') ''activity_code must match UTBMS format like A101''"

definition detect_block_billing :: "string \<Rightarrow> string option" where
  "detect_block_billing description =
     (let normalized = lowercase (trim description);
          separator_count = length (filter (\<lambda>matched. matched)
            [CHR '';'' \<in> set normalized, str_contains normalized '' and '', str_contains normalized '' / '',
             count_list normalized (CHR '','') \<ge> 2])
      in if separator_count \<ge> 2 \<or> CHR '';'' \<in> set normalized
         then Some ''entry appears to describe multiple tasks in one billed block'' else None)"

datatype ledes_field = TaskCode | ActivityCode

record ledes_error =
  le_line_item_id :: uuid
  le_time_entry_id :: "uuid option"
  le_description :: string
  le_sort_order :: int
  le_missing :: "ledes_field list"

abbreviation blank_code :: "string option \<Rightarrow> bool" where
  "blank_code c \<equiv> (case c of None \<Rightarrow> True | Some v \<Rightarrow> trim v = [])"

definition missing_fields :: "line_item \<Rightarrow> ledes_field list" where
  "missing_fields item =
     (if blank_code (li_task_code item) then [TaskCode] else []) @
     (if blank_code (li_activity_code item) then [ActivityCode] else [])"

definition validate_ledes98b_line_items :: "line_item list \<Rightarrow> ledes_error list" where
  "validate_ledes98b_line_items items =
     sort_key le_sort_order
       (map (\<lambda>i. \<lparr>le_line_item_id = li_id i, le_time_entry_id = li_time_entry_id i, le_description = li_description i,
                  le_sort_order = li_sort_order i, le_missing = missing_fields i\<rparr>)
         (filter (\<lambda>i. missing_fields i \<noteq> []) (filter (\<lambda>i. li_expense_entry_id i = None) items)))"

section \<open>Draft invoices\<close>

record draft_line =
  dl_params :: line_item_params
  dl_rate :: "resolved_rate option"

record draft_invoice_result =
  dr_invoice :: invoice_params
  dr_items :: "draft_line list"

type_synonym schedule_cache = "(string, rate_schedule list) hashmap"

definition cached_scoped_schedules ::
  "practice_db \<Rightarrow> string \<Rightarrow> string option \<Rightarrow> string \<Rightarrow> schedule_cache \<Rightarrow> rate_schedule list \<times> schedule_cache" where
  "cached_scoped_schedules db user matter timekeeper cache =
     (case hm_get cache timekeeper of
        Some ss \<Rightarrow> (ss, cache)
      | None \<Rightarrow> let ss = load_scoped_schedules db user matter timekeeper in (ss, hm_insert timekeeper ss cache))"

definition sort_order_at :: "nat \<Rightarrow> int" where
  "sort_order_at n = (if n < 2 ^ 31 then int n else 0)"

definition entry_snapshot :: "time_entry \<Rightarrow> rate_snapshot" where
  "entry_snapshot e = \<lparr>sn_entry_date = te_entry_date e, sn_manual_rate = te_hourly_rate e,
     sn_persisted_rate = te_resolved_rate e, sn_persisted_source = te_rate_source e\<rparr>"

text \<open>The rate of one entry, with the two caches of the loop.\<close>

definition draft_rate ::
  "practice_db \<Rightarrow> string \<Rightarrow> string \<Rightarrow> time_entry \<Rightarrow> schedule_cache \<times> schedule_cache \<Rightarrow>
   resolved_rate \<times> schedule_cache \<times> schedule_cache" where
  "draft_rate db user matter e caches =
     (case caches of (mc, dc) \<Rightarrow>
        let sn = entry_snapshot e; tk = te_timekeeper e
        in case sn_persisted_source sn of
             Some MatterOverride \<Rightarrow>
               (case cached_scoped_schedules db user (Some matter) tk mc of
                  (ss, mc') \<Rightarrow> (review_time_entry_rate_from_schedules ss [] sn, mc', dc))
           | Some TimekeeperDefault \<Rightarrow>
               (case cached_scoped_schedules db user None tk dc of
                  (ss, dc') \<Rightarrow> (review_time_entry_rate_from_schedules [] ss sn, mc, dc'))
           | Some ManualOverride \<Rightarrow> (review_time_entry_rate_from_schedules [] [] sn, mc, dc)
           | None \<Rightarrow>
               if sn_persisted_rate sn \<noteq> None then (review_time_entry_rate_from_schedules [] [] sn, mc, dc)
               else (case cached_scoped_schedules db user (Some matter) tk mc of
                       (ms, mc') \<Rightarrow>
                         (case cached_scoped_schedules db user None tk dc of
                            (ds, dc') \<Rightarrow> (review_time_entry_rate_from_schedules ms ds sn, mc', dc'))))"

definition time_line :: "(int \<Rightarrow> string) \<Rightarrow> time_entry \<Rightarrow> resolved_rate \<Rightarrow> nat \<Rightarrow> draft_line" where
  "time_line fmt e rr n =
     (let (rate, src) = (case te_resolved_rate e of
                           Some r \<Rightarrow> (Some r, te_rate_source e)
                         | None \<Rightarrow> (rr_rate rr, rr_source rr));
          unit_price = (case rate of Some r \<Rightarrow> r | None \<Rightarrow> 0)
      in \<lparr>dl_params =
            \<lparr>li_description = ''Time: '' @ te_description e @ '' ('' @ te_timekeeper e @ '' on '' @ fmt (te_entry_date e) @ '')'',
             li_quantity = te_hours e, li_unit_price = unit_price, li_amount = round_dp2 (te_hours e * unit_price),
             li_time_entry_id = Some (te_id e), li_expense_entry_id = None,
             li_task_code = te_task_code e, li_activity_code = te_activity_code e,
             li_timekeeper = Some (te_timekeeper e), li_resolved_rate = rate, li_rate_source = src,
             li_sort_order = sort_order_at n\<rparr>,
          dl_rate = Some rr\<rparr>)"

definition expense_line :: "(int \<Rightarrow> string) \<Rightarrow> expense_entry \<Rightarrow> nat \<Rightarrow> draft_line" where
  "expense_line fmt e n =
     \<lparr>dl_params =
        \<lparr>li_description = ''Expense: '' @ ee_description e @ '' ('' @ fmt (ee_entry_date e) @ '')'',
         li_quantity = 1, li_unit_price = ee_amount e, li_amount = round_dp2 (ee_amount e),
         li_time_entry_id = None, li_expense_entry_id = Some (ee_id e),
         li_task_code = None, li_activity_code = None, li_timekeeper = None, li_resolved_rate = None,
         li_rate_source = None, li_sort_order = sort_order_at n\<rparr>,
      dl_rate = None\<rparr>"

fun draft_times ::
  "(int \<Rightarrow> string) \<Rightarrow> practice_db \<Rightarrow> string \<Rightarrow> string \<Rightarrow> time_entry list \<Rightarrow> schedule_cache \<times> schedule_cache \<Rightarrow>
   draft_line list \<Rightarrow> draft_line list" where
  "draft_times fmt db user matter [] caches items = items"
| "draft_times fmt db user matter (e # es) caches items =
     (if te_billed_invoice_id e \<noteq> None \<or> \<not> te_billable e then draft_times fmt db user matter es caches items
      else (case draft_rate db user matter e caches of
              (rr, caches') \<Rightarrow>
                draft_times fmt db user matter es caches' (items @ [time_line fmt e rr (length items)])))"

fun draft_expenses :: "(int \<Rightarrow> string) \<Rightarrow> expense_entry list \<Rightarrow> draft_line list \<Rightarrow> draft_line list" where
  "draft_expenses fmt [] items = items"
| "draft_expenses fmt (e # es) items =
     (if ee_billed_invoice_id e \<noteq> None \<or> \<not> ee_billable e then draft_expenses fmt es items
      else draft_expenses fmt es (items @ [expense_line fmt e (length items)]))"

definition draft_invoice ::
  "(int \<Rightarrow> string) \<Rightarrow> practice_db \<Rightarrow> string \<Rightarrow> string \<Rightarrow> string \<Rightarrow> int option \<Rightarrow> string option \<Rightarrow> draft_invoice_result" where
  "draft_invoice fmt db user matter number due memo =
     (let items = draft_expenses fmt (list_expense_entries db user matter)
                    (draft_times fmt db user matter (list_time_entries db user matter) ([], []) []);
          subtotal = round_dp2 (fold (\<lambda>i acc. acc + li_amount (dl_params i)) items 0);
          tax = 0;
          total = round_dp2 (subtotal + tax)
      in \<lparr>dr_invoice = \<lparr>inv_matter_id = matter, inv_number = trim number, inv_status = Draft, inv_issued_date = None,
                        inv_due_date = due, inv_subtotal = subtotal, inv_tax = tax, inv_total = total,
                        inv_paid_amount = 0, inv_notes = memo\<rparr>,
          dr_items = items\<rparr>)"

text \<open>\<open>show_dec\<close> renders a decimal in an error message.\<close>

definition validate_invoice_totals ::
  "(decimal \<Rightarrow> string) \<Rightarrow> invoice_params \<Rightarrow> line_item_params list \<Rightarrow> database_error + unit" where
  "validate_invoice_totals show_dec ip items =
     (let computed_subtotal = round_dp2 (fold (\<lambda>i acc. acc + li_amount i) items 0);
          computed_total = round_dp2 (inv_subtotal ip + inv_tax ip)
      in if computed_subtotal \<noteq> round_dp2 (inv_subtotal ip)
         then Inl (Constraint (''invoice subtotal '' @ show_dec (round_dp2 (inv_subtotal ip)) @
                   '' does not match line-item sum '' @ show_dec computed_subtotal))
         else if computed_total \<noteq> round_dp2 (inv_total ip)
         then Inl (Constraint (''invoice total '' @ show_dec (round_dp2 (inv_total ip)) @
                   '' does not equal subtotal + tax '' @ show_dec computed_total))
         else Inr ())"

definition to_invoice :: "uuid \<Rightarrow> string \<Rightarrow> invoice_params \<Rightarrow> invoice" where
  "to_invoice i user ip = invoice_params.extend ip (invoice.fields i user)"

definition to_line_item :: "string \<Rightarrow> uuid \<Rightarrow> uuid \<Rightarrow> line_item_params \<Rightarrow> line_item" where
  "to_line_item user ip i item = line_item_params.extend item (line_item.fields i user ip)"

text \<open>The clauses of the tables \<open>invoices\<close> and \<open>invoice_line_items\<close>.\<close>

definition invoice_row_ok :: "practice_db \<Rightarrow> invoice \<Rightarrow> bool" where
  "invoice_row_ok db row \<longleftrightarrow>
     inv_subtotal row \<ge> 0 \<and> inv_tax row \<ge> 0 \<and> inv_total row \<ge> 0 \<and> inv_paid_amount row \<ge> 0 \<and>
     (\<forall>i \<in> set (invoices db). \<not> (inv_user_id i = inv_user_id row \<and> inv_number i = inv_number row))"

definition line_row_ok :: "line_item \<Rightarrow> bool" where
  "line_row_ok row \<longleftrightarrow> li_quantity row > 0 \<and> li_unit_price row \<ge> 0 \<and> li_amount row \<ge> 0"

text \<open>\<open>inv_uuid\<close> and \<open>uuids\<close> are the fresh identifiers of the invoice and of its line items.\<close>

definition save_invoice_draft ::
  "uuid \<Rightarrow> uuid list \<Rightarrow> string \<Rightarrow> invoice_params \<Rightarrow> line_item_params list \<Rightarrow> practice_db \<Rightarrow>
   (database_error + invoice \<times> line_item list) \<times> practice_db" where
  "save_invoice_draft inv_uuid uuids user ip items db =
     (if round_dp2 (inv_subtotal ip + inv_tax ip) \<noteq> round_dp2 (inv_total ip)
      then (Inl (Constraint ''invoice total must equal subtotal + tax''), db)
      else if inv_paid_amount ip > inv_total ip
      then (Inl (Constraint ''invoice paid_amount cannot exceed total''), db)
      else let row = to_invoice inv_uuid user ip;
               rows = map2 (to_line_item user inv_uuid) uuids items
           in if \<not> invoice_row_ok db row \<or> \<not> list_all line_row_ok rows then (Inl Engine, db)
              else (Inr (row, rows), db\<lparr>invoices := invoices db @ [row], line_items := line_items db @ rows\<rparr>))"

definition save_draft ::
  "(decimal \<Rightarrow> string) \<Rightarrow> uuid \<Rightarrow> uuid list \<Rightarrow> string \<Rightarrow> draft_invoice_result \<Rightarrow> practice_db \<Rightarrow>
   (database_error + invoice \<times> line_item list) \<times> practice_db" where
  "save_draft show_dec inv_uuid uuids user draft db =
     (let params = map dl_params (dr_items draft)
      in case validate_invoice_totals show_dec (dr_invoice draft) params of
           Inl e \<Rightarrow> (Inl e, db)
         | Inr _ \<Rightarrow> save_invoice_draft inv_uuid uuids user (dr_invoice draft) params db)"

section \<open>Rounding\<close>

lemma round_half_even_int [simp]: "round_half_even (of_int n) = n"
  by (simp add: round_half_even_def)

lemma round_half_even_mono: "x \<le> y \<Longrightarrow> round_half_even x \<le> round_half_even y"
proof -
  assume le: "x \<le> y"
  then have f: "\<lfloor>x\<rfloor> \<le> \<lfloor>y\<rfloor>" by (rule floor_mono)
  show ?thesis
  proof (cases "\<lfloor>x\<rfloor> = \<lfloor>y\<rfloor>")
    case True
    then show ?thesis using le by (auto simp: round_half_even_def Let_def)
  next
    case False
    then have "\<lfloor>x\<rfloor> + 1 \<le> \<lfloor>y\<rfloor>" using f by simp
    then show ?thesis by (auto simp: round_half_even_def Let_def)
  qed
qed

lemma whole_cents_iff: "whole_cents x \<longleftrightarrow> (\<exists>n. x = of_int n / 100)"
  unfolding whole_cents_def by (metis floor_of_int nonzero_eq_divide_eq zero_neq_numeral)

lemma whole_cents_round [simp]: "whole_cents (round_dp2 x)"
  by (auto simp: whole_cents_iff round_dp2_def)

lemma round_dp2_whole: "whole_cents x \<Longrightarrow> round_dp2 x = x"
  by (auto simp: whole_cents_iff round_dp2_def)

lemma round_dp2_idem [simp]: "round_dp2 (round_dp2 x) = round_dp2 x"
  by (simp add: round_dp2_whole)

lemma round_dp2_mono: "x \<le> y \<Longrightarrow> round_dp2 x \<le> round_dp2 y"
  by (simp add: round_dp2_def divide_right_mono round_half_even_mono)

lemma round_dp2_0 [simp]: "round_dp2 0 = 0"
  using round_half_even_int [of 0] by (simp add: round_dp2_def)

lemma round_dp2_nonneg: "0 \<le> x \<Longrightarrow> 0 \<le> round_dp2 x"
  using round_dp2_mono [of 0 x] by simp

lemma whole_cents_0 [simp]: "whole_cents 0"
  using whole_cents_round [of 0] by simp

lemma whole_cents_add: "whole_cents x \<Longrightarrow> whole_cents y \<Longrightarrow> whole_cents (x + y)"
  unfolding whole_cents_iff by (metis add_divide_distrib of_int_add)

lemma whole_cents_uminus: "whole_cents x \<Longrightarrow> whole_cents (- x)"
  unfolding whole_cents_iff by (metis minus_divide_left of_int_minus)

lemma whole_cents_diff: "whole_cents x \<Longrightarrow> whole_cents y \<Longrightarrow> whole_cents (x - y)"
  using whole_cents_add [of x "- y"] whole_cents_uminus by simp

lemma whole_cents_sum_list: "(\<And>x. x \<in> set xs \<Longrightarrow> whole_cents x) \<Longrightarrow> whole_cents (sum_list xs)"
  by (induction xs) (auto intro: whole_cents_add)

text \<open>\<open>fold\<close> over an accumulator is the sum.\<close>

lemma fold_plus: "fold (\<lambda>i acc. acc + f i) xs (a::rat) = a + sum_list (map f xs)"
  by (induction xs arbitrary: a) auto

section \<open>Schedules\<close>

definition range_valid :: "int \<Rightarrow> int option \<Rightarrow> bool" where
  "range_valid s fin \<longleftrightarrow> (case fin of None \<Rightarrow> True | Some e \<Rightarrow> s \<le> e)"

definition in_range :: "int \<Rightarrow> int option \<Rightarrow> int \<Rightarrow> bool" where
  "in_range s fin d \<longleftrightarrow> s \<le> d \<and> (case fin of None \<Rightarrow> True | Some e \<Rightarrow> d \<le> e)"

lemma schedule_applies_in_range: "schedule_applies s d = in_range (effective_start s) (effective_end s) d"
  by (simp add: schedule_applies_def in_range_def)

lemma overlap_common_day:
  assumes "range_valid a ae" "range_valid b be"
  shows "date_ranges_overlap a ae b be \<longleftrightarrow> (\<exists>d. in_range a ae d \<and> in_range b be d)"
proof
  assume "date_ranges_overlap a ae b be"
  then have "in_range a ae (max a b) \<and> in_range b be (max a b)"
    using assms by (auto simp: date_ranges_overlap_def range_valid_def in_range_def split: option.splits)
  then show "\<exists>d. in_range a ae d \<and> in_range b be d" by blast
next
  assume "\<exists>d. in_range a ae d \<and> in_range b be d"
  then show "date_ranges_overlap a ae b be"
    by (auto simp: date_ranges_overlap_def in_range_def split: option.splits)
qed

lemma check_overlaps_ok:
  "check_overlaps start fin excl ss = Inr () \<longleftrightarrow>
     (\<forall>s \<in> set ss. excl = Some (rs_id s) \<or> \<not> date_ranges_overlap start fin (effective_start s) (effective_end s))"
  by (induction ss) auto

lemma set_load_scoped:
  "s \<in> set (load_scoped_schedules db user matter tk) \<longleftrightarrow>
     s \<in> set (schedules db) \<and> rs_user_id s = user \<and> rs_matter_id s = matter \<and> rs_timekeeper s = tk"
  by (auto simp: load_scoped_schedules_def list_billing_rate_schedules_def schedule_matches_scope_def
      split: option.splits)

text \<open>Schedules of one user, scope and timekeeper never share a day.\<close>

definition schedules_ok :: "rate_schedule list \<Rightarrow> bool" where
  "schedules_ok ss \<longleftrightarrow>
     (\<forall>s \<in> set ss. range_valid (effective_start s) (effective_end s)) \<and>
     (\<forall>i < length ss. \<forall>j < i. \<forall>d.
        rs_user_id (ss ! i) = rs_user_id (ss ! j) \<longrightarrow> rs_matter_id (ss ! i) = rs_matter_id (ss ! j) \<longrightarrow>
        rs_timekeeper (ss ! i) = rs_timekeeper (ss ! j) \<longrightarrow>
        \<not> (schedule_applies (ss ! i) d \<and> schedule_applies (ss ! j) d))"

lemma schedules_ok_unique:
  assumes "schedules_ok ss" "s \<in> set ss" "t \<in> set ss" "schedule_applies s d" "schedule_applies t d"
    "rs_user_id s = rs_user_id t" "rs_matter_id s = rs_matter_id t" "rs_timekeeper s = rs_timekeeper t"
  shows "s = t"
proof -
  obtain i j where i: "i < length ss" "s = ss ! i" and j: "j < length ss" "t = ss ! j"
    using assms(2,3) by (auto simp: in_set_conv_nth)
  consider "i = j" | "j < i" | "i < j" by linarith
  then show ?thesis
    using assms(1,4-8) i j unfolding schedules_ok_def by cases (metis (no_types, lifting))+
qed

lemma schedules_ok_snoc:
  assumes ok: "schedules_ok ss" and v: "range_valid (effective_start s) (effective_end s)"
    and sep: "\<And>t d. t \<in> set ss \<Longrightarrow> rs_user_id t = rs_user_id s \<Longrightarrow> rs_matter_id t = rs_matter_id s \<Longrightarrow>
      rs_timekeeper t = rs_timekeeper s \<Longrightarrow> schedule_applies s d \<Longrightarrow> schedule_applies t d \<Longrightarrow> False"
  shows "schedules_ok (ss @ [s])"
  unfolding schedules_ok_def
proof (intro conjI ballI allI impI)
  fix t assume "t \<in> set (ss @ [s])"
  then show "range_valid (effective_start t) (effective_end t)" using ok v by (auto simp: schedules_ok_def)
next
  fix i j d
  assume i: "i < length (ss @ [s])" and j: "j < i"
    and eq: "rs_user_id ((ss @ [s]) ! i) = rs_user_id ((ss @ [s]) ! j)"
      "rs_matter_id ((ss @ [s]) ! i) = rs_matter_id ((ss @ [s]) ! j)"
      "rs_timekeeper ((ss @ [s]) ! i) = rs_timekeeper ((ss @ [s]) ! j)"
  show "\<not> (schedule_applies ((ss @ [s]) ! i) d \<and> schedule_applies ((ss @ [s]) ! j) d)"
  proof (cases "i = length ss")
    case True
    then show ?thesis using sep [of "ss ! j" d] eq j by (auto simp: nth_append)
  next
    case False
    then have "i < length ss" using i by simp
    then show ?thesis using ok eq j by (auto simp: schedules_ok_def nth_append)
  qed
qed

lemma best_schedule_Some:
  assumes "best_schedule ss d = Some s"
  shows "s \<in> set ss \<and> schedule_applies s d \<and> (\<forall>t \<in> set ss. schedule_applies t d \<longrightarrow> effective_start t \<le> effective_start s)"
  using max_by_key_Some [of effective_start "filter (\<lambda>s. schedule_applies s d) ss" s] assms
  by (auto simp: best_schedule_def)

lemma best_schedule_None: "best_schedule ss d = None \<longleftrightarrow> (\<forall>s \<in> set ss. \<not> schedule_applies s d)"
  by (simp add: best_schedule_def filter_empty_conv)

text \<open>The overlap check keeps rates unambiguous. If the schedules of the database never share a day
  within one user, scope and timekeeper, and the check accepts a new schedule's range, then this still
  holds once the schedule is stored; and then the schedule that applies on a day is the one that
  \<open>best_schedule\<close> selects, whatever the order of the rows.\<close>

theorem rates_unambiguous:
  assumes "schedules_ok (schedules db)"
    and "ensure_no_overlapping_billing_rate_schedule db (rs_user_id s) (rs_matter_id s) (rs_timekeeper s)
           (effective_start s) (effective_end s) None = Inr ()"
  shows "schedules_ok (schedules (create_billing_rate_schedule s db)) \<and>
    (\<forall>user matter tk d t. t \<in> set (load_scoped_schedules (create_billing_rate_schedule s db) user matter tk) \<and> schedule_applies t d \<longrightarrow>
       best_schedule (load_scoped_schedules (create_billing_rate_schedule s db) user matter tk) d = Some t)"
proof -
  let ?db = "create_billing_rate_schedule s db"
  have v: "range_valid (effective_start s) (effective_end s)"
    and c: "check_overlaps (effective_start s) (effective_end s) None
      (load_scoped_schedules db (rs_user_id s) (rs_matter_id s) (rs_timekeeper s)) = Inr ()"
    using assms(2) by (auto simp: ensure_no_overlapping_billing_rate_schedule_def
        validate_billing_rate_schedule_date_range_def range_valid_def split: option.splits if_splits)
  have ok: "schedules_ok (schedules ?db)"
    unfolding create_billing_rate_schedule_def
  proof (simp, rule schedules_ok_snoc [OF assms(1) v])
    fix t d
    assume t: "t \<in> set (schedules db)" "rs_user_id t = rs_user_id s" "rs_matter_id t = rs_matter_id s"
      "rs_timekeeper t = rs_timekeeper s" and d: "schedule_applies s d" "schedule_applies t d"
    from t c have "\<not> date_ranges_overlap (effective_start s) (effective_end s) (effective_start t) (effective_end t)"
      by (auto simp: check_overlaps_ok set_load_scoped)
    moreover have "range_valid (effective_start t) (effective_end t)" using t(1) assms(1) by (auto simp: schedules_ok_def)
    ultimately show False using d overlap_common_day [OF v] by (auto simp: schedule_applies_in_range)
  qed
  moreover have "best_schedule (load_scoped_schedules ?db user matter tk) d = Some t"
    if t: "t \<in> set (load_scoped_schedules ?db user matter tk)" "schedule_applies t d" for user matter tk d t
  proof (cases "best_schedule (load_scoped_schedules ?db user matter tk) d")
    case None
    then show ?thesis using t by (auto simp: best_schedule_None)
  next
    case (Some b)
    then show ?thesis
      using best_schedule_Some [OF Some] t schedules_ok_unique [OF ok, of b t d] by (auto simp: set_load_scoped)
  qed
  ultimately show ?thesis by blast
qed

theorem rates_unambiguous_witness:
  "schedules_ok [\<lparr>rs_id = 1, rs_user_id = ''u'', rs_matter_id = None, rs_timekeeper = ''t'', rs_rate = 100,
     effective_start = 0, effective_end = Some 9\<rparr>, \<lparr>rs_id = 2, rs_user_id = ''u'', rs_matter_id = None, rs_timekeeper = ''t'',
     rs_rate = 120, effective_start = 10, effective_end = None\<rparr>]"
proof -
  let ?a = "\<lparr>rs_id = 1, rs_user_id = ''u'', rs_matter_id = None, rs_timekeeper = ''t'', rs_rate = 100,
     effective_start = 0, effective_end = Some 9\<rparr>"
  let ?b = "\<lparr>rs_id = 2, rs_user_id = ''u'', rs_matter_id = None, rs_timekeeper = ''t'', rs_rate = 120,
     effective_start = 10, effective_end = None\<rparr>"
  let ?db = "\<lparr>schedules = [?a], time_entries = [], expense_entries = [], invoices = [], line_items = [],
     trust_accounts = [], trust_ledger = []\<rparr>"
  have "schedules_ok (schedules ?db)" by (simp add: schedules_ok_def range_valid_def)
  moreover have "ensure_no_overlapping_billing_rate_schedule ?db (rs_user_id ?b) (rs_matter_id ?b) (rs_timekeeper ?b)
      (effective_start ?b) (effective_end ?b) None = Inr ()"
    by (simp add: ensure_no_overlapping_billing_rate_schedule_def validate_billing_rate_schedule_date_range_def
        load_scoped_schedules_def list_billing_rate_schedules_def schedule_matches_scope_def date_ranges_overlap_def)
  ultimately show ?thesis using rates_unambiguous [of ?db ?b] by (simp add: create_billing_rate_schedule_def)
qed

section \<open>The resolved rate\<close>

lemma review_unpersisted:
  "review_time_entry_rate db user matter tk \<lparr>sn_entry_date = d, sn_manual_rate = m, sn_persisted_rate = None, sn_persisted_source = None\<rparr>
     = resolve_time_entry_rate_details db user matter tk d m"
  by (simp add: review_time_entry_rate_def review_time_entry_rate_from_schedules_def resolve_time_entry_rate_details_def
      cong: option.case_cong)

text \<open>The schedule \<open>s\<close> is in force on day \<open>d\<close> for the scope: it applies, and none that applies starts later.\<close>

definition in_force :: "practice_db \<Rightarrow> string \<Rightarrow> string option \<Rightarrow> string \<Rightarrow> int \<Rightarrow> rate_schedule \<Rightarrow> bool" where
  "in_force db user matter tk d s \<longleftrightarrow>
     s \<in> set (schedules db) \<and> rs_user_id s = user \<and> rs_matter_id s = matter \<and> rs_timekeeper s = tk \<and> schedule_applies s d \<and>
     (\<forall>t \<in> set (schedules db). rs_user_id t = user \<and> rs_matter_id t = matter \<and> rs_timekeeper t = tk \<and> schedule_applies t d
        \<longrightarrow> effective_start t \<le> effective_start s)"

lemma best_scoped_cases:
  obtains "best_schedule (load_scoped_schedules db user matter tk) d = None" "\<And>s. \<not> in_force db user matter tk d s"
  | s where "best_schedule (load_scoped_schedules db user matter tk) d = Some s" "in_force db user matter tk d s"
proof (cases "best_schedule (load_scoped_schedules db user matter tk) d")
  case None
  then have "\<not> in_force db user matter tk d s" for s
    by (auto simp: best_schedule_None set_load_scoped in_force_def)
  with None show ?thesis by (rule that(1))
next
  case (Some s)
  then show ?thesis using that(2) best_schedule_Some [OF Some] by (auto simp: set_load_scoped in_force_def)
qed

text \<open>The rate of a time entry is that of a matter schedule in force on its day if there is one, else
  that of the timekeeper's default schedule in force, else the manual rate; the source, the matched
  schedule and the fallback reason report which of the three it was.\<close>

theorem rate_precedence:
  "case rr_source (resolve_time_entry_rate_details db user matter tk d manual) of
     Some MatterOverride \<Rightarrow> \<exists>s. in_force db user (Some matter) tk d s \<and>
       resolve_time_entry_rate_details db user matter tk d manual = from_schedule MatterOverride s
   | Some TimekeeperDefault \<Rightarrow> (\<nexists>s. in_force db user (Some matter) tk d s) \<and> (\<exists>s. in_force db user None tk d s \<and>
       resolve_time_entry_rate_details db user matter tk d manual = from_schedule TimekeeperDefault s)
   | _ \<Rightarrow> (\<nexists>s. in_force db user (Some matter) tk d s) \<and> (\<nexists>s. in_force db user None tk d s) \<and>
       resolve_time_entry_rate_details db user matter tk d manual = manual_rate manual"
proof (cases rule: best_scoped_cases [of db user "Some matter" tk d])
  case 1
  then show ?thesis
    by (cases rule: best_scoped_cases [of db user None tk d]; cases manual)
      (auto simp: resolve_time_entry_rate_details_def from_schedule_def manual_rate_def)
qed (auto simp: resolve_time_entry_rate_details_def from_schedule_def)

section \<open>Draft invoices\<close>

definition caches_ok :: "practice_db \<Rightarrow> string \<Rightarrow> string \<Rightarrow> schedule_cache \<times> schedule_cache \<Rightarrow> bool" where
  "caches_ok db user matter caches \<longleftrightarrow>
     (\<forall>tk ss. hm_get (fst caches) tk = Some ss \<longrightarrow> ss = load_scoped_schedules db user (Some matter) tk) \<and>
     (\<forall>tk ss. hm_get (snd caches) tk = Some ss \<longrightarrow> ss = load_scoped_schedules db user None tk)"

lemma cached_scoped_schedules_eq:
  assumes "\<forall>tk ss. hm_get cache tk = Some ss \<longrightarrow> ss = load_scoped_schedules db user matter tk"
  shows "\<exists>cache'. cached_scoped_schedules db user matter tk cache = (load_scoped_schedules db user matter tk, cache') \<and>
    (\<forall>tk ss. hm_get cache' tk = Some ss \<longrightarrow> ss = load_scoped_schedules db user matter tk)"
  using assms by (auto simp: cached_scoped_schedules_def hm_get_insert Let_def split: option.splits)

lemma draft_rate_eq:
  assumes "caches_ok db user matter caches"
  shows "\<exists>caches'. draft_rate db user matter e caches =
      (review_time_entry_rate db user matter (te_timekeeper e) (entry_snapshot e), caches') \<and> caches_ok db user matter caches'"
proof -
  obtain mc dc where c: "caches = (mc, dc)" by (cases caches)
  let ?tk = "te_timekeeper e"
  obtain mc' where m: "cached_scoped_schedules db user (Some matter) ?tk mc = (load_scoped_schedules db user (Some matter) ?tk, mc')"
    "\<forall>tk ss. hm_get mc' tk = Some ss \<longrightarrow> ss = load_scoped_schedules db user (Some matter) tk"
    using cached_scoped_schedules_eq [of mc db user "Some matter" ?tk] assms c by (auto simp: caches_ok_def)
  obtain dc' where d: "cached_scoped_schedules db user None ?tk dc = (load_scoped_schedules db user None ?tk, dc')"
    "\<forall>tk ss. hm_get dc' tk = Some ss \<longrightarrow> ss = load_scoped_schedules db user None tk"
    using cached_scoped_schedules_eq [of dc db user None ?tk] assms c by (auto simp: caches_ok_def)
  show ?thesis
    using assms c m d
    by (auto simp: draft_rate_def review_time_entry_rate_def review_time_entry_rate_from_schedules_def caches_ok_def Let_def
        split: option.splits billing_rate_source.splits)
qed

abbreviation to_bill :: "time_entry \<Rightarrow> bool" where
  "to_bill e \<equiv> te_billed_invoice_id e = None \<and> te_billable e"

abbreviation exp_to_bill :: "expense_entry \<Rightarrow> bool" where
  "exp_to_bill e \<equiv> ee_billed_invoice_id e = None \<and> ee_billable e"

lemma draft_times_eq:
  "caches_ok db user matter caches \<Longrightarrow>
   draft_times fmt db user matter es caches items = items @
     map (\<lambda>(n, e). time_line fmt e (review_time_entry_rate db user matter (te_timekeeper e) (entry_snapshot e)) n)
       (enumerate (length items) (filter to_bill es))"
proof (induction es arbitrary: caches items)
  case (Cons e es)
  show ?case
  proof (cases "to_bill e")
    case True
    obtain caches' where "draft_rate db user matter e caches =
        (review_time_entry_rate db user matter (te_timekeeper e) (entry_snapshot e), caches')" "caches_ok db user matter caches'"
      using draft_rate_eq [OF Cons.prems, of e] by blast
    then show ?thesis using True Cons.IH by simp
  qed (use Cons in auto)
qed simp

lemma draft_expenses_eq:
  "draft_expenses fmt es items = items @
     map (\<lambda>(n, e). expense_line fmt e n) (enumerate (length items) (filter exp_to_bill es))"
  by (induction es arbitrary: items) auto

text \<open>The line items a draft should have: the unbilled billable time entries at their reviewed rates, then
  the unbilled billable expenses, numbered in this order.\<close>

definition draft_spec :: "(int \<Rightarrow> string) \<Rightarrow> practice_db \<Rightarrow> string \<Rightarrow> string \<Rightarrow> draft_line list" where
  "draft_spec fmt db user matter =
     (let ts = filter to_bill (list_time_entries db user matter);
          es = filter exp_to_bill (list_expense_entries db user matter)
      in map (\<lambda>(n, e). time_line fmt e (review_time_entry_rate db user matter (te_timekeeper e) (entry_snapshot e)) n) (enumerate 0 ts)
         @ map (\<lambda>(n, e). expense_line fmt e n) (enumerate (length ts) es))"

lemma draft_items: "dr_items (draft_invoice fmt db user matter number due memo) = draft_spec fmt db user matter"
  using draft_times_eq [of db user matter "([], [])" fmt "list_time_entries db user matter" "[]"]
  by (simp add: draft_invoice_def draft_spec_def Let_def draft_expenses_eq caches_ok_def)

lemma draft_amounts: "i \<in> set (draft_spec fmt db user matter) \<Longrightarrow> whole_cents (li_amount (dl_params i))"
  by (auto simp: draft_spec_def Let_def time_line_def expense_line_def split: prod.splits)

lemma draft_totals:
  "inv_subtotal (dr_invoice (draft_invoice fmt db user matter number due memo)) =
     sum_list (map (\<lambda>i. li_amount (dl_params i)) (draft_spec fmt db user matter))"
  "inv_total (dr_invoice (draft_invoice fmt db user matter number due memo)) =
     inv_subtotal (dr_invoice (draft_invoice fmt db user matter number due memo))"
  "inv_tax (dr_invoice (draft_invoice fmt db user matter number due memo)) = 0"
proof -
  have "whole_cents (sum_list (map (\<lambda>i. li_amount (dl_params i)) (draft_spec fmt db user matter)))"
    by (rule whole_cents_sum_list) (auto simp: draft_amounts)
  then show "inv_subtotal (dr_invoice (draft_invoice fmt db user matter number due memo)) =
     sum_list (map (\<lambda>i. li_amount (dl_params i)) (draft_spec fmt db user matter))"
    using draft_items [of fmt db user matter number due memo]
    by (simp add: draft_invoice_def Let_def fold_plus round_dp2_whole)
qed (simp_all add: draft_invoice_def Let_def)

text \<open>C5: A draft invoice bills exactly the matter's unbilled billable time entries and expenses, each
  once and in order, at the rate a fresh look at the schedules gives (the per-timekeeper caches of the
  loop change nothing); its subtotal and total are the exact sum of its line items, which are whole
  cents; so \<open>save_draft\<close> never rejects it for its totals.\<close>

theorem draft_invoice_correct:
  "let r = draft_invoice fmt db user matter number due memo in
     dr_items r = draft_spec fmt db user matter
   \<and> inv_subtotal (dr_invoice r) = (\<Sum>i\<leftarrow>draft_spec fmt db user matter. li_amount (dl_params i))
   \<and> inv_total (dr_invoice r) = inv_subtotal (dr_invoice r)
   \<and> inv_status (dr_invoice r) = Draft \<and> inv_paid_amount (dr_invoice r) = 0
   \<and> validate_invoice_totals show_dec (dr_invoice r) (map dl_params (dr_items r)) = Inr ()
   \<and> save_draft show_dec i ids user' r db' = save_invoice_draft i ids user' (dr_invoice r) (map dl_params (dr_items r)) db'"
proof -
  let ?r = "draft_invoice fmt db user matter number due memo"
  have "round_dp2 (inv_subtotal (dr_invoice ?r)) = inv_subtotal (dr_invoice ?r)"
    by (simp add: draft_invoice_def Let_def)
  then have v: "validate_invoice_totals show_dec (dr_invoice ?r) (map dl_params (dr_items ?r)) = Inr ()"
    using draft_totals [of fmt db user matter number due memo] draft_items [of fmt db user matter number due memo]
    by (simp add: validate_invoice_totals_def Let_def fold_plus comp_def)
  then show ?thesis
    using draft_totals [of fmt db user matter number due memo] draft_items [of fmt db user matter number due memo]
    by (simp add: Let_def save_draft_def) (simp add: draft_invoice_def Let_def)
qed

section \<open>Codes\<close>

lemma upper_char_idem: "upper_char (upper_char c) = upper_char c"
proof (cases "is_lower c")
  case True
  then have "(of_char c :: nat) \<le> 122" by (simp add: is_lower_def)
  then have "(of_char c :: nat) - 32 < 256" by linarith
  then have "(of_char (char_of ((of_char c :: nat) - 32)) :: nat) = of_char c - 32" by simp
  moreover from \<open>(of_char c :: nat) \<le> 122\<close> have "\<not> 97 \<le> (of_char c :: nat) - 32" by linarith
  ultimately have "\<not> is_lower (char_of ((of_char c :: nat) - 32))" by (simp only: is_lower_def not_False_eq_True simp_thms)
  with True show ?thesis by (simp add: upper_char_def)
qed (simp add: upper_char_def)

lemma normalize_code_match: "normalize_code c msg raw = Inr (Some v) \<Longrightarrow> utbms_match c v \<and> v \<noteq> [] \<and> uppercase v = v"
  by (auto simp: normalize_code_def Let_def uppercase_def upper_char_idem split: option.splits if_splits)

lemma trim_no_ws: "(\<And>c. c \<in> set s \<Longrightarrow> \<not> is_ws c) \<Longrightarrow> trim s = s"
proof -
  assume n: "\<And>c. c \<in> set s \<Longrightarrow> \<not> is_ws c"
  then have "trim_start s = s" by (cases s) (auto simp: trim_start_def)
  moreover have "trim_end s = s" using n by (cases s rule: rev_cases) (auto simp: trim_end_def)
  ultimately show ?thesis by (simp add: trim_def)
qed

lemma utbms_no_ws: "utbms_match c v \<Longrightarrow> \<not> is_ws c \<Longrightarrow> x \<in> set v \<Longrightarrow> \<not> is_ws x"
  by (cases v) (auto simp: utbms_match_def list_all_iff is_digit_def is_ws_def)

lemma normalize_code_idem:
  assumes "normalize_code c msg raw = Inr v" and "\<not> is_ws c"
  shows "normalize_code c msg v = Inr v"
proof (cases v)
  case (Some w)
  with assms normalize_code_match [of c msg raw w] have "trim w = w" "utbms_match c w" "w \<noteq> []" "uppercase w = w"
    using trim_no_ws [of w] utbms_no_ws by auto
  with Some show ?thesis by (simp add: normalize_code_def)
qed (simp add: normalize_code_def)

text \<open>UTBMS codes are normalised once and for all: an accepted task code is \<open>B\<close> and three digits, an accepted
  activity code \<open>A\<close> and three digits, and normalising an accepted code again returns it.\<close>

theorem utbms_codes:
  "(normalize_task_code raw = Inr (Some v) \<longrightarrow> utbms_match (CHR ''B'') v \<and> normalize_task_code (Some v) = Inr (Some v)) \<and>
   (normalize_activity_code raw = Inr (Some v) \<longrightarrow> utbms_match (CHR ''A'') v \<and> normalize_activity_code (Some v) = Inr (Some v))"
  using normalize_code_idem normalize_code_match
  by (auto simp: normalize_task_code_def normalize_activity_code_def is_ws_def)

theorem utbms_codes_witness: "normalize_task_code (Some ''B110'') = Inr (Some ''B110'')"
proof -
  have "normalize_task_code (Some '' b110'') = Inr (Some ''B110'')" by code_simp
  then show ?thesis using utbms_codes [of "Some '' b110''" "''B110''"] by simp
qed

lemma sort_key_Nil_iff: "sort_key f xs = [] \<longleftrightarrow> xs = []"
  using length_sort [of f xs] by (auto simp del: length_sort)

text \<open>The LEDES check reports nothing exactly when every fee line has both codes.\<close>

theorem ledes_check_complete:
  "validate_ledes98b_line_items items = [] \<longleftrightarrow>
     (\<forall>i. i \<in> set items \<and> li_expense_entry_id i = None \<longrightarrow> \<not> blank_code (li_task_code i) \<and> \<not> blank_code (li_activity_code i))"
proof -
  have "validate_ledes98b_line_items items = [] \<longleftrightarrow> (\<forall>i \<in> set items. li_expense_entry_id i = None \<longrightarrow> missing_fields i = [])"
    unfolding validate_ledes98b_line_items_def sort_key_Nil_iff by (auto simp: filter_empty_conv)
  then show ?thesis by (auto simp: missing_fields_def split: if_splits)
qed

end
