(* ===== verification/Trust_Ledger.thy ===== *)
theory Trust_Ledger
  imports Legal_Billing
begin

text \<open>
  Invoices and client money in trust: the billing store of the libSQL backend
  (\<open>src/db/libsql/legal_practice.rs\<close>, from \<open>set_invoice_status\<close> to \<open>current_trust_balance\<close>), the primary trust
  account (\<open>legal_hardening.rs\<close>) and their callers in \<open>src/legal/billing.rs\<close>. A transaction
  (\<open>BEGIN IMMEDIATE\<close> to \<open>COMMIT\<close> or \<open>ROLLBACK\<close>) is one atomic state transformer that leaves the tables
  as they were when it fails. The primary account is created on a connection of its own, so it
  survives a rollback.
\<close>

section \<open>Trust accounts and the balance of an account\<close>

definition get_primary_trust_account :: "string \<Rightarrow> practice_db \<Rightarrow> trust_account option" where
  "get_primary_trust_account user db = find (\<lambda>a. ta_user_id a = user \<and> ta_is_primary a) (trust_accounts db)"

definition upsert_primary_trust_account ::
  "uuid \<Rightarrow> string \<Rightarrow> string \<Rightarrow> string option \<Rightarrow> string option \<Rightarrow> practice_db \<Rightarrow> trust_account \<times> practice_db" where
  "upsert_primary_trust_account fresh user name bank last4 db =
     (case get_primary_trust_account user db of
        Some a \<Rightarrow>
          let upd = (\<lambda>r. r\<lparr>ta_name := name, ta_bank_name := bank, ta_last4 := last4\<rparr>)
          in (upd a, db\<lparr>trust_accounts := map (\<lambda>r. if ta_user_id r = user \<and> ta_id r = ta_id a then upd r else r) (trust_accounts db)\<rparr>)
      | None \<Rightarrow>
          let a = \<lparr>ta_id = fresh, ta_user_id = user, ta_name = name, ta_bank_name = bank, ta_last4 = last4, ta_is_primary = True\<rparr>
          in (a, db\<lparr>trust_accounts := trust_accounts db @ [a]\<rparr>))"

definition primary_account_or_new :: "uuid \<Rightarrow> string \<Rightarrow> practice_db \<Rightarrow> uuid \<times> practice_db" where
  "primary_account_or_new fresh user db =
     (case get_primary_trust_account user db of
        Some a \<Rightarrow> (ta_id a, db)
      | None \<Rightarrow> (case upsert_primary_trust_account fresh user ''Primary IOLTA'' None None db of (a, db') \<Rightarrow> (ta_id a, db')))"

text \<open>The rows of an account, in the order of their insertion, and the newest \<open>balance_after\<close>:
  \<open>ORDER BY created_at DESC, rowid DESC LIMIT 1\<close> is the last row of the greatest time stamp.\<close>

definition account_rows :: "string \<Rightarrow> uuid \<Rightarrow> practice_db \<Rightarrow> trust_entry list" where
  "account_rows user acct db = filter (\<lambda>e. tl_user_id e = user \<and> tl_account_id e = Some acct) (trust_ledger db)"

definition account_balance :: "string \<Rightarrow> uuid \<Rightarrow> practice_db \<Rightarrow> decimal" where
  "account_balance user acct db =
     (case max_by_key tl_created_at (account_rows user acct db) of Some e \<Rightarrow> tl_balance_after e | None \<Rightarrow> 0)"

record ledger_params =
  lp_account_id :: "uuid option"
  lp_entry_type :: ledger_entry_type
  lp_amount :: decimal
  lp_delta :: decimal
  lp_description :: string
  lp_reference_number :: "string option"
  lp_source :: ledger_source
  lp_invoice_id :: "uuid option"
  lp_recorded_by :: string

definition append_trust_ledger_entry ::
  "uuid \<Rightarrow> uuid \<Rightarrow> nat \<Rightarrow> string \<Rightarrow> string \<Rightarrow> ledger_params \<Rightarrow> practice_db \<Rightarrow> (database_error + trust_entry) \<times> practice_db" where
  "append_trust_ledger_entry fresh entry_id now user matter p db =
     (case (case lp_account_id p of Some i \<Rightarrow> (i, db) | None \<Rightarrow> primary_account_or_new fresh user db) of
        (acct, db1) \<Rightarrow>
          let balance_after = round_dp2 (account_balance user acct db1 + lp_delta p);
              e = \<lparr>tl_id = entry_id, tl_user_id = user, tl_matter_id = matter, tl_account_id = Some acct,
                   tl_entry_type = lp_entry_type p, tl_amount = lp_amount p, tl_delta = lp_delta p,
                   tl_balance_after = balance_after, tl_description = lp_description p,
                   tl_reference_number = lp_reference_number p, tl_source = lp_source p,
                   tl_invoice_id = lp_invoice_id p, tl_recorded_by = lp_recorded_by p, tl_created_at = now\<rparr>
          in if balance_after < 0 then (Inl (Constraint ''insufficient trust balance for requested entry''), db1)
             else if lp_amount p \<le> 0 then (Inl Engine, db1)
             else (Inr e, db1\<lparr>trust_ledger := trust_ledger db1 @ [e]\<rparr>))"

section \<open>Invoices\<close>

definition status_str :: "invoice_status \<Rightarrow> string" where
  "status_str s = (case s of Draft \<Rightarrow> ''draft'' | Sent \<Rightarrow> ''sent'' | Paid \<Rightarrow> ''paid'' | Void \<Rightarrow> ''void'' | WriteOff \<Rightarrow> ''write_off'')"

definition get_invoice :: "string \<Rightarrow> uuid \<Rightarrow> practice_db \<Rightarrow> invoice option" where
  "get_invoice user i db = find (\<lambda>r. inv_user_id r = user \<and> inv_id r = i) (invoices db)"

definition update_invoice :: "string \<Rightarrow> uuid \<Rightarrow> (invoice \<Rightarrow> invoice) \<Rightarrow> practice_db \<Rightarrow> practice_db" where
  "update_invoice user i f db =
     db\<lparr>invoices := map (\<lambda>r. if inv_user_id r = user \<and> inv_id r = i then f r else r) (invoices db)\<rparr>"


text \<open>The identifiers of the line items in order, each once.\<close>

fun first_seen :: "'a list \<Rightarrow> 'a list \<Rightarrow> 'a list" where
  "first_seen seen [] = []"
| "first_seen seen (x # xs) = (if x \<in> set seen then first_seen seen xs else x # first_seen (x # seen) xs)"

definition invoice_lines :: "string \<Rightarrow> uuid \<Rightarrow> practice_db \<Rightarrow> line_item list" where
  "invoice_lines user i db =
     sort_key li_sort_order (filter (\<lambda>l. li_user_id l = user \<and> li_invoice_id l = i) (line_items db))"

text \<open>The loop that marks the entries of an invoice as billed; it runs once over the time entries and once
  over the expenses, so it takes the columns of the table.\<close>

fun bill_rows ::
  "('e \<Rightarrow> string) \<Rightarrow> ('e \<Rightarrow> uuid) \<Rightarrow> ('e \<Rightarrow> uuid option) \<Rightarrow> (uuid \<Rightarrow> 'e \<Rightarrow> 'e) \<Rightarrow> string \<Rightarrow> string \<Rightarrow>
   string \<Rightarrow> uuid \<Rightarrow> uuid list \<Rightarrow> 'e list \<Rightarrow> database_error + 'e list" where
  "bill_rows user_of id_of billed_of bill missing other user i [] rows = Inr rows"
| "bill_rows user_of id_of billed_of bill missing other user i (t # ts) rows =
     (case find (\<lambda>e. user_of e = user \<and> id_of e = t) rows of
        None \<Rightarrow> Inl (Constraint missing)
      | Some e \<Rightarrow>
          if billed_of e \<noteq> None \<and> billed_of e \<noteq> Some i then Inl (Constraint other)
          else bill_rows user_of id_of billed_of bill missing other user i ts
                 (map (\<lambda>e. if user_of e = user \<and> id_of e = t \<and> billed_of e = None then bill i e else e) rows))"

definition bill_time :: "uuid \<Rightarrow> time_entry \<Rightarrow> time_entry" where
  "bill_time i e = e\<lparr>te_billed_invoice_id := Some i\<rparr>"

definition bill_expense :: "uuid \<Rightarrow> expense_entry \<Rightarrow> expense_entry" where
  "bill_expense i e = e\<lparr>ee_billed_invoice_id := Some i\<rparr>"

definition bill_times :: "string \<Rightarrow> uuid \<Rightarrow> uuid list \<Rightarrow> practice_db \<Rightarrow> database_error + practice_db" where
  "bill_times user i ts db =
     (case bill_rows te_user_id te_id te_billed_invoice_id bill_time
             ''Invoice references missing time entries''
             ''Invoice includes time entries already billed on another invoice'' user i ts (time_entries db) of
        Inl e \<Rightarrow> Inl e | Inr rows \<Rightarrow> Inr (db\<lparr>time_entries := rows\<rparr>))"

definition bill_expenses :: "string \<Rightarrow> uuid \<Rightarrow> uuid list \<Rightarrow> practice_db \<Rightarrow> database_error + practice_db" where
  "bill_expenses user i xs db =
     (case bill_rows ee_user_id ee_id ee_billed_invoice_id bill_expense
             ''Invoice references missing expense entries''
             ''Invoice includes expenses already billed on another invoice'' user i xs (expense_entries db) of
        Inl e \<Rightarrow> Inl e | Inr rows \<Rightarrow> Inr (db\<lparr>expense_entries := rows\<rparr>))"

definition finalize_invoice_atomic ::
  "int \<Rightarrow> string \<Rightarrow> uuid \<Rightarrow> practice_db \<Rightarrow> (database_error + invoice option) \<times> practice_db" where
  "finalize_invoice_atomic today user i db =
     (case get_invoice user i db of
        None \<Rightarrow> (Inr None, db)
      | Some invc \<Rightarrow>
          if inv_status invc \<noteq> Draft then (Inl (Constraint ''Only draft invoices can be finalized''), db)
          else
            let lines = invoice_lines user i db;
                time_ids = first_seen [] (List.map_filter li_time_entry_id lines);
                expense_ids = first_seen [] (List.map_filter li_expense_entry_id lines)
            in (case bill_times user i time_ids db of
                  Inl e \<Rightarrow> (Inl e, db)
                | Inr db1 \<Rightarrow>
                    (case bill_expenses user i expense_ids db1 of
                       Inl e \<Rightarrow> (Inl e, db)
                     | Inr db2 \<Rightarrow>
                         let db3 = update_invoice user i (\<lambda>r. r\<lparr>inv_status := Sent,
                               inv_issued_date := (case inv_issued_date r of Some d \<Rightarrow> Some d | None \<Rightarrow> Some today)\<rparr>) db2
                         in (case get_invoice user i db3 of
                               None \<Rightarrow> (Inl (Query ''failed to reload finalized invoice''), db)
                             | Some r \<Rightarrow> (Inr (Some r), db3)))))"

section \<open>Payments\<close>

definition paid_after :: "invoice \<Rightarrow> decimal \<Rightarrow> decimal" where
  "paid_after invc amount =
     (let new_paid = round_dp2 (inv_paid_amount invc + amount)
      in if new_paid > inv_total invc then inv_total invc else new_paid)"

definition status_after :: "invoice \<Rightarrow> decimal \<Rightarrow> invoice_status" where
  "status_after invc new_paid = (if new_paid \<ge> inv_total invc then Paid else inv_status invc)"


record payment_params =
  pp_amount :: decimal
  pp_draw_from_trust :: bool
  pp_recorded_by :: string
  pp_description :: "string option"

definition trust_payment_row :: "uuid \<Rightarrow> nat \<Rightarrow> string \<Rightarrow> invoice \<Rightarrow> uuid \<Rightarrow> payment_params \<Rightarrow> decimal \<Rightarrow> trust_entry" where
  "trust_payment_row entry_id now user invc acct p balance_after =
     \<lparr>tl_id = entry_id, tl_user_id = user, tl_matter_id = inv_matter_id invc, tl_account_id = Some acct,
      tl_entry_type = InvoicePayment, tl_amount = pp_amount p, tl_delta = round_dp2 (- pp_amount p),
      tl_balance_after = balance_after,
      tl_description = (case pp_description p of
                          Some d \<Rightarrow> if trim d = [] then ''Invoice payment from trust'' else trim d
                        | None \<Rightarrow> ''Invoice payment from trust''),
      tl_reference_number = None, tl_source = FromInvoicePayment, tl_invoice_id = Some (inv_id invc),
      tl_recorded_by = pp_recorded_by p, tl_created_at = now\<rparr>"

text \<open>The withdrawal inside the transaction: the error comes with the tables that outlive the rollback.\<close>

definition draw_trust ::
  "uuid \<Rightarrow> uuid \<Rightarrow> nat \<Rightarrow> string \<Rightarrow> invoice \<Rightarrow> payment_params \<Rightarrow> practice_db \<Rightarrow>
   database_error \<times> practice_db + trust_entry \<times> practice_db" where
  "draw_trust fresh entry_id now user invc p db =
     (case primary_account_or_new fresh user db of
        (acct, db1) \<Rightarrow>
          let balance_after = round_dp2 (account_balance user acct db1 - pp_amount p);
              e = trust_payment_row entry_id now user invc acct p balance_after
          in if balance_after < 0
             then Inl (Constraint ''insufficient trust balance for requested entry'', db1)
             else Inr (e, db1\<lparr>trust_ledger := trust_ledger db1 @ [e]\<rparr>))"

definition settle ::
  "string \<Rightarrow> uuid \<Rightarrow> invoice \<Rightarrow> decimal \<Rightarrow> trust_entry option \<Rightarrow> practice_db \<Rightarrow>
   database_error + (invoice \<times> trust_entry option) option \<times> practice_db" where
  "settle user i invc new_paid te db =
     (let db' = update_invoice user i (\<lambda>r. r\<lparr>inv_paid_amount := new_paid, inv_status := status_after invc new_paid\<rparr>) db
      in case get_invoice user i db' of
           None \<Rightarrow> Inl (Query ''invoice disappeared after update'')
         | Some r \<Rightarrow> Inr (Some (r, te), db'))"

definition record_invoice_payment ::
  "(decimal \<Rightarrow> string) \<Rightarrow> uuid \<Rightarrow> uuid \<Rightarrow> nat \<Rightarrow> string \<Rightarrow> uuid \<Rightarrow> payment_params \<Rightarrow> practice_db \<Rightarrow>
   (database_error + (invoice \<times> trust_entry option) option) \<times> practice_db" where
  "record_invoice_payment show_dec fresh entry_id now user i p db =
     (if pp_amount p \<le> 0 then (Inl (Constraint ''Payment amount must be greater than 0''), db)
      else case get_invoice user i db of
        None \<Rightarrow> (Inr None, db)
      | Some invc \<Rightarrow>
          if inv_status invc \<noteq> Sent
          then (Inl (Constraint (''Cannot record payment for invoice with status '' @ [CHR 0x27] @ status_str (inv_status invc) @ [CHR 0x27])), db)
          else
            let remaining = round_dp2 (inv_total invc - inv_paid_amount invc)
            in if remaining \<le> 0 then (Inl (Constraint ''Invoice has no remaining balance''), db)
               else if pp_amount p > remaining
               then (Inl (Constraint (''Payment amount '' @ show_dec (round_dp2 (pp_amount p)) @ '' exceeds remaining balance '' @ show_dec remaining)), db)
               else
                 let new_paid = paid_after invc (pp_amount p)
                 in if pp_draw_from_trust p
                    then (case draw_trust fresh entry_id now user invc p db of
                            Inl (e, db1) \<Rightarrow> (Inl e, db1)
                          | Inr (te, db1) \<Rightarrow>
                              (case settle user i invc new_paid (Some te) db1 of
                                 Inl e \<Rightarrow> (Inl e, snd (primary_account_or_new fresh user db))
                               | Inr (r, db2) \<Rightarrow> (Inr r, db2)))
                    else (case settle user i invc new_paid None db of
                            Inl e \<Rightarrow> (Inl e, db)
                          | Inr (r, db1) \<Rightarrow> (Inr r, db1)))"

section \<open>The callers in \<open>billing.rs\<close>\<close>

definition finalize_invoice ::
  "(database_error \<Rightarrow> string) \<Rightarrow> int \<Rightarrow> string \<Rightarrow> uuid \<Rightarrow> practice_db \<Rightarrow> (string + invoice) \<times> practice_db" where
  "finalize_invoice show_err today user i db =
     (case finalize_invoice_atomic today user i db of
        (Inl e, db') \<Rightarrow> (Inl (show_err e), db')
      | (Inr None, db') \<Rightarrow> (Inl ''Invoice not found'', db')
      | (Inr (Some r), db') \<Rightarrow> (Inr r, db'))"

definition payment_error :: "(database_error \<Rightarrow> string) \<Rightarrow> database_error \<Rightarrow> string" where
  "payment_error show_err e =
     (case e of
        Constraint m \<Rightarrow> if str_contains (lowercase m) ''insufficient trust balance''
                        then ''Trust balance is insufficient for this payment'' else m
      | _ \<Rightarrow> show_err e)"

definition record_payment ::
  "(decimal \<Rightarrow> string) \<Rightarrow> (database_error \<Rightarrow> string) \<Rightarrow> uuid \<Rightarrow> uuid \<Rightarrow> nat \<Rightarrow> string \<Rightarrow> uuid \<Rightarrow> decimal \<Rightarrow> string \<Rightarrow> bool \<Rightarrow>
   string option \<Rightarrow> practice_db \<Rightarrow> (string + invoice \<times> trust_entry option) \<times> practice_db" where
  "record_payment show_dec show_err fresh entry_id now user i amount recorded_by draw description db =
     (if amount \<le> 0 then (Inl ''Payment amount must be greater than 0'', db)
      else case record_invoice_payment show_dec fresh entry_id now user i
             \<lparr>pp_amount = amount, pp_draw_from_trust = draw, pp_recorded_by = trim recorded_by,
              pp_description = map_option trim description\<rparr> db of
        (Inl e, db') \<Rightarrow> (Inl (payment_error show_err e), db')
      | (Inr None, db') \<Rightarrow> (Inl ''Invoice not found'', db')
      | (Inr (Some r), db') \<Rightarrow> (Inr r, db'))"

definition record_trust_deposit ::
  "(database_error \<Rightarrow> string) \<Rightarrow> uuid \<Rightarrow> uuid \<Rightarrow> nat \<Rightarrow> string \<Rightarrow> string \<Rightarrow> decimal \<Rightarrow> string \<Rightarrow> string \<Rightarrow> string option \<Rightarrow>
   practice_db \<Rightarrow> (string + trust_entry) \<times> practice_db" where
  "record_trust_deposit show_err fresh entry_id now user matter amount recorded_by description reference db =
     (if amount \<le> 0 then (Inl ''Deposit amount must be greater than 0'', db)
      else case append_trust_ledger_entry fresh entry_id now user matter
             \<lparr>lp_account_id = None, lp_entry_type = Deposit, lp_amount = amount, lp_delta = amount,
              lp_description = trim description, lp_reference_number = reference, lp_source = Manual,
              lp_invoice_id = None, lp_recorded_by = trim recorded_by\<rparr> db of
        (Inl e, db') \<Rightarrow> (Inl (show_err e), db')
      | (Inr r, db') \<Rightarrow> (Inr r, db'))"

section \<open>What an operation leaves alone\<close>

lemma primary_account_ledger:
  "trust_ledger (snd (primary_account_or_new fresh user db)) = trust_ledger db"
  "invoices (snd (primary_account_or_new fresh user db)) = invoices db"
  "time_entries (snd (primary_account_or_new fresh user db)) = time_entries db"
  "expense_entries (snd (primary_account_or_new fresh user db)) = expense_entries db"
  by (auto simp: primary_account_or_new_def upsert_primary_trust_account_def Let_def split: option.splits)

lemma update_invoice_other [simp]:
  "trust_ledger (update_invoice user i f db) = trust_ledger db"
  "time_entries (update_invoice user i f db) = time_entries db"
  "expense_entries (update_invoice user i f db) = expense_entries db"
  by (simp_all add: update_invoice_def)

lemma account_rows_cong: "trust_ledger db = trust_ledger db' \<Longrightarrow> account_rows user acct db = account_rows user acct db'"
  by (simp add: account_rows_def)

lemma account_balance_cong: "trust_ledger db = trust_ledger db' \<Longrightarrow> account_balance user acct db = account_balance user acct db'"
  by (simp add: account_balance_def account_rows_def)



lemma find_map_same:
  assumes "\<And>x. P (f x) = P x"
  shows "find P (map (\<lambda>x. if P x then f x else x) xs) = map_option f (find P xs)"
  using assms by (induction xs) auto

lemma get_invoice_update:
  assumes "\<And>r. inv_user_id (f r) = inv_user_id r \<and> inv_id (f r) = inv_id r"
  shows "get_invoice user i (update_invoice user i f db) = map_option f (get_invoice user i db)"
  using find_map_same [of "\<lambda>r. inv_user_id r = user \<and> inv_id r = i" f "invoices db"] assms
  by (simp add: get_invoice_def update_invoice_def)

section \<open>The ledger\<close>

fun running :: "decimal \<Rightarrow> trust_entry list \<Rightarrow> bool" where
  "running b [] = True"
| "running b (e # es) \<longleftrightarrow>
     tl_balance_after e = b + tl_delta e \<and> 0 \<le> tl_balance_after e \<and> whole_cents (tl_delta e) \<and> running (tl_balance_after e) es"

abbreviation deltas :: "trust_entry list \<Rightarrow> decimal" where
  "deltas es \<equiv> sum_list (map tl_delta es)"

lemma running_snoc:
  "running b (es @ [e]) \<longleftrightarrow> running b es \<and> tl_balance_after e = b + deltas es + tl_delta e \<and>
     0 \<le> tl_balance_after e \<and> whole_cents (tl_delta e)"
proof (induction es arbitrary: b)
  case (Cons a es)
  have "running b ((a # es) @ [e]) \<longleftrightarrow> tl_balance_after a = b + tl_delta a \<and> 0 \<le> tl_balance_after a \<and> whole_cents (tl_delta a) \<and>
      running (tl_balance_after a) es \<and> tl_balance_after e = tl_balance_after a + deltas es + tl_delta e \<and>
      0 \<le> tl_balance_after e \<and> whole_cents (tl_delta e)"
    unfolding append_Cons running.simps Cons.IH by blast
  also have "\<dots> \<longleftrightarrow> running b (a # es) \<and> tl_balance_after e = b + deltas (a # es) + tl_delta e \<and>
      0 \<le> tl_balance_after e \<and> whole_cents (tl_delta e)"
    unfolding running.simps list.map sum_list.Cons by (metis add.assoc)
  finally show ?case .
qed (simp only: append_Nil running.simps list.map sum_list.Nil add_0_right simp_thms)

lemma running_last: "running b es \<Longrightarrow> es \<noteq> [] \<Longrightarrow> tl_balance_after (last es) = b + deltas es"
  by (cases es rule: rev_cases) (auto simp: running_snoc)

lemma running_whole: "running b es \<Longrightarrow> whole_cents (deltas es)"
  by (induction es arbitrary: b) (auto intro: whole_cents_add)



lemma max_by_key_sorted: "sorted (map f xs) \<Longrightarrow> xs \<noteq> [] \<Longrightarrow> max_by_key f xs = Some (last xs)"
proof (induction xs)
  case (Cons x xs)
  show ?case
  proof (cases "xs = []")
    case False
    then have "f x \<le> f (last xs)" using Cons.prems last_in_set [of xs] by simp
    then have "\<not> f (last xs) < f x" by simp
    then show ?thesis using False Cons by auto
  qed simp
qed simp

definition ledger_ok :: "practice_db \<Rightarrow> nat \<Rightarrow> bool" where
  "ledger_ok db now \<longleftrightarrow> (\<forall>user acct. running 0 (account_rows user acct db)) \<and>
     sorted (map tl_created_at (trust_ledger db)) \<and> (\<forall>e \<in> set (trust_ledger db). tl_created_at e \<le> now)"

lemma sorted_filter_map: "sorted (map f xs) \<Longrightarrow> sorted (map f (filter P xs))"
  by (rule sorted_filter)

lemma ledger_ok_balance:
  assumes "ledger_ok db now"
  shows "account_balance user acct db = deltas (account_rows user acct db)"
proof (cases "account_rows user acct db = []")
  case True
  then show ?thesis by (simp add: account_balance_def)
next
  case False
  have "sorted (map tl_created_at (account_rows user acct db))"
    using assms sorted_filter_map by (auto simp: ledger_ok_def account_rows_def)
  then have "max_by_key tl_created_at (account_rows user acct db) = Some (last (account_rows user acct db))"
    using False by (rule max_by_key_sorted)
  then show ?thesis using assms False running_last by (fastforce simp: account_balance_def ledger_ok_def)
qed



section \<open>Runs of the billing store\<close>



definition empty_practice_db :: practice_db where
  "empty_practice_db = \<lparr>schedules = [], time_entries = [], expense_entries = [], invoices = [], line_items = [],
     trust_accounts = [], trust_ledger = []\<rparr>"


lemma ledger_ok_whole: "ledger_ok db now \<Longrightarrow> whole_cents (account_balance user acct db)"
  using running_whole [of 0 "account_rows user acct db"] by (simp add: ledger_ok_balance) (simp add: ledger_ok_def)




lemma settle_ok:
  "get_invoice user i db = Some r \<Longrightarrow> settle user i invc n te db =
     Inr (Some (r\<lparr>inv_paid_amount := n, inv_status := status_after invc n\<rparr>, te),
          update_invoice user i (\<lambda>r. r\<lparr>inv_paid_amount := n, inv_status := status_after invc n\<rparr>) db)"
  by (simp add: settle_def get_invoice_update)

lemma draw_trust_invoices:
  "draw_trust fresh entry_id now user invc p db = Inr (te, db1) \<Longrightarrow> get_invoice user' i db1 = get_invoice user' i db"
  using primary_account_ledger(2) [of fresh user db]
  by (auto simp: draw_trust_def Let_def get_invoice_def split: prod.splits if_splits)

lemma record_invoice_payment_cases:
  assumes "record_invoice_payment show_dec fresh entry_id now user i p db = (r, db')"
  obtains (rejected) e where "r = Inl e" "db' = db"
  | (missing) "r = Inr None" "db' = db" "get_invoice user i db = None"
  | (no_funds) e invc where "draw_trust fresh entry_id now user invc p db = Inl (e, db')" "r = Inl e"
  | (paid) invc new te db1 where "get_invoice user i db = Some invc" "inv_status invc = Sent" "0 < pp_amount p"
      "pp_amount p \<le> round_dp2 (inv_total invc - inv_paid_amount invc)" "new = paid_after invc (pp_amount p)"
      "r = Inr (Some (invc\<lparr>inv_paid_amount := new, inv_status := status_after invc new\<rparr>, te))"
      "db' = update_invoice user i (\<lambda>r. r\<lparr>inv_paid_amount := new, inv_status := status_after invc new\<rparr>) db1"
      "if pp_draw_from_trust p then (\<exists>e. te = Some e \<and> draw_trust fresh entry_id now user invc p db = Inr (e, db1)) else te = None \<and> db1 = db"
proof (cases "get_invoice user i db")
  case None
  then show ?thesis using assms rejected missing by (auto simp: record_invoice_payment_def split: if_splits)
next
  case (Some invc)
  consider "pp_amount p \<le> 0" | "inv_status invc \<noteq> Sent" | "round_dp2 (inv_total invc - inv_paid_amount invc) < pp_amount p"
    | "0 < pp_amount p" "inv_status invc = Sent" "pp_amount p \<le> round_dp2 (inv_total invc - inv_paid_amount invc)" by force
  then show ?thesis
  proof cases
    case 4
    show ?thesis
    proof (cases "pp_draw_from_trust p")
      case False
      then show ?thesis using assms Some 4 paid [OF Some 4(2,1,3) refl, of None db] settle_ok [OF Some]
        by (auto simp: record_invoice_payment_def Let_def)
    next
      case True
      show ?thesis
      proof (cases "draw_trust fresh entry_id now user invc p db")
        case (Inl a)
        then show ?thesis using assms Some 4 True no_funds by (cases a) (auto simp: record_invoice_payment_def Let_def)
      next
        case (Inr a)
        then show ?thesis
          using assms Some 4 True paid [OF Some 4(2,1,3) refl, of "Some (fst a)" "snd a"]
            draw_trust_invoices [of fresh entry_id now user invc p db "fst a" "snd a" user i] settle_ok [of user i "snd a" invc]
          by (cases a) (auto simp: record_invoice_payment_def Let_def)
      qed
    qed
  qed (use assms Some rejected in \<open>auto simp: record_invoice_payment_def Let_def split: if_splits\<close>)
qed








section \<open>Payments are exact\<close>

lemma paid_after_exact:
  assumes "whole_cents a" "whole_cents (inv_total invc)" "whole_cents (inv_paid_amount invc)"
    "a \<le> round_dp2 (inv_total invc - inv_paid_amount invc)"
  shows "paid_after invc a = inv_paid_amount invc + a \<and> inv_paid_amount invc + a \<le> inv_total invc"
proof -
  have "round_dp2 (inv_total invc - inv_paid_amount invc) = inv_total invc - inv_paid_amount invc"
    using assms by (intro round_dp2_whole whole_cents_diff)
  then have le: "inv_paid_amount invc + a \<le> inv_total invc" using assms(4) by simp
  moreover have "round_dp2 (inv_paid_amount invc + a) = inv_paid_amount invc + a"
    using assms by (intro round_dp2_whole whole_cents_add)
  ultimately show ?thesis by (simp add: paid_after_def)
qed

lemma draw_trust_exact:
  assumes ok: "ledger_ok db now" and w: "whole_cents (pp_amount p)"
    and d: "draw_trust fresh entry_id now' user invc p db = Inr (e, db1)"
  shows "\<exists>acct. tl_account_id e = Some acct \<and> tl_user_id e = user \<and> tl_matter_id e = inv_matter_id invc \<and>
    trust_ledger db1 = trust_ledger db @ [e] \<and> tl_delta e = - pp_amount p \<and>
    tl_balance_after e = account_balance user acct db - pp_amount p \<and> pp_amount p \<le> account_balance user acct db"
proof -
  obtain acct db0 where a: "primary_account_or_new fresh user db = (acct, db0)" by (cases "primary_account_or_new fresh user db")
  then have l: "trust_ledger db0 = trust_ledger db" using primary_account_ledger(1) [of fresh user db] by simp
  then have bal: "account_balance user acct db0 = account_balance user acct db" by (rule account_balance_cong)
  have b: "round_dp2 (account_balance user acct db - pp_amount p) = account_balance user acct db - pp_amount p"
    "round_dp2 (- pp_amount p) = - pp_amount p"
    using w ledger_ok_whole [OF ok] by (intro round_dp2_whole whole_cents_diff whole_cents_uminus; simp)+
  show ?thesis using d a l bal b by (auto simp: draw_trust_def Let_def trust_payment_row_def split: if_splits)
qed

text \<open>C3: A recorded payment moves exactly its amount. With amounts in whole cents, the invoice's paid
  amount grows by the payment, never beyond the total, and the invoice becomes \<open>Paid\<close> exactly when the
  total is reached; a payment drawn from trust appends one ledger entry of exactly minus the amount,
  for the invoice's matter, covered by the account's balance; a payment from elsewhere leaves the ledger
  alone.\<close>

theorem payment_exact:
  assumes "record_invoice_payment show_dec fresh entry_id now' user i p db = (Inr (Some (invc', te)), db')"
    and "get_invoice user i db = Some invc"
    and "whole_cents (pp_amount p)" "whole_cents (inv_total invc)" "whole_cents (inv_paid_amount invc)"
    and "ledger_ok db now"
  shows "inv_paid_amount invc' = inv_paid_amount invc + pp_amount p \<and> inv_paid_amount invc' \<le> inv_total invc'
   \<and> inv_status invc = Sent \<and> (inv_status invc' = Paid \<longleftrightarrow> inv_paid_amount invc' = inv_total invc)
   \<and> get_invoice user i db' = Some invc'
   \<and> (case te of
        None \<Rightarrow> \<not> pp_draw_from_trust p \<and> trust_ledger db' = trust_ledger db
      | Some e \<Rightarrow> pp_draw_from_trust p \<and> trust_ledger db' = trust_ledger db @ [e] \<and> tl_delta e = - pp_amount p
          \<and> tl_matter_id e = inv_matter_id invc \<and> tl_amount e > 0
          \<and> (\<exists>acct. tl_account_id e = Some acct \<and> tl_balance_after e = account_balance user acct db - pp_amount p
               \<and> pp_amount p \<le> account_balance user acct db))"
  using assms(1)
proof (cases rule: record_invoice_payment_cases)
  case (paid invc0 new te0 db1)
  then have eq: "invc0 = invc" "te0 = te" and invc': "invc' = invc\<lparr>inv_paid_amount := new, inv_status := status_after invc new\<rparr>"
    using assms(2) by auto
  have new: "new = inv_paid_amount invc + pp_amount p" "new \<le> inv_total invc"
    using paid_after_exact [OF assms(3-5)] paid(4,5) eq by auto
  have inv: "get_invoice user i db1 = Some invc"
    using paid(8) draw_trust_invoices assms(2) by (auto split: if_splits)
  then have "get_invoice user i db' = Some invc'" using paid(7) eq invc' by (simp add: get_invoice_update)
  moreover have "inv_status invc' = Paid \<longleftrightarrow> inv_paid_amount invc' = inv_total invc"
    using new(2) paid(2) eq invc' by (auto simp: status_after_def)
  moreover have "case te of
        None \<Rightarrow> \<not> pp_draw_from_trust p \<and> trust_ledger db' = trust_ledger db
      | Some e \<Rightarrow> pp_draw_from_trust p \<and> trust_ledger db' = trust_ledger db @ [e] \<and> tl_delta e = - pp_amount p
          \<and> tl_matter_id e = inv_matter_id invc \<and> tl_amount e > 0
          \<and> (\<exists>acct. tl_account_id e = Some acct \<and> tl_balance_after e = account_balance user acct db - pp_amount p
               \<and> pp_amount p \<le> account_balance user acct db)"
  proof (cases "pp_draw_from_trust p")
    case True
    then obtain e where e: "te = Some e" "draw_trust fresh entry_id now' user invc p db = Inr (e, db1)"
      using paid(8) eq by auto
    then have "tl_amount e = pp_amount p"
      by (auto simp: draw_trust_def Let_def trust_payment_row_def split: prod.splits if_splits)
    then show ?thesis using draw_trust_exact [OF assms(6,3) e(2)] e(1) True paid(3,7) by auto
  next
    case False
    then show ?thesis using paid(7,8) eq by auto
  qed
  ultimately show ?thesis using new paid(2) eq invc' by simp
qed simp_all

theorem payment_exact_witness:
  "\<exists>invc'. fst (record_invoice_payment (\<lambda>_. []) 1 2 3 ''u'' 9 \<lparr>pp_amount = 40, pp_draw_from_trust = False,
        pp_recorded_by = ''clerk'', pp_description = None\<rparr>
      (empty_practice_db\<lparr>invoices := [\<lparr>inv_matter_id = ''m'', inv_number = ''1'', inv_status = Sent, inv_issued_date = None,
        inv_due_date = None, inv_subtotal = 100, inv_tax = 0, inv_total = 100, inv_paid_amount = 20, inv_notes = None,
        inv_id = 9, inv_user_id = ''u''\<rparr>]\<rparr>)) = Inr (Some (invc', None)) \<and> inv_paid_amount invc' = 60"
proof -
  let ?i = "\<lparr>inv_matter_id = ''m'', inv_number = ''1'', inv_status = Sent, inv_issued_date = None,
        inv_due_date = None, inv_subtotal = 100, inv_tax = 0, inv_total = 100, inv_paid_amount = 20, inv_notes = None,
        inv_id = 9, inv_user_id = ''u''\<rparr>"
  let ?p = "\<lparr>pp_amount = 40, pp_draw_from_trust = False, pp_recorded_by = ''clerk'', pp_description = None\<rparr>"
  let ?db = "empty_practice_db\<lparr>invoices := [?i]\<rparr>"
  have w: "whole_cents 40" "whole_cents 100" "whole_cents 20" "whole_cents 80" by (simp_all add: whole_cents_def)
  have g: "get_invoice ''u'' 9 ?db = Some ?i" by (simp add: get_invoice_def)
  obtain invc' db' where r: "record_invoice_payment (\<lambda>_. []) 1 2 3 ''u'' 9 ?p ?db = (Inr (Some (invc', None)), db')"
    using settle_ok [OF g] by (simp add: record_invoice_payment_def g round_dp2_whole [OF w(4)] Let_def)
  have "ledger_ok ?db 0" by (simp add: ledger_ok_def account_rows_def empty_practice_db_def)
  then show ?thesis using payment_exact [OF r g] w r by auto
qed

section \<open>Finalising an invoice\<close>

text \<open>The contract of a table whose rows can be billed, and what the marking loop does on any such table.\<close>

locale billable_table =
  fixes user_of :: "'e \<Rightarrow> string" and id_of :: "'e \<Rightarrow> uuid" and billed_of :: "'e \<Rightarrow> uuid option" and bill :: "uuid \<Rightarrow> 'e \<Rightarrow> 'e"
  assumes user_bill: "user_of (bill i e) = user_of e" and id_bill: "id_of (bill i e) = id_of e"
    and billed_bill: "billed_of (bill i e) = Some i"
begin

abbreviation lookup :: "string \<Rightarrow> uuid \<Rightarrow> 'e list \<Rightarrow> 'e option" where
  "lookup user t rows \<equiv> find (\<lambda>e. user_of e = user \<and> id_of e = t) rows"

abbreviation mark :: "string \<Rightarrow> uuid \<Rightarrow> uuid \<Rightarrow> 'e \<Rightarrow> 'e" where
  "mark user t i e \<equiv> (if user_of e = user \<and> id_of e = t \<and> billed_of e = None then bill i e else e)"

abbreviation changed :: "uuid \<Rightarrow> 'e \<Rightarrow> 'e \<Rightarrow> bool" where
  "changed i e e' \<equiv> e' = e \<or> billed_of e = None \<and> e' = bill i e"

abbreviation pass :: "string \<Rightarrow> string \<Rightarrow> string \<Rightarrow> uuid \<Rightarrow> uuid list \<Rightarrow> 'e list \<Rightarrow> database_error + 'e list" where
  "pass missing other \<equiv> bill_rows user_of id_of billed_of bill missing other"

lemma lookup_mark: "lookup user t (map (mark user t' i) rows) = map_option (mark user t' i) (lookup user t rows)"
  by (induction rows) (auto simp: user_bill id_bill)

lemma pass_Cons:
  assumes "pass missing other user i (t # ts) rows = Inr rows'"
  obtains e where "lookup user t rows = Some e" "billed_of e \<in> {None, Some i}"
    "pass missing other user i ts (map (mark user t i) rows) = Inr rows'"
  using assms by (auto split: option.splits if_splits)

lemma pass_changes: "pass missing other user i ts rows = Inr rows' \<Longrightarrow> list_all2 (changed i) rows rows'"
proof (induction ts arbitrary: rows)
  case Nil
  then show ?case by (auto intro!: list_all2_all_nthI)
next
  case (Cons t ts)
  from Cons.prems have "pass missing other user i ts (map (mark user t i) rows) = Inr rows'" by (rule pass_Cons)
  from Cons.IH [OF this] have "list_all2 (changed i) (map (mark user t i) rows) rows'" .
  moreover have "list_all2 (changed i) rows (map (mark user t i) rows)" by (auto simp: list_all2_conv_all_nth)
  ultimately show ?case
    by (intro list_all2_trans [of "changed i" "changed i" "changed i" rows "map (mark user t i) rows" rows'])
      (auto simp: billed_bill)
qed

lemma pass_before:
  "pass missing other user i ts rows = Inr rows' \<Longrightarrow> t \<in> set ts \<Longrightarrow>
     \<exists>e. lookup user t rows = Some e \<and> billed_of e \<in> {None, Some i}"
proof (induction ts arbitrary: rows)
  case (Cons t' ts)
  from Cons.prems(1) obtain e where e: "lookup user t' rows = Some e" "billed_of e \<in> {None, Some i}"
    "pass missing other user i ts (map (mark user t' i) rows) = Inr rows'" by (rule pass_Cons)
  show ?case
  proof (cases "t = t'")
    case False
    then obtain e' where "lookup user t (map (mark user t' i) rows) = Some e'" "billed_of e' \<in> {None, Some i}"
      using Cons.IH [OF e(3)] Cons.prems(2) by auto
    then show ?thesis by (auto simp: lookup_mark split: if_splits)
  qed (use e in auto)
qed simp

lemma pass_after:
  "pass missing other user i ts rows = Inr rows' \<Longrightarrow> t \<in> set ts \<or> (\<exists>e. lookup user t rows = Some e \<and> billed_of e = Some i) \<Longrightarrow>
     \<exists>e. lookup user t rows' = Some e \<and> billed_of e = Some i"
proof (induction ts arbitrary: rows)
  case (Cons t' ts)
  from Cons.prems(1) obtain e where e: "lookup user t' rows = Some e" "billed_of e \<in> {None, Some i}"
    "pass missing other user i ts (map (mark user t' i) rows) = Inr rows'" by (rule pass_Cons)
  have "user_of e = user \<and> id_of e = t'" using e(1) by (auto simp: find_Some_iff)
  then have "\<exists>e. lookup user t' (map (mark user t' i) rows) = Some e \<and> billed_of e = Some i"
    using e(1,2) by (auto simp: lookup_mark billed_bill)
  moreover have "\<exists>e. lookup user t (map (mark user t' i) rows) = Some e \<and> billed_of e = Some i"
    if b: "\<exists>e. lookup user t rows = Some e \<and> billed_of e = Some i"
  proof -
    from b obtain e where "lookup user t rows = Some e" "billed_of e = Some i" by blast
    then show ?thesis by (intro exI [of _ e]) (simp add: lookup_mark)
  qed
  ultimately show ?case using Cons.IH [OF e(3)] Cons.prems(2) by auto
qed simp

lemma pass_exclusive:
  assumes "pass missing other user i ts rows = Inr rows'" and "t \<in> set ts"
  shows "(\<exists>e. lookup user t rows = Some e \<and> billed_of e \<in> {None, Some i}) \<and> (\<exists>e. lookup user t rows' = Some e \<and> billed_of e = Some i)"
  using pass_before [OF assms] pass_after [OF assms(1)] assms(2) by blast

end

interpretation times: billable_table te_user_id te_id te_billed_invoice_id bill_time
  by unfold_locales (simp_all add: bill_time_def)

interpretation expenses: billable_table ee_user_id ee_id ee_billed_invoice_id bill_expense
  by unfold_locales (simp_all add: bill_expense_def)







section \<open>Payments below a cent\<close>

text \<open>Amounts are not required to be whole cents, and then the two sides of a payment are rounded apart: a payment
  of half a cent drawn from trust raises the paid amount of an invoice from 0.01 to 0.02 while the ledger
  entry takes nothing from the account.\<close>

theorem sub_cent_payment_drifts:
  "case draw_trust 1 2 3 ''u'' invc \<lparr>pp_amount = 1 / 200, pp_draw_from_trust = True, pp_recorded_by = [], pp_description = None\<rparr>
      (empty_practice_db\<lparr>trust_accounts := [\<lparr>ta_id = 7, ta_user_id = ''u'', ta_name = [], ta_bank_name = None, ta_last4 = None,
         ta_is_primary = True\<rparr>],
       trust_ledger := [\<lparr>tl_id = 8, tl_user_id = ''u'', tl_matter_id = ''m'', tl_account_id = Some 7, tl_entry_type = Deposit,
         tl_amount = 1, tl_delta = 1, tl_balance_after = 1, tl_description = [], tl_reference_number = None, tl_source = Manual,
         tl_invoice_id = None, tl_recorded_by = [], tl_created_at = 0\<rparr>]\<rparr>) of
     Inr (e, db') \<Rightarrow> tl_delta e = 0 \<and> tl_balance_after e = 1 \<and>
       (inv_paid_amount invc = 1 / 100 \<and> inv_total invc = 1 \<longrightarrow> paid_after invc (1 / 200) = 2 / 100)
   | Inl _ \<Rightarrow> False"
proof -
  have "round_half_even (- (1 / 2)) = 0" "round_half_even (199 / 2) = 100" "round_half_even (3 / 2) = 2"
    by (simp_all add: round_half_even_def Let_def floor_divide_of_int_eq [of "-1" 2, simplified]
        floor_divide_of_int_eq [of 199 2, simplified] floor_divide_of_int_eq [of 3 2, simplified])
  then have r: "round_dp2 (- (1 / 200)) = 0" "round_dp2 (199 / 200) = 1" "round_dp2 (3 / 200) = 2 / 100"
    by (simp_all add: round_dp2_def)
  moreover have "paid_after invc (1 / 200) = 2 / 100" if "inv_paid_amount invc = 1 / 100" "inv_total invc = 1"
  proof -
    have "inv_paid_amount invc + 1 / 200 = 3 / 200" unfolding that(1) by simp
    then have "round_dp2 (inv_paid_amount invc + 1 / 200) = 2 / 100" using r(3) by metis
    then show ?thesis unfolding paid_after_def Let_def that(2) by simp
  qed
  ultimately show ?thesis
    by (simp add: draw_trust_def primary_account_or_new_def get_primary_trust_account_def account_balance_def account_rows_def
        trust_payment_row_def Let_def)
qed

end
