(* ===== verification/Audit_Chain.thy ===== *)
theory Audit_Chain
  imports Prelude
begin

text \<open>
  The legal audit log (\<open>src/legal/audit.rs\<close>): the logger's counters, the hash chain and the file. JSON
  rendering (\<open>ser\<close>) and SHA-256 (\<open>sha\<close>) are parameters, as is the outcome of the file system for one
  write. A failed serialisation and a poisoned lock are left out; a line is written as a whole or not at all.
\<close>

section \<open>The logger\<close>

record security_metrics =
  blocked_actions :: u64
  approval_required :: u64
  redaction_events :: u64

record audit_event =
  ev_ts :: string
  ev_type :: string
  ev_details :: string
  ev_metrics :: security_metrics
  ev_prev_hash :: "string option"
  ev_hash :: "string option"

record audit_logger =
  hash_chain :: bool
  al_state :: "string option"
  al_metrics :: security_metrics

definition new_logger :: "bool \<Rightarrow> audit_logger" where
  "new_logger chain = \<lparr>hash_chain = chain, al_state = None,
     al_metrics = \<lparr>blocked_actions = 0, approval_required = 0, redaction_events = 0\<rparr>\<rparr>"

definition bump_metric :: "(security_metrics \<Rightarrow> security_metrics) \<Rightarrow> audit_logger \<Rightarrow> audit_logger" where
  "bump_metric f l = l\<lparr>al_metrics := f (al_metrics l)\<rparr>"

definition inc_blocked_action :: "audit_logger \<Rightarrow> audit_logger" where
  "inc_blocked_action = bump_metric (\<lambda>m. m\<lparr>blocked_actions := blocked_actions m + 1\<rparr>)"

definition inc_approval_required :: "audit_logger \<Rightarrow> audit_logger" where
  "inc_approval_required = bump_metric (\<lambda>m. m\<lparr>approval_required := approval_required m + 1\<rparr>)"

definition inc_redaction_event :: "audit_logger \<Rightarrow> audit_logger" where
  "inc_redaction_event = bump_metric (\<lambda>m. m\<lparr>redaction_events := redaction_events m + 1\<rparr>)"

text \<open>What the file system does with one write: the directory or the file cannot be opened, the file's mode
  (the low nine bits) is read, the line is written or not.\<close>

datatype io_outcome = DirFailed | OpenFailed | MetadataFailed | Opened nat bool

definition secure_mode :: nat where
  "secure_mode = 384"

text \<open>The file is the list of the events whose lines it holds; the line of an event is its rendering.\<close>

definition audit_write ::
  "(audit_event \<Rightarrow> string) \<Rightarrow> (string \<Rightarrow> string) \<Rightarrow> io_outcome \<Rightarrow> string \<Rightarrow> string \<Rightarrow> string \<Rightarrow>
   audit_logger \<times> audit_event list \<Rightarrow> audit_logger \<times> audit_event list" where
  "audit_write ser sha io ts event_type details st =
     (case st of (l, file) \<Rightarrow>
        let event = \<lparr>ev_ts = ts, ev_type = event_type, ev_details = details, ev_metrics = al_metrics l,
                     ev_prev_hash = al_state l, ev_hash = None\<rparr>;
            next_hash = (if hash_chain l then Some (sha (ser event)) else None);
            event' = (case next_hash of Some h \<Rightarrow> event\<lparr>ev_hash := Some h\<rparr> | None \<Rightarrow> event)
        in case io of
             DirFailed \<Rightarrow> (l, file)
           | OpenFailed \<Rightarrow> (l, file)
           | MetadataFailed \<Rightarrow> (l, file)
           | Opened mode written \<Rightarrow>
               if mode \<noteq> secure_mode then (l, file)
               else if \<not> written then (l, file)
               else ((case next_hash of Some h \<Rightarrow> l\<lparr>al_state := Some h\<rparr> | None \<Rightarrow> l), file @ [event']))"

section \<open>Runs\<close>

text \<open>One life of the process: the logger starts with no hash, whatever the file holds.\<close>

inductive audit_step ::
  "(audit_event \<Rightarrow> string) \<Rightarrow> (string \<Rightarrow> string) \<Rightarrow> audit_logger \<times> audit_event list \<Rightarrow> audit_logger \<times> audit_event list \<Rightarrow> bool"
  for ser :: "audit_event \<Rightarrow> string" and sha :: "string \<Rightarrow> string" where
  logged: "audit_write ser sha io ts ty d st = st' \<Longrightarrow> audit_step ser sha st st'"
| blocked: "audit_step ser sha (l, file) (inc_blocked_action l, file)"
| approval: "audit_step ser sha (l, file) (inc_approval_required l, file)"
| redaction: "audit_step ser sha (l, file) (inc_redaction_event l, file)"

definition audit_start :: "audit_event list \<Rightarrow> audit_logger \<times> audit_event list \<Rightarrow> bool" where
  "audit_start file0 st \<longleftrightarrow> st = (new_logger True, file0)"


fun chain_end :: "string option \<Rightarrow> audit_event list \<Rightarrow> string option" where
  "chain_end prev [] = prev"
| "chain_end prev (e # es) = chain_end (ev_hash e) es"


lemma chain_end_snoc [simp]: "chain_end prev (es @ [e]) = ev_hash e"
  by (induction es arbitrary: prev) auto





section \<open>Tampering\<close>





section \<open>Restarts\<close>

lemma audit_write_file:
  "audit_write ser sha io ts ty d (l, file) = (l', file') \<Longrightarrow>
     \<exists>es. file' = file @ es \<and> (\<forall>g. audit_write ser sha io ts ty d (l, g) = (l', g @ es))"
  by (auto simp: audit_write_def Let_def split: io_outcome.splits if_splits)

lemma audit_step_file:
  assumes "audit_step ser sha s t"
  shows "\<exists>es. snd t = snd s @ es \<and> (\<forall>g. audit_step ser sha (fst s, g) (fst t, g @ es))"
  using assms
proof cases
  case (logged io ts ty d)
  then obtain es where "snd t = snd s @ es" "\<forall>g. audit_write ser sha io ts ty d (fst s, g) = (fst t, g @ es)"
    using audit_write_file [of ser sha io ts ty d "fst s" "snd s" "fst t" "snd t"] by auto
  then show ?thesis by (intro exI [of _ es]) (auto intro: audit_step.logged)
qed (auto intro: audit_step.intros)

text \<open>The chain does not continue across restarts. What a process appends is independent of what the file
  held when it started, so the same lines follow any other earlier content and verify there as well: lines
  written before the last restart can be changed or removed without any later line noticing.\<close>

theorem audit_restart_forgets:
  assumes "reach (audit_start file0) (audit_step ser sha) st"
  shows "\<exists>es. snd st = file0 @ es \<and> (\<forall>file1. reach (audit_start file1) (audit_step ser sha) (fst st, file1 @ es))"
  using assms
proof (induction rule: reach.induct)
  case (reach_init s)
  then show ?case by (intro exI [of _ "[]"]) (auto simp: audit_start_def intro: reach.reach_init)
next
  case (reach_step s t)
  then obtain es es' where "snd s = file0 @ es" "\<forall>g. reach (audit_start g) (audit_step ser sha) (fst s, g @ es)"
    "snd t = snd s @ es'" "\<forall>g. audit_step ser sha (fst s, g) (fst t, g @ es')"
    using audit_step_file [OF reach_step(2)] by blast
  then show ?case by (intro exI [of _ "es @ es'"]) (auto intro: reach.reach_step simp flip: append_assoc)
qed

theorem audit_restart_forgets_witness:
  "reach (audit_start []) (audit_step (\<lambda>e. ev_ts e) (\<lambda>s. s)) (inc_blocked_action (new_logger True), [])"
proof -
  let ?e = "\<lparr>ev_ts = [], ev_type = [], ev_details = [], ev_metrics = al_metrics (new_logger True), ev_prev_hash = None, ev_hash = None\<rparr>"
  have "reach (audit_start [?e]) (audit_step (\<lambda>e. ev_ts e) (\<lambda>s. s)) (inc_blocked_action (new_logger True), [?e])"
    by (rule reach_one [of _ "(new_logger True, [?e])"]) (auto simp: audit_start_def intro: audit_step.intros)
  from audit_restart_forgets [OF this] show ?thesis by auto
qed

end
