(* ===== verification/Token_Store.thy ===== *)
theory Token_Store
  imports Prelude
begin

text \<open>
  Per-job bearer tokens between orchestrator and container (\<open>src/orchestrator/auth.rs\<close>): the token store with
  its credential grants, the middleware that guards the worker endpoints, and the rendering of the random
  token. \<open>Uuid::parse_str\<close> is the parameter \<open>parse_uuid\<close>; the constant-time comparison decides equality.
\<close>

record credential_grant =
  cg_secret_name :: string
  cg_env_var :: string

record token_store =
  ts_tokens :: "(uuid, string) hashmap"
  ts_grants :: "(uuid, credential_grant list) hashmap"

definition new_token_store :: token_store where
  "new_token_store = \<lparr>ts_tokens = [], ts_grants = []\<rparr>"

section \<open>Tokens\<close>

definition hex_digit :: "nat \<Rightarrow> char" where
  "hex_digit n = (if n < 10 then char_of (48 + n) else char_of (87 + n))"

definition hex_byte :: "8 word \<Rightarrow> string" where
  "hex_byte b = [hex_digit (unat b div 16), hex_digit (unat b mod 16)]"

text \<open>\<open>bytes\<close> are the 32 random bytes.\<close>

definition generate_token :: "8 word list \<Rightarrow> string" where
  "generate_token bytes = fold (\<lambda>b s. s @ hex_byte b) bytes []"

section \<open>Operations\<close>

definition create_token :: "8 word list \<Rightarrow> uuid \<Rightarrow> token_store \<Rightarrow> string \<times> token_store" where
  "create_token bytes job s =
     (let token = generate_token bytes in (token, s\<lparr>ts_tokens := hm_insert job token (ts_tokens s)\<rparr>))"

definition validate_token :: "uuid \<Rightarrow> string \<Rightarrow> token_store \<Rightarrow> bool" where
  "validate_token job token s = (case hm_get (ts_tokens s) job of Some stored \<Rightarrow> stored = token | None \<Rightarrow> False)"

definition revoke :: "uuid \<Rightarrow> token_store \<Rightarrow> token_store" where
  "revoke job s = s\<lparr>ts_tokens := hm_remove job (ts_tokens s), ts_grants := hm_remove job (ts_grants s)\<rparr>"

definition active_tokens :: "token_store \<Rightarrow> nat" where
  "active_tokens s = length (ts_tokens s)"

definition store_grants :: "uuid \<Rightarrow> credential_grant list \<Rightarrow> token_store \<Rightarrow> token_store" where
  "store_grants job grants s = (if grants \<noteq> [] then s\<lparr>ts_grants := hm_insert job grants (ts_grants s)\<rparr> else s)"

definition get_grants :: "uuid \<Rightarrow> token_store \<Rightarrow> credential_grant list option" where
  "get_grants job s = hm_get (ts_grants s) job"

section \<open>The middleware\<close>

definition extract_job_id_from_path :: "(string \<Rightarrow> uuid option) \<Rightarrow> string \<Rightarrow> uuid option" where
  "extract_job_id_from_path parse_uuid path =
     (case split_on (CHR ''/'') (trim_start_matches (CHR ''/'') path) of
        a # b # _ \<Rightarrow> if a = ''worker'' then parse_uuid b else None
      | _ \<Rightarrow> None)"

datatype auth_status = BadRequest | Unauthorized | RunNext

text \<open>\<open>authorization\<close> is the header's value, \<open>None\<close> when it is absent or not text.\<close>

definition worker_auth_middleware ::
  "(string \<Rightarrow> uuid option) \<Rightarrow> token_store \<Rightarrow> string \<Rightarrow> string option \<Rightarrow> auth_status" where
  "worker_auth_middleware parse_uuid s path authorization =
     (case extract_job_id_from_path parse_uuid path of
        None \<Rightarrow> BadRequest
      | Some job \<Rightarrow>
          (case (case authorization of Some v \<Rightarrow> strip_prefix v ''Bearer '' | None \<Rightarrow> None) of
             None \<Rightarrow> Unauthorized
           | Some token \<Rightarrow> if \<not> validate_token job token s then Unauthorized else RunNext))"

section \<open>Rendering\<close>

lemma hex_digit_inj: "m < 16 \<Longrightarrow> n < 16 \<Longrightarrow> hex_digit m = hex_digit n \<Longrightarrow> m = n"
proof -
  assume m: "m < 16" "n < 16" and eq: "hex_digit m = hex_digit n"
  have "(of_char (hex_digit k) :: nat) = (if k < 10 then 48 + k else 87 + k)" if "k < 16" for k
    using that by (simp add: hex_digit_def)
  then show "m = n" using arg_cong [OF eq, of "of_char :: char \<Rightarrow> nat"] m by (auto split: if_splits)
qed

lemma hex_byte_inj: "hex_byte a = hex_byte b \<Longrightarrow> a = b"
proof -
  assume eq: "hex_byte a = hex_byte b"
  have lt: "unat x div 16 < 16" "unat x mod 16 < 16" for x :: "8 word"
    using unsigned_less [where 'a = nat, of x] by (simp_all add: less_mult_imp_div_less)
  then have "unat a div 16 = unat b div 16" "unat a mod 16 = unat b mod 16"
    using eq hex_digit_inj lt by (auto simp: hex_byte_def)
  then have "unat a = unat b" by (metis div_mult_mod_eq)
  then show "a = b" by (simp only: unsigned_word_eqI)
qed

lemma generate_token_concat: "generate_token bytes = concat (map hex_byte bytes)"
proof -
  have "fold (\<lambda>b s. s @ hex_byte b) bytes acc = acc @ concat (map hex_byte bytes)" for acc
    by (induction bytes arbitrary: acc) auto
  then show ?thesis by (simp add: generate_token_def)
qed

lemma generate_token_length: "length (generate_token bytes) = 2 * length bytes"
  unfolding generate_token_concat by (induction bytes) (auto simp: hex_byte_def)

lemma generate_token_inj: "generate_token a = generate_token b \<Longrightarrow> a = b"
proof (induction a arbitrary: b)
  case Nil
  then show ?case by (cases b) (auto simp: generate_token_concat hex_byte_def)
next
  case (Cons x a)
  then obtain y b' where b: "b = y # b'" by (cases b) (auto simp: generate_token_concat hex_byte_def)
  then have "hex_byte x = hex_byte y" "concat (map hex_byte a) = concat (map hex_byte b')"
    using Cons.prems by (auto simp: generate_token_concat hex_byte_def)
  then show ?case using Cons.IH [of b'] hex_byte_inj b by (simp add: generate_token_concat)
qed

section \<open>Histories\<close>

text \<open>What may happen to the store, and the token a job should have after a history.\<close>

datatype token_op = CreateTok "8 word list" uuid | RevokeTok uuid | Grant uuid "credential_grant list"

definition token_apply :: "token_op \<Rightarrow> token_store \<Rightarrow> token_store" where
  "token_apply e s = (case e of
      CreateTok bytes job \<Rightarrow> snd (create_token bytes job s)
    | RevokeTok job \<Rightarrow> revoke job s
    | Grant job gs \<Rightarrow> store_grants job gs s)"

fun current_token :: "uuid \<Rightarrow> token_op list \<Rightarrow> 8 word list option" where
  "current_token job [] = None"
| "current_token job (e # es) =
     (case current_token job es of
        Some b \<Rightarrow> Some b
      | None \<Rightarrow> if RevokeTok job \<in> set es then None
                else (case e of CreateTok bytes j \<Rightarrow> if j = job then Some bytes else None | _ \<Rightarrow> None))"

lemma current_token_snoc:
  "current_token job (es @ [e]) =
     (case e of CreateTok bytes j \<Rightarrow> if j = job then Some bytes else current_token job es
      | RevokeTok j \<Rightarrow> if j = job then None else current_token job es
      | Grant _ _ \<Rightarrow> current_token job es)"
  by (induction es) (auto split: token_op.splits option.splits if_splits)

lemma token_get_apply:
  "hm_get (ts_tokens (token_apply e s)) job =
     (case e of CreateTok bytes j \<Rightarrow> if job = j then Some (generate_token bytes) else hm_get (ts_tokens s) job
      | RevokeTok j \<Rightarrow> if job = j then None else hm_get (ts_tokens s) job
      | Grant _ _ \<Rightarrow> hm_get (ts_tokens s) job)"
  by (auto simp: token_apply_def create_token_def revoke_def store_grants_def hm_get_insert hm_get_remove Let_def
      split: token_op.splits)

lemma tokens_after: "hm_get (ts_tokens (fold token_apply es new_token_store)) job = map_option generate_token (current_token job es)"
proof (induction es rule: rev_induct)
  case (snoc e es)
  then show ?case by (auto simp: token_get_apply current_token_snoc split: token_op.splits)
qed (simp add: new_token_store_def)

text \<open>After any history of token creations, revocations and grants, the middleware lets a request through
  exactly when its path is that of a worker endpoint, the header carries a bearer token, and this is the token
  rendered from the random bytes drawn last for that very job with no revocation since; a token of another
  job, an older token or a revoked one is rejected, and different random bytes never give the same token.\<close>

theorem worker_auth_exact:
  "worker_auth_middleware parse_uuid (fold token_apply es new_token_store) path (Some (''Bearer '' @ generate_token bytes)) = RunNext
     \<longleftrightarrow> (\<exists>job. extract_job_id_from_path parse_uuid path = Some job \<and> current_token job es = Some bytes)"
proof -
  have "strip_prefix (''Bearer '' @ t) ''Bearer '' = Some t" for t by (simp add: strip_prefix_Some)
  then show ?thesis
    by (auto simp: worker_auth_middleware_def validate_token_def tokens_after dest: generate_token_inj split: option.splits)
qed

text \<open>Revoking a job removes its token and its grants and nothing else.\<close>

theorem revoke_complete:
  "get_grants job (revoke job s) = None \<and> \<not> validate_token job t (revoke job s) \<and>
   (job' = job \<or> get_grants job' (revoke job s) = get_grants job' s \<and> validate_token job' t (revoke job s) = validate_token job' t s)"
  by (auto simp: get_grants_def revoke_def validate_token_def hm_get_remove)

end
