(* ===== verification/Tool_Types.thy ===== *)
theory Tool_Types
  imports Prelude
begin

text \<open>
  The vocabulary of tools (\<open>src/tools/tool.rs\<close>, \<open>ToolDefinition\<close> of \<open>src/llm/provider.rs\<close>): JSON values as
  \<open>serde_json::Value\<close> has them, parameter extraction, approval requirements, domains and errors.
\<close>

text \<open>\<open>serde_json::Value\<close>. A number is an integer or one of the others, which no code here computes with; an object is
  its list of members with distinct keys.\<close>

datatype json_value =
    JNull
  | JBool bool
  | JInt int
  | JFloat rat
  | JString string
  | JArray "json_value list"
  | JObject "(string \<times> json_value) list"

definition json_get :: "json_value \<Rightarrow> string \<Rightarrow> json_value option" where
  "json_get v k = (case v of JObject m \<Rightarrow> map_of m k | _ \<Rightarrow> None)"

definition as_str :: "json_value \<Rightarrow> string option" where
  "as_str v = (case v of JString s \<Rightarrow> Some s | _ \<Rightarrow> None)"

definition as_bool :: "json_value \<Rightarrow> bool option" where
  "as_bool v = (case v of JBool b \<Rightarrow> Some b | _ \<Rightarrow> None)"

datatype tool_error =
    InvalidParameters string
  | ExecutionFailed string
  | ToolTimeout duration
  | NotAuthorized string
  | ToolRateLimited "duration option"
  | ExternalService string
  | Sandbox string

datatype approval_requirement = Never | UnlessAutoApproved | Always

definition is_required :: "approval_requirement \<Rightarrow> bool" where
  "is_required a = (a \<noteq> Never)"

datatype tool_domain = Orchestrator | Container

record tool_definition =
  td_name :: string
  td_description :: string
  td_parameters :: json_value

definition quoted :: "string \<Rightarrow> string" where
  "quoted s = [CHR 0x27] @ s @ [CHR 0x27]"

definition require_str :: "json_value \<Rightarrow> string \<Rightarrow> tool_error + string" where
  "require_str params name =
     (case Option.bind (json_get params name) as_str of
        Some s \<Rightarrow> Inr s
      | None \<Rightarrow> Inl (InvalidParameters (''missing '' @ quoted name @ '' parameter'')))"

definition require_param :: "json_value \<Rightarrow> string \<Rightarrow> tool_error + json_value" where
  "require_param params name =
     (case json_get params name of
        Some v \<Rightarrow> Inr v
      | None \<Rightarrow> Inl (InvalidParameters (''missing '' @ quoted name @ '' parameter'')))"

lemma require_str_ok: "require_str params name = Inr s \<longleftrightarrow> json_get params name = Some (JString s)"
  by (cases "json_get params name"; cases "the (json_get params name)"; auto simp: require_str_def as_str_def)

end
