(* ===== verification/Court_Calendar.thy ===== *)
theory Court_Calendar
  imports Tool_Types
begin

text \<open>
  The court-deadline engine (\<open>src/legal/calendar.rs\<close>) with the holiday calendars of \<open>src/legal/jurisdictions.rs\<close> and the
  limitation periods of \<open>src/tools/builtin/ontario_limitation.rs\<close>. A date is the number of days since Monday
  0001-01-01, so its weekday is the residue modulo seven. What the crate \<open>chrono\<close> knows of the Gregorian calendar is the
  parameter \<open>cal\<close>, with the laws of the locale \<open>calendar\<close>; \<open>gregorian\<close> is a concrete calendar that satisfies
  them. The range of \<open>NaiveDate\<close> is not bounded. The rendering of a date is a parameter; the two loops are
  partial functions whose termination is a theorem.
\<close>

section \<open>Dates\<close>

type_synonym date = int

record chrono =
  from_ymd_opt :: "int \<Rightarrow> nat \<Rightarrow> nat \<Rightarrow> date option"
  year_of :: "date \<Rightarrow> int"
  month_of :: "date \<Rightarrow> nat"
  day_of :: "date \<Rightarrow> nat"

datatype weekday = Mon | Tue | Wed | Thu | Fri | Sat | Sun

definition num_days_from_monday :: "weekday \<Rightarrow> int" where
  "num_days_from_monday w = (case w of Mon \<Rightarrow> 0 | Tue \<Rightarrow> 1 | Wed \<Rightarrow> 2 | Thu \<Rightarrow> 3 | Fri \<Rightarrow> 4 | Sat \<Rightarrow> 5 | Sun \<Rightarrow> 6)"

definition weekday :: "date \<Rightarrow> weekday" where
  "weekday d =
     (if d mod 7 = 0 then Mon else if d mod 7 = 1 then Tue else if d mod 7 = 2 then Wed else if d mod 7 = 3 then Thu
      else if d mod 7 = 4 then Fri else if d mod 7 = 5 then Sat else Sun)"

text \<open>\<open>NaiveDate::default()\<close> is 1970-01-01.\<close>

definition ymd_or_default :: "chrono \<Rightarrow> int \<Rightarrow> nat \<Rightarrow> nat \<Rightarrow> date" where
  "ymd_or_default cal y m d = (case from_ymd_opt cal y m d of Some x \<Rightarrow> x | None \<Rightarrow> 719162)"

definition i32_max :: int where
  "i32_max = 2 ^ 31 - 1"

section \<open>U.S. federal holidays\<close>

definition observe :: "chrono \<Rightarrow> int \<Rightarrow> nat \<Rightarrow> nat \<Rightarrow> date" where
  "observe cal y m d =
     (let date = ymd_or_default cal y m d
      in case weekday date of Sat \<Rightarrow> date - 1 | Sun \<Rightarrow> date + 1 | _ \<Rightarrow> date)"

definition nth_weekday :: "chrono \<Rightarrow> int \<Rightarrow> nat \<Rightarrow> weekday \<Rightarrow> nat \<Rightarrow> date" where
  "nth_weekday cal y month wd n =
     (let first = ymd_or_default cal y month 1;
          offset = (num_days_from_monday wd + 7 - num_days_from_monday (weekday first)) mod 7
      in first + (offset + 7 * (int n - 1)))"

definition last_weekday :: "chrono \<Rightarrow> int \<Rightarrow> nat \<Rightarrow> weekday \<Rightarrow> date" where
  "last_weekday cal y month wd =
     (let next_first = (if month = 12 then ymd_or_default cal (y + 1) 1 1 else ymd_or_default cal y (month + 1) 1);
          last_day = next_first - 1;
          offset = (num_days_from_monday (weekday last_day) + 7 - num_days_from_monday wd) mod 7
      in last_day - offset)"

text \<open>\<open>sort_unstable\<close> and \<open>dedup\<close>.\<close>

definition sort_dedup :: "date list \<Rightarrow> date list" where
  "sort_dedup ds = remdups_adj (sort ds)"

definition us_federal_holidays :: "chrono \<Rightarrow> int \<Rightarrow> date list" where
  "us_federal_holidays cal y =
     (let holidays =
        [observe cal y 1 1, nth_weekday cal y 1 Mon 3, nth_weekday cal y 2 Mon 3, last_weekday cal y 5 Mon,
         observe cal y 6 19, observe cal y 7 4, nth_weekday cal y 9 Mon 1, nth_weekday cal y 10 Mon 2,
         observe cal y 11 11, nth_weekday cal y 11 Thu 4, observe cal y 12 25];
          next_year = (if y < i32_max \<and> year_of cal (observe cal (y + 1) 1 1) = y then [observe cal (y + 1) 1 1] else [])
      in sort_dedup (holidays @ next_year))"

text \<open>\<open>binary_search\<close> on a sorted list finds exactly its elements.\<close>

definition is_federal_holiday :: "chrono \<Rightarrow> date \<Rightarrow> bool" where
  "is_federal_holiday cal d \<longleftrightarrow> d \<in> set (us_federal_holidays cal (year_of cal d))"

section \<open>Ontario holidays\<close>

definition easter_sunday :: "chrono \<Rightarrow> int \<Rightarrow> date option" where
  "easter_sunday cal y =
     (if y < 1582 then None
      else
        let a = y mod 19; b = y div 100; c = y mod 100; d = b div 4; e = b mod 4; f = (b + 8) div 25;
            g = (b - f + 1) div 3; h = (19 * a + b - d - g + 15) mod 30; i = c div 4; k = c mod 4;
            l = (32 + 2 * e + 2 * i - h - k) mod 7; m = (a + 11 * h + 22 * l) div 451;
            month = (h + l - 7 * m + 114) div 31; day = (h + l - 7 * m + 114) mod 31 + 1
        in from_ymd_opt cal y (nat month) (nat day))"

definition observed_monday :: "date \<Rightarrow> date" where
  "observed_monday d = (case weekday d of Sat \<Rightarrow> d + 2 | Sun \<Rightarrow> d + 1 | _ \<Rightarrow> d)"

definition observed_christmas_pair :: "chrono \<Rightarrow> int \<Rightarrow> (date \<times> date) option" where
  "observed_christmas_pair cal y =
     (case from_ymd_opt cal y 12 25 of
        None \<Rightarrow> None
      | Some christmas \<Rightarrow>
          (case from_ymd_opt cal y 12 26 of
             None \<Rightarrow> None
           | Some boxing_day \<Rightarrow>
               Some (case weekday christmas of
                       Sat \<Rightarrow> (christmas + 2, boxing_day + 2)
                     | Sun \<Rightarrow> (christmas + 2, boxing_day)
                     | Fri \<Rightarrow> (christmas, boxing_day + 2)
                     | _ \<Rightarrow> (christmas, boxing_day))))"

definition monday_before :: "chrono \<Rightarrow> int \<Rightarrow> nat \<Rightarrow> nat \<Rightarrow> date option" where
  "monday_before cal y month day =
     (case from_ymd_opt cal y month day of
        None \<Rightarrow> None
      | Some anchor \<Rightarrow>
          let n = num_days_from_monday (weekday anchor); offset = (if n = 0 then 7 else n) in Some (anchor - offset))"

definition nth_weekday_of_month :: "chrono \<Rightarrow> int \<Rightarrow> nat \<Rightarrow> weekday \<Rightarrow> nat \<Rightarrow> date option" where
  "nth_weekday_of_month cal y month wd n =
     (if n = 0 then None
      else case from_ymd_opt cal y month 1 of
        None \<Rightarrow> None
      | Some first \<Rightarrow>
          let offset = (num_days_from_monday wd + 7 - num_days_from_monday (weekday first)) mod 7
          in Some (first + offset + 7 * (int n - 1)))"

abbreviation opt_list :: "'a option \<Rightarrow> 'a list" where
  "opt_list x \<equiv> (case x of Some v \<Rightarrow> [v] | None \<Rightarrow> [])"

definition ontario_shared_holidays :: "chrono \<Rightarrow> int \<Rightarrow> date list" where
  "ontario_shared_holidays cal y =
     opt_list (map_option observed_monday (from_ymd_opt cal y 1 1)) @
     (if y \<ge> 2008 then opt_list (nth_weekday_of_month cal y 2 Mon 3) else []) @
     opt_list (map_option (\<lambda>d. d - 2) (easter_sunday cal y)) @
     opt_list (monday_before cal y 5 25) @
     opt_list (map_option observed_monday (from_ymd_opt cal y 7 1)) @
     opt_list (nth_weekday_of_month cal y 8 Mon 1) @
     opt_list (nth_weekday_of_month cal y 9 Mon 1) @
     opt_list (nth_weekday_of_month cal y 10 Mon 2) @
     (case observed_christmas_pair cal y of Some (c, b) \<Rightarrow> [c, b] | None \<Rightarrow> [])"

definition ontario_statutory_holidays :: "chrono \<Rightarrow> int \<Rightarrow> date list" where
  "ontario_statutory_holidays cal y =
     sort_dedup (ontario_shared_holidays cal y @ opt_list (map_option observed_monday (from_ymd_opt cal y 11 11)))"

definition ontario_court_holidays :: "chrono \<Rightarrow> int \<Rightarrow> date list" where
  "ontario_court_holidays cal y =
     sort_dedup (ontario_shared_holidays cal y @ opt_list (map_option (\<lambda>d. d + 1) (easter_sunday cal y)))"

section \<open>Business days\<close>

definition is_court_holiday :: "chrono \<Rightarrow> date \<Rightarrow> string \<Rightarrow> bool" where
  "is_court_holiday cal d jurisdiction =
     (if uppercase jurisdiction = ''ON'' then d \<in> set (ontario_court_holidays cal (year_of cal d))
      else is_federal_holiday cal d)"

definition holiday_label :: "string \<Rightarrow> string" where
  "holiday_label jurisdiction =
     (if uppercase jurisdiction = ''ON'' then ''Ontario court holiday'' else ''U.S. federal holiday'')"

definition is_weekend :: "date \<Rightarrow> bool" where
  "is_weekend d \<longleftrightarrow> weekday d \<in> {Sat, Sun}"

definition is_non_business_day :: "chrono \<Rightarrow> date \<Rightarrow> string \<Rightarrow> bool" where
  "is_non_business_day cal d jurisdiction \<longleftrightarrow> is_weekend d \<or> is_court_holiday cal d jurisdiction"

definition weekday_name :: "weekday \<Rightarrow> string" where
  "weekday_name w = (case w of Mon \<Rightarrow> ''Monday'' | Tue \<Rightarrow> ''Tuesday'' | Wed \<Rightarrow> ''Wednesday'' | Thu \<Rightarrow> ''Thursday''
     | Fri \<Rightarrow> ''Friday'' | Sat \<Rightarrow> ''Saturday'' | Sun \<Rightarrow> ''Sunday'')"

section \<open>Rules and traces\<close>

datatype deadline_type = CourtDate | Filing | StatuteOfLimitations | ResponseDue | DiscoveryCutoff | Internal

record court_rule =
  cr_id :: string
  cr_citation :: string
  cr_deadline_type :: deadline_type
  cr_offset_days :: int
  cr_court_days :: bool
  cr_version :: string
  cr_jurisdiction :: string

record trace_step =
  st_step :: nat
  st_description :: string

record computation_trace =
  tr_rule_id :: string
  tr_rule_citation :: string
  tr_rule_version :: string
  tr_engine_version :: string
  tr_trigger_date :: string
  tr_offset_days :: int
  tr_court_days :: bool
  tr_steps :: "trace_step list"
  tr_result_date :: string
  tr_jurisdiction :: string

text \<open>\<open>MatterDeadlineType::from_db_value\<close>.\<close>

definition deadline_type_from_db_value :: "string \<Rightarrow> deadline_type option" where
  "deadline_type_from_db_value v =
     (if v = ''court_date'' then Some CourtDate else if v = ''filing'' then Some Filing
      else if v = ''statute_of_limitations'' then Some StatuteOfLimitations
      else if v = ''response_due'' then Some ResponseDue
      else if v = ''discovery_cutoff'' then Some DiscoveryCutoff
      else if v = ''internal'' then Some Internal else None)"

text \<open>\<open>parse_rules\<close>, after the crate \<open>toml\<close> has read the file into \<open>parsed\<close>.\<close>

record raw_court_rule =
  rr_id :: string
  rr_citation :: string
  rr_deadline_type :: string
  rr_offset_days :: int
  rr_court_days :: bool
  rr_version :: string
  rr_jurisdiction :: string

fun convert_rules :: "raw_court_rule list \<Rightarrow> court_rule list \<Rightarrow> string + court_rule list" where
  "convert_rules [] out = Inr out"
| "convert_rules (r # rs) out =
     (case deadline_type_from_db_value (rr_deadline_type r) of
        None \<Rightarrow> Inl (''invalid deadline_type '' @ [CHR 0x27] @ rr_deadline_type r @ [CHR 0x27] @ '' in court rules'')
      | Some t \<Rightarrow> convert_rules rs (out @ [\<lparr>cr_id = rr_id r, cr_citation = rr_citation r, cr_deadline_type = t,
          cr_offset_days = rr_offset_days r, cr_court_days = rr_court_days r, cr_version = rr_version r,
          cr_jurisdiction = rr_jurisdiction r\<rparr>]))"

definition parse_rules :: "string + raw_court_rule list \<Rightarrow> string + court_rule list" where
  "parse_rules parsed = (case parsed of Inl e \<Rightarrow> Inl (''invalid court rules TOML: '' @ e) | Inr rs \<Rightarrow> convert_rules rs [])"

text \<open>The lookups over \<open>all_court_rules()\<close>, the result of \<open>parse_rules\<close>.\<close>

definition get_court_rule :: "string + court_rule list \<Rightarrow> string \<Rightarrow> string + court_rule option" where
  "get_court_rule rules i = (case rules of Inl e \<Rightarrow> Inl e | Inr rs \<Rightarrow> Inr (find (\<lambda>r. cr_id r = i) rs))"

definition rules_for_jurisdiction :: "string + court_rule list \<Rightarrow> string \<Rightarrow> string + court_rule list" where
  "rules_for_jurisdiction rules j =
     (case rules of Inl e \<Rightarrow> Inl e | Inr rs \<Rightarrow> Inr (filter (\<lambda>r. eq_ignore_case (cr_jurisdiction r) j) rs))"

definition find_court_rule_by_ref :: "string + court_rule list \<Rightarrow> string \<Rightarrow> string + court_rule option" where
  "find_court_rule_by_ref rules rule_ref =
     (let normalized = trim rule_ref
      in if normalized = [] then Inr None
         else case rules of
           Inl e \<Rightarrow> Inl e
         | Inr rs \<Rightarrow> Inr (find (\<lambda>r. cr_id r = normalized \<or> eq_ignore_case (cr_citation r) normalized) rs))"

text \<open>How dates and numbers are rendered: \<open>show_date\<close> is \<open>Display\<close>, \<open>show_long\<close> the format \<open>%A, %B %e, %Y\<close>. The
  em dash of the messages is its three bytes.\<close>

record date_fmt =
  show_date :: "date \<Rightarrow> string"
  show_long :: "date \<Rightarrow> string"
  show_int :: "int \<Rightarrow> string"

definition em_dash :: string where
  "em_dash = [CHR 0xE2, CHR 0x80, CHR 0x94]"

definition push_step :: "string \<Rightarrow> trace_step list \<Rightarrow> trace_step list" where
  "push_step desc steps = steps @ [\<lparr>st_step = length steps + 1, st_description = desc\<rparr>]"

definition day_or_days :: "int \<Rightarrow> string" where
  "day_or_days n = (if n = 1 then ''day'' else ''days'')"

definition why_skipped :: "date \<Rightarrow> string \<Rightarrow> string" where
  "why_skipped d jurisdiction = (if is_weekend d then weekday_name (weekday d) else holiday_label jurisdiction)"

definition engine_version :: string where
  "engine_version = ''1.0''"

text \<open>A \<open>DateTime<Utc>\<close> is a date and a time of day.\<close>

type_synonym date_time = "date \<times> nat"

text \<open>\<open>D (long form of D)\<close>, as the messages print a date.\<close>

definition dated :: "date_fmt \<Rightarrow> date \<Rightarrow> string" where
  "dated fmt d = show_date fmt d @ '' ('' @ show_long fmt d @ '')''"

text \<open>The loop that pushes a calendar-day deadline past weekends and holidays.\<close>

partial_function (option) push_past ::
  "chrono \<Rightarrow> date_fmt \<Rightarrow> string \<Rightarrow> date \<Rightarrow> trace_step list \<Rightarrow> (date \<times> trace_step list) option" where
  "push_past cal fmt j cursor steps =
     (if is_non_business_day cal cursor j
      then push_past cal fmt j (cursor + 1)
             (push_step (show_date fmt cursor @ '' is a '' @ why_skipped cursor j @ '' '' @ em_dash @
                '' advance to next business day'') steps)
      else Some (cursor, steps))"

text \<open>What a counted court day adds to the trace: the first three, the last three and one ellipsis.\<close>

definition court_day_step :: "date_fmt \<Rightarrow> nat \<Rightarrow> nat \<Rightarrow> date \<Rightarrow> trace_step list \<Rightarrow> trace_step list" where
  "court_day_step fmt period remaining cursor steps =
     (let counted = period - remaining
      in if remaining = 0
         then push_step (''Court day '' @ show_int fmt (int counted) @ '' counted: '' @ dated fmt cursor @ '' '' @
                em_dash @ '' deadline'') steps
         else if counted \<le> 3 \<or> remaining \<le> 3
         then push_step (''Court day '' @ show_int fmt (int counted) @ '' counted: '' @ show_date fmt cursor) steps
         else if counted = 4 \<and> period > 7 then push_step ''... (skipping intermediate days) ...'' steps
         else steps)"

text \<open>The loop that counts court days in the direction \<open>step_dir\<close>.\<close>

partial_function (option) count_court_days ::
  "chrono \<Rightarrow> date_fmt \<Rightarrow> string \<Rightarrow> int \<Rightarrow> nat \<Rightarrow> nat \<Rightarrow> date \<Rightarrow> trace_step list \<Rightarrow> (date \<times> trace_step list) option" where
  "count_court_days cal fmt j step_dir period remaining cursor steps =
     (if remaining > 0
      then let cursor = cursor + step_dir
           in if is_non_business_day cal cursor j
              then count_court_days cal fmt j step_dir period remaining cursor
                     (push_step (''Skip '' @ show_date fmt cursor @ '' ('' @ why_skipped cursor j @ '')'') steps)
              else count_court_days cal fmt j step_dir period (remaining - 1) cursor
                     (court_day_step fmt period (remaining - 1) cursor steps)
      else Some (cursor, steps))"

declare push_past.simps [code] count_court_days.simps [code]

definition calendar_period :: "chrono \<Rightarrow> date_fmt \<Rightarrow> court_rule \<Rightarrow> date \<Rightarrow> trace_step list \<Rightarrow> (date \<times> trace_step list) option"
  where
  "calendar_period cal fmt rule trigger_naive steps =
     (let raw = trigger_naive + cr_offset_days rule;
          steps1 = push_step (''Add '' @ show_int fmt (cr_offset_days rule) @ '' calendar '' @
            day_or_days (cr_offset_days rule) @ '' per '' @ cr_citation rule @ '' (court_days = false)'') steps;
          steps2 = push_step (''Raw result: '' @ dated fmt raw) steps1
      in case push_past cal fmt (cr_jurisdiction rule) raw steps2 of
           None \<Rightarrow> None
         | Some (cursor, steps3) \<Rightarrow>
             Some (cursor,
               if cursor \<noteq> raw
               then push_step (''Final deadline: '' @ dated fmt cursor @ '' '' @ em_dash @
                      '' first following business day'') steps3
               else push_step (''Final deadline: '' @ dated fmt cursor @ '' '' @ em_dash @
                      '' no adjustment needed'') steps3))"

definition court_period :: "chrono \<Rightarrow> date_fmt \<Rightarrow> court_rule \<Rightarrow> date \<Rightarrow> trace_step list \<Rightarrow> (date \<times> trace_step list) option"
  where
  "court_period cal fmt rule trigger_naive steps =
     (let steps1 = push_step (''Count '' @ show_int fmt (cr_offset_days rule) @ '' court '' @
            day_or_days (cr_offset_days rule) @ '' per '' @ cr_citation rule @
            '' (court_days = true; weekends and jurisdictional court holidays excluded)'') steps;
          step_dir = (if cr_offset_days rule \<ge> 0 then 1 else - 1);
          period = nat \<bar>cr_offset_days rule\<bar>
      in count_court_days cal fmt (cr_jurisdiction rule) step_dir period period trigger_naive steps1)"

definition apply_rule_with_trace ::
  "chrono \<Rightarrow> date_fmt \<Rightarrow> court_rule \<Rightarrow> date_time \<Rightarrow> (date_time \<times> computation_trace) option" where
  "apply_rule_with_trace cal fmt rule trigger_date =
     (let trigger_naive = fst trigger_date;
          steps = push_step (''Trigger date: '' @ dated fmt trigger_naive) []
      in case (if \<not> cr_court_days rule then calendar_period cal fmt rule trigger_naive steps
               else court_period cal fmt rule trigger_naive steps) of
           None \<Rightarrow> None
         | Some (result_naive, steps') \<Rightarrow>
             Some ((result_naive, 0),
               \<lparr>tr_rule_id = cr_id rule, tr_rule_citation = cr_citation rule, tr_rule_version = cr_version rule,
                tr_engine_version = engine_version, tr_trigger_date = show_date fmt trigger_naive,
                tr_offset_days = cr_offset_days rule, tr_court_days = cr_court_days rule, tr_steps = steps',
                tr_result_date = show_date fmt result_naive, tr_jurisdiction = cr_jurisdiction rule\<rparr>))"

definition apply_rule :: "chrono \<Rightarrow> date_fmt \<Rightarrow> court_rule \<Rightarrow> date_time \<Rightarrow> date_time option" where
  "apply_rule cal fmt rule trigger_date = map_option fst (apply_rule_with_trace cal fmt rule trigger_date)"

section \<open>The first-party provider\<close>

definition supported_rule_ids :: "string + court_rule list \<Rightarrow> string list" where
  "supported_rule_ids rules = (case rules of Inl _ \<Rightarrow> [] | Inr rs \<Rightarrow> map cr_id rs)"

text \<open>\<open>FirstPartyProvider::compute\<close>; the outer option is that of the loops.\<close>

definition provider_compute ::
  "chrono \<Rightarrow> date_fmt \<Rightarrow> string + court_rule list \<Rightarrow> string \<Rightarrow> date_time \<Rightarrow>
   (string + date_time \<times> computation_trace) option" where
  "provider_compute cal fmt rules rule_id trigger_date =
     (case get_court_rule rules rule_id of
        Inl e \<Rightarrow> Some (Inl e)
      | Inr None \<Rightarrow> Some (Inl (''unsupported rule '' @ [CHR 0x27] @ rule_id @ [CHR 0x27] @ '' '' @ em_dash @
            '' manual docketing required''))
      | Inr (Some rule) \<Rightarrow> map_option Inr (apply_rule_with_trace cal fmt rule trigger_date))"

record create_matter_deadline_params =
  md_title :: string
  md_deadline_type :: deadline_type
  md_due_at :: date_time
  md_completed_at :: "date_time option"
  md_reminder_days :: "int list"
  md_rule_ref :: "string option"
  md_computed_from :: "uuid option"
  md_task_id :: "uuid option"
  md_explanation :: "computation_trace option"
  md_rule_version :: "string option"
  md_is_unsupported :: bool

definition deadline_from_rule_with_trace ::
  "chrono \<Rightarrow> date_fmt \<Rightarrow> string \<Rightarrow> court_rule \<Rightarrow> date_time \<Rightarrow> int list \<Rightarrow> uuid option \<Rightarrow> uuid option \<Rightarrow>
   (create_matter_deadline_params \<times> computation_trace) option" where
  "deadline_from_rule_with_trace cal fmt title rule trigger_date reminder_days computed_from task_id =
     (case apply_rule_with_trace cal fmt rule trigger_date of
        None \<Rightarrow> None
      | Some (due_at, trace) \<Rightarrow>
          Some (\<lparr>md_title = trim title, md_deadline_type = cr_deadline_type rule, md_due_at = due_at,
                 md_completed_at = None, md_reminder_days = reminder_days, md_rule_ref = Some (cr_citation rule),
                 md_computed_from = computed_from, md_task_id = task_id, md_explanation = Some trace,
                 md_rule_version = Some (cr_version rule), md_is_unsupported = False\<rparr>, trace))"

definition deadline_from_rule ::
  "chrono \<Rightarrow> date_fmt \<Rightarrow> string \<Rightarrow> court_rule \<Rightarrow> date_time \<Rightarrow> int list \<Rightarrow> uuid option \<Rightarrow> uuid option \<Rightarrow>
   create_matter_deadline_params option" where
  "deadline_from_rule cal fmt title rule trigger_date reminder_days computed_from task_id =
     map_option fst (deadline_from_rule_with_trace cal fmt title rule trigger_date reminder_days computed_from task_id)"

section \<open>Ontario limitation periods\<close>


text \<open>The search for the last day of a month, from \<open>last_day\<close> down to 28.\<close>

fun last_day_of :: "chrono \<Rightarrow> int \<Rightarrow> nat \<Rightarrow> nat \<Rightarrow> date option" where
  "last_day_of cal y m last_day =
     (if last_day > 27
      then (case from_ymd_opt cal y m last_day of Some c \<Rightarrow> Some c | None \<Rightarrow> last_day_of cal y m (last_day - 1))
      else None)"

declare last_day_of.simps [simp del]

definition add_years :: "chrono \<Rightarrow> date \<Rightarrow> int \<Rightarrow> tool_error + date" where
  "add_years cal d years =
     (let target_year = year_of cal d + years
      in case (case from_ymd_opt cal target_year (month_of cal d) (day_of cal d) of
                 Some x \<Rightarrow> Some x
               | None \<Rightarrow> last_day_of cal target_year (month_of cal d) 31) of
           Some x \<Rightarrow> Inr x
         | None \<Rightarrow> Inl (ExecutionFailed ''failed to add years to date''))"

record limitation_result =
  basic_limitation_expiry :: date
  ultimate_limitation_expiry :: date
  limitation_expired :: bool
  days_remaining :: int
  warning :: "string option"

text \<open>\<open>execute\<close> of the tool after its dates are parsed; \<open>today\<close> is \<open>Utc::now()\<close>.\<close>

definition ontario_limitation :: "chrono \<Rightarrow> date \<Rightarrow> date \<Rightarrow> bool \<Rightarrow> date \<Rightarrow> tool_error + limitation_result" where
  "ontario_limitation cal discovery_date act_date involves_disability today =
     (case add_years cal discovery_date 2 of
        Inl e \<Rightarrow> Inl e
      | Inr basic_expiry \<Rightarrow>
          (case add_years cal act_date 15 of
             Inl e \<Rightarrow> Inl e
           | Inr ultimate_expiry \<Rightarrow>
               let controlling_expiry = min basic_expiry ultimate_expiry;
                   expired = today > controlling_expiry
               in Inr \<lparr>basic_limitation_expiry = basic_expiry, ultimate_limitation_expiry = ultimate_expiry,
                    limitation_expired = expired,
                    days_remaining = (if expired then 0 else controlling_expiry - today),
                    warning = (if involves_disability
                      then Some ''Minority or disability tolling may apply; manual legal review is required.''
                      else None)\<rparr>))"

section \<open>The Gregorian calendar\<close>

text \<open>
  What the termination of the loops rests on: the year never decreases from a day to the next, and 365 days never
  span more than one turn of the year.
\<close>

locale calendar =
  fixes cal :: chrono
  assumes year_step: "year_of cal d \<le> year_of cal (d + 1)"
    and year_span: "year_of cal (d + 365) \<le> year_of cal d + 1"

text \<open>The proleptic Gregorian calendar that \<open>chrono\<close> documents.\<close>

definition leap :: "int \<Rightarrow> bool" where
  "leap y \<longleftrightarrow> (y mod 4 = 0 \<and> y mod 100 \<noteq> 0) \<or> y mod 400 = 0"

definition jan1 :: "int \<Rightarrow> date" where
  "jan1 y = 365 * (y - 1) + (y - 1) div 4 - (y - 1) div 100 + (y - 1) div 400"

definition days_in_month :: "int \<Rightarrow> nat \<Rightarrow> nat" where
  "days_in_month y m = (if m = 2 then (if leap y then 29 else 28) else if m \<in> {4, 6, 9, 11} then 30 else 31)"

definition days_before :: "int \<Rightarrow> nat \<Rightarrow> int" where
  "days_before y m = (\<Sum>k \<leftarrow> [1..<m]. int (days_in_month y k))"

definition greg_ymd :: "int \<Rightarrow> nat \<Rightarrow> nat \<Rightarrow> date option" where
  "greg_ymd y m d =
     (if 1 \<le> m \<and> m \<le> 12 \<and> 1 \<le> d \<and> d \<le> days_in_month y m then Some (jan1 y + days_before y m + int d - 1) else None)"

definition greg_year :: "date \<Rightarrow> int" where
  "greg_year d = (let e = (400 * d) div 146097 + 1 in if d < jan1 e then e - 1 else if jan1 (e + 1) \<le> d then e + 1 else e)"

definition greg_month :: "date \<Rightarrow> nat" where
  "greg_month d = (let y = greg_year d in length (filter (\<lambda>m. jan1 y + days_before y m \<le> d) [1..<13]))"

definition greg_day :: "date \<Rightarrow> nat" where
  "greg_day d = nat (d - jan1 (greg_year d) - days_before (greg_year d) (greg_month d) + 1)"

definition gregorian :: chrono where
  "gregorian = \<lparr>from_ymd_opt = greg_ymd, year_of = greg_year, month_of = greg_month, day_of = greg_day\<rparr>"

lemma gregorian_sel [simp]: "from_ymd_opt gregorian = greg_ymd" "year_of gregorian = greg_year"
  "month_of gregorian = greg_month" "day_of gregorian = greg_day"
  by (simp_all add: gregorian_def)

lemma div_bounds: "0 < n \<Longrightarrow> n * (x div n) \<le> x \<and> x < n * (x div n) + n" for x n :: int
  using mult_div_mod_eq [of n x] pos_mod_bound [of n x] pos_mod_sign [of n x] by linarith

lemma jan1_bounds: "146097 * (y - 1) - 699 \<le> 400 * jan1 y" "400 * jan1 y \<le> 146097 * (y - 1) + 396"
  using div_bounds [of 4 "y - 1"] div_bounds [of 100 "y - 1"] div_bounds [of 400 "y - 1"] unfolding jan1_def by simp_all

lemma div_step: "0 < n \<Longrightarrow> (x + 1) div n = x div n \<or> (x + 1) div n = x div n + 1" for x n :: int
  using zdiv_mono1 [of x "x + 1" n] zdiv_mono1 [of "x + 1" "x + n" n] by fastforce

lemma jan1_step: "jan1 y + 365 \<le> jan1 (y + 1)" "jan1 (y + 1) \<le> jan1 y + 366"
proof -
  define q where "q = (\<lambda>x::int. x div 4)"
  define r where "r = (\<lambda>x::int. x div 25)"
  have jan1: "jan1 z = 365 * (z - 1) + q (z - 1) - r (q (z - 1)) + q (r (q (z - 1)))" for z
    by (simp add: jan1_def q_def r_def zdiv_zmult2_eq [symmetric])
  have qs: "q (x + 1) = q x \<or> q (x + 1) = q x + 1" and rs: "r (x + 1) = r x \<or> r (x + 1) = r x + 1" for x
    unfolding q_def r_def by (rule div_step, simp)+
  show "jan1 y + 365 \<le> jan1 (y + 1)" "jan1 (y + 1) \<le> jan1 y + 366"
    using qs [of "y - 1"] rs [of "q (y - 1)"] qs [of "r (q (y - 1))"] unfolding jan1 by auto
qed

lemma jan1_mono: "y \<le> z \<Longrightarrow> jan1 y + 365 * (z - y) \<le> jan1 z"
proof (induction z rule: int_ge_induct)
  case (step z)
  then show ?case using jan1_step(1) [of z] by simp
qed simp

lemma greg_year_bounds: "jan1 (greg_year d) \<le> d \<and> d < jan1 (greg_year d + 1)"
proof -
  define e where "e = (400 * d) div 146097 + 1"
  have e: "146097 * (e - 1) \<le> 400 * d" "400 * d < 146097 * e" 
    using div_bounds [of 146097 "400 * d"] unfolding e_def by simp_all
  have "jan1 (e - 1) \<le> d" "d < jan1 (e + 2)"
    using jan1_bounds(2) [of "e - 1"] jan1_bounds(1) [of "e + 2"] e by simp_all
  then show ?thesis unfolding greg_year_def e_def [symmetric] by (simp add: Let_def add.commute)
qed

lemma greg_year_le:
  assumes "d < jan1 (y + 1)"
  shows "greg_year d \<le> y"
proof (rule ccontr)
  assume "\<not> ?thesis"
  then have "jan1 (y + 1) \<le> jan1 (greg_year d)" using jan1_mono [of "y + 1" "greg_year d"] by simp
  then show False using greg_year_bounds [of d] assms by simp
qed

lemma greg_year_ge:
  assumes "jan1 y \<le> d"
  shows "y \<le> greg_year d"
proof (rule ccontr)
  assume "\<not> ?thesis"
  then have "jan1 (greg_year d + 1) \<le> jan1 y" using jan1_mono [of "greg_year d + 1" y] by simp
  then show False using greg_year_bounds [of d] assms by simp
qed

lemma greg_year_unique: "jan1 y \<le> d \<Longrightarrow> d < jan1 (y + 1) \<Longrightarrow> greg_year d = y"
  by (simp add: greg_year_le greg_year_ge antisym)

interpretation greg: calendar gregorian
proof
  fix d
  show "year_of gregorian d \<le> year_of gregorian (d + 1)"
    using greg_year_ge [of "greg_year d" "d + 1"] greg_year_bounds [of d] by simp
  show "year_of gregorian (d + 365) \<le> year_of gregorian d + 1"
    using greg_year_le [of "d + 365" "greg_year d + 1"] greg_year_bounds [of d] jan1_step(1) [of "greg_year d + 1"]
    by (simp add: add.commute)
qed

section \<open>A business day is never far\<close>

lemma is_weekend_mod: "is_weekend d \<longleftrightarrow> d mod 7 \<ge> 5"
proof -
  have "d mod 7 < 7" "d mod 7 \<ge> 0" by simp_all
  then show ?thesis by (auto simp: is_weekend_def weekday_def)
qed

lemma set_sort_dedup [simp]: "set (sort_dedup ds) = set ds"
  by (simp add: sort_dedup_def)

lemma length_sort_dedup: "length (sort_dedup ds) \<le> length ds"
  using remdups_adj_length [of "sort ds"] by (simp add: sort_dedup_def)

lemma length_opt_list [simp]: "length (opt_list x) \<le> 1"
  by (cases x) auto

definition court_holidays :: "chrono \<Rightarrow> string \<Rightarrow> int \<Rightarrow> date list" where
  "court_holidays cal j y = (if uppercase j = ''ON'' then ontario_court_holidays cal y else us_federal_holidays cal y)"

lemma is_court_holiday_set: "is_court_holiday cal d j \<longleftrightarrow> d \<in> set (court_holidays cal j (year_of cal d))"
  by (simp add: is_court_holiday_def court_holidays_def is_federal_holiday_def)

lemma court_holidays_few: "length (court_holidays cal j y) \<le> 12"
proof -
  have "length (us_federal_holidays cal y) \<le> 12"
    unfolding us_federal_holidays_def Let_def by (rule order_trans [OF length_sort_dedup]) simp
  moreover have "length (case observed_christmas_pair cal y of Some (c, b) \<Rightarrow> [c, b] | None \<Rightarrow> []) \<le> 2"
    by (simp split: option.splits prod.splits)
  then have "length (ontario_shared_holidays cal y) \<le> 10"
    unfolding ontario_shared_holidays_def
    using length_opt_list [of "map_option observed_monday (from_ymd_opt cal y 1 1)"]
      length_opt_list [of "nth_weekday_of_month cal y 2 Mon 3"] length_opt_list [of "map_option (\<lambda>d. d - 2) (easter_sunday cal y)"]
      length_opt_list [of "monday_before cal y 5 25"] length_opt_list [of "map_option observed_monday (from_ymd_opt cal y 7 1)"]
      length_opt_list [of "nth_weekday_of_month cal y 8 Mon 1"] length_opt_list [of "nth_weekday_of_month cal y 9 Mon 1"]
      length_opt_list [of "nth_weekday_of_month cal y 10 Mon 2"]
    by (simp del: length_opt_list)
  then have "length (ontario_court_holidays cal y) \<le> 12"
    unfolding ontario_court_holidays_def
    using length_opt_list [of "map_option (\<lambda>d. d + 1) (easter_sunday cal y)"]
    by (intro order_trans [OF length_sort_dedup]) (simp del: length_opt_list)
  ultimately show ?thesis by (simp add: court_holidays_def)
qed

text \<open>The twenty-five weekdays of five whole weeks from a Monday.\<close>

definition five_weeks :: "date \<Rightarrow> date set" where
  "five_weeks m = (\<lambda>(k, i). m + 7 * k + i) ` ({0..<5} \<times> {0..<5})"

lemma card_five_weeks: "card (five_weeks m) = 25"
proof -
  have "k = k' \<and> i = i'" if "7 * k + i = 7 * k' + i'" "0 \<le> i" "i < 5" "0 \<le> i'" "i' < 5" for k k' i i' :: int
    using that by presburger
  then have "inj_on (\<lambda>(k, i). m + 7 * k + i) ({0..<5} \<times> {0..<5})" by (auto simp: inj_on_def)
  then show ?thesis by (simp add: five_weeks_def card_image)
qed

lemma five_weeks_weekdays:
  assumes "m mod 7 = 0" and "x \<in> five_weeks m"
  shows "\<not> is_weekend x" "m \<le> x" "x \<le> m + 32"
proof -
  obtain k i where x: "x = m + 7 * k + i" "0 \<le> k" "k < 5" "0 \<le> i" "i < 5" using assms(2) by (auto simp: five_weeks_def)
  have "x mod 7 = (i + 7 * (m div 7 + k)) mod 7" using assms(1) x(1) by (auto simp: algebra_simps)
  then have "x mod 7 = i" using x(4,5) by (simp only: mod_mult_self2) simp
  then show "\<not> is_weekend x" using x by (simp add: is_weekend_mod)
  show "m \<le> x" "x \<le> m + 32" using x by simp_all
qed

context calendar
begin

lemma year_mono: "d \<le> e \<Longrightarrow> year_of cal d \<le> year_of cal e"
proof (induction e rule: int_ge_induct)
  case (step e)
  then show ?case using year_step [of e] by simp
qed simp

lemma year_window: "d \<le> x \<Longrightarrow> x \<le> d + 365 \<Longrightarrow> year_of cal x \<in> {year_of cal d, year_of cal d + 1}"
  using year_mono [of d x] year_mono [of x "d + 365"] year_span [of d] by auto

lemma business_day_near: "\<exists>x. d \<le> x \<and> x \<le> d + 38 \<and> \<not> is_non_business_day cal x j"
proof (rule ccontr)
  assume none: "\<not> ?thesis"
  define m where "m = d + (- d) mod 7"
  have m: "m mod 7 = 0" "d \<le> m" "m \<le> d + 6" unfolding m_def by presburger+
  let ?Y = "year_of cal m"
  let ?H = "set (court_holidays cal j ?Y) \<union> set (court_holidays cal j (?Y + 1))"
  have "five_weeks m \<subseteq> ?H"
  proof
    fix x assume x: "x \<in> five_weeks m"
    note w = five_weeks_weekdays [OF m(1) x]
    have "is_non_business_day cal x j" using none w m by (auto dest: spec [of _ x])
    then have "is_court_holiday cal x j" using w by (simp add: is_non_business_day_def)
    then show "x \<in> ?H" using year_window [of m x] w by (auto simp: is_court_holiday_set)
  qed
  then have "25 \<le> card ?H" using card_mono [of ?H "five_weeks m"] by (simp add: card_five_weeks)
  moreover have "card ?H \<le> card (set (court_holidays cal j ?Y)) + card (set (court_holidays cal j (?Y + 1)))"
    by (rule card_Un_le)
  moreover have few: "card (set (court_holidays cal j y)) \<le> 12" for y
    using card_length [of "court_holidays cal j y"] court_holidays_few [of cal j y] by linarith
  ultimately show False using few [of ?Y] few [of "?Y + 1"] by linarith
qed

lemma next_court_day:
  assumes "dir = 1 \<or> dir = - 1"
  shows "\<exists>n > 0. \<not> is_non_business_day cal (c + dir * int n) j \<and>
    (\<forall>k. 0 < k \<and> k < n \<longrightarrow> is_non_business_day cal (c + dir * int k) j)"
proof -
  let ?P = "\<lambda>n. 0 < n \<and> \<not> is_non_business_day cal (c + dir * int n) j"
  have "\<exists>x. dir * (x - c) > 0 \<and> \<not> is_non_business_day cal x j"
  proof (cases "dir = 1")
    case True
    obtain x where "c + 1 \<le> x" "\<not> is_non_business_day cal x j" using business_day_near [of "c + 1" j] by blast
    then show ?thesis using True by (intro exI [of _ x]) simp
  next
    case False
    obtain x where "x \<le> c - 39 + 38" "\<not> is_non_business_day cal x j" using business_day_near [of "c - 39" j] by blast
    then show ?thesis using False assms by (intro exI [of _ x]) simp
  qed
  then obtain x where x: "dir * (x - c) > 0" "\<not> is_non_business_day cal x j" by blast
  have "c + dir * int (nat (dir * (x - c))) = x" using x assms by auto
  then have "?P (nat (dir * (x - c)))" using x by simp
  then have "?P (LEAST n. ?P n)" by (rule LeastI)
  moreover have "\<forall>k. 0 < k \<and> k < (LEAST n. ?P n) \<longrightarrow> is_non_business_day cal (c + dir * int k) j"
    using not_less_Least by blast
  ultimately show ?thesis by blast
qed

end

section \<open>The loops\<close>

text \<open>A trace is numbered from one without gaps.\<close>

definition numbered :: "trace_step list \<Rightarrow> bool" where
  "numbered steps \<longleftrightarrow> map st_step steps = [1..<length steps + 1]"

lemma numbered_push [simp]: "numbered steps \<Longrightarrow> numbered (push_step desc steps)"
  by (simp add: numbered_def push_step_def)

lemma numbered_Nil [simp]: "numbered []"
  by (simp add: numbered_def)

lemma numbered_court_day [simp]: "numbered steps \<Longrightarrow> numbered (court_day_step fmt p r c steps)"
  by (simp add: court_day_step_def Let_def)

lemma push_past_finds:
  assumes "\<forall>k < n. is_non_business_day cal (c + int k) j" and "\<not> is_non_business_day cal (c + int n) j" and "numbered steps"
  shows "\<exists>steps'. push_past cal fmt j c steps = Some (c + int n, steps') \<and> numbered steps'"
  using assms
proof (induction n arbitrary: c steps)
  case 0
  then show ?case by (simp add: push_past.simps)
next
  case (Suc n)
  have "is_non_business_day cal c j" using Suc.prems(1) by (auto dest: spec [of _ 0])
  moreover have "\<forall>k < n. is_non_business_day cal (c + 1 + int k) j"
    using Suc.prems(1) by (auto dest: spec [of _ "Suc _"] simp: add.assoc)
  ultimately show ?case
    using Suc.IH [of "c + 1"] Suc.prems(2,3) by (subst push_past.simps) (simp add: add.assoc)
qed

lemma count_court_days_next:
  assumes "0 < n" and "\<forall>k. 0 < k \<and> k < n \<longrightarrow> is_non_business_day cal (c + dir * int k) j"
    and "\<not> is_non_business_day cal (c + dir * int n) j" and "numbered steps"
  shows "\<exists>steps'. numbered steps' \<and>
    count_court_days cal fmt j dir p (Suc r) c steps = count_court_days cal fmt j dir p r (c + dir * int n) steps'"
  using assms
proof (induction n arbitrary: c steps)
  case (Suc n)
  show ?case
  proof (cases "n = 0")
    case True
    then show ?thesis using Suc.prems
      by (intro exI [of _ "court_day_step fmt p r (c + dir) steps"], subst count_court_days.simps) (simp add: Let_def)
  next
    case False
    have c: "c + dir + dir * int k = c + dir * int (Suc k)" for k by (simp add: algebra_simps)
    have skip: "is_non_business_day cal (c + dir) j" using Suc.prems(2) False by (auto dest: spec [of _ 1])
    define s where "s = push_step (''Skip '' @ show_date fmt (c + dir) @ '' ('' @ why_skipped (c + dir) j @ '')'') steps"
    have "\<forall>k. 0 < k \<and> k < n \<longrightarrow> is_non_business_day cal (c + dir + dir * int k) j"
      using Suc.prems(2) unfolding c by auto
    moreover have "\<not> is_non_business_day cal (c + dir + dir * int n) j" using Suc.prems(3) unfolding c .
    moreover have "numbered s" using Suc.prems(4) by (simp add: s_def)
    ultimately obtain steps' where "numbered steps'" and "count_court_days cal fmt j dir p (Suc r) (c + dir) s =
      count_court_days cal fmt j dir p r (c + dir + dir * int n) steps'"
      using Suc.IH [of "c + dir" s] False by blast
    moreover have "count_court_days cal fmt j dir p (Suc r) c steps = count_court_days cal fmt j dir p (Suc r) (c + dir) s"
      unfolding s_def by (subst count_court_days.simps) (simp add: Let_def skip)
    ultimately show ?thesis unfolding c by metis
  qed
qed simp

definition court_days_in :: "chrono \<Rightarrow> string \<Rightarrow> int \<Rightarrow> date \<Rightarrow> date \<Rightarrow> date set" where
  "court_days_in cal j dir c r =
     {x. 0 < dir * (x - c) \<and> dir * (x - c) \<le> dir * (r - c) \<and> \<not> is_non_business_day cal x j}"

lemma court_days_in_next:
  assumes "dir = 1 \<or> dir = - 1" and "0 < n" and "\<forall>k. 0 < k \<and> k < n \<longrightarrow> is_non_business_day cal (c + dir * int k) j"
    and "\<not> is_non_business_day cal (c + dir * int n) j" and "0 \<le> dir * (r - (c + dir * int n))"
  shows "court_days_in cal j dir c r = insert (c + dir * int n) (court_days_in cal j dir (c + dir * int n) r)"
proof -
  have "x = c + dir * int n \<or> 0 < dir * (x - (c + dir * int n))" if "x \<in> court_days_in cal j dir c r" for x
  proof (rule ccontr)
    assume not: "\<not> ?thesis"
    let ?k = "nat (dir * (x - c))"
    have "0 < ?k" "?k < n" "x = c + dir * int ?k" using that not assms(1) by (auto simp: court_days_in_def)
    then have "is_non_business_day cal x j" using assms(3) by metis
    then show False using that by (simp add: court_days_in_def)
  qed
  then show ?thesis using assms by (auto simp: court_days_in_def)
qed

lemma finite_court_days_in: "dir = 1 \<or> dir = - 1 \<Longrightarrow> finite (court_days_in cal j dir c r)"
  by (rule finite_subset [of _ "{min c r..max c r}"]) (auto simp: court_days_in_def)

context calendar
begin

lemma push_past_terminates:
  assumes "numbered steps"
  shows "\<exists>r steps'. push_past cal fmt j c steps = Some (r, steps') \<and> numbered steps' \<and> c \<le> r \<and> r \<le> c + 38 \<and>
    \<not> is_non_business_day cal r j \<and> (\<forall>x. c \<le> x \<and> x < r \<longrightarrow> is_non_business_day cal x j)"
proof -
  let ?P = "\<lambda>n. \<not> is_non_business_day cal (c + int n) j"
  obtain x where x: "c \<le> x" "x \<le> c + 38" "\<not> is_non_business_day cal x j" using business_day_near by blast
  define n where "n = (LEAST n. ?P n)"
  have "?P (nat (x - c))" using x by simp
  then have n: "?P n" "n \<le> nat (x - c)" unfolding n_def by (rule LeastI, rule Least_le)
  have below: "\<forall>k < n. \<not> ?P k" unfolding n_def using not_less_Least by blast
  have "is_non_business_day cal z j" if "c \<le> z" "z < c + int n" for z
    using below [rule_format, of "nat (z - c)"] that by simp
  moreover obtain steps' where "push_past cal fmt j c steps = Some (c + int n, steps')" "numbered steps'"
    using push_past_finds [of n cal c j steps fmt] below n assms by auto
  ultimately show ?thesis using n x by (intro exI [of _ "c + int n"] exI [of _ steps']) auto
qed

lemma count_terminates:
  assumes "dir = 1 \<or> dir = - 1" and "numbered steps"
  shows "\<exists>r steps'. count_court_days cal fmt j dir p m c steps = Some (r, steps') \<and> numbered steps' \<and>
    card (court_days_in cal j dir c r) = m \<and> 0 \<le> dir * (r - c) \<and> (if m = 0 then r = c else r \<in> court_days_in cal j dir c r)"
  using assms(2)
proof (induction m arbitrary: c steps)
  case 0
  have "court_days_in cal j dir c c = {}" by (auto simp: court_days_in_def)
  then show ?case using 0 by (simp add: count_court_days.simps)
next
  case (Suc m)
  obtain n where n: "0 < n" "\<not> is_non_business_day cal (c + dir * int n) j"
    "\<forall>k. 0 < k \<and> k < n \<longrightarrow> is_non_business_day cal (c + dir * int k) j"
    using next_court_day [OF assms(1)] by blast
  let ?c = "c + dir * int n"
  obtain steps1 where s1: "numbered steps1"
    and eq: "count_court_days cal fmt j dir p (Suc m) c steps = count_court_days cal fmt j dir p m ?c steps1"
    using count_court_days_next [OF n(1) n(3) n(2) Suc.prems] by blast
  obtain r steps' where r: "count_court_days cal fmt j dir p m ?c steps1 = Some (r, steps')" "numbered steps'"
    "card (court_days_in cal j dir ?c r) = m" "0 \<le> dir * (r - ?c)"
    "if m = 0 then r = ?c else r \<in> court_days_in cal j dir ?c r"
    using Suc.IH [OF s1] by blast
  have new: "court_days_in cal j dir c r = insert ?c (court_days_in cal j dir ?c r)"
    using court_days_in_next [OF assms(1) n(1) n(3) n(2) r(4)] .
  have "?c \<notin> court_days_in cal j dir ?c r" by (simp add: court_days_in_def)
  then have "card (court_days_in cal j dir c r) = Suc m"
    using new r(3) finite_court_days_in [OF assms(1)] by simp
  moreover have "r \<in> court_days_in cal j dir c r" using r(5) new by (auto split: if_splits)
  moreover have "0 \<le> dir * (r - c)" using r(4) assms(1) n(1) by auto
  ultimately show ?case using eq r(1,2) by auto
qed

end

section \<open>Deadlines\<close>


lemma calendar_period_correct:
  assumes "calendar cal" and "numbered steps"
  shows "\<exists>r steps'. calendar_period cal fmt rule t steps = Some (r, steps') \<and> numbered steps' \<and>
    t + cr_offset_days rule \<le> r \<and> r \<le> t + cr_offset_days rule + 38 \<and> \<not> is_non_business_day cal r (cr_jurisdiction rule) \<and>
    (\<forall>x. t + cr_offset_days rule \<le> x \<and> x < r \<longrightarrow> is_non_business_day cal x (cr_jurisdiction rule))"
proof -
  define s where "s = push_step (''Raw result: '' @ dated fmt (t + cr_offset_days rule)) (push_step (''Add '' @
    show_int fmt (cr_offset_days rule) @ '' calendar '' @ day_or_days (cr_offset_days rule) @ '' per '' @
    cr_citation rule @ '' (court_days = false)'') steps)"
  have "numbered s" using assms(2) by (simp add: s_def)
  from calendar.push_past_terminates [OF assms(1) this]
  obtain r s' where "push_past cal fmt (cr_jurisdiction rule) (t + cr_offset_days rule) s = Some (r, s')" "numbered s'"
    "t + cr_offset_days rule \<le> r" "r \<le> t + cr_offset_days rule + 38" "\<not> is_non_business_day cal r (cr_jurisdiction rule)"
    "\<forall>x. t + cr_offset_days rule \<le> x \<and> x < r \<longrightarrow> is_non_business_day cal x (cr_jurisdiction rule)" by blast
  then show ?thesis unfolding calendar_period_def Let_def s_def [symmetric] by simp
qed

lemma court_period_correct:
  assumes "calendar cal" and "numbered steps"
  shows "\<exists>r steps'. court_period cal fmt rule t steps = Some (r, steps') \<and> numbered steps' \<and>
    (let dir = if cr_offset_days rule \<ge> 0 then 1 else - 1; D = court_days_in cal (cr_jurisdiction rule) dir t r
     in card D = nat \<bar>cr_offset_days rule\<bar> \<and> (if cr_offset_days rule = 0 then r = t else r \<in> D))"
proof -
  let ?dir = "if cr_offset_days rule \<ge> 0 then 1 else - 1 :: int"
  let ?n = "nat \<bar>cr_offset_days rule\<bar>"
  have dir: "?dir = 1 \<or> ?dir = - 1" by simp
  obtain r steps' where "court_period cal fmt rule t steps = Some (r, steps')" "numbered steps'"
    "card (court_days_in cal (cr_jurisdiction rule) ?dir t r) = ?n"
    "if ?n = 0 then r = t else r \<in> court_days_in cal (cr_jurisdiction rule) ?dir t r"
    unfolding court_period_def Let_def
    using calendar.count_terminates [OF assms(1) dir numbered_push [OF assms(2)],
      where p = ?n and m = ?n and j = "cr_jurisdiction rule" and c = t] by metis
  then show ?thesis unfolding Let_def by simp
qed

text \<open>What a deadline is, for each direction of each kind of period.\<close>

definition deadline_spec :: "chrono \<Rightarrow> court_rule \<Rightarrow> date \<Rightarrow> date \<Rightarrow> bool" where
  "deadline_spec cal rule t r \<longleftrightarrow>
     (let j = cr_jurisdiction rule; n = cr_offset_days rule
      in if \<not> cr_court_days rule
         then t + n \<le> r \<and> \<not> is_non_business_day cal r j \<and> (\<forall>x. t + n \<le> x \<and> x < r \<longrightarrow> is_non_business_day cal x j)
         else if n = 0 then r = t
         else if n > 0
         then t < r \<and> \<not> is_non_business_day cal r j \<and> int (card {x. t < x \<and> x \<le> r \<and> \<not> is_non_business_day cal x j}) = n
         else r < t \<and> \<not> is_non_business_day cal r j \<and> int (card {x. r \<le> x \<and> x < t \<and> \<not> is_non_business_day cal x j}) = - n)"

lemma court_days_in_forward: "court_days_in cal j 1 t r = {x. t < x \<and> x \<le> r \<and> \<not> is_non_business_day cal x j}"
  by (auto simp: court_days_in_def)

lemma court_days_in_backward: "court_days_in cal j (- 1) t r = {x. r \<le> x \<and> x < t \<and> \<not> is_non_business_day cal x j}"
  by (auto simp: court_days_in_def)

text \<open>C13: Every rule on every trigger date gets a deadline: under the laws of the calendar, both loops end. A calendar-day
  deadline is the first business day of the rule's jurisdiction on or after the trigger plus the offset, never more than
  38 days after it; a court-day deadline is the business day at which exactly the offset's number of business days has
  been counted, forward or backward. The result is midnight of that day, the trace names it, and its steps are
  numbered from one without gaps.
\<close>

theorem deadline_terminates_correct:
  assumes "calendar cal"
  shows "\<exists>r tr. apply_rule_with_trace cal fmt rule (t, s) = Some ((r, 0), tr) \<and> deadline_spec cal rule t r \<and>
    (\<not> cr_court_days rule \<longrightarrow> r \<le> t + cr_offset_days rule + 38) \<and>
    tr_result_date tr = show_date fmt r \<and> numbered (tr_steps tr)"
proof (cases "cr_court_days rule")
  case False
  let ?s = "push_step (''Trigger date: '' @ dated fmt t) []"
  have "numbered ?s" by simp
  from calendar_period_correct [OF assms this, of fmt rule t] obtain r s' where
    "calendar_period cal fmt rule t ?s = Some (r, s')" "numbered s'" "r \<le> t + cr_offset_days rule + 38"
    "t + cr_offset_days rule \<le> r" "\<not> is_non_business_day cal r (cr_jurisdiction rule)"
    "\<forall>x. t + cr_offset_days rule \<le> x \<and> x < r \<longrightarrow> is_non_business_day cal x (cr_jurisdiction rule)" by blast
  then show ?thesis using False by (simp add: apply_rule_with_trace_def deadline_spec_def Let_def)
next
  case True
  let ?s = "push_step (''Trigger date: '' @ dated fmt t) []"
  have "numbered ?s" by simp
  from court_period_correct [OF assms this, of fmt rule t] obtain r s' where
    *: "court_period cal fmt rule t ?s = Some (r, s')" "numbered s'"
      "let dir = if cr_offset_days rule \<ge> 0 then 1 else - 1; D = court_days_in cal (cr_jurisdiction rule) dir t r
       in card D = nat \<bar>cr_offset_days rule\<bar> \<and> (if cr_offset_days rule = 0 then r = t else r \<in> D)" by blast
  have "deadline_spec cal rule t r"
    using *(3) True unfolding deadline_spec_def Let_def
    by (auto simp: court_days_in_forward court_days_in_backward split: if_splits)
  then show ?thesis using True *(1,2) by (simp add: apply_rule_with_trace_def)
qed

definition plain_fmt :: date_fmt where
  "plain_fmt = \<lparr>show_date = \<lambda>d. [], show_long = \<lambda>d. [], show_int = \<lambda>i. []\<rparr>"

definition test_rule :: court_rule where
  "test_rule = \<lparr>cr_id = ''test_rule'', cr_citation = ''Test Rule'', cr_deadline_type = Internal, cr_offset_days = 1,
     cr_court_days = False, cr_version = ''1'', cr_jurisdiction = ''FRCP''\<rparr>"

text \<open>One day after Thursday 2021-12-30 is the observed New Year's Day of 2022, so the deadline is Monday 2022-01-03.\<close>

lemma observed_new_year: "apply_rule gregorian plain_fmt test_rule (738153, 43200) = Some (738157, 0)"
  by code_simp

theorem deadline_terminates_correct_witness:
  "calendar gregorian \<and> deadline_spec gregorian test_rule 738153 738157 \<and>
   apply_rule gregorian plain_fmt test_rule (738153, 43200) = Some (738157, 0)"
proof -
  obtain r tr where "apply_rule_with_trace gregorian plain_fmt test_rule (738153, 43200) = Some ((r, 0), tr)"
    "deadline_spec gregorian test_rule 738153 r"
    using deadline_terminates_correct [OF greg.calendar_axioms] by blast
  moreover from this have "r = 738157" using observed_new_year by (simp add: apply_rule_def)
  ultimately show ?thesis using greg.calendar_axioms observed_new_year by simp
qed

section \<open>Holidays fall on weekdays\<close>

lemma num_weekday [simp]: "num_days_from_monday (weekday d) = d mod 7"
proof -
  have "d mod 7 < 7" "d mod 7 \<ge> 0" by simp_all
  then show ?thesis by (auto simp: num_days_from_monday_def weekday_def)
qed

lemma num_inject: "num_days_from_monday w = num_days_from_monday w' \<longleftrightarrow> w = w'"
  by (cases w; cases w'; simp add: num_days_from_monday_def)

lemma num_range: "0 \<le> num_days_from_monday w \<and> num_days_from_monday w < 7"
  by (cases w) (simp_all add: num_days_from_monday_def)

lemma weekday_iff: "weekday d = w \<longleftrightarrow> d mod 7 = num_days_from_monday w"
  by (metis num_inject num_weekday)

lemma weekday_reach:
  fixes d k t :: int
  assumes "0 \<le> t" "t < 7"
  shows "(d + ((t + 7 - d mod 7) mod 7 + 7 * k)) mod 7 = t" "((d - (d mod 7 + 7 - t) mod 7)) mod 7 = t"
proof -
  have "(d + ((t + 7 - d mod 7) mod 7 + 7 * k)) mod 7 = ((d + 7 * k) + (t + 7 - d mod 7) mod 7) mod 7" by (simp add: ac_simps)
  also have "\<dots> = ((d + 7 * k) + (t + 7 - d)) mod 7" by (simp only: mod_simps)
  also have "\<dots> = (t + 7 * (k + 1)) mod 7" by (simp add: algebra_simps)
  finally have "(d + ((t + 7 - d mod 7) mod 7 + 7 * k)) mod 7 = (t + 7 * (k + 1)) mod 7" .
  then show "(d + ((t + 7 - d mod 7) mod 7 + 7 * k)) mod 7 = t" using assms by (simp only: mod_mult_self2) simp
  have "d - (d mod 7 + 7 - t) = (d - d mod 7) + t - 7" by simp
  also have "\<dots> = t + 7 * (d div 7 - 1)" by (simp only: minus_mod_eq_mult_div) simp
  finally have "d - (d mod 7 + 7 - t) = t + 7 * (d div 7 - 1)" .
  then have "(d - (d mod 7 + 7 - t) mod 7) mod 7 = (t + 7 * (d div 7 - 1)) mod 7" by (metis mod_diff_right_eq)
  then show "((d - (d mod 7 + 7 - t) mod 7)) mod 7 = t" using assms by (simp only: mod_mult_self2) simp
qed

lemma weekday_nth_weekday: "weekday (nth_weekday cal y m wd n) = wd"
  unfolding weekday_iff nth_weekday_def Let_def num_weekday by (rule weekday_reach) (use num_range in auto)

lemma weekday_last_weekday: "weekday (last_weekday cal y m wd) = wd"
  unfolding weekday_iff last_weekday_def Let_def num_weekday by (rule weekday_reach) (use num_range in auto)

lemma weekday_nth_weekday_of_month: "nth_weekday_of_month cal y m wd n = Some d \<Longrightarrow> weekday d = wd"
  using weekday_reach(1) [of "num_days_from_monday wd" _ "int n - 1"] num_range [of wd]
  by (auto simp: nth_weekday_of_month_def weekday_iff Let_def add.assoc split: if_splits option.splits)

lemma is_weekend_shift:
  "is_weekend (d + k) \<longleftrightarrow> (num_days_from_monday (weekday d) + k) mod 7 \<ge> 5"
  "is_weekend (d - k) \<longleftrightarrow> (num_days_from_monday (weekday d) - k) mod 7 \<ge> 5"
  unfolding is_weekend_mod num_weekday by (simp_all only: mod_simps)

lemma weekday_workday: "weekday d \<in> {Mon, Tue, Wed, Thu, Fri} \<Longrightarrow> \<not> is_weekend d"
  by (auto simp: is_weekend_def)

lemma weekday_observed_monday: "\<not> is_weekend (observed_monday d)"
  unfolding observed_monday_def
  by (cases "weekday d") (simp_all add: is_weekend_shift num_days_from_monday_def weekday_workday del: num_weekday)

lemma weekday_observe: "\<not> is_weekend (observe cal y m d)"
  unfolding observe_def Let_def
  by (cases "weekday (ymd_or_default cal y m d)")
    (simp_all add: is_weekend_shift num_days_from_monday_def weekday_workday del: num_weekday)

lemma us_holidays_weekdays: "d \<in> set (us_federal_holidays cal y) \<Longrightarrow> \<not> is_weekend d"
proof -
  have "\<not> is_weekend (nth_weekday cal y m Mon n)" "\<not> is_weekend (nth_weekday cal y m Thu n)"
    "\<not> is_weekend (last_weekday cal y m Mon)" for m n
    by (simp_all add: is_weekend_def weekday_nth_weekday weekday_last_weekday)
  then show "d \<in> set (us_federal_holidays cal y) \<Longrightarrow> \<not> is_weekend d"
    by (auto simp: us_federal_holidays_def Let_def weekday_observe split: if_splits)
qed

lemma days_before_3: "days_before y 3 = (if leap y then 60 else 59)"
  by (simp add: days_before_def days_in_month_def upt_rec)

lemma days_before_4: "days_before y 4 = days_before y 3 + 31"
  by (simp add: days_before_def days_in_month_def upt_rec)

lemma div_pred:
  fixes y n :: int
  assumes "0 < n"
  shows "y div n = (y - 1) div n + (if y mod n = 0 then 1 else 0)"
proof (cases "y mod n = 0")
  case True
  then obtain q where "y = n * q" by auto
  moreover have "(n * q - 1) div n = q - 1"
    using assms int_div_pos_eq [of "n * q - 1" n "q - 1" "n - 1"] by (simp add: algebra_simps)
  ultimately show ?thesis using assms by simp
next
  case False
  moreover have "y mod n < n" "0 \<le> y mod n" using assms by simp_all
  ultimately have "0 \<le> y mod n - 1" "y mod n - 1 < n" by linarith+
  moreover have "y - 1 = n * (y div n) + (y mod n - 1)" using mult_div_mod_eq [of n y] by linarith
  ultimately have "(y - 1) div n = y div n" using int_div_pos_eq [of "y - 1" n "y div n" "y mod n - 1"] by blast
  then show ?thesis using False by simp
qed

lemma leap_days: "y div 4 - y div 100 + y div 400 = (y - 1) div 4 - (y - 1) div 100 + (y - 1) div 400 + (if leap y then 1 else 0)"
proof -
  have "y mod 400 = 0 \<Longrightarrow> y mod 100 = 0" "y mod 100 = 0 \<Longrightarrow> y mod 4 = 0" by presburger+
  then show ?thesis
    unfolding leap_def div_pred [of 4 y, simplified] div_pred [of 100 y, simplified] div_pred [of 400 y, simplified] by auto
qed

lemma jan1_next: "jan1 (y + 1) = jan1 y + 365 + (if leap y then 1 else 0)"
  using leap_days [of y] unfolding jan1_def by (cases "leap y") simp_all

lemma jan1_leap: "jan1 y + days_before y 3 + 21 = 365 * (y - 1) + y div 4 - y div 100 + y div 400 + 80"
  using leap_days [of y] unfolding jan1_def days_before_3 by (cases "leap y") simp_all

text \<open>
  Easter is \<open>h + l - 7 * m\<close> days after March 22 (\<open>easter_offset\<close>); the offset is between 0 and 34 and lands on a Sunday.
\<close>

lemma easter_offset_range:
  fixes a h l m :: int
  assumes "0 \<le> a" "a < 19" "0 \<le> h" "h < 30" "0 \<le> l" "l < 7" and m: "m = (a + 11 * h + 22 * l) div 451"
  shows "0 \<le> h + l - 7 * m" "h + l - 7 * m \<le> 34"
proof -
  have "451 * m \<le> a + 11 * h + 22 * l" "a + 11 * h + 22 * l < 451 * m + 451"
    using div_bounds [of 451 "a + 11 * h + 22 * l"] by (simp_all add: m)
  moreover from this have "m \<le> 1" "0 \<le> m" using assms(1-6) by linarith+
  then consider "m = 0" | "m = 1" by linarith
  ultimately show "0 \<le> h + l - 7 * m" "h + l - 7 * m \<le> 34" using assms(1-6) by (cases; simp)+
qed

lemma easter_offset_sunday:
  fixes y b c d e i k h l m :: int
  assumes "b = y div 100" "c = y mod 100" "d = b div 4" "e = b mod 4" "i = c div 4" "k = c mod 4"
    and l: "l = (32 + 2 * e + 2 * i - h - k) mod 7"
  shows "(jan1 y + days_before y 3 + 21 + (h + l - 7 * m)) mod 7 = 6"
proof -
  have c: "c = 4 * i + k" and b: "b = 4 * d + e" and y: "y = 100 * b + c"
    unfolding assms(5,6) assms(3,4) assms(1,2) by (simp_all only: mult_div_mod_eq)
  have "c < 100" "0 \<le> c" "k < 4" "0 \<le> k" "e < 4" "0 \<le> e" unfolding assms by simp_all
  then have "y div 4 = 25 * b + i" "y div 400 = d"
    using int_div_pos_eq [of y 4 "25 * b + i" k] int_div_pos_eq [of y 400 d "100 * e + c"] y c b by simp_all
  then have "jan1 y + days_before y 3 + 21 + (h + (32 + 2 * e + 2 * i - h - k) - 7 * m) =
      6 + 7 * (5217 * b + 3 * d + e + 209 * i + 52 * k - 37 - m)"
    unfolding jan1_leap assms(1) [symmetric] using y c b by simp
  then have "(jan1 y + days_before y 3 + 21 + (h + (32 + 2 * e + 2 * i - h - k) - 7 * m)) mod 7 = 6" by (simp only: mod_mult_self2) simp
  then have "((jan1 y + days_before y 3 + 21 + h - 7 * m) + (32 + 2 * e + 2 * i - h - k)) mod 7 = 6" by (simp add: algebra_simps)
  then have "((jan1 y + days_before y 3 + 21 + h - 7 * m) + l) mod 7 = 6" unfolding l by (simp only: mod_add_right_eq)
  then show ?thesis by (simp add: algebra_simps)
qed

lemma greg_ymd_spring:
  assumes "0 \<le> w" "w \<le> 34"
  shows "greg_ymd y (nat ((w + 114) div 31)) (nat ((w + 114) mod 31 + 1)) = Some (jan1 y + days_before y 3 + 21 + w)"
proof (cases "w < 10")
  case True
  then have "(w + 114) div 31 = 3" "(w + 114) mod 31 = w + 21"
    using assms int_div_pos_eq [of "w + 114" 31 3 "w + 21"] int_mod_pos_eq [of "w + 114" 31 3 "w + 21"] by simp_all
  then show ?thesis using True assms by (simp add: greg_ymd_def days_in_month_def) linarith
next
  case False
  then have "(w + 114) div 31 = 4" "(w + 114) mod 31 = w - 10"
    using assms int_div_pos_eq [of "w + 114" 31 4 "w - 10"] int_mod_pos_eq [of "w + 114" 31 4 "w - 10"] by simp_all
  then show ?thesis using False assms by (simp add: greg_ymd_def days_in_month_def days_before_4) linarith
qed

lemma easter_date:
  assumes "\<not> y < 1582"
  shows "\<exists>w. easter_sunday gregorian y = Some (jan1 y + days_before y 3 + 21 + w) \<and> 0 \<le> w \<and> w \<le> 34 \<and>
    weekday (jan1 y + days_before y 3 + 21 + w) = Sun"
proof -
  define a where "a = y mod 19"
  define b where "b = y div 100"
  define c where "c = y mod 100"
  define d where "d = b div 4"
  define e where "e = b mod 4"
  define f where "f = (b + 8) div 25"
  define g where "g = (b - f + 1) div 3"
  define h where "h = (19 * a + b - d - g + 15) mod 30"
  define i where "i = c div 4"
  define k where "k = c mod 4"
  define l where "l = (32 + 2 * e + 2 * i - h - k) mod 7"
  define m where "m = (a + 11 * h + 22 * l) div 451"
  have w: "0 \<le> h + l - 7 * m" "h + l - 7 * m \<le> 34"
    by (rule easter_offset_range [OF _ _ _ _ _ _ m_def]; simp add: a_def h_def l_def)+
  let ?d = "jan1 y + days_before y 3 + 21 + (h + l - 7 * m)"
  have "easter_sunday gregorian y = Some ?d"
    using assms greg_ymd_spring [OF w, of y]
    unfolding easter_sunday_def Let_def a_def [symmetric] b_def [symmetric] c_def [symmetric]
    unfolding d_def [symmetric] e_def [symmetric] f_def [symmetric] i_def [symmetric] k_def [symmetric]
    unfolding g_def [symmetric] unfolding h_def [symmetric] unfolding l_def [symmetric] unfolding m_def [symmetric] by simp
  moreover have "weekday ?d = Sun"
    using easter_offset_sunday [OF b_def c_def d_def e_def i_def k_def l_def, of m]
    by (simp add: weekday_iff num_days_from_monday_def)
  ultimately show ?thesis using w by blast
qed

lemma easter_before_1582: "y < 1582 \<Longrightarrow> easter_sunday cal y = None"
  by (simp add: easter_sunday_def)

text \<open>From 1582 on, the Easter algorithm names a Sunday between March 22 and April 25 of the year asked for; before 1582
  it has no answer.
\<close>

theorem easter_is_a_spring_sunday:
  "if y < 1582 then easter_sunday gregorian y = None
   else \<exists>d m22 a25. easter_sunday gregorian y = Some d \<and> weekday d = Sun \<and> greg_ymd y 3 22 = Some m22 \<and>
     greg_ymd y 4 25 = Some a25 \<and> m22 \<le> d \<and> d \<le> a25"
proof (cases "y < 1582")
  case False
  then show ?thesis using easter_date [of y] greg_ymd_spring [of 0 y] greg_ymd_spring [of 34 y] by auto
qed (simp add: easter_before_1582)

lemma greg_christmas: "greg_ymd y 12 25 = Some c \<Longrightarrow> greg_ymd y 12 26 = Some b \<Longrightarrow> b = c + 1"
  by (auto simp: greg_ymd_def split: if_splits)

lemma christmas_weekdays:
  assumes "observed_christmas_pair gregorian y = Some (c, b)"
  shows "\<not> is_weekend c" "\<not> is_weekend b" "c \<noteq> b"
proof -
  obtain x z where x: "greg_ymd y 12 25 = Some x" "greg_ymd y 12 26 = Some z" "z = x + 1"
    using assms greg_christmas by (fastforce simp: observed_christmas_pair_def split: option.splits)
  then have cb: "(c, b) = (case weekday x of Sat \<Rightarrow> (x + 2, x + 3) | Sun \<Rightarrow> (x + 2, x + 1) | Fri \<Rightarrow> (x, x + 3) | _ \<Rightarrow> (x, x + 1))"
    using assms by (simp add: observed_christmas_pair_def split: weekday.splits)
  show "\<not> is_weekend c" "\<not> is_weekend b" "c \<noteq> b"
    using cb by (cases "weekday x"; simp add: is_weekend_shift num_days_from_monday_def weekday_workday del: num_weekday)+
qed

lemma monday_before_weekday: "monday_before cal y m d = Some x \<Longrightarrow> weekday x = Mon"
proof -
  have "(a - (if a mod 7 = 0 then 7 else a mod 7)) mod 7 = 0" for a :: int by (simp add: mod_simps)
  moreover have "num_days_from_monday Mon = 0" by (simp add: num_days_from_monday_def)
  ultimately show "monday_before cal y m d = Some x \<Longrightarrow> weekday x = Mon"
    by (auto simp: monday_before_def weekday_iff Let_def split: option.splits)
qed

lemma easter_neighbours:
  assumes "easter_sunday gregorian y = Some d"
  shows "weekday (d - 2) = Fri" "weekday (d + 1) = Mon"
proof -
  have "weekday d = Sun" using assms easter_date [of y] easter_before_1582 [of y gregorian] by fastforce
  then have "d mod 7 = 6" by (simp add: weekday_iff num_days_from_monday_def)
  then have "(d - 2) mod 7 = 4" "(d + 1) mod 7 = 0" by presburger+
  then show "weekday (d - 2) = Fri" "weekday (d + 1) = Mon" by (simp_all add: weekday_iff num_days_from_monday_def)
qed

lemma opt_list_iff [simp]: "d \<in> set (opt_list x) \<longleftrightarrow> x = Some d"
  by (cases x) auto

lemma ontario_shared_weekdays:
  assumes "d \<in> set (ontario_shared_holidays gregorian y)"
  shows "\<not> is_weekend d"
proof -
  have chr: "\<not> is_weekend d" if "d \<in> set (case observed_christmas_pair gregorian y of Some (c, b) \<Rightarrow> [c, b] | None \<Rightarrow> [])"
    using that christmas_weekdays(1,2) [of y] by (cases "observed_christmas_pair gregorian y") auto
  have "d \<in> observed_monday ` UNIV \<or> weekday d \<in> {Mon, Tue, Wed, Thu, Fri} \<or>
      d \<in> set (case observed_christmas_pair gregorian y of Some (c, b) \<Rightarrow> [c, b] | None \<Rightarrow> [])"
    using assms unfolding ontario_shared_holidays_def set_append Un_iff
  proof (elim disjE)
    assume "d \<in> set (if 2008 \<le> y then opt_list (nth_weekday_of_month gregorian y 2 Mon 3) else [])"
    then show ?thesis using weekday_nth_weekday_of_month [of gregorian y 2 Mon 3 d] by (cases "2008 \<le> y") simp_all
  next
    assume "d \<in> set (opt_list (map_option (\<lambda>d. d - 2) (easter_sunday gregorian y)))"
    then show ?thesis using easter_neighbours [of y] by auto
  qed (auto dest: weekday_nth_weekday_of_month [OF sym] monday_before_weekday [OF sym])
  then show ?thesis using chr weekday_observed_monday weekday_workday by blast
qed

text \<open>Every holiday the calendars list is a weekday, so an observed holiday never coincides with a weekend: the U.S.
  federal holidays under every calendar, both Ontario lists under the Gregorian one.
\<close>

theorem holidays_are_weekdays:
  "\<forall>d \<in> set (us_federal_holidays cal y) \<union> set (ontario_court_holidays gregorian y) \<union> set (ontario_statutory_holidays gregorian y).
     weekday d \<notin> {Sat, Sun}"
proof -
  have "\<not> is_weekend d" if "d \<in> set (ontario_court_holidays gregorian y)" for d
    using that ontario_shared_weekdays by (auto simp: ontario_court_holidays_def easter_neighbours weekday_workday)
  moreover have "\<not> is_weekend d" if "d \<in> set (ontario_statutory_holidays gregorian y)" for d
    using that ontario_shared_weekdays by (auto simp: ontario_statutory_holidays_def weekday_observed_monday)
  ultimately show ?thesis using us_holidays_weekdays by (auto simp: is_weekend_def)
qed

text \<open>Christmas 2021, a Saturday, is observed on Monday 2021-12-27 in Ontario and on Friday 2021-12-24 federally.\<close>

theorem holidays_are_weekdays_witness:
  "738150 \<in> set (ontario_court_holidays gregorian 2021) \<and> 738147 \<in> set (us_federal_holidays gregorian 2021) \<and>
   weekday 738150 \<notin> {Sat, Sun} \<and> weekday 738147 \<notin> {Sat, Sun}"
proof -
  have h: "738150 \<in> set (ontario_court_holidays gregorian 2021)" "738147 \<in> set (us_federal_holidays gregorian 2021)"
    by code_simp+
  then show ?thesis
    using holidays_are_weekdays [of gregorian 2021, rule_format, of 738150]
      holidays_are_weekdays [of gregorian 2021, rule_format, of 738147] by simp
qed

section \<open>Limitation periods\<close>

lemma greg_ymd_28: "1 \<le> m \<Longrightarrow> m \<le> 12 \<Longrightarrow> \<exists>x. greg_ymd y m 28 = Some x"
  by (simp add: greg_ymd_def days_in_month_def)

lemma days_before_mono: "m \<le> n \<Longrightarrow> days_before y m \<le> days_before y n"
proof (induction n rule: dec_induct)
  case (step n)
  then show ?case by (cases "n = 0") (simp_all add: days_before_def)
qed simp

lemma days_before_13: "days_before y 13 = (if leap y then 366 else 365)"
  by (simp add: days_before_def days_in_month_def upt_rec)

lemma greg_ymd_year:
  assumes "greg_ymd y m d = Some x"
  shows "greg_year x = y"
proof -
  have md: "1 \<le> m" "m \<le> 12" "1 \<le> d" "d \<le> days_in_month y m" "x = jan1 y + days_before y m + int d - 1"
    using assms by (auto simp: greg_ymd_def split: if_splits)
  have "days_before y (Suc m) = days_before y m + int (days_in_month y m)" using md(1) by (simp add: days_before_def)
  then have "days_before y m + int d \<le> days_before y 13" using days_before_mono [of "Suc m" 13 y] md by simp
  moreover have "0 \<le> days_before y m" using days_before_mono [of 1 m y] md(1) by (simp add: days_before_def)
  ultimately show ?thesis using md jan1_next [of y] by (intro antisym greg_year_le greg_year_ge) (auto simp: days_before_13 split: if_splits)
qed

lemma greg_month_range: "1 \<le> greg_month d" "greg_month d \<le> 12"
proof -
  have "1 \<in> set (filter (\<lambda>m. jan1 (greg_year d) + days_before (greg_year d) m \<le> d) [1..<13])"
    using greg_year_bounds [of d] by (simp add: days_before_def)
  then show "1 \<le> greg_month d"
    unfolding greg_month_def Let_def by (metis One_nat_def Suc_leI length_pos_if_in_set)
  show "greg_month d \<le> 12"
    unfolding greg_month_def Let_def using length_filter_le [of _ "[1..<13::nat]"] by (rule order_trans) simp
qed

lemma last_day_of_finds:
  assumes "from_ymd_opt cal y m 28 = Some x"
  shows "\<exists>d z. last_day_of cal y m 31 = Some z \<and> from_ymd_opt cal y m d = Some z"
  using assms by (auto simp: last_day_of.simps split: option.splits)

lemma add_years_gregorian: "\<exists>x. add_years gregorian d n = Inr x \<and> greg_year x = greg_year d + n"
proof -
  let ?y = "greg_year d + n"
  obtain x where "greg_ymd ?y (greg_month d) 28 = Some x" using greg_ymd_28 greg_month_range by blast
  then obtain k z where "last_day_of gregorian ?y (greg_month d) 31 = Some z" "greg_ymd ?y (greg_month d) k = Some z"
    using last_day_of_finds [of gregorian ?y "greg_month d" x] by auto
  then show ?thesis
    using greg_ymd_year by (cases "greg_ymd ?y (greg_month d) (greg_day d)") (auto simp: add_years_def Let_def)
qed

text \<open>The limitation calculator never fails on a Gregorian date, February 29 included. The basic period ends two
  calendar years after discovery, the ultimate one fifteen after the act; the claim is expired exactly from the day after
  the earlier of the two, and the days remaining count down to it and stop at zero.
\<close>

theorem limitation_exact:
  "\<exists>b u r. add_years gregorian disc 2 = Inr b \<and> greg_year b = greg_year disc + 2 \<and>
     add_years gregorian act 15 = Inr u \<and> greg_year u = greg_year act + 15 \<and>
     ontario_limitation gregorian disc act minor today = Inr r \<and>
     (limitation_expired r \<longleftrightarrow> b < today \<or> u < today) \<and> days_remaining r = max 0 (min b u - today) \<and>
     (warning r \<noteq> None \<longleftrightarrow> minor)"
proof -
  obtain b u where "add_years gregorian disc 2 = Inr b" "greg_year b = greg_year disc + 2"
    "add_years gregorian act 15 = Inr u" "greg_year u = greg_year act + 15"
    using add_years_gregorian [of disc 2] add_years_gregorian [of act 15] by blast
  then show ?thesis by (auto simp: ontario_limitation_def Let_def)
qed

end
