(* ===== verification/Skills.thy ===== *)
theory Skills
  imports Tool_Types
begin

text \<open>
  Skills (\<open>src/skills/mod.rs\<close>), their selection for a message (\<open>selector.rs\<close>), the attenuation of the tool list by
  the trust of the active skills (\<open>attenuation.rs\<close>), the gating of their requirements (\<open>gating.rs\<close>) and the parser of
  \<open>SKILL.md\<close> files (\<open>parser.rs\<close>). A compiled regular expression is the predicate it decides; YAML, SHA-256, the
  regex compiler and the environment are the fields of \<open>skill_env\<close>.
\<close>

section \<open>Data\<close>

datatype skill_trust = Installed | Trusted

text \<open>\<open>Ord\<close> is derived from the discriminants: \<open>Installed < Trusted\<close>.\<close>

instantiation skill_trust :: linorder
begin

definition less_eq_skill_trust :: "skill_trust \<Rightarrow> skill_trust \<Rightarrow> bool" where
  "less_eq_skill_trust a b \<longleftrightarrow> a = Installed \<or> b = Trusted"

definition less_skill_trust :: "skill_trust \<Rightarrow> skill_trust \<Rightarrow> bool" where
  "less_skill_trust a b \<longleftrightarrow> a = Installed \<and> b = Trusted"

instance
  by standard (auto simp: less_eq_skill_trust_def less_skill_trust_def; metis skill_trust.exhaust)+

end

datatype skill_source = Workspace string | User string | Bundled string

record activation_criteria =
  ac_keywords :: "string list"
  ac_patterns :: "string list"
  ac_tags :: "string list"
  max_context_tokens :: u64

record gating_requirements =
  req_bins :: "string list"
  req_env :: "string list"
  req_config :: "string list"

record skill_metadata =
  meta_domain :: "string option"
  requires_matter :: "bool option"
  citation_mode :: "string option"
  clawyer :: "gating_requirements option"

record skill_manifest =
  sm_name :: string
  sm_version :: string
  sm_description :: string
  activation :: activation_criteria
  metadata :: "skill_metadata option"

record loaded_skill =
  manifest :: skill_manifest
  prompt_content :: string
  skill_trust_of :: skill_trust
  skill_source_of :: skill_source
  content_hash :: string
  compiled_patterns :: "(string \<Rightarrow> bool) list"
  lowercased_keywords :: "string list"
  lowercased_tags :: "string list"

abbreviation skill_name :: "loaded_skill \<Rightarrow> string" where
  "skill_name s \<equiv> sm_name (manifest s)"

definition MAX_KEYWORDS_PER_SKILL :: nat where "MAX_KEYWORDS_PER_SKILL = 20"
definition MAX_PATTERNS_PER_SKILL :: nat where "MAX_PATTERNS_PER_SKILL = 5"
definition MAX_TAGS_PER_SKILL :: nat where "MAX_TAGS_PER_SKILL = 10"
definition MIN_KEYWORD_TAG_LENGTH :: nat where "MIN_KEYWORD_TAG_LENGTH = 3"
definition MAX_PROMPT_FILE_SIZE :: nat where "MAX_PROMPT_FILE_SIZE = 64 * 1024"

definition enforce_limits :: "activation_criteria \<Rightarrow> activation_criteria" where
  "enforce_limits a = a\<lparr>
     ac_keywords := take MAX_KEYWORDS_PER_SKILL (filter (\<lambda>k. length k \<ge> MIN_KEYWORD_TAG_LENGTH) (ac_keywords a)),
     ac_patterns := take MAX_PATTERNS_PER_SKILL (ac_patterns a),
     ac_tags := take MAX_TAGS_PER_SKILL (filter (\<lambda>t. length t \<ge> MIN_KEYWORD_TAG_LENGTH) (ac_tags a))\<rparr>"

text \<open>The regular expression \<open>^[a-zA-Z0-9][a-zA-Z0-9._-]{0,63}$\<close>.\<close>

definition name_char :: "char \<Rightarrow> bool" where
  "name_char c \<longleftrightarrow> is_alnum c \<or> c \<in> {CHR ''.'', CHR ''_'', CHR ''-''}"

definition validate_skill_name :: "string \<Rightarrow> bool" where
  "validate_skill_name name \<longleftrightarrow>
     (case name of [] \<Rightarrow> False | c # cs \<Rightarrow> is_alnum c \<and> list_all name_char cs \<and> length cs \<le> 63)"

section \<open>Escaping\<close>

definition replace_char :: "char \<Rightarrow> string \<Rightarrow> string \<Rightarrow> string" where
  "replace_char c r s = concat (map (\<lambda>x. if x = c then r else [x]) s)"

definition escape_xml_attr :: "string \<Rightarrow> string" where
  "escape_xml_attr s =
     replace_char (CHR ''>'') ''&gt;'' (replace_char (CHR ''<'') ''&lt;''
       (replace_char (CHR 0x27) ''&apos;'' (replace_char (CHR 0x22) ''&quot;'' (replace_char (CHR ''&'') ''&amp;'' s))))"

text \<open>The regular expression \<open>(?i)</?[\s\x00]*skill\<close> after its first character: how many characters it matches.\<close>

definition ws_or_nul :: "char \<Rightarrow> bool" where
  "ws_or_nul c \<longleftrightarrow> is_ws c \<or> c = CHR 0x00"

definition tag_word :: "string \<Rightarrow> bool" where
  "tag_word s \<longleftrightarrow> lowercase (take 5 s) = ''skill''"

definition tag_tail :: "string \<Rightarrow> nat option" where
  "tag_tail s =
     (let slash = (case s of c # _ \<Rightarrow> if c = CHR ''/'' then 1 else 0 | [] \<Rightarrow> 0);
          blanks = length (takeWhile ws_or_nul (drop slash s))
      in if tag_word (drop (slash + blanks) s) then Some (slash + blanks + 5) else None)"

text \<open>\<open>replace_all\<close>: leftmost matches from left to right, each with its \<open><\<close> replaced.\<close>

fun escape_skill_content :: "string \<Rightarrow> string" where
  "escape_skill_content [] = []"
| "escape_skill_content (c # s) =
     (if c = CHR ''<''
      then (case tag_tail s of
              Some n \<Rightarrow> ''&lt;'' @ take n s @ escape_skill_content (drop n s)
            | None \<Rightarrow> c # escape_skill_content s)
      else c # escape_skill_content s)"

fun replace_crlf :: "string \<Rightarrow> string" where
  "replace_crlf (a # b # s) =
     (if a = CHR 0x0D \<and> b = CHR 0x0A then CHR 0x0A # replace_crlf s else a # replace_crlf (b # s))"
| "replace_crlf s = s"

definition normalize_line_endings :: "string \<Rightarrow> string" where
  "normalize_line_endings s = replace_char (CHR 0x0D) [CHR 0x0A] (replace_crlf s)"

section \<open>Selection\<close>

definition MAX_KEYWORD_SCORE :: u32 where "MAX_KEYWORD_SCORE = 30"
definition MAX_TAG_SCORE :: u32 where "MAX_TAG_SCORE = 15"
definition MAX_REGEX_SCORE :: u32 where "MAX_REGEX_SCORE = 40"

definition trim_nonalnum :: "string \<Rightarrow> string" where
  "trim_nonalnum w = rev (dropWhile (\<lambda>c. \<not> is_alnum c) (rev (dropWhile (\<lambda>c. \<not> is_alnum c) w)))"

definition keyword_points :: "string \<Rightarrow> string \<Rightarrow> u32" where
  "keyword_points message_lower kw_lower =
     (if \<exists>word \<in> set (split_whitespace message_lower). trim_nonalnum word = kw_lower then 10
      else if str_contains message_lower kw_lower then 5 else 0)"

definition score_skill :: "loaded_skill \<Rightarrow> string \<Rightarrow> string \<Rightarrow> u32" where
  "score_skill skill message_lower message_original =
     (let keyword_score = sum_list (map (keyword_points message_lower) (lowercased_keywords skill));
          tag_score = sum_list (map (\<lambda>t. if str_contains message_lower t then 3 else 0) (lowercased_tags skill));
          regex_score = sum_list (map (\<lambda>re. if re message_original then 20 else 0) (compiled_patterns skill))
      in min keyword_score MAX_KEYWORD_SCORE + min tag_score MAX_TAG_SCORE + min regex_score MAX_REGEX_SCORE)"

text \<open>\<open>(len as f64 * 0.25) as usize\<close>; a prompt is at most \<open>MAX_PROMPT_FILE_SIZE\<close> bytes, so the floating-point
  product is exact.\<close>

definition approx_tokens :: "string \<Rightarrow> nat" where
  "approx_tokens s = length s div 4"

text \<open>The multiplication \<open>declared_tokens * 2\<close> wraps around at 64 bits in a release build.\<close>

definition token_cost :: "loaded_skill \<Rightarrow> nat" where
  "token_cost skill =
     (let declared_tokens = max_context_tokens (activation (manifest skill));
          approx = approx_tokens (prompt_content skill);
          raw_cost = (if approx > unat (declared_tokens * 2) then approx else unat declared_tokens)
      in max raw_cost 1)"

fun take_budget :: "nat \<Rightarrow> nat \<Rightarrow> loaded_skill list \<Rightarrow> loaded_skill list \<Rightarrow> loaded_skill list" where
  "take_budget max_candidates budget_remaining [] res = res"
| "take_budget max_candidates budget_remaining (e # es) res =
     (if length res \<ge> max_candidates then res
      else if token_cost e \<le> budget_remaining
      then take_budget max_candidates (budget_remaining - token_cost e) es (res @ [e])
      else take_budget max_candidates budget_remaining es res)"

text \<open>The skills of positive score, by descending score; \<open>sort_by_key\<close> is stable.\<close>

definition scored_skills :: "string \<Rightarrow> loaded_skill list \<Rightarrow> (loaded_skill \<times> u32) list" where
  "scored_skills message available_skills =
     sort_key (\<lambda>(s, n). - uint n)
       (filter (\<lambda>(s, n). n > 0) (map (\<lambda>s. (s, score_skill s (lowercase message) message)) available_skills))"

definition prefilter_skills :: "string \<Rightarrow> loaded_skill list \<Rightarrow> nat \<Rightarrow> nat \<Rightarrow> loaded_skill list" where
  "prefilter_skills message available_skills max_candidates budget =
     (if available_skills = [] \<or> message = [] then []
      else take_budget max_candidates budget (map fst (scored_skills message available_skills)) [])"

section \<open>Attenuation\<close>

definition READ_ONLY_TOOLS :: "string list" where
  "READ_ONLY_TOOLS = [''memory_search'', ''memory_read'', ''memory_tree'', ''time'', ''echo'', ''json'', ''skill_list'',
     ''skill_search'']"

record attenuation_result =
  att_tools :: "tool_definition list"
  att_min_trust :: skill_trust
  att_explanation :: string
  att_removed_tools :: "string list"

text \<open>\<open>show\<close> renders the number of removed tools.\<close>

definition attenuate_tools :: "(nat \<Rightarrow> string) \<Rightarrow> tool_definition list \<Rightarrow> loaded_skill list \<Rightarrow> attenuation_result" where
  "attenuate_tools show tools active_skills =
     (if active_skills = []
      then \<lparr>att_tools = tools, att_min_trust = Trusted,
             att_explanation = ''No skills active, all tools available'', att_removed_tools = []\<rparr>
      else let min_trust = Min (set (map skill_trust_of active_skills))
           in case min_trust of
                Trusted \<Rightarrow> \<lparr>att_tools = tools, att_min_trust = min_trust,
                  att_explanation = ''All active skills are trusted (full trust), all tools available'',
                  att_removed_tools = []\<rparr>
              | Installed \<Rightarrow>
                  let kept = filter (\<lambda>t. td_name t \<in> set READ_ONLY_TOOLS) tools;
                      removed = map td_name (filter (\<lambda>t. td_name t \<notin> set READ_ONLY_TOOLS) tools)
                  in \<lparr>att_tools = kept, att_min_trust = min_trust,
                      att_explanation = ''Installed skill present: restricted to read-only tools, removed '' @
                        show (length removed) @ '' tool(s): '' @ join_with '', '' removed,
                      att_removed_tools = removed\<rparr>)"

section \<open>Gating and parsing\<close>

record skill_env =
  yaml_manifest :: "string \<Rightarrow> string + skill_manifest"
  sha256_hex :: "string \<Rightarrow> string"
  compile_regex :: "string \<Rightarrow> (string \<Rightarrow> bool) option"
  utf8_error :: "string \<Rightarrow> string option"
  binary_exists :: "string \<Rightarrow> bool"
  env_var_set :: "string \<Rightarrow> bool"
  path_exists :: "string \<Rightarrow> bool"

text \<open>The failures; \<open>passed\<close> is that there is none.\<close>

definition check_requirements_sync :: "skill_env \<Rightarrow> gating_requirements \<Rightarrow> string list" where
  "check_requirements_sync env r =
     map (\<lambda>b. ''required binary not found: '' @ b) (filter (\<lambda>b. \<not> binary_exists env b) (req_bins r)) @
     map (\<lambda>v. ''required env var not set: '' @ v) (filter (\<lambda>v. \<not> env_var_set env v) (req_env r)) @
     map (\<lambda>p. ''required config not found: '' @ p) (filter (\<lambda>p. \<not> path_exists env p) (req_config r))"

definition compile_patterns :: "skill_env \<Rightarrow> string list \<Rightarrow> (string \<Rightarrow> bool) list" where
  "compile_patterns env ps = List.map_filter (compile_regex env) ps"

datatype skill_parse_error = MissingFrontmatter | InvalidYaml string | EmptyPrompt | InvalidName string

definition NL :: char where "NL = CHR 0x0A"

text \<open>What follows the first newline, if there is one.\<close>

fun after_newline :: "string \<Rightarrow> string option" where
  "after_newline [] = None"
| "after_newline (c # s) = (if c = NL then Some s else after_newline s)"

text \<open>\<open>find_closing_delimiter\<close>, on content with normalised line endings: what precedes the first line that is \<open>---\<close>
  between blanks, and the text from that line on.\<close>

fun find_closing :: "string list \<Rightarrow> string list \<Rightarrow> (string \<times> string) option" where
  "find_closing acc [] = None"
| "find_closing acc (line # rest) =
     (if trim line = ''---''
      then Some (concat (map (\<lambda>l. l @ [NL]) acc), join_with [NL] (line # rest))
      else find_closing (acc @ [line]) rest)"

definition find_closing_delimiter :: "string \<Rightarrow> (string \<times> string) option" where
  "find_closing_delimiter content = find_closing [] (split_on NL content)"

definition parse_skill_md :: "skill_env \<Rightarrow> string \<Rightarrow> skill_parse_error + skill_manifest \<times> string" where
  "parse_skill_md env raw =
     (let content = (case strip_prefix raw [CHR 0xEF, CHR 0xBB, CHR 0xBF] of Some s \<Rightarrow> s | None \<Rightarrow> raw);
          trimmed = dropWhile (\<lambda>c. c = NL \<or> c = CHR 0x0D) content
      in if \<not> starts_with trimmed ''---'' then Inl MissingFrontmatter
         else case after_newline (drop 3 trimmed) of
           None \<Rightarrow> Inl MissingFrontmatter
         | Some after_first_line \<Rightarrow>
             (case find_closing_delimiter after_first_line of
                None \<Rightarrow> Inl MissingFrontmatter
              | Some (yaml_str, after_yaml) \<Rightarrow>
                  (case yaml_manifest env yaml_str of
                     Inl e \<Rightarrow> Inl (InvalidYaml e)
                   | Inr m \<Rightarrow>
                       if \<not> validate_skill_name (sm_name m) then Inl (InvalidName (sm_name m))
                       else let m' = m\<lparr>activation := enforce_limits (activation m)\<rparr>;
                                prompt = dropWhile (\<lambda>c. c = NL) (case after_newline after_yaml of Some s \<Rightarrow> s | None \<Rightarrow> [])
                            in if trim prompt = [] then Inl EmptyPrompt else Inr (m', prompt))))"

section \<open>Attenuation is a ceiling\<close>

lemma min_trust_Installed:
  assumes "ss \<noteq> []"
  shows "Min (set (map skill_trust_of ss)) = Installed \<longleftrightarrow> (\<exists>s \<in> set ss. skill_trust_of s = Installed)"
proof
  assume m: "Min (set (map skill_trust_of ss)) = Installed"
  have "Min (set (map skill_trust_of ss)) \<in> set (map skill_trust_of ss)" using assms by (intro Min_in) auto
  then show "\<exists>s \<in> set ss. skill_trust_of s = Installed" unfolding m by force
next
  assume "\<exists>s \<in> set ss. skill_trust_of s = Installed"
  then have "Installed \<in> set (map skill_trust_of ss)" by force
  then have "Min (set (map skill_trust_of ss)) \<le> Installed" by (intro Min_le) auto
  then show "Min (set (map skill_trust_of ss)) = Installed" by (simp add: less_eq_skill_trust_def)
qed

lemma attenuate_cases:
  "att_tools (attenuate_tools show tools ss) =
     (if \<exists>s \<in> set ss. skill_trust_of s = Installed then filter (\<lambda>t. td_name t \<in> set READ_ONLY_TOOLS) tools else tools)"
  using min_trust_Installed [of ss]
  by (auto simp: attenuate_tools_def Let_def split: skill_trust.split)

lemma attenuate_removed:
  "att_removed_tools (attenuate_tools show tools ss) =
     (if \<exists>s \<in> set ss. skill_trust_of s = Installed then map td_name (filter (\<lambda>t. td_name t \<notin> set READ_ONLY_TOOLS) tools) else [])"
  using min_trust_Installed [of ss]
  by (auto simp: attenuate_tools_def Let_def split: skill_trust.split)

text \<open>With an installed skill among the active ones the model is offered exactly the read-only tools, in their order, and
  without one it is offered every tool; what is removed is reported by name. Activating further skills never offers a tool
  that was not offered before, so mixing skills cannot raise authority.
\<close>

theorem attenuation_is_a_ceiling:
  "(if \<exists>s \<in> set ss. skill_trust_of s = Installed
    then att_tools (attenuate_tools show tools ss) = filter (\<lambda>t. td_name t \<in> set READ_ONLY_TOOLS) tools \<and>
      att_removed_tools (attenuate_tools show tools ss) = map td_name (filter (\<lambda>t. td_name t \<notin> set READ_ONLY_TOOLS) tools)
    else att_tools (attenuate_tools show tools ss) = tools \<and> att_removed_tools (attenuate_tools show tools ss) = []) \<and>
   set (att_tools (attenuate_tools show tools (ss @ further))) \<subseteq> set (att_tools (attenuate_tools show tools ss))"
  unfolding attenuate_cases attenuate_removed by auto

section \<open>Selection respects its limits\<close>

lemma approx_le_cost: "approx_tokens (prompt_content s) \<le> 2 * token_cost s"
proof -
  have "unat (d * 2) \<le> 2 * unat d" for d :: u64
    using mod_less_eq_dividend [of "unat d * 2"] by (simp add: unat_word_ariths mult.commute)
  from this [of "max_context_tokens (activation (manifest s))"] show ?thesis by (auto simp: token_cost_def Let_def)
qed

lemma take_budget_spec:
  assumes "length res \<le> n"
  shows "\<exists>new. take_budget n b es res = res @ new \<and> subseq new es \<and> length (res @ new) \<le> n \<and> sum_list (map token_cost new) \<le> b"
  using assms
proof (induction n b es res rule: take_budget.induct)
  case (2 n b e es res)
  consider (full) "length res \<ge> n" | (fits) "length res < n" "token_cost e \<le> b" | (big) "length res < n" "\<not> token_cost e \<le> b"
    by linarith
  then show ?case
  proof cases
    case fits
    then obtain new where "take_budget n (b - token_cost e) es (res @ [e]) = (res @ [e]) @ new" "subseq new es"
      "length ((res @ [e]) @ new) \<le> n" "sum_list (map token_cost new) \<le> b - token_cost e"
      using 2 by fastforce
    then show ?thesis using fits by (intro exI [of _ "e # new"]) simp
  next
    case big
    then show ?thesis using 2 by (fastforce intro: subseq_Cons')
  qed (use 2 in simp)
qed simp

lemma min_add_le: "unat (min a x + min b y) \<le> unat x + unat y" for a b x y :: u32
proof -
  have "unat (min a x + min b y) \<le> unat (min a x) + unat (min b y)" by (simp add: unat_word_ariths)
  moreover have "unat (min a x) \<le> unat x" "unat (min b y) \<le> unat y" by (simp_all add: word_le_nat_alt min_def)
  ultimately show ?thesis by linarith
qed

lemma score_bound: "unat (score_skill s ml m) \<le> 85"
proof -
  have "unat (a + min b y) \<le> unat a + unat y" for a b y :: u32
    using min_add_le [of a a b y] by simp
  from this [of "min _ MAX_KEYWORD_SCORE + min _ MAX_TAG_SCORE" _ MAX_REGEX_SCORE]
  show ?thesis unfolding score_skill_def Let_def
    using min_add_le [of _ MAX_KEYWORD_SCORE _ MAX_TAG_SCORE]
    by (fastforce simp: MAX_KEYWORD_SCORE_def MAX_TAG_SCORE_def MAX_REGEX_SCORE_def intro: order_trans)
qed

lemma scored_sorted: "sorted_wrt (\<lambda>(s, n) (t, m). m \<le> n) (scored_skills message ss)"
proof -
  have "sorted (map (\<lambda>(s, n). - uint n) (scored_skills message ss))" unfolding scored_skills_def by (rule sorted_sort_key)
  then show ?thesis by (auto simp: sorted_map word_le_def case_prod_beta elim: sorted_wrt_mono_rel [rotated])
qed

lemma subseq_sorted_wrt: "subseq xs ys \<Longrightarrow> sorted_wrt P ys \<Longrightarrow> sorted_wrt P xs"
  by (induction rule: list_emb.induct) (auto dest: list_emb_set)

text \<open>The deterministic prefilter: it selects at most the permitted number of skills, their token costs stay within the
  budget, and the prompts they add are at most twice the budget however they declare themselves, the wrap-around of
  the doubled declaration included. Every selected skill was available and scored between 1 and 85, and
  they come in the order of descending score.
\<close>

theorem prefilter_within_limits:
  "length (prefilter_skills m ss n b) \<le> n \<and> sum_list (map token_cost (prefilter_skills m ss n b)) \<le> b \<and>
   sum_list (map (approx_tokens \<circ> prompt_content) (prefilter_skills m ss n b)) \<le> 2 * b \<and>
   (\<exists>scored. subseq scored (scored_skills m ss) \<and> map fst scored = prefilter_skills m ss n b \<and>
     sorted_wrt (\<lambda>(s, x) (t, y). y \<le> x) scored \<and>
     list_all (\<lambda>(s, x). s \<in> set ss \<and> x = score_skill s (lowercase m) m \<and> 1 \<le> unat x \<and> unat x \<le> 85) scored)"
proof -
  let ?P = "prefilter_skills m ss n b"
  obtain new where new: "?P = new" "subseq new (map fst (scored_skills m ss))" "length new \<le> n" "sum_list (map token_cost new) \<le> b"
    using take_budget_spec [of "[]" n b "map fst (scored_skills m ss)"] by (cases "ss = [] \<or> m = []") (auto simp: prefilter_skills_def)
  obtain N where "new = nths (map fst (scored_skills m ss)) N" using new(2) by (auto simp: subseq_conv_nths)
  then have scored: "map fst (nths (scored_skills m ss) N) = ?P" using new(1) by (simp add: nths_map)
  let ?S = "nths (scored_skills m ss) N"
  have sub: "subseq ?S (scored_skills m ss)" by (auto simp: subseq_conv_nths)
  have "sum_list (map (approx_tokens \<circ> prompt_content) new) \<le> sum_list (map (\<lambda>s. 2 * token_cost s) new)"
    by (rule sum_list_mono) (simp add: approx_le_cost)
  also have "\<dots> = 2 * sum_list (map token_cost new)" by (simp add: sum_list_const_mult)
  finally have tokens: "sum_list (map (approx_tokens \<circ> prompt_content) new) \<le> 2 * b" using new(4) by linarith
  have "sorted_wrt (\<lambda>(s, x) (t, y). y \<le> x) ?S"
    using sub scored_sorted by (rule subseq_sorted_wrt)
  moreover have "list_all (\<lambda>(s, x). s \<in> set ss \<and> x = score_skill s (lowercase m) m \<and> 1 \<le> unat x \<and> unat x \<le> 85) ?S"
    using set_nths_subset [of "scored_skills m ss" N] score_bound
    by (fastforce simp: list_all_iff scored_skills_def word_less_nat_alt Suc_le_eq)
  ultimately show ?thesis using new tokens scored sub by blast
qed

section \<open>Escaping neutralises tags\<close>

lemma set_replace_char: "set (replace_char c r s) = {x \<in> set s. x \<noteq> c} \<union> (if c \<in> set s then set r else {})"
  by (auto simp: replace_char_def split: if_splits)

text \<open>Characters that no part of the tag expression matches.\<close>

definition foreign :: "char \<Rightarrow> bool" where
  "foreign c \<longleftrightarrow> c = CHR ''<'' \<or> c = CHR ''&''"

lemma foreign_facts:
  assumes "foreign c"
  shows "\<not> ws_or_nul c" "c \<noteq> CHR ''/''" "lower_char c \<notin> set ''skill''"
  using assms by (auto simp: foreign_def ws_or_nul_def is_ws_def lower_char_def is_upper_def)

lemma tag_word_length:
  assumes "tag_word x"
  shows "5 \<le> length x"
proof -
  have "length (lowercase (take 5 x)) = 5" using assms unfolding tag_word_def by simp
  then show ?thesis by simp
qed

lemma tag_word_foreign:
  assumes "foreign c"
  shows "tag_word (p @ c # u) \<longleftrightarrow> tag_word p"
proof (cases "length p < 5")
  case True
  then have "take 5 (p @ c # u) = p @ c # take (4 - length p) u" by (cases "5 - length p") (auto intro: arg_cong2 [of _ _ _ _ take])
  then have "lower_char c \<in> set (lowercase (take 5 (p @ c # u)))" by (simp add: lowercase_def)
  then have "\<not> tag_word (p @ c # u)" using foreign_facts(3) [OF assms] by (metis tag_word_def)
  moreover have "\<not> tag_word p" using True tag_word_length [of p] by auto
  ultimately show ?thesis by simp
qed (simp add: tag_word_def)

lemma tag_tail_foreign:
  assumes "foreign c"
  shows "tag_tail (p @ c # u) = tag_tail p"
proof -
  let ?slash = "case p of x # _ \<Rightarrow> if x = CHR ''/'' then 1 else 0 | [] \<Rightarrow> 0"
  have slash: "(case p @ c # u of x # _ \<Rightarrow> if x = CHR ''/'' then 1 else 0 | [] \<Rightarrow> 0) = ?slash"
    using foreign_facts(2) [OF assms] by (cases p) auto
  have len: "?slash \<le> length p" by (cases p) auto
  then have drop1: "drop ?slash (p @ c # u) = drop ?slash p @ c # u" by simp
  have blanks: "takeWhile ws_or_nul (drop ?slash p @ c # u) = takeWhile ws_or_nul (drop ?slash p)"
    using foreign_facts(1) [OF assms] by (simp add: takeWhile_tail)
  let ?b = "length (takeWhile ws_or_nul (drop ?slash p))"
  have "?slash + ?b \<le> length p" using len length_takeWhile_le [of ws_or_nul "drop ?slash p"] by simp
  then have "drop (?slash + ?b) (p @ c # u) = drop (?slash + ?b) p @ c # u" by simp
  then show ?thesis
    unfolding tag_tail_def Let_def slash drop1 blanks by (simp add: tag_word_foreign [OF assms])
qed

text \<open>Up to the first \<open><\<close> nothing changes.\<close>

lemma escape_unfold:
  "escape_skill_content s = takeWhile (\<lambda>c. c \<noteq> CHR ''<'') s @ escape_skill_content (dropWhile (\<lambda>c. c \<noteq> CHR ''<'') s)"
  by (induction s) auto

lemma escape_starts_foreign: "escape_skill_content (CHR ''<'' # s) = c # u \<Longrightarrow> foreign c"
  by (auto simp: foreign_def split: option.splits)

lemma tag_tail_escape: "tag_tail (escape_skill_content s) = tag_tail s"
proof -
  let ?p = "takeWhile (\<lambda>c. c \<noteq> CHR ''<'') s" and ?r = "dropWhile (\<lambda>c. c \<noteq> CHR ''<'') s"
  show ?thesis
  proof (cases ?r)
    case Nil
    then show ?thesis by (metis append_Nil2 escape_unfold escape_skill_content.simps(1) takeWhile_dropWhile_id)
  next
    case (Cons c u)
    then have c: "c = CHR ''<''" using hd_dropWhile [of "\<lambda>c. c \<noteq> CHR ''<''" s] by simp
    obtain d v where e: "escape_skill_content ?r = d # v" unfolding Cons c by (cases "tag_tail u") auto
    then have "foreign d" using escape_starts_foreign Cons c by metis
    then have "tag_tail (escape_skill_content s) = tag_tail ?p" using e escape_unfold [of s] tag_tail_foreign by metis
    moreover have "tag_tail s = tag_tail ?p"
      using tag_tail_foreign [of c ?p u] c Cons takeWhile_dropWhile_id [of "\<lambda>c. c \<noteq> CHR ''<''" s] by (simp add: foreign_def)
    ultimately show ?thesis by simp
  qed
qed

definition has_skill_tag :: "string \<Rightarrow> bool" where
  "has_skill_tag s \<longleftrightarrow> (\<exists>a b. s = a @ CHR ''<'' # b \<and> tag_tail b \<noteq> None)"

lemma has_skill_tag_simps:
  "has_skill_tag [] = False"
  "has_skill_tag (c # s) \<longleftrightarrow> (c = CHR ''<'' \<and> tag_tail s \<noteq> None) \<or> has_skill_tag s"
  by (auto simp: has_skill_tag_def Cons_eq_append_conv)

lemma has_skill_tag_append: "CHR ''<'' \<notin> set a \<Longrightarrow> has_skill_tag (a @ s) = has_skill_tag s"
  by (induction a) (auto simp: has_skill_tag_simps)

lemma tag_tail_length: "tag_tail s = Some n \<Longrightarrow> n \<le> length s"
  by (fastforce simp: tag_tail_def Let_def split: if_splits list.splits dest: tag_word_length)

lemma tag_tail_no_lt:
  assumes "tag_tail s = Some n"
  shows "CHR ''<'' \<notin> set (take n s)"
proof
  assume "CHR ''<'' \<in> set (take n s)"
  then obtain p u where pu: "take n s = p @ CHR ''<'' # u" by (auto simp: in_set_conv_decomp)
  then have "s = p @ CHR ''<'' # (u @ drop n s)" by (metis append_Cons append_assoc append_take_drop_id)
  then have "tag_tail p = Some n" using assms tag_tail_foreign [of "CHR ''<''"] by (metis foreign_def)
  then have "n \<le> length p" by (rule tag_tail_length)
  moreover have "length p < length (take n s)" using pu by simp
  ultimately show False by simp
qed

lemma escape_no_tag: "\<not> has_skill_tag (escape_skill_content s)"
proof (induction s rule: escape_skill_content.induct)
  case (2 c s)
  show ?case
  proof (cases "c = CHR ''<''")
    case True
    show ?thesis
    proof (cases "tag_tail s")
      case None
      then show ?thesis using True 2 tag_tail_escape [of s] by (simp add: has_skill_tag_simps)
    next
      case (Some n)
      then have "CHR ''<'' \<notin> set (''&lt;'' @ take n s)" using tag_tail_no_lt by auto
      then have "has_skill_tag (escape_skill_content (c # s)) = has_skill_tag (escape_skill_content (drop n s))"
        using True Some has_skill_tag_append [of "''&lt;'' @ take n s"] by simp
      then show ?thesis using 2 True Some by simp
    qed
  next
    case False
    then show ?thesis using 2 by (simp add: has_skill_tag_simps)
  qed
qed (simp add: has_skill_tag_simps)

lemma escape_identity: "\<not> has_skill_tag s \<Longrightarrow> escape_skill_content s = s"
  by (induction s) (auto simp: has_skill_tag_simps)

text \<open>What reaches the prompt cannot break out of its delimiters: escaped content holds no opening or closing skill
  tag in any spelling the expression covers, and content without one is unchanged, so escaping twice is escaping once. An
  escaped attribute holds no quote and no angle bracket.
\<close>

theorem escaping_neutralises:
  "\<not> has_skill_tag (escape_skill_content s) \<and> (has_skill_tag s \<or> escape_skill_content s = s) \<and>
   escape_skill_content (escape_skill_content s) = escape_skill_content s \<and>
   set (escape_xml_attr a) \<inter> {CHR 0x22, CHR 0x27, CHR ''<'', CHR ''>''} = {}"
  using escape_no_tag [of s] escape_identity [of s] escape_identity [of "escape_skill_content s"]
  by (auto simp: escape_xml_attr_def set_replace_char split: if_splits)

text \<open>A mixed-case closing tag with blanks is caught.\<close>

lemma escape_example:
  "escape_skill_content (''a</ SkIlL>b<p>'') = ''a&lt;/ SkIlL>b<p>''"
  by code_simp

section \<open>Parsed skills are well formed\<close>

definition activation_wf :: "activation_criteria \<Rightarrow> bool" where
  "activation_wf a \<longleftrightarrow> length (ac_keywords a) \<le> 20 \<and> length (ac_patterns a) \<le> 5 \<and> length (ac_tags a) \<le> 10 \<and>
     (\<forall>k \<in> set (ac_keywords a) \<union> set (ac_tags a). 3 \<le> length k)"

lemma enforce_limits_wf: "activation_wf (enforce_limits a)"
  by (auto simp: activation_wf_def enforce_limits_def MAX_KEYWORDS_PER_SKILL_def MAX_PATTERNS_PER_SKILL_def
      MAX_TAGS_PER_SKILL_def MIN_KEYWORD_TAG_LENGTH_def dest!: in_set_takeD)

lemma parse_skill_md_ok:
  assumes "parse_skill_md env raw = Inr (m, p)"
  shows "validate_skill_name (sm_name m)" "activation_wf (activation m)" "trim p \<noteq> []"
  using assms enforce_limits_wf
  by (auto simp: parse_skill_md_def Let_def split: if_splits option.splits sum.splits)

text \<open>A skill name is a plain path component.\<close>

lemma skill_name_safe:
  assumes "validate_skill_name n"
  shows "CHR ''/'' \<notin> set n" "n \<noteq> []" "n \<noteq> ''.''" "n \<noteq> ''..''"
  using assms by (auto simp: validate_skill_name_def name_char_def is_alnum_def is_upper_def is_lower_def is_digit_def
      list_all_iff split: list.splits)

end
