(* ===== verification/Skill_Registry.thy ===== *)
theory Skill_Registry
  imports Skills
begin

text \<open>
  The skill registry (\<open>src/skills/registry.rs\<close>): loading and validating a \<open>SKILL.md\<close> file, discovery in the four
  directories, installation, removal and reload. The file system is the record \<open>skill_fs\<close>: the entries of each readable
  directory in the order \<open>read_dir\<close> gives them, and the files with what reading them yields. Writing replaces a
  file and makes its directory entries; write errors are the field \<open>fs_write_error\<close>.
\<close>

section \<open>Files and errors\<close>

datatype entry_kind = StatFailed | SymlinkEntry | DirEntry | FileEntry

text \<open>A file is a symbolic link, unreadable for a reason, or has contents.\<close>

datatype skill_file = SymlinkFile | Unreadable string | Contents string

record skill_fs =
  fs_dirs :: "string \<Rightarrow> (string \<times> entry_kind) list option"
  fs_files :: "string \<Rightarrow> skill_file option"
  fs_write_error :: "string \<Rightarrow> string option"

datatype skill_registry_error =
    SkillNotFound string
  | ReadError string string
  | ParseError string string
  | FileTooLarge string nat nat
  | SymlinkDetected string
  | GatingFailed string string
  | TokenBudgetExceeded string nat nat
  | AlreadyExists string
  | CannotRemove string string
  | WriteError string string

definition MAX_DISCOVERED_SKILLS :: nat where "MAX_DISCOVERED_SKILLS = 100"

definition join_path :: "string \<Rightarrow> string \<Rightarrow> string" where
  "join_path d n = d @ ''/'' @ n"

abbreviation SKILL_MD :: string where
  "SKILL_MD \<equiv> ''SKILL.md''"

text \<open>\<open>Display\<close> of the parser's errors.\<close>

definition parse_error_text :: "skill_parse_error \<Rightarrow> string" where
  "parse_error_text e = (case e of
       MissingFrontmatter \<Rightarrow> ''Missing YAML frontmatter delimiters (expected `---` at start of file)''
     | InvalidYaml m \<Rightarrow> ''Invalid YAML frontmatter: '' @ m
     | EmptyPrompt \<Rightarrow> ''Prompt body is empty (no content after frontmatter)''
     | InvalidName n \<Rightarrow> ''Invalid skill name '' @ quoted n @ '': must match [a-zA-Z0-9][a-zA-Z0-9._-]{0,63}'')"

definition to_registry_error :: "string \<Rightarrow> skill_parse_error \<Rightarrow> skill_registry_error" where
  "to_registry_error place e =
     (case e of InvalidName n \<Rightarrow> ParseError n (parse_error_text e) | _ \<Rightarrow> ParseError place (parse_error_text e))"

section \<open>Loading one file\<close>

definition validate_bundled_legal_metadata :: "skill_manifest \<Rightarrow> skill_source \<Rightarrow> skill_registry_error option" where
  "validate_bundled_legal_metadata m source =
     (if (case source of Bundled _ \<Rightarrow> False | _ \<Rightarrow> True) \<or> \<not> starts_with (sm_name m) ''legal-'' then None
      else case metadata m of
        None \<Rightarrow> Some (ParseError (sm_name m) ''bundled legal skills require metadata'')
      | Some meta \<Rightarrow>
          if meta_domain meta \<noteq> Some ''legal''
          then Some (ParseError (sm_name m) ''bundled legal skills must declare metadata.domain=legal'')
          else if requires_matter meta \<noteq> Some True
          then Some (ParseError (sm_name m) ''bundled legal skills must declare metadata.requires_matter=true'')
          else if citation_mode meta \<noteq> Some ''required''
          then Some (ParseError (sm_name m) ''bundled legal skills must declare metadata.citation_mode=required'')
          else None)"

definition compute_hash :: "skill_env \<Rightarrow> string \<Rightarrow> string" where
  "compute_hash env content = ''sha256:'' @ sha256_hex env content"

text \<open>From the parsed file on: metadata, gating, token budget, and the loaded skill.\<close>

definition validate_parsed ::
  "skill_env \<Rightarrow> skill_trust \<Rightarrow> skill_source \<Rightarrow> skill_manifest \<Rightarrow> string \<Rightarrow> skill_registry_error + string \<times> loaded_skill"
  where
  "validate_parsed env trust source m prompt =
     (case validate_bundled_legal_metadata m source of
        Some e \<Rightarrow> Inl e
      | None \<Rightarrow>
          let failures = (case metadata m of
                None \<Rightarrow> []
              | Some meta \<Rightarrow> (case clawyer meta of None \<Rightarrow> [] | Some r \<Rightarrow> check_requirements_sync env r));
              declared = max_context_tokens (activation m);
              approx = approx_tokens prompt
          in if failures \<noteq> [] then Inl (GatingFailed (sm_name m) (join_with ''; '' failures))
             else if declared > 0 \<and> approx > unat (declared * 2)
             then Inl (TokenBudgetExceeded (sm_name m) approx (unat declared))
             else Inr (sm_name m, \<lparr>manifest = m, prompt_content = prompt, skill_trust_of = trust, skill_source_of = source,
               content_hash = compute_hash env prompt, compiled_patterns = compile_patterns env (ac_patterns (activation m)),
               lowercased_keywords = map lowercase (ac_keywords (activation m)),
               lowercased_tags = map lowercase (ac_tags (activation m))\<rparr>))"

definition load_and_validate_skill ::
  "skill_env \<Rightarrow> skill_fs \<Rightarrow> string \<Rightarrow> skill_trust \<Rightarrow> skill_source \<Rightarrow> skill_registry_error + string \<times> loaded_skill" where
  "load_and_validate_skill env fs path trust source =
     (case fs_files fs path of
        None \<Rightarrow> Inl (ReadError path ''not found'')
      | Some SymlinkFile \<Rightarrow> Inl (SymlinkDetected path)
      | Some (Unreadable reason) \<Rightarrow> Inl (ReadError path reason)
      | Some (Contents raw_bytes) \<Rightarrow>
          if length raw_bytes > MAX_PROMPT_FILE_SIZE
          then Inl (FileTooLarge path (length raw_bytes) MAX_PROMPT_FILE_SIZE)
          else case utf8_error env raw_bytes of
            Some e \<Rightarrow> Inl (ReadError path (''Invalid UTF-8: '' @ e))
          | None \<Rightarrow>
              (case parse_skill_md env (normalize_line_endings raw_bytes) of
                 Inl e \<Rightarrow> Inl (to_registry_error path e)
               | Inr (m, prompt) \<Rightarrow> validate_parsed env trust source m prompt))"

section \<open>Discovery\<close>

fun discover_entries ::
  "skill_env \<Rightarrow> skill_fs \<Rightarrow> string \<Rightarrow> skill_trust \<Rightarrow> (string \<Rightarrow> skill_source) \<Rightarrow> nat \<Rightarrow> (string \<times> entry_kind) list \<Rightarrow>
   (string \<times> loaded_skill) list" where
  "discover_entries env fs dir trust make_source count [] = []"
| "discover_entries env fs dir trust make_source count ((name, kind) # es) =
     (if count \<ge> MAX_DISCOVERED_SKILLS then []
      else let path = join_path dir name;
               load = (\<lambda>p src. case load_and_validate_skill env fs p trust src of Inl _ \<Rightarrow> [] | Inr r \<Rightarrow> [r])
           in case kind of
                StatFailed \<Rightarrow> discover_entries env fs dir trust make_source count es
              | SymlinkEntry \<Rightarrow> discover_entries env fs dir trust make_source count es
              | DirEntry \<Rightarrow>
                  if fs_files fs (join_path path SKILL_MD) \<noteq> None
                  then load (join_path path SKILL_MD) (make_source path) @
                       discover_entries env fs dir trust make_source (count + 1) es
                  else discover_entries env fs dir trust make_source count es
              | FileEntry \<Rightarrow>
                  if name = SKILL_MD
                  then load path (make_source dir) @ discover_entries env fs dir trust make_source (count + 1) es
                  else discover_entries env fs dir trust make_source count es)"

definition discover_from_dir ::
  "skill_env \<Rightarrow> skill_fs \<Rightarrow> string \<Rightarrow> skill_trust \<Rightarrow> (string \<Rightarrow> skill_source) \<Rightarrow> (string \<times> loaded_skill) list" where
  "discover_from_dir env fs dir trust make_source =
     (case fs_dirs fs dir of None \<Rightarrow> [] | Some es \<Rightarrow> discover_entries env fs dir trust make_source 0 es)"

record skill_registry =
  skills :: "loaded_skill list"
  user_dir :: string
  installed_dir :: "string option"
  bundled_dir :: "string option"
  workspace_dir :: "string option"
  workspace_trust :: skill_trust
  user_trust :: skill_trust

definition new_registry :: "string \<Rightarrow> skill_registry" where
  "new_registry dir = \<lparr>skills = [], user_dir = dir, installed_dir = None, bundled_dir = None, workspace_dir = None,
     workspace_trust = Trusted, user_trust = Trusted\<rparr>"

definition with_installed_dir :: "string \<Rightarrow> skill_registry \<Rightarrow> skill_registry" where
  "with_installed_dir dir r = r\<lparr>installed_dir := Some dir\<rparr>"

definition with_workspace_dir :: "string \<Rightarrow> skill_registry \<Rightarrow> skill_registry" where
  "with_workspace_dir dir r = r\<lparr>workspace_dir := Some dir\<rparr>"

definition with_bundled_dir :: "string \<Rightarrow> skill_registry \<Rightarrow> skill_registry" where
  "with_bundled_dir dir r = r\<lparr>bundled_dir := Some dir\<rparr>"

definition with_non_bundled_trust :: "skill_trust \<Rightarrow> skill_registry \<Rightarrow> skill_registry" where
  "with_non_bundled_trust t r = r\<lparr>workspace_trust := t, user_trust := t\<rparr>"

text \<open>One of the four loops of \<open>discover_all\<close>; the list of loaded names doubles as the set \<open>seen\<close>, which has the same
  elements.\<close>

fun add_unseen ::
  "(string \<times> loaded_skill) list \<Rightarrow> string list \<times> loaded_skill list \<Rightarrow> string list \<times> loaded_skill list" where
  "add_unseen [] st = st"
| "add_unseen ((name, skill) # rest) (seen, sks) =
     (if name \<in> set seen then add_unseen rest (seen, sks) else add_unseen rest (seen @ [name], sks @ [skill]))"

definition discover_all :: "skill_env \<Rightarrow> skill_fs \<Rightarrow> skill_registry \<Rightarrow> string list \<times> skill_registry" where
  "discover_all env fs r =
     (let opt = (\<lambda>d trust src. case d of None \<Rightarrow> [] | Some dir \<Rightarrow> discover_from_dir env fs dir trust src);
          st1 = add_unseen (opt (bundled_dir r) Trusted Bundled) ([], skills r);
          st2 = add_unseen (opt (workspace_dir r) (workspace_trust r) Workspace) st1;
          st3 = add_unseen (discover_from_dir env fs (user_dir r) (user_trust r) User) st2;
          (names, sks) = add_unseen (opt (installed_dir r) Installed User) st3
      in (names, r\<lparr>skills := sks\<rparr>))"

definition reload :: "skill_env \<Rightarrow> skill_fs \<Rightarrow> skill_registry \<Rightarrow> string list \<times> skill_registry" where
  "reload env fs r = discover_all env fs (r\<lparr>skills := []\<rparr>)"

section \<open>Lookup, installation and removal\<close>

definition has_skill :: "skill_registry \<Rightarrow> string \<Rightarrow> bool" where
  "has_skill r name \<longleftrightarrow> (\<exists>s \<in> set (skills r). skill_name s = name)"

definition find_by_name :: "skill_registry \<Rightarrow> string \<Rightarrow> loaded_skill option" where
  "find_by_name r name = find (\<lambda>s. skill_name s = name) (skills r)"

text \<open>Creating the skill's directory and writing its file.\<close>

definition write_skill :: "string \<Rightarrow> string \<Rightarrow> string \<Rightarrow> skill_fs \<Rightarrow> skill_registry_error + skill_fs" where
  "write_skill dir name content fs =
     (let skill_dir = join_path dir name; skill_path = join_path skill_dir SKILL_MD;
          entries = (\<lambda>d. case fs_dirs fs d of None \<Rightarrow> [] | Some es \<Rightarrow> es);
          add = (\<lambda>d n k. entries d @ (if n \<in> fst ` set (entries d) then [] else [(n, k)]))
      in case fs_write_error fs skill_dir of
           Some e \<Rightarrow> Inl (WriteError skill_dir e)
         | None \<Rightarrow>
             (case fs_write_error fs skill_path of
                Some e \<Rightarrow> Inl (WriteError skill_path e)
              | None \<Rightarrow> Inr (fs\<lparr>fs_dirs := (fs_dirs fs)(dir \<mapsto> add dir name DirEntry, skill_dir \<mapsto> add skill_dir SKILL_MD FileEntry),
                  fs_files := (fs_files fs)(skill_path \<mapsto> Contents content)\<rparr>)))"

definition prepare_install_to_disk ::
  "skill_env \<Rightarrow> string \<Rightarrow> string \<Rightarrow> string \<Rightarrow> skill_fs \<Rightarrow> (skill_registry_error + string \<times> loaded_skill) \<times> skill_fs" where
  "prepare_install_to_disk env dir name normalized_content fs =
     (case write_skill dir name normalized_content fs of
        Inl e \<Rightarrow> (Inl e, fs)
      | Inr fs' \<Rightarrow> (load_and_validate_skill env fs' (join_path (join_path dir name) SKILL_MD) Installed (User (join_path dir name)), fs'))"

definition commit_install :: "string \<Rightarrow> loaded_skill \<Rightarrow> skill_registry \<Rightarrow> (skill_registry_error + unit) \<times> skill_registry" where
  "commit_install name skill r =
     (if has_skill r name then (Inl (AlreadyExists name), r) else (Inr (), r\<lparr>skills := skills r @ [skill]\<rparr>))"

definition install_skill ::
  "skill_env \<Rightarrow> string \<Rightarrow> skill_registry \<Rightarrow> skill_fs \<Rightarrow> (skill_registry_error + string) \<times> skill_registry \<times> skill_fs" where
  "install_skill env content r fs =
     (let normalized = normalize_line_endings content
      in case parse_skill_md env normalized of
           Inl e \<Rightarrow> (Inl (to_registry_error ''(install)'' e), r, fs)
         | Inr (m, _) \<Rightarrow>
             if has_skill r (sm_name m) then (Inl (AlreadyExists (sm_name m)), r, fs)
             else (case prepare_install_to_disk env (user_dir r) (sm_name m) normalized fs of
                     (Inl e, fs') \<Rightarrow> (Inl e, r, fs')
                   | (Inr (name, skill), fs') \<Rightarrow>
                       (case commit_install name skill r of
                          (Inl e, r') \<Rightarrow> (Inl e, r', fs')
                        | (Inr _, r') \<Rightarrow> (Inr name, r', fs'))))"

definition validate_remove :: "skill_registry \<Rightarrow> string \<Rightarrow> skill_registry_error + string" where
  "validate_remove r name =
     (case find_by_name r name of
        None \<Rightarrow> Inl (SkillNotFound name)
      | Some s \<Rightarrow>
          (case skill_source_of s of
             User path \<Rightarrow> Inr path
           | Workspace _ \<Rightarrow> Inl (CannotRemove name ''workspace skills cannot be removed via this interface'')
           | Bundled _ \<Rightarrow> Inl (CannotRemove name ''bundled skills cannot be removed'')))"

fun remove_first :: "('a \<Rightarrow> bool) \<Rightarrow> 'a list \<Rightarrow> 'a list" where
  "remove_first P [] = []"
| "remove_first P (x # xs) = (if P x then xs else x # remove_first P xs)"

definition commit_remove :: "string \<Rightarrow> skill_registry \<Rightarrow> (skill_registry_error + unit) \<times> skill_registry" where
  "commit_remove name r =
     (if has_skill r name then (Inr (), r\<lparr>skills := remove_first (\<lambda>s. skill_name s = name) (skills r)\<rparr>)
      else (Inl (SkillNotFound name), r))"

text \<open>The directory is then removed if it is empty, which does not change what is read later.\<close>

definition delete_skill_files :: "string \<Rightarrow> skill_fs \<Rightarrow> (skill_registry_error + unit) \<times> skill_fs" where
  "delete_skill_files path fs =
     (let skill_md = join_path path SKILL_MD
      in if fs_files fs skill_md = None then (Inr (), fs)
         else case fs_write_error fs skill_md of
           Some e \<Rightarrow> (Inl (WriteError skill_md e), fs)
         | None \<Rightarrow> (Inr (), fs\<lparr>fs_dirs := (fs_dirs fs)(path := map_option (filter (\<lambda>e. fst e \<noteq> SKILL_MD)) (fs_dirs fs path)),
             fs_files := (fs_files fs)(skill_md := None)\<rparr>))"

definition remove_skill :: "string \<Rightarrow> skill_registry \<Rightarrow> skill_fs \<Rightarrow> (skill_registry_error + unit) \<times> skill_registry \<times> skill_fs" where
  "remove_skill name r fs =
     (case validate_remove r name of
        Inl e \<Rightarrow> (Inl e, r, fs)
      | Inr path \<Rightarrow>
          (case delete_skill_files path fs of
             (Inl e, fs') \<Rightarrow> (Inl e, r, fs')
           | (Inr _, fs') \<Rightarrow> (case commit_remove name r of (res, r') \<Rightarrow> (res, r', fs'))))"

definition install_target_dir :: "skill_registry \<Rightarrow> string" where
  "install_target_dir r = (case installed_dir r of Some d \<Rightarrow> d | None \<Rightarrow> user_dir r)"

section \<open>Loaded skills are well formed\<close>

definition skill_wf :: "loaded_skill \<Rightarrow> bool" where
  "skill_wf s \<longleftrightarrow> validate_skill_name (skill_name s) \<and> activation_wf (activation (manifest s)) \<and> trim (prompt_content s) \<noteq> [] \<and>
     (let d = unat (max_context_tokens (activation (manifest s))) in d = 0 \<or> approx_tokens (prompt_content s) \<le> 2 * d) \<and>
     lowercased_keywords s = map lowercase (ac_keywords (activation (manifest s))) \<and>
     lowercased_tags s = map lowercase (ac_tags (activation (manifest s))) \<and> length (compiled_patterns s) \<le> 5 \<and>
     validate_bundled_legal_metadata (manifest s) (skill_source_of s) = None"

lemma length_map_filter_le: "length (List.map_filter f xs) \<le> length xs"
  by (induction xs) (auto simp: List.map_filter_simps split: option.splits)

lemma validate_parsed_ok:
  assumes "validate_parsed env trust source m prompt = Inr (name, s)"
    and "validate_skill_name (sm_name m)" "activation_wf (activation m)" "trim prompt \<noteq> []"
  shows "skill_wf s" "name = skill_name s" "skill_trust_of s = trust" "skill_source_of s = source"
proof -
  have wrap: "unat (d * 2) \<le> 2 * unat d" for d :: u64
    using mod_less_eq_dividend [of "unat d * 2"] by (simp add: unat_word_ariths mult.commute)
  have pats: "length (compile_patterns env (ac_patterns (activation m))) \<le> 5"
    using length_map_filter_le [of "compile_regex env" "ac_patterns (activation m)"] assms(3)
    by (simp add: compile_patterns_def activation_wf_def)
  have budget: "unat (max_context_tokens (activation m)) = 0 \<or> approx_tokens prompt \<le> 2 * unat (max_context_tokens (activation m))"
    using assms(1) wrap [of "max_context_tokens (activation m)"]
    by (fastforce simp: validate_parsed_def Let_def word_gt_0 unat_eq_0 split: if_splits option.splits)
  have s: "s = \<lparr>manifest = m, prompt_content = prompt, skill_trust_of = trust, skill_source_of = source,
      content_hash = compute_hash env prompt, compiled_patterns = compile_patterns env (ac_patterns (activation m)),
      lowercased_keywords = map lowercase (ac_keywords (activation m)),
      lowercased_tags = map lowercase (ac_tags (activation m))\<rparr>" "name = sm_name m" "validate_bundled_legal_metadata m source = None"
    using assms(1) by (auto simp: validate_parsed_def Let_def split: if_splits option.splits)
  show "skill_wf s" using assms(2-4) pats budget s(3) by (simp add: skill_wf_def s(1) Let_def)
  show "name = skill_name s" "skill_trust_of s = trust" "skill_source_of s = source" by (simp_all add: s(1,2))
qed

lemma load_ok:
  assumes "load_and_validate_skill env fs path trust source = Inr (name, s)"
  shows "skill_wf s" "name = skill_name s" "skill_trust_of s = trust" "skill_source_of s = source"
proof -
  obtain raw m prompt where "parse_skill_md env (normalize_line_endings raw) = Inr (m, prompt)"
    "validate_parsed env trust source m prompt = Inr (name, s)"
    using assms by (auto simp: load_and_validate_skill_def split: option.splits skill_file.splits if_splits sum.splits)
  then show "skill_wf s" "name = skill_name s" "skill_trust_of s = trust" "skill_source_of s = source"
    using validate_parsed_ok parse_skill_md_ok by metis+
qed

definition loaded_as :: "skill_trust \<Rightarrow> string \<times> loaded_skill \<Rightarrow> bool" where
  "loaded_as trust x \<longleftrightarrow> skill_wf (snd x) \<and> fst x = skill_name (snd x) \<and> skill_trust_of (snd x) = trust"

lemma discover_entries_ok: "list_all (loaded_as trust) (discover_entries env fs dir trust mk count es)"
proof (induction es arbitrary: count)
  case (Cons e es)
  then show ?case
    by (cases e; cases "snd e") (auto simp: Let_def loaded_as_def dest: load_ok split: sum.splits)
qed simp

lemma discover_from_dir_ok: "list_all (loaded_as trust) (discover_from_dir env fs dir trust mk)"
  by (auto simp: discover_from_dir_def discover_entries_ok split: option.splits)

section \<open>Discovery by precedence\<close>

text \<open>The skills of the four directories, in the order of their precedence.\<close>

definition discovered :: "skill_env \<Rightarrow> skill_fs \<Rightarrow> skill_registry \<Rightarrow> (string \<times> loaded_skill) list" where
  "discovered env fs r =
     (let opt = (\<lambda>d trust src. case d of None \<Rightarrow> [] | Some dir \<Rightarrow> discover_from_dir env fs dir trust src)
      in opt (bundled_dir r) Trusted Bundled @ opt (workspace_dir r) (workspace_trust r) Workspace @
         discover_from_dir env fs (user_dir r) (user_trust r) User @ opt (installed_dir r) Installed User)"

lemma add_unseen_append: "add_unseen (xs @ ys) st = add_unseen ys (add_unseen xs st)"
  by (induction xs st rule: add_unseen.induct) auto

lemma reload_add_unseen:
  "fst (reload env fs r) = fst (add_unseen (discovered env fs r) ([], []))"
  "skills (snd (reload env fs r)) = snd (add_unseen (discovered env fs r) ([], []))"
  by (simp_all add: reload_def discover_all_def discovered_def add_unseen_append Let_def case_prod_beta)

lemma add_unseen_spec:
  assumes "\<forall>x \<in> set xs. fst x = skill_name (snd x)" and "seen = map skill_name sks" and "distinct seen"
  shows "let st = add_unseen xs (seen, sks) in fst st = map skill_name (snd st) \<and> distinct (fst st) \<and>
    set (snd st) \<subseteq> set sks \<union> snd ` set xs \<and>
    (\<forall>n. find (\<lambda>s. skill_name s = n) (snd st) =
      (case find (\<lambda>s. skill_name s = n) sks of Some s \<Rightarrow> Some s | None \<Rightarrow> map_of xs n))"
  using assms
proof (induction xs "(seen, sks)" arbitrary: seen sks rule: add_unseen.induct)
  case (1 st)
  then show ?case by (auto split: option.splits)
next
  case (2 name skill rest seen sks)
  have name: "name = skill_name skill" using 2 by simp
  show ?case
  proof (cases "name \<in> set seen")
    case True
    then have "find (\<lambda>s. skill_name s = name) sks \<noteq> None" using 2 by (auto simp: find_None_iff)
    then show ?thesis using 2 True by (auto simp: Let_def split: option.splits if_splits)
  next
    case False
    then have "find (\<lambda>s. skill_name s = name) sks = None" using "2.prems"(2) by (force simp: find_None_iff)
    moreover have "find (\<lambda>s. skill_name s = n) (sks @ [skill]) =
        (case find (\<lambda>s. skill_name s = n) sks of Some s \<Rightarrow> Some s | None \<Rightarrow> if name = n then Some skill else None)" for n
      using name by (induction sks) auto
    ultimately show ?thesis using 2 False name by (auto simp: Let_def split: option.splits)
  qed
qed

lemma discovered_ok:
  "\<forall>x \<in> set (discovered env fs r). skill_wf (snd x) \<and> fst x = skill_name (snd x)"
  using discover_from_dir_ok
  by (fastforce simp: discovered_def Let_def list_all_iff loaded_as_def split: option.splits)

lemma reload_spec:
  "distinct (map skill_name (skills (snd (reload env fs r))))" "fst (reload env fs r) = map skill_name (skills (snd (reload env fs r)))"
  "set (skills (snd (reload env fs r))) \<subseteq> snd ` set (discovered env fs r)"
  "find_by_name (snd (reload env fs r)) n = map_of (discovered env fs r) n"
  using add_unseen_spec [of "discovered env fs r" "[]" "[]"] discovered_ok [of env fs r]
  by (auto simp: reload_add_unseen find_by_name_def Let_def)

text \<open>Reload is lookup by precedence: under each name the registry holds exactly the first skill found in the order
  bundled, workspace, user, installed; the names it reports are those of the loaded skills, without duplicates. A skill of
  the installed directory is loaded with installed trust only, and so can neither shadow a skill of the other directories
  nor gain their authority.
\<close>

theorem discovery_by_precedence:
  "find_by_name (snd (reload env fs r)) n = map_of (discovered env fs r) n \<and>
   fst (reload env fs r) = map skill_name (skills (snd (reload env fs r))) \<and> distinct (fst (reload env fs r)) \<and>
   list_all (\<lambda>(n, s). skill_trust_of s = Installed) (discover_from_dir env fs d Installed src)"
  using reload_spec [of env fs r] discover_from_dir_ok [of Installed env fs d src]
  by (simp add: list_all_iff loaded_as_def case_prod_beta)

section \<open>The registry's invariant\<close>

definition registry_ok :: "skill_registry \<Rightarrow> bool" where
  "registry_ok r \<longleftrightarrow> distinct (map skill_name (skills r)) \<and> list_all skill_wf (skills r)"

lemma set_remove_first: "set (remove_first P xs) \<subseteq> set xs"
  by (induction xs) auto

lemma distinct_names_remove_first: "distinct (map f xs) \<Longrightarrow> distinct (map f (remove_first P xs))"
proof (induction xs)
  case (Cons x xs)
  then show ?case using set_remove_first [of P xs] by (auto dest: subsetD)
qed simp

lemma reload_registry_ok: "registry_ok (snd (reload env fs r))"
  using reload_spec(1,3) [of env fs r] discovered_ok [of env fs r] by (fastforce simp: registry_ok_def list_all_iff)

lemma commit_install_ok:
  assumes "registry_ok r" "skill_wf s" "name = skill_name s"
  shows "registry_ok (snd (commit_install name s r))"
  using assms by (force simp: registry_ok_def commit_install_def has_skill_def)

lemma commit_remove_ok: "registry_ok r \<Longrightarrow> registry_ok (snd (commit_remove name r))"
  using set_remove_first [of "\<lambda>s. skill_name s = name" "skills r"]
  by (auto simp: registry_ok_def commit_remove_def distinct_names_remove_first list_all_iff)

lemma prepare_install_loads:
  "fst (prepare_install_to_disk env dir name c fs) = Inr (n, s) \<Longrightarrow> skill_wf s \<and> n = skill_name s \<and> skill_trust_of s = Installed"
  by (auto simp: prepare_install_to_disk_def dest: load_ok split: sum.splits)

lemma install_skill_ok:
  assumes "registry_ok r"
  shows "registry_ok (fst (snd (install_skill env c r fs)))"
proof -
  have "fst (snd (install_skill env c r fs)) = r \<or>
      (\<exists>d x y name s. fst (prepare_install_to_disk env d x y fs) = Inr (name, s) \<and>
        fst (snd (install_skill env c r fs)) = snd (commit_install name s r))"
    unfolding install_skill_def Let_def
    by (simp split: sum.split prod.split) (metis fst_conv snd_conv)
  then show ?thesis using assms commit_install_ok prepare_install_loads by metis
qed

lemma remove_skill_ok: "registry_ok r \<Longrightarrow> registry_ok (fst (snd (remove_skill name r fs)))"
  using commit_remove_ok [of r name] by (auto simp: remove_skill_def case_prod_beta split: sum.splits prod.splits)

text \<open>What can happen to a registry and the files: discovery, reload, both ways of installing, removal, and any change
  of the files by others. The tools install into \<open>install_target_dir\<close>, in two steps.\<close>

inductive registry_step :: "skill_env \<Rightarrow> skill_registry \<times> skill_fs \<Rightarrow> skill_registry \<times> skill_fs \<Rightarrow> bool"
  for env :: skill_env where
  step_files: "registry_step env (r, fs) (r, fs')"
| step_reload: "registry_step env (r, fs) (snd (reload env fs r), fs)"
| step_install: "install_skill env c r fs = (res, r', fs') \<Longrightarrow> registry_step env (r, fs) (r', fs')"
| step_tool_install:
    "prepare_install_to_disk env (install_target_dir r) name c fs0 = (Inr (n, s), fs') \<Longrightarrow>
     commit_install n s r = (res, r') \<Longrightarrow> registry_step env (r, fs) (r', fs)"
| step_remove: "remove_skill name r fs = (res, r', fs') \<Longrightarrow> registry_step env (r, fs) (r', fs')"

interpretation registry: steps_inv "\<lambda>st. skills (fst st) = []" "registry_step env" "\<lambda>st. registry_ok (fst st)" for env
proof
  fix st t
  assume "registry_ok (fst st)" and "registry_step env st t"
  then show "registry_ok (fst t)"
  proof (cases rule: registry_step.cases [OF \<open>registry_step env st t\<close>])
    case (3 c r fs res r' fs')
    then show ?thesis using install_skill_ok [of r env c fs] \<open>registry_ok (fst st)\<close> by simp
  next
    case (4 r name c fs0 n s fs' res r' fs)
    have "registry_ok r" using \<open>registry_ok (fst st)\<close> 4(1) by simp
    moreover have "skill_wf s \<and> n = skill_name s" using prepare_install_loads 4(3) by (metis fst_conv)
    ultimately have "registry_ok (snd (commit_install n s r))" using commit_install_ok by blast
    then show ?thesis using 4(2,4) by (metis fst_conv snd_conv)
  next
    case (5 name r fs res r' fs')
    then show ?thesis using remove_skill_ok [of r name fs] \<open>registry_ok (fst st)\<close> by simp
  qed (simp_all add: reload_registry_ok)
qed (simp add: registry_ok_def)

text \<open>C30: Every skill the registry ever holds is well formed: its name is a plain path component, its activation criteria are
  within the limits that scoring relies on, its prompt is not blank and at most twice its declared budget, the lowercased
  copies agree with the manifest, and a bundled legal skill declares its domain, matter and citation requirements. Names
  stay unique through every sequence of reloads, installations and removals, and any change of the files by others.
\<close>

theorem registry_well_formed:
  assumes "reach (\<lambda>st. skills (fst st) = []) (registry_step env) (r, fs)"
  shows "distinct (map skill_name (skills r)) \<and> list_all skill_wf (skills r)"
  using registry.reach_inv [OF assms] by (simp add: registry_ok_def)

section \<open>Installation and trust\<close>

definition demo_manifest :: skill_manifest where
  "demo_manifest = \<lparr>sm_name = ''demo'', sm_version = ''0.0.0'', sm_description = [],
     activation = \<lparr>ac_keywords = [], ac_patterns = [], ac_tags = [], max_context_tokens = 2000\<rparr>, metadata = None\<rparr>"

definition demo_env :: skill_env where
  "demo_env = \<lparr>yaml_manifest = \<lambda>s. Inr demo_manifest, sha256_hex = \<lambda>s. [], compile_regex = \<lambda>p. None, utf8_error = \<lambda>s. None,
     binary_exists = \<lambda>b. True, env_var_set = \<lambda>v. True, path_exists = \<lambda>p. True\<rparr>"

definition demo_content :: string where
  "demo_content = ''---'' @ [NL] @ ''name: demo'' @ [NL] @ ''---'' @ [NL] @ ''Be brief.''"

definition demo_fs :: skill_fs where
  "demo_fs = \<lparr>fs_dirs = \<lambda>d. None, fs_files = \<lambda>p. None, fs_write_error = \<lambda>p. None\<rparr>"

definition demo_registry :: skill_registry where
  "demo_registry = with_installed_dir ''installed'' (new_registry ''user'')"

lemma demo_normalize: "normalize_line_endings demo_content = demo_content"
  by code_simp

lemma demo_parse: "parse_skill_md demo_env demo_content = Inr (demo_manifest, ''Be brief.'')"
  by code_simp

definition demo_skill :: "skill_trust \<Rightarrow> skill_source \<Rightarrow> loaded_skill" where
  "demo_skill t src = \<lparr>manifest = demo_manifest, prompt_content = ''Be brief.'', skill_trust_of = t, skill_source_of = src,
     content_hash = ''sha256:'', compiled_patterns = [], lowercased_keywords = [], lowercased_tags = []\<rparr>"

lemma demo_load:
  assumes "fs_files fs p = Some (Contents demo_content)"
  shows "load_and_validate_skill demo_env fs p t src = Inr (''demo'', demo_skill t src)"
proof -
  have "length demo_content \<le> MAX_PROMPT_FILE_SIZE" by (simp add: demo_content_def MAX_PROMPT_FILE_SIZE_def)
  moreover have "validate_parsed demo_env t src demo_manifest ''Be brief.'' = Inr (''demo'', demo_skill t src)"
    by (simp add: validate_parsed_def validate_bundled_legal_metadata_def demo_manifest_def demo_skill_def approx_tokens_def
        compute_hash_def demo_env_def compile_patterns_def starts_with_def List.map_filter_simps split: skill_source.splits)
  moreover have "utf8_error demo_env x = None" for x by (simp add: demo_env_def)
  ultimately show ?thesis using assms demo_parse by (simp add: load_and_validate_skill_def demo_normalize)
qed

definition demo_dir :: "string \<Rightarrow> string" where
  "demo_dir d = join_path d ''demo''"

definition demo_written :: "string \<Rightarrow> skill_fs" where
  "demo_written d = demo_fs\<lparr>fs_dirs := (fs_dirs demo_fs)(d \<mapsto> [(''demo'', DirEntry)], demo_dir d \<mapsto> [(SKILL_MD, FileEntry)]),
     fs_files := (fs_files demo_fs)(join_path (demo_dir d) SKILL_MD \<mapsto> Contents demo_content)\<rparr>"

lemma demo_prepare:
  "prepare_install_to_disk demo_env d ''demo'' demo_content demo_fs =
     (Inr (''demo'', demo_skill Installed (User (demo_dir d))), demo_written d)"
proof -
  have "write_skill d ''demo'' demo_content demo_fs = Inr (demo_written d)"
    by (simp add: write_skill_def demo_fs_def demo_written_def demo_dir_def Let_def)
  moreover have "fs_files (demo_written d) (join_path (demo_dir d) SKILL_MD) = Some (Contents demo_content)"
    by (simp add: demo_written_def)
  ultimately show ?thesis by (simp add: prepare_install_to_disk_def demo_load demo_dir_def)
qed

lemma demo_discover:
  "discover_from_dir demo_env (demo_written d) d t mk = [(''demo'', demo_skill t (mk (demo_dir d)))]"
proof -
  have "d \<noteq> demo_dir d" by (simp add: demo_dir_def join_path_def)
  then have "fs_dirs (demo_written d) d = Some [(''demo'', DirEntry)]" by (simp add: demo_written_def)
  moreover have "fs_files (demo_written d) (join_path (demo_dir d) SKILL_MD) = Some (Contents demo_content)"
    by (simp add: demo_written_def)
  ultimately show ?thesis
    by (simp add: discover_from_dir_def Let_def demo_load demo_dir_def MAX_DISCOVERED_SKILLS_def)
qed

lemma demo_discover_other:
  "d' \<noteq> d \<Longrightarrow> d' \<noteq> demo_dir d \<Longrightarrow> discover_from_dir demo_env (demo_written d) d' t mk = []"
  by (simp add: discover_from_dir_def demo_written_def demo_fs_def)

lemma demo_install:
  "install_skill demo_env demo_content demo_registry demo_fs =
     (Inr ''demo'', demo_registry\<lparr>skills := [demo_skill Installed (User (demo_dir ''user''))]\<rparr>, demo_written ''user'')"
proof -
  have r: "skills demo_registry = []" "user_dir demo_registry = ''user''" "sm_name demo_manifest = ''demo''"
    by (simp_all add: demo_registry_def with_installed_dir_def new_registry_def demo_manifest_def)
  show ?thesis
    by (simp add: install_skill_def demo_normalize demo_parse Let_def has_skill_def r demo_prepare commit_install_def)
qed

lemma demo_discovered:
  "discovered demo_env (demo_written ''user'') (demo_registry\<lparr>skills := x\<rparr>) =
     [(''demo'', demo_skill Trusted (User (demo_dir ''user'')))]"
  "discovered demo_env (demo_written ''installed'') (demo_registry\<lparr>skills := x\<rparr>) =
     [(''demo'', demo_skill Installed (User (demo_dir ''installed'')))]"
proof -
  have "''installed'' \<noteq> demo_dir ''user''" "''user'' \<noteq> demo_dir ''installed''" by (simp_all add: demo_dir_def join_path_def)
  then show
    "discovered demo_env (demo_written ''user'') (demo_registry\<lparr>skills := x\<rparr>) =
       [(''demo'', demo_skill Trusted (User (demo_dir ''user'')))]"
    "discovered demo_env (demo_written ''installed'') (demo_registry\<lparr>skills := x\<rparr>) =
       [(''demo'', demo_skill Installed (User (demo_dir ''installed'')))]"
    by (simp_all add: discovered_def demo_registry_def with_installed_dir_def new_registry_def demo_discover demo_discover_other)
qed

text \<open>A skill installed by \<open>install_skill\<close> is held with installed trust until the next reload and with full trust after it,
  because it is written into the user's directory; the same content prepared for \<open>install_target_dir\<close>, as the tools do, stays installed.
  Tools the attenuation withheld before the reload are offered after it.
\<close>

theorem install_skill_gains_trust:
  "\<exists>r fs. install_skill demo_env demo_content demo_registry demo_fs = (Inr ''demo'', r, fs) \<and>
     map_option skill_trust_of (find_by_name r ''demo'') = Some Installed \<and>
     map_option skill_trust_of (find_by_name (snd (reload demo_env fs r)) ''demo'') = Some Trusted \<and>
     (\<exists>s fs'. prepare_install_to_disk demo_env (install_target_dir demo_registry) ''demo'' demo_content demo_fs =
          (Inr (''demo'', s), fs') \<and>
        map_option skill_trust_of (find_by_name (snd (reload demo_env fs' r)) ''demo'') = Some Installed)"
proof -
  have "install_target_dir demo_registry = ''installed''"
    by (simp add: install_target_dir_def demo_registry_def with_installed_dir_def)
  moreover have "find_by_name (demo_registry\<lparr>skills := [demo_skill Installed src]\<rparr>) ''demo'' = Some (demo_skill Installed src)" for src
    by (simp add: find_by_name_def demo_skill_def demo_manifest_def)
  ultimately show ?thesis
    by (simp add: demo_install demo_prepare reload_spec(4) demo_discovered demo_skill_def)
qed

theorem registry_well_formed_witness:
  "\<exists>r fs. reach (\<lambda>st. skills (fst st) = []) (registry_step demo_env) (r, fs) \<and> map skill_name (skills r) = [''demo''] \<and>
     distinct (map skill_name (skills r)) \<and> list_all skill_wf (skills r)"
proof -
  let ?r = "demo_registry\<lparr>skills := [demo_skill Installed (User (demo_dir ''user''))]\<rparr>"
  have "skills (fst (demo_registry, demo_fs)) = []"
    by (simp add: demo_registry_def with_installed_dir_def new_registry_def)
  then have "reach (\<lambda>st. skills (fst st) = []) (registry_step demo_env) (?r, demo_written ''user'')"
    using demo_install by (intro reach_one) (auto intro: step_install)
  from registry_well_formed [OF this] this show ?thesis
    by (intro exI [of _ ?r] exI [of _ "demo_written ''user''"]) (simp add: demo_skill_def demo_manifest_def)
qed

end
