(* ===== verification/Hooks.thy ===== *)
theory Hooks
  imports Tool_Types "HOL-Library.Multiset"
begin

text \<open>
  Lifecycle hooks (\<open>src/hooks/hook.rs\<close>, \<open>src/hooks/registry.rs\<close>): events, outcomes, the registry ordered by priority,
  and the chain that runs the hooks of an event. A hook is what its methods return; an execution that exceeds the hook's time
  limit is \<open>TimedOut\<close>. JSON text is read and written by the parameters \<open>json_codec\<close>.
\<close>

section \<open>Events and hooks\<close>

datatype hook_point = BeforeInbound | BeforeToolCall | BeforeOutbound | OnSessionStart | OnSessionEnd | TransformResponse

datatype hook_event =
    Inbound (ev_user: string) (ev_channel: string) (ev_content: string) (ev_thread: "string option")
  | ToolCallEvent (ev_tool: string) (ev_params: json_value) (ev_user: string) (ev_context: string)
  | Outbound (ev_user: string) (ev_channel: string) (ev_content: string) (ev_thread: "string option")
  | SessionStart (ev_user: string) (ev_session: string)
  | SessionEnd (ev_user: string) (ev_session: string)
  | ResponseTransform (ev_user: string) (ev_thread_id: string) (ev_response: string)

fun hook_point_of :: "hook_event \<Rightarrow> hook_point" where
  "hook_point_of (Inbound _ _ _ _) = BeforeInbound"
| "hook_point_of (ToolCallEvent _ _ _ _) = BeforeToolCall"
| "hook_point_of (Outbound _ _ _ _) = BeforeOutbound"
| "hook_point_of (SessionStart _ _) = OnSessionStart"
| "hook_point_of (SessionEnd _ _) = OnSessionEnd"
| "hook_point_of (ResponseTransform _ _ _) = TransformResponse"

record json_codec =
  json_from_str :: "string \<Rightarrow> json_value option"
  json_to_string :: "json_value \<Rightarrow> string"

fun apply_modification :: "json_codec \<Rightarrow> string \<Rightarrow> hook_event \<Rightarrow> hook_event" where
  "apply_modification js m (Inbound u c _ t) = Inbound u c m t"
| "apply_modification js m (Outbound u c _ t) = Outbound u c m t"
| "apply_modification js m (ToolCallEvent n p u c) =
     (case json_from_str js m of Some q \<Rightarrow> ToolCallEvent n q u c | None \<Rightarrow> ToolCallEvent n p u c)"
| "apply_modification js m (ResponseTransform u t _) = ResponseTransform u t m"
| "apply_modification js m (SessionStart u s) = SessionStart u s"
| "apply_modification js m (SessionEnd u s) = SessionEnd u s"

fun extract_content :: "json_codec \<Rightarrow> hook_event \<Rightarrow> string" where
  "extract_content js (Inbound _ _ c _) = c"
| "extract_content js (Outbound _ _ c _) = c"
| "extract_content js (ToolCallEvent _ p _ _) = json_to_string js p"
| "extract_content js (ResponseTransform _ _ r) = r"
| "extract_content js (SessionStart _ s) = s"
| "extract_content js (SessionEnd _ s) = s"

datatype hook_outcome = Continue "string option" | Reject string
datatype hook_failure_mode = FailOpen | FailClosed
datatype hook_error = HookFailed string | HookTimeout duration | Rejected string

text \<open>\<open>Display\<close> of an error; the duration is rendered by \<open>fmt\<close>.\<close>

definition hook_error_text :: "(duration \<Rightarrow> string) \<Rightarrow> hook_error \<Rightarrow> string" where
  "hook_error_text fmt e = (case e of
       HookFailed r \<Rightarrow> ''Hook execution failed: '' @ r
     | HookTimeout d \<Rightarrow> ''Hook timed out after '' @ fmt d
     | Rejected r \<Rightarrow> ''Hook rejected: '' @ r)"

datatype hook_run = TimedOut | Returned "hook_error + hook_outcome"

record hook =
  hook_name :: string
  hook_points :: "hook_point list"
  failure_mode :: hook_failure_mode
  hook_timeout :: duration
  hook_execute :: "hook_event \<Rightarrow> hook_run"

section \<open>The registry\<close>

record hook_entry =
  he_hook :: hook
  he_priority :: u32

type_synonym hook_registry = "hook_entry list"

fun replace_hook :: "hook_entry \<Rightarrow> hook_registry \<Rightarrow> hook_registry option" where
  "replace_hook e [] = None"
| "replace_hook e (x # xs) =
     (if hook_name (he_hook x) = hook_name (he_hook e) then Some (e # xs) else map_option ((#) x) (replace_hook e xs))"

definition register_with_priority :: "hook \<Rightarrow> u32 \<Rightarrow> hook_registry \<Rightarrow> hook_registry" where
  "register_with_priority h p reg =
     (let e = \<lparr>he_hook = h, he_priority = p\<rparr>
      in sort_key he_priority (case replace_hook e reg of Some reg' \<Rightarrow> reg' | None \<Rightarrow> reg @ [e]))"

definition register :: "hook \<Rightarrow> hook_registry \<Rightarrow> hook_registry" where
  "register h reg = register_with_priority h 100 reg"

definition unregister :: "string \<Rightarrow> hook_registry \<Rightarrow> bool \<times> hook_registry" where
  "unregister name reg =
     (let reg' = filter (\<lambda>e. hook_name (he_hook e) \<noteq> name) reg in (length reg' < length reg, reg'))"

definition list_hooks :: "hook_registry \<Rightarrow> string list" where
  "list_hooks reg = map (hook_name \<circ> he_hook) reg"

section \<open>The chain\<close>

text \<open>One hook on the current event: an error stops the chain.\<close>

definition run_hook :: "(duration \<Rightarrow> string) \<Rightarrow> json_codec \<Rightarrow> hook \<Rightarrow> hook_event \<Rightarrow> hook_error + hook_event" where
  "run_hook fmt js h ev =
     (case hook_execute h ev of
        Returned (Inr (Reject reason)) \<Rightarrow> Inl (Rejected reason)
      | Returned (Inr (Continue (Some v))) \<Rightarrow> Inr (apply_modification js v ev)
      | Returned (Inr (Continue None)) \<Rightarrow> Inr ev
      | Returned (Inl err) \<Rightarrow>
          (case failure_mode h of
             FailOpen \<Rightarrow> Inr ev
           | FailClosed \<Rightarrow> Inl (HookFailed (''Hook '' @ quoted (hook_name h) @ '' failed: '' @ hook_error_text fmt err)))
      | TimedOut \<Rightarrow> (case failure_mode h of FailOpen \<Rightarrow> Inr ev | FailClosed \<Rightarrow> Inl (HookTimeout (hook_timeout h))))"

fun run_chain :: "(duration \<Rightarrow> string) \<Rightarrow> json_codec \<Rightarrow> hook list \<Rightarrow> hook_event \<Rightarrow> hook_error + hook_event" where
  "run_chain fmt js [] ev = Inr ev"
| "run_chain fmt js (h # hs) ev = (case run_hook fmt js h ev of Inl e \<Rightarrow> Inl e | Inr ev' \<Rightarrow> run_chain fmt js hs ev')"

definition matching_hooks :: "hook_event \<Rightarrow> hook_registry \<Rightarrow> hook list" where
  "matching_hooks ev reg = map he_hook (filter (\<lambda>e. hook_point_of ev \<in> set (hook_points (he_hook e))) reg)"

definition run_hooks :: "(duration \<Rightarrow> string) \<Rightarrow> json_codec \<Rightarrow> hook_registry \<Rightarrow> hook_event \<Rightarrow> hook_error + hook_outcome" where
  "run_hooks fmt js reg ev =
     (let matching = matching_hooks ev reg
      in if matching = [] then Inr (Continue None)
         else case run_chain fmt js matching ev of
           Inl e \<Rightarrow> Inl e
         | Inr ev' \<Rightarrow>
             let modified = extract_content js ev'
             in if modified \<noteq> extract_content js ev then Inr (Continue (Some modified)) else Inr (Continue None))"

section \<open>Lemmas\<close>

lemma replace_hook_None: "replace_hook e reg = None \<longleftrightarrow> hook_name (he_hook e) \<notin> set (list_hooks reg)"
  by (induction reg) (auto simp: list_hooks_def)

lemma replace_hook_Some:
  assumes "replace_hook e reg = Some reg'" and "distinct (list_hooks reg)"
  shows "list_hooks reg' = list_hooks reg"
    "set reg' = insert e {x \<in> set reg. hook_name (he_hook x) \<noteq> hook_name (he_hook e)}"
proof -
  have "list_hooks reg' = list_hooks reg \<and> set reg' = insert e {x \<in> set reg. hook_name (he_hook x) \<noteq> hook_name (he_hook e)}"
    using assms
  proof (induction reg arbitrary: reg')
    case (Cons y reg)
    show ?case
    proof (cases "hook_name (he_hook y) = hook_name (he_hook e)")
      case True
      then have "\<forall>x \<in> set reg. hook_name (he_hook x) \<noteq> hook_name (he_hook e)" using Cons.prems(2) by (auto simp: list_hooks_def) (metis image_eqI)
      then show ?thesis using Cons.prems(1) True by (auto simp: list_hooks_def)
    next
      case False
      then obtain r where "replace_hook e reg = Some r" "reg' = y # r" using Cons.prems(1) by auto
      then show ?thesis using Cons.IH [of r] Cons.prems(2) False by (auto simp: list_hooks_def)
    qed
  qed simp
  then show "list_hooks reg' = list_hooks reg"
    "set reg' = insert e {x \<in> set reg. hook_name (he_hook x) \<noteq> hook_name (he_hook e)}" by blast+
qed

lemma length_filter_less_iff: "length (filter P xs) < length xs \<longleftrightarrow> (\<exists>x \<in> set xs. \<not> P x)"
  by (metis filter_True length_filter_less less_irrefl)

lemma register_set:
  assumes "distinct (list_hooks reg)"
  shows "set (register_with_priority h p reg) =
    insert \<lparr>he_hook = h, he_priority = p\<rparr> {x \<in> set reg. hook_name (he_hook x) \<noteq> hook_name h}"
proof (cases "replace_hook \<lparr>he_hook = h, he_priority = p\<rparr> reg")
  case None
  then have "hook_name h \<notin> set (list_hooks reg)" by (simp add: replace_hook_None)
  then have "{x \<in> set reg. hook_name (he_hook x) \<noteq> hook_name h} = set reg" by (force simp: list_hooks_def)
  then show ?thesis using None by (simp add: register_with_priority_def)
next
  case (Some reg')
  then show ?thesis using replace_hook_Some(2) [OF Some assms] by (simp add: register_with_priority_def)
qed

lemma distinct_list_hooks_sort: "distinct (list_hooks (sort_key f xs)) = distinct (list_hooks xs)"
proof -
  have "mset (list_hooks (sort_key f xs)) = mset (list_hooks xs)" unfolding list_hooks_def mset_map mset_sort ..
  then show ?thesis by (rule mset_eq_imp_distinct_iff)
qed

lemma register_distinct: "distinct (list_hooks reg) \<Longrightarrow> distinct (list_hooks (register_with_priority h p reg))"
proof -
  assume d: "distinct (list_hooks reg)"
  show ?thesis
  proof (cases "replace_hook \<lparr>he_hook = h, he_priority = p\<rparr> reg")
    case None
    then have "hook_name h \<notin> set (list_hooks reg)" by (simp add: replace_hook_None)
    then show ?thesis using d None
      unfolding register_with_priority_def Let_def distinct_list_hooks_sort by (simp add: list_hooks_def)
  next
    case (Some reg')
    then show ?thesis using d replace_hook_Some(1) [OF Some d]
      unfolding register_with_priority_def Let_def distinct_list_hooks_sort by simp
  qed
qed

text \<open>Registering a hook leaves exactly one entry of its name, with the given priority, and all entries of other names;
  unregistering removes exactly the entries of the name and reports whether there was one. Names stay distinct and the
  entries stay sorted by priority, so hooks run in the order of their priorities.
\<close>

theorem hook_registry_correct:
  assumes "distinct (list_hooks reg)" and "sorted (map he_priority reg)"
  shows "set (register_with_priority h p reg) =
      insert \<lparr>he_hook = h, he_priority = p\<rparr> {x \<in> set reg. hook_name (he_hook x) \<noteq> hook_name h} \<and>
    distinct (list_hooks (register_with_priority h p reg)) \<and> sorted (map he_priority (register_with_priority h p reg)) \<and>
    snd (unregister n reg) = filter (\<lambda>x. hook_name (he_hook x) \<noteq> n) reg \<and>
    (fst (unregister n reg) \<longleftrightarrow> n \<in> set (list_hooks reg)) \<and>
    distinct (list_hooks (snd (unregister n reg))) \<and> sorted (map he_priority (snd (unregister n reg)))"
proof -
  have "length (filter (\<lambda>x. hook_name (he_hook x) \<noteq> n) reg) < length reg \<longleftrightarrow> n \<in> set (list_hooks reg)"
    unfolding length_filter_less_iff by (auto simp: list_hooks_def)
  moreover have "sorted (map he_priority (register_with_priority h p reg))" by (simp add: register_with_priority_def Let_def)
  moreover have "distinct (list_hooks (filter (\<lambda>x. hook_name (he_hook x) \<noteq> n) reg))"
    using assms(1) by (simp add: list_hooks_def distinct_map_filter)
  moreover have "sorted (map he_priority (filter (\<lambda>x. hook_name (he_hook x) \<noteq> n) reg))" using assms(2) by (rule sorted_filter)
  ultimately show ?thesis
    using register_set [OF assms(1)] register_distinct [OF assms(1)] unfolding unregister_def Let_def by simp
qed

section \<open>Blocking hooks block\<close>

text \<open>A hook blocks an event when it rejects it, or fails or times out in fail-closed mode.\<close>

definition blocks :: "hook \<Rightarrow> hook_event \<Rightarrow> bool" where
  "blocks h ev \<longleftrightarrow> (case hook_execute h ev of
       Returned (Inr (Reject _)) \<Rightarrow> True
     | Returned (Inr (Continue _)) \<Rightarrow> False
     | _ \<Rightarrow> failure_mode h = FailClosed)"

lemma run_hook_Inl: "(\<exists>e. run_hook fmt js h ev = Inl e) \<longleftrightarrow> blocks h ev"
  by (auto simp: run_hook_def blocks_def split: hook_run.splits sum.splits hook_outcome.splits option.splits hook_failure_mode.splits)

lemma run_hook_point: "run_hook fmt js h ev = Inr ev' \<Longrightarrow> hook_point_of ev' = hook_point_of ev"
proof -
  have "hook_point_of (apply_modification js v ev) = hook_point_of ev" for v by (cases ev) (auto split: option.splits)
  then show "run_hook fmt js h ev = Inr ev' \<Longrightarrow> hook_point_of ev' = hook_point_of ev"
    by (auto simp: run_hook_def split: hook_run.splits sum.splits hook_outcome.splits option.splits hook_failure_mode.splits)
qed

lemma run_chain_blocked:
  assumes "h \<in> set hs" and "\<And>e. hook_point_of e = hook_point_of ev \<Longrightarrow> blocks h e"
  shows "\<exists>e. run_chain fmt js hs ev = Inl e"
  using assms
proof (induction hs arbitrary: ev)
  case (Cons x hs)
  show ?case
  proof (cases "run_hook fmt js x ev")
    case (Inr ev')
    then have "x \<noteq> h" using Cons.prems(2) [of ev] run_hook_Inl [of fmt js h ev] by auto
    then show ?thesis using Cons.IH [of ev'] Cons.prems Inr run_hook_point [OF Inr] by auto
  qed simp
qed simp

lemma in_matching_hooks:
  "h \<in> set (matching_hooks ev reg) \<longleftrightarrow> h \<in> he_hook ` set reg \<and> hook_point_of ev \<in> set (hook_points h)"
  by (auto simp: matching_hooks_def)

lemma run_hooks_blocked:
  assumes "h \<in> he_hook ` set reg" and "hook_point_of ev \<in> set (hook_points h)"
    and "\<And>e. hook_point_of e = hook_point_of ev \<Longrightarrow> blocks h e"
  shows "\<exists>err. run_hooks fmt js reg ev = Inl err"
proof -
  have m: "h \<in> set (matching_hooks ev reg)" using assms(1,2) by (simp add: in_matching_hooks)
  obtain err where "run_chain fmt js (matching_hooks ev reg) ev = Inl err"
    using run_chain_blocked [OF m assms(3)] by blast
  moreover have "matching_hooks ev reg \<noteq> []" using m by auto
  ultimately show ?thesis by (simp add: run_hooks_def Let_def)
qed

text \<open>A guard hook cannot be bypassed. If a registered hook is attached to the event's point and blocks every event of that
  point, the chain ends in an error, whatever other hooks are registered, before or after it, and however they
  modify the event.
\<close>

theorem guard_hooks_hold:
  assumes "h \<in> he_hook ` set reg" and "hook_point_of ev \<in> set (hook_points h)"
    and "\<And>e. hook_point_of e = hook_point_of ev \<Longrightarrow> blocks h e"
  shows "\<exists>err. run_hooks fmt js reg ev = Inl err"
  using assms by (rule run_hooks_blocked)

definition reject_all :: hook where
  "reject_all = \<lparr>hook_name = ''guard'', hook_points = [BeforeInbound], failure_mode = FailClosed, hook_timeout = 5,
     hook_execute = \<lambda>ev. TimedOut\<rparr>"

definition rewrite_all :: hook where
  "rewrite_all = \<lparr>hook_name = ''rewrite'', hook_points = [BeforeInbound], failure_mode = FailOpen, hook_timeout = 5,
     hook_execute = \<lambda>ev. Returned (Inr (Continue (Some ''changed'')))\<rparr>"

definition demo_codec :: json_codec where
  "demo_codec = \<lparr>json_from_str = \<lambda>s. None, json_to_string = \<lambda>v. []\<rparr>"

text \<open>A rewriting hook runs before the guard, and the guard, which always times out, still blocks.\<close>

theorem guard_hooks_hold_witness:
  "\<exists>err. run_hooks (\<lambda>d. []) demo_codec (register reject_all (register_with_priority rewrite_all 1 []))
     (Inbound ''u'' ''c'' ''hello'' None) = Inl err"
proof (rule guard_hooks_hold)
  show "reject_all \<in> he_hook ` set (register reject_all (register_with_priority rewrite_all 1 []))"
    by (simp add: register_def register_with_priority_def reject_all_def rewrite_all_def)
  show "hook_point_of (Inbound ''u'' ''c'' ''hello'' None) \<in> set (hook_points reject_all)" by (simp add: reject_all_def)
  show "blocks reject_all e" for e by (simp add: blocks_def reject_all_def)
qed

text \<open>Conversely, when no hook attached to the point blocks, the event passes.\<close>

lemma unguarded_events_pass:
  assumes "\<And>h e. h \<in> he_hook ` set reg \<Longrightarrow> \<not> blocks h e"
  shows "\<exists>m. run_hooks fmt js reg ev = Inr (Continue m)"
proof -
  have "\<exists>ev'. run_chain fmt js hs e = Inr ev'" if "\<forall>h \<in> set hs. \<forall>e. \<not> blocks h e" for hs e
    using that
  proof (induction hs arbitrary: e)
    case (Cons h hs)
    then obtain e' where "run_hook fmt js h e = Inr e'" using run_hook_Inl [of fmt js h e] by (cases "run_hook fmt js h e") auto
    then show ?case using Cons by simp
  qed simp
  moreover have "\<forall>h \<in> set (matching_hooks ev reg). \<forall>e. \<not> blocks h e" using assms by (simp add: in_matching_hooks)
  ultimately obtain ev' where "run_chain fmt js (matching_hooks ev reg) ev = Inr ev'" by blast
  then show ?thesis by (simp add: run_hooks_def Let_def)
qed

theorem hook_registry_correct_witness:
  "distinct (list_hooks (register rewrite_all [])) \<and> sorted (map he_priority (register rewrite_all [])) \<and>
   fst (unregister ''rewrite'' (register rewrite_all []))"
proof -
  let ?reg = "register rewrite_all []"
  have h: "distinct (list_hooks ?reg)" "sorted (map he_priority ?reg)" "''rewrite'' \<in> set (list_hooks ?reg)"
    by (simp_all add: register_def register_with_priority_def list_hooks_def rewrite_all_def)
  show ?thesis using h hook_registry_correct [OF h(1,2), of rewrite_all 1 "''rewrite''"] by blast
qed

end
