(* ===== verification/Message_Loop.thy ===== *)
theory Message_Loop
  imports Session Hooks
begin

text \<open>
  The agent's message loop: the submission parser (\<open>src/agent/submission.rs\<close>), the command router
  (\<open>src/agent/router.rs\<close>), the handling of one message (\<open>handle_message\<close> of \<open>src/agent/agent_loop.rs\<close>) with its hooks, the auth-mode
  interception and the dispatch to the thread commands, and the loop that sends the answer or shuts the agent down.
  The thread commands are those of \<open>Session\<close>; the handlers that are not modelled are the fields of \<open>agent_handlers\<close>. A UUID
  and a JSON submission are read by \<open>parse_env\<close>.
\<close>

section \<open>Submissions\<close>

datatype submission =
    UserInput string
  | ExecApproval uuid bool bool
  | ApprovalResponse bool bool
  | Interrupt
  | Compact
  | Undo
  | Redo
  | Resume uuid
  | Clear
  | SwitchThread uuid
  | NewThread
  | Heartbeat
  | Summarize
  | Suggest
  | Quit
  | SystemCommand string "string list"

record parse_env =
  parse_uuid :: "string \<Rightarrow> uuid option"
  submission_from_json :: "string \<Rightarrow> submission option"

definition approve_words :: "string list" where
  "approve_words = [''yes'', ''y'', ''approve'', ''ok'', ''/approve'', ''/yes'', ''/y'']"

definition always_words :: "string list" where
  "always_words = [''always'', ''a'', ''yes always'', ''approve always'', ''/always'', ''/a'']"

definition deny_words :: "string list" where
  "deny_words = [''no'', ''n'', ''deny'', ''reject'', ''cancel'', ''/deny'', ''/no'', ''/n'']"

text \<open>The commands that are matched as a whole, in the order of the code, and the two with a prefix.\<close>

definition control_command :: "string \<Rightarrow> string \<Rightarrow> submission option" where
  "control_command lower trimmed =
     (if lower = ''/undo'' then Some Undo
      else if lower = ''/redo'' then Some Redo
      else if lower = ''/interrupt'' \<or> lower = ''/stop'' then Some Interrupt
      else if lower = ''/compact'' then Some Compact
      else if lower = ''/clear'' then Some Clear
      else if lower = ''/heartbeat'' then Some Heartbeat
      else if lower = ''/summarize'' \<or> lower = ''/summary'' then Some Summarize
      else if lower = ''/suggest'' then Some Suggest
      else if lower = ''/thread new'' \<or> lower = ''/new'' then Some NewThread
      else if lower = ''/help'' \<or> lower = ''/?'' then Some (SystemCommand ''help'' [])
      else if lower = ''/version'' then Some (SystemCommand ''version'' [])
      else if lower = ''/tools'' then Some (SystemCommand ''tools'' [])
      else if lower = ''/skills'' then Some (SystemCommand ''skills'' [])
      else if starts_with lower ''/skills '' then Some (SystemCommand ''skills'' (drop 1 (split_whitespace trimmed)))
      else if lower = ''/ping'' then Some (SystemCommand ''ping'' [])
      else if lower = ''/debug'' then Some (SystemCommand ''debug'' [])
      else if starts_with lower ''/model'' then Some (SystemCommand ''model'' (drop 1 (split_whitespace trimmed)))
      else if lower = ''/quit'' \<or> lower = ''/exit'' \<or> lower = ''/shutdown'' then Some Quit
      else None)"

definition thread_command :: "parse_env \<Rightarrow> string \<Rightarrow> submission option" where
  "thread_command env lower =
     (case strip_prefix lower ''/thread '' of
        None \<Rightarrow> None
      | Some rest \<Rightarrow>
          let rest = trim rest in if rest \<noteq> ''new'' then map_option SwitchThread (parse_uuid env rest) else None)"

definition resume_command :: "parse_env \<Rightarrow> string \<Rightarrow> submission option" where
  "resume_command env lower =
     (case strip_prefix lower ''/resume '' of None \<Rightarrow> None | Some rest \<Rightarrow> map_option Resume (parse_uuid env (trim rest)))"

definition json_approval :: "parse_env \<Rightarrow> string \<Rightarrow> submission option" where
  "json_approval env trimmed =
     (if starts_with trimmed ''{''
      then (case submission_from_json env trimmed of Some (ExecApproval r a w) \<Rightarrow> Some (ExecApproval r a w) | _ \<Rightarrow> None)
      else None)"

definition simple_response :: "string \<Rightarrow> submission option" where
  "simple_response lower =
     (if lower \<in> set approve_words then Some (ApprovalResponse True False)
      else if lower \<in> set always_words then Some (ApprovalResponse True True)
      else if lower \<in> set deny_words then Some (ApprovalResponse False False)
      else None)"

fun first_some :: "'a option list \<Rightarrow> 'a \<Rightarrow> 'a" where
  "first_some [] d = d"
| "first_some (Some x # xs) d = x"
| "first_some (None # xs) d = first_some xs d"

definition parse_submission :: "parse_env \<Rightarrow> string \<Rightarrow> submission" where
  "parse_submission env content =
     (let trimmed = trim content; lower = lowercase trimmed
      in first_some [control_command lower trimmed, thread_command env lower, resume_command env lower,
           json_approval env trimmed, simple_response lower] (UserInput content))"

definition is_control :: "submission \<Rightarrow> bool" where
  "is_control s = (case s of Interrupt \<Rightarrow> True | Compact \<Rightarrow> True | Undo \<Rightarrow> True | Redo \<Rightarrow> True | Clear \<Rightarrow> True | NewThread \<Rightarrow> True
     | Heartbeat \<Rightarrow> True | Summarize \<Rightarrow> True | Suggest \<Rightarrow> True | SystemCommand _ _ \<Rightarrow> True | _ \<Rightarrow> False)"

section \<open>Explicit commands\<close>

datatype message_intent =
    CreateJob string string "string option"
  | CheckJobStatus "string option"
  | CancelJob string
  | ListJobs "string option"
  | HelpJob string
  | Chat string
  | CommandIntent string "string list"
  | UnknownIntent

definition parse_command :: "string \<Rightarrow> string \<Rightarrow> message_intent" where
  "parse_command pre content =
     (let without_prefix = (case strip_prefix content pre of Some s \<Rightarrow> s | None \<Rightarrow> content)
      in case split_whitespace without_prefix of
           [] \<Rightarrow> UnknownIntent
         | w # args \<Rightarrow>
             let cmd = lowercase w; arg = (case args of [] \<Rightarrow> None | a # _ \<Rightarrow> Some a)
             in if cmd = ''job'' \<or> cmd = ''create'' then CreateJob (join_with '' '' args) (join_with '' '' args) None
                else if cmd = ''status'' then CheckJobStatus arg
                else if cmd = ''cancel'' then (case arg of Some j \<Rightarrow> CancelJob j | None \<Rightarrow> UnknownIntent)
                else if cmd = ''list'' \<or> cmd = ''jobs'' then ListJobs arg
                else if cmd = ''help'' then (case arg of Some j \<Rightarrow> HelpJob j | None \<Rightarrow> CommandIntent ''help'' [])
                else CommandIntent cmd args)"

definition route_command :: "string \<Rightarrow> string \<Rightarrow> message_intent option" where
  "route_command pre content =
     (let c = trim content in if starts_with c pre then Some (parse_command pre c) else None)"

section \<open>Handling one message\<close>

datatype sub_result =
    Response string
  | NeedApproval uuid string string json_value
  | OkResult "string option"
  | ErrorResult string
  | InterruptedResult

definition SILENT_REPLY_TOKEN :: string where
  "SILENT_REPLY_TOKEN = ''NO_REPLY''"

definition is_punct :: "char \<Rightarrow> bool" where
  "is_punct c \<longleftrightarrow> (let n = of_char c :: nat in (33 \<le> n \<and> n \<le> 47) \<or> (58 \<le> n \<and> n \<le> 64) \<or> (91 \<le> n \<and> n \<le> 96) \<or> (123 \<le> n \<and> n \<le> 126))"

definition is_silent_reply :: "string \<Rightarrow> bool" where
  "is_silent_reply text \<longleftrightarrow>
     (let trimmed = trim text
      in trimmed = SILENT_REPLY_TOKEN \<or>
         (starts_with trimmed SILENT_REPLY_TOKEN \<and> length trimmed \<le> length SILENT_REPLY_TOKEN + 4 \<and>
          list_all (\<lambda>c. is_ws c \<or> is_punct c) (drop (length SILENT_REPLY_TOKEN) trimmed)))"

text \<open>An incoming message, after its thread was resolved to \<open>im_thread\<close>.\<close>

record incoming =
  im_user :: string
  im_channel :: string
  im_content :: string
  im_external_thread :: "string option"
  im_thread :: uuid

text \<open>What the modelled commands need from outside: rendered labels and messages, a fresh identifier and the time.\<close>

record command_ctx =
  ctx_label :: "nat \<Rightarrow> string"
  ctx_undo_msg :: "nat \<Rightarrow> nat \<Rightarrow> string"
  ctx_redo_msg :: "nat \<Rightarrow> string"
  ctx_resume_msg :: "string \<Rightarrow> string"
  ctx_not_found :: "uuid \<Rightarrow> string"
  ctx_new_id :: uuid
  ctx_now :: instant

type_synonym handler = "agent_state \<Rightarrow> (string + sub_result) \<times> agent_state"

record agent_handlers =
  h_user_input :: "string \<Rightarrow> handler"
  h_system_command :: "string \<Rightarrow> string list \<Rightarrow> handler"
  h_compact :: handler
  h_new_thread :: handler
  h_heartbeat :: handler
  h_summarize :: handler
  h_suggest :: handler
  h_switch_thread :: "uuid \<Rightarrow> handler"
  h_approval :: "uuid option \<Rightarrow> bool \<Rightarrow> bool \<Rightarrow> handler"
  h_auth_token :: "string \<Rightarrow> string \<Rightarrow> agent_state \<Rightarrow> (string + string option) \<times> agent_state"

definition of_thread_command :: "command_ctx \<Rightarrow> (uuid + submission_result) \<times> agent_state \<Rightarrow> (string + sub_result) \<times> agent_state" where
  "of_thread_command ctx x =
     (case fst x of
        Inl i \<Rightarrow> (Inl (ctx_not_found ctx i), snd x)
      | Inr (OkMessage m) \<Rightarrow> (Inr (OkResult (Some m)), snd x)
      | Inr (ErrMessage m) \<Rightarrow> (Inr (ErrorResult m), snd x))"

text \<open>\<open>None\<close> is the early return on \<open>Quit\<close>.\<close>

definition dispatch ::
  "command_ctx \<Rightarrow> agent_handlers \<Rightarrow> uuid \<Rightarrow> submission \<Rightarrow> agent_state \<Rightarrow> ((string + sub_result) \<times> agent_state) option" where
  "dispatch ctx h i sub st =
     (case sub of
        UserInput c \<Rightarrow> Some (h_user_input h c st)
      | SystemCommand cmd args \<Rightarrow> Some (h_system_command h cmd args st)
      | Undo \<Rightarrow> Some (of_thread_command ctx (process_undo (ctx_label ctx) (ctx_undo_msg ctx) (ctx_new_id ctx) (ctx_now ctx) i st))
      | Redo \<Rightarrow> Some (of_thread_command ctx (process_redo (ctx_label ctx) (ctx_redo_msg ctx) (ctx_new_id ctx) (ctx_now ctx) i st))
      | Interrupt \<Rightarrow> Some (of_thread_command ctx (process_interrupt (ctx_now ctx) i st))
      | Compact \<Rightarrow> Some (h_compact h st)
      | Clear \<Rightarrow> Some (of_thread_command ctx (process_clear i st))
      | NewThread \<Rightarrow> Some (h_new_thread h st)
      | Heartbeat \<Rightarrow> Some (h_heartbeat h st)
      | Summarize \<Rightarrow> Some (h_summarize h st)
      | Suggest \<Rightarrow> Some (h_suggest h st)
      | Quit \<Rightarrow> None
      | SwitchThread t \<Rightarrow> Some (h_switch_thread h t st)
      | Resume cp \<Rightarrow> Some (of_thread_command ctx (process_resume (ctx_resume_msg ctx) cp (ctx_now ctx) i st))
      | ExecApproval r a w \<Rightarrow> Some (h_approval h (Some r) a w st)
      | ApprovalResponse a w \<Rightarrow> Some (h_approval h None a w st))"

text \<open>The conversion of a result into the answer; \<open>Inr None\<close> means no answer.\<close>

definition answer_of :: "string + sub_result \<Rightarrow> string + string option" where
  "answer_of r = (case r of
       Inl e \<Rightarrow> Inl e
     | Inr (Response c) \<Rightarrow> if is_silent_reply c then Inr None else Inr (Some c)
     | Inr (OkResult m) \<Rightarrow> Inr m
     | Inr (ErrorResult m) \<Rightarrow> Inr (Some (''Error: '' @ m))
     | Inr InterruptedResult \<Rightarrow> Inr (Some ''Interrupted.'')
     | Inr (NeedApproval _ _ _ _) \<Rightarrow> Inr (Some []))"

definition clear_pending_auth :: "uuid \<Rightarrow> agent_state \<Rightarrow> agent_state" where
  "clear_pending_auth i st =
     (case hm_get (threads (ag_session st)) i of
        None \<Rightarrow> st
      | Some th \<Rightarrow> st\<lparr>ag_session := put_thread (th\<lparr>pending_auth := None\<rparr>) i (ag_session st)\<rparr>)"

text \<open>The hook on inbound user input: the text that stops the message, or the submission to go on with.\<close>

definition inbound_hook ::
  "(duration \<Rightarrow> string) \<Rightarrow> json_codec \<Rightarrow> hook_registry \<Rightarrow> incoming \<Rightarrow> submission \<Rightarrow> string + submission" where
  "inbound_hook fmt js reg m sub =
     (case sub of
        UserInput c \<Rightarrow>
          (case run_hooks fmt js reg (Inbound (im_user m) (im_channel m) c (im_external_thread m)) of
             Inl (Rejected reason) \<Rightarrow> Inl (''[Message rejected: '' @ reason @ '']'')
           | Inl err \<Rightarrow> Inl (''[Message blocked by hook policy: '' @ hook_error_text fmt err @ '']'')
           | Inr (Continue (Some c')) \<Rightarrow> Inr (UserInput c')
           | Inr _ \<Rightarrow> Inr sub)
      | _ \<Rightarrow> Inr sub)"

definition handle_message ::
  "parse_env \<Rightarrow> (duration \<Rightarrow> string) \<Rightarrow> json_codec \<Rightarrow> hook_registry \<Rightarrow> command_ctx \<Rightarrow> agent_handlers \<Rightarrow> incoming \<Rightarrow> agent_state \<Rightarrow>
   (string + string option) \<times> agent_state" where
  "handle_message env fmt js reg ctx h m st =
     (case inbound_hook fmt js reg m (parse_submission env (im_content m)) of
        Inl stopped \<Rightarrow> (Inr (Some stopped), st)
      | Inr sub \<Rightarrow>
          let i = im_thread m; pending = Option.bind (hm_get (threads (ag_session st)) i) pending_auth
          in case (pending, sub) of
               (Some ext, UserInput c) \<Rightarrow> h_auth_token h ext c st
             | _ \<Rightarrow>
                 let st1 = (if pending = None then st else clear_pending_auth i st)
                 in case dispatch ctx h i sub st1 of
                      None \<Rightarrow> (Inr None, st1)
                    | Some (r, st2) \<Rightarrow> (answer_of r, st2))"

section \<open>The loop\<close>

datatype loop_action = Send string | Withheld | Suppressed | Shutdown

text \<open>One round of \<open>run\<close>: what the loop does with the answer to a message.\<close>

definition loop_round ::
  "(duration \<Rightarrow> string) \<Rightarrow> json_codec \<Rightarrow> hook_registry \<Rightarrow> incoming \<Rightarrow> string + string option \<Rightarrow> loop_action" where
  "loop_round fmt js reg m answer =
     (case answer of
        Inr (Some r) \<Rightarrow>
          if r \<noteq> []
          then (case run_hooks fmt js reg (Outbound (im_user m) (im_channel m) r (im_external_thread m)) of
                  Inl _ \<Rightarrow> Withheld
                | Inr (Continue (Some r')) \<Rightarrow> Send r'
                | Inr _ \<Rightarrow> Send r)
          else Suppressed
      | Inr None \<Rightarrow> Shutdown
      | Inl e \<Rightarrow> Send (''Error: '' @ e))"

section \<open>What a message can mean\<close>

lemma first_some_cases: "first_some xs d = (case dropWhile (\<lambda>x. x = None) xs of [] \<Rightarrow> d | x # _ \<Rightarrow> the x)"
  by (induction xs d rule: first_some.induct) auto

definition response_words :: "string list" where
  "response_words = approve_words @ always_words @ deny_words"

lemmas word_defs = response_words_def approve_words_def always_words_def deny_words_def

lemma words_no_control: "w \<in> set response_words \<Longrightarrow> control_command w t = None"
proof -
  have "list_all (\<lambda>w. control_command w t = None) response_words"
    by (simp add: word_defs control_command_def starts_with_def)
  then show "w \<in> set response_words \<Longrightarrow> control_command w t = None" by (simp add: list_all_iff)
qed

lemma words_no_thread:
  "w \<in> set response_words \<Longrightarrow> thread_command env w = None" "w \<in> set response_words \<Longrightarrow> resume_command env w = None"
proof -
  have "list_all (\<lambda>w. strip_prefix w ''/thread '' = None \<and> strip_prefix w ''/resume '' = None) response_words"
    by (simp add: word_defs strip_prefix_def starts_with_def)
  then show "w \<in> set response_words \<Longrightarrow> thread_command env w = None" "w \<in> set response_words \<Longrightarrow> resume_command env w = None"
    by (auto simp: list_all_iff thread_command_def resume_command_def)
qed

lemma words_no_json:
  assumes "lowercase t \<in> set response_words"
  shows "json_approval env t = None"
proof -
  have "hd (lowercase t) \<noteq> CHR ''{''" "t \<noteq> []" using assms by (auto simp: word_defs lowercase_def)
  moreover have "lower_char (CHR ''{'') = CHR ''{''" by (simp add: lower_char_def is_upper_def)
  ultimately have "\<not> starts_with t ''{''" by (cases t) (auto simp: starts_with_def lowercase_def)
  then show ?thesis by (simp add: json_approval_def)
qed

lemma control_command_kinds:
  "control_command l t = Some s \<Longrightarrow> (\<forall>a w. s \<noteq> ApprovalResponse a w) \<and> (\<forall>c. s \<noteq> UserInput c) \<and> (\<forall>r a w. s \<noteq> ExecApproval r a w)"
  by (auto simp: control_command_def split: if_splits)

lemma thread_command_kinds:
  "thread_command env l = Some s \<Longrightarrow> \<exists>i. s = SwitchThread i" "resume_command env l = Some s \<Longrightarrow> \<exists>i. s = Resume i"
  "json_approval env t = Some s \<Longrightarrow> \<exists>r a w. s = ExecApproval r a w"
  "simple_response l = Some s \<Longrightarrow> \<exists>a w. s = ApprovalResponse a w"
  by (auto simp: thread_command_def resume_command_def json_approval_def simple_response_def Let_def
      split: option.splits if_splits submission.splits)

lemma parse_submission_cases:
  "parse_submission env s =
     (let t = trim s; l = lowercase t
      in case control_command l t of Some x \<Rightarrow> x | None \<Rightarrow>
        (case thread_command env l of Some x \<Rightarrow> x | None \<Rightarrow>
          (case resume_command env l of Some x \<Rightarrow> x | None \<Rightarrow>
            (case json_approval env t of Some x \<Rightarrow> x | None \<Rightarrow>
              (case simple_response l of Some x \<Rightarrow> x | None \<Rightarrow> UserInput s)))))"
  by (simp add: parse_submission_def Let_def split: option.split)

lemma parse_word:
  assumes "lowercase (trim s) \<in> set response_words"
  shows "parse_submission env s = the (simple_response (lowercase (trim s)))"
proof -
  have "simple_response (lowercase (trim s)) \<noteq> None" using assms by (auto simp: simple_response_def response_words_def)
  then show ?thesis
    using words_no_control [OF assms] words_no_thread [OF assms] words_no_json [OF assms]
    by (auto simp: parse_submission_cases Let_def)
qed

lemma parse_not_word:
  assumes "lowercase (trim s) \<notin> set response_words"
  shows "parse_submission env s \<noteq> ApprovalResponse a w"
proof -
  have "simple_response (lowercase (trim s)) = None" using assms by (auto simp: simple_response_def response_words_def)
  then show ?thesis
    using control_command_kinds thread_command_kinds(1,2) thread_command_kinds(3)
    by (auto simp: parse_submission_cases Let_def split: option.splits) blast+
qed

text \<open>A message answers a pending approval only by one of the fixed words, whatever its case and the blanks around
  it: it approves, approves for the session or denies exactly when the trimmed, lowercased text is in the respective list. A
  message that is taken as user input is passed on verbatim.
\<close>

theorem approvals_are_explicit:
  "(parse_submission env s = ApprovalResponse True False \<longleftrightarrow> lowercase (trim s) \<in> set approve_words) \<and>
   (parse_submission env s = ApprovalResponse True True \<longleftrightarrow> lowercase (trim s) \<in> set always_words) \<and>
   (parse_submission env s = ApprovalResponse False False \<longleftrightarrow> lowercase (trim s) \<in> set deny_words) \<and>
   parse_submission env s \<noteq> ApprovalResponse False True \<and>
   (\<forall>c. parse_submission env s = UserInput c \<longleftrightarrow> parse_submission env s = UserInput s \<and> c = s)"
proof (intro conjI allI)
  let ?l = "lowercase (trim s)"
  have dis: "set always_words \<inter> set approve_words = {}" "set deny_words \<inter> set approve_words = {}"
    "set deny_words \<inter> set always_words = {}" by (simp_all add: word_defs)
  have in_words: "?l \<in> set response_words \<longleftrightarrow> ?l \<in> set approve_words \<or> ?l \<in> set always_words \<or> ?l \<in> set deny_words"
    by (auto simp: response_words_def)
  show "parse_submission env s = ApprovalResponse True False \<longleftrightarrow> ?l \<in> set approve_words"
    "parse_submission env s = ApprovalResponse True True \<longleftrightarrow> ?l \<in> set always_words"
    "parse_submission env s = ApprovalResponse False False \<longleftrightarrow> ?l \<in> set deny_words"
    "parse_submission env s \<noteq> ApprovalResponse False True"
    using parse_word [of s env] parse_not_word [of s env] in_words dis
    by (cases "?l \<in> set response_words"; auto simp: simple_response_def)+
  show "parse_submission env s = UserInput c \<longleftrightarrow> parse_submission env s = UserInput s \<and> c = s" for c
    using control_command_kinds thread_command_kinds
    by (auto simp: parse_submission_cases Let_def split: option.splits) blast+
qed

section \<open>When the loop stops\<close>

lemma loop_round_shutdown: "loop_round fmt js reg m a = Shutdown \<longleftrightarrow> a = Inr None"
  by (auto simp: loop_round_def split: sum.splits option.splits if_splits hook_outcome.splits)

lemma answer_of_none:
  "answer_of r = Inr None \<longleftrightarrow> r = Inr (OkResult None) \<or> (\<exists>c. r = Inr (Response c) \<and> is_silent_reply c)"
  by (auto simp: answer_of_def split: sum.splits sub_result.splits)

lemma handle_message_user_input:
  assumes "inbound_hook fmt js reg m (parse_submission env (im_content m)) = Inr (UserInput c)"
    and "Option.bind (hm_get (threads (ag_session st)) (im_thread m)) pending_auth = None"
  shows "handle_message env fmt js reg ctx h m st = (answer_of (fst (h_user_input h c st)), snd (h_user_input h c st))"
  using assms by (simp add: handle_message_def dispatch_def Let_def case_prod_beta)


text \<open>The other way round: without a silent or empty result and without the quit command the loop goes on.\<close>

lemma loop_goes_on:
  assumes "inbound_hook fmt js reg m (parse_submission env (im_content m)) = Inr (UserInput c)"
    and "Option.bind (hm_get (threads (ag_session st)) (im_thread m)) pending_auth = None"
    and "fst (h_user_input h c st) = Inr (Response r)" and "\<not> is_silent_reply r"
  shows "loop_round fmt js reg m (fst (handle_message env fmt js reg ctx h m st)) \<noteq> Shutdown"
  using handle_message_user_input [OF assms(1,2)] assms(3,4) by (simp add: loop_round_shutdown answer_of_none)

definition quiet_handler :: handler where
  "quiet_handler st = (Inr (Response ''NO_REPLY.''), st)"

definition quiet_agent :: agent_handlers where
  "quiet_agent = \<lparr>h_user_input = \<lambda>c. quiet_handler, h_system_command = \<lambda>c a. quiet_handler, h_compact = quiet_handler,
     h_new_thread = quiet_handler, h_heartbeat = quiet_handler, h_summarize = quiet_handler, h_suggest = quiet_handler,
     h_switch_thread = \<lambda>t. quiet_handler, h_approval = \<lambda>r a w. quiet_handler, h_auth_token = \<lambda>e c st. (Inr (Some []), st)\<rparr>"

definition hello :: incoming where
  "hello = \<lparr>im_user = ''u'', im_channel = ''signal'', im_content = ''Thanks all'', im_external_thread = None, im_thread = 1\<rparr>"

definition no_parse :: parse_env where
  "no_parse = \<lparr>parse_uuid = \<lambda>s. None, submission_from_json = \<lambda>s. None\<rparr>"

definition plain_ctx :: command_ctx where
  "plain_ctx = \<lparr>ctx_label = \<lambda>n. [], ctx_undo_msg = \<lambda>a b. [], ctx_redo_msg = \<lambda>a. [], ctx_resume_msg = \<lambda>s. s,
     ctx_not_found = \<lambda>i. [], ctx_new_id = 7, ctx_now = 0\<rparr>"

definition fresh_agent :: agent_state where
  "fresh_agent = \<lparr>ag_session = snd (create_thread 1 0 (new_session 9 0 ''u'')), ag_undo = new_undo_manager\<rparr>"

lemma hello_input: "parse_submission no_parse (im_content hello) = UserInput ''Thanks all''"
  by code_simp


section \<open>Guards on inbound messages\<close>

text \<open>A guard on inbound messages protects every handler. If a registered hook is attached to inbound messages and blocks all of
  them, user input reaches no handler and changes no state: for any handlers the answer is the notice of the
  rejection, and the agent's state is the one before.
\<close>

theorem inbound_guard_holds:
  assumes "g \<in> he_hook ` set reg" and "BeforeInbound \<in> set (hook_points g)"
    and "\<And>e. hook_point_of e = BeforeInbound \<Longrightarrow> blocks g e" and "parse_submission env (im_content m) = UserInput c"
  shows "\<exists>notice. handle_message env fmt js reg ctx h m st = (Inr (Some (''[Message '' @ notice)), st)"
proof -
  obtain err where err: "run_hooks fmt js reg (Inbound (im_user m) (im_channel m) c (im_external_thread m)) = Inl err"
    using run_hooks_blocked [OF assms(1), of "Inbound (im_user m) (im_channel m) c (im_external_thread m)"] assms(2,3) by fastforce
  have "\<exists>notice. inbound_hook fmt js reg m (UserInput c) = Inl (''[Message '' @ notice)"
    by (cases err) (simp_all add: inbound_hook_def err)
  then show ?thesis using assms(4) by (auto simp: handle_message_def)
qed

theorem inbound_guard_holds_witness:
  "\<exists>notice. handle_message no_parse (\<lambda>d. []) demo_codec (register reject_all []) plain_ctx quiet_agent hello fresh_agent =
     (Inr (Some (''[Message '' @ notice)), fresh_agent)"
proof (rule inbound_guard_holds)
  show "reject_all \<in> he_hook ` set (register reject_all [])" by (simp add: register_def register_with_priority_def)
  show "BeforeInbound \<in> set (hook_points reject_all)" by (simp add: reject_all_def)
  show "blocks reject_all e" for e by (simp add: blocks_def reject_all_def)
  show "parse_submission no_parse (im_content hello) = UserInput ''Thanks all''" by (rule hello_input)
qed

end
