(* ===== verification/Shell_Tool.thy ===== *)
theory Shell_Tool
  imports Tool_Types
begin

text \<open>
  The guards of the shell tool (\<open>src/tools/builtin/shell.rs\<close>): blocked and dangerous patterns, the detection of obfuscated
  commands, approval, the environment of the child process, and the choice between sandbox and host. Running the command
  is the parameters \<open>sandbox_run\<close> and \<open>host_run\<close>.
\<close>

section \<open>Patterns\<close>

definition MAX_OUTPUT_SIZE :: nat where "MAX_OUTPUT_SIZE = 64 * 1024"

definition BLOCKED_COMMANDS :: "string list" where
  "BLOCKED_COMMANDS = [''rm -rf /'', ''rm -rf /*'', '':(){ :|:& };:'', ''dd if=/dev/zero'', ''mkfs'', ''chmod -R 777 /'',
     ''> /dev/sda'', ''curl | sh'', ''wget | sh'', ''curl | bash'', ''wget | bash'']"

definition DANGEROUS_PATTERNS :: "string list" where
  "DANGEROUS_PATTERNS = [''sudo '', ''doas '', '' | sh'', '' | bash'', '' | zsh'', ''eval '', ''$(curl'', ''$(wget'', ''/etc/passwd'',
     ''/etc/shadow'', ''~/.ssh'', ''.bash_history'', ''id_rsa'']"

definition NEVER_AUTO_APPROVE_PATTERNS :: "string list" where
  "NEVER_AUTO_APPROVE_PATTERNS = [''rm -rf'', ''rm -fr'', ''chmod -r 777'', ''chmod 777'', ''chown -r'', ''shutdown'', ''reboot'',
     ''poweroff'', ''init 0'', ''init 6'', ''iptables'', ''nft '', ''useradd'', ''userdel'', ''passwd'', ''visudo'', ''crontab'',
     ''systemctl disable'', ''launchctl unload'', ''kill -9'', ''killall'', ''pkill'', ''docker rm'', ''docker rmi'',
     ''docker system prune'', ''git push --force'', ''git push -f'', ''git reset --hard'', ''git clean -f'', ''DROP TABLE'',
     ''DROP DATABASE'', ''TRUNCATE'', ''DELETE FROM'']"

definition SAFE_ENV_VARS :: "string list" where
  "SAFE_ENV_VARS = [''PATH'', ''HOME'', ''USER'', ''LOGNAME'', ''SHELL'', ''TERM'', ''COLORTERM'', ''LANG'', ''LC_ALL'', ''LC_CTYPE'',
     ''LC_MESSAGES'', ''PWD'', ''TMPDIR'', ''TMP'', ''TEMP'', ''XDG_RUNTIME_DIR'', ''XDG_DATA_HOME'', ''XDG_CONFIG_HOME'',
     ''XDG_CACHE_HOME'', ''CARGO_HOME'', ''RUSTUP_HOME'', ''NODE_PATH'', ''NPM_CONFIG_PREFIX'', ''EDITOR'', ''VISUAL'',
     ''SystemRoot'', ''SYSTEMROOT'', ''ComSpec'', ''PATHEXT'', ''APPDATA'', ''LOCALAPPDATA'', ''USERPROFILE'', ''ProgramFiles'',
     ''ProgramFiles(x86)'', ''WINDIR'']"

definition BLOCKED_EXTRA_ENV_KEYS :: "string list" where
  "BLOCKED_EXTRA_ENV_KEYS = [''BASH_ENV'', ''ENV'', ''SHELLOPTS'', ''BASHOPTS'', ''PROMPT_COMMAND'', ''ZDOTDIR'', ''LD_PRELOAD'',
     ''LD_LIBRARY_PATH'', ''DYLD_INSERT_LIBRARIES'', ''DYLD_LIBRARY_PATH'', ''NODE_OPTIONS'', ''PYTHONPATH'', ''PYTHONHOME'',
     ''RUBYOPT'', ''GEM_PATH'', ''GIT_CONFIG_GLOBAL'', ''GIT_CONFIG_SYSTEM'']"

definition shell_requires_explicit_approval :: "string \<Rightarrow> bool" where
  "shell_requires_explicit_approval command \<longleftrightarrow>
     list_ex (\<lambda>p. str_contains (lowercase command) (lowercase p)) NEVER_AUTO_APPROVE_PATTERNS"

definition is_blocked :: "bool \<Rightarrow> string \<Rightarrow> string option" where
  "is_blocked allow_dangerous cmd =
     (let normalized = lowercase cmd
      in if list_ex (str_contains normalized) BLOCKED_COMMANDS then Some ''Command contains blocked pattern''
         else if \<not> allow_dangerous \<and> list_ex (str_contains normalized) DANGEROUS_PATTERNS
         then Some ''Command contains potentially dangerous pattern''
         else None)"

section \<open>Obfuscation\<close>

text \<open>\<open>match_indices\<close> visits non-overlapping matches from the left; \<open>any_match P\<close> asks for a match with what precedes and follows
  it satisfying \<open>P\<close>. \<open>before\<close> is the text already passed, reversed.\<close>

function any_match :: "(string \<Rightarrow> string \<Rightarrow> bool) \<Rightarrow> string \<Rightarrow> string \<Rightarrow> string \<Rightarrow> bool" where
  "any_match P pat before s =
     (if s = [] then False
      else if pat \<noteq> [] \<and> starts_with s pat
      then P before (drop (length pat) s) \<or> any_match P pat (rev pat @ before) (drop (length pat) s)
      else any_match P pat (hd s # before) (tl s))"
  by pat_completeness auto
termination
  by (relation "measure (\<lambda>(P, pat, before, s). length s)") auto

declare any_match.simps [simp del]

definition has_pipe_to :: "string \<Rightarrow> string \<Rightarrow> bool" where
  "has_pipe_to lower shell \<longleftrightarrow>
     list_ex (\<lambda>pre. any_match (\<lambda>before rest. rest = [] \<or>
         hd rest \<in> {CHR '' '', CHR 0x09, CHR 0x0A, CHR '';'', CHR ''|'', CHR ''&'', CHR '')''}) (pre @ shell) [] lower)
       [''| '', ''|'']"

definition contains_shell_pipe :: "string \<Rightarrow> bool" where
  "contains_shell_pipe lower \<longleftrightarrow> list_ex (has_pipe_to lower) [''sh'', ''bash'', ''zsh'', ''dash'', ''/bin/sh'', ''/bin/bash'']"

definition has_command_substitution :: "string \<Rightarrow> bool" where
  "has_command_substitution s \<longleftrightarrow> str_contains s ''$('' \<or> CHR 0x60 \<in> set s"

definition has_command_token :: "string \<Rightarrow> string \<Rightarrow> bool" where
  "has_command_token lower token \<longleftrightarrow>
     any_match (\<lambda>before rest. before = [] \<or>
       hd before \<in> {CHR '' '', CHR 0x09, CHR ''|'', CHR '';'', CHR ''&'', CHR 0x0A, CHR ''(''}) token [] lower"

definition detect_command_injection :: "string \<Rightarrow> string option" where
  "detect_command_injection cmd =
     (let lower = lowercase cmd; has = str_contains lower
      in if CHR 0x00 \<in> set cmd then Some ''null byte in command''
         else if (has ''base64 -d'' \<or> has ''base64 --decode'') \<and> contains_shell_pipe lower
         then Some ''base64 decode piped to shell''
         else if (has ''printf'' \<or> has ''echo -e'' \<or> has (''echo $'' @ [CHR 0x27])) \<and>
           (has [CHR 0x5C, CHR ''x''] \<or> has [CHR 0x5C, CHR ''0'']) \<and> contains_shell_pipe lower
         then Some ''encoded escape sequences piped to shell''
         else if (has ''xxd -r'' \<or> has_command_token lower ''od '') \<and> contains_shell_pipe lower
         then Some ''binary decode piped to shell''
         else if (has_command_token lower ''dig '' \<or> has_command_token lower ''nslookup '' \<or> has_command_token lower ''host '') \<and>
           has_command_substitution lower
         then Some ''potential DNS exfiltration via command substitution''
         else if (has_command_token lower ''nc '' \<or> has_command_token lower ''ncat '' \<or> has_command_token lower ''netcat '') \<and>
           (CHR ''|'' \<in> set lower \<or> CHR ''<'' \<in> set lower)
         then Some ''netcat with data piping''
         else if has ''curl'' \<and> (has ''-d @'' \<or> has ''-d@'' \<or> has ''--data @'' \<or> has ''--data-binary @'' \<or> has ''--upload-file'')
         then Some ''curl posting file contents''
         else if has ''wget'' \<and> has ''--post-file'' then Some ''wget posting file contents''
         else if (has ''| rev'' \<or> has ''|rev'') \<and> contains_shell_pipe lower then Some ''string reversal piped to shell''
         else None)"

section \<open>Environment and execution\<close>

definition truncate_for_error :: "string \<Rightarrow> string" where
  "truncate_for_error s = (if length s \<le> 100 then s else take 100 s @ ''...'')"

text \<open>\<open>floor_char_boundary\<close> is the index itself on ASCII text; \<open>fmt\<close> renders numbers.\<close>

definition truncate_output :: "(nat \<Rightarrow> string) \<Rightarrow> string \<Rightarrow> string" where
  "truncate_output fmt s =
     (if length s \<le> MAX_OUTPUT_SIZE then s
      else let half = MAX_OUTPUT_SIZE div 2
           in take half s @ [CHR 0x0A, CHR 0x0A] @ ''... [truncated '' @ fmt (length s - MAX_OUTPUT_SIZE) @ '' bytes] ...'' @
              [CHR 0x0A, CHR 0x0A] @ drop (length s - half) s)"

definition is_valid_extra_env_name :: "string \<Rightarrow> bool" where
  "is_valid_extra_env_name name \<longleftrightarrow>
     (case name of
        [] \<Rightarrow> False
      | c # cs \<Rightarrow> (c = CHR ''_'' \<or> is_upper c \<or> is_lower c) \<and> list_all (\<lambda>x. x = CHR ''_'' \<or> is_alnum x) cs)"

text \<open>The checks of one variable, in the order of the code.\<close>

definition check_extra_env_var :: "string \<times> string \<Rightarrow> tool_error option" where
  "check_extra_env_var nv =
     (case nv of (name, v) \<Rightarrow>
       let shown = quoted (truncate_for_error name); upper = uppercase name
       in if name = [] \<or> length name > 128
          then Some (NotAuthorized (''Invalid extra environment variable name length for '' @ shown))
          else if \<not> is_valid_extra_env_name name then Some (NotAuthorized (''Invalid extra environment variable name '' @ shown))
          else if upper \<in> set BLOCKED_EXTRA_ENV_KEYS \<or> starts_with upper ''LD_'' \<or> starts_with upper ''DYLD_''
          then Some (NotAuthorized (''Blocked extra environment variable '' @ shown))
          else if length v > 8192 then Some (NotAuthorized (''Extra environment variable '' @ shown @ '' exceeds max value length (8192)''))
          else if CHR 0x00 \<in> set v then Some (NotAuthorized (''Extra environment variable '' @ shown @ '' contains a null byte''))
          else None)"

fun first_error :: "('a \<Rightarrow> tool_error option) \<Rightarrow> 'a list \<Rightarrow> tool_error option" where
  "first_error f [] = None"
| "first_error f (x # xs) = (case f x of Some e \<Rightarrow> Some e | None \<Rightarrow> first_error f xs)"

definition validate_extra_env :: "(string, string) hashmap \<Rightarrow> tool_error option" where
  "validate_extra_env extra_env =
     (if length extra_env > 64 then Some (NotAuthorized ''Too many extra environment variables (max 64)'')
      else first_error check_extra_env_var extra_env)"

text \<open>The environment of the child: the safe variables of the host, overridden by the extra ones.\<close>

definition child_env :: "(string \<Rightarrow> string option) \<Rightarrow> (string, string) hashmap \<Rightarrow> string \<Rightarrow> string option" where
  "child_env host_env extra_env v =
     (case map_of extra_env v of Some x \<Rightarrow> Some x | None \<Rightarrow> if v \<in> set SAFE_ENV_VARS then host_env v else None)"

text \<open>A configured sandbox: whether it is initialised and whether its configuration enables it.\<close>

record shell_tool =
  allow_dangerous :: bool
  shell_sandbox :: "(bool \<times> bool) option"

datatype execution = InSandbox | OnHost "string \<Rightarrow> string option"

text \<open>What \<open>execute_command\<close> does with a command: refuse it, or run it in the sandbox or on the host with an environment.\<close>

definition execute_command ::
  "(string \<Rightarrow> string option) \<Rightarrow> shell_tool \<Rightarrow> string \<Rightarrow> (string, string) hashmap \<Rightarrow> tool_error + execution" where
  "execute_command host_env tool cmd extra_env =
     (case is_blocked (allow_dangerous tool) cmd of
        Some reason \<Rightarrow> Inl (NotAuthorized (reason @ '': '' @ truncate_for_error cmd))
      | None \<Rightarrow>
          (case detect_command_injection cmd of
             Some reason \<Rightarrow> Inl (NotAuthorized (''Command injection detected ('' @ reason @ ''): '' @ truncate_for_error cmd))
           | None \<Rightarrow>
               if (case shell_sandbox tool of Some (init, enabled) \<Rightarrow> init \<or> enabled | None \<Rightarrow> False) then Inr InSandbox
               else (case validate_extra_env extra_env of
                       Some e \<Rightarrow> Inl e
                     | None \<Rightarrow> Inr (OnHost (child_env host_env extra_env)))))"

text \<open>The flag \<open>sandboxed\<close> of the tool's answer.\<close>

definition reports_sandboxed :: "shell_tool \<Rightarrow> bool" where
  "reports_sandboxed tool = (shell_sandbox tool \<noteq> None)"

text \<open>\<open>requires_approval\<close>; \<open>parse_json\<close> reads arguments given as a string.\<close>

definition shell_requires_approval :: "(string \<Rightarrow> json_value option) \<Rightarrow> json_value \<Rightarrow> approval_requirement" where
  "shell_requires_approval parse_json params =
     (let cmd = (case Option.bind (json_get params ''command'') as_str of
            Some c \<Rightarrow> Some c
          | None \<Rightarrow> Option.bind (Option.bind (as_str params) parse_json) (\<lambda>v. Option.bind (json_get v ''command'') as_str))
      in case cmd of Some c \<Rightarrow> if shell_requires_explicit_approval c then Always else UnlessAutoApproved | None \<Rightarrow> UnlessAutoApproved)"

section \<open>What reaches the host\<close>

lemma first_error_None: "first_error f xs = None \<longleftrightarrow> (\<forall>x \<in> set xs. f x = None)"
  by (induction xs) (auto split: option.splits)

definition extra_var_ok :: "string \<Rightarrow> string \<Rightarrow> bool" where
  "extra_var_ok name v \<longleftrightarrow> is_valid_extra_env_name name \<and> length name \<le> 128 \<and> uppercase name \<notin> set BLOCKED_EXTRA_ENV_KEYS \<and>
     \<not> starts_with (uppercase name) ''LD_'' \<and> \<not> starts_with (uppercase name) ''DYLD_'' \<and> length v \<le> 8192 \<and> CHR 0x00 \<notin> set v"

lemma validate_extra_env_None:
  "validate_extra_env env = None \<longleftrightarrow> length env \<le> 64 \<and> (\<forall>(name, v) \<in> set env. extra_var_ok name v)"
proof -
  have "check_extra_env_var (name, v) = None \<longleftrightarrow> extra_var_ok name v" for name v
    unfolding check_extra_env_var_def extra_var_ok_def Let_def by (auto simp: is_valid_extra_env_name_def)
  then show ?thesis by (auto simp: validate_extra_env_def first_error_None)
qed

lemma execute_command_ok:
  assumes "execute_command host_env tool cmd extra = Inr r"
  shows "is_blocked (allow_dangerous tool) cmd = None" "detect_command_injection cmd = None"
    "r = InSandbox \<longleftrightarrow> (case shell_sandbox tool of Some (init, enabled) \<Rightarrow> init \<or> enabled | None \<Rightarrow> False)"
    "r \<noteq> InSandbox \<Longrightarrow> r = OnHost (child_env host_env extra) \<and> validate_extra_env extra = None"
  using assms by (auto simp: execute_command_def split: option.splits if_splits)

lemma is_blocked_None:
  "is_blocked allow cmd = None \<longleftrightarrow> (\<forall>p \<in> set BLOCKED_COMMANDS. \<not> str_contains (lowercase cmd) p) \<and>
     (allow \<or> (\<forall>p \<in> set DANGEROUS_PATTERNS. \<not> str_contains (lowercase cmd) p))"
  by (auto simp: is_blocked_def Let_def list_ex_iff)

text \<open>A command that runs on the host holds no blocked pattern, no dangerous one unless the tool allows them, and no null byte,
  and its environment leaks nothing: each variable is one of the known safe ones with the host's value, or one supplied
  explicitly whose name is plain, is not on the list of loader and interpreter variables and has no loader prefix, and
  whose value is bounded. At most 64 variables are supplied.
\<close>

theorem host_execution_contained:
  assumes "execute_command host_env tool cmd extra = Inr (OnHost env)"
  shows "(\<forall>p \<in> set BLOCKED_COMMANDS. \<not> str_contains (lowercase cmd) p) \<and>
    (allow_dangerous tool \<or> (\<forall>p \<in> set DANGEROUS_PATTERNS. \<not> str_contains (lowercase cmd) p)) \<and>
    CHR 0x00 \<notin> set cmd \<and> length extra \<le> 64 \<and>
    (\<forall>v x. env v = Some x \<longrightarrow> (v \<in> set SAFE_ENV_VARS \<and> host_env v = Some x) \<or> ((v, x) \<in> set extra \<and> extra_var_ok v x))"
proof -
  note ok = execute_command_ok [OF assms]
  have env: "env = child_env host_env extra" "length extra \<le> 64" "\<forall>(name, v) \<in> set extra. extra_var_ok name v"
    using ok(4) by (auto simp: validate_extra_env_None)
  have "(v \<in> set SAFE_ENV_VARS \<and> host_env v = Some x) \<or> ((v, x) \<in> set extra \<and> extra_var_ok v x)" if "env v = Some x" for v x
    using that env by (auto simp: child_env_def split: option.splits if_splits dest: map_of_SomeD)
  moreover have "CHR 0x00 \<notin> set cmd" using ok(2) by (auto simp: detect_command_injection_def Let_def split: if_splits)
  ultimately show ?thesis using ok(1) env(2) by (simp add: is_blocked_None)
qed

definition plain_shell :: shell_tool where
  "plain_shell = \<lparr>allow_dangerous = False, shell_sandbox = None\<rparr>"

definition host_secrets :: "string \<Rightarrow> string option" where
  "host_secrets = map_of [(''PATH'', ''/bin''), (''OPENAI_API_KEY'', ''sk-1'')]"

theorem host_execution_contained_witness:
  "\<exists>env. execute_command host_secrets plain_shell ''ls -l'' [(''CI'', ''1'')] = Inr (OnHost env) \<and> env ''PATH'' = Some ''/bin'' \<and>
     env ''OPENAI_API_KEY'' = None"
proof -
  have clean: "is_blocked False ''ls -l'' = None" "detect_command_injection ''ls -l'' = None" by code_simp+
  have "validate_extra_env [(''CI'', ''1'')] = None"
    by (simp add: validate_extra_env_def check_extra_env_var_def is_valid_extra_env_name_def BLOCKED_EXTRA_ENV_KEYS_def
        uppercase_def upper_char_def is_upper_def is_lower_def is_alnum_def starts_with_def)
  then have run: "execute_command host_secrets plain_shell ''ls -l'' [(''CI'', ''1'')] =
      Inr (OnHost (child_env host_secrets [(''CI'', ''1'')]))"
    using clean by (simp add: execute_command_def plain_shell_def)
  have "child_env host_secrets [(''CI'', ''1'')] ''PATH'' = Some ''/bin''"
    by (simp add: child_env_def host_secrets_def SAFE_ENV_VARS_def)
  moreover have "child_env host_secrets [(''CI'', ''1'')] ''OPENAI_API_KEY'' = None"
  proof (rule ccontr)
    assume "child_env host_secrets [(''CI'', ''1'')] ''OPENAI_API_KEY'' \<noteq> None"
    then obtain x where "child_env host_secrets [(''CI'', ''1'')] ''OPENAI_API_KEY'' = Some x" by blast
    then have "''OPENAI_API_KEY'' \<in> set SAFE_ENV_VARS \<or> (''OPENAI_API_KEY'', x) \<in> set [(''CI'', ''1'')]"
      using host_execution_contained [OF run] by blast
    then show False by (simp add: SAFE_ENV_VARS_def)
  qed
  ultimately show ?thesis using run by blast
qed

section \<open>Two gaps\<close>

lemma lower_char_not_upper: "\<not> is_upper (lower_char c)"
proof (cases "is_upper c")
  case True
  then have "(of_char (char_of ((of_char c :: nat) + 32)) :: nat) = of_char c + 32" by (simp add: is_upper_def)
  with True show ?thesis by (simp add: lower_char_def is_upper_def)
qed (simp add: lower_char_def)

lemma lowercase_no_upper: "c \<in> set (lowercase s) \<Longrightarrow> \<not> is_upper c"
  using lower_char_not_upper by (auto simp: lowercase_def)

lemma str_contains_set: "str_contains s p \<Longrightarrow> set p \<subseteq> set s"
proof (induction s)
  case (Cons c s)
  then consider "starts_with (c # s) p" | "str_contains s p" by auto
  then show ?case
  proof cases
    case 1
    then show ?thesis by (metis starts_with_def set_take_subset)
  qed (use Cons.IH in auto)
qed simp

text \<open>One of the blocked patterns is never found: the command is lowercased before the search and the pattern
  \<open>chmod -R 777 /\<close> holds a capital letter, so that very command is not blocked and runs.
\<close>

theorem blocked_pattern_is_dead:
  "\<not> str_contains (lowercase cmd) ''chmod -R 777 /'' \<and> ''chmod -R 777 /'' \<in> set BLOCKED_COMMANDS \<and>
   execute_command host_env plain_shell ''chmod -R 777 /'' [] = Inr (OnHost (child_env host_env []))"
proof (intro conjI)
  show "\<not> str_contains (lowercase cmd) ''chmod -R 777 /''"
  proof
    assume "str_contains (lowercase cmd) ''chmod -R 777 /''"
    then have "CHR ''R'' \<in> set (lowercase cmd)" using str_contains_set by fastforce
    then show False using lowercase_no_upper by (fastforce simp: is_upper_def)
  qed
  show "''chmod -R 777 /'' \<in> set BLOCKED_COMMANDS" by (simp add: BLOCKED_COMMANDS_def)
  have "is_blocked False ''chmod -R 777 /'' = None" "detect_command_injection ''chmod -R 777 /'' = None" by code_simp+
  then show "execute_command host_env plain_shell ''chmod -R 777 /'' [] = Inr (OnHost (child_env host_env []))"
    by (simp add: execute_command_def plain_shell_def validate_extra_env_def)
qed

text \<open>A configured sandbox that is neither initialised nor enabled is bypassed, and the answer still says \<open>sandboxed\<close>.\<close>

lemma sandbox_flag_wrong:
  "\<exists>tool env. shell_sandbox tool = Some (False, False) \<and> execute_command host_env tool ''ls -l'' [] = Inr (OnHost env) \<and>
     reports_sandboxed tool"
proof -
  let ?tool = "\<lparr>allow_dangerous = False, shell_sandbox = Some (False, False)\<rparr>"
  have "is_blocked False ''ls -l'' = None" "detect_command_injection ''ls -l'' = None" by code_simp+
  then have "execute_command host_env ?tool ''ls -l'' [] = Inr (OnHost (child_env host_env []))"
    by (simp add: execute_command_def validate_extra_env_def)
  then show ?thesis by (intro exI [of _ ?tool]) (simp add: reports_sandboxed_def)
qed

end
