(* ===== verification/Http_Tool.thy ===== *)
theory Http_Tool
  imports Tool_Types
begin

text \<open>
  The guards of the HTTP tool (\<open>src/tools/builtin/http.rs\<close>) and the detection of credentials in its arguments
  (\<open>src/safety/credential_detect.rs\<close>): address classes, URL validation with name resolution, headers, approval, redirects and
  the size cap of the response. The URL parser and the resolver are the record \<open>net_env\<close>; the classes of addresses are
  those of \<open>std::net\<close>.
\<close>

section \<open>Addresses\<close>

text \<open>An IPv4 address is its four octets, an IPv6 address its eight segments.\<close>

datatype ip_addr = V4 "8 word" "8 word" "8 word" "8 word" | V6 "16 word list"

definition v4_is_private :: "8 word \<Rightarrow> 8 word \<Rightarrow> bool" where
  "v4_is_private a b \<longleftrightarrow> a = 10 \<or> (a = 172 \<and> 16 \<le> b \<and> b \<le> 31) \<or> (a = 192 \<and> b = 168)"

definition v6_is_unique_local :: "16 word list \<Rightarrow> bool" where
  "v6_is_unique_local s \<longleftrightarrow> and (s ! 0) 0xfe00 = 0xfc00"

definition v6_is_unicast_link_local :: "16 word list \<Rightarrow> bool" where
  "v6_is_unicast_link_local s \<longleftrightarrow> and (s ! 0) 0xffc0 = 0xfe80"

definition v6_is_multicast :: "16 word list \<Rightarrow> bool" where
  "v6_is_multicast s \<longleftrightarrow> and (s ! 0) 0xff00 = 0xff00"

definition is_disallowed_ip :: "ip_addr \<Rightarrow> bool" where
  "is_disallowed_ip ip =
     (case ip of
        V4 a b c d \<Rightarrow>
          v4_is_private a b \<or> a = 127 \<or> (a = 169 \<and> b = 254) \<or> (224 \<le> a \<and> a \<le> 239) \<or> (a = 0 \<and> b = 0 \<and> c = 0 \<and> d = 0) \<or>
          (a = 169 \<and> b = 254 \<and> c = 169 \<and> d = 254)
      | V6 s \<Rightarrow>
          s = [0, 0, 0, 0, 0, 0, 0, 1] \<or> v6_is_unique_local s \<or> v6_is_unicast_link_local s \<or> v6_is_multicast s \<or>
          s = [0, 0, 0, 0, 0, 0, 0, 0])"

text \<open>The IPv4-mapped form of an IPv4 address.\<close>

definition v4_mapped :: "8 word \<Rightarrow> 8 word \<Rightarrow> 8 word \<Rightarrow> 8 word \<Rightarrow> ip_addr" where
  "v4_mapped a b c d = V6 [0, 0, 0, 0, 0, 0xffff, ucast a * 256 + ucast b, ucast c * 256 + ucast d]"

section \<open>URLs\<close>

record parsed_url =
  url_scheme :: string
  url_host :: "string option"
  url_port :: "nat option"
  url_username :: string
  url_password :: "string option"
  url_query :: "(string \<times> string) list"

record net_env =
  url_parse :: "string \<Rightarrow> string + parsed_url"
  ip_parse :: "string \<Rightarrow> ip_addr option"
  known_port :: "string \<Rightarrow> nat option"
  resolve :: "string \<Rightarrow> nat \<Rightarrow> ip_addr list option"
  show_ip :: "ip_addr \<Rightarrow> string"

definition validate_url :: "net_env \<Rightarrow> string \<Rightarrow> tool_error + parsed_url" where
  "validate_url net url =
     (case url_parse net url of
        Inl e \<Rightarrow> Inl (InvalidParameters (''invalid URL: '' @ e))
      | Inr parsed \<Rightarrow>
          if url_scheme parsed \<noteq> ''https'' then Inl (NotAuthorized ''only https URLs are allowed'')
          else case url_host parsed of
            None \<Rightarrow> Inl (InvalidParameters ''URL missing host'')
          | Some host \<Rightarrow>
              let host_lower = lowercase host
              in if host_lower = ''localhost'' \<or> ends_with host_lower ''.localhost''
                 then Inl (NotAuthorized ''localhost is not allowed'')
                 else if (case ip_parse net host of Some ip \<Rightarrow> is_disallowed_ip ip | None \<Rightarrow> False)
                 then Inl (NotAuthorized ''private or local IPs are not allowed'')
                 else let port = (case url_port parsed of Some p \<Rightarrow> p
                            | None \<Rightarrow> (case known_port net (url_scheme parsed) of Some p \<Rightarrow> p | None \<Rightarrow> 443))
                      in case resolve net host port of
                           None \<Rightarrow> Inr parsed
                         | Some addrs \<Rightarrow>
                             (case find is_disallowed_ip addrs of
                                Some ip \<Rightarrow> Inl (NotAuthorized (''hostname '' @ quoted host @ '' resolves to disallowed IP '' @ show_ip net ip))
                              | None \<Rightarrow> Inr parsed))"

text \<open>Headers are given as an object or as a list of name and value; \<open>fmt\<close> renders the index.\<close>

fun object_headers :: "(string \<times> json_value) list \<Rightarrow> tool_error + (string \<times> string) list" where
  "object_headers [] = Inr []"
| "object_headers ((k, v) # rest) =
     (case as_str v of
        None \<Rightarrow> Inl (InvalidParameters (''header '' @ quoted k @ '' must have a string value''))
      | Some s \<Rightarrow> (case object_headers rest of Inl e \<Rightarrow> Inl e | Inr hs \<Rightarrow> Inr ((k, s) # hs)))"

fun array_headers :: "(nat \<Rightarrow> string) \<Rightarrow> nat \<Rightarrow> json_value list \<Rightarrow> tool_error + (string \<times> string) list" where
  "array_headers fmt i [] = Inr []"
| "array_headers fmt i (item # rest) =
     (case item of
        JObject _ \<Rightarrow>
          (case Option.bind (json_get item ''name'') as_str of
             None \<Rightarrow> Inl (InvalidParameters (''headers['' @ fmt i @ ''].name must be a string''))
           | Some n \<Rightarrow>
               (case Option.bind (json_get item ''value'') as_str of
                  None \<Rightarrow> Inl (InvalidParameters (''headers['' @ fmt i @ ''].value must be a string''))
                | Some v \<Rightarrow> (case array_headers fmt (i + 1) rest of Inl e \<Rightarrow> Inl e | Inr hs \<Rightarrow> Inr ((n, v) # hs))))
      | _ \<Rightarrow> Inl (InvalidParameters (''headers['' @ fmt i @ ''] must be an object with '' @ quoted ''name'' @ '' and '' @ quoted ''value'')))"

definition parse_headers_param :: "(nat \<Rightarrow> string) \<Rightarrow> json_value option \<Rightarrow> tool_error + (string \<times> string) list" where
  "parse_headers_param fmt headers =
     (case headers of
        None \<Rightarrow> Inr []
      | Some (JObject m) \<Rightarrow> object_headers m
      | Some (JArray items) \<Rightarrow> array_headers fmt 0 items
      | Some _ \<Rightarrow> Inl (InvalidParameters (quoted ''headers'' @ '' must be an object or an array of {name, value}'')))"

section \<open>Credentials in the arguments\<close>

definition AUTH_HEADER_EXACT :: "string list" where
  "AUTH_HEADER_EXACT = [''authorization'', ''proxy-authorization'', ''cookie'', ''x-api-key'', ''api-key'', ''x-auth-token'', ''x-token'',
     ''x-access-token'', ''x-session-token'', ''x-csrf-token'', ''x-secret'', ''x-api-secret'']"

definition AUTH_HEADER_SUBSTRINGS :: "string list" where
  "AUTH_HEADER_SUBSTRINGS = [''auth'', ''token'', ''secret'', ''credential'', ''password'']"

definition AUTH_VALUE_PREFIXES :: "string list" where
  "AUTH_VALUE_PREFIXES = [''bearer '', ''basic '', ''token '', ''digest '', ''hoba '', ''mutual '', ''aws4-hmac-sha256 '']"

definition AUTH_QUERY_EXACT :: "string list" where
  "AUTH_QUERY_EXACT = [''api_key'', ''apikey'', ''api-key'', ''access_token'', ''token'', ''key'', ''secret'', ''password'', ''auth'',
     ''auth_token'', ''session_token'', ''client_secret'', ''client_id'', ''app_key'', ''app_secret'', ''sig'', ''signature'']"

definition AUTH_QUERY_SUBSTRINGS :: "string list" where
  "AUTH_QUERY_SUBSTRINGS = [''token'', ''secret'', ''auth'', ''password'', ''credential'']"

definition header_name_is_credential :: "string \<Rightarrow> bool" where
  "header_name_is_credential name \<longleftrightarrow>
     (let lower = lowercase name in lower \<in> set AUTH_HEADER_EXACT \<or> list_ex (str_contains lower) AUTH_HEADER_SUBSTRINGS)"

definition header_value_is_credential :: "string \<Rightarrow> bool" where
  "header_value_is_credential v \<longleftrightarrow> list_ex (starts_with (lowercase v)) AUTH_VALUE_PREFIXES"

definition str_satisfies :: "(string \<Rightarrow> bool) \<Rightarrow> json_value option \<Rightarrow> bool" where
  "str_satisfies P v = (case Option.bind v as_str of Some s \<Rightarrow> P s | None \<Rightarrow> False)"

definition headers_contain_credentials :: "json_value \<Rightarrow> bool" where
  "headers_contain_credentials params =
     (case json_get params ''headers'' of
        Some (JObject m) \<Rightarrow>
          list_ex (\<lambda>(k, v). header_name_is_credential k \<or> str_satisfies header_value_is_credential (Some v)) m
      | Some (JArray items) \<Rightarrow>
          list_ex (\<lambda>item. str_satisfies header_name_is_credential (json_get item ''name'') \<or>
            str_satisfies header_value_is_credential (json_get item ''value'')) items
      | _ \<Rightarrow> False)"

definition query_param_is_credential :: "string \<Rightarrow> bool" where
  "query_param_is_credential name \<longleftrightarrow>
     (let lower = lowercase name in lower \<in> set AUTH_QUERY_EXACT \<or> list_ex (str_contains lower) AUTH_QUERY_SUBSTRINGS)"

definition param_url :: "net_env \<Rightarrow> json_value \<Rightarrow> parsed_url option" where
  "param_url net params =
     (case Option.bind (json_get params ''url'') as_str of
        None \<Rightarrow> None
      | Some u \<Rightarrow> (case url_parse net u of Inl _ \<Rightarrow> None | Inr p \<Rightarrow> Some p))"

definition url_contains_credential_params :: "net_env \<Rightarrow> json_value \<Rightarrow> bool" where
  "url_contains_credential_params net params =
     (case param_url net params of None \<Rightarrow> False | Some p \<Rightarrow> list_ex (\<lambda>(n, v). query_param_is_credential n) (url_query p))"

definition url_contains_userinfo :: "net_env \<Rightarrow> json_value \<Rightarrow> bool" where
  "url_contains_userinfo net params =
     (case param_url net params of None \<Rightarrow> False | Some p \<Rightarrow> url_username p \<noteq> [] \<or> url_password p \<noteq> None)"

definition params_contain_manual_credentials :: "net_env \<Rightarrow> json_value \<Rightarrow> bool" where
  "params_contain_manual_credentials net params \<longleftrightarrow>
     headers_contain_credentials params \<or> url_contains_credential_params net params \<or> url_contains_userinfo net params"

text \<open>\<open>requires_approval\<close>; \<open>has_credentials\<close> is the credential registry's answer for a host, if there is a registry.\<close>

definition http_requires_approval :: "net_env \<Rightarrow> (string \<Rightarrow> bool) option \<Rightarrow> json_value \<Rightarrow> approval_requirement" where
  "http_requires_approval net has_credentials params =
     (if params_contain_manual_credentials net params then Always
      else if (case has_credentials of
                 None \<Rightarrow> False
               | Some f \<Rightarrow> (case Option.bind (param_url net params) url_host of Some h \<Rightarrow> f h | None \<Rightarrow> False))
      then Always
      else UnlessAutoApproved)"

section \<open>Responses\<close>

definition MAX_RESPONSE_SIZE :: nat where "MAX_RESPONSE_SIZE = 5 * 1024 * 1024"

text \<open>The body read in chunks; \<open>Inl\<close> is a failed read. \<open>fmt\<close> renders numbers.\<close>

fun read_body :: "(nat \<Rightarrow> string) \<Rightarrow> string \<Rightarrow> (string + string) list \<Rightarrow> tool_error + string" where
  "read_body fmt body [] = Inr body"
| "read_body fmt body (Inl e # rest) = Inl (ExternalService (''failed to read response body: '' @ e))"
| "read_body fmt body (Inr chunk # rest) =
     (if length body + length chunk > MAX_RESPONSE_SIZE
      then Inl (ExecutionFailed (''Response body exceeds maximum allowed size ('' @ fmt MAX_RESPONSE_SIZE @ '' bytes)''))
      else read_body fmt (body @ chunk) rest)"

definition accept_response ::
  "(nat \<Rightarrow> string) \<Rightarrow> nat \<Rightarrow> nat option \<Rightarrow> (string + string) list \<Rightarrow> tool_error + string" where
  "accept_response fmt status content_length chunks =
     (if 300 \<le> status \<and> status < 400
      then Inl (NotAuthorized (''request returned redirect (HTTP '' @ fmt status @ ''), which is blocked to prevent SSRF''))
      else if (case content_length of Some n \<Rightarrow> n > MAX_RESPONSE_SIZE | None \<Rightarrow> False)
      then Inl (ExecutionFailed (''Response Content-Length ('' @ fmt (the content_length) @ '' bytes) exceeds maximum allowed size ('' @
             fmt MAX_RESPONSE_SIZE @ '' bytes)''))
      else read_body fmt [] chunks)"

section \<open>Properties\<close>

text \<open>A URL the tool accepts uses https, names a host that is not the local one, and none of the addresses its name resolves to is
  private, loopback, link-local, multicast or unspecified by the tool's classification; an address literal is
  held to the same classes. The cloud metadata address is among the refused ones.
\<close>

theorem url_validation_sound:
  assumes "validate_url net url = Inr u"
  shows "url_parse net url = Inr u \<and> url_scheme u = ''https'' \<and> is_disallowed_ip (V4 169 254 169 254) \<and>
    (\<exists>h. url_host u = Some h \<and> lowercase h \<noteq> ''localhost'' \<and> \<not> ends_with (lowercase h) ''.localhost'' \<and>
      (\<forall>ip. ip_parse net h = Some ip \<longrightarrow> \<not> is_disallowed_ip ip) \<and>
      (\<exists>port. \<forall>addrs. resolve net h port = Some addrs \<longrightarrow> (\<forall>ip \<in> set addrs. \<not> is_disallowed_ip ip)))"
proof -
  obtain h where h: "url_parse net url = Inr u" "url_scheme u = ''https''" "url_host u = Some h" "lowercase h \<noteq> ''localhost''"
    "\<not> ends_with (lowercase h) ''.localhost''" "\<not> (case ip_parse net h of Some ip \<Rightarrow> is_disallowed_ip ip | None \<Rightarrow> False)"
    using assms by (auto simp: validate_url_def Let_def split: sum.splits if_splits option.splits)
  define port where "port = (case url_port u of Some p \<Rightarrow> p
      | None \<Rightarrow> (case known_port net (url_scheme u) of Some p \<Rightarrow> p | None \<Rightarrow> 443))"
  have "\<forall>ip \<in> set addrs. \<not> is_disallowed_ip ip" if "resolve net h port = Some addrs" for addrs
    using assms h that unfolding port_def by (auto simp: validate_url_def Let_def find_None_iff split: if_splits option.splits)
  then show ?thesis using h by (auto simp: is_disallowed_ip_def split: option.splits)
qed

definition public_net :: net_env where
  "public_net = \<lparr>url_parse = \<lambda>s. Inr \<lparr>url_scheme = ''https'', url_host = Some s, url_port = None, url_username = [],
       url_password = None, url_query = []\<rparr>, ip_parse = \<lambda>s. None, known_port = \<lambda>s. Some 443,
     resolve = \<lambda>h p. if h = ''[::ffff:127.0.0.1]'' then Some [v4_mapped 127 0 0 1] else Some [V4 93 184 216 34], show_ip = \<lambda>i. []\<rparr>"

lemma public_ok: "\<exists>u. validate_url public_net ''example.org'' = Inr u"
  by (simp add: validate_url_def public_net_def Let_def is_disallowed_ip_def v4_is_private_def ends_with_def lowercase_def lower_char_def is_upper_def)

theorem url_validation_sound_witness:
  "\<exists>u. validate_url public_net ''example.org'' = Inr u \<and> url_scheme u = ''https''"
  using public_ok url_validation_sound by blast

text \<open>The IPv4-mapped IPv6 form of a loopback or private IPv4 address is in none of the refused classes, so a URL whose host is such an address passes the
  validation although the address reaches the local machine.
\<close>

theorem mapped_addresses_pass:
  "\<not> is_disallowed_ip (v4_mapped a b c d) \<and> is_disallowed_ip (V4 127 0 0 1) \<and> (\<exists>u. validate_url public_net ''[::ffff:127.0.0.1]'' = Inr u)"
proof -
  have mapped: "\<not> is_disallowed_ip (v4_mapped a b c d)" for a b c d
    by (simp add: is_disallowed_ip_def v4_mapped_def v6_is_unique_local_def v6_is_unicast_link_local_def v6_is_multicast_def)
  moreover have "\<exists>u. validate_url public_net ''[::ffff:127.0.0.1]'' = Inr u"
    using mapped [of 127 0 0 1]
    by (simp add: validate_url_def public_net_def Let_def ends_with_def lowercase_def lower_char_def is_upper_def)
  ultimately show ?thesis by (simp add: is_disallowed_ip_def)
qed

lemma read_body_bounded: "read_body fmt body chunks = Inr b \<Longrightarrow> length body \<le> MAX_RESPONSE_SIZE \<Longrightarrow>
    length b \<le> MAX_RESPONSE_SIZE \<and> b = body @ concat (map projr chunks) \<and> list_all is_ok chunks"
  by (induction fmt body chunks rule: read_body.induct) (auto split: if_splits)

text \<open>A response that is accepted is no redirect, and its body is the concatenation of all chunks, none of which failed, and
  stays within the size limit whatever length the server declared.
\<close>

theorem response_bounded:
  assumes "accept_response fmt status content_length chunks = Inr body"
  shows "length body \<le> MAX_RESPONSE_SIZE \<and> body = concat (map projr chunks) \<and> list_all is_ok chunks \<and> \<not> (300 \<le> status \<and> status < 400)"
  using assms read_body_bounded [of fmt "[]" chunks body] by (auto simp: accept_response_def split: if_splits)

theorem response_bounded_witness:
  "accept_response (\<lambda>n. []) 200 None [Inr ''ab'', Inr ''c''] = Inr ''abc'' \<and> length ''abc'' \<le> MAX_RESPONSE_SIZE"
proof -
  have "accept_response (\<lambda>n. []) 200 None [Inr ''ab'', Inr ''c''] = Inr ''abc''"
    by (simp add: accept_response_def MAX_RESPONSE_SIZE_def)
  then show ?thesis using response_bounded by blast
qed

text \<open>Arguments with credentials always need explicit approval: a credential header in either form of the headers, a
  credential query parameter, or user information in the URL makes the requirement \<open>Always\<close>, which no session approval
  bypasses.
\<close>

theorem manual_credentials_need_approval:
  assumes "json_get params ''headers'' = Some (JObject m) \<and> (k, v) \<in> set m \<and> header_name_is_credential k \<or>
    json_get params ''headers'' = Some (JArray items) \<and> item \<in> set items \<and> json_get item ''name'' = Some (JString n) \<and>
      header_name_is_credential n \<or>
    param_url net params = Some u \<and> ((q, x) \<in> set (url_query u) \<and> query_param_is_credential q \<or> url_username u \<noteq> [])"
  shows "http_requires_approval net creds params = Always"
  using assms unfolding http_requires_approval_def params_contain_manual_credentials_def headers_contain_credentials_def
    url_contains_credential_params_def url_contains_userinfo_def
  by (auto simp: list_ex_iff str_satisfies_def as_str_def) (fastforce simp: list_ex_iff str_satisfies_def as_str_def)+

theorem manual_credentials_need_approval_witness:
  "http_requires_approval public_net None (JObject [(''url'', JString ''example.org''),
     (''headers'', JObject [(''X-My-Token'', JString ''abc'')])]) = Always"
proof -
  have "json_get (JObject [(''url'', JString ''example.org''), (''headers'', JObject [(''X-My-Token'', JString ''abc'')])]) ''headers'' =
      Some (JObject [(''X-My-Token'', JString ''abc'')])" by (simp add: json_get_def)
  moreover have "header_name_is_credential ''X-My-Token''" by code_simp
  ultimately show ?thesis
    using manual_credentials_need_approval [where m = "[(''X-My-Token'', JString ''abc'')]" and k = "''X-My-Token''" and v = "JString ''abc''"]
    by simp
qed

end
