(* ===== verification/File_Tools.thy ===== *)
theory File_Tools
  imports Tool_Types Network_Policy
begin

text \<open>
  The file tools (\<open>src/tools/builtin/file.rs\<close>): path validation against a base directory, the scope of the active matter,
  the size limits, the selection of lines and the replacement of text. A path is its list of components, as
  \<open>Path::components\<close> yields them. What the operating system answers is the record \<open>os_fs\<close> with the laws of the locale
  \<open>file_system\<close>; \<open>tree_os\<close> is a file system with symbolic links that satisfies them.
\<close>

section \<open>Paths\<close>

datatype component = RootDir | CurDir | ParentDir | Normal string

type_synonym path = "component list"

definition component_of :: "string \<Rightarrow> component" where
  "component_of s = (if s = ''..'' then ParentDir else Normal s)"

text \<open>\<open>Path::components\<close> on Unix: repeated separators and inner \<open>.\<close> vanish, a leading \<open>.\<close> stays.\<close>

definition components :: "string \<Rightarrow> path" where
  "components s =
     (let parts = split_on (CHR ''/'') s;
          body = map component_of (filter (\<lambda>p. p \<noteq> [] \<and> p \<noteq> ''.'') parts)
      in if starts_with s ''/'' then RootDir # body
         else if hd parts = ''.'' then CurDir # body else body)"

definition is_absolute :: "path \<Rightarrow> bool" where
  "is_absolute p \<longleftrightarrow> p \<noteq> [] \<and> hd p = RootDir"

definition join :: "path \<Rightarrow> path \<Rightarrow> path" where
  "join p q = (if is_absolute q then q else p @ filter (\<lambda>c. c \<noteq> CurDir) q)"

definition file_name :: "path \<Rightarrow> string option" where
  "file_name p = (if p = [] then None else case last p of Normal s \<Rightarrow> Some s | _ \<Rightarrow> None)"

definition parent :: "path \<Rightarrow> path option" where
  "parent p = (if p = [] \<or> p = [RootDir] then None else Some (butlast p))"

fun is_normal :: "component \<Rightarrow> bool" where
  "is_normal (Normal s) = True"
| "is_normal _ = False"

definition push_component :: "path \<Rightarrow> component \<Rightarrow> path" where
  "push_component acc c =
     (case c of
        ParentDir \<Rightarrow> if acc \<noteq> [] \<and> is_normal (last acc) then butlast acc else acc
      | CurDir \<Rightarrow> acc
      | other \<Rightarrow> acc @ [other])"

definition normalize_lexical :: "path \<Rightarrow> path" where
  "normalize_lexical p = foldl push_component [] p"

section \<open>Validation\<close>

record os_fs =
  canonicalize :: "path \<Rightarrow> path option"
  path_exists_os :: "path \<Rightarrow> bool"
  current_dir :: "path option"

definition canonical_or :: "os_fs \<Rightarrow> path \<Rightarrow> path \<Rightarrow> path" where
  "canonical_or os p d = (case canonicalize os p of Some q \<Rightarrow> q | None \<Rightarrow> d)"

text \<open>The walk up to the nearest existing ancestor, whose canonical form the remaining names are appended to.\<close>

function locate :: "os_fs \<Rightarrow> path \<Rightarrow> path \<Rightarrow> string list \<Rightarrow> path" where
  "locate os resolved ancestor tail =
     (if path_exists_os os ancestor then canonical_or os ancestor ancestor @ map Normal tail
      else let tail' = (case file_name ancestor of Some n \<Rightarrow> n # tail | None \<Rightarrow> tail)
           in case parent ancestor of
                Some p \<Rightarrow> locate os resolved p tail'
              | None \<Rightarrow> resolved)"
  by pat_completeness auto
termination
  by (relation "measure (\<lambda>(os, resolved, ancestor, tail). length ancestor)") (auto simp: parent_def split: if_splits)

declare locate.simps [simp del]

definition resolve_path :: "os_fs \<Rightarrow> path \<Rightarrow> path option \<Rightarrow> path" where
  "resolve_path os p base_dir =
     (if is_absolute p then canonical_or os p (normalize_lexical p)
      else case base_dir of
        Some base \<Rightarrow> canonical_or os (join base p) (normalize_lexical (join base p))
      | None \<Rightarrow> normalize_lexical (join (case current_dir os of Some d \<Rightarrow> d | None \<Rightarrow> [CurDir]) p))"

definition check_path :: "os_fs \<Rightarrow> path \<Rightarrow> path" where
  "check_path os resolved =
     (if path_exists_os os resolved then canonical_or os resolved resolved else locate os resolved resolved [])"

definition validate_path :: "os_fs \<Rightarrow> string \<Rightarrow> path option \<Rightarrow> tool_error + path" where
  "validate_path os path_str base_dir =
     (let resolved = resolve_path os (components path_str) base_dir
      in case base_dir of
           None \<Rightarrow> Inr resolved
         | Some base \<Rightarrow>
             if prefix (canonical_or os base (normalize_lexical base)) (check_path os resolved) then Inr resolved
             else Inl (NotAuthorized (''Path escapes sandbox: '' @ path_str)))"

section \<open>Writing, reading, patching\<close>

definition WORKSPACE_FILES :: "string list" where
  "WORKSPACE_FILES = [''HEARTBEAT.md'', ''MEMORY.md'', ''IDENTITY.md'', ''SOUL.md'', ''AGENTS.md'', ''USER.md'', ''README.md'']"

definition is_workspace_path :: "string \<Rightarrow> bool" where
  "is_workspace_path p \<longleftrightarrow>
     (case file_name (components p) of Some n \<Rightarrow> n | None \<Rightarrow> p) \<in> set WORKSPACE_FILES \<or>
     starts_with p ''daily/'' \<or> starts_with p ''context/''"

definition MAX_READ_SIZE :: nat where "MAX_READ_SIZE = 1024 * 1024"
definition MAX_WRITE_SIZE :: nat where "MAX_WRITE_SIZE = 5 * 1024 * 1024"

text \<open>\<open>Path::display\<close>.\<close>

fun show_component :: "component \<Rightarrow> string" where
  "show_component RootDir = []"
| "show_component CurDir = ''.''"
| "show_component ParentDir = ''..''"
| "show_component (Normal s) = s"

definition display :: "path \<Rightarrow> string" where
  "display p = (if p = [RootDir] then ''/'' else join_with ''/'' (map show_component p))"

text \<open>The legal settings \<open>write_file\<close> consults.\<close>

record legal_scope =
  ls_enabled :: bool
  ls_require_matter :: bool
  ls_active_matter :: "string option"
  ls_matter_root :: string

definition matter_prefix :: "legal_scope \<Rightarrow> string \<Rightarrow> string" where
  "matter_prefix l matter_id = trim_matches (CHR ''/'') (ls_matter_root l) @ ''/'' @ sanitize_matter_id matter_id"

definition scope_root :: "os_fs \<Rightarrow> path option \<Rightarrow> legal_scope \<Rightarrow> string \<Rightarrow> path" where
  "scope_root os base_dir l matter_id =
     (let root = (case base_dir of Some b \<Rightarrow> b | None \<Rightarrow> (case current_dir os of Some d \<Rightarrow> d | None \<Rightarrow> [CurDir]))
      in normalize_lexical (join root (components (matter_prefix l matter_id))))"

definition matter_scope_check :: "os_fs \<Rightarrow> path option \<Rightarrow> legal_scope option \<Rightarrow> path \<Rightarrow> tool_error option" where
  "matter_scope_check os base_dir legal p =
     (case legal of
        None \<Rightarrow> None
      | Some l \<Rightarrow>
          if \<not> (ls_enabled l \<and> ls_require_matter l) then None
          else (case ls_active_matter l of
                  None \<Rightarrow> Some (NotAuthorized ''No active matter selected. Re-run with --matter <matter_id>.'')
                | Some m \<Rightarrow>
                    let matter_id = trim m
                    in if matter_id = [] then Some (NotAuthorized ''Active matter is empty. Re-run with --matter <matter_id>.'')
                       else let scope = scope_root os base_dir l matter_id
                            in if prefix scope p then None
                               else Some (NotAuthorized (''Write blocked: '' @ quoted (display p) @
                                      '' is outside active matter scope '' @ quoted (display scope)))))"

text \<open>The decision of \<open>write_file\<close>: the error, or the path and content it writes; \<open>fmt\<close> renders numbers.\<close>

definition write_file_decision ::
  "(nat \<Rightarrow> string) \<Rightarrow> os_fs \<Rightarrow> path option \<Rightarrow> legal_scope option \<Rightarrow> json_value \<Rightarrow> tool_error + path \<times> string" where
  "write_file_decision fmt os base_dir legal params =
     (case require_str params ''path'' of
        Inl e \<Rightarrow> Inl e
      | Inr path_str \<Rightarrow>
          if is_workspace_path path_str
          then Inl (InvalidParameters (quoted path_str @ '' is a workspace memory file. Use the memory_write tool instead of write_file. '' @
                 ''For HEARTBEAT.md use target='' @ quoted ''heartbeat'' @ '', for MEMORY.md use target='' @ quoted ''memory'' @ ''.''))
          else (case require_str params ''content'' of
                  Inl e \<Rightarrow> Inl e
                | Inr content \<Rightarrow>
                    if length content > MAX_WRITE_SIZE
                    then Inl (InvalidParameters (''Content too large ('' @ fmt (length content) @ '' bytes). Maximum is '' @
                           fmt MAX_WRITE_SIZE @ '' bytes.''))
                    else (case validate_path os path_str base_dir of
                            Inl e \<Rightarrow> Inl e
                          | Inr p \<Rightarrow> (case matter_scope_check os base_dir legal p of Some e \<Rightarrow> Inl e | None \<Rightarrow> Inr (p, content)))))"

text \<open>The selection of \<open>read_file\<close> from the lines of a file: the slice \<open>lines[start_line..end_line]\<close> panics, which is \<open>None\<close>,
  when it starts after its end. The sum wraps around at 64 bits.\<close>

definition select_lines :: "nat \<Rightarrow> nat option \<Rightarrow> string list \<Rightarrow> string list option" where
  "select_lines offset lim_opt lines =
     (let total_lines = length lines;
          start_line = (if offset > 0 then offset - 1 else 0);
          end_line = (case lim_opt of Some l \<Rightarrow> min ((start_line + l) mod 2 ^ 64) total_lines | None \<Rightarrow> total_lines)
      in if start_line \<le> end_line then Some (take (end_line - start_line) (drop start_line lines)) else None)"

text \<open>\<open>str::replacen\<close> with count one and \<open>str::replace\<close>, for a non-empty pattern.\<close>

fun replace_first :: "string \<Rightarrow> string \<Rightarrow> string \<Rightarrow> string" where
  "replace_first old new [] = []"
| "replace_first old new (c # s) =
     (if starts_with (c # s) old then new @ drop (length old) (c # s) else c # replace_first old new s)"

fun replace_all :: "string \<Rightarrow> string \<Rightarrow> string \<Rightarrow> string" where
  "replace_all old new [] = []"
| "replace_all old new (c # s) =
     (if starts_with (c # s) old then new @ replace_all old new (drop (length old - 1) s) else c # replace_all old new s)"

definition patch_content :: "path \<Rightarrow> string \<Rightarrow> string \<Rightarrow> bool \<Rightarrow> string \<Rightarrow> tool_error + string" where
  "patch_content p old new every content =
     (if \<not> str_contains content old
      then Inl (ExecutionFailed (''Could not find the specified text in '' @ display p @ ''. Make sure old_string matches exactly.''))
      else if old = []
      then Inr (if every then new @ concat (map (\<lambda>c. c # new) content) else new @ content)
      else Inr (if every then replace_all old new content else replace_first old new content))"

text \<open>The decision of \<open>apply_patch\<close>, with \<open>read\<close> for reading the file.\<close>

definition apply_patch_decision ::
  "os_fs \<Rightarrow> path option \<Rightarrow> (path \<Rightarrow> string + string) \<Rightarrow> json_value \<Rightarrow> tool_error + path \<times> string" where
  "apply_patch_decision os base_dir read params =
     (case require_str params ''path'' of Inl e \<Rightarrow> Inl e | Inr path_str \<Rightarrow>
      (case require_str params ''old_string'' of Inl e \<Rightarrow> Inl e | Inr old \<Rightarrow>
       (case require_str params ''new_string'' of Inl e \<Rightarrow> Inl e | Inr new \<Rightarrow>
        (case validate_path os path_str base_dir of Inl e \<Rightarrow> Inl e | Inr p \<Rightarrow>
         (case read p of
            Inl e \<Rightarrow> Inl (ExecutionFailed (''Failed to read file: '' @ e))
          | Inr content \<Rightarrow>
              (case patch_content p old new (Option.bind (json_get params ''replace_all'') as_bool = Some True) content of
                 Inl e \<Rightarrow> Inl e
               | Inr content' \<Rightarrow> Inr (p, content')))))))"

section \<open>File systems\<close>


text \<open>A tree of directories, files and symbolic links to absolute paths, and its resolution; a path that needs too many steps
  does not resolve.\<close>

datatype node = DirN | FileN | LinkN "string list"

fun walk :: "(string list \<Rightarrow> node option) \<Rightarrow> nat \<Rightarrow> string list \<Rightarrow> path \<Rightarrow> string list option" where
  "walk t 0 cur cs = None"
| "walk t (Suc n) cur [] = Some cur"
| "walk t (Suc n) cur (RootDir # cs) = walk t n [] cs"
| "walk t (Suc n) cur (CurDir # cs) = walk t n cur cs"
| "walk t (Suc n) cur (ParentDir # cs) = walk t n (butlast cur) cs"
| "walk t (Suc n) cur (Normal s # cs) =
     (case t (cur @ [s]) of
        None \<Rightarrow> None
      | Some DirN \<Rightarrow> walk t n (cur @ [s]) cs
      | Some FileN \<Rightarrow> if cs = [] then Some (cur @ [s]) else None
      | Some (LinkN q) \<Rightarrow> walk t n [] (map Normal q @ cs))"

definition tree_resolve :: "(string list \<Rightarrow> node option) \<Rightarrow> path \<Rightarrow> string list option" where
  "tree_resolve t p = walk t (length p + 40) [] p"

definition tree_os :: "(string list \<Rightarrow> node option) \<Rightarrow> os_fs" where
  "tree_os t = \<lparr>canonicalize = \<lambda>p. map_option (\<lambda>ns. RootDir # map Normal ns) (tree_resolve t p),
     path_exists_os = \<lambda>p. tree_resolve t p \<noteq> None, current_dir = Some [RootDir]\<rparr>"

text \<open>Where a write creates or replaces a file: through links, also through a link whose target does not exist yet.\<close>

fun write_target :: "(string list \<Rightarrow> node option) \<Rightarrow> nat \<Rightarrow> path \<Rightarrow> string list option" where
  "write_target t n p =
     (case tree_resolve t p of
        Some q \<Rightarrow> Some q
      | None \<Rightarrow>
          (case (file_name p, tree_resolve t (butlast p)) of
             (Some f, Some d) \<Rightarrow>
               (case t (d @ [f]) of
                  None \<Rightarrow> Some (d @ [f])
                | Some (LinkN q) \<Rightarrow> (case n of 0 \<Rightarrow> None | Suc n' \<Rightarrow> write_target t n' (RootDir # map Normal q))
                | Some _ \<Rightarrow> None)
           | _ \<Rightarrow> None))"

declare write_target.simps [simp del]


section \<open>Confinement\<close>



definition demo_tree :: "string list \<Rightarrow> node option" where
  "demo_tree = map_of [([''base''], DirN), ([''base'', ''notes''], DirN), ([''base'', ''up''], LinkN [''base'']),
     ([''base'', ''out''], LinkN [''etc'', ''new'']), ([''etc''], DirN)]"

definition demo_base :: path where
  "demo_base = [RootDir, Normal ''base'']"



text \<open>The check is not enough when the final component is a symbolic link whose target does not exist: such a path does
  not exist for the check, which then looks at its parent only and accepts it, while the write goes through the link
  and creates a file outside the base directory.
\<close>

theorem dangling_link_escapes:
  "\<exists>r. validate_path (tree_os demo_tree) ''out'' (Some demo_base) = Inr r \<and>
     write_target demo_tree 1 r = Some [''etc'', ''new''] \<and> \<not> prefix [''base''] [''etc'', ''new'']"
proof -
  have "validate_path (tree_os demo_tree) ''out'' (Some demo_base) = Inr [RootDir, Normal ''base'', Normal ''out'']" by code_simp
  moreover have "write_target demo_tree 1 [RootDir, Normal ''base'', Normal ''out''] = Some [''etc'', ''new'']" by code_simp
  ultimately show ?thesis by simp
qed

section \<open>Matter scope\<close>

text \<open>When the legal profile requires a matter, \<open>write_file\<close> writes only below the active matter's directory: without
  an active matter it writes nothing, and a path it accepts starts with the matter's scope. It never writes more than the size
  limit and never onto a workspace memory file.
\<close>

theorem write_file_scoped:
  assumes "write_file_decision fmt os base_dir legal params = Inr (p, content)"
  shows "(case legal of
       None \<Rightarrow> True
     | Some l \<Rightarrow> ls_enabled l \<and> ls_require_matter l \<longrightarrow>
         (\<exists>m. ls_active_matter l = Some m \<and> trim m \<noteq> [] \<and> prefix (scope_root os base_dir l (trim m)) p)) \<and>
    length content \<le> MAX_WRITE_SIZE \<and>
    (\<exists>s. json_get params ''path'' = Some (JString s) \<and> \<not> is_workspace_path s \<and> validate_path os s base_dir = Inr p)"
proof -
  obtain s where s: "require_str params ''path'' = Inr s" "\<not> is_workspace_path s" "require_str params ''content'' = Inr content"
    "\<not> length content > MAX_WRITE_SIZE" "validate_path os s base_dir = Inr p" "matter_scope_check os base_dir legal p = None"
    using assms by (auto simp: write_file_decision_def split: sum.splits if_splits option.splits)
  moreover have "case legal of None \<Rightarrow> True | Some l \<Rightarrow> ls_enabled l \<and> ls_require_matter l \<longrightarrow>
         (\<exists>m. ls_active_matter l = Some m \<and> trim m \<noteq> [] \<and> prefix (scope_root os base_dir l (trim m)) p)"
    using s(6) by (auto simp: matter_scope_check_def Let_def split: option.splits if_splits)
  ultimately show ?thesis by (auto simp: require_str_ok)
qed

definition demo_scope :: legal_scope where
  "demo_scope = \<lparr>ls_enabled = True, ls_require_matter = True, ls_active_matter = Some ''acme'', ls_matter_root = ''matters''\<rparr>"

definition demo_write :: "string \<Rightarrow> json_value" where
  "demo_write s = JObject [(''path'', JString s), (''content'', JString ''x''), (''old_string'', JString ''a''), (''new_string'', JString ''b'')]"

definition flat_os :: os_fs where
  "flat_os = tree_os (map_of [([''matters''], DirN), ([''matters'', ''acme''], DirN), ([''matters'', ''rival''], DirN),
     ([''matters'', ''rival'', ''memo.md''], FileN)])"

lemma demo_scoped_write:
  "write_file_decision (\<lambda>n. []) flat_os None (Some demo_scope) (demo_write ''matters/acme/memo.md'') =
     Inr ([RootDir, Normal ''matters'', Normal ''acme'', Normal ''memo.md''], ''x'')"
proof -
  have "validate_path flat_os ''matters/acme/memo.md'' None = Inr [RootDir, Normal ''matters'', Normal ''acme'', Normal ''memo.md'']"
    "\<not> is_workspace_path ''matters/acme/memo.md''"
    "matter_scope_check flat_os None (Some demo_scope) [RootDir, Normal ''matters'', Normal ''acme'', Normal ''memo.md''] = None"
    by code_simp+
  then show ?thesis
    by (simp add: write_file_decision_def demo_write_def require_str_def json_get_def as_str_def MAX_WRITE_SIZE_def)
qed

theorem write_file_scoped_witness:
  "\<exists>p. write_file_decision (\<lambda>n. []) flat_os None (Some demo_scope) (demo_write ''matters/acme/memo.md'') = Inr (p, ''x'') \<and>
     prefix (scope_root flat_os None demo_scope ''acme'') p"
proof -
  have t: "trim ''acme'' = ''acme''" by code_simp
  show ?thesis using write_file_scoped [OF demo_scoped_write] demo_scoped_write t by (simp add: demo_scope_def)
qed

text \<open>\<open>apply_patch\<close> has no such scope. With a matter required and active, \<open>write_file\<close> refuses a file of another matter, and
  \<open>apply_patch\<close> rewrites the same file.
\<close>

theorem apply_patch_ignores_matter:
  "(\<exists>e. write_file_decision (\<lambda>n. []) flat_os None (Some demo_scope) (demo_write ''matters/rival/memo.md'') = Inl e) \<and>
   apply_patch_decision flat_os None (\<lambda>p. Inr ''abc'') (demo_write ''matters/rival/memo.md'') =
     Inr ([RootDir, Normal ''matters'', Normal ''rival'', Normal ''memo.md''], ''bbc'')"
proof -
  have v: "validate_path flat_os ''matters/rival/memo.md'' None = Inr [RootDir, Normal ''matters'', Normal ''rival'', Normal ''memo.md'']"
    "matter_scope_check flat_os None (Some demo_scope) [RootDir, Normal ''matters'', Normal ''rival'', Normal ''memo.md''] \<noteq> None"
    by code_simp+
  have "apply_patch_decision flat_os None (\<lambda>p. Inr ''abc'') (demo_write ''matters/rival/memo.md'') =
     Inr ([RootDir, Normal ''matters'', Normal ''rival'', Normal ''memo.md''], ''bbc'')"
    by code_simp
  then show ?thesis using v
    by (auto simp: write_file_decision_def demo_write_def require_str_def json_get_def as_str_def split: option.splits)
qed

section \<open>Reading lines\<close>

text \<open>\<open>read_file\<close> returns the lines from the offset on, as many as asked for, when the offset is within the file or just
  after its end; an offset further out makes the slice start after its end, which panics.
\<close>

theorem read_lines_exact:
  assumes "offset < 2 ^ 63" and "\<forall>l. lim_opt = Some l \<longrightarrow> l < 2 ^ 63"
  shows "select_lines offset lim_opt lines =
    (if offset \<le> length lines + 1
     then Some (case lim_opt of Some l \<Rightarrow> take l (drop (offset - 1) lines) | None \<Rightarrow> drop (offset - 1) lines)
     else None)"
proof (cases lim_opt)
  case None
  then show ?thesis by (auto simp: select_lines_def Let_def)
next
  case (Some l)
  then have "(offset - 1 + l) mod 2 ^ 64 = offset - 1 + l" using assms by simp
  then show ?thesis using Some by (auto simp: select_lines_def Let_def min_def take_all_iff)
qed

theorem read_lines_exact_witness:
  "select_lines 9 (Some 2) [''a'', ''b''] = None \<and> select_lines 2 (Some 5) [''a'', ''b''] = Some [''b'']"
  using read_lines_exact [of 9 "Some 2" "[''a'', ''b'']"] read_lines_exact [of 2 "Some 5" "[''a'', ''b'']"] by simp

end
