(* ===== verification/Safety_Validator.thy ===== *)
theory Safety_Validator
  imports File_Tools
begin

text \<open>
  The input validator (\<open>src/safety/validator.rs\<close>): validation of texts and of all strings in a tool's parameters, and how it
  meets the file tools. The set of forbidden patterns is a list in some order; \<open>fmt\<close> renders numbers. The comparison of the
  floating-point ratio with 0.9 is exact on rationals up to rounding of the division, which is not modelled.
\<close>

datatype validation_error_code =
  Empty | TooLong | TooShort | InvalidFormat | ForbiddenContent | InvalidEncoding | SuspiciousPattern

record validation_error =
  ve_field :: string
  ve_message :: string
  ve_code :: validation_error_code

record validation_result =
  is_valid :: bool
  errors :: "validation_error list"
  warnings :: "string list"

definition vr_ok :: validation_result where
  "vr_ok = \<lparr>is_valid = True, errors = [], warnings = []\<rparr>"

definition vr_error :: "validation_error \<Rightarrow> validation_result" where
  "vr_error e = \<lparr>is_valid = False, errors = [e], warnings = []\<rparr>"

definition with_warning :: "string \<Rightarrow> validation_result \<Rightarrow> validation_result" where
  "with_warning w r = r\<lparr>warnings := warnings r @ [w]\<rparr>"

definition vr_merge :: "validation_result \<Rightarrow> validation_result \<Rightarrow> validation_result" where
  "vr_merge a b = \<lparr>is_valid = is_valid a \<and> is_valid b, errors = errors a @ errors b, warnings = warnings a @ warnings b\<rparr>"

record validator =
  max_length :: nat
  min_length :: nat
  forbidden_patterns :: "string list"

definition new_validator :: validator where
  "new_validator = \<lparr>max_length = 100000, min_length = 1, forbidden_patterns = []\<rparr>"

definition forbid_pattern :: "string \<Rightarrow> validator \<Rightarrow> validator" where
  "forbid_pattern p v = v\<lparr>forbidden_patterns := List.insert (lowercase p) (forbidden_patterns v)\<rparr>"

text \<open>The loop over the characters: the previous one, the current and the longest repetition.\<close>

fun longest_repeat :: "char \<Rightarrow> nat \<Rightarrow> nat \<Rightarrow> string \<Rightarrow> nat" where
  "longest_repeat prev current mx [] = mx"
| "longest_repeat prev current mx (c # s) =
     (if c = prev then longest_repeat c (current + 1) (max mx (current + 1)) s else longest_repeat c 1 mx s)"

definition has_excessive_repetition :: "string \<Rightarrow> bool" where
  "has_excessive_repetition s \<longleftrightarrow> length s \<ge> 50 \<and> longest_repeat (hd s) 1 1 (tl s) > 20"

definition input_error :: "string \<Rightarrow> validation_error_code \<Rightarrow> validation_result" where
  "input_error m c = vr_error \<lparr>ve_field = ''input'', ve_message = m, ve_code = c\<rparr>"

definition check :: "bool \<Rightarrow> validation_result \<Rightarrow> validation_result \<Rightarrow> validation_result" where
  "check b e r = (if b then vr_merge r e else r)"

definition validate :: "(nat \<Rightarrow> string) \<Rightarrow> validator \<Rightarrow> string \<Rightarrow> validation_result" where
  "validate fmt v input =
     (if input = [] then input_error ''Input cannot be empty'' Empty
      else
        let lower_input = lowercase input;
            r1 = check (length input > max_length v)
              (input_error (''Input too long: '' @ fmt (length input) @ '' bytes (max '' @ fmt (max_length v) @ '')'') TooLong) vr_ok;
            r2 = check (length input < min_length v)
              (input_error (''Input too short: '' @ fmt (length input) @ '' bytes (min '' @ fmt (min_length v) @ '')'') TooShort) r1;
            r3 = check (CHR 0x00 \<in> set input) (input_error ''Input contains null bytes'' InvalidEncoding) r2;
            r4 = fold (\<lambda>p. check (str_contains lower_input p)
              (input_error (''Input contains forbidden pattern: '' @ p) ForbiddenContent)) (forbidden_patterns v) r3;
            spaces = length (filter is_ws input);
            r5 = (if 10 * spaces > 9 * length input \<and> length input > 100
                  then with_warning ''Input has unusually high whitespace ratio'' r4 else r4)
        in if has_excessive_repetition input then with_warning ''Input has excessive character repetition'' r5 else r5)"

fun check_strings :: "(nat \<Rightarrow> string) \<Rightarrow> validator \<Rightarrow> json_value \<Rightarrow> validation_result \<Rightarrow> validation_result" where
  "check_strings fmt v (JString s) r = vr_merge r (validate fmt v s)"
| "check_strings fmt v (JArray xs) r = fold (\<lambda>x. check_strings fmt v x) xs r"
| "check_strings fmt v (JObject m) r = fold (\<lambda>kv. check_strings fmt v (snd kv)) m r"
| "check_strings fmt v _ r = r"

definition validate_tool_params :: "(nat \<Rightarrow> string) \<Rightarrow> validator \<Rightarrow> json_value \<Rightarrow> validation_result" where
  "validate_tool_params fmt v params = check_strings fmt v params vr_ok"

section \<open>What is valid\<close>

lemma check_valid [simp]: "is_valid (check b e r) \<longleftrightarrow> (if b then is_valid r \<and> is_valid e else is_valid r)"
  by (simp add: check_def vr_merge_def)

lemma input_error_invalid [simp]: "\<not> is_valid (input_error m c)"
  by (simp add: input_error_def vr_error_def)

lemma vr_ok_valid [simp]: "is_valid vr_ok"
  by (simp add: vr_ok_def)

lemma with_warning_valid [simp]: "is_valid (with_warning w r) = is_valid r"
  by (simp add: with_warning_def)

lemma fold_check_valid:
  "is_valid (fold (\<lambda>p. check (P p) (input_error (m p) c)) ps r) \<longleftrightarrow> is_valid r \<and> (\<forall>p \<in> set ps. \<not> P p)"
  by (induction ps arbitrary: r) auto

lemma validate_valid:
  "is_valid (validate fmt v s) \<longleftrightarrow> s \<noteq> [] \<and> length s \<le> max_length v \<and> min_length v \<le> length s \<and> CHR 0x00 \<notin> set s \<and>
     (\<forall>p \<in> set (forbidden_patterns v). \<not> str_contains (lowercase s) p)"
  by (auto simp: validate_def Let_def fold_check_valid)

text \<open>All strings in a JSON value.\<close>

fun json_strings :: "json_value \<Rightarrow> string set" where
  "json_strings (JString s) = {s}"
| "json_strings (JArray xs) = (\<Union>x \<in> set xs. json_strings x)"
| "json_strings (JObject m) = (\<Union>kv \<in> set m. json_strings (snd kv))"
| "json_strings _ = {}"

lemma fold_valid_iff:
  assumes "\<And>x r. x \<in> set xs \<Longrightarrow> is_valid (f x r) \<longleftrightarrow> is_valid r \<and> P x"
  shows "is_valid (fold f xs r) \<longleftrightarrow> is_valid r \<and> (\<forall>x \<in> set xs. P x)"
  using assms by (induction xs arbitrary: r) auto

lemma check_strings_valid:
  "is_valid (check_strings fmt v x r) \<longleftrightarrow> is_valid r \<and> (\<forall>s \<in> json_strings x. is_valid (validate fmt v s))"
proof (induction x arbitrary: r)
  case (JArray xs)
  then show ?case by (simp add: fold_valid_iff [where P = "\<lambda>x. \<forall>s \<in> json_strings x. is_valid (validate fmt v s)"])
next
  case (JObject m)
  have "is_valid (fold (\<lambda>kv. check_strings fmt v (snd kv)) m r) \<longleftrightarrow>
      is_valid r \<and> (\<forall>kv \<in> set m. \<forall>s \<in> json_strings (snd kv). is_valid (validate fmt v s))"
    using JObject by (intro fold_valid_iff) (metis prod.collapse snds.intros)
  then show ?case by simp
qed (simp_all add: vr_merge_def)

text \<open>Tool parameters are valid exactly when every string in them, at any depth, is not empty, within the length bounds, free of
  null bytes and of the forbidden patterns.
\<close>

theorem tool_params_valid_iff:
  "is_valid (validate_tool_params fmt v params) \<longleftrightarrow>
     (\<forall>s. s \<notin> json_strings params \<or> s \<noteq> [] \<and> length s \<le> max_length v \<and> min_length v \<le> length s \<and> CHR 0x00 \<notin> set s \<and>
        (\<forall>p \<in> set (forbidden_patterns v). \<not> str_contains (lowercase s) p))"
  by (auto simp: validate_tool_params_def check_strings_valid validate_valid)

text \<open>The default validator refuses calls the file tools are made for: a patch that deletes text, because its replacement is the
  empty string, and a file of more than 100000 bytes, although \<open>write_file\<close> takes up to five megabytes.
\<close>

theorem validator_refuses_file_tools:
  "\<not> is_valid (validate_tool_params fmt new_validator
      (JObject [(''path'', JString ''a''), (''old_string'', JString ''b''), (''new_string'', JString [])])) \<and>
   patch_content p ''b'' [] False ''abc'' = Inr ''ac'' \<and>
   (\<exists>content. length content \<le> MAX_WRITE_SIZE \<and>
     \<not> is_valid (validate_tool_params fmt new_validator (JObject [(''path'', JString ''a''), (''content'', JString content)])))"
proof (intro conjI)
  show "patch_content p ''b'' [] False ''abc'' = Inr ''ac''" by (simp add: patch_content_def starts_with_def)
  show "\<exists>content. length content \<le> MAX_WRITE_SIZE \<and>
     \<not> is_valid (validate_tool_params fmt new_validator (JObject [(''path'', JString ''a''), (''content'', JString content)]))"
    by (rule exI [of _ "replicate 100001 (CHR ''x'')"])
      (simp add: validate_tool_params_def check_strings_valid validate_valid MAX_WRITE_SIZE_def new_validator_def del: check_strings.simps)
qed (simp add: validate_tool_params_def check_strings_valid validate_valid del: check_strings.simps)

end
