(* ===== verification/Conflict_Text.thy ===== *)
theory Conflict_Text
  imports Tool_Types
begin

text \<open>
  Matching names in free text for conflict checks: the normalisation of names and texts, the search for a term at word
  boundaries and the lists of adverse parties (\<open>src/legal/matter.rs\<close>), and the candidate terms and the trigram
  similarity of the database check (\<open>src/db/mod.rs\<close>).
\<close>

section \<open>Normalisation\<close>

fun norm_loop :: "bool \<Rightarrow> string \<Rightarrow> string" where
  "norm_loop sep [] = []"
| "norm_loop sep (c # s) =
     (if is_alnum c then lower_char c # norm_loop False s
      else if \<not> sep then CHR '' '' # norm_loop True s
      else norm_loop sep s)"

definition normalize_conflict_text :: "string \<Rightarrow> string" where
  "normalize_conflict_text raw = trim (norm_loop True raw)"

definition normalize_party_name :: "string \<Rightarrow> string" where
  "normalize_party_name raw = trim (norm_loop True raw)"

section \<open>Terms at word boundaries\<close>

function contains_from :: "string \<Rightarrow> string \<Rightarrow> nat \<Rightarrow> bool" where
  "contains_from haystack term offset =
     (if term = [] then False
      else case str_find (drop offset haystack) term of
             None \<Rightarrow> False
           | Some rel_pos \<Rightarrow>
               let start = offset + rel_pos; stop = start + length term;
                   before_ok = start = 0 \<or> \<not> is_alnum (haystack ! (start - 1));
                   after_ok = stop = length haystack \<or> \<not> is_alnum (haystack ! stop)
               in if before_ok \<and> after_ok then True else contains_from haystack term (start + 1))"
  by pat_completeness auto
termination
proof (relation "measure (\<lambda>(h, t, off). Suc (length h) - off)", goal_cases)
  case (2 h t off rel start)
  then have "rel + length t \<le> length h - off" "0 < length t" using str_find_Some [of "drop off h" t rel] by auto
  then have "off + rel < length h" by linarith
  then show ?case using 2 by simp
qed simp

declare contains_from.simps [simp del]

definition contains_term_with_boundaries :: "string \<Rightarrow> string \<Rightarrow> bool" where
  "contains_term_with_boundaries haystack term = (if term = [] then False else contains_from haystack term 0)"

section \<open>Lists of adverse parties\<close>

definition MIN_ALIAS_SINGLE_TOKEN_LEN :: nat where "MIN_ALIAS_SINGLE_TOKEN_LEN = 4"

definition alias_is_matchable :: "string \<Rightarrow> bool" where
  "alias_is_matchable alias =
     (case split_whitespace alias of
        [] \<Rightarrow> False
      | [t] \<Rightarrow> MIN_ALIAS_SINGLE_TOKEN_LEN \<le> length t \<or> list_ex is_digit alias
      | _ \<Rightarrow> True)"

record conflict_entry =
  canonical_name :: string
  ce_terms :: "string list"
  ce_aliases :: "string list"

fun add_aliases :: "string list \<Rightarrow> string list \<Rightarrow> string list \<Rightarrow> string list \<times> string list" where
  "add_aliases terms aliases [] = (terms, aliases)"
| "add_aliases terms aliases (a # as) =
     (let n = normalize_conflict_text a
      in if trim a = [] \<or> n = [] \<or> \<not> alias_is_matchable n \<or> n \<in> set terms then add_aliases terms aliases as
         else add_aliases (terms @ [n]) (aliases @ [trim a]) as)"

definition json_strings :: "json_value option \<Rightarrow> string list" where
  "json_strings v = (case v of Some (JArray xs) \<Rightarrow> List.map_filter as_str xs | _ \<Rightarrow> [])"

definition parse_conflict_entry :: "json_value \<Rightarrow> conflict_entry option" where
  "parse_conflict_entry e =
     (let name = trim (case Option.bind (json_get e ''name'') as_str of Some s \<Rightarrow> s | None \<Rightarrow> []);
          n = normalize_conflict_text name
      in if name = [] \<or> n = [] then None
         else case add_aliases [n] [] (json_strings (json_get e ''aliases'')) of
                (terms, aliases) \<Rightarrow> Some \<lparr>canonical_name = name, ce_terms = terms, ce_aliases = aliases\<rparr>)"

text \<open>\<open>parse\<close> is \<open>serde_json::from_str\<close>.\<close>

definition parse_conflict_entries :: "(string \<Rightarrow> json_value option) \<Rightarrow> string \<Rightarrow> conflict_entry list option" where
  "parse_conflict_entries parse raw =
     (case parse raw of Some (JArray es) \<Rightarrow> Some (List.map_filter parse_conflict_entry es) | _ \<Rightarrow> None)"

definition opt_text_norm :: "string option \<Rightarrow> string" where
  "opt_text_norm m = (case m of Some s \<Rightarrow> normalize_conflict_text s | None \<Rightarrow> [])"

definition detect_conflict_in_entries :: "conflict_entry list \<Rightarrow> string \<Rightarrow> string option \<Rightarrow> string option" where
  "detect_conflict_in_entries es message active =
     (let nm = normalize_conflict_text message; na = opt_text_norm active
      in map_option canonical_name
           (find (\<lambda>e. list_ex (\<lambda>t. contains_term_with_boundaries nm t \<or> contains_term_with_boundaries na t) (ce_terms e)) es))"

definition detect_conflict_in_adversaries :: "string list \<Rightarrow> string \<Rightarrow> string option \<Rightarrow> string option" where
  "detect_conflict_in_adversaries adversaries message active =
     (let nm = normalize_conflict_text message; na = opt_text_norm active
      in if nm = [] \<and> na = [] then None
         else map_option trim
           (find (\<lambda>a. let n = normalize_conflict_text (trim a)
                      in trim a \<noteq> [] \<and> n \<noteq> [] \<and> alias_is_matchable n \<and>
                         (contains_term_with_boundaries nm n \<or> contains_term_with_boundaries na n)) adversaries))"

section \<open>Terms and similarity of the database check\<close>

definition trigrams :: "string \<Rightarrow> string set" where
  "trigrams text =
     (let n = normalize_party_name text; padded = ''  '' @ n @ ''  ''
      in if n = [] then {}
         else if length padded < 3 then {padded}
         else set (map (\<lambda>i. take 3 (drop i padded)) [0..<length padded - 2]))"

definition trigram_similarity :: "string \<Rightarrow> string \<Rightarrow> rat" where
  "trigram_similarity a b =
     (let A = trigrams a; B = trigrams b
      in if A = {} \<or> B = {} then 0
         else if card (A \<union> B) = 0 then 0
         else of_nat (card (A \<inter> B)) / of_nat (card (A \<union> B)))"

definition MAX_TOKENS :: nat where "MAX_TOKENS = 32"
definition MAX_NGRAM :: nat where "MAX_NGRAM = 4"

definition windows :: "nat \<Rightarrow> 'a list \<Rightarrow> 'a list list" where
  "windows w xs = (if w > length xs then [] else map (\<lambda>i. take w (drop i xs)) [0..<length xs - w + 1])"

fun push_terms :: "string list \<Rightarrow> string list \<Rightarrow> string list" where
  "push_terms terms [] = terms"
| "push_terms terms (c # cs) = push_terms (if length c < 3 \<or> c \<in> set terms then terms else terms @ [c]) cs"

definition text_tokens :: "string \<Rightarrow> string list" where
  "text_tokens text = take MAX_TOKENS (filter (\<lambda>t. 2 \<le> length t) (split_whitespace (normalize_party_name text)))"

definition conflict_terms_from_text :: "string \<Rightarrow> string option \<Rightarrow> string list" where
  "conflict_terms_from_text text active =
     (let terms = push_terms [] (map (join_with '' '') (concat (map (\<lambda>w. windows w (text_tokens text)) [1..<MAX_NGRAM + 1])))
      in case active of None \<Rightarrow> terms
         | Some m \<Rightarrow> let n = normalize_party_name m in if n \<noteq> [] \<and> n \<notin> set terms then terms @ [n] else terms)"

section \<open>Words\<close>

text \<open>The reference: the maximal runs of letters and digits, in lower case.\<close>

fun words_acc :: "string \<Rightarrow> string \<Rightarrow> string list" where
  "words_acc acc [] = (if acc = [] then [] else [rev acc])"
| "words_acc acc (c # s) =
     (if is_alnum c then words_acc (lower_char c # acc) s
      else if acc = [] then words_acc [] s else rev acc # words_acc [] s)"

definition words :: "string \<Rightarrow> string list" where
  "words s = words_acc [] s"

lemma lower_char_alnum [simp]: "is_alnum (lower_char c) = is_alnum c"
proof (cases "is_upper c")
  case True
  then have "(of_char (char_of ((of_char c :: nat) + 32)) :: nat) = of_char c + 32" by (simp add: is_upper_def)
  with True show ?thesis by (simp add: lower_char_def is_upper_def is_lower_def is_digit_def is_alnum_def)
next
  case False
  then show ?thesis by (simp add: lower_char_def)
qed

lemma alnum_not_ws: "is_alnum c \<Longrightarrow> \<not> is_ws c"
  by (auto simp: is_alnum_def is_upper_def is_lower_def is_digit_def is_ws_def)

lemma space_ws [simp]: "is_ws (CHR '' '')" "\<not> is_alnum (CHR '' '')"
  by code_simp+

lemma norm_loop_chars: "x \<in> set (norm_loop sep s) \<Longrightarrow> is_alnum x \<or> x = CHR '' ''"
  by (induction sep s rule: norm_loop.induct) (auto split: if_splits)

lemma trim_end_word: "is_alnum (last w) \<Longrightarrow> w \<noteq> [] \<Longrightarrow> trim_end (v @ w) = v @ w"
  by (cases w rule: rev_cases) (auto simp: trim_end_def alnum_not_ws)

lemma trim_end_append: "trim_end y \<noteq> [] \<Longrightarrow> trim_end (x @ y) = x @ trim_end y"
  by (auto simp: trim_end_def dropWhile_append)

lemma trim_end_blank: "trim_end y = [] \<Longrightarrow> trim_end (x @ y) = trim_end x"
  by (auto simp: trim_end_def dropWhile_append)

definition good_words :: "string list \<Rightarrow> bool" where
  "good_words ws \<longleftrightarrow> (\<forall>w \<in> set ws. w \<noteq> [] \<and> list_all is_alnum w)"

lemma good_words_acc: "list_all is_alnum acc \<Longrightarrow> good_words (words_acc acc s)"
proof (induction s arbitrary: acc)
  case (Cons c s)
  then show ?case using Cons.IH [of "lower_char c # acc"] Cons.IH [of "[]"]
    by (cases acc) (simp_all add: good_words_def list_all_rev)
qed (simp add: good_words_def list_all_rev)

lemma good_words_words: "good_words (words s)"
  by (simp add: words_def good_words_acc)

lemma words_acc_nonempty: "acc \<noteq> [] \<Longrightarrow> words_acc acc s \<noteq> []"
  by (induction acc s rule: words_acc.induct) auto

lemma join_Cons: "ws \<noteq> [] \<Longrightarrow> join_with sep (w # ws) = w @ sep @ join_with sep ws"
  by (cases ws) auto

lemma join_nonempty: "good_words ws \<Longrightarrow> ws \<noteq> [] \<Longrightarrow> join_with '' '' ws \<noteq> []"
proof (cases ws)
  case (Cons w vs)
  assume "good_words ws"
  then show ?thesis using Cons by (cases vs) (simp_all add: good_words_def)
qed simp

lemma norm_loop_words:
  "(acc \<noteq> [] \<longrightarrow> list_all is_alnum acc \<longrightarrow> trim_end (rev acc @ norm_loop False s) = join_with '' '' (words_acc acc s))
   \<and> trim_end (norm_loop True s) = join_with '' '' (words_acc [] s)"
proof (induction s arbitrary: acc)
  case Nil
  have "trim_end (rev acc) = rev acc" if "acc \<noteq> []" "list_all is_alnum acc"
    using that trim_end_word [of "rev acc" "[]"] by (cases acc) (auto simp: last_rev)
  then show ?case by (auto simp: trim_end_def)
next
  case (Cons c s)
  have word: "trim_end (lower_char c # norm_loop False s) = join_with '' '' (words_acc [lower_char c] s)" if "is_alnum c"
    using Cons [of "[lower_char c]"] that by simp
  have blank: "trim_end (rev acc @ CHR '' '' # norm_loop True s) = join_with '' '' (rev acc # words_acc [] s)"
    if "acc \<noteq> []" "list_all is_alnum acc" "\<not> is_alnum c"
  proof (cases "words_acc [] s = []")
    case True
    then have "trim_end (norm_loop True s) = []" using Cons by simp
    then have "trim_end (CHR '' '' # norm_loop True s) = []" using trim_end_blank [of "norm_loop True s" "'' ''"] by (simp add: trim_end_def)
    then show ?thesis using True that trim_end_blank [of _ "rev acc"] trim_end_word [of "rev acc" "[]"]
      by (cases acc) (auto simp: last_rev)
  next
    case False
    then have "trim_end (norm_loop True s) = join_with '' '' (words_acc [] s)" "join_with '' '' (words_acc [] s) \<noteq> []"
      using Cons join_nonempty [OF good_words_acc [of "[]" s]] by auto
    then show ?thesis using False trim_end_append [of "norm_loop True s" "rev acc @ '' ''"] by (simp add: join_Cons)
  qed
  show ?case using word blank Cons [of "lower_char c # acc"] Cons by auto
qed

lemma normalize_words: "normalize_conflict_text s = join_with '' '' (words s)"
proof -
  have "trim_start (norm_loop True s) = norm_loop True s"
  proof (induction s)
    case (Cons c s)
    then show ?case by (auto simp: trim_start_def alnum_not_ws)
  qed (simp add: trim_start_def)
  then show ?thesis using norm_loop_words [of "[]" s] by (simp add: normalize_conflict_text_def trim_def words_def)
qed

lemma normalize_party_name_eq: "normalize_party_name = normalize_conflict_text"
  by (simp add: fun_eq_iff normalize_party_name_def normalize_conflict_text_def)

lemma split_words: "good_words ws \<Longrightarrow> ws \<noteq> [] \<Longrightarrow> split_on (CHR '' '') (join_with '' '' ws) = ws"
  by (rule split_on_join) (auto simp: good_words_def list_all_iff dest!: bspec)

section \<open>Matching is matching of words\<close>

lemma take_eq_self: "take (length p) s = p \<Longrightarrow> \<exists>t. s = p @ t"
  by (metis append_take_drop_id)

lemma str_find_None: "str_find s p = None \<Longrightarrow> s \<noteq> a @ p @ b"
proof (induction s arbitrary: a)
  case (Cons c s)
  show ?case
  proof (cases a)
    case Nil
    then show ?thesis using Cons.prems by (auto simp: starts_with_append split: if_splits)
  next
    case (Cons x xs)
    then show ?thesis using Cons.IH [of xs] Cons.prems by (auto split: if_splits)
  qed
qed (auto split: if_splits)

lemma str_find_least: "str_find s p = Some i \<Longrightarrow> s = a @ p @ b \<Longrightarrow> i \<le> length a"
proof (induction s arbitrary: a i)
  case (Cons c s)
  show ?case
  proof (cases "starts_with (c # s) p \<or> a = []")
    case True
    then have "starts_with (c # s) p" using Cons.prems(2) by (auto simp: starts_with_def)
    then show ?thesis using Cons.prems(1) by simp
  next
    case False
    then obtain x xs where "a = x # xs" by (cases a) auto
    then show ?thesis using Cons.IH [of _ xs] Cons.prems False by (auto split: if_splits)
  qed
qed simp

definition bounded_at :: "string \<Rightarrow> string \<Rightarrow> nat \<Rightarrow> bool" where
  "bounded_at h t i \<longleftrightarrow> (\<exists>a b. h = a @ t @ b \<and> length a = i
     \<and> (a = [] \<or> \<not> is_alnum (last a)) \<and> (b = [] \<or> \<not> is_alnum (hd b)))"

lemma bounded_at_iff:
  assumes "take (length t) (drop i h) = t" and "i + length t \<le> length h"
  shows "bounded_at h t i \<longleftrightarrow> (i = 0 \<or> \<not> is_alnum (h ! (i - 1))) \<and> (i + length t = length h \<or> \<not> is_alnum (h ! (i + length t)))"
proof -
  have h: "h = take i h @ t @ drop (i + length t) h"
    using assms by (metis append_take_drop_id drop_drop add.commute)
  have uniq: "a = take i h \<and> b = drop (i + length t) h" if "h = a @ t @ b" "length a = i" for a b
    using that by auto
  have "last (take i h) = h ! (i - 1)" if "0 < i"
  proof -
    have "take i h \<noteq> []" "length (take i h) = i" using that assms(2) by auto
    then show ?thesis using that by (simp add: last_conv_nth)
  qed
  moreover have "hd (drop (i + length t) h) = h ! (i + length t)" if "i + length t < length h" using that by (simp add: hd_drop_conv_nth)
  ultimately have "(take i h = [] \<or> \<not> is_alnum (last (take i h))) \<longleftrightarrow> (i = 0 \<or> \<not> is_alnum (h ! (i - 1)))"
    "(drop (i + length t) h = [] \<or> \<not> is_alnum (hd (drop (i + length t) h))) \<longleftrightarrow> (i + length t = length h \<or> \<not> is_alnum (h ! (i + length t)))"
    using assms(2) by (cases "i = 0"; force)+
  moreover have "length (take i h) = i" using assms(2) by simp
  then have "bounded_at h t i \<longleftrightarrow> (take i h = [] \<or> \<not> is_alnum (last (take i h)))
      \<and> (drop (i + length t) h = [] \<or> \<not> is_alnum (hd (drop (i + length t) h)))"
    (is "_ \<longleftrightarrow> ?P (take i h) (drop (i + length t) h)")
  proof -
    have "(\<exists>a b. h = a @ t @ b \<and> length a = i \<and> ?P a b) \<longleftrightarrow> ?P (take i h) (drop (i + length t) h)" (is "?L \<longleftrightarrow> ?R")
    proof
      assume ?L
      then obtain a b where "h = a @ t @ b" "length a = i" "?P a b" by blast
      moreover have "a = take i h" "b = drop (i + length t) h" using calculation(1,2) uniq by auto
      ultimately show ?R by simp
    next
      assume ?R
      then show ?L using h \<open>length (take i h) = i\<close> by (intro exI conjI) auto
    qed
    then show ?thesis by (simp add: bounded_at_def)
  qed
  ultimately show ?thesis by simp
qed

lemma contains_from_iff:
  "t \<noteq> [] \<Longrightarrow> contains_from h t off \<longleftrightarrow> (\<exists>i \<ge> off. bounded_at h t i)"
proof (induction h t off rule: contains_from.induct)
  case (1 h t off)
  show ?case
  proof (cases "str_find (drop off h) t")
    case None
    have "\<not> bounded_at h t i" if "off \<le> i" for i
    proof
      assume "bounded_at h t i"
      then obtain a b where "h = a @ t @ b" "length a = i" by (auto simp: bounded_at_def)
      then have "drop off h = drop off a @ t @ b" using that by simp
      then show False using str_find_None [OF None] by blast
    qed
    then show ?thesis using None "1.prems" by (subst contains_from.simps) auto
  next
    case (Some r)
    let ?s = "off + r"
    have at: "take (length t) (drop ?s h) = t" "?s + length t \<le> length h"
    proof -
      have "0 < length t" using "1.prems" by simp
      moreover have "r + length t \<le> length h - off" "take (length t) (drop ?s h) = t"
        using str_find_Some [OF Some] by (simp_all add: add.commute [of r off])
      ultimately show "take (length t) (drop ?s h) = t" "?s + length t \<le> length h" by linarith+
    qed
    have first: "?s \<le> i" if le: "off \<le> i" and bd: "bounded_at h t i" for i
    proof -
      obtain a b where "h = a @ t @ b" "length a = i" using bd by (auto simp: bounded_at_def)
      then have "drop off h = drop off a @ t @ b" using le by simp
      then have "r \<le> length (drop off a)" by (rule str_find_least [OF Some])
      then show ?thesis using le \<open>length a = i\<close> by simp
    qed
    have step: "contains_from h t off \<longleftrightarrow> bounded_at h t ?s \<or> contains_from h t (?s + 1)"
      using Some "1.prems" unfolding bounded_at_iff [OF at] by (subst contains_from.simps) (auto simp: Let_def)
    have IH: "contains_from h t (?s + 1) \<longleftrightarrow> (\<exists>i \<ge> ?s + 1. bounded_at h t i)" if "\<not> bounded_at h t ?s"
      using "1.IH" [OF "1.prems" Some refl refl refl refl] that "1.prems" by (simp add: bounded_at_iff [OF at])
    show ?thesis
    proof (cases "bounded_at h t ?s")
      case True
      then show ?thesis using step by (auto intro: exI [of _ ?s])
    next
      case False
      have "?s + 1 \<le> i" if "off \<le> i" "bounded_at h t i" for i
        using first [OF that] that(2) False by (cases "i = ?s") auto
      then have "(\<exists>i \<ge> off. bounded_at h t i) \<longleftrightarrow> (\<exists>i \<ge> ?s + 1. bounded_at h t i)" by (meson add_leD1)
      then show ?thesis using step IH False by simp
    qed
  qed
qed

lemma split_on_append2: "split_on c (a @ c # b) = split_on c a @ split_on c b"
proof (induction a)
  case (Cons x a)
  obtain w ws where "split_on c a = w # ws" using length_split_on [of c a] by (cases "split_on c a") auto
  then show ?case using Cons by simp
qed simp

lemma join_chars: "good_words ws \<Longrightarrow> x \<in> set (join_with '' '' ws) \<Longrightarrow> is_alnum x \<or> x = CHR '' ''"
proof (induction ws)
  case (Cons w ws)
  then show ?case by (cases ws) (auto simp: good_words_def list_all_iff)
qed simp

text \<open>On texts made of words, a bounded occurrence is a run of whole words.\<close>

lemma bounded_occurrence_words:
  assumes "good_words hs" and "good_words ts" and "ts \<noteq> []"
  shows "(\<exists>i. bounded_at (join_with '' '' hs) (join_with '' '' ts) i) \<longleftrightarrow> (\<exists>ps qs. hs = ps @ ts @ qs)"
proof
  assume "\<exists>i. bounded_at (join_with '' '' hs) (join_with '' '' ts) i"
  then obtain a b where h: "join_with '' '' hs = a @ join_with '' '' ts @ b"
    and a: "a = [] \<or> \<not> is_alnum (last a)" and b: "b = [] \<or> \<not> is_alnum (hd b)" by (auto simp: bounded_at_def)
  have "hs \<noteq> []" using h join_nonempty [OF assms(2,3)] by auto
  have chars: "is_alnum x \<or> x = CHR '' ''" if "x \<in> set a \<union> set b" for x
    using that join_chars [OF assms(1), of x] h by auto
  let ?sp = "split_on (CHR '' '')"
  have "a = [] \<or> (\<exists>a'. a = a' @ '' '')" using a chars by (cases a rule: rev_cases) auto
  then have left: "\<exists>ps. \<forall>x. ?sp (a @ x) = ps @ ?sp x"
  proof
    assume "\<exists>a'. a = a' @ '' ''"
    then obtain a' where "a = a' @ '' ''" by blast
    then have "\<forall>x. ?sp (a @ x) = ?sp a' @ ?sp x" by (simp add: split_on_append2)
    then show ?thesis by blast
  qed (auto intro: exI [of _ "[]"])
  have "b = [] \<or> (\<exists>b'. b = CHR '' '' # b')" using b chars by (cases b) auto
  then have right: "\<exists>qs. ?sp (join_with '' '' ts @ b) = ?sp (join_with '' '' ts) @ qs"
    by (auto simp: split_on_append2)
  have "?sp (join_with '' '' hs) = hs" "?sp (join_with '' '' ts) = ts"
    using split_words assms \<open>hs \<noteq> []\<close> by auto
  then show "\<exists>ps qs. hs = ps @ ts @ qs" using left right h by metis
next
  assume "\<exists>ps qs. hs = ps @ ts @ qs"
  then obtain ps qs where hs: "hs = ps @ ts @ qs" by blast
  let ?a = "if ps = [] then [] else join_with '' '' ps @ '' ''" and ?b = "if qs = [] then [] else '' '' @ join_with '' '' qs"
  have "join_with '' '' hs = ?a @ join_with '' '' ts @ ?b"
    unfolding hs using assms(3) by (auto simp: join_append)
  then show "\<exists>i. bounded_at (join_with '' '' hs) (join_with '' '' ts) i"
    unfolding bounded_at_def by (intro exI [of _ "length ?a"] exI [of _ ?a] exI [of _ ?b]) auto
qed

lemma normalize_empty: "normalize_conflict_text s = [] \<longleftrightarrow> words s = []"
  using join_nonempty [OF good_words_words, of s] by (auto simp: normalize_words)

lemma contains_words:
  "contains_term_with_boundaries (normalize_conflict_text h) (normalize_conflict_text t) \<longleftrightarrow>
     words t \<noteq> [] \<and> sublist (words t) (words h)"
proof (cases "words t = []")
  case True
  then show ?thesis by (simp add: contains_term_with_boundaries_def normalize_words)
next
  case False
  then have "normalize_conflict_text t \<noteq> []" by (simp add: normalize_empty)
  then have "contains_term_with_boundaries (normalize_conflict_text h) (normalize_conflict_text t) \<longleftrightarrow>
      (\<exists>i. bounded_at (normalize_conflict_text h) (normalize_conflict_text t) i)"
    by (simp add: contains_term_with_boundaries_def contains_from_iff)
  then show ?thesis
    using bounded_occurrence_words [OF good_words_words good_words_words False, of h] False
    by (simp add: normalize_words sublist_def)
qed

section \<open>Detection in the conflict list\<close>

lemma words_acc_sep: "list_all (\<lambda>c. \<not> is_alnum c) ws \<Longrightarrow> words_acc acc (s @ ws) = words_acc acc s"
proof (induction s arbitrary: acc)
  case Nil
  show ?case using Nil.prems
  proof (induction ws arbitrary: acc)
    case (Cons w ws)
    then show ?case using Cons.IH [of "[]"] by auto
  qed simp
qed auto

lemma ws_not_alnum: "is_ws c \<Longrightarrow> \<not> is_alnum c"
  using alnum_not_ws by blast

lemma words_trim: "words (trim s) = words s"
proof -
  have "words_acc [] (dropWhile is_ws s) = words_acc [] s" for s
    by (induction s) (auto simp: ws_not_alnum)
  moreover have "words_acc [] (trim_end s) = words_acc [] s" for s
  proof -
    have "s = trim_end s @ rev (takeWhile is_ws (rev s))"
      by (metis rev_append rev_rev_ident takeWhile_dropWhile_id trim_end_def)
    moreover have "list_all (\<lambda>c. \<not> is_alnum c) (rev (takeWhile is_ws (rev s)))"
      by (auto simp: list_all_iff ws_not_alnum dest: set_takeWhileD)
    ultimately show ?thesis by (metis words_acc_sep)
  qed
  ultimately show ?thesis by (simp add: trim_def trim_start_def words_def)
qed

lemma normalize_trim: "normalize_conflict_text (trim s) = normalize_conflict_text s"
  by (simp add: normalize_words words_trim)

lemma add_aliases_terms:
  "add_aliases terms aliases as = (terms', aliases') \<Longrightarrow> terms = n # map normalize_conflict_text aliases \<Longrightarrow>
     terms' = n # map normalize_conflict_text aliases'"
  by (induction terms aliases as rule: add_aliases.induct) (auto simp: Let_def normalize_trim split: if_splits)

lemma parse_conflict_entry_terms:
  "parse_conflict_entry e = Some r \<Longrightarrow> ce_terms r = map normalize_conflict_text (canonical_name r # ce_aliases r)"
  by (auto simp: parse_conflict_entry_def Let_def split: if_splits prod.splits dest!: add_aliases_terms)

lemma map_filter_in: "x \<in> set (List.map_filter f xs) \<Longrightarrow> \<exists>y \<in> set xs. f y = Some x"
  by (auto simp: map_filter_def)

definition mentions :: "string \<Rightarrow> string \<Rightarrow> bool" where
  "mentions text name \<longleftrightarrow> words name \<noteq> [] \<and> sublist (words name) (words text)"

definition mentioned :: "string \<Rightarrow> string option \<Rightarrow> string \<Rightarrow> bool" where
  "mentioned message active name \<longleftrightarrow>
     mentions message name \<or> (case active of Some m \<Rightarrow> mentions m name | None \<Rightarrow> False)"

lemma contains_mentions:
  "contains_term_with_boundaries (normalize_conflict_text message) (normalize_conflict_text name)
   \<or> contains_term_with_boundaries (opt_text_norm active) (normalize_conflict_text name) \<longleftrightarrow> mentioned message active name"
proof -
  have "\<not> contains_term_with_boundaries [] t" for t
    by (cases t) (auto simp: contains_term_with_boundaries_def contains_from.simps)
  then show ?thesis by (auto simp: mentioned_def mentions_def opt_text_norm_def contains_words split: option.splits)
qed

text \<open>C34: The check against the conflict list is exact: whatever the case, the punctuation and the spacing, it reports the first
  party of the list whose name or one of whose kept aliases occurs in the message or in the name of the active matter as a
  run of whole words, and none when there is no such party.\<close>

theorem conflict_detection_exact:
  assumes "parse_conflict_entries parse raw = Some es"
  shows "detect_conflict_in_entries es message active =
    map_option canonical_name (find (\<lambda>e. \<exists>name \<in> set (canonical_name e # ce_aliases e). mentioned message active name) es)"
proof -
  have "list_ex (\<lambda>t. contains_term_with_boundaries (normalize_conflict_text message) t
           \<or> contains_term_with_boundaries (opt_text_norm active) t) (ce_terms e)
      \<longleftrightarrow> (\<exists>name \<in> set (canonical_name e # ce_aliases e). mentioned message active name)" if "e \<in> set es" for e
  proof -
    have "ce_terms e = map normalize_conflict_text (canonical_name e # ce_aliases e)"
      using assms that by (auto simp: parse_conflict_entries_def dest!: map_filter_in parse_conflict_entry_terms
          split: option.splits json_value.splits)
    then show ?thesis by (simp add: list_ex_iff contains_mentions)
  qed
  then have "find (\<lambda>e. list_ex (\<lambda>t. contains_term_with_boundaries (normalize_conflict_text message) t
           \<or> contains_term_with_boundaries (opt_text_norm active) t) (ce_terms e)) es
      = find (\<lambda>e. \<exists>name \<in> set (canonical_name e # ce_aliases e). mentioned message active name) es"
    by (intro find_cong) auto
  then show ?thesis by (simp add: detect_conflict_in_entries_def Let_def)
qed

definition demo_list :: json_value where
  "demo_list = JArray [JObject [(''name'', JString ''Initech LLC''), (''aliases'', JArray [JString ''ini'', JString ''Initech''])]]"

definition demo_parse_list :: "string \<Rightarrow> json_value option" where
  "demo_parse_list s = (if s = ''x'' then Some demo_list else None)"

theorem conflict_detection_exact_witness:
  "detect_conflict_in_entries (the (parse_conflict_entries demo_parse_list ''x'')) ''Call INITECH, today!'' None = Some ''Initech LLC''
   \<and> detect_conflict_in_entries (the (parse_conflict_entries demo_parse_list ''x'')) ''Initechs called'' None = None"
proof -
  let ?es = "[\<lparr>canonical_name = ''Initech LLC'', ce_terms = [''initech llc'', ''initech''], ce_aliases = [''Initech'']\<rparr>]"
  have es: "parse_conflict_entries demo_parse_list ''x'' = Some ?es" by code_simp
  have w: "words ''Call INITECH, today!'' = [''call'', ''initech'', ''today'']" "words ''Initechs called'' = [''initechs'', ''called'']"
    "words ''Initech LLC'' = [''initech'', ''llc'']" "words ''Initech'' = [''initech'']" by code_simp+
  show ?thesis
    using conflict_detection_exact [OF es, of "''Call INITECH, today!''" None] conflict_detection_exact [OF es, of "''Initechs called''" None]
    by (simp add: es mentioned_def mentions_def w sublist_Cons_right)
qed

section \<open>Candidate terms\<close>

lemma split_ws_word: "list_all is_alnum w \<Longrightarrow> split_ws_aux acc (w @ s) = split_ws_aux (rev w @ acc) s"
  by (induction w arbitrary: acc) (auto simp: alnum_not_ws)

lemma split_ws_join: "good_words ws \<Longrightarrow> split_whitespace (join_with '' '' ws) = ws"
proof -
  have "split_ws_aux [] (join_with '' '' ws) = ws" if "good_words ws" for ws
    using that
  proof (induction ws)
    case (Cons w ws)
    then have w: "w \<noteq> []" "list_all is_alnum w" "good_words ws" by (auto simp: good_words_def)
    show ?case
    proof (cases ws)
      case Nil
      then show ?thesis using w split_ws_word [of w "[]" "[]"] by simp
    next
      case (Cons v vs)
      then show ?thesis using w Cons.IH split_ws_word [of w "[]" "'' '' @ join_with '' '' ws"] by (simp add: join_Cons)
    qed
  qed simp
  then show "good_words ws \<Longrightarrow> split_whitespace (join_with '' '' ws) = ws" by (simp add: split_whitespace_def)
qed

lemma text_tokens_words: "text_tokens text = take 32 (filter (\<lambda>w. 2 \<le> length w) (words text))"
  by (simp add: text_tokens_def MAX_TOKENS_def normalize_party_name_eq normalize_words split_ws_join good_words_words)

lemma set_push_terms: "set (push_terms terms cs) = set terms \<union> {c \<in> set cs. 3 \<le> length c}"
  by (induction cs arbitrary: terms) (auto simp: not_less)

lemma distinct_push_terms: "distinct terms \<Longrightarrow> distinct (push_terms terms cs)"
  by (induction cs arbitrary: terms) auto

lemma length_push_terms: "length (push_terms terms cs) \<le> length terms + length cs"
proof (induction cs arbitrary: terms)
  case (Cons c cs)
  have "length (push_terms terms cs) \<le> length terms + length cs" "length (push_terms (terms @ [c]) cs) \<le> Suc (length terms) + length cs"
    using Cons.IH [of terms] Cons.IH [of "terms @ [c]"] by simp_all
  then show ?case by auto
qed simp

lemma set_windows: "set (windows w xs) = {ys. length ys = w \<and> sublist ys xs \<and> w \<le> length xs}"
proof (cases "w \<le> length xs")
  case True
  have "(\<exists>i < length xs - w + 1. ys = take w (drop i xs)) \<longleftrightarrow> length ys = w \<and> sublist ys xs" (is "?L \<longleftrightarrow> ?R") for ys
  proof
    assume ?L
    then obtain i where i: "i \<le> length xs - w" "ys = take w (drop i xs)" by (auto simp: less_Suc_eq_le)
    have "xs = take i xs @ ys @ drop w (drop i xs)" unfolding i(2) by (simp only: append_take_drop_id)
    then have "sublist ys xs" unfolding sublist_def by blast
    then show ?R using i True by simp
  next
    assume ?R
    then obtain ps ss where "xs = ps @ ys @ ss" "length ys = w" by (auto simp: sublist_def)
    then show ?L by (intro exI [of _ "length ps"]) auto
  qed
  moreover have "set (windows w xs) = {ys. \<exists>i < length xs - w + 1. ys = take w (drop i xs)}"
    using True by (auto simp: windows_def simp del: upt_Suc)
  ultimately show ?thesis using True by auto
qed (auto simp: windows_def)

lemma length_windows: "length (windows w xs) \<le> length xs - w + 1"
  by (simp add: windows_def)

text \<open>The terms the database check looks up for a text are exactly its runs of one to four words, taken from its first
  thirty-two words of two or more characters and of three or more characters in all, each once, at most 122 of them.
  What comes later in the text is not looked at: appending anything to a text that already has thirty-two such words changes
  nothing.\<close>

theorem conflict_terms_exact:
  "set (conflict_terms_from_text s None) =
     {join_with '' '' ws | ws. 1 \<le> length ws \<and> length ws \<le> 4 \<and> 3 \<le> length (join_with '' '' ws)
        \<and> sublist ws (take 32 (filter (\<lambda>w. 2 \<le> length w) (words s)))}
   \<and> distinct (conflict_terms_from_text s None) \<and> length (conflict_terms_from_text s None) \<le> 122
   \<and> (32 \<le> length (filter (\<lambda>w. 2 \<le> length w) (words s)) \<longrightarrow>
        conflict_terms_from_text (s @ '' '' @ rest) None = conflict_terms_from_text s None)"
proof -
  let ?ts = "text_tokens s"
  let ?cs = "concat (map (\<lambda>w. windows w ?ts) [1..<MAX_NGRAM + 1])"
  have terms: "conflict_terms_from_text s None = push_terms [] (map (join_with '' '') ?cs)"
    by (simp add: conflict_terms_from_text_def)
  have ws: "[1..<MAX_NGRAM + 1] = [1, 2, 3, 4]" by (simp add: MAX_NGRAM_def upt_rec)
  have cs: "set ?cs = {ws. 1 \<le> length ws \<and> length ws \<le> 4 \<and> sublist ws ?ts}"
    unfolding ws by (auto simp: set_windows dest: sublist_length_le)
  have set_eq: "set (conflict_terms_from_text s None) =
     {join_with '' '' ws | ws. 1 \<le> length ws \<and> length ws \<le> 4 \<and> 3 \<le> length (join_with '' '' ws) \<and> sublist ws ?ts}"
    unfolding terms set_push_terms set_map cs by auto
  have "length ?ts \<le> 32" by (simp add: text_tokens_words)
  then have "length (windows w ?ts) \<le> 33 - w" if "w \<in> {1, 2, 3, 4}" for w
    using that by (auto simp: windows_def)
  from this [of 1] this [of 2] this [of 3] this [of 4] have "length ?cs \<le> 122" unfolding ws by simp
  then have len: "length (conflict_terms_from_text s None) \<le> 122"
    using length_push_terms [of "[]" "map (join_with '' '') ?cs"] unfolding terms by simp
  have dis: "distinct (conflict_terms_from_text s None)" unfolding terms by (simp add: distinct_push_terms)
  have "text_tokens (s @ '' '' @ rest) = ?ts" if "32 \<le> length (filter (\<lambda>w. 2 \<le> length w) (words s))"
  proof -
    have "words_acc acc (s @ '' '' @ t) = words_acc acc s @ words_acc [] t" for acc s t
      by (induction s arbitrary: acc) auto
    then have "words (s @ '' '' @ rest) = words s @ words rest" by (simp add: words_def)
    then show ?thesis using that by (simp add: text_tokens_words)
  qed
  then show ?thesis using set_eq len dis by (simp add: text_tokens_words conflict_terms_from_text_def)
qed

theorem conflict_terms_exact_witness:
  "conflict_terms_from_text (concat (replicate 32 ''well '') @ '' '' @ ''Initech'') None = conflict_terms_from_text (concat (replicate 32 ''well '')) None"
proof -
  have "length (filter (\<lambda>w. 2 \<le> length w) (words (concat (replicate 32 ''well '')))) = 32" by code_simp
  then show ?thesis using conflict_terms_exact [of "concat (replicate 32 ''well '')" "''Initech''"] by simp
qed

section \<open>Similarity\<close>

lemma finite_trigrams: "finite (trigrams s)"
  by (simp add: trigrams_def Let_def)

lemma trigrams_empty: "trigrams s = {} \<longleftrightarrow> words s = []"
  by (auto simp: trigrams_def Let_def normalize_party_name_eq normalize_empty)

definition lower_words :: "string list \<Rightarrow> bool" where
  "lower_words ws \<longleftrightarrow> (\<forall>w \<in> set ws. lowercase w = w)"

lemma lowercase_rev: "lowercase (rev s) = rev (lowercase s)"
  by (simp add: lowercase_def rev_map)

lemma lowercase_Cons: "lowercase (c # s) = lower_char c # lowercase s"
  by (simp add: lowercase_def)

lemma lower_words_acc: "lowercase acc = acc \<Longrightarrow> lower_words (words_acc acc s)"
proof (induction s arbitrary: acc)
  case Nil
  then show ?case by (simp add: lower_words_def lowercase_rev)
next
  case (Cons c s)
  have "lower_words (words_acc (lower_char c # acc) s)" "lower_words (words_acc [] s)"
    using Cons.IH [of "lower_char c # acc"] Cons.IH [of "[]"] Cons.prems by (simp_all add: lowercase_Cons lowercase_def)
  then show ?case using Cons.prems by (simp add: lower_words_def lowercase_rev)
qed

lemma words_acc_word:
  "list_all is_alnum w \<Longrightarrow> lowercase w = w \<Longrightarrow> words_acc acc (w @ s) = words_acc (rev w @ acc) s"
  by (induction w arbitrary: acc) (simp_all add: lowercase_Cons)

lemma words_join: "good_words ws \<Longrightarrow> lower_words ws \<Longrightarrow> words (join_with '' '' ws) = ws"
proof (induction ws)
  case (Cons w ws)
  then have w: "w \<noteq> []" "list_all is_alnum w" "good_words ws" "lower_words ws" "lowercase w = w"
    by (auto simp: good_words_def lower_words_def)
  show ?case
  proof (cases ws)
    case Nil
    then show ?thesis using w words_acc_word [of w "[]" "[]"] by (simp add: words_def)
  next
    case (Cons v vs)
    then show ?thesis using w Cons.IH words_acc_word [of w "[]" "'' '' @ join_with '' '' ws"]
      by (simp add: join_Cons words_def)
  qed
qed (simp add: words_def)

lemma words_normalize: "words (normalize_conflict_text s) = words s"
  using words_join [OF good_words_words, of s] lower_words_acc [of "[]" s] by (simp add: normalize_words words_def lowercase_def)

lemma normalize_idem: "normalize_conflict_text (normalize_conflict_text s) = normalize_conflict_text s"
  by (metis normalize_words words_normalize)

text \<open>The similarity lies between 0 and 1, does not depend on the order of its arguments nor on their case and punctuation,
  is 1 exactly for texts that hold a word and have the same trigrams, and 0 exactly when they share none.\<close>

theorem similarity_laws:
  "0 \<le> trigram_similarity a b \<and> trigram_similarity a b \<le> 1 \<and> trigram_similarity a b = trigram_similarity b a
   \<and> (trigram_similarity a b = 1 \<longleftrightarrow> trigrams a = trigrams b \<and> words a \<noteq> [])
   \<and> (trigram_similarity a b = 0 \<longleftrightarrow> trigrams a \<inter> trigrams b = {})
   \<and> trigram_similarity (normalize_party_name a) b = trigram_similarity a b"
proof -
  let ?A = "trigrams a" and ?B = "trigrams b"
  have fin: "finite (?A \<union> ?B)" "finite (?A \<inter> ?B)" by (simp_all add: finite_trigrams)
  have le: "card (?A \<inter> ?B) \<le> card (?A \<union> ?B)" using fin by (intro card_mono) auto
  have val: "trigram_similarity a b = of_nat (card (?A \<inter> ?B)) / of_nat (card (?A \<union> ?B))" if "?A \<noteq> {}"
    using that fin by (auto simp: trigram_similarity_def Let_def)
  have zero: "trigram_similarity a b = 0" if "?A = {}" using that by (simp add: trigram_similarity_def)
  have range: "0 \<le> trigram_similarity a b \<and> trigram_similarity a b \<le> 1"
    using val zero le by (cases "?A = {}") (auto simp: divide_le_eq_1)
  have pos: "card (?A \<union> ?B) > 0" if "?A \<noteq> {}" using that fin by (simp add: card_gt_0_iff)
  have one: "trigram_similarity a b = 1 \<longleftrightarrow> ?A = ?B \<and> words a \<noteq> []"
  proof (cases "?A = {}")
    case False
    then have "trigram_similarity a b = 1 \<longleftrightarrow> card (?A \<inter> ?B) = card (?A \<union> ?B)" using val pos by (auto simp: divide_eq_eq)
    also have "\<dots> \<longleftrightarrow> ?A \<inter> ?B = ?A \<union> ?B" using fin by (metis card_subset_eq inf_sup_ord(1) le_supI1)
    finally show ?thesis using False trigrams_empty [of a] by blast
  qed (use zero trigrams_empty [of a] in auto)
  have none: "trigram_similarity a b = 0 \<longleftrightarrow> ?A \<inter> ?B = {}"
  proof (cases "?A = {}")
    case False
    then show ?thesis using val pos fin by auto
  qed (simp add: zero)
  have "trigram_similarity a b = trigram_similarity b a"
    by (simp add: trigram_similarity_def Let_def Int_commute Un_commute disj_commute)
  moreover have "trigrams (normalize_party_name a) = trigrams a"
    by (simp add: trigrams_def normalize_party_name_eq normalize_idem)
  then have "trigram_similarity (normalize_party_name a) b = trigram_similarity a b" by (simp add: trigram_similarity_def)
  ultimately show ?thesis using range one none by blast
qed

end
