(* ===== verification/Conflict_Graph.thy ===== *)
theory Conflict_Graph
  imports Conflict_Text "HOL-Library.Char_ord" "HOL-Library.List_Lexorder" "HOL-Library.Product_Lexorder" "HOL-Library.Multiset"
begin

text \<open>
  The conflict graph of the libSQL backend (\<open>src/db/libsql/legal_conflicts.rs\<close>): parties with aliases, their relationships and
  their roles in matters; how the graph is filled, and the search for hits by name, alias, similarity and relationship.

  A table is the list of its rows, in the order of their insertion; a query without an order returns them in that order,
  and \<open>LIMIT\<close> takes the first ones. \<open>Uuid::new_v4\<close> draws the next number of \<open>gr_next\<close>. A transaction that fails leaves
  the tables as they were. \<open>gr_down\<close> is the error of a connection that cannot be had. The patterns of \<open>LIKE\<close> hold letters, digits
  and blanks only, so a match is containment.
\<close>

section \<open>Rows\<close>

datatype party_role = Client | Adverse | Related | Witness | Affiliate | Principal | OpposingCounsel

definition party_role_str :: "party_role \<Rightarrow> string" where
  "party_role_str r = (case r of Client \<Rightarrow> ''client'' | Adverse \<Rightarrow> ''adverse'' | Related \<Rightarrow> ''related'' | Witness \<Rightarrow> ''witness''
     | Affiliate \<Rightarrow> ''affiliate'' | Principal \<Rightarrow> ''principal'' | OpposingCounsel \<Rightarrow> ''opposing_counsel'')"

definition base_db_role :: "party_role \<Rightarrow> string" where
  "base_db_role r = (case r of Affiliate \<Rightarrow> party_role_str Related | Principal \<Rightarrow> party_role_str Related
     | OpposingCounsel \<Rightarrow> party_role_str Adverse | _ \<Rightarrow> party_role_str r)"

definition role_detail :: "party_role \<Rightarrow> string option" where
  "role_detail r = (if r \<in> {Affiliate, Principal, OpposingCounsel} then Some (party_role_str r) else None)"

definition party_role_from_db_value :: "string \<Rightarrow> party_role option" where
  "party_role_from_db_value s =
     (if s = ''client'' then Some Client else if s = ''adverse'' then Some Adverse else if s = ''related'' then Some Related
      else if s = ''witness'' then Some Witness else if s = ''affiliate'' then Some Affiliate
      else if s = ''principal'' then Some Principal else if s = ''opposing_counsel'' then Some OpposingCounsel else None)"

record party =
  pa_id :: uuid
  pa_name :: string
  pa_norm :: string
  pa_notes :: "string option"

record party_alias =
  al_party :: uuid
  al_alias :: string
  al_norm :: string

record party_relationship =
  rel_id :: uuid
  rel_parent :: uuid
  rel_child :: uuid
  rel_kind :: string

record matter_party =
  mp_id :: uuid
  mp_matter :: string
  mp_party :: uuid
  mp_role :: string
  mp_role_detail :: "string option"
  mp_opened :: "string option"
  mp_closed :: "string option"

record conflict_db =
  gr_down :: "string option"
  gr_next :: uuid
  gr_parties :: "party list"
  gr_aliases :: "party_alias list"
  gr_rels :: "party_relationship list"
  gr_matter_parties :: "matter_party list"

record conflict_hit =
  ch_party :: string
  ch_role :: party_role
  ch_matter :: string
  ch_status :: string
  ch_via :: string
  ch_path :: "string list"

section \<open>Filling the graph\<close>

definition upsert_party :: "string \<Rightarrow> conflict_db \<Rightarrow> uuid option \<times> conflict_db" where
  "upsert_party name db =
     (let display = trim name; n = normalize_party_name display
      in if display = [] \<or> n = [] then (None, db)
         else case find (\<lambda>p. pa_norm p = n) (gr_parties db) of
                Some p \<Rightarrow> (Some (pa_id p), db\<lparr>gr_parties := map (\<lambda>q. if pa_norm q = n then q\<lparr>pa_name := display\<rparr> else q) (gr_parties db)\<rparr>)
              | None \<Rightarrow> (Some (gr_next db),
                          db\<lparr>gr_parties := gr_parties db @ [\<lparr>pa_id = gr_next db, pa_name = display, pa_norm = n, pa_notes = None\<rparr>],
                             gr_next := Suc (gr_next db)\<rparr>))"

definition put_alias :: "uuid \<Rightarrow> string \<Rightarrow> string \<Rightarrow> conflict_db \<Rightarrow> conflict_db" where
  "put_alias i display n db =
     (if \<exists>r \<in> set (gr_aliases db). al_party r = i \<and> al_norm r = n
      then db\<lparr>gr_aliases := map (\<lambda>r. if al_party r = i \<and> al_norm r = n then r\<lparr>al_alias := display\<rparr> else r) (gr_aliases db)\<rparr>
      else db\<lparr>gr_aliases := gr_aliases db @ [\<lparr>al_party = i, al_alias = display, al_norm = n\<rparr>], gr_next := Suc (gr_next db)\<rparr>)"

fun upsert_party_aliases_loop :: "uuid \<Rightarrow> string list \<Rightarrow> string list \<Rightarrow> conflict_db \<Rightarrow> conflict_db" where
  "upsert_party_aliases_loop i seen [] db = db"
| "upsert_party_aliases_loop i seen (a # as) db =
     (let display = trim a; n = normalize_party_name display
      in if display = [] \<or> n = [] \<or> n \<in> set seen then upsert_party_aliases_loop i seen as db
         else upsert_party_aliases_loop i (n # seen) as (put_alias i display n db))"

definition upsert_party_aliases_with_conn :: "uuid \<Rightarrow> string list \<Rightarrow> conflict_db \<Rightarrow> conflict_db" where
  "upsert_party_aliases_with_conn i as db = upsert_party_aliases_loop i [] as db"

text \<open>\<open>INSERT ... ON CONFLICT(matter_id, party_id, role) DO UPDATE\<close>, as the seeding functions write it: an existing row only gets
  an opening date it does not have.\<close>

definition seed_matter_party :: "string \<Rightarrow> uuid \<Rightarrow> party_role \<Rightarrow> string option \<Rightarrow> conflict_db \<Rightarrow> conflict_db" where
  "seed_matter_party matter i role opened db =
     (let same = (\<lambda>r. mp_matter r = matter \<and> mp_party r = i \<and> mp_role r = party_role_str role)
      in if \<exists>r \<in> set (gr_matter_parties db). same r
         then db\<lparr>gr_matter_parties := map (\<lambda>r. if same r then r\<lparr>mp_opened := (case mp_opened r of Some d \<Rightarrow> Some d | None \<Rightarrow> opened)\<rparr> else r)
                                         (gr_matter_parties db)\<rparr>
         else db\<lparr>gr_matter_parties := gr_matter_parties db @ [\<lparr>mp_id = gr_next db, mp_matter = matter, mp_party = i, mp_role = party_role_str role,
                                          mp_role_detail = None, mp_opened = opened, mp_closed = None\<rparr>],
                 gr_next := Suc (gr_next db)\<rparr>)"

text \<open>\<open>fmt\<close> parses a date or time stamp and renders it in UTC.\<close>

definition parse_opened_at_text :: "(string \<Rightarrow> string option) \<Rightarrow> string option \<Rightarrow> string + string option" where
  "parse_opened_at_text fmt raw =
     (case raw of None \<Rightarrow> Inr None
      | Some r \<Rightarrow> if trim r = [] then Inr None
                 else case fmt (trim r) of Some d \<Rightarrow> Inr (Some d)
                      | None \<Rightarrow> Inl (''Serialization error: invalid opened_at timestamp '' @ quoted (trim r)))"

fun seed_adversaries :: "string \<Rightarrow> string option \<Rightarrow> string list \<Rightarrow> conflict_db \<Rightarrow> conflict_db" where
  "seed_adversaries matter opened [] db = db"
| "seed_adversaries matter opened (n # ns) db =
     (case upsert_party n db of
        (None, db1) \<Rightarrow> seed_adversaries matter opened ns db1
      | (Some i, db1) \<Rightarrow> seed_adversaries matter opened ns (seed_matter_party matter i Adverse opened db1))"

definition seed_matter_parties ::
  "(string \<Rightarrow> string option) \<Rightarrow> string \<Rightarrow> string \<Rightarrow> string list \<Rightarrow> string option \<Rightarrow> conflict_db \<Rightarrow> (string + unit) \<times> conflict_db" where
  "seed_matter_parties fmt matter client adversaries opened db =
     (if trim matter = [] then (Inl ''Serialization error: matter_id cannot be empty'', db)
      else case parse_opened_at_text fmt opened of Inl e \<Rightarrow> (Inl e, db)
           | Inr o' \<Rightarrow>
               (case gr_down db of Some e \<Rightarrow> (Inl e, db)
                | None \<Rightarrow>
                    (Inr (), seed_adversaries (trim matter) o' adversaries
                       (case upsert_party client db of (None, db1) \<Rightarrow> db1 | (Some i, db1) \<Rightarrow> seed_matter_party (trim matter) i Client o' db1))))"

definition seed_conflict_entry ::
  "(string \<Rightarrow> string option) \<Rightarrow> string \<Rightarrow> string \<Rightarrow> string list \<Rightarrow> string option \<Rightarrow> conflict_db \<Rightarrow> (string + unit) \<times> conflict_db" where
  "seed_conflict_entry fmt matter name aliases opened db =
     (if trim matter = [] then (Inl ''Serialization error: matter_id cannot be empty'', db)
      else case parse_opened_at_text fmt opened of Inl e \<Rightarrow> (Inl e, db)
           | Inr o' \<Rightarrow>
               (case gr_down db of Some e \<Rightarrow> (Inl e, db)
                | None \<Rightarrow>
                    (case upsert_party name db of (None, db1) \<Rightarrow> (Inr (), db1)
                     | (Some i, db1) \<Rightarrow> (Inr (), upsert_party_aliases_with_conn i aliases (seed_matter_party (trim matter) i Adverse o' db1)))))"

definition reset_conflict_graph :: "conflict_db \<Rightarrow> (string + unit) \<times> conflict_db" where
  "reset_conflict_graph db =
     (case gr_down db of Some e \<Rightarrow> (Inl e, db)
      | None \<Rightarrow> (Inr (), db\<lparr>gr_parties := [], gr_aliases := [], gr_rels := [], gr_matter_parties := []\<rparr>))"

definition upsert_party_aliases :: "string \<Rightarrow> string list \<Rightarrow> conflict_db \<Rightarrow> (string + unit) \<times> conflict_db" where
  "upsert_party_aliases name aliases db =
     (if aliases = [] then (Inr (), db)
      else case gr_down db of Some e \<Rightarrow> (Inl e, db)
           | None \<Rightarrow> (case upsert_party name db of (None, db1) \<Rightarrow> (Inr (), db1)
                     | (Some i, db1) \<Rightarrow> (Inr (), upsert_party_aliases_with_conn i aliases db1)))"

record matter_party_params =
  mpp_name :: string
  mpp_role :: party_role
  mpp_aliases :: "string list"
  mpp_notes :: "string option"
  mpp_opened :: "string option"
  mpp_closed :: "string option"

definition put_matter_party :: "string \<Rightarrow> uuid \<Rightarrow> matter_party_params \<Rightarrow> conflict_db \<Rightarrow> conflict_db" where
  "put_matter_party matter i input db =
     (let base = base_db_role (mpp_role input);
          same = (\<lambda>r. mp_matter r = matter \<and> mp_party r = i \<and> mp_role r = base)
      in if \<exists>r \<in> set (gr_matter_parties db). same r
         then db\<lparr>gr_matter_parties := map (\<lambda>r. if same r then r\<lparr>mp_role_detail := role_detail (mpp_role input),
                    mp_opened := (case mpp_opened input of Some d \<Rightarrow> Some d | None \<Rightarrow> mp_opened r),
                    mp_closed := mpp_closed input\<rparr> else r) (gr_matter_parties db)\<rparr>
         else db\<lparr>gr_matter_parties := gr_matter_parties db @ [\<lparr>mp_id = gr_next db, mp_matter = matter, mp_party = i,
                    mp_role = base, mp_role_detail = role_detail (mpp_role input),
                    mp_opened = mpp_opened input, mp_closed = mpp_closed input\<rparr>],
                 gr_next := Suc (gr_next db)\<rparr>)"

definition upsert_matter_party :: "string \<Rightarrow> matter_party_params \<Rightarrow> conflict_db \<Rightarrow> (string + matter_party) \<times> conflict_db" where
  "upsert_matter_party matter input db =
     (case gr_down db of Some e \<Rightarrow> (Inl e, db)
      | None \<Rightarrow>
          (case upsert_party (mpp_name input) db of
             (None, db1) \<Rightarrow> (Inl ''Serialization error: matter party name cannot be empty'', db)
           | (Some i, db1) \<Rightarrow>
               let db2 = (case mpp_notes input of None \<Rightarrow> db1
                          | Some n \<Rightarrow> db1\<lparr>gr_parties := map (\<lambda>p. if pa_id p = i then p\<lparr>pa_notes := Some n\<rparr> else p) (gr_parties db1)\<rparr>);
                   base = base_db_role (mpp_role input);
                   same = (\<lambda>r. mp_matter r = matter \<and> mp_party r = i \<and> mp_role r = base);
                   db3 = put_matter_party matter i input db2;
                   db4 = upsert_party_aliases_with_conn i (mpp_aliases input) db3
               in (case find same (gr_matter_parties db4) of
                     Some r \<Rightarrow> (Inr r, db4)
                   | None \<Rightarrow> (Inl ''Query failed: failed to resolve matter party'', db))))"

record relationship_params =
  rp_parent_id :: "uuid option"
  rp_parent_name :: "string option"
  rp_child_id :: "uuid option"
  rp_child_name :: "string option"
  rp_kind :: string

definition resolve_party :: "string \<Rightarrow> uuid option \<Rightarrow> string option \<Rightarrow> conflict_db \<Rightarrow> (string + uuid) \<times> conflict_db" where
  "resolve_party field i name db =
     (case i of Some k \<Rightarrow> (Inr k, db)
      | None \<Rightarrow> (case name of None \<Rightarrow> (Inl (''Serialization error: '' @ field @ '' is required''), db)
                | Some n \<Rightarrow> (case upsert_party n db of
                              (None, db1) \<Rightarrow> (Inl (''Serialization error: '' @ field @ '' cannot be empty''), db1)
                            | (Some k, db1) \<Rightarrow> (Inr k, db1))))"

text \<open>\<open>fk\<close> says whether the engine enforces foreign keys; a given identifier may name no party.\<close>

definition upsert_party_relationship :: "bool \<Rightarrow> relationship_params \<Rightarrow> conflict_db \<Rightarrow> (string + party_relationship) \<times> conflict_db" where
  "upsert_party_relationship fk input db =
     (case gr_down db of Some e \<Rightarrow> (Inl e, db)
      | None \<Rightarrow>
          (case resolve_party ''parent_name'' (rp_parent_id input) (rp_parent_name input) db of (Inl e, db1) \<Rightarrow> (Inl e, db)
           | (Inr parent, db1) \<Rightarrow>
             (case resolve_party ''child_name'' (rp_child_id input) (rp_child_name input) db1 of (Inl e, db2) \<Rightarrow> (Inl e, db)
              | (Inr child, db2) \<Rightarrow>
                  let same = (\<lambda>r. rel_parent r = parent \<and> rel_child r = child \<and> rel_kind r = rp_kind input);
                      known = (\<lambda>i. i \<in> pa_id ` set (gr_parties db2))
                  in if fk \<and> \<not> (\<exists>r \<in> set (gr_rels db2). same r) \<and> \<not> (known parent \<and> known child)
                     then (Inl ''LibSQL error: SQLite failure: `FOREIGN KEY constraint failed`'', db)
                     else let db3 = (if \<exists>r \<in> set (gr_rels db2). same r then db2
                                     else db2\<lparr>gr_rels := gr_rels db2 @ [\<lparr>rel_id = gr_next db2, rel_parent = parent, rel_child = child, rel_kind = rp_kind input\<rparr>],
                                              gr_next := Suc (gr_next db2)\<rparr>)
                          in (case find same (gr_rels db3) of
                                Some r \<Rightarrow> (if known parent \<and> known child then Inr r else Inl ''Query failed: failed to load party relationship'', db3)
                              | None \<Rightarrow> (Inl ''Query failed: failed to resolve party relationship'', db)))))"

section \<open>Relationships\<close>

text \<open>The rows of the query: the children of a party, then its parents, each with name and kind.\<close>

definition name_of :: "uuid \<Rightarrow> conflict_db \<Rightarrow> string option" where
  "name_of i db = map_option pa_name (find (\<lambda>p. pa_id p = i) (gr_parties db))"

definition neighbours :: "conflict_db \<Rightarrow> uuid \<Rightarrow> (uuid \<times> string \<times> string) list" where
  "neighbours db i =
     List.map_filter (\<lambda>r. if rel_parent r = i then map_option (\<lambda>n. (rel_child r, n, rel_kind r)) (name_of (rel_child r) db) else None) (gr_rels db) @
     List.map_filter (\<lambda>r. if rel_child r = i then map_option (\<lambda>n. (rel_parent r, n, ''reverse:'' @ rel_kind r)) (name_of (rel_parent r) db) else None) (gr_rels db)"

type_synonym bfs_item = "uuid \<times> string list \<times> nat"

fun expand :: "string list \<Rightarrow> nat \<Rightarrow> (uuid \<times> string \<times> string) list \<Rightarrow> bfs_item list \<Rightarrow> uuid list \<Rightarrow> (uuid \<times> string list) list \<Rightarrow>
    bfs_item list \<times> uuid list \<times> (uuid \<times> string list) list" where
  "expand path depth [] queue visited out = (queue, visited, out)"
| "expand path depth ((n, nm, kind) # rows) queue visited out =
     (if n \<in> set visited then expand path depth rows queue visited out
      else expand path depth rows (queue @ [(n, path @ [kind, nm], depth + 1)]) (visited @ [n]) (out @ [(n, path @ [kind, nm])]))"

definition rel_ids :: "conflict_db \<Rightarrow> uuid set" where
  "rel_ids db = (\<Union>r \<in> set (gr_rels db). {rel_parent r, rel_child r})"

lemma neighbours_ids: "(n, nm, k) \<in> set (neighbours db i) \<Longrightarrow> n \<in> rel_ids db"
  by (auto simp: neighbours_def rel_ids_def map_filter_def split: if_splits)

lemma expand_new:
  "expand path depth rows queue visited out = (queue', visited', out') \<Longrightarrow>
     \<exists>new. queue' = queue @ map (\<lambda>(n, p). (n, p, depth + 1)) new \<and> visited' = visited @ map fst new \<and> out' = out @ new
       \<and> distinct (map fst new) \<and> set (map fst new) = set (map fst rows) - set visited"
proof (induction path depth rows queue visited out rule: expand.induct)
  case (2 path depth n nm kind rows queue visited out)
  show ?case
  proof (cases "n \<in> set visited")
    case True
    then show ?thesis using 2 by (auto simp: insert_absorb)
  next
    case False
    then obtain new where "queue' = (queue @ [(n, path @ [kind, nm], depth + 1)]) @ map (\<lambda>(n, p). (n, p, depth + 1)) new"
      "visited' = (visited @ [n]) @ map fst new" "out' = (out @ [(n, path @ [kind, nm])]) @ new"
      "distinct (map fst new)" "set (map fst new) = set (map fst rows) - set (visited @ [n])"
      using 2 by auto
    then show ?thesis using False by (intro exI [of _ "(n, path @ [kind, nm]) # new"]) auto
  qed
qed simp

lemma expand_measure:
  "(case expand path depth (neighbours db i) q v out of (q', v', _) \<Rightarrow> 2 * card (rel_ids db - set v') + length q')
     < Suc (2 * card (rel_ids db - set v) + length q)"
proof -
  obtain q' v' out' where ex: "expand path depth (neighbours db i) q v out = (q', v', out')" by (metis prod_cases3)
  obtain new where new: "q' = q @ map (\<lambda>(n, p). (n, p, depth + 1)) new" "v' = v @ map fst new"
    "distinct (map fst new)" "set (map fst new) = set (map fst (neighbours db i)) - set v"
    using expand_new [OF ex] by auto
  have sub: "set (map fst new) \<subseteq> rel_ids db - set v" using new(4) neighbours_ids by fastforce
  have fin: "finite (rel_ids db)" by (simp add: rel_ids_def)
  have len: "card (set (map fst new)) = length new" using distinct_card [OF new(3)] by simp
  have "rel_ids db - set v' = (rel_ids db - set v) - set (map fst new)" using new(2) by auto
  then have "card (rel_ids db - set v') = card (rel_ids db - set v) - length new"
    using sub fin len by (simp add: card_Diff_subset)
  moreover have "length new \<le> card (rel_ids db - set v)" using card_mono [OF _ sub] fin len by simp
  ultimately show ?thesis using new(1) ex by simp
qed

function bfs :: "conflict_db \<Rightarrow> nat \<Rightarrow> bfs_item list \<Rightarrow> uuid list \<Rightarrow> (uuid \<times> string list) list \<Rightarrow> (uuid \<times> string list) list" where
  "bfs db max_depth [] visited out = out"
| "bfs db max_depth ((i, path, depth) # queue) visited out =
     (if depth \<ge> max_depth then bfs db max_depth queue visited out
      else case expand path depth (neighbours db i) queue visited out of
             (queue', visited', out') \<Rightarrow> bfs db max_depth queue' visited' out')"
  by pat_completeness auto
termination
  by (relation "measure (\<lambda>(db, m, q, v, out). 2 * card (rel_ids db - set v) + length q)") (use expand_measure in auto)

definition relationship_paths :: "conflict_db \<Rightarrow> uuid \<Rightarrow> string \<Rightarrow> nat \<Rightarrow> (uuid \<times> string list) list" where
  "relationship_paths db start name max_depth = bfs db max_depth [(start, [name], 0)] [start] []"

section \<open>Hits\<close>

definition role_name :: "matter_party \<Rightarrow> string" where
  "role_name mp = (case mp_role_detail mp of Some d \<Rightarrow> d | None \<Rightarrow> mp_role mp)"

definition status_of :: "matter_party \<Rightarrow> string" where
  "status_of mp = (if mp_closed mp = None then ''Open'' else ''Closed'')"

definition build_hit :: "string \<Rightarrow> matter_party \<Rightarrow> string \<Rightarrow> string list \<Rightarrow> conflict_hit option" where
  "build_hit party mp via path =
     map_option (\<lambda>role. \<lparr>ch_party = party, ch_role = role, ch_matter = mp_matter mp, ch_status = status_of mp, ch_via = via, ch_path = path\<rparr>)
       (party_role_from_db_value (role_name mp))"

type_synonym scored_row = "uuid \<times> string \<times> conflict_hit \<times> rat"

definition row_hit :: "rat \<Rightarrow> string \<Rightarrow> party \<times> matter_party \<Rightarrow> scored_row option" where
  "row_hit score via x = (case x of (p, mp) \<Rightarrow> map_option (\<lambda>h. (pa_id p, pa_name p, h, score)) (build_hit (pa_name p) mp via []))"

definition in_matters :: "conflict_db \<Rightarrow> party \<Rightarrow> (party \<times> matter_party) list" where
  "in_matters db p = map (\<lambda>mp. (p, mp)) (filter (\<lambda>mp. mp_party mp = pa_id p) (gr_matter_parties db))"

definition alias_rows :: "conflict_db \<Rightarrow> (string \<Rightarrow> bool) \<Rightarrow> (party_alias \<times> party \<times> matter_party) list" where
  "alias_rows db P = concat (map (\<lambda>a. concat (map (\<lambda>p. map (\<lambda>x. (a, x)) (in_matters db p))
      (filter (\<lambda>p. pa_id p = al_party a) (gr_parties db)))) (filter (\<lambda>a. P (al_norm a)) (gr_aliases db)))"

definition party_rows :: "conflict_db \<Rightarrow> (string \<Rightarrow> bool) \<Rightarrow> (party \<times> matter_party) list" where
  "party_rows db P = concat (map (in_matters db) (filter (\<lambda>p. P (pa_norm p)) (gr_parties db)))"

definition direct_rows :: "conflict_db \<Rightarrow> nat \<Rightarrow> string \<Rightarrow> scored_row list" where
  "direct_rows db limit term = List.map_filter (row_hit 1 ''direct'') (take limit (party_rows db (\<lambda>n. n = term)))"

definition alias_hit_rows :: "conflict_db \<Rightarrow> nat \<Rightarrow> string \<Rightarrow> scored_row list" where
  "alias_hit_rows db limit term =
     List.map_filter (\<lambda>(a, x). row_hit (9 / 10) (''alias:'' @ al_alias a) x) (take limit (alias_rows db (\<lambda>n. n = term)))"

definition fuzzy_tokens :: "string \<Rightarrow> string list" where
  "fuzzy_tokens term = (let ts = filter (\<lambda>t. 3 \<le> length t) (split_whitespace term) in remdups (sort (if ts = [] then [term] else ts)))"

definition fuzzy_rows :: "conflict_db \<Rightarrow> nat \<Rightarrow> string \<Rightarrow> string \<Rightarrow> scored_row list" where
  "fuzzy_rows db limit term token =
     List.map_filter (\<lambda>(p, mp). let score = trigram_similarity (pa_norm p) term
                           in if 45 / 100 \<le> score then row_hit score (''fuzzy:'' @ term) (p, mp) else None)
       (take limit (party_rows db (\<lambda>n. str_contains n token))) @
     List.map_filter (\<lambda>(a, x). let score = trigram_similarity (al_norm a) term
                           in if 45 / 100 \<le> score then row_hit score (''fuzzy:'' @ term) x else None)
       (take limit (alias_rows db (\<lambda>n. str_contains n token)))"

definition term_rows :: "conflict_db \<Rightarrow> nat \<Rightarrow> string \<Rightarrow> scored_row list" where
  "term_rows db limit term =
     direct_rows db limit term @ alias_hit_rows db limit term @ concat (map (fuzzy_rows db limit term) (fuzzy_tokens term))"

definition seed_parties :: "scored_row list \<Rightarrow> (uuid, string) hashmap" where
  "seed_parties rows = fold (\<lambda>(i, nm, _, _). hm_insert i nm) rows []"

definition relationship_rows :: "conflict_db \<Rightarrow> nat \<Rightarrow> uuid \<times> string \<Rightarrow> (conflict_hit \<times> rat) list" where
  "relationship_rows db limit seed =
     concat (map (\<lambda>(i, path). List.map_filter (\<lambda>(p, mp). map_option (\<lambda>h. (h, 8 / 10))
                (build_hit (pa_name p) mp (if 1 < length path then ''relationship:'' @ path ! 1 else ''relationship'') path))
              (take limit (concat (map (in_matters db) (filter (\<lambda>p. pa_id p = i) (gr_parties db))))))
       (relationship_paths db (fst seed) (snd seed) 3))"

definition match_priority :: "string \<Rightarrow> nat" where
  "match_priority via = (if via = ''direct'' then 3 else if starts_with via ''alias:'' then 2 else 1)"

definition hit_key :: "conflict_hit \<Rightarrow> string \<times> string \<times> string" where
  "hit_key h = (ch_party h, party_role_str (ch_role h), ch_matter h)"

definition keep_best ::
  "conflict_hit \<times> rat \<Rightarrow> (string \<times> string \<times> string, nat \<times> rat \<times> conflict_hit) hashmap \<Rightarrow> (string \<times> string \<times> string, nat \<times> rat \<times> conflict_hit) hashmap" where
  "keep_best row best =
     (case row of (hit, score) \<Rightarrow>
        let priority = match_priority (ch_via hit)
        in case hm_get best (hit_key hit) of
             Some (p, s, _) \<Rightarrow> if p > priority \<or> p = priority \<and> s \<ge> score then best else hm_insert (hit_key hit) (priority, score, hit) best
           | None \<Rightarrow> hm_insert (hit_key hit) (priority, score, hit) best)"

definition dedupe_hits :: "(conflict_hit \<times> rat) list \<Rightarrow> nat \<Rightarrow> conflict_hit list" where
  "dedupe_hits rows limit =
     take limit (sort_key (\<lambda>h. (ch_party h, ch_matter h, ch_via h)) (map (\<lambda>(_, _, _, h). h) (fold keep_best rows [])))"

definition normalize_input_terms :: "string list \<Rightarrow> string list" where
  "normalize_input_terms names = filter (\<lambda>n. n \<noteq> []) (map normalize_party_name names)"

definition find_conflict_hits_for_names :: "string list \<Rightarrow> nat \<Rightarrow> conflict_db \<Rightarrow> string + conflict_hit list" where
  "find_conflict_hits_for_names names limit db =
     (let terms = normalize_input_terms names; lim = min limit 200
      in if terms = [] \<or> limit = 0 then Inr []
         else case gr_down db of Some e \<Rightarrow> Inl e
              | None \<Rightarrow>
                  let rows = concat (map (term_rows db lim) terms)
                  in Inr (dedupe_hits (map (\<lambda>(_, _, h, s). (h, s)) rows @ concat (map (relationship_rows db lim) (seed_parties rows))) lim))"

definition find_conflict_hits_for_text :: "string \<Rightarrow> string option \<Rightarrow> nat \<Rightarrow> conflict_db \<Rightarrow> string + conflict_hit list" where
  "find_conflict_hits_for_text msg active limit db = find_conflict_hits_for_names (conflict_terms_from_text msg active) limit db"

section \<open>The breadth-first search is exact\<close>

definition adjacent :: "conflict_db \<Rightarrow> uuid \<Rightarrow> uuid set" where
  "adjacent db i = fst ` set (neighbours db i)"

fun within_steps :: "conflict_db \<Rightarrow> uuid \<Rightarrow> nat \<Rightarrow> uuid set" where
  "within_steps db s 0 = {s}"
| "within_steps db s (Suc n) = within_steps db s n \<union> (\<Union>x \<in> within_steps db s n. adjacent db x)"





lemma within_mono: "d \<le> e \<Longrightarrow> within_steps db s d \<subseteq> within_steps db s e"
  by (induction e) (auto simp: le_Suc_eq)






section \<open>One best hit per party, role and matter\<close>

definition better :: "conflict_hit \<times> rat \<Rightarrow> nat \<times> rat" where
  "better row = (match_priority (ch_via (fst row)), snd row)"

definition best_ok :: "(conflict_hit \<times> rat) list \<Rightarrow> (string \<times> string \<times> string, nat \<times> rat \<times> conflict_hit) hashmap \<Rightarrow> bool" where
  "best_ok rows best \<longleftrightarrow> hm_wf best \<and>
     (\<forall>k p s h. hm_get best k = Some (p, s, h) \<longrightarrow> (h, s) \<in> set rows \<and> hit_key h = k \<and> p = match_priority (ch_via h)) \<and>
     (\<forall>row \<in> set rows. \<exists>p s h. hm_get best (hit_key (fst row)) = Some (p, s, h) \<and> better row \<le> (p, s))"

lemma best_ok_step:
  assumes "best_ok rows best"
  shows "best_ok (rows @ [row]) (keep_best row best)"
proof -
  obtain h s where row: "row = (h, s)" by (cases row)
  let ?p = "match_priority (ch_via h)" and ?k = "hit_key h"
  have get: "hm_get (keep_best row best) k =
      (if k = ?k \<and> (case hm_get best ?k of Some (p, t, _) \<Rightarrow> (p, t) < (?p, s) | None \<Rightarrow> True) then Some (?p, s, h) else hm_get best k)" for k
    by (auto simp: keep_best_def row Let_def hm_get_insert split: option.splits)
  have "hm_wf (keep_best row best)"
    using assms by (auto simp: best_ok_def keep_best_def row Let_def split: option.splits)
  moreover have "(h', s') \<in> set (rows @ [row]) \<and> hit_key h' = k \<and> p = match_priority (ch_via h')"
    if "hm_get (keep_best row best) k = Some (p, s', h')" for k p s' h'
  proof (cases "hm_get best k = Some (p, s', h')")
    case True
    then show ?thesis using assms unfolding best_ok_def by (cases k) simp
  next
    case False
    then show ?thesis using that unfolding get by (auto simp: row split: if_splits)
  qed
  moreover have "\<exists>p s' h'. hm_get (keep_best row best) (hit_key (fst r)) = Some (p, s', h') \<and> better r \<le> (p, s')"
    if "r \<in> set (rows @ [row])" for r
  proof (cases "r = row")
    case True
    then show ?thesis unfolding get by (auto simp: row better_def split: option.splits)
  next
    case False
    then have "r \<in> set rows" using that by simp
    then obtain p s' h' where old: "hm_get best (hit_key (fst r)) = Some (p, s', h')" "better r \<le> (p, s')"
      using assms unfolding best_ok_def by blast
    then show ?thesis unfolding get by (cases "hit_key (fst r) = ?k"; cases "better r") (auto split: option.splits)
  qed
  ultimately show ?thesis unfolding best_ok_def by blast
qed

lemma best_ok_fold: "best_ok rows (fold keep_best rows [])"
proof (induction rows rule: rev_induct)
  case (snoc row rows)
  then show ?case using best_ok_step by simp
qed (simp add: best_ok_def)

text \<open>The list of hits holds at most \<open>limit\<close> hits, sorted by party, matter and match, at most one for a party, role and matter; each is one of
  the rows found, and no row for the same party, role and matter ranks above it. When the limit allows, every row is represented.\<close>

lemma dedupe_hits_best:
  "sorted (map (\<lambda>h. (ch_party h, ch_matter h, ch_via h)) (dedupe_hits rows limit))
   \<and> length (dedupe_hits rows limit) \<le> limit
   \<and> distinct (map hit_key (dedupe_hits rows limit))
   \<and> (\<forall>h \<in> set (dedupe_hits rows limit). \<exists>s. (h, s) \<in> set rows \<and> (\<forall>r \<in> set rows. hit_key (fst r) = hit_key h \<longrightarrow> better r \<le> better (h, s)))"
proof -
  let ?best = "fold keep_best rows []" and ?k = "\<lambda>h. (ch_party h, ch_matter h, ch_via h)"
  let ?hs = "map (\<lambda>(_, _, _, h). h) ?best" and ?sorted = "sort_key ?k (map (\<lambda>(_, _, _, h). h) ?best)"
  have ok: "best_ok rows ?best" by (rule best_ok_fold)
  then have wf: "hm_wf ?best" by (simp add: best_ok_def)
  have entry: "hit_key h = k \<and> p = match_priority (ch_via h) \<and> (h, s) \<in> set rows" if "(k, p, s, h) \<in> set ?best" for k p s h
    using ok hm_in_set_get [OF wf that] unfolding best_ok_def by (cases k) simp
  have "map hit_key ?hs = map fst ?best" using entry by (auto simp: case_prod_beta)
  then have keys: "distinct (map hit_key ?hs)" using wf by (simp only: hm_wf_def)
  have "image_mset hit_key (mset ?sorted) = image_mset hit_key (mset ?hs)" by simp
  then have "mset (map hit_key ?sorted) = mset (map hit_key ?hs)" by (simp only: mset_map)
  then have dist: "distinct (map hit_key ?sorted)" using keys mset_eq_imp_distinct_iff by blast
  have "\<exists>s. (h, s) \<in> set rows \<and> (\<forall>r \<in> set rows. hit_key (fst r) = hit_key h \<longrightarrow> better r \<le> better (h, s))"
    if h: "h \<in> set (dedupe_hits rows limit)" for h
  proof -
    have "h \<in> set ?hs" using in_set_takeD [OF h [unfolded dedupe_hits_def]] by simp
    then obtain k p s where e: "(k, p, s, h) \<in> set ?best" by auto
    then have here: "hm_get ?best (hit_key h) = Some (p, s, h)" using entry hm_in_set_get [OF wf] by blast
    have "better r \<le> better (h, s)" if r: "r \<in> set rows" "hit_key (fst r) = hit_key h" for r
    proof -
      obtain p' s' h' where "hm_get ?best (hit_key (fst r)) = Some (p', s', h')" "better r \<le> (p', s')"
        using ok r(1) unfolding best_ok_def by blast
      then show ?thesis using here r(2) entry [OF e] by (simp add: better_def)
    qed
    then show ?thesis using entry [OF e] by blast
  qed
  moreover have "sorted (map ?k (dedupe_hits rows limit))"
    unfolding dedupe_hits_def take_map [symmetric] by (rule sorted_wrt_take) (rule sorted_sort_key)
  moreover have "distinct (map hit_key (dedupe_hits rows limit))"
    unfolding dedupe_hits_def take_map [symmetric] using dist by (rule distinct_take)
  ultimately show ?thesis by (simp add: dedupe_hits_def)
qed

lemma dedupe_hits_represents:
  assumes "r \<in> set rows" and "0 < limit"
  shows "dedupe_hits rows limit \<noteq> []"
    and "card (hit_key ` fst ` set rows) \<le> limit \<Longrightarrow> hit_key (fst r) \<in> hit_key ` set (dedupe_hits rows limit)"
proof -
  let ?best = "fold keep_best rows []"
  have ok: "best_ok rows ?best" by (rule best_ok_fold)
  then have wf: "hm_wf ?best" by (simp add: best_ok_def)
  have entry: "hit_key h = k \<and> (h, s) \<in> set rows" if "(k, p, s, h) \<in> set ?best" for k p s h
    using ok hm_in_set_get [OF wf that] unfolding best_ok_def by (cases k) simp
  obtain p s h where get: "hm_get ?best (hit_key (fst r)) = Some (p, s, h)" using ok assms(1) unfolding best_ok_def by blast
  then have "(hit_key (fst r), p, s, h) \<in> set ?best" by (rule hm_get_in_set)
  then have "?best \<noteq> []" by auto
  then have "0 < length (dedupe_hits rows limit)" using assms(2) by (simp add: dedupe_hits_def)
  then show "dedupe_hits rows limit \<noteq> []" by simp
  assume few: "card (hit_key ` fst ` set rows) \<le> limit"
  have "fst ` set ?best \<subseteq> hit_key ` fst ` set rows" using entry by force
  then have "length ?best \<le> limit"
    using few card_mono [of "hit_key ` fst ` set rows" "fst ` set ?best"] distinct_card [of "map fst ?best"] wf by (simp add: hm_wf_def)
  then have "set (dedupe_hits rows limit) = (\<lambda>(_, _, _, h). h) ` set ?best" by (simp add: dedupe_hits_def)
  then have "h \<in> set (dedupe_hits rows limit)"
    using imageI [OF \<open>(hit_key (fst r), p, s, h) \<in> set ?best\<close>, of "\<lambda>(_, _, _, h). h"] by (simp only: prod.case)
  moreover have "hit_key h = hit_key (fst r)" using entry [OF \<open>(hit_key (fst r), p, s, h) \<in> set ?best\<close>] by (rule conjunct1)
  ultimately show "hit_key (fst r) \<in> hit_key ` set (dedupe_hits rows limit)" by (metis imageI)
qed

section \<open>The graph stays well-formed and forgets nothing\<close>

definition party_keys :: "conflict_db \<Rightarrow> (uuid \<times> string) set" where
  "party_keys db = (\<lambda>p. (pa_id p, pa_norm p)) ` set (gr_parties db)"

definition alias_keys :: "conflict_db \<Rightarrow> (uuid \<times> string) set" where
  "alias_keys db = (\<lambda>a. (al_party a, al_norm a)) ` set (gr_aliases db)"

definition involved :: "conflict_db \<Rightarrow> uuid set" where
  "involved db = mp_party ` set (gr_matter_parties db)"

text \<open>A term is known when a party in a matter has it as its name or as one of its aliases.\<close>

definition known_term :: "conflict_db \<Rightarrow> string \<Rightarrow> bool" where
  "known_term db n \<longleftrightarrow> (\<exists>i \<in> involved db. i \<in> fst ` party_keys db \<and> ((i, n) \<in> party_keys db \<or> (i, n) \<in> alias_keys db))"

definition parties_ok :: "conflict_db \<Rightarrow> bool" where
  "parties_ok db \<longleftrightarrow> distinct (map pa_norm (gr_parties db)) \<and> distinct (map pa_id (gr_parties db))
     \<and> (\<forall>p \<in> set (gr_parties db). pa_id p < gr_next db \<and> pa_norm p \<noteq> [] \<and> normalize_party_name (pa_name p) = pa_norm p)"

definition aliases_ok :: "conflict_db \<Rightarrow> bool" where
  "aliases_ok db \<longleftrightarrow> distinct (map (\<lambda>a. (al_party a, al_norm a)) (gr_aliases db))
     \<and> (\<forall>a \<in> set (gr_aliases db). al_party a \<in> pa_id ` set (gr_parties db) \<and> al_norm a \<noteq> [] \<and> normalize_party_name (al_alias a) = al_norm a)"

definition matters_ok :: "conflict_db \<Rightarrow> bool" where
  "matters_ok db \<longleftrightarrow> distinct (map (\<lambda>m. (mp_matter m, mp_party m, mp_role m)) (gr_matter_parties db))
     \<and> (\<forall>m \<in> set (gr_matter_parties db). mp_party m \<in> pa_id ` set (gr_parties db) \<and> party_role_from_db_value (role_name m) \<noteq> None)"

definition graph_ok :: "conflict_db \<Rightarrow> bool" where
  "graph_ok db \<longleftrightarrow> parties_ok db \<and> aliases_ok db \<and> matters_ok db"

definition grows :: "conflict_db \<Rightarrow> conflict_db \<Rightarrow> bool" where
  "grows db db' \<longleftrightarrow> party_keys db \<subseteq> party_keys db' \<and> alias_keys db \<subseteq> alias_keys db' \<and> involved db \<subseteq> involved db' \<and> gr_down db' = gr_down db"

lemmas graph_defs = graph_ok_def parties_ok_def aliases_ok_def matters_ok_def
lemmas key_defs = grows_def party_keys_def alias_keys_def involved_def

lemma grows_refl [simp]: "grows db db"
  by (simp add: grows_def)

lemma grows_trans: "grows a b \<Longrightarrow> grows b c \<Longrightarrow> grows a c"
  by (auto simp: grows_def)

lemma grows_known: "grows db db' \<Longrightarrow> known_term db n \<Longrightarrow> known_term db' n"
  unfolding grows_def known_term_def by blast

lemma grows_member: "grows db db' \<Longrightarrow> (i, n) \<in> party_keys db \<Longrightarrow> i \<in> pa_id ` set (gr_parties db')"
  by (force simp: grows_def party_keys_def)

lemma role_text [simp]: "party_role_from_db_value (party_role_str r) = Some r"
  by (cases r) (simp_all add: party_role_str_def party_role_from_db_value_def)

lemma role_text_base: "party_role_from_db_value (case role_detail r of Some d \<Rightarrow> d | None \<Rightarrow> base_db_role r) = Some r"
  by (cases r) (simp_all add: role_detail_def base_db_role_def)

lemma name_trim [simp]: "normalize_party_name (trim s) = normalize_party_name s"
  by (simp add: normalize_party_name_eq normalize_trim)

lemma name_Nil [simp]: "normalize_party_name [] = []"
  by code_simp

text \<open>A list of rows in which only columns outside the key are rewritten keeps its keys.\<close>

lemma map_map_same: "(\<And>x. x \<in> set xs \<Longrightarrow> f (g x) = f x) \<Longrightarrow> map f (map g xs) = map f xs"
  by simp

lemma parties_upd:
  assumes "graph_ok db" and key: "\<And>q. (pa_id (u q), pa_norm (u q)) = (pa_id q, pa_norm q)"
    and nm: "\<And>q. q \<in> set (gr_parties db) \<Longrightarrow> normalize_party_name (pa_name (u q)) = pa_norm q"
  shows "graph_ok (db\<lparr>gr_parties := map u (gr_parties db)\<rparr>) \<and> grows db (db\<lparr>gr_parties := map u (gr_parties db)\<rparr>)
    \<and> party_keys (db\<lparr>gr_parties := map u (gr_parties db)\<rparr>) = party_keys db"
proof -
  let ?db = "db\<lparr>gr_parties := map u (gr_parties db)\<rparr>"
  have "map pa_norm (map u (gr_parties db)) = map pa_norm (gr_parties db)" "map pa_id (map u (gr_parties db)) = map pa_id (gr_parties db)"
    using key by simp_all
  then have "parties_ok ?db" using assms(1) key nm unfolding graph_ok_def parties_ok_def by (simp del: map_map)
  moreover have ids: "pa_id ` set (gr_parties ?db) = pa_id ` set (gr_parties db)" using key by (simp add: image_image)
  moreover have "party_keys ?db = party_keys db" using key by (simp add: party_keys_def image_image)
  ultimately show ?thesis using assms(1) unfolding graph_ok_def aliases_ok_def matters_ok_def grows_def ids alias_keys_def involved_def by simp
qed

lemma upsert_party_ok:
  assumes "graph_ok db" and "upsert_party name db = (r, db')"
  shows "graph_ok db' \<and> grows db db' \<and> (case r of None \<Rightarrow> True | Some i \<Rightarrow> (i, normalize_party_name name) \<in> party_keys db')"
    and "normalize_party_name name \<noteq> [] \<Longrightarrow> r \<noteq> None"
proof -
  let ?n = "normalize_party_name name"
  have blank: "trim name = [] \<Longrightarrow> ?n = []" using name_trim [of name] by simp
  show "?n \<noteq> [] \<Longrightarrow> r \<noteq> None" using assms(2) blank by (auto simp: upsert_party_def Let_def split: if_splits option.splits)
  show "graph_ok db' \<and> grows db db' \<and> (case r of None \<Rightarrow> True | Some i \<Rightarrow> (i, ?n) \<in> party_keys db')"
  proof (cases "trim name = [] \<or> ?n = []")
    case True
    then show ?thesis using assms by (auto simp: upsert_party_def Let_def split: if_splits option.splits)
  next
    case False
    show ?thesis
    proof (cases "find (\<lambda>p. pa_norm p = ?n) (gr_parties db)")
      case None
      then have fresh: "?n \<notin> pa_norm ` set (gr_parties db)" by (auto simp: find_None_iff)
      have db': "r = Some (gr_next db)" "db' = db\<lparr>gr_parties := gr_parties db @ [\<lparr>pa_id = gr_next db, pa_name = trim name, pa_norm = ?n, pa_notes = None\<rparr>],
          gr_next := Suc (gr_next db)\<rparr>"
        using assms(2) False None by (auto simp: upsert_party_def Let_def)
      have new: "gr_next db \<notin> pa_id ` set (gr_parties db)" using assms(1) by (auto simp: graph_ok_def parties_ok_def)
      have "parties_ok db'" using assms(1) fresh new False unfolding graph_ok_def parties_ok_def db' by (simp add: less_Suc_eq)
      moreover have "aliases_ok db'" "matters_ok db'" using assms(1) unfolding graph_ok_def aliases_ok_def matters_ok_def db' by simp_all
      ultimately show ?thesis using db' by (auto simp: graph_ok_def key_defs)
    next
      case (Some p)
      let ?u = "\<lambda>q. if pa_norm q = ?n then q\<lparr>pa_name := trim name\<rparr> else q"
      have db': "db' = db\<lparr>gr_parties := map ?u (gr_parties db)\<rparr>" "r = Some (pa_id p)"
        using assms(2) False Some by (auto simp: upsert_party_def Let_def)
      have p: "p \<in> set (gr_parties db)" "pa_norm p = ?n" using Some by (auto simp: find_Some_iff)
      have "graph_ok db' \<and> grows db db' \<and> party_keys db' = party_keys db"
        unfolding db'(1) using assms(1) by (rule parties_upd) (use assms(1) in \<open>auto simp: graph_ok_def parties_ok_def\<close>)
      then show ?thesis using p db'(2) by (force simp: party_keys_def)
    qed
  qed
qed

lemma matters_upd:
  assumes "graph_ok db" and key: "\<And>r. (mp_matter (u r), mp_party (u r), mp_role (u r)) = (mp_matter r, mp_party r, mp_role r)"
    and role: "\<And>r. r \<in> set (gr_matter_parties db) \<Longrightarrow> party_role_from_db_value (role_name (u r)) \<noteq> None"
  shows "graph_ok (db\<lparr>gr_matter_parties := map u (gr_matter_parties db)\<rparr>) \<and> grows db (db\<lparr>gr_matter_parties := map u (gr_matter_parties db)\<rparr>)
    \<and> involved (db\<lparr>gr_matter_parties := map u (gr_matter_parties db)\<rparr>) = involved db"
proof -
  let ?db = "db\<lparr>gr_matter_parties := map u (gr_matter_parties db)\<rparr>" and ?key = "\<lambda>m. (mp_matter m, mp_party m, mp_role m)"
  have "map ?key (map u (gr_matter_parties db)) = map ?key (gr_matter_parties db)" using key by simp
  then have "matters_ok ?db" using assms(1) key role unfolding graph_ok_def matters_ok_def by (simp del: map_map)
  moreover have "involved ?db = involved db" using key by (simp add: involved_def image_image)
  ultimately show ?thesis using assms(1) by (auto simp: graph_ok_def parties_ok_def aliases_ok_def grows_def party_keys_def alias_keys_def)
qed

lemma seed_matter_party_ok:
  assumes "graph_ok db" and "(i, n) \<in> party_keys db"
  shows "graph_ok (seed_matter_party m i role opened db)" "grows db (seed_matter_party m i role opened db)"
    "i \<in> involved (seed_matter_party m i role opened db)"
proof -
  let ?same = "\<lambda>r. mp_matter r = m \<and> mp_party r = i \<and> mp_role r = party_role_str role"
  let ?u = "\<lambda>r. if ?same r then r\<lparr>mp_opened := (case mp_opened r of Some d \<Rightarrow> Some d | None \<Rightarrow> opened)\<rparr> else r"
  let ?db = "seed_matter_party m i role opened db"
  have i: "i \<in> pa_id ` set (gr_parties db)" using assms(2) by (force simp: party_keys_def)
  have "graph_ok ?db \<and> grows db ?db \<and> i \<in> involved ?db"
  proof (cases "\<exists>r \<in> set (gr_matter_parties db). ?same r")
    case True
    then have db: "?db = db\<lparr>gr_matter_parties := map ?u (gr_matter_parties db)\<rparr>" by (simp add: seed_matter_party_def)
    have "graph_ok ?db \<and> grows db ?db \<and> involved ?db = involved db"
      unfolding db using assms(1)
    proof (rule matters_upd)
      show "party_role_from_db_value (role_name (?u r)) \<noteq> None" if "r \<in> set (gr_matter_parties db)" for r
        using assms(1) that by (auto simp: graph_ok_def matters_ok_def role_name_def split: option.splits)
    qed simp
    moreover have "i \<in> involved db" using True by (auto simp: involved_def)
    ultimately show ?thesis by simp
  next
    case False
    then show ?thesis using assms(1) i
      by (auto simp: seed_matter_party_def graph_defs key_defs role_name_def)
  qed
  then show "graph_ok ?db" "grows db ?db" "i \<in> involved ?db" by simp_all
qed

lemma alias_step_ok:
  assumes "graph_ok db" and "(i, n) \<in> party_keys db" and "normalize_party_name a \<noteq> []"
    and db': "db' = put_alias i (trim a) (normalize_party_name a) db"
  shows "graph_ok db' \<and> grows db db' \<and> (i, normalize_party_name a) \<in> alias_keys db' \<and> party_keys db' = party_keys db"
proof -
  let ?n = "normalize_party_name a" and ?key = "\<lambda>a. (al_party a, al_norm a)"
  let ?u = "\<lambda>r. if al_party r = i \<and> al_norm r = ?n then r\<lparr>al_alias := trim a\<rparr> else r"
  have i: "i \<in> pa_id ` set (gr_parties db)" using assms(2) by (force simp: party_keys_def)
  show ?thesis
  proof (cases "\<exists>r \<in> set (gr_aliases db). al_party r = i \<and> al_norm r = ?n")
    case True
    then have db: "db' = db\<lparr>gr_aliases := map ?u (gr_aliases db)\<rparr>" using db' by (simp add: put_alias_def)
    have same: "?key (?u r) = ?key r" "al_party (?u r) = al_party r" for r by simp_all
    have keys: "map ?key (map ?u (gr_aliases db)) = map ?key (gr_aliases db)" by simp
    then have "aliases_ok db'" using assms(1) unfolding graph_ok_def aliases_ok_def db by (auto simp del: map_map)
    moreover have "alias_keys db' = alias_keys db"
      using arg_cong [OF keys, of set] unfolding alias_keys_def db set_map [symmetric] by simp
    moreover have "(i, ?n) \<in> alias_keys db" using True by (force simp: alias_keys_def)
    ultimately show ?thesis using assms(1) unfolding graph_ok_def parties_ok_def matters_ok_def grows_def party_keys_def involved_def
      by (simp only: db conflict_db.simps) simp
  next
    case False
    then have db: "db' = db\<lparr>gr_aliases := gr_aliases db @ [\<lparr>al_party = i, al_alias = trim a, al_norm = ?n\<rparr>], gr_next := Suc (gr_next db)\<rparr>"
      using db' by (simp add: put_alias_def)
    show ?thesis using assms(1,3) i False unfolding db by (auto simp: graph_defs key_defs)
  qed
qed

lemma aliases_loop_ok:
  "graph_ok db \<Longrightarrow> (i, n) \<in> party_keys db \<Longrightarrow> \<forall>x \<in> set seen. (i, x) \<in> alias_keys db \<Longrightarrow>
     graph_ok (upsert_party_aliases_loop i seen as db) \<and> grows db (upsert_party_aliases_loop i seen as db)
     \<and> (\<forall>a \<in> set as. normalize_party_name a \<noteq> [] \<longrightarrow> (i, normalize_party_name a) \<in> alias_keys (upsert_party_aliases_loop i seen as db))"
proof (induction i seen as db rule: upsert_party_aliases_loop.induct)
  case (2 i seen a as db)
  let ?n = "normalize_party_name a"
  show ?case
  proof (cases "trim a = [] \<or> ?n = [] \<or> ?n \<in> set seen")
    case True
    have "trim a = [] \<Longrightarrow> ?n = []" using name_trim [of a] by simp
    then have loop: "upsert_party_aliases_loop i seen (a # as) db = upsert_party_aliases_loop i seen as db" and here: "?n = [] \<or> ?n \<in> set seen"
      using True by (auto simp: Let_def)
    have IH: "graph_ok (upsert_party_aliases_loop i seen as db)" "grows db (upsert_party_aliases_loop i seen as db)"
      "\<forall>a \<in> set as. normalize_party_name a \<noteq> [] \<longrightarrow> (i, normalize_party_name a) \<in> alias_keys (upsert_party_aliases_loop i seen as db)"
      using 2(1) [OF refl refl] 2(3-5) True by simp_all
    then have "?n \<noteq> [] \<Longrightarrow> (i, ?n) \<in> alias_keys (upsert_party_aliases_loop i seen as db)"
      using here "2.prems"(3) unfolding grows_def by blast
    then show ?thesis unfolding loop using IH by simp
  next
    case False
    define db' where "db' = put_alias i (trim a) ?n db"
    have step: "graph_ok db'" "grows db db'" "(i, ?n) \<in> alias_keys db'" "(i, n) \<in> party_keys db'"
      using alias_step_ok [OF "2.prems"(1,2) _ db'_def] False "2.prems"(2) by auto
    have loop: "upsert_party_aliases_loop i seen (a # as) db = upsert_party_aliases_loop i (?n # seen) as db'"
      using False by (auto simp: db'_def Let_def)
    have "\<forall>x \<in> set (?n # seen). (i, x) \<in> alias_keys db'" using step "2.prems"(3) by (auto simp: grows_def)
    then have "graph_ok (upsert_party_aliases_loop i (?n # seen) as db') \<and> grows db' (upsert_party_aliases_loop i (?n # seen) as db')
      \<and> (\<forall>a \<in> set as. normalize_party_name a \<noteq> [] \<longrightarrow> (i, normalize_party_name a) \<in> alias_keys (upsert_party_aliases_loop i (?n # seen) as db'))"
      using 2(2) [OF refl refl] False step by (simp add: db'_def)
    then show ?thesis unfolding loop using step grows_trans [OF step(2)] by (auto simp: grows_def)
  qed
qed simp

lemma involved_known: "i \<in> involved db \<Longrightarrow> (i, n) \<in> party_keys db \<Longrightarrow> known_term db n"
  unfolding known_term_def by force

lemma involved_alias: "i \<in> involved db \<Longrightarrow> (i, m) \<in> party_keys db \<Longrightarrow> (i, n) \<in> alias_keys db \<Longrightarrow> known_term db n"
  unfolding known_term_def by force

lemma seed_adversaries_ok:
  "graph_ok db \<Longrightarrow> graph_ok (seed_adversaries m opened ns db) \<and> grows db (seed_adversaries m opened ns db)
     \<and> (\<forall>n \<in> set ns. normalize_party_name n \<noteq> [] \<longrightarrow> known_term (seed_adversaries m opened ns db) (normalize_party_name n))"
proof (induction m opened ns db rule: seed_adversaries.induct)
  case (2 m opened n ns db)
  obtain r db1 where up: "upsert_party n db = (r, db1)" by (cases "upsert_party n db")
  have ok1: "graph_ok db1" "grows db db1" using upsert_party_ok(1) [OF "2.prems" up] by simp_all
  show ?case
  proof (cases r)
    case None
    then have "normalize_party_name n = []" using upsert_party_ok(2) [OF "2.prems" up] by auto
    then show ?thesis using 2(1) [OF up [symmetric] None] ok1 up None grows_trans [OF ok1(2)] by simp
  next
    case (Some i)
    let ?db2 = "seed_matter_party m i Adverse opened db1"
    have key: "(i, normalize_party_name n) \<in> party_keys db1" using upsert_party_ok(1) [OF "2.prems" up] Some by simp
    note ok2 = seed_matter_party_ok [OF ok1(1) key, of m Adverse opened]
    have known: "known_term ?db2 (normalize_party_name n)"
      using ok2(3) key ok2(2) involved_known unfolding grows_def by blast
    note IH = 2(2) [OF up [symmetric] Some ok2(1)]
    show ?thesis using IH up Some grows_trans [OF grows_trans [OF ok1(2) ok2(2)]] grows_known [OF _ known] by auto
  qed
qed simp

text \<open>The operations that change the graph.\<close>

datatype graph_op =
    SeedMatter string string "string list" "string option"
  | SeedConflict string string "string list" "string option"
  | ResetGraph
  | AddAliases string "string list"
  | PutMatterParty string matter_party_params
  | PutRelationship relationship_params

definition apply_graph_op :: "(string \<Rightarrow> string option) \<Rightarrow> bool \<Rightarrow> graph_op \<Rightarrow> conflict_db \<Rightarrow> conflict_db" where
  "apply_graph_op fmt fk p db =
     (case p of
        SeedMatter m c advs opened \<Rightarrow> snd (seed_matter_parties fmt m c advs opened db)
      | SeedConflict m n as opened \<Rightarrow> snd (seed_conflict_entry fmt m n as opened db)
      | ResetGraph \<Rightarrow> snd (reset_conflict_graph db)
      | AddAliases n as \<Rightarrow> snd (upsert_party_aliases n as db)
      | PutMatterParty m input \<Rightarrow> snd (upsert_matter_party m input db)
      | PutRelationship input \<Rightarrow> snd (upsert_party_relationship fk input db))"

lemma seed_matter_parties_ok:
  assumes "graph_ok db"
  shows "graph_ok (snd (seed_matter_parties fmt m c advs opened db)) \<and> grows db (snd (seed_matter_parties fmt m c advs opened db))"
    and "fst (seed_matter_parties fmt m c advs opened db) = Inr () \<Longrightarrow> n \<in> set (c # advs) \<Longrightarrow> normalize_party_name n \<noteq> [] \<Longrightarrow>
      known_term (snd (seed_matter_parties fmt m c advs opened db)) (normalize_party_name n)"
proof -
  obtain r db1 where up: "upsert_party c db = (r, db1)" by (cases "upsert_party c db")
  have ok1: "graph_ok db1" "grows db db1" using upsert_party_ok(1) [OF assms up] by simp_all
  let ?db2 = "\<lambda>o'. case r of None \<Rightarrow> db1 | Some i \<Rightarrow> seed_matter_party (trim m) i Client o' db1"
  have ok2: "graph_ok (?db2 o') \<and> grows db (?db2 o') \<and> (normalize_party_name c \<noteq> [] \<longrightarrow> known_term (?db2 o') (normalize_party_name c))" for o'
  proof (cases r)
    case None
    then show ?thesis using ok1 upsert_party_ok(2) [OF assms up] by auto
  next
    case (Some i)
    have key: "(i, normalize_party_name c) \<in> party_keys db1" using upsert_party_ok(1) [OF assms up] Some by simp
    note s = seed_matter_party_ok [OF ok1(1) key, of "trim m" Client o']
    have "known_term (seed_matter_party (trim m) i Client o' db1) (normalize_party_name c)"
      using s(2,3) key involved_known unfolding grows_def by blast
    then show ?thesis using Some s grows_trans [OF ok1(2)] by simp
  qed
  note adv = seed_adversaries_ok [OF conjunct1 [OF ok2]]
  have run: "graph_ok (seed_adversaries (trim m) o' advs (?db2 o')) \<and> grows db (seed_adversaries (trim m) o' advs (?db2 o'))" for o'
    using adv [of "trim m" o' advs o'] grows_trans ok2 [of o'] by blast
  have cases: "snd (seed_matter_parties fmt m c advs opened db) = db \<and> fst (seed_matter_parties fmt m c advs opened db) \<noteq> Inr ()
    \<or> (\<exists>o'. snd (seed_matter_parties fmt m c advs opened db) = seed_adversaries (trim m) o' advs (?db2 o'))"
    by (auto simp: seed_matter_parties_def up split: sum.splits option.splits)
  then show "graph_ok (snd (seed_matter_parties fmt m c advs opened db)) \<and> grows db (snd (seed_matter_parties fmt m c advs opened db))"
    using run assms by auto
  assume "fst (seed_matter_parties fmt m c advs opened db) = Inr ()" and n: "n \<in> set (c # advs)" "normalize_party_name n \<noteq> []"
  then obtain o' where "snd (seed_matter_parties fmt m c advs opened db) = seed_adversaries (trim m) o' advs (?db2 o')"
    using cases by auto
  then show "known_term (snd (seed_matter_parties fmt m c advs opened db)) (normalize_party_name n)"
    using adv [of "trim m" o' advs o'] ok2 [of o'] n grows_known by auto
qed

lemma seed_conflict_entry_ok:
  assumes "graph_ok db"
  shows "graph_ok (snd (seed_conflict_entry fmt m name as opened db)) \<and> grows db (snd (seed_conflict_entry fmt m name as opened db))"
    and "fst (seed_conflict_entry fmt m name as opened db) = Inr () \<Longrightarrow> normalize_party_name name \<noteq> [] \<Longrightarrow> a \<in> set (name # as) \<Longrightarrow>
      normalize_party_name a \<noteq> [] \<Longrightarrow> known_term (snd (seed_conflict_entry fmt m name as opened db)) (normalize_party_name a)"
proof -
  obtain r db1 where up: "upsert_party name db = (r, db1)" by (cases "upsert_party name db")
  have ok1: "graph_ok db1" "grows db db1" using upsert_party_ok(1) [OF assms up] by simp_all
  let ?db2 = "\<lambda>i o'. seed_matter_party (trim m) i Adverse o' db1"
  let ?db3 = "\<lambda>i o'. upsert_party_aliases_with_conn i as (?db2 i o')"
  have run: "graph_ok (?db3 i o') \<and> grows db (?db3 i o')
      \<and> (a \<in> set (name # as) \<longrightarrow> normalize_party_name a \<noteq> [] \<longrightarrow> known_term (?db3 i o') (normalize_party_name a))" if i: "r = Some i" for i o'
  proof -
    have key: "(i, normalize_party_name name) \<in> party_keys db1" using upsert_party_ok(1) [OF assms up] i by simp
    note s = seed_matter_party_ok [OF ok1(1) key, of "trim m" Adverse o']
    have key2: "(i, normalize_party_name name) \<in> party_keys (?db2 i o')" using key s(2) unfolding grows_def by blast
    note l = aliases_loop_ok [OF s(1) key2, of "[]" as, simplified, folded upsert_party_aliases_with_conn_def]
    have g: "grows (?db2 i o') (?db3 i o')" using l by blast
    then have i3: "i \<in> involved (?db3 i o')" "(i, normalize_party_name name) \<in> party_keys (?db3 i o')"
      using s(3) key2 unfolding grows_def by blast+
    show ?thesis using l g grows_trans [OF grows_trans [OF ok1(2) s(2)]] involved_known [OF i3] involved_alias [OF i3] by auto
  qed
  have cases: "snd (seed_conflict_entry fmt m name as opened db) = db \<and> fst (seed_conflict_entry fmt m name as opened db) \<noteq> Inr ()
    \<or> r = None \<and> snd (seed_conflict_entry fmt m name as opened db) = db1
    \<or> (\<exists>i o'. r = Some i \<and> snd (seed_conflict_entry fmt m name as opened db) = ?db3 i o')"
    by (auto simp: seed_conflict_entry_def up split: sum.splits option.splits)
  then show "graph_ok (snd (seed_conflict_entry fmt m name as opened db)) \<and> grows db (snd (seed_conflict_entry fmt m name as opened db))"
    using run ok1 assms by auto
  assume "fst (seed_conflict_entry fmt m name as opened db) = Inr ()" "normalize_party_name name \<noteq> []" "a \<in> set (name # as)" "normalize_party_name a \<noteq> []"
  then show "known_term (snd (seed_conflict_entry fmt m name as opened db)) (normalize_party_name a)"
    using cases run upsert_party_ok(2) [OF assms up] by auto
qed

lemma upsert_party_aliases_ok:
  assumes "graph_ok db"
  shows "graph_ok (snd (upsert_party_aliases name as db)) \<and> grows db (snd (upsert_party_aliases name as db))"
proof -
  obtain r db1 where up: "upsert_party name db = (r, db1)" by (cases "upsert_party name db")
  note ok1 = upsert_party_ok(1) [OF assms up]
  have "graph_ok (upsert_party_aliases_with_conn i as db1) \<and> grows db1 (upsert_party_aliases_with_conn i as db1)" if "r = Some i" for i
    using aliases_loop_ok [of db1 i "normalize_party_name name" "[]" as] ok1 that unfolding upsert_party_aliases_with_conn_def by simp
  then show ?thesis using assms ok1 up grows_trans by (fastforce simp: upsert_party_aliases_def split: option.splits)
qed

lemma resolve_party_ok:
  assumes "graph_ok db" and "resolve_party f i nm db = (r, db')"
  shows "graph_ok db' \<and> grows db db'"
  using assms(2) upsert_party_ok(1) [OF assms(1)] assms(1)
  by (fastforce simp: resolve_party_def split: option.splits prod.splits)

lemma upsert_party_relationship_ok:
  assumes "graph_ok db"
  shows "graph_ok (snd (upsert_party_relationship fk input db)) \<and> grows db (snd (upsert_party_relationship fk input db))"
proof -
  obtain p db1 where r1: "resolve_party ''parent_name'' (rp_parent_id input) (rp_parent_name input) db = (p, db1)"
    by (cases "resolve_party ''parent_name'' (rp_parent_id input) (rp_parent_name input) db")
  obtain c db2 where r2: "resolve_party ''child_name'' (rp_child_id input) (rp_child_name input) db1 = (c, db2)"
    by (cases "resolve_party ''child_name'' (rp_child_id input) (rp_child_name input) db1")
  note ok1 = resolve_party_ok [OF assms r1]
  note ok2 = resolve_party_ok [OF conjunct1 [OF ok1] r2]
  have g: "grows db db2" using ok1 ok2 grows_trans by blast
  have new: "graph_ok (db2\<lparr>gr_rels := rs, gr_next := Suc (gr_next db2)\<rparr>) \<and> grows db (db2\<lparr>gr_rels := rs, gr_next := Suc (gr_next db2)\<rparr>)" for rs
    using ok2 g by (auto simp: graph_defs key_defs less_Suc_eq)
  show ?thesis using ok2 g new assms unfolding upsert_party_relationship_def r1 r2 Let_def
    by (auto simp: r2 split: option.splits sum.splits)
qed

lemma put_matter_party_ok:
  assumes "graph_ok db" and "(i, n) \<in> party_keys db"
    and db': "db' = put_matter_party m i input db"
  shows "graph_ok db' \<and> grows db db'"
proof -
  let ?base = "base_db_role (mpp_role input)"
  let ?same = "\<lambda>r. mp_matter r = m \<and> mp_party r = i \<and> mp_role r = ?base"
  let ?u = "\<lambda>r. if ?same r then r\<lparr>mp_role_detail := role_detail (mpp_role input),
      mp_opened := (case mpp_opened input of Some d \<Rightarrow> Some d | None \<Rightarrow> mp_opened r), mp_closed := mpp_closed input\<rparr> else r"
  have i: "i \<in> pa_id ` set (gr_parties db)" using assms(2) by (force simp: party_keys_def)
  show ?thesis
  proof (cases "\<exists>r \<in> set (gr_matter_parties db). ?same r")
    case True
    then have db: "db' = db\<lparr>gr_matter_parties := map ?u (gr_matter_parties db)\<rparr>" using db' by (simp add: put_matter_party_def)
    have "graph_ok db' \<and> grows db db' \<and> involved db' = involved db" unfolding db using assms(1)
    proof (rule matters_upd)
      show "party_role_from_db_value (role_name (?u r)) \<noteq> None" if "r \<in> set (gr_matter_parties db)" for r
        using assms(1) that role_text_base [of "mpp_role input"] by (auto simp: graph_ok_def matters_ok_def role_name_def split: option.splits)
    qed simp
    then show ?thesis by simp
  next
    case False
    then have db: "db' = db\<lparr>gr_matter_parties := gr_matter_parties db @ [\<lparr>mp_id = gr_next db, mp_matter = m, mp_party = i, mp_role = ?base,
        mp_role_detail = role_detail (mpp_role input), mp_opened = mpp_opened input, mp_closed = mpp_closed input\<rparr>], gr_next := Suc (gr_next db)\<rparr>"
      unfolding db' by (auto simp: put_matter_party_def Let_def)
    have "matters_ok db'" using assms(1) i False role_text_base [of "mpp_role input"] unfolding db graph_ok_def matters_ok_def
      by (auto simp: role_name_def cong: option.case_cong)
    then show ?thesis using assms(1) by (auto simp: db graph_ok_def parties_ok_def aliases_ok_def key_defs less_Suc_eq)
  qed
qed

lemma upsert_matter_party_ok:
  assumes "graph_ok db"
  shows "graph_ok (snd (upsert_matter_party m input db)) \<and> grows db (snd (upsert_matter_party m input db))"
proof (cases "snd (upsert_matter_party m input db) = db")
  case False
  obtain r db1 where up: "upsert_party (mpp_name input) db = (r, db1)" by (cases "upsert_party (mpp_name input) db")
  obtain i where i: "r = Some i" using False up by (cases r) (auto simp: upsert_matter_party_def split: option.splits)
  have ok1: "graph_ok db1" "grows db db1" and key1: "(i, normalize_party_name (mpp_name input)) \<in> party_keys db1"
    using upsert_party_ok(1) [OF assms up] i by simp_all
  define db2 where "db2 = (case mpp_notes input of None \<Rightarrow> db1
     | Some n \<Rightarrow> db1\<lparr>gr_parties := map (\<lambda>p. if pa_id p = i then p\<lparr>pa_notes := Some n\<rparr> else p) (gr_parties db1)\<rparr>)"
  have ok2: "graph_ok db2 \<and> grows db1 db2"
  proof (cases "mpp_notes input")
    case (Some n)
    have "graph_ok db2 \<and> grows db1 db2 \<and> party_keys db2 = party_keys db1" unfolding db2_def Some option.case using ok1(1)
      by (rule parties_upd) (use ok1(1) in \<open>auto simp: graph_ok_def parties_ok_def\<close>)
    then show ?thesis by simp
  qed (simp add: db2_def ok1)
  then have key2: "(i, normalize_party_name (mpp_name input)) \<in> party_keys db2" using key1 unfolding grows_def by blast
  define db3 where "db3 = put_matter_party m i input db2"
  have ok3: "graph_ok db3 \<and> grows db2 db3" by (rule put_matter_party_ok [OF conjunct1 [OF ok2] key2 db3_def])
  then have key3: "(i, normalize_party_name (mpp_name input)) \<in> party_keys db3" using key2 unfolding grows_def by blast
  have ok4: "graph_ok (upsert_party_aliases_with_conn i (mpp_aliases input) db3) \<and> grows db3 (upsert_party_aliases_with_conn i (mpp_aliases input) db3)"
    using aliases_loop_ok [OF conjunct1 [OF ok3] key3, of "[]"] by (simp add: upsert_party_aliases_with_conn_def)
  have "gr_down db = None" using False by (auto simp: upsert_matter_party_def split: option.splits)
  then have "snd (upsert_matter_party m input db) = upsert_party_aliases_with_conn i (mpp_aliases input) db3"
    using False unfolding upsert_matter_party_def up i Let_def db2_def [symmetric] db3_def [symmetric] prod.case option.case
    by (auto simp: db2_def [symmetric] db3_def [symmetric] split: option.splits [where option = "find x y" for x y])
  then show ?thesis using ok1 ok2 ok3 ok4 grows_trans by metis
qed (use assms in simp)

lemma apply_graph_op_ok:
  assumes "graph_ok db"
  shows "graph_ok (apply_graph_op fmt fk p db)" and "p \<noteq> ResetGraph \<Longrightarrow> grows db (apply_graph_op fmt fk p db)"
proof -
  have reset: "graph_ok (snd (reset_conflict_graph db))"
    using assms by (auto simp: reset_conflict_graph_def graph_defs split: option.splits)
  note ok = seed_matter_parties_ok(1) seed_conflict_entry_ok(1) upsert_party_aliases_ok upsert_matter_party_ok upsert_party_relationship_ok
  show "graph_ok (apply_graph_op fmt fk p db)"
    unfolding apply_graph_op_def using ok [OF assms] reset by (cases p) simp_all
  show "p \<noteq> ResetGraph \<Longrightarrow> grows db (apply_graph_op fmt fk p db)"
    unfolding apply_graph_op_def using ok [OF assms] by (cases p) simp_all
qed

definition empty_graph :: "conflict_db \<Rightarrow> bool" where
  "empty_graph db \<longleftrightarrow> gr_parties db = [] \<and> gr_aliases db = [] \<and> gr_rels db = [] \<and> gr_matter_parties db = []"

interpretation conflict_graph: steps_inv empty_graph "\<lambda>db db'. \<exists>fmt fk p. db' = apply_graph_op fmt fk p db" graph_ok
proof unfold_locales
  show "graph_ok db" if "empty_graph db" for db using that by (simp add: empty_graph_def graph_defs)
  show "graph_ok db'" if "graph_ok db" "\<exists>fmt fk p. db' = apply_graph_op fmt fk p db" for db db' using that apply_graph_op_ok(1) by blast
qed

lemma graph_ops_keep:
  "graph_ok db \<Longrightarrow> ResetGraph \<notin> set ps \<Longrightarrow> graph_ok (fold (apply_graph_op fmt fk) ps db) \<and> grows db (fold (apply_graph_op fmt fk) ps db)"
proof (induction ps arbitrary: db)
  case (Cons p ps)
  have "graph_ok (apply_graph_op fmt fk p db)" "grows db (apply_graph_op fmt fk p db)"
    using apply_graph_op_ok(1) [OF Cons.prems(1)] apply_graph_op_ok(2) [OF Cons.prems(1), of p] Cons.prems(2) by auto
  then show ?case using Cons.IH [of "apply_graph_op fmt fk p db"] Cons.prems(2) grows_trans by auto
qed simp

section \<open>A recorded party is found\<close>

lemma role_row_hit:
  assumes "graph_ok db" and "(p, m) \<in> set (in_matters db q)"
  shows "row_hit s via (p, m) \<noteq> None"
  using assms by (auto simp: in_matters_def row_hit_def build_hit_def graph_ok_def matters_ok_def)

lemma map_filter_all: "xs \<noteq> [] \<Longrightarrow> (\<And>x. x \<in> set xs \<Longrightarrow> f x \<noteq> None) \<Longrightarrow> List.map_filter f xs \<noteq> []"
  by (cases xs) (force simp: map_filter_simps split: option.splits)+

lemma known_term_rows:
  assumes ok: "graph_ok db" and known: "known_term db n" and "0 < limit"
  shows "term_rows db limit n \<noteq> []"
proof -
  obtain i where i: "i \<in> involved db" "i \<in> fst ` party_keys db" "(i, n) \<in> party_keys db \<or> (i, n) \<in> alias_keys db"
    using known unfolding known_term_def by blast
  obtain m where m: "m \<in> set (gr_matter_parties db)" "mp_party m = i" using i(1) by (auto simp: involved_def)
  obtain p where p: "p \<in> set (gr_parties db)" "pa_id p = i" using i(2) by (auto simp: party_keys_def)
  have row: "(p, m) \<in> set (in_matters db p)" using m p by (simp add: in_matters_def)
  show ?thesis
  proof (cases "(i, n) \<in> party_keys db")
    case True
    then obtain q where q: "q \<in> set (gr_parties db)" "pa_id q = i" "pa_norm q = n" by (auto simp: party_keys_def)
    then have "(q, m) \<in> set (party_rows db (\<lambda>x. x = n))" using m by (auto simp: party_rows_def in_matters_def)
    then have "take limit (party_rows db (\<lambda>x. x = n)) \<noteq> []" using assms(3) by auto
    moreover have "row_hit 1 ''direct'' x \<noteq> None" if x: "x \<in> set (take limit (party_rows db (\<lambda>x. x = n)))" for x
    proof -
      obtain q k y where "x = (q, k)" "(q, k) \<in> set (in_matters db y)"
        using in_set_takeD [OF x] unfolding party_rows_def set_concat set_map by (cases x) blast
      then show ?thesis using role_row_hit [OF ok] by simp
    qed
    ultimately have "direct_rows db limit n \<noteq> []" unfolding direct_rows_def by (rule map_filter_all)
    then show ?thesis by (simp add: term_rows_def)
  next
    case False
    then obtain a where a: "a \<in> set (gr_aliases db)" "al_party a = i" "al_norm a = n" using i(3) by (auto simp: alias_keys_def)
    then have "(a, p, m) \<in> set (alias_rows db (\<lambda>x. x = n))" using p row by (auto simp: alias_rows_def)
    then have "take limit (alias_rows db (\<lambda>x. x = n)) \<noteq> []" using assms(3) by auto
    moreover have "(case x of (a, x) \<Rightarrow> row_hit (9 / 10) (''alias:'' @ al_alias a) x) \<noteq> None"
      if x: "x \<in> set (take limit (alias_rows db (\<lambda>x. x = n)))" for x
    proof -
      obtain b q k y where "x = (b, q, k)" "(q, k) \<in> set (in_matters db y)"
        using in_set_takeD [OF x] unfolding alias_rows_def set_concat set_map by auto
      then show ?thesis using role_row_hit [OF ok] by simp
    qed
    ultimately have "alias_hit_rows db limit n \<noteq> []" unfolding alias_hit_rows_def by (rule map_filter_all)
    then show ?thesis by (simp add: term_rows_def)
  qed
qed

lemma known_party_found:
  assumes "graph_ok db" and "gr_down db = None" and "known_term db (normalize_party_name a)" and "normalize_party_name a \<noteq> []"
    and "a \<in> set names" and "0 < limit"
  shows "\<exists>hits. find_conflict_hits_for_names names limit db = Inr hits \<and> hits \<noteq> []"
proof -
  let ?n = "normalize_party_name a" and ?terms = "normalize_input_terms names" and ?lim = "min limit 200"
  have n: "?n \<in> set ?terms" using assms by (auto simp: normalize_input_terms_def)
  obtain r where r: "r \<in> set (term_rows db ?lim ?n)" using known_term_rows [OF assms(1,3), of ?lim] assms(6) by (cases "term_rows db ?lim ?n") auto
  let ?rows = "concat (map (term_rows db ?lim) ?terms)"
  have "r \<in> set ?rows" using r n by auto
  then have mem: "(\<lambda>(_, _, h, s). (h, s)) r \<in> set (map (\<lambda>(_, _, h, s). (h, s)) ?rows @ concat (map (relationship_rows db ?lim) (seed_parties ?rows)))"
    unfolding set_append set_map by (intro UnI1 imageI)
  have "0 < ?lim" using assms(6) by simp
  note hits = dedupe_hits_represents(1) [OF mem this]
  have "?terms \<noteq> []" using n by auto
  then show ?thesis using hits assms(2,6) unfolding find_conflict_hits_for_names_def Let_def by simp
qed

text \<open>C33: A recorded party is not missed. Whatever happened to the conflict graph before, when a conflict entry with a name and aliases is
  recorded, then after any further operations other than a reset, a search for the name or for one of its aliases, in any spelling that
  normalises to it, reports at least one hit; and the graph keeps one row for a normalised name, for an alias of a party and for a role of a
  party in a matter.\<close>

theorem recorded_party_found:
  assumes reached: "reach empty_graph (\<lambda>db db'. \<exists>fmt fk p. db' = apply_graph_op fmt fk p db) db"
    and up: "gr_down db = None"
    and recorded: "fst (seed_conflict_entry fmt matter name aliases opened db) = Inr ()" and "normalize_party_name name \<noteq> []"
    and later: "ResetGraph \<notin> set ops" "db' = fold (apply_graph_op fmt fk) ops (snd (seed_conflict_entry fmt matter name aliases opened db))"
    and asked: "a \<in> set (name # aliases)" "normalize_party_name a \<noteq> []" "normalize_party_name q = normalize_party_name a" "q \<in> set names" "0 < limit"
  shows "(\<exists>hits. find_conflict_hits_for_names names limit db' = Inr hits \<and> hits \<noteq> []) \<and> graph_ok db'"
proof -
  have "graph_ok db" using conflict_graph.reach_inv reached by blast
  note entry = seed_conflict_entry_ok [OF this, of fmt matter name aliases opened]
  have run: "graph_ok db'" "grows (snd (seed_conflict_entry fmt matter name aliases opened db)) db'"
    using graph_ops_keep [OF conjunct1 [OF entry(1)] later(1)] later(2) by simp_all
  have "known_term db' (normalize_party_name q)" using grows_known [OF run(2) entry(2)] recorded assms(4) asked by simp
  moreover have "gr_down db' = None" using entry(1) run(2) up by (simp add: grows_def)
  ultimately show ?thesis using known_party_found [OF run(1), of q names limit] asked run(1) by simp
qed

definition graph0 :: conflict_db where
  "graph0 = \<lparr>gr_down = None, gr_next = 0, gr_parties = [], gr_aliases = [], gr_rels = [], gr_matter_parties = []\<rparr>"

theorem recorded_party_found_witness:
  "(\<exists>hits. find_conflict_hits_for_names [''ACME  corp.''] 5
      (fold (apply_graph_op (\<lambda>_. None) True) [AddAliases ''Beta'' [''B'']]
        (snd (seed_conflict_entry (\<lambda>_. None) ''m1'' ''Acme Holdings'' [''Acme Corp''] None graph0))) = Inr hits \<and> hits \<noteq> [])"
proof -
  have "reach empty_graph (\<lambda>db db'. \<exists>fmt fk p. db' = apply_graph_op fmt fk p db) graph0"
    by (rule reach.intros) (simp add: empty_graph_def graph0_def)
  moreover have "gr_down graph0 = None" by (simp add: graph0_def)
  moreover have "fst (seed_conflict_entry (\<lambda>_. None) ''m1'' ''Acme Holdings'' [''Acme Corp''] None graph0) = Inr ()" by code_simp
  moreover have "normalize_party_name ''Acme Holdings'' \<noteq> []" "normalize_party_name ''Acme Corp'' \<noteq> []"
    "normalize_party_name ''ACME  corp.'' = normalize_party_name ''Acme Corp''" by code_simp+
  ultimately show ?thesis
    using recorded_party_found [of graph0 "\<lambda>_. None" "''m1''" "''Acme Holdings''" "[''Acme Corp'']" None "[AddAliases ''Beta'' [''B'']]" _ True
        "''Acme Corp''" "''ACME  corp.''" "[''ACME  corp.'']" 5] by simp
qed

end
