(* ===== verification/Secrets.thy ===== *)
theory Secrets
  imports Network_Policy
begin

text \<open>
  Secrets (\<open>src/secrets/crypto.rs\<close>, \<open>store.rs\<close>, \<open>types.rs\<close>) and their injection into requests
  (\<open>src/tools/wasm/credential_injector.rs\<close>). HKDF, AES-256-GCM and UTF-8 checking are the record \<open>crypto_prims\<close>, with the
  law \<open>aead_laws\<close>; the salt and the nonce are the values the random generators returned. A byte string is a \<open>string\<close>.
  The libSQL store and the in-memory store satisfy one abstract specification, a map, as interpretations of the locale \<open>refines\<close>. Times are in milliseconds.
\<close>

section \<open>Encryption\<close>

datatype secret_error =
    NotFound string
  | Expired
  | DecryptionFailed string
  | EncryptionFailed string
  | InvalidMasterKey
  | InvalidUtf8
  | Database string
  | AccessDenied
  | KeychainError string

definition secret_error_text :: "secret_error \<Rightarrow> string" where
  "secret_error_text e =
     (case e of NotFound s \<Rightarrow> ''Secret not found: '' @ s | Expired \<Rightarrow> ''Secret has expired''
      | DecryptionFailed s \<Rightarrow> ''Decryption failed: '' @ s | EncryptionFailed s \<Rightarrow> ''Encryption failed: '' @ s
      | InvalidMasterKey \<Rightarrow> ''Invalid master key'' | InvalidUtf8 \<Rightarrow> ''Secret value is not valid UTF-8''
      | Database s \<Rightarrow> ''Database error: '' @ s | AccessDenied \<Rightarrow> ''Secret access denied for tool''
      | KeychainError s \<Rightarrow> ''Keychain error: '' @ s)"

type_synonym bytes = string

record crypto_prims =
  hkdf_expand :: "bytes \<Rightarrow> bytes \<Rightarrow> bytes option"
  aes_encrypt :: "bytes \<Rightarrow> bytes \<Rightarrow> bytes \<Rightarrow> bytes option"
  aes_decrypt :: "bytes \<Rightarrow> bytes \<Rightarrow> bytes \<Rightarrow> bytes option"
  valid_utf8 :: "bytes \<Rightarrow> bool"

definition KEY_SIZE :: nat where "KEY_SIZE = 32"
definition NONCE_SIZE :: nat where "NONCE_SIZE = 12"
definition TAG_SIZE :: nat where "TAG_SIZE = 16"

record secrets_crypto =
  master_key :: string

definition crypto_new :: "string \<Rightarrow> secret_error + secrets_crypto" where
  "crypto_new key = (if length key < KEY_SIZE then Inl InvalidMasterKey else Inr \<lparr>master_key = key\<rparr>)"

definition derive_key :: "crypto_prims \<Rightarrow> secrets_crypto \<Rightarrow> bytes \<Rightarrow> secret_error + bytes" where
  "derive_key cp c salt =
     (case hkdf_expand cp salt (master_key c) of Some k \<Rightarrow> Inr k | None \<Rightarrow> Inl (EncryptionFailed ''HKDF expansion failed''))"

definition encrypt :: "crypto_prims \<Rightarrow> secrets_crypto \<Rightarrow> bytes \<Rightarrow> bytes \<Rightarrow> bytes \<Rightarrow> secret_error + bytes \<times> bytes" where
  "encrypt cp c salt nonce plaintext =
     (case derive_key cp c salt of Inl e \<Rightarrow> Inl e
      | Inr k \<Rightarrow>
          if length k \<noteq> KEY_SIZE then Inl (EncryptionFailed ''Failed to create cipher: Invalid Length'')
          else case aes_encrypt cp k nonce plaintext of
                 None \<Rightarrow> Inl (EncryptionFailed ''Encryption failed: aead::Error'')
               | Some ciphertext \<Rightarrow> Inr (nonce @ ciphertext, salt))"

definition decrypted_from_bytes :: "crypto_prims \<Rightarrow> bytes \<Rightarrow> secret_error + string" where
  "decrypted_from_bytes cp b = (if valid_utf8 cp b then Inr b else Inl InvalidUtf8)"

definition decrypt :: "crypto_prims \<Rightarrow> secrets_crypto \<Rightarrow> bytes \<Rightarrow> bytes \<Rightarrow> secret_error + string" where
  "decrypt cp c encrypted salt =
     (if length encrypted < NONCE_SIZE + TAG_SIZE then Inl (DecryptionFailed ''Encrypted value too short'')
      else case derive_key cp c salt of Inl e \<Rightarrow> Inl e
           | Inr k \<Rightarrow>
               if length k \<noteq> KEY_SIZE then Inl (DecryptionFailed ''Failed to create cipher: Invalid Length'')
               else case aes_decrypt cp k (take NONCE_SIZE encrypted) (drop NONCE_SIZE encrypted) of
                      None \<Rightarrow> Inl (DecryptionFailed ''Decryption failed: aead::Error'')
                    | Some plaintext \<Rightarrow> decrypted_from_bytes cp plaintext)"

text \<open>What AES-GCM promises: decryption inverts encryption under the same key and nonce, and the tag makes the ciphertext at
  least 16 bytes long.\<close>

definition aead_laws :: "crypto_prims \<Rightarrow> bool" where
  "aead_laws cp \<longleftrightarrow>
     (\<forall>k n p c. aes_encrypt cp k n p = Some c \<longrightarrow> aes_decrypt cp k n c = Some p \<and> TAG_SIZE \<le> length c)"

lemma decrypt_encrypt:
  assumes "aead_laws cp" and "encrypt cp c salt nonce p = Inr (e, salt')" and "length nonce = NONCE_SIZE" and "valid_utf8 cp p"
  shows "salt' = salt \<and> decrypt cp c e salt = Inr p"
proof -
  obtain k x where k: "derive_key cp c salt = Inr k" "length k = KEY_SIZE" and x: "aes_encrypt cp k nonce p = Some x"
    and e: "e = nonce @ x" "salt' = salt"
    using assms(2) by (auto simp: encrypt_def split: sum.splits if_splits option.splits)
  have "aes_decrypt cp k nonce x = Some p" "TAG_SIZE \<le> length x" using assms(1) x unfolding aead_laws_def by blast+
  then show ?thesis using k e assms(3,4) by (simp add: decrypt_def decrypted_from_bytes_def)
qed

section \<open>Stores\<close>

record secret =
  se_id :: uuid
  se_user :: string
  se_name :: string
  se_encrypted :: bytes
  se_salt :: bytes
  se_provider :: "string option"
  se_expires :: "nat option"
  se_last_used :: "nat option"
  se_usage :: int
  se_created :: nat
  se_updated :: nat

record create_secret_params =
  sp_name :: string
  sp_value :: string
  sp_provider :: "string option"
  sp_expires :: "nat option"

text \<open>What a call draws from outside: a new identifier, the salt, the nonce and the clock.\<close>

record draw =
  dr_id :: uuid
  dr_salt :: bytes
  dr_nonce :: bytes
  dr_now :: nat

definition check_expiry :: "nat \<Rightarrow> secret \<Rightarrow> secret_error + secret" where
  "check_expiry now s = (case se_expires s of Some e \<Rightarrow> if e < now then Inl Expired else Inr s | None \<Rightarrow> Inr s)"

definition secret_allowed :: "string list \<Rightarrow> string \<Rightarrow> bool" where
  "secret_allowed allowed name \<longleftrightarrow>
     (\<exists>pattern \<in> set allowed. pattern = name \<or> (case strip_suffix pattern ''*'' of Some p \<Rightarrow> starts_with name p | None \<Rightarrow> False))"

subsection \<open>libSQL\<close>

record libsql_secrets =
  ss_down :: "string option"
  ss_rows :: "secret list"

definition same_secret :: "string \<Rightarrow> string \<Rightarrow> secret \<Rightarrow> bool" where
  "same_secret user nm s \<longleftrightarrow> se_user s = user \<and> se_name s = nm"

definition ls_row :: "libsql_secrets \<Rightarrow> string \<Rightarrow> string \<Rightarrow> secret option" where
  "ls_row st user nm = find (same_secret user nm) (ss_rows st)"

definition ls_create ::
  "crypto_prims \<Rightarrow> secrets_crypto \<Rightarrow> draw \<Rightarrow> string \<Rightarrow> create_secret_params \<Rightarrow> libsql_secrets \<Rightarrow> (secret_error + secret) \<times> libsql_secrets" where
  "ls_create cp c d user p st =
     (case encrypt cp c (dr_salt d) (dr_nonce d) (sp_value p) of Inl e \<Rightarrow> (Inl e, st)
      | Inr (enc, salt) \<Rightarrow>
          (case ss_down st of Some e \<Rightarrow> (Inl (Database e), st)
           | None \<Rightarrow>
               let st' = (if \<exists>s \<in> set (ss_rows st). same_secret user (sp_name p) s
                          then st\<lparr>ss_rows := map (\<lambda>s. if same_secret user (sp_name p) s
                                   then s\<lparr>se_encrypted := enc, se_salt := salt, se_provider := sp_provider p, se_expires := sp_expires p,
                                          se_updated := dr_now d\<rparr> else s) (ss_rows st)\<rparr>
                          else st\<lparr>ss_rows := ss_rows st @ [\<lparr>se_id = dr_id d, se_user = user, se_name = sp_name p, se_encrypted = enc,
                                   se_salt = salt, se_provider = sp_provider p, se_expires = sp_expires p, se_last_used = None, se_usage = 0,
                                   se_created = dr_now d, se_updated = dr_now d\<rparr>]\<rparr>)
               in (case ls_row st' user (sp_name p) of Some s \<Rightarrow> (Inr s, st')
                   | None \<Rightarrow> (Inl (Database ''Insert succeeded but row not found''), st))))"

definition ls_get :: "nat \<Rightarrow> string \<Rightarrow> string \<Rightarrow> libsql_secrets \<Rightarrow> secret_error + secret" where
  "ls_get now user nm st =
     (case ss_down st of Some e \<Rightarrow> Inl (Database e)
      | None \<Rightarrow> (case ls_row st user nm of Some s \<Rightarrow> check_expiry now s | None \<Rightarrow> Inl (NotFound nm)))"

definition ls_get_decrypted :: "crypto_prims \<Rightarrow> secrets_crypto \<Rightarrow> nat \<Rightarrow> string \<Rightarrow> string \<Rightarrow> libsql_secrets \<Rightarrow> secret_error + string" where
  "ls_get_decrypted cp c now user nm st =
     (case ls_get now user nm st of Inl e \<Rightarrow> Inl e | Inr s \<Rightarrow> decrypt cp c (se_encrypted s) (se_salt s))"

definition ls_exists :: "string \<Rightarrow> string \<Rightarrow> libsql_secrets \<Rightarrow> secret_error + bool" where
  "ls_exists user nm st = (case ss_down st of Some e \<Rightarrow> Inl (Database e) | None \<Rightarrow> Inr (ls_row st user nm \<noteq> None))"

definition ls_delete :: "string \<Rightarrow> string \<Rightarrow> libsql_secrets \<Rightarrow> (secret_error + bool) \<times> libsql_secrets" where
  "ls_delete user nm st =
     (case ss_down st of Some e \<Rightarrow> (Inl (Database e), st)
      | None \<Rightarrow> (Inr (\<exists>s \<in> set (ss_rows st). same_secret user nm s),
                 st\<lparr>ss_rows := filter (\<lambda>s. \<not> same_secret user nm s) (ss_rows st)\<rparr>))"

definition ls_record_usage :: "nat \<Rightarrow> uuid \<Rightarrow> libsql_secrets \<Rightarrow> (secret_error + unit) \<times> libsql_secrets" where
  "ls_record_usage now i st =
     (case ss_down st of Some e \<Rightarrow> (Inl (Database e), st)
      | None \<Rightarrow> (Inr (), st\<lparr>ss_rows := map (\<lambda>s. if se_id s = i then s\<lparr>se_last_used := Some now, se_usage := se_usage s + 1\<rparr> else s) (ss_rows st)\<rparr>))"

definition ls_is_accessible :: "string \<Rightarrow> string \<Rightarrow> string list \<Rightarrow> libsql_secrets \<Rightarrow> secret_error + bool" where
  "ls_is_accessible user nm allowed st =
     (case ls_exists user nm st of Inl e \<Rightarrow> Inl e | Inr found \<Rightarrow> Inr (found \<and> secret_allowed allowed nm))"

subsection \<open>In memory\<close>

type_synonym memory_secrets = "(string \<times> string, secret) hashmap"

definition im_create ::
  "crypto_prims \<Rightarrow> secrets_crypto \<Rightarrow> draw \<Rightarrow> string \<Rightarrow> create_secret_params \<Rightarrow> memory_secrets \<Rightarrow> (secret_error + secret) \<times> memory_secrets" where
  "im_create cp c d user p st =
     (case encrypt cp c (dr_salt d) (dr_nonce d) (sp_value p) of Inl e \<Rightarrow> (Inl e, st)
      | Inr (enc, salt) \<Rightarrow>
          let s = \<lparr>se_id = dr_id d, se_user = user, se_name = sp_name p, se_encrypted = enc, se_salt = salt, se_provider = sp_provider p,
                   se_expires = sp_expires p, se_last_used = None, se_usage = 0, se_created = dr_now d, se_updated = dr_now d\<rparr>
          in (Inr s, hm_insert (user, sp_name p) s st))"

definition im_get :: "nat \<Rightarrow> string \<Rightarrow> string \<Rightarrow> memory_secrets \<Rightarrow> secret_error + secret" where
  "im_get now user nm st = (case hm_get st (user, nm) of Some s \<Rightarrow> check_expiry now s | None \<Rightarrow> Inl (NotFound nm))"

definition im_get_decrypted :: "crypto_prims \<Rightarrow> secrets_crypto \<Rightarrow> nat \<Rightarrow> string \<Rightarrow> string \<Rightarrow> memory_secrets \<Rightarrow> secret_error + string" where
  "im_get_decrypted cp c now user nm st =
     (case im_get now user nm st of Inl e \<Rightarrow> Inl e | Inr s \<Rightarrow> decrypt cp c (se_encrypted s) (se_salt s))"

definition im_exists :: "string \<Rightarrow> string \<Rightarrow> memory_secrets \<Rightarrow> secret_error + bool" where
  "im_exists user nm st = Inr (hm_get st (user, nm) \<noteq> None)"

definition im_delete :: "string \<Rightarrow> string \<Rightarrow> memory_secrets \<Rightarrow> (secret_error + bool) \<times> memory_secrets" where
  "im_delete user nm st = (Inr (hm_get st (user, nm) \<noteq> None), hm_remove (user, nm) st)"

definition im_record_usage :: "nat \<Rightarrow> uuid \<Rightarrow> memory_secrets \<Rightarrow> (secret_error + unit) \<times> memory_secrets" where
  "im_record_usage now i st = (Inr (), st)"

definition im_is_accessible :: "string \<Rightarrow> string \<Rightarrow> string list \<Rightarrow> memory_secrets \<Rightarrow> secret_error + bool" where
  "im_is_accessible user nm allowed st =
     (case im_exists user nm st of Inl e \<Rightarrow> Inl e | Inr found \<Rightarrow> Inr (found \<and> secret_allowed allowed nm))"

subsection \<open>The abstract store\<close>

datatype secret_op = CreateSecret draw string create_secret_params | DeleteSecret string string | RecordUsage nat uuid

type_synonym secret_map = "string \<times> string \<rightharpoonup> bytes \<times> bytes \<times> string option \<times> nat option"

definition secret_spec :: "crypto_prims \<Rightarrow> secrets_crypto \<Rightarrow> secret_op \<Rightarrow> secret_map \<Rightarrow> secret_map" where
  "secret_spec cp c p m =
     (case p of
        CreateSecret d user q \<Rightarrow>
          (case encrypt cp c (dr_salt d) (dr_nonce d) (sp_value q) of Inl _ \<Rightarrow> m
           | Inr (enc, salt) \<Rightarrow> m((user, sp_name q) \<mapsto> (enc, salt, sp_provider q, sp_expires q)))
      | DeleteSecret user nm \<Rightarrow> m((user, nm) := None)
      | RecordUsage _ _ \<Rightarrow> m)"

definition spec_decrypted :: "crypto_prims \<Rightarrow> secrets_crypto \<Rightarrow> nat \<Rightarrow> string \<Rightarrow> string \<Rightarrow> secret_map \<Rightarrow> secret_error + string" where
  "spec_decrypted cp c now user nm m =
     (case m (user, nm) of None \<Rightarrow> Inl (NotFound nm)
      | Some (enc, salt, _, expires) \<Rightarrow>
          if (case expires of Some e \<Rightarrow> e < now | None \<Rightarrow> False) then Inl Expired else decrypt cp c enc salt)"

definition sealed :: "secret \<Rightarrow> bytes \<times> bytes \<times> string option \<times> nat option" where
  "sealed s = (se_encrypted s, se_salt s, se_provider s, se_expires s)"

definition ls_op :: "crypto_prims \<Rightarrow> secrets_crypto \<Rightarrow> secret_op \<Rightarrow> libsql_secrets \<Rightarrow> libsql_secrets" where
  "ls_op cp c p st = (case p of CreateSecret d user q \<Rightarrow> snd (ls_create cp c d user q st)
     | DeleteSecret user nm \<Rightarrow> snd (ls_delete user nm st) | RecordUsage now i \<Rightarrow> snd (ls_record_usage now i st))"

definition im_op :: "crypto_prims \<Rightarrow> secrets_crypto \<Rightarrow> secret_op \<Rightarrow> memory_secrets \<Rightarrow> memory_secrets" where
  "im_op cp c p st = (case p of CreateSecret d user q \<Rightarrow> snd (im_create cp c d user q st)
     | DeleteSecret user nm \<Rightarrow> snd (im_delete user nm st) | RecordUsage now i \<Rightarrow> snd (im_record_usage now i st))"

definition ls_view :: "libsql_secrets \<Rightarrow> secret_map" where
  "ls_view st = (\<lambda>(user, nm). map_option sealed (ls_row st user nm))"

definition im_view :: "memory_secrets \<Rightarrow> secret_map" where
  "im_view st = (\<lambda>k. map_option sealed (hm_get st k))"

lemma find_upd:
  "(\<And>x. Q (u x) = Q x) \<Longrightarrow> find Q (map u xs) = map_option u (find Q xs)"
  by (induction xs) auto

lemma find_filter_other: "(\<And>x. x \<in> set xs \<Longrightarrow> Q x \<Longrightarrow> P x) \<Longrightarrow> find Q (filter P xs) = find Q xs"
  by (induction xs) auto

lemma find_same_None: "find (same_secret u n) xs = None \<longleftrightarrow> \<not> (\<exists>s \<in> set xs. same_secret u n s)"
  by (auto simp: find_None_iff)

lemma ls_create_view:
  assumes "ss_down st = None" and enc: "encrypt cp c (dr_salt d) (dr_nonce d) (sp_value q) = Inr (enc, salt)"
  shows "ss_down (snd (ls_create cp c d user q st)) = None"
    and "ls_view (snd (ls_create cp c d user q st)) = (ls_view st)((user, sp_name q) \<mapsto> (enc, salt, sp_provider q, sp_expires q))"
proof -
  let ?k = "same_secret user (sp_name q)"
  let ?u = "\<lambda>s. if ?k s then s\<lparr>se_encrypted := enc, se_salt := salt, se_provider := sp_provider q, se_expires := sp_expires q, se_updated := dr_now d\<rparr> else s"
  let ?new = "\<lparr>se_id = dr_id d, se_user = user, se_name = sp_name q, se_encrypted = enc, se_salt = salt, se_provider = sp_provider q,
    se_expires = sp_expires q, se_last_used = None, se_usage = 0, se_created = dr_now d, se_updated = dr_now d\<rparr>"
  have keep: "find (same_secret a b) (map ?u xs) = map_option ?u (find (same_secret a b) xs)" for a b xs
    by (rule find_upd) (simp add: same_secret_def)
  have "ss_down (snd (ls_create cp c d user q st)) = None
    \<and> ls_view (snd (ls_create cp c d user q st)) = (ls_view st)((user, sp_name q) \<mapsto> (enc, salt, sp_provider q, sp_expires q))"
  proof (cases "\<exists>s \<in> set (ss_rows st). ?k s")
    case True
    then obtain s where s: "find ?k (ss_rows st) = Some s" using find_same_None by fastforce
    then have ks: "?k s" by (auto simp: find_Some_iff)
    have run: "snd (ls_create cp c d user q st) = st\<lparr>ss_rows := map ?u (ss_rows st)\<rparr>"
      using True assms s ks by (simp add: ls_create_def ls_row_def keep split: option.splits)
    have "ls_view (st\<lparr>ss_rows := map ?u (ss_rows st)\<rparr>) k = ((ls_view st)((user, sp_name q) \<mapsto> (enc, salt, sp_provider q, sp_expires q))) k" for k
    proof (cases k)
      case (Pair a b)
      show ?thesis
      proof (cases "(a, b) = (user, sp_name q)")
        case True
        then show ?thesis using s ks Pair by (simp add: ls_view_def ls_row_def keep sealed_def)
      next
        case False
        have "find (same_secret a b) (ss_rows st) = Some x \<Longrightarrow> \<not> ?k x" for x
          using False by (auto simp: find_Some_iff same_secret_def)
        then show ?thesis using False Pair
          by (cases "find (same_secret a b) (ss_rows st)") (auto simp: ls_view_def ls_row_def keep)
      qed
    qed
    then show ?thesis using run assms(1) by (simp add: fun_eq_iff)
  next
    case False
    then have none: "find ?k (ss_rows st) = None" by (simp add: find_same_None)
    have run: "snd (ls_create cp c d user q st) = st\<lparr>ss_rows := ss_rows st @ [?new]\<rparr>"
      using False none assms by (auto simp: ls_create_def ls_row_def find_append same_secret_def split: option.splits)
    have "ls_view (st\<lparr>ss_rows := ss_rows st @ [?new]\<rparr>) k = ((ls_view st)((user, sp_name q) \<mapsto> (enc, salt, sp_provider q, sp_expires q))) k" for k
      using none by (cases k) (auto simp: ls_view_def ls_row_def find_append sealed_def same_secret_def split: option.splits)
    then show ?thesis using run assms(1) by (simp add: fun_eq_iff)
  qed
  then show "ss_down (snd (ls_create cp c d user q st)) = None"
    "ls_view (snd (ls_create cp c d user q st)) = (ls_view st)((user, sp_name q) \<mapsto> (enc, salt, sp_provider q, sp_expires q))" by simp_all
qed

lemma ls_op_view:
  assumes "ss_down st = None"
  shows "ss_down (ls_op cp c p st) = None \<and> ls_view (ls_op cp c p st) = secret_spec cp c p (ls_view st)"
proof (cases p)
  case (CreateSecret d user q)
  show ?thesis
  proof (cases "encrypt cp c (dr_salt d) (dr_nonce d) (sp_value q)")
    case (Inl e)
    then show ?thesis using CreateSecret assms by (simp add: ls_op_def secret_spec_def ls_create_def)
  next
    case (Inr x)
    obtain enc salt where "x = (enc, salt)" by (cases x)
    then show ?thesis using CreateSecret Inr ls_create_view [OF assms] by (simp add: ls_op_def secret_spec_def)
  qed
next
  case (DeleteSecret user nm)
  have "ls_view (st\<lparr>ss_rows := filter (\<lambda>s. \<not> same_secret user nm s) (ss_rows st)\<rparr>) k = ((ls_view st)((user, nm) := None)) k" for k
  proof (cases k)
    case (Pair a b)
    then show ?thesis
    proof (cases "(a, b) = (user, nm)")
      case True
      then show ?thesis using Pair by (simp add: ls_view_def ls_row_def find_same_None)
    next
      case False
      then have "find (same_secret a b) (filter (\<lambda>s. \<not> same_secret user nm s) (ss_rows st)) = find (same_secret a b) (ss_rows st)"
        by (intro find_filter_other) (auto simp: same_secret_def)
      then show ?thesis using False Pair by (auto simp: ls_view_def ls_row_def)
    qed
  qed
  then show ?thesis using DeleteSecret assms by (simp add: ls_op_def secret_spec_def ls_delete_def fun_eq_iff)
next
  case (RecordUsage now i)
  let ?u = "\<lambda>s. if se_id s = i then s\<lparr>se_last_used := Some now, se_usage := se_usage s + 1\<rparr> else s"
  have "ls_view (st\<lparr>ss_rows := map ?u (ss_rows st)\<rparr>) k = ls_view st k" for k
    by (cases k) (simp add: ls_view_def ls_row_def find_upd same_secret_def sealed_def [abs_def] option.map_comp comp_def if_distrib cong: if_cong)
  then show ?thesis using RecordUsage assms by (simp add: ls_op_def secret_spec_def ls_record_usage_def fun_eq_iff)
qed

lemma im_op_view: "im_view (im_op cp c p st) = secret_spec cp c p (im_view st)"
  by (cases p)
    (auto simp: im_op_def secret_spec_def im_create_def im_delete_def im_record_usage_def im_view_def sealed_def hm_get_insert hm_get_remove
      fun_eq_iff Let_def split: sum.splits prod.splits)

interpretation libsql_secrets: refines "\<lambda>st. ss_down st = None" ls_view "ls_op cp c" "secret_spec cp c"
  by unfold_locales (simp_all add: ls_op_view)

interpretation memory_secrets: refines "\<lambda>_. True" im_view "im_op cp c" "secret_spec cp c"
  by unfold_locales (simp_all add: im_op_view)

lemma ls_decrypted_view: "ss_down st = None \<Longrightarrow> ls_get_decrypted cp c now user nm st = spec_decrypted cp c now user nm (ls_view st)"
  by (auto simp: ls_get_decrypted_def ls_get_def check_expiry_def spec_decrypted_def ls_view_def sealed_def split: option.splits)

lemma im_decrypted_view: "im_get_decrypted cp c now user nm st = spec_decrypted cp c now user nm (im_view st)"
  by (auto simp: im_get_decrypted_def im_get_def check_expiry_def spec_decrypted_def im_view_def sealed_def split: option.splits)

lemma stores_refine:
  "ls_get_decrypted cp c now user nm (fold (ls_op cp c) ops \<lparr>ss_down = None, ss_rows = []\<rparr>)
     = spec_decrypted cp c now user nm (fold (secret_spec cp c) ops Map.empty)
   \<and> im_get_decrypted cp c now user nm (fold (im_op cp c) ops []) = spec_decrypted cp c now user nm (fold (secret_spec cp c) ops Map.empty)"
proof -
  let ?s0 = "\<lparr>ss_down = None, ss_rows = []\<rparr>"
  have "ls_view ?s0 = Map.empty" "im_view [] = Map.empty" by (auto simp: ls_view_def ls_row_def im_view_def)
  moreover have "ss_down (fold (ls_op cp c) ops ?s0) = None"
    using libsql_secrets.run_wf [of ?s0 cp c ops] by simp
  ultimately show ?thesis
    using libsql_secrets.run_abs [of ?s0 cp c ops] by (simp add: ls_decrypted_view im_decrypted_view memory_secrets.run_abs)
qed


lemma secret_spec_other:
  "(\<And>p. p \<in> set ops \<Longrightarrow> (case p of CreateSecret _ u q \<Rightarrow> (u, sp_name q) \<noteq> k | DeleteSecret u n \<Rightarrow> (u, n) \<noteq> k | RecordUsage _ _ \<Rightarrow> True)) \<Longrightarrow>
     fold (secret_spec cp c) ops m k = m k"
proof (induction ops arbitrary: m)
  case (Cons p ops)
  have "secret_spec cp c p m k = m k" using Cons.prems [of p] by (cases p) (auto simp: secret_spec_def split: sum.splits)
  then show ?case using Cons by simp
qed simp

text \<open>A secret comes back as it was stored, and under its own user and name only: once creation succeeded, and while no later operation
  creates or deletes a secret of that user and name, both stores decrypt it to its value until it expires, whatever happens to other
  secrets.\<close>

theorem secret_roundtrip:
  assumes "aead_laws cp" and "length (dr_nonce d) = NONCE_SIZE" and "valid_utf8 cp (sp_value q)"
    and created: "encrypt cp c (dr_salt d) (dr_nonce d) (sp_value q) = Inr x"
    and others: "\<And>p. p \<in> set later \<Longrightarrow> (case p of CreateSecret _ u r \<Rightarrow> (u, sp_name r) \<noteq> (user, sp_name q)
                    | DeleteSecret u n \<Rightarrow> (u, n) \<noteq> (user, sp_name q) | RecordUsage _ _ \<Rightarrow> True)"
    and fresh: "case sp_expires q of Some e \<Rightarrow> now \<le> e | None \<Rightarrow> True"
  shows "ls_get_decrypted cp c now user (sp_name q) (fold (ls_op cp c) (before @ CreateSecret d user q # later) \<lparr>ss_down = None, ss_rows = []\<rparr>) = Inr (sp_value q)
    \<and> im_get_decrypted cp c now user (sp_name q) (fold (im_op cp c) (before @ CreateSecret d user q # later) []) = Inr (sp_value q)"
proof -
  obtain enc salt where x: "x = (enc, salt)" by (cases x)
  have dec: "salt = dr_salt d" "decrypt cp c enc salt = Inr (sp_value q)"
    using decrypt_encrypt [OF assms(1) created [unfolded x] assms(2,3)] by auto
  let ?ops = "before @ CreateSecret d user q # later"
  have "fold (secret_spec cp c) later m (user, sp_name q) = m (user, sp_name q)" for m
    by (rule secret_spec_other) (use others in blast)
  then have "fold (secret_spec cp c) ?ops Map.empty (user, sp_name q) = Some (enc, salt, sp_provider q, sp_expires q)"
    using created x by (simp add: secret_spec_def)
  then have "spec_decrypted cp c now user (sp_name q) (fold (secret_spec cp c) ?ops Map.empty) = Inr (sp_value q)"
    using dec fresh by (auto simp: spec_decrypted_def split: option.splits)
  then show ?thesis by (simp only: stores_refine)
qed

text \<open>A cipher that satisfies the law: the plaintext followed by a constant tag.\<close>

definition plain_prims :: crypto_prims where
  "plain_prims = \<lparr>hkdf_expand = (\<lambda>salt key. Some (take 32 key)),
     aes_encrypt = (\<lambda>k n p. Some (p @ replicate 16 (CHR ''t''))),
     aes_decrypt = (\<lambda>k n c. if length c < 16 then None else Some (take (length c - 16) c)),
     valid_utf8 = (\<lambda>b. \<forall>c \<in> set b. (of_char c :: nat) < 128)\<rparr>"

lemma plain_prims_laws: "aead_laws plain_prims"
  by (simp add: aead_laws_def plain_prims_def TAG_SIZE_def)

definition key32 :: secrets_crypto where
  "key32 = \<lparr>master_key = replicate 32 (CHR ''k'')\<rparr>"

definition draw0 :: draw where
  "draw0 = \<lparr>dr_id = 1, dr_salt = ''s'', dr_nonce = replicate 12 (CHR ''n''), dr_now = 5\<rparr>"

definition api_secret :: create_secret_params where
  "api_secret = \<lparr>sp_name = ''api'', sp_value = ''sk-1'', sp_provider = None, sp_expires = Some 100\<rparr>"

theorem secret_roundtrip_witness:
  "ls_get_decrypted plain_prims key32 50 ''ann'' ''api''
     (fold (ls_op plain_prims key32) [CreateSecret draw0 ''ann'' api_secret, DeleteSecret ''bob'' ''api''] \<lparr>ss_down = None, ss_rows = []\<rparr>) = Inr ''sk-1''"
proof -
  obtain x where "encrypt plain_prims key32 (dr_salt draw0) (dr_nonce draw0) (sp_value api_secret) = Inr x"
    by (simp add: encrypt_def derive_key_def plain_prims_def key32_def KEY_SIZE_def)
  moreover have "length (dr_nonce draw0) = NONCE_SIZE" "valid_utf8 plain_prims (sp_value api_secret)"
    by (simp_all add: draw0_def NONCE_SIZE_def plain_prims_def api_secret_def)
  ultimately show ?thesis
    using secret_roundtrip [OF plain_prims_laws, of draw0 api_secret key32 x "[DeleteSecret ''bob'' ''api'']" "''ann''" 50 "[]"]
    by (simp add: api_secret_def)
qed

section \<open>Injection into requests\<close>

definition injector_host_matches :: "string \<Rightarrow> string \<Rightarrow> bool" where
  "injector_host_matches host pattern \<longleftrightarrow>
     pattern = host \<or>
     (case strip_prefix pattern ''*.'' of None \<Rightarrow> False
      | Some suf \<Rightarrow> ends_with host suf \<and> length suf < length host \<and>
          (let pre = take (length host - length suf) host in ends_with pre ''.'' \<or> pre = []))"

definition mapping_matches :: "string \<Rightarrow> credential_mapping \<Rightarrow> bool" where
  "mapping_matches host m \<longleftrightarrow> list_ex (injector_host_matches host) (host_patterns m)"

record credential_injector =
  ci_mappings :: "(string, credential_mapping) hashmap"
  ci_allowed :: "string list"

definition find_credentials_for_host :: "credential_injector \<Rightarrow> string \<Rightarrow> credential_mapping list" where
  "find_credentials_for_host ci host = filter (mapping_matches host) (map snd (ci_mappings ci))"

definition add_mappings :: "credential_mapping list \<Rightarrow> credential_mapping list \<Rightarrow> credential_mapping list" where
  "add_mappings ms reg = reg @ ms"

definition has_credentials_for_host :: "string \<Rightarrow> credential_mapping list \<Rightarrow> bool" where
  "has_credentials_for_host host reg = list_ex (mapping_matches host) reg"

definition find_for_host :: "string \<Rightarrow> credential_mapping list \<Rightarrow> credential_mapping list" where
  "find_for_host host reg = filter (mapping_matches host) reg"

datatype injection_error = SecretNotFound string | InjAccessDenied string | SecretExpired string | InjDecryptionFailed string | NoMatchingCredential string

record injected_credentials =
  inj_headers :: "(string, string) hashmap"
  inj_query :: "(string, string) hashmap"

definition inj_empty :: injected_credentials where
  "inj_empty = \<lparr>inj_headers = [], inj_query = []\<rparr>"

subsection \<open>Base64\<close>

definition ALPHABET :: string where
  "ALPHABET = ''ABCDEFGHIJKLMNOPQRSTUVWXYZabcdefghijklmnopqrstuvwxyz0123456789+/''"

unbundle bit_operations_syntax

definition b64_char :: "8 word \<Rightarrow> char" where
  "b64_char w = ALPHABET ! unat w"

fun base64_words :: "8 word list \<Rightarrow> string" where
  "base64_words [] = []"
| "base64_words [b0] = [b64_char (drop_bit 2 b0), b64_char (push_bit 4 (b0 AND 3)), CHR ''='', CHR ''='']"
| "base64_words [b0, b1] = [b64_char (drop_bit 2 b0), b64_char (push_bit 4 (b0 AND 3) OR drop_bit 4 b1),
     b64_char (push_bit 2 (b1 AND 15)), CHR ''='']"
| "base64_words (b0 # b1 # b2 # rest) =
     [b64_char (drop_bit 2 b0), b64_char (push_bit 4 (b0 AND 3) OR drop_bit 4 b1),
      b64_char (push_bit 2 (b1 AND 15) OR drop_bit 6 b2), b64_char (b2 AND 63)] @ base64_words rest"

definition base64_encode :: "string \<Rightarrow> string" where
  "base64_encode s = base64_words (map (\<lambda>c. of_char c) s)"

definition inject_credential :: "credential_location \<Rightarrow> string \<Rightarrow> injected_credentials \<Rightarrow> injected_credentials" where
  "inject_credential loc secret r =
     (case loc of
        AuthorizationBearer \<Rightarrow> r\<lparr>inj_headers := hm_insert ''Authorization'' (''Bearer '' @ secret) (inj_headers r)\<rparr>
      | AuthorizationBasic username \<Rightarrow>
          r\<lparr>inj_headers := hm_insert ''Authorization'' (''Basic '' @ base64_encode (username @ '':'' @ secret)) (inj_headers r)\<rparr>
      | Header nm pre \<Rightarrow> r\<lparr>inj_headers := hm_insert nm (case pre of Some p \<Rightarrow> p @ secret | None \<Rightarrow> secret) (inj_headers r)\<rparr>
      | QueryParam nm \<Rightarrow> r\<lparr>inj_query := hm_insert nm secret (inj_query r)\<rparr>
      | UrlPath _ \<Rightarrow> r)"

text \<open>\<open>fetch\<close> is \<open>store.get_decrypted(user_id, name)\<close>.\<close>

fun inject_loop :: "string list \<Rightarrow> (string \<Rightarrow> secret_error + string) \<Rightarrow> credential_mapping list \<Rightarrow> injected_credentials \<Rightarrow> injection_error + injected_credentials" where
  "inject_loop allowed fetch [] r = Inr r"
| "inject_loop allowed fetch (m # ms) r =
     (if \<not> secret_allowed allowed (secret_name m) then Inl (InjAccessDenied (secret_name m))
      else case fetch (secret_name m) of
             Inl e \<Rightarrow> Inl (case e of NotFound nm \<Rightarrow> SecretNotFound nm | Expired \<Rightarrow> SecretExpired (secret_name m)
                           | e \<Rightarrow> InjDecryptionFailed (secret_error_text e))
           | Inr secret \<Rightarrow> inject_loop allowed fetch ms (inject_credential (location m) secret r))"

definition inject :: "credential_injector \<Rightarrow> string \<Rightarrow> (string \<Rightarrow> secret_error + string) \<Rightarrow> injection_error + injected_credentials" where
  "inject ci host fetch =
     (let ms = find_credentials_for_host ci host
      in if ms = [] then Inr inj_empty else inject_loop (ci_allowed ci) fetch ms inj_empty)"

subsection \<open>Base64 can be decoded\<close>

definition b64_index :: "char \<Rightarrow> 8 word" where
  "b64_index c = of_nat (length (takeWhile (\<lambda>x. x \<noteq> c) ALPHABET))"

fun base64_decode :: "string \<Rightarrow> 8 word list" where
  "base64_decode (a # b # c # d # rest) =
     (if c = CHR ''='' then [push_bit 2 (b64_index a) OR drop_bit 4 (b64_index b)]
      else if d = CHR ''='' then [push_bit 2 (b64_index a) OR drop_bit 4 (b64_index b), push_bit 4 (b64_index b) OR drop_bit 2 (b64_index c)]
      else [push_bit 2 (b64_index a) OR drop_bit 4 (b64_index b), push_bit 4 (b64_index b) OR drop_bit 2 (b64_index c),
            push_bit 6 (b64_index c) OR b64_index d] @ base64_decode rest)"
| "base64_decode _ = []"

lemma alphabet_index: "list_all (\<lambda>n. length (takeWhile (\<lambda>x. x \<noteq> ALPHABET ! n) ALPHABET) = n \<and> ALPHABET ! n \<noteq> CHR ''='') [0..<64]"
  by code_simp

lemma b64_index_char: "unat w < 64 \<Longrightarrow> b64_index (b64_char w) = w \<and> b64_char w \<noteq> CHR ''=''"
  using alphabet_index by (simp add: list_all_iff b64_index_def b64_char_def)

text \<open>The bits of the four sextets, and how they recombine.\<close>

lemma word8I:
  fixes x y :: "8 word"
  assumes "bit x 0 = bit y 0" "bit x 1 = bit y 1" "bit x 2 = bit y 2" "bit x 3 = bit y 3"
    "bit x 4 = bit y 4" "bit x 5 = bit y 5" "bit x 6 = bit y 6" "bit x 7 = bit y 7"
  shows "x = y"
proof (rule bit_word_eqI)
  fix n :: nat
  assume "n < LENGTH(8)"
  then have "n = 0 \<or> n = 1 \<or> n = 2 \<or> n = 3 \<or> n = 4 \<or> n = 5 \<or> n = 6 \<or> n = 7" by auto
  then show "bit x n = bit y n" using assms by blast
qed

lemma bit_high: "8 \<le> n \<Longrightarrow> \<not> bit (b :: 8 word) n"
  using bit_imp_le_length by force

lemma low_masks: "(3 :: 8 word) = mask 2" "(15 :: 8 word) = mask 4" "(63 :: 8 word) = mask 6"
  by (simp_all add: mask_eq_exp_minus_1)

lemma unat_less_64: "\<not> bit (w :: 8 word) 6 \<Longrightarrow> \<not> bit w 7 \<Longrightarrow> unat w < 64"
proof -
  assume a: "\<not> bit w 6" "\<not> bit w 7"
  have "w = take_bit 6 w" by (rule word8I; simp add: bit_simps a)
  then have "unat w = take_bit 6 (unat w)" by (metis unsigned_take_bit_eq)
  then show ?thesis using take_bit_nat_less_exp [of 6 "unat w"] by simp
qed

lemma sextets:
  fixes b0 b1 b2 :: "8 word"
  shows "unat (drop_bit 2 b0) < 64" and "unat (push_bit 4 (b0 AND 3) OR drop_bit 4 b1) < 64" and "unat (push_bit 4 (b0 AND 3)) < 64"
    and "unat (push_bit 2 (b1 AND 15) OR drop_bit 6 b2) < 64" and "unat (push_bit 2 (b1 AND 15)) < 64" and "unat (b2 AND 63) < 64"
  unfolding low_masks by (rule unat_less_64; simp add: bit_simps bit_high)+

lemma octets:
  fixes b0 b1 b2 :: "8 word"
  shows "push_bit 2 (drop_bit 2 b0) OR drop_bit 4 (push_bit 4 (b0 AND 3) OR drop_bit 4 b1) = b0"
    and "push_bit 2 (drop_bit 2 b0) OR drop_bit 4 (push_bit 4 (b0 AND 3)) = b0"
    and "push_bit 4 (push_bit 4 (b0 AND 3) OR drop_bit 4 b1) OR drop_bit 2 (push_bit 2 (b1 AND 15) OR drop_bit 6 b2) = b1"
    and "push_bit 4 (push_bit 4 (b0 AND 3) OR drop_bit 4 b1) OR drop_bit 2 (push_bit 2 (b1 AND 15)) = b1"
    and "push_bit 6 (push_bit 2 (b1 AND 15) OR drop_bit 6 b2) OR (b2 AND 63) = b2"
    and "push_bit 4 (drop_bit 4 b1) OR drop_bit 2 (push_bit 2 (b1 AND 15)) = b1"
    and "push_bit 6 (drop_bit 6 b2) OR (b2 AND 63) = b2"
  unfolding low_masks by (rule word8I; simp add: bit_simps)+

lemma base64_words_decode: "base64_decode (base64_words bs) = bs"
proof (induction bs rule: base64_words.induct)
  case (4 b0 b1 b2 rest)
  then show ?case by (simp add: b64_index_char sextets octets del: push_bit_and)
qed (simp_all add: b64_index_char sextets octets del: push_bit_and)

lemma length_base64_words: "length (base64_words bs) = 4 * ((length bs + 2) div 3)"
proof (induction bs rule: base64_words.induct)
  case (4 b0 b1 b2 rest)
  have "(5 + length rest) div 3 = Suc ((length rest + 2) div 3)" by presburger
  then show ?case using 4 by simp
qed simp_all

text \<open>The hand-written Base64 encoder loses nothing: decoding by the alphabet gives the bytes back, for every input length,
  with the padding of the standard.\<close>

theorem base64_roundtrip:
  "map (\<lambda>w. char_of (unat w)) (base64_decode (base64_encode s)) = s \<and> length (base64_encode s) = 4 * ((length s + 2) div 3)"
proof -
  have "unat (of_char c :: 8 word) = of_char c" for c :: char
  proof -
    have "(of_char c :: 8 word) = of_nat (of_char c)" by (simp add: of_nat_of_char)
    then show ?thesis by (simp add: unat_of_nat)
  qed
  then have "map (\<lambda>w. char_of (unat w)) (map (\<lambda>c. of_char c :: 8 word) s) = s" by (induction s) simp_all
  then show ?thesis by (simp add: base64_encode_def base64_words_decode length_base64_words)
qed

subsection \<open>Which secret goes where\<close>

lemma injector_host_matches_iff: "injector_host_matches h pat \<longleftrightarrow> covers pat h"
  unfolding injector_host_matches_def covers_def wildcard_branch by blast

interpretation injector_host: host_matcher "\<lambda>pat h. injector_host_matches h pat" pattern_domain "\<lambda>h. h"
  by unfold_locales (simp add: injector_host_matches_iff covers_within)

definition placed :: "credential_location \<Rightarrow> string \<Rightarrow> injected_credentials" where
  "placed loc secret = inject_credential loc secret inj_empty"

lemma inject_credential_adds:
  "set (inj_headers (inject_credential loc v r)) \<subseteq> set (inj_headers r) \<union> set (inj_headers (placed loc v))"
  "set (inj_query (inject_credential loc v r)) \<subseteq> set (inj_query r) \<union> set (inj_query (placed loc v))"
  by (cases loc; auto simp: placed_def inject_credential_def inj_empty_def dest!: hm_insert_in_set; simp add: hm_insert_def)+

lemma inject_loop_sound:
  "inject_loop allowed fetch ms r0 = Inr r \<Longrightarrow>
     (\<forall>m \<in> set ms. secret_allowed allowed (secret_name m) \<and> is_ok (fetch (secret_name m)))
     \<and> (\<forall>kv \<in> set (inj_headers r). kv \<in> set (inj_headers r0) \<or>
          (\<exists>m \<in> set ms. \<exists>v. fetch (secret_name m) = Inr v \<and> kv \<in> set (inj_headers (placed (location m) v))))
     \<and> (\<forall>kv \<in> set (inj_query r). kv \<in> set (inj_query r0) \<or>
          (\<exists>m \<in> set ms. \<exists>v. fetch (secret_name m) = Inr v \<and> kv \<in> set (inj_query (placed (location m) v))))"
proof (induction ms arbitrary: r0)
  case (Cons m ms)
  then obtain v where v: "secret_allowed allowed (secret_name m)" "fetch (secret_name m) = Inr v"
      "inject_loop allowed fetch ms (inject_credential (location m) v r0) = Inr r"
    by (auto split: if_splits sum.splits)
  then show ?case using Cons.IH [OF v(3)] inject_credential_adds [of "location m" v r0] by fastforce
qed simp

text \<open>Credentials go only where a mapping sends them. When injection succeeds, every header and query parameter it adds holds, in the place
  a mapping names, the secret of a mapping that has a pattern covering the host (the domain itself or below it), and whose secret is on
  the allowlist of the tool and could be fetched; a mapping of the host with a secret off the allowlist makes the whole injection fail.\<close>

theorem injection_scoped:
  assumes "inject ci host fetch = Inr r" and "kv \<in> set (inj_headers r) \<or> kv \<in> set (inj_query r)"
  shows "(\<exists>m \<in> snd ` set (ci_mappings ci). \<exists>v pat. pat \<in> set (host_patterns m) \<and> within_domain (pattern_domain pat) host
           \<and> secret_allowed (ci_allowed ci) (secret_name m) \<and> fetch (secret_name m) = Inr v
           \<and> (kv \<in> set (inj_headers (placed (location m) v)) \<or> kv \<in> set (inj_query (placed (location m) v))))
    \<and> (\<forall>m \<in> snd ` set (ci_mappings ci). mapping_matches host m \<longrightarrow> secret_allowed (ci_allowed ci) (secret_name m))"
proof -
  let ?ms = "find_credentials_for_host ci host"
  have ms: "set ?ms = {m \<in> snd ` set (ci_mappings ci). mapping_matches host m}" by (auto simp: find_credentials_for_host_def)
  have "?ms \<noteq> []" using assms by (auto simp: inject_def Let_def inj_empty_def split: if_splits)
  then have run: "inject_loop (ci_allowed ci) fetch ?ms inj_empty = Inr r" using assms(1) by (simp add: inject_def Let_def)
  note sound = inject_loop_sound [OF run]
  then obtain m v where m: "m \<in> set ?ms" "fetch (secret_name m) = Inr v"
      "kv \<in> set (inj_headers (placed (location m) v)) \<or> kv \<in> set (inj_query (placed (location m) v))"
    using assms(2) by (auto simp: inj_empty_def)
  then obtain pat where "pat \<in> set (host_patterns m)" "injector_host_matches host pat"
    by (auto simp: ms mapping_matches_def list_ex_iff)
  then show ?thesis using m ms sound injector_host.boundary by blast
qed

theorem injection_scoped_witness:
  "\<exists>r. inject \<lparr>ci_mappings = [(''o'', \<lparr>secret_name = ''key'', location = AuthorizationBearer, host_patterns = [''*.example.com'']\<rparr>)], ci_allowed = [''k*'']\<rparr>
        ''api.example.com'' (\<lambda>_. Inr ''v'') = Inr r
     \<and> (\<exists>pat. within_domain (pattern_domain pat) ''api.example.com'')"
proof -
  let ?ci = "\<lparr>ci_mappings = [(''o'', \<lparr>secret_name = ''key'', location = AuthorizationBearer, host_patterns = [''*.example.com'']\<rparr>)], ci_allowed = [''k*'']\<rparr>"
  have "inject ?ci ''api.example.com'' (\<lambda>_. Inr ''v'') = Inr \<lparr>inj_headers = [(''Authorization'', ''Bearer v'')], inj_query = []\<rparr>"
    by code_simp
  then show ?thesis using injection_scoped [of ?ci "''api.example.com''" "\<lambda>_. Inr ''v''" _ "(''Authorization'', ''Bearer v'')"] by fastforce
qed

end
