(* ===== verification/Workspace_Index.thy ===== *)
theory Workspace_Index
  imports Prelude "HOL-Library.Multiset"
begin

text \<open>
  The search index of the workspace: how a document is cut into overlapping chunks (\<open>src/workspace/chunker.rs\<close>) and how the
  ranked lists of two retrieval methods are fused (\<open>src/workspace/search.rs\<close>). The loop of the chunker is a partial function,
  since it does not end for every configuration. Scores are exact rationals where the code has \<open>f32\<close>, and the order in which
  a hash map is iterated is the order of insertion.
\<close>

section \<open>Chunks\<close>

record chunk_config =
  cc_size :: nat
  cc_overlap :: rat
  cc_min :: nat

definition default_chunks :: chunk_config where
  "default_chunks = \<lparr>cc_size = 800, cc_overlap = 15 / 100, cc_min = 50\<rparr>"

definition with_chunk_size :: "nat \<Rightarrow> chunk_config \<Rightarrow> chunk_config" where
  "with_chunk_size n cfg = cfg\<lparr>cc_size := n\<rparr>"

definition with_overlap :: "rat \<Rightarrow> chunk_config \<Rightarrow> chunk_config" where
  "with_overlap p cfg = cfg\<lparr>cc_overlap := max 0 (min p (1 / 2))\<rparr>"

definition overlap_size :: "chunk_config \<Rightarrow> nat" where
  "overlap_size cfg = nat \<lfloor>of_nat (cc_size cfg) * cc_overlap cfg\<rfloor>"

definition step_size :: "chunk_config \<Rightarrow> nat" where
  "step_size cfg = cc_size cfg - overlap_size cfg"

definition slice :: "'a list \<Rightarrow> nat \<Rightarrow> nat \<Rightarrow> 'a list" where
  "slice xs i j = take (j - i) (drop i xs)"

partial_function (option) chunk_loop :: "chunk_config \<Rightarrow> string list \<Rightarrow> nat \<Rightarrow> string list \<Rightarrow> string list option" where
  "chunk_loop cfg ws start chunks =
     (if start < length ws then
        let stop = min (start + cc_size cfg) (length ws); cw = slice ws start stop
        in if length cw < cc_min cfg \<and> chunks \<noteq> []
           then Some (butlast chunks @ [last chunks @ '' '' @ join_with '' '' cw])
           else let chunks' = chunks @ [join_with '' '' cw]; start' = start + step_size cfg
                in if start' + cc_min cfg \<ge> length ws \<and> stop = length ws then Some chunks'
                   else chunk_loop cfg ws start' chunks'
      else Some chunks)"

declare chunk_loop.simps [code]

definition chunk_document :: "string \<Rightarrow> chunk_config \<Rightarrow> string list option" where
  "chunk_document content cfg =
     (let ws = split_whitespace content
      in if content = [] \<or> ws = [] then Some []
         else if length ws \<le> cc_size cfg then Some [content]
         else chunk_loop cfg ws 0 [])"

subsection \<open>No run of words is cut\<close>

definition plain_words :: "string list \<Rightarrow> bool" where
  "plain_words ws \<longleftrightarrow> (\<forall>w \<in> set ws. w \<noteq> [] \<and> (\<forall>c \<in> set w. \<not> is_ws c))"

lemma split_plain_word: "\<forall>c \<in> set w. \<not> is_ws c \<Longrightarrow> split_ws_aux acc (w @ s) = split_ws_aux (rev w @ acc) s"
  by (induction w arbitrary: acc) simp_all

lemma split_aux_plain: "\<forall>c \<in> set acc. \<not> is_ws c \<Longrightarrow> plain_words (split_ws_aux acc s)"
proof (induction acc s rule: split_ws_aux.induct)
  case (2 acc c s)
  then show ?case by (cases "is_ws c"; cases "acc = []") (simp_all add: plain_words_def)
qed (simp add: plain_words_def)

lemma split_plain: "plain_words (split_whitespace s)"
  by (simp add: split_whitespace_def split_aux_plain)

lemma split_join_plain: "plain_words ws \<Longrightarrow> split_whitespace (join_with '' '' ws) = ws"
proof -
  have ws: "is_ws (CHR '' '')" by code_simp
  have "plain_words ws \<Longrightarrow> split_ws_aux [] (join_with '' '' ws) = ws"
  proof (induction "'' ''" ws rule: join_with.induct)
    case (2 w)
    then show ?case using split_plain_word [of w "[]" "[]"] by (auto simp: plain_words_def)
  next
    case (3 w v ws)
    then show ?case using split_plain_word [of w "[]" "'' '' @ join_with '' '' (v # ws)"] ws by (auto simp: plain_words_def)
  qed simp
  then show "plain_words ws \<Longrightarrow> ?thesis" by (simp add: split_whitespace_def)
qed

lemma plain_slice: "plain_words ws \<Longrightarrow> plain_words (slice ws i j)"
  by (auto simp: plain_words_def slice_def dest!: in_set_takeD in_set_dropD)

lemma length_slice: "j \<le> length xs \<Longrightarrow> length (slice xs i j) = j - i"
  by (auto simp: slice_def)

lemma slice_slice:
  assumes "a \<le> i" and "i \<le> j" and "j \<le> b"
  shows "sublist (slice xs i j) (slice xs a b)"
proof -
  have "slice xs a b = take (i - a) (slice xs a b) @ slice xs i j @ drop (j - a) (slice xs a b)"
  proof -
    have "slice xs i j = take (j - i) (drop (i - a) (slice xs a b))"
      using assms by (simp add: slice_def drop_take min_def)
    then show ?thesis using assms
      by (metis (no_types, lifting) append_take_drop_id drop_drop add.commute le_add_diff_inverse2 diff_add_assoc2 add_diff_cancel_right' )
  qed
  then show ?thesis by (metis sublist_appendI)
qed
definition covered :: "string list \<Rightarrow> string list \<Rightarrow> nat \<Rightarrow> nat \<Rightarrow> bool" where
  "covered ws chunks i j \<longleftrightarrow> (\<exists>c \<in> set chunks. sublist (slice ws i j) (split_whitespace c))"

text \<open>Every chunk is a join of words, at most \<open>n\<close> of them.\<close>

definition good_chunks :: "nat \<Rightarrow> string list \<Rightarrow> bool" where
  "good_chunks n chunks \<longleftrightarrow> (\<forall>c \<in> set chunks. \<exists>v. plain_words v \<and> v \<noteq> [] \<and> c = join_with '' '' v \<and> length v \<le> n)"

lemma covered_new:
  assumes "plain_words ws" and "a \<le> i" "i \<le> j" "j \<le> b"
  shows "covered ws (chunks @ [join_with '' '' (slice ws a b)]) i j"
  using slice_slice [OF assms(2-4), of ws] split_join_plain [OF plain_slice [OF assms(1)], of a b] by (auto simp: covered_def)

lemma covered_mono: "covered ws chunks i j \<Longrightarrow> set chunks \<subseteq> set chunks' \<Longrightarrow> covered ws chunks' i j"
  by (auto simp: covered_def)

lemma covered_merge:
  assumes "good_chunks n chunks" and "chunks \<noteq> []" and "plain_words cw" and "cw \<noteq> []"
  shows "covered ws chunks i j \<Longrightarrow> covered ws (butlast chunks @ [last chunks @ '' '' @ join_with '' '' cw]) i j"
    and "sublist (slice ws i j) cw \<Longrightarrow> covered ws (butlast chunks @ [last chunks @ '' '' @ join_with '' '' cw]) i j"
    and "good_chunks (n + length cw) (butlast chunks @ [last chunks @ '' '' @ join_with '' '' cw])"
proof -
  have set: "set chunks = insert (last chunks) (set (butlast chunks))" using assms(2)
    by (metis append_butlast_last_id Un_insert_right list.set(1,2) set_append sup_bot_right)
  have "\<exists>v. plain_words v \<and> v \<noteq> [] \<and> last chunks = join_with '' '' v \<and> length v \<le> n"
    using assms(1,2) last_in_set unfolding good_chunks_def by blast
  then obtain v where v: "plain_words v" "v \<noteq> []" "last chunks = join_with '' '' v" "length v \<le> n" by blast
  have merged: "last chunks @ '' '' @ join_with '' '' cw = join_with '' '' (v @ cw)" using join_append [OF v(2) assms(4), of "'' ''"] v(3) by simp
  have plain: "plain_words (v @ cw)" using v(1) assms(3) by (auto simp: plain_words_def)
  have words: "split_whitespace (last chunks @ '' '' @ join_with '' '' cw) = v @ cw" using split_join_plain [OF plain] merged by simp
  have last: "split_whitespace (last chunks) = v" using split_join_plain [OF v(1)] v(3) by simp
  show "covered ws (butlast chunks @ [last chunks @ '' '' @ join_with '' '' cw]) i j" if c: "covered ws chunks i j"
  proof -
    obtain d where d: "d \<in> set chunks" "sublist (slice ws i j) (split_whitespace d)" using c by (auto simp: covered_def)
    show ?thesis
    proof (cases "d \<in> set (butlast chunks)")
      case True
      then show ?thesis using d by (auto simp: covered_def)
    next
      case False
      then have "d = last chunks" using d(1) set by auto
      then have "sublist (slice ws i j) (v @ cw)" using d(2) last by (metis sublist_append_rightI sublist_order.order_trans)
      then show ?thesis using words by (auto simp: covered_def)
    qed
  qed
  show "covered ws (butlast chunks @ [last chunks @ '' '' @ join_with '' '' cw]) i j" if "sublist (slice ws i j) cw"
  proof -
    have "sublist (slice ws i j) (v @ cw)" using that by (metis sublist_append_leftI sublist_order.order_trans)
    then show ?thesis using words by (auto simp: covered_def)
  qed
  show "good_chunks (n + length cw) (butlast chunks @ [last chunks @ '' '' @ join_with '' '' cw])"
    unfolding good_chunks_def
  proof
    fix c
    assume "c \<in> set (butlast chunks @ [last chunks @ '' '' @ join_with '' '' cw])"
    then consider "c \<in> set chunks" | "c = join_with '' '' (v @ cw)" using set merged by auto
    then show "\<exists>u. plain_words u \<and> u \<noteq> [] \<and> c = join_with '' '' u \<and> length u \<le> n + length cw"
    proof cases
      case 1
      then show ?thesis using assms(1) unfolding good_chunks_def by (meson trans_le_add1)
    next
      case 2
      then show ?thesis using plain v(2,4) by (intro exI [of _ "v @ cw"]) simp
    qed
  qed
qed

lemma good_chunks_snoc:
  "good_chunks n chunks \<Longrightarrow> plain_words cw \<Longrightarrow> cw \<noteq> [] \<Longrightarrow> length cw \<le> n \<Longrightarrow> good_chunks n (chunks @ [join_with '' '' cw])"
  by (auto simp: good_chunks_def)

lemma good_chunks_le: "good_chunks n chunks \<Longrightarrow> n \<le> m \<Longrightarrow> good_chunks m chunks"
  unfolding good_chunks_def by (meson order_trans)

lemma chunk_loop_covers:
  assumes plain: "plain_words ws" and ov: "overlap_size cfg < cc_size cfg" and mn: "cc_min cfg \<le> cc_size cfg"
  shows "good_chunks (cc_size cfg) chunks \<Longrightarrow> (start < length ws \<or> chunks \<noteq> []) \<Longrightarrow>
     (\<And>i j. i < j \<Longrightarrow> j \<le> length ws \<Longrightarrow> j \<le> i + overlap_size cfg + 1 \<Longrightarrow> i < start \<Longrightarrow> covered ws chunks i j) \<Longrightarrow>
     \<exists>cs. chunk_loop cfg ws start chunks = Some cs \<and> good_chunks (cc_size cfg + cc_min cfg) cs \<and>
       (\<forall>i j. i < j \<longrightarrow> j \<le> length ws \<longrightarrow> j \<le> i + overlap_size cfg + 1 \<longrightarrow> covered ws cs i j)"
proof (induction "length ws - start" arbitrary: start chunks rule: less_induct)
  case less
  show ?case
  proof (cases "start < length ws")
    case False
    then show ?thesis using less.prems good_chunks_le [OF less.prems(1)] by (subst chunk_loop.simps) auto
  next
    case True
    let ?stop = "min (start + cc_size cfg) (length ws)"
    let ?cw = "slice ws start ?stop" and ?start' = "start + step_size cfg"
    have len: "length ?cw = ?stop - start" by (simp add: length_slice)
    have cw: "plain_words ?cw" "?cw \<noteq> []" "length ?cw \<le> cc_size cfg" using plain_slice [OF plain] len True ov by auto
    have step: "0 < step_size cfg" "step_size cfg + overlap_size cfg = cc_size cfg" using ov by (simp_all add: step_size_def)
    show ?thesis
    proof (cases "length ?cw < cc_min cfg \<and> chunks \<noteq> []")
      case True
      then have stop: "?stop = length ws" using len mn by (auto simp: min_def split: if_splits)
      have eq: "chunk_loop cfg ws start chunks = Some (butlast chunks @ [last chunks @ '' '' @ join_with '' '' ?cw])"
        using \<open>start < length ws\<close> True by (subst chunk_loop.simps) (simp add: Let_def)
      note m = covered_merge [OF less.prems(1) conjunct2 [OF True] cw(1,2)]
      have "covered ws (butlast chunks @ [last chunks @ '' '' @ join_with '' '' ?cw]) i j"
        if "i < j" "j \<le> length ws" "j \<le> i + overlap_size cfg + 1" for i j
      proof (cases "i < start")
        case True
        then show ?thesis using m(1) less.prems(3) that by blast
      next
        case False
        then show ?thesis using m(2) slice_slice [of start i j ?stop ws] that stop by simp
      qed
      then show ?thesis using eq m(3) True good_chunks_le [OF m(3), of "cc_size cfg + cc_min cfg"] by auto
    next
      case False
      let ?chunks' = "chunks @ [join_with '' '' ?cw]"
      have good: "good_chunks (cc_size cfg) ?chunks'" by (rule good_chunks_snoc [OF less.prems(1) cw])
      have near: "covered ws ?chunks' i j" if "i < j" "j \<le> length ws" "j \<le> i + overlap_size cfg + 1" "i < ?start' \<or> ?stop = length ws" for i j
      proof (cases "i < start")
        case True
        then show ?thesis using less.prems(3) [OF that(1-3)] covered_mono by (metis Un_upper1 set_append)
      next
        case False
        have "j \<le> ?stop" using that step by auto
        then show ?thesis using covered_new [OF plain, of start i j ?stop chunks] False that(1) by simp
      qed
      show ?thesis
      proof (cases "?start' + cc_min cfg \<ge> length ws \<and> ?stop = length ws")
        case True
        then have "chunk_loop cfg ws start chunks = Some ?chunks'"
          using \<open>start < length ws\<close> False by (subst chunk_loop.simps) (simp add: Let_def)
        then show ?thesis using near True good_chunks_le [OF good] by auto
      next
        case more: False
        have eq: "chunk_loop cfg ws start chunks = chunk_loop cfg ws ?start' ?chunks'"
          using \<open>start < length ws\<close> False more by (subst chunk_loop.simps) (auto simp: Let_def)
        have "length ws - ?start' < length ws - start" using \<open>start < length ws\<close> step by simp
        then show ?thesis unfolding eq using less.hyps [of ?start' ?chunks'] good near by auto
      qed
    qed
  qed
qed

lemma slice_nth: "i < j \<Longrightarrow> j \<le> length xs \<Longrightarrow> sublist (slice xs i j) xs"
  using slice_slice [of 0 i j "length xs" xs] by (simp add: slice_def)

text \<open>Chunking ends and cuts no run of words that fits the overlap: when the overlap is smaller than a chunk and a chunk is at least as
  long as the least one, every run of at most \<open>overlap + 1\<close> consecutive words of the document stands, unbroken, in one chunk, and no chunk
  of a long document has more words than the chunk size plus the least one. In particular no word is lost.\<close>

theorem chunks_keep_runs:
  assumes "overlap_size cfg < cc_size cfg" and "cc_min cfg \<le> cc_size cfg"
  shows "\<exists>cs. chunk_document content cfg = Some cs
    \<and> (\<forall>i j. i < j \<longrightarrow> j \<le> length (split_whitespace content) \<longrightarrow> j \<le> i + overlap_size cfg + 1 \<longrightarrow> covered (split_whitespace content) cs i j)
    \<and> (\<forall>c \<in> set cs. length (split_whitespace c) \<le> cc_size cfg + cc_min cfg)"
proof -
  let ?ws = "split_whitespace content"
  consider (empty) "content = [] \<or> ?ws = []" | (small) "content \<noteq> []" "?ws \<noteq> []" "length ?ws \<le> cc_size cfg"
    | (large) "content \<noteq> []" "?ws \<noteq> []" "cc_size cfg < length ?ws" by force
  then show ?thesis
  proof cases
    case empty
    then have "?ws = []" by (auto simp: split_whitespace_def)
    then show ?thesis by (simp add: chunk_document_def)
  next
    case small
    then show ?thesis using slice_nth [of _ _ ?ws] by (auto simp: chunk_document_def covered_def)
  next
    case large
    then have "0 < length ?ws" by simp
    then obtain cs where cs: "chunk_loop cfg ?ws 0 [] = Some cs" "good_chunks (cc_size cfg + cc_min cfg) cs"
        "\<forall>i j. i < j \<longrightarrow> j \<le> length ?ws \<longrightarrow> j \<le> i + overlap_size cfg + 1 \<longrightarrow> covered ?ws cs i j"
      using chunk_loop_covers [OF split_plain assms, of "[]" 0 content] by (auto simp: good_chunks_def)
    have "length (split_whitespace c) \<le> cc_size cfg + cc_min cfg" if "c \<in> set cs" for c
      using cs(2) that split_join_plain unfolding good_chunks_def by fastforce
    then show ?thesis using cs large by (simp add: chunk_document_def)
  qed
qed

text \<open>The default configuration meets the conditions, so the index of a document is defined by it.\<close>

lemma default_overlap [simp]: "overlap_size default_chunks = 120"
  by (simp add: overlap_size_def default_chunks_def)

theorem chunks_keep_runs_witness:
  "\<forall>content. \<exists>cs. chunk_document content default_chunks = Some cs \<and> list_all (\<lambda>c. length (split_whitespace c) \<le> 850) cs"
proof
  fix content
  show "\<exists>cs. chunk_document content default_chunks = Some cs \<and> list_all (\<lambda>c. length (split_whitespace c) \<le> 850) cs"
    using chunks_keep_runs [of default_chunks content] by (auto simp: default_chunks_def overlap_size_def list_all_iff)
qed

text \<open>A chunk size below the least chunk size, which \<open>with_chunk_size\<close> permits, drops the end of the document: the second chunk counts as
  a tiny tail. And an empty step makes the loop run for ever.\<close>

lemma small_chunks_drop_text: "chunk_document ''a b c d e f g'' \<lparr>cc_size = 2, cc_overlap = 0, cc_min = 3\<rparr> = Some [''a b c d'']"
  by code_simp

text \<open>The condition that ends the loop lets a last chunk through that repeats the end of the one before it.\<close>

lemma last_chunk_repeats:
  "chunk_document ''a b c d e f'' \<lparr>cc_size = 4, cc_overlap = 1 / 2, cc_min = 1\<rparr> = Some [''a b c d'', ''c d e f'', ''e f'']"
  by code_simp

section \<open>Fusion of two rankings\<close>

record search_config =
  sc_limit :: nat
  sc_rrf_k :: nat
  sc_use_fts :: bool
  sc_use_vector :: bool
  sc_min_score :: rat
  sc_pre_limit :: nat

definition default_search :: search_config where
  "default_search = \<lparr>sc_limit = 10, sc_rrf_k = 60, sc_use_fts = True, sc_use_vector = True, sc_min_score = 0, sc_pre_limit = 50\<rparr>"

definition with_min_score :: "rat \<Rightarrow> search_config \<Rightarrow> search_config" where
  "with_min_score s cfg = cfg\<lparr>sc_min_score := max 0 (min s 1)\<rparr>"

record ranked_result =
  rr_chunk :: uuid
  rr_document :: uuid
  rr_content :: string
  rr_rank :: nat

record chunk_info =
  ci_document :: uuid
  ci_content :: string
  ci_score :: rat
  ci_fts :: "nat option"
  ci_vector :: "nat option"

record search_result =
  sr_document :: uuid
  sr_chunk :: uuid
  sr_content :: string
  sr_score :: rat
  sr_fts :: "nat option"
  sr_vector :: "nat option"

definition rrf :: "search_config \<Rightarrow> ranked_result \<Rightarrow> rat" where
  "rrf cfg r = 1 / (of_nat (sc_rrf_k cfg) + of_nat (rr_rank r))"

definition add_fts :: "search_config \<Rightarrow> ranked_result \<Rightarrow> (uuid, chunk_info) hashmap \<Rightarrow> (uuid, chunk_info) hashmap" where
  "add_fts cfg r m =
     hm_insert (rr_chunk r)
       (case hm_get m (rr_chunk r) of
          Some i \<Rightarrow> i\<lparr>ci_score := ci_score i + rrf cfg r, ci_fts := Some (rr_rank r)\<rparr>
        | None \<Rightarrow> \<lparr>ci_document = rr_document r, ci_content = rr_content r, ci_score = rrf cfg r, ci_fts = Some (rr_rank r), ci_vector = None\<rparr>) m"

definition add_vector :: "search_config \<Rightarrow> ranked_result \<Rightarrow> (uuid, chunk_info) hashmap \<Rightarrow> (uuid, chunk_info) hashmap" where
  "add_vector cfg r m =
     hm_insert (rr_chunk r)
       (case hm_get m (rr_chunk r) of
          Some i \<Rightarrow> i\<lparr>ci_score := ci_score i + rrf cfg r, ci_vector := Some (rr_rank r)\<rparr>
        | None \<Rightarrow> \<lparr>ci_document = rr_document r, ci_content = rr_content r, ci_score = rrf cfg r, ci_fts = None, ci_vector = Some (rr_rank r)\<rparr>) m"

definition to_result :: "uuid \<times> chunk_info \<Rightarrow> search_result" where
  "to_result x = (case x of (k, i) \<Rightarrow> \<lparr>sr_document = ci_document i, sr_chunk = k, sr_content = ci_content i, sr_score = ci_score i,
     sr_fts = ci_fts i, sr_vector = ci_vector i\<rparr>)"

definition normalize_scores :: "search_result list \<Rightarrow> search_result list" where
  "normalize_scores rs =
     (if rs \<noteq> [] \<and> 0 < Max (sr_score ` set rs) then map (\<lambda>r. r\<lparr>sr_score := sr_score r / Max (sr_score ` set rs)\<rparr>) rs else rs)"

definition reciprocal_rank_fusion :: "ranked_result list \<Rightarrow> ranked_result list \<Rightarrow> search_config \<Rightarrow> search_result list" where
  "reciprocal_rank_fusion fts vec cfg =
     (let scores = fold (add_vector cfg) vec (fold (add_fts cfg) fts []);
          results = normalize_scores (map to_result scores);
          kept = (if 0 < sc_min_score cfg then filter (\<lambda>r. sc_min_score cfg \<le> sr_score r) results else results)
      in take (sc_limit cfg) (sort_key (\<lambda>r. - sr_score r) kept))"

text \<open>The score of a chunk by the formula: the sum of \<open>1 / (k + rank)\<close> over its occurrences in the two lists.\<close>

definition rrf_score :: "search_config \<Rightarrow> ranked_result list \<Rightarrow> uuid \<Rightarrow> rat" where
  "rrf_score cfg rs k = sum_list (map (rrf cfg) (filter (\<lambda>r. rr_chunk r = k) rs))"

definition scores_ok :: "search_config \<Rightarrow> ranked_result list \<Rightarrow> (uuid, chunk_info) hashmap \<Rightarrow> bool" where
  "scores_ok cfg rs m \<longleftrightarrow> hm_wf m \<and> (\<forall>k. case hm_get m k of
     None \<Rightarrow> k \<notin> rr_chunk ` set rs
   | Some i \<Rightarrow> k \<in> rr_chunk ` set rs \<and> ci_score i = rrf_score cfg rs k)"

lemma scores_ok_add:
  assumes "scores_ok cfg rs m" and "m' = hm_insert (rr_chunk r) i m"
    and "ci_score i = (case hm_get m (rr_chunk r) of Some j \<Rightarrow> ci_score j + rrf cfg r | None \<Rightarrow> rrf cfg r)"
  shows "scores_ok cfg (rs @ [r]) m'"
proof -
  have none: "rrf_score cfg rs k = 0" if "k \<notin> rr_chunk ` set rs" for k
  proof -
    have "filter (\<lambda>r. rr_chunk r = k) rs = []" using that by (auto simp: filter_empty_conv)
    then show ?thesis by (simp add: rrf_score_def)
  qed
  have "case hm_get m' k of None \<Rightarrow> k \<notin> rr_chunk ` set (rs @ [r])
     | Some i \<Rightarrow> k \<in> rr_chunk ` set (rs @ [r]) \<and> ci_score i = rrf_score cfg (rs @ [r]) k" for k
    using assms none [of k] spec [OF conjunct2 [OF assms(1) [unfolded scores_ok_def]], of k]
    by (auto simp: hm_get_insert rrf_score_def split: option.splits if_splits)
  then show ?thesis using assms by (simp add: scores_ok_def)
qed

lemma scores_ok_fts: "scores_ok cfg rs m \<Longrightarrow> scores_ok cfg (rs @ fts) (fold (add_fts cfg) fts m)"
proof (induction fts arbitrary: rs m)
  case (Cons r fts)
  have "scores_ok cfg (rs @ [r]) (add_fts cfg r m)"
    by (rule scores_ok_add [OF Cons.prems add_fts_def]) (simp split: option.splits)
  then show ?case using Cons.IH by fastforce
qed simp

lemma scores_ok_vector: "scores_ok cfg rs m \<Longrightarrow> scores_ok cfg (rs @ vec) (fold (add_vector cfg) vec m)"
proof (induction vec arbitrary: rs m)
  case (Cons r vec)
  have "scores_ok cfg (rs @ [r]) (add_vector cfg r m)"
    by (rule scores_ok_add [OF Cons.prems add_vector_def]) (simp split: option.splits)
  then show ?case using Cons.IH by fastforce
qed simp

lemma rrf_score_pos:
  assumes "k \<in> rr_chunk ` set rs" and "\<forall>r \<in> set rs. 0 < rr_rank r"
  shows "0 < rrf_score cfg rs k"
  using assms
proof (induction rs)
  case (Cons r rs)
  have nonneg: "0 \<le> rrf_score cfg xs k" for xs by (auto simp: rrf_score_def rrf_def intro!: sum_list_nonneg)
  have "0 < rrf cfg r" using Cons.prems(2) by (simp add: rrf_def)
  then show ?case using Cons nonneg [of rs] by (cases "rr_chunk r = k") (auto simp: rrf_score_def intro: add_pos_nonneg)
qed simp

definition fused :: "ranked_result list \<Rightarrow> ranked_result list \<Rightarrow> search_config \<Rightarrow> search_result list" where
  "fused fts vec cfg = map to_result (fold (add_vector cfg) vec (fold (add_fts cfg) fts []))"

lemma fused_chunks:
  "distinct (map sr_chunk (fused fts vec cfg)) \<and> set (map sr_chunk (fused fts vec cfg)) = rr_chunk ` set (fts @ vec)
   \<and> (\<forall>r \<in> set (fused fts vec cfg). sr_score r = rrf_score cfg (fts @ vec) (sr_chunk r))"
proof -
  let ?m = "fold (add_vector cfg) vec (fold (add_fts cfg) fts [])"
  have "scores_ok cfg [] []" by (simp add: scores_ok_def)
  then have ok: "scores_ok cfg (fts @ vec) ?m" using scores_ok_vector scores_ok_fts by fastforce
  then have wf: "hm_wf ?m" by (simp add: scores_ok_def)
  have keys: "map sr_chunk (fused fts vec cfg) = map fst ?m" by (auto simp: fused_def to_result_def)
  have entry: "k \<in> rr_chunk ` set (fts @ vec) \<and> ci_score i = rrf_score cfg (fts @ vec) k" if "(k, i) \<in> set ?m" for k i
    using ok hm_in_set_get [OF wf that] unfolding scores_ok_def by (auto split: option.splits)
  have "k \<in> fst ` set ?m" if "k \<in> rr_chunk ` set (fts @ vec)" for k
    using ok that unfolding scores_ok_def by (metis (mono_tags, lifting) hm_get_in_set fst_conv image_eqI option.case(1) option.exhaust)
  then have "set (map fst ?m) = rr_chunk ` set (fts @ vec)" using entry by force
  moreover have "\<forall>r \<in> set (fused fts vec cfg). sr_score r = rrf_score cfg (fts @ vec) (sr_chunk r)"
    using entry by (auto simp: fused_def to_result_def)
  ultimately show ?thesis using wf unfolding keys hm_wf_def by blast
qed

lemma normalize_scores_props:
  assumes "rs \<noteq> []" and "\<forall>r \<in> set rs. 0 < sr_score r"
  shows "map sr_chunk (normalize_scores rs) = map sr_chunk rs"
    and "\<forall>r \<in> set (normalize_scores rs). 0 < sr_score r \<and> sr_score r \<le> 1"
    and "\<exists>r \<in> set (normalize_scores rs). sr_score r = 1"
    and "\<forall>r \<in> set (normalize_scores rs). \<forall>s \<in> set (normalize_scores rs). \<forall>a \<in> set rs. \<forall>b \<in> set rs.
           sr_chunk a = sr_chunk r \<longrightarrow> sr_chunk b = sr_chunk s \<longrightarrow> distinct (map sr_chunk rs) \<longrightarrow> (sr_score r \<le> sr_score s \<longleftrightarrow> sr_score a \<le> sr_score b)"
proof -
  let ?M = "Max (sr_score ` set rs)"
  have fin: "finite (sr_score ` set rs)" "sr_score ` set rs \<noteq> {}" using assms(1) by auto
  then have "?M \<in> sr_score ` set rs" by (rule Max_in)
  then obtain top where top: "top \<in> set rs" "sr_score top = ?M" by auto
  then have pos: "0 < ?M" using assms(2) by force
  have eq: "normalize_scores rs = map (\<lambda>r. r\<lparr>sr_score := sr_score r / ?M\<rparr>) rs" using assms(1) pos by (simp add: normalize_scores_def)
  have le: "sr_score r \<le> ?M" if "r \<in> set rs" for r using fin(1) that by simp
  show "map sr_chunk (normalize_scores rs) = map sr_chunk rs" by (simp add: eq)
  show "\<forall>r \<in> set (normalize_scores rs). 0 < sr_score r \<and> sr_score r \<le> 1" using le assms(2) pos by (auto simp: eq)
  show "\<exists>r \<in> set (normalize_scores rs). sr_score r = 1" using top pos by (auto simp: eq intro!: bexI [of _ top])
  have inj: "a = b" if "a \<in> set rs" "b \<in> set rs" "sr_chunk a = sr_chunk b" "distinct (map sr_chunk rs)" for a b
    using that by (metis distinct_map inj_onD)
  show "\<forall>r \<in> set (normalize_scores rs). \<forall>s \<in> set (normalize_scores rs). \<forall>a \<in> set rs. \<forall>b \<in> set rs.
           sr_chunk a = sr_chunk r \<longrightarrow> sr_chunk b = sr_chunk s \<longrightarrow> distinct (map sr_chunk rs) \<longrightarrow> (sr_score r \<le> sr_score s \<longleftrightarrow> sr_score a \<le> sr_score b)"
    unfolding eq using pos inj by (auto simp: divide_le_cancel)
qed

text \<open>Rank fusion is faithful to its formula. With ranks from one, the results are different chunks of the two lists, at most the limit of
  them, their scores lie between zero and one and above the threshold, and they are ordered by the sum of \<open>1 / (k + rank)\<close>; without a
  threshold a chunk is left out only for the limit, and the best one has score one.\<close>

theorem rank_fusion_correct:
  assumes ranks: "\<forall>r \<in> set (fts @ vec). 0 < rr_rank r" and some: "fts @ vec \<noteq> []"
    and rs: "rs = reciprocal_rank_fusion fts vec cfg"
  shows "distinct (map sr_chunk rs) \<and> set (map sr_chunk rs) \<subseteq> rr_chunk ` set (fts @ vec) \<and> length rs \<le> sc_limit cfg
    \<and> (\<forall>r \<in> set rs. 0 < sr_score r \<and> sr_score r \<le> 1 \<and> sc_min_score cfg \<le> sr_score r)
    \<and> sorted_wrt (\<lambda>r s. rrf_score cfg (fts @ vec) (sr_chunk s) \<le> rrf_score cfg (fts @ vec) (sr_chunk r)) rs
    \<and> (sc_min_score cfg = 0 \<and> card (rr_chunk ` set (fts @ vec)) \<le> sc_limit cfg \<longrightarrow>
         set (map sr_chunk rs) = rr_chunk ` set (fts @ vec) \<and> (\<exists>r \<in> set rs. sr_score r = 1))"
proof -
  let ?F = "fused fts vec cfg" and ?R = "rrf_score cfg (fts @ vec)"
  let ?N = "normalize_scores ?F"
  let ?K = "if 0 < sc_min_score cfg then filter (\<lambda>r. sc_min_score cfg \<le> sr_score r) ?N else ?N"
  let ?S = "sort_key (\<lambda>r. - sr_score r) ?K"
  note F = fused_chunks [of fts vec cfg]
  have rs': "rs = take (sc_limit cfg) ?S" unfolding rs reciprocal_rank_fusion_def Let_def fused_def by simp
  have pos: "\<forall>r \<in> set ?F. 0 < sr_score r" using F rrf_score_pos [OF _ ranks] by (metis image_eqI set_map)
  have "?F \<noteq> []" using F some by auto
  note N = normalize_scores_props [OF this pos]
  have dK: "distinct (map sr_chunk ?K)" using F N(1) distinct_map_filter [of sr_chunk ?N] by simp
  have "mset (map sr_chunk ?S) = mset (map sr_chunk ?K)" by simp
  then have dS: "distinct (map sr_chunk ?S)" using dK mset_eq_imp_distinct_iff by blast
  have sub: "set rs \<subseteq> set ?K" using set_take_subset [of "sc_limit cfg" ?S] by (simp add: rs')
  have K: "set ?K \<subseteq> set ?N" by auto
  have chunks: "sr_chunk ` set ?N = rr_chunk ` set (fts @ vec)" using F N(1) by (metis set_map)
  have order: "?R (sr_chunk s) \<le> ?R (sr_chunk r)" if rs: "r \<in> set ?N" "s \<in> set ?N" "- sr_score r \<le> - sr_score s" for r s
  proof -
    have "sr_chunk ` set ?N = sr_chunk ` set ?F" using arg_cong [OF N(1), of set] by (simp only: set_map)
    then have "sr_chunk r \<in> sr_chunk ` set ?F" "sr_chunk s \<in> sr_chunk ` set ?F"
      using imageI [OF rs(1), of sr_chunk] imageI [OF rs(2), of sr_chunk] by simp_all
    then obtain a b where ab: "a \<in> set ?F" "b \<in> set ?F" "sr_chunk a = sr_chunk r" "sr_chunk b = sr_chunk s" by auto
    then have "sr_score b \<le> sr_score a" using N(4) rs F by auto
    then show ?thesis using F ab by auto
  qed
  have "sorted_wrt (\<lambda>r s. - sr_score r \<le> - sr_score s) ?S" using sorted_sort_key [of "\<lambda>r. - sr_score r" ?K] by (simp add: sorted_wrt_map)
  then have "sorted_wrt (\<lambda>r s. ?R (sr_chunk s) \<le> ?R (sr_chunk r)) ?S"
    by (rule sorted_wrt_mono_rel [rotated]) (use order K in auto)
  then have sorted: "sorted_wrt (\<lambda>r s. ?R (sr_chunk s) \<le> ?R (sr_chunk r)) rs" unfolding rs' by (rule sorted_wrt_take)
  have all: "set (map sr_chunk rs) = rr_chunk ` set (fts @ vec) \<and> (\<exists>r \<in> set rs. sr_score r = 1)"
    if "sc_min_score cfg = 0" "card (rr_chunk ` set (fts @ vec)) \<le> sc_limit cfg"
  proof -
    have "length ?N = card (rr_chunk ` set (fts @ vec))" using F N(1) distinct_card [of "map sr_chunk ?F"] by (metis length_map)
    then have "set rs = set ?N" using that by (simp add: rs')
    then show ?thesis using chunks N(3) by simp
  qed
  have "distinct (map sr_chunk rs)" using dS unfolding rs' take_map [symmetric] by (rule distinct_take)
  moreover have "set (map sr_chunk rs) \<subseteq> rr_chunk ` set (fts @ vec)" using image_mono [OF order_trans [OF sub K], of sr_chunk] unfolding chunks set_map .
  moreover have "length rs \<le> sc_limit cfg" by (simp add: rs')
  moreover have "0 < sr_score r \<and> sr_score r \<le> 1 \<and> sc_min_score cfg \<le> sr_score r" if "r \<in> set rs" for r
  proof -
    have r: "r \<in> set ?K" "0 < sr_score r" "sr_score r \<le> 1" using that sub K N(2) by blast+
    then have "sc_min_score cfg \<le> sr_score r" by (cases "0 < sc_min_score cfg") auto
    then show ?thesis using r by simp
  qed
  ultimately show ?thesis using sorted all by blast
qed

theorem rank_fusion_correct_witness:
  "\<exists>r \<in> set (reciprocal_rank_fusion [\<lparr>rr_chunk = 1, rr_document = 1, rr_content = ''a'', rr_rank = 1\<rparr>]
       [\<lparr>rr_chunk = 2, rr_document = 1, rr_content = ''b'', rr_rank = 1\<rparr>, \<lparr>rr_chunk = 1, rr_document = 1, rr_content = ''a'', rr_rank = 2\<rparr>] default_search).
     sr_score r = 1"
proof -
  let ?f = "[\<lparr>rr_chunk = 1, rr_document = 1, rr_content = ''a'', rr_rank = 1\<rparr>]"
  let ?v = "[\<lparr>rr_chunk = 2, rr_document = 1, rr_content = ''b'', rr_rank = 1\<rparr>, \<lparr>rr_chunk = 1, rr_document = 1, rr_content = ''a'', rr_rank = 2\<rparr>]"
  have "\<forall>r \<in> set (?f @ ?v). 0 < rr_rank r" by simp
  then show ?thesis using rank_fusion_correct [of ?f ?v _ default_search] by (simp add: default_search_def card_insert_if)
qed

end
