(* ===== verification/Workspace.thy ===== *)
theory Workspace
  imports Secrets Workspace_Index "HOL-Library.Char_ord" "HOL-Library.List_Lexorder"
begin

text \<open>
  The workspace (\<open>src/workspace/mod.rs\<close>, \<open>document.rs\<close>, \<open>hygiene.rs\<close>) over the document tables of the libSQL backend
  (\<open>src/db/libsql/workspace.rs\<close>), with the encryption of matter files (\<open>src/legal/workspace_crypto.rs\<close>).

  A table is the list of its rows. \<open>wd_down\<close> is the error of a connection that cannot be had; it stays the same during a call.
  \<open>serde_json\<close>, the crate \<open>base64\<close> and SHA-256 are the record \<open>codec\<close>. The full-text index and the vector index of the engine are
  the arguments \<open>fts\<close> and \<open>vec\<close> of \<open>hybrid_search\<close>; embeddings are opaque.
\<close>

section \<open>Encrypted matter files\<close>

record envelope =
  en_format :: string
  en_version :: nat
  en_algorithm :: string
  en_salt :: string
  en_ciphertext :: string
  en_cipher_sha :: string
  en_plain_sha :: string
  en_matter :: string
  en_at :: string

record codec =
  env_to_json :: "envelope \<Rightarrow> string + string"
  env_of_json :: "string \<Rightarrow> envelope option"
  b64_enc :: "bytes \<Rightarrow> string"
  b64_dec :: "string \<Rightarrow> string + bytes"
  sha256_hex :: "bytes \<Rightarrow> string"

definition MATTER_ENVELOPE_FORMAT :: string where "MATTER_ENVELOPE_FORMAT = ''clawyer-matter-enc-v1''"
definition MATTER_ENVELOPE_VERSION :: nat where "MATTER_ENVELOPE_VERSION = 1"

definition path_parts :: "string \<Rightarrow> string list" where
  "path_parts p = filter (\<lambda>s. s \<noteq> []) (split_on (CHR ''/'') (trim_matches (CHR ''/'') p))"

definition matter_id_for_path :: "string \<Rightarrow> string \<Rightarrow> string option" where
  "matter_id_for_path p base =
     (let ps = path_parts p; rs = path_parts base
      in if rs = [] \<or> length ps \<le> length rs then None
         else if take (length rs) ps \<noteq> rs then None
         else let candidate = sanitize_matter_id (ps ! length rs) in if candidate = [] then None else Some candidate)"

definition is_encrypted_payload :: "codec \<Rightarrow> string \<Rightarrow> bool" where
  "is_encrypted_payload cd content =
     (case env_of_json cd content of None \<Rightarrow> False
      | Some e \<Rightarrow> en_format e = MATTER_ENVELOPE_FORMAT \<and> en_version e = MATTER_ENVELOPE_VERSION)"

text \<open>\<open>d\<close> holds the salt and the nonce drawn, \<open>time\<close> is the rendered clock.\<close>

definition encrypt_matter_content ::
  "codec \<Rightarrow> crypto_prims \<Rightarrow> secrets_crypto \<Rightarrow> draw \<Rightarrow> string \<Rightarrow> string \<Rightarrow> string \<Rightarrow> string + string" where
  "encrypt_matter_content cd cp c d time matter plaintext =
     (case encrypt cp c (dr_salt d) (dr_nonce d) plaintext of
        Inl e \<Rightarrow> Inl (''matter encrypt failed: '' @ secret_error_text e)
      | Inr (ciphertext, salt) \<Rightarrow>
          (case env_to_json cd \<lparr>en_format = MATTER_ENVELOPE_FORMAT, en_version = MATTER_ENVELOPE_VERSION,
                  en_algorithm = ''aes-256-gcm-hkdf-sha256'', en_salt = b64_enc cd salt, en_ciphertext = b64_enc cd ciphertext,
                  en_cipher_sha = sha256_hex cd ciphertext, en_plain_sha = sha256_hex cd plaintext, en_matter = matter, en_at = time\<rparr> of
             Inl e \<Rightarrow> Inl (''matter envelope encode failed: '' @ e)
           | Inr s \<Rightarrow> Inr s))"

definition decrypt_matter_content ::
  "(nat \<Rightarrow> string) \<Rightarrow> codec \<Rightarrow> crypto_prims \<Rightarrow> secrets_crypto \<Rightarrow> string \<Rightarrow> string \<Rightarrow> string + string option" where
  "decrypt_matter_content show_nat cd cp c expected content =
     (case env_of_json cd content of None \<Rightarrow> Inr None
      | Some e \<Rightarrow>
          if en_format e \<noteq> MATTER_ENVELOPE_FORMAT then Inr None
          else if en_version e \<noteq> MATTER_ENVELOPE_VERSION then Inl (''unsupported matter envelope version '' @ show_nat (en_version e))
          else if sanitize_matter_id expected = [] \<or> sanitize_matter_id (en_matter e) \<noteq> sanitize_matter_id expected
               then Inl ''matter envelope scope mismatch''
          else case b64_dec cd (en_salt e) of Inl x \<Rightarrow> Inl (''invalid matter envelope salt: '' @ x)
               | Inr salt \<Rightarrow>
                   (case b64_dec cd (en_ciphertext e) of Inl x \<Rightarrow> Inl (''invalid matter envelope ciphertext: '' @ x)
                    | Inr ciphertext \<Rightarrow>
                        if sha256_hex cd ciphertext \<noteq> en_cipher_sha e then Inl ''matter envelope ciphertext checksum mismatch''
                        else case decrypt cp c ciphertext salt of Inl x \<Rightarrow> Inl (''matter decrypt failed: '' @ secret_error_text x)
                             | Inr plain \<Rightarrow>
                                 if sha256_hex cd plain \<noteq> en_plain_sha e then Inl ''matter envelope plaintext checksum mismatch''
                                 else Inr (Some plain)))"

text \<open>What the code relies on: JSON and Base64 decode what they encoded, and JSON text followed by anything but white space is
  not JSON.\<close>

definition codec_laws :: "codec \<Rightarrow> bool" where
  "codec_laws cd \<longleftrightarrow> (\<forall>x. b64_dec cd (b64_enc cd x) = Inr x)
     \<and> (\<forall>e s. env_to_json cd e = Inr s \<longrightarrow> s \<noteq> [] \<and> env_of_json cd s = Some e)
     \<and> (\<forall>e s t. env_to_json cd e = Inr s \<longrightarrow> (\<exists>c \<in> set t. \<not> is_ws c) \<longrightarrow> env_of_json cd (s @ t) = None)"

section \<open>Documents\<close>

datatype workspace_error = DocumentNotFound string string | SearchFailed string | EmbeddingFailed string | ChunkingFailed string

type_synonym embedding = "nat list"

record memory_document =
  md_id :: uuid
  md_user :: string
  md_agent :: "uuid option"
  md_path :: string
  md_content :: string
  md_updated :: nat

record memory_chunk =
  mc_id :: uuid
  mc_document :: uuid
  mc_index :: nat
  mc_content :: string
  mc_embedding :: "embedding option"

record workspace_db =
  wd_down :: "string option"
  wd_next :: uuid
  wd_docs :: "memory_document list"
  wd_chunks :: "memory_chunk list"

type_synonym 'a ws_result = "(workspace_error + 'a) \<times> workspace_db"

definition then_do :: "'a ws_result \<Rightarrow> ('a \<Rightarrow> workspace_db \<Rightarrow> 'b ws_result) \<Rightarrow> 'b ws_result" where
  "then_do r f = (case r of (Inl e, db) \<Rightarrow> (Inl e, db) | (Inr x, db) \<Rightarrow> f x db)"

definition at_path :: "string \<Rightarrow> uuid option \<Rightarrow> string \<Rightarrow> memory_document \<Rightarrow> bool" where
  "at_path user agent p d \<longleftrightarrow> md_user d = user \<and> md_agent d = agent \<and> md_path d = p"

definition find_doc :: "string \<Rightarrow> uuid option \<Rightarrow> string \<Rightarrow> workspace_db \<Rightarrow> memory_document option" where
  "find_doc user agent p db = find (at_path user agent p) (wd_docs db)"

definition get_document_by_path :: "string \<Rightarrow> uuid option \<Rightarrow> string \<Rightarrow> workspace_db \<Rightarrow> memory_document ws_result" where
  "get_document_by_path user agent p db =
     (case wd_down db of Some e \<Rightarrow> (Inl (SearchFailed e), db)
      | None \<Rightarrow> (case find_doc user agent p db of Some d \<Rightarrow> (Inr d, db) | None \<Rightarrow> (Inl (DocumentNotFound p user), db)))"

definition get_document_by_id :: "uuid \<Rightarrow> workspace_db \<Rightarrow> memory_document ws_result" where
  "get_document_by_id i db =
     (case wd_down db of Some e \<Rightarrow> (Inl (SearchFailed e), db)
      | None \<Rightarrow> (case find (\<lambda>d. md_id d = i) (wd_docs db) of Some d \<Rightarrow> (Inr d, db) | None \<Rightarrow> (Inl (DocumentNotFound ''unknown'' ''unknown''), db)))"

definition get_or_create_document_by_path :: "nat \<Rightarrow> string \<Rightarrow> uuid option \<Rightarrow> string \<Rightarrow> workspace_db \<Rightarrow> memory_document ws_result" where
  "get_or_create_document_by_path now user agent p db =
     (case get_document_by_path user agent p db of
        (Inr d, db1) \<Rightarrow> (Inr d, db1)
      | (Inl (DocumentNotFound _ _), db1) \<Rightarrow>
          get_document_by_path user agent p
            (db1\<lparr>wd_docs := wd_docs db1 @ [\<lparr>md_id = wd_next db1, md_user = user, md_agent = agent, md_path = p, md_content = [], md_updated = now\<rparr>],
                 wd_next := Suc (wd_next db1)\<rparr>)
      | (Inl e, db1) \<Rightarrow> (Inl e, db1))"

definition update_document :: "nat \<Rightarrow> uuid \<Rightarrow> string \<Rightarrow> workspace_db \<Rightarrow> unit ws_result" where
  "update_document now i content db =
     (case wd_down db of Some e \<Rightarrow> (Inl (SearchFailed e), db)
      | None \<Rightarrow> (Inr (), db\<lparr>wd_docs := map (\<lambda>d. if md_id d = i then d\<lparr>md_content := content, md_updated := now\<rparr> else d) (wd_docs db)\<rparr>))"

definition delete_chunks :: "uuid \<Rightarrow> workspace_db \<Rightarrow> unit ws_result" where
  "delete_chunks i db =
     (case wd_down db of Some e \<Rightarrow> (Inl (ChunkingFailed e), db)
      | None \<Rightarrow> (Inr (), db\<lparr>wd_chunks := filter (\<lambda>c. mc_document c \<noteq> i) (wd_chunks db)\<rparr>))"

definition insert_chunk :: "uuid \<Rightarrow> nat \<Rightarrow> string \<Rightarrow> embedding option \<Rightarrow> workspace_db \<Rightarrow> uuid ws_result" where
  "insert_chunk i n content emb db =
     (case wd_down db of Some e \<Rightarrow> (Inl (ChunkingFailed e), db)
      | None \<Rightarrow> (Inr (wd_next db), db\<lparr>wd_chunks := wd_chunks db @ [\<lparr>mc_id = wd_next db, mc_document = i, mc_index = n, mc_content = content, mc_embedding = emb\<rparr>],
                   wd_next := Suc (wd_next db)\<rparr>))"

definition delete_document_by_path :: "string \<Rightarrow> uuid option \<Rightarrow> string \<Rightarrow> workspace_db \<Rightarrow> unit ws_result" where
  "delete_document_by_path user agent p db =
     then_do (get_document_by_path user agent p db) (\<lambda>d db1.
       then_do (delete_chunks (md_id d) db1) (\<lambda>_ db2.
         (Inr (), db2\<lparr>wd_docs := filter (\<lambda>d. \<not> at_path user agent p d) (wd_docs db2)\<rparr>)))"

record workspace_entry =
  we_path :: string
  we_directory :: bool
  we_updated :: "nat option"
  we_preview :: "string option"

definition entry_step :: "string \<Rightarrow> memory_document \<Rightarrow> (string, workspace_entry) hashmap \<Rightarrow> (string, workspace_entry) hashmap" where
  "entry_step dir d m =
     (case (if dir = [] then Some (md_path d) else strip_prefix (md_path d) dir) of
        None \<Rightarrow> m
      | Some relative \<Rightarrow>
          let child = takeWhile (\<lambda>c. c \<noteq> CHR ''/'') relative; is_dir = CHR ''/'' \<in> set relative
          in if child = [] then m
             else hm_insert child
                    (case hm_get m child of
                       Some e \<Rightarrow> (if is_dir then e\<lparr>we_directory := True, we_preview := None\<rparr> else e)
                                   \<lparr>we_updated := (case we_updated e of Some u \<Rightarrow> Some (max u (md_updated d)) | None \<Rightarrow> None)\<rparr>
                     | None \<Rightarrow> \<lparr>we_path = dir @ child, we_directory = is_dir, we_updated = Some (md_updated d),
                                we_preview = (if is_dir then None else Some (take 200 (md_content d)))\<rparr>) m)"

definition list_directory :: "string \<Rightarrow> uuid option \<Rightarrow> string \<Rightarrow> workspace_db \<Rightarrow> workspace_entry list ws_result" where
  "list_directory user agent directory db =
     (case wd_down db of Some e \<Rightarrow> (Inl (SearchFailed e), db)
      | None \<Rightarrow>
          let dir = (if directory \<noteq> [] \<and> \<not> ends_with directory ''/'' then directory @ ''/'' else directory);
              rows = sort_key md_path (filter (\<lambda>d. md_user d = user \<and> md_agent d = agent \<and> starts_with (md_path d) dir) (wd_docs db))
          in (Inr (sort_key we_path (map snd (fold (entry_step dir) rows []))), db))"

definition list_all_paths :: "string \<Rightarrow> uuid option \<Rightarrow> workspace_db \<Rightarrow> string list ws_result" where
  "list_all_paths user agent db =
     (case wd_down db of Some e \<Rightarrow> (Inl (SearchFailed e), db)
      | None \<Rightarrow> (Inr (sort (map md_path (filter (\<lambda>d. md_user d = user \<and> md_agent d = agent) (wd_docs db)))), db))"

section \<open>The workspace\<close>

record legal_content_policy =
  lp_root :: string
  lp_exclude :: bool
  lp_crypto :: secrets_crypto

record workspace =
  ws_user :: string
  ws_agent :: "uuid option"
  ws_embed :: "(string \<Rightarrow> string + embedding) option"
  ws_policy :: "legal_content_policy option"

text \<open>The libraries the workspace uses and what a call draws: random values, the clock, its rendering.\<close>

record outside =
  ou_codec :: codec
  ou_prims :: crypto_prims
  ou_show :: "nat \<Rightarrow> string"
  ou_draw :: draw
  ou_at :: string

fun collapse_slashes :: "bool \<Rightarrow> string \<Rightarrow> string" where
  "collapse_slashes prev [] = []"
| "collapse_slashes prev (c # s) =
     (if c = CHR ''/'' then (if prev then collapse_slashes True s else c # collapse_slashes True s)
      else c # collapse_slashes False s)"

definition normalize_doc_path :: "string \<Rightarrow> string" where
  "normalize_doc_path p = collapse_slashes False (trim_matches (CHR ''/'') (trim p))"

definition normalize_directory :: "string \<Rightarrow> string" where
  "normalize_directory p = trim_end_matches (CHR ''/'') (normalize_doc_path p)"

definition policy_matter :: "workspace \<Rightarrow> string \<Rightarrow> (legal_content_policy \<times> string) option" where
  "policy_matter ws p = (case ws_policy ws of None \<Rightarrow> None
     | Some lp \<Rightarrow> map_option (\<lambda>m. (lp, m)) (matter_id_for_path p (lp_root lp)))"

definition ws_read :: "outside \<Rightarrow> workspace \<Rightarrow> string \<Rightarrow> workspace_db \<Rightarrow> memory_document ws_result" where
  "ws_read ou ws p0 db =
     (let p = normalize_doc_path p0
      in then_do (get_document_by_path (ws_user ws) (ws_agent ws) p db) (\<lambda>d db1.
           case policy_matter ws p of None \<Rightarrow> (Inr d, db1)
           | Some (lp, m) \<Rightarrow>
               (case decrypt_matter_content (ou_show ou) (ou_codec ou) (ou_prims ou) (lp_crypto lp) m (md_content d) of
                  Inl e \<Rightarrow> (Inl (SearchFailed e), db1)
                | Inr None \<Rightarrow> (Inr d, db1)
                | Inr (Some plain) \<Rightarrow> (Inr (d\<lparr>md_content := plain\<rparr>), db1))))"

definition ws_read_stored :: "workspace \<Rightarrow> string \<Rightarrow> workspace_db \<Rightarrow> memory_document ws_result" where
  "ws_read_stored ws p db = get_document_by_path (ws_user ws) (ws_agent ws) (normalize_doc_path p) db"

fun insert_chunks :: "workspace \<Rightarrow> uuid \<Rightarrow> nat \<Rightarrow> string list \<Rightarrow> workspace_db \<Rightarrow> unit ws_result" where
  "insert_chunks ws i n [] db = (Inr (), db)"
| "insert_chunks ws i n (c # cs) db =
     then_do (insert_chunk i n c (case ws_embed ws of None \<Rightarrow> None | Some f \<Rightarrow> (case f c of Inr e \<Rightarrow> Some e | Inl _ \<Rightarrow> None)) db)
       (\<lambda>_ db1. insert_chunks ws i (n + 1) cs db1)"

definition chunks_of :: "string \<Rightarrow> string list" where
  "chunks_of content = the (chunk_document content default_chunks)"

definition reindex_document :: "workspace \<Rightarrow> uuid \<Rightarrow> workspace_db \<Rightarrow> unit ws_result" where
  "reindex_document ws i db =
     then_do (get_document_by_id i db) (\<lambda>d db1.
       then_do (delete_chunks i db1) (\<lambda>_ db2. insert_chunks ws i 0 (chunks_of (md_content d)) db2))"

definition store_and_index :: "nat \<Rightarrow> workspace \<Rightarrow> string \<Rightarrow> string \<Rightarrow> bool \<Rightarrow> workspace_db \<Rightarrow> unit ws_result" where
  "store_and_index now ws p content skip db =
     then_do (get_or_create_document_by_path now (ws_user ws) (ws_agent ws) p db) (\<lambda>d db1.
       then_do (update_document now (md_id d) content db1) (\<lambda>_ db2.
         if skip then delete_chunks (md_id d) db2 else reindex_document ws (md_id d) db2))"

definition ws_write :: "outside \<Rightarrow> workspace \<Rightarrow> string \<Rightarrow> string \<Rightarrow> workspace_db \<Rightarrow> memory_document ws_result" where
  "ws_write ou ws p0 content db =
     (let p = normalize_doc_path p0; now = dr_now (ou_draw ou)
      in case policy_matter ws p of
           None \<Rightarrow> then_do (store_and_index now ws p content False db) (\<lambda>_ db1. ws_read ou ws p db1)
         | Some (lp, m) \<Rightarrow>
             (case encrypt_matter_content (ou_codec ou) (ou_prims ou) (lp_crypto lp) (ou_draw ou) (ou_at ou) m content of
                Inl e \<Rightarrow> (Inl (SearchFailed e), db)
              | Inr stored \<Rightarrow> then_do (store_and_index now ws p stored (lp_exclude lp) db) (\<lambda>_ db1. ws_read ou ws p db1)))"

definition ws_write_stored :: "outside \<Rightarrow> workspace \<Rightarrow> string \<Rightarrow> string \<Rightarrow> workspace_db \<Rightarrow> memory_document ws_result" where
  "ws_write_stored ou ws p0 content db =
     (let p = normalize_doc_path p0;
          skip = (case policy_matter ws p of None \<Rightarrow> False | Some (lp, _) \<Rightarrow> lp_exclude lp) \<and> is_encrypted_payload (ou_codec ou) content
      in then_do (store_and_index (dr_now (ou_draw ou)) ws p content skip db) (\<lambda>_ db1. ws_read_stored ws p db1))"

definition append_text :: "nat \<Rightarrow> workspace \<Rightarrow> string \<Rightarrow> string \<Rightarrow> string \<Rightarrow> workspace_db \<Rightarrow> unit ws_result" where
  "append_text now ws sep p content db =
     then_do (get_or_create_document_by_path now (ws_user ws) (ws_agent ws) p db) (\<lambda>d db1.
       then_do (update_document now (md_id d) (if md_content d = [] then content else md_content d @ sep @ content) db1) (\<lambda>_ db2.
         reindex_document ws (md_id d) db2))"

abbreviation newline :: string where
  "newline \<equiv> [CHR 0x0A]"

definition ws_append :: "outside \<Rightarrow> workspace \<Rightarrow> string \<Rightarrow> string \<Rightarrow> workspace_db \<Rightarrow> unit ws_result" where
  "ws_append ou ws p content db = append_text (dr_now (ou_draw ou)) ws newline (normalize_doc_path p) content db"

definition ws_exists :: "workspace \<Rightarrow> string \<Rightarrow> workspace_db \<Rightarrow> bool ws_result" where
  "ws_exists ws p db =
     (case get_document_by_path (ws_user ws) (ws_agent ws) (normalize_doc_path p) db of
        (Inr _, db1) \<Rightarrow> (Inr True, db1)
      | (Inl (DocumentNotFound _ _), db1) \<Rightarrow> (Inr False, db1)
      | (Inl e, db1) \<Rightarrow> (Inl e, db1))"

definition ws_delete :: "workspace \<Rightarrow> string \<Rightarrow> workspace_db \<Rightarrow> unit ws_result" where
  "ws_delete ws p db = delete_document_by_path (ws_user ws) (ws_agent ws) (normalize_doc_path p) db"

definition ws_list :: "workspace \<Rightarrow> string \<Rightarrow> workspace_db \<Rightarrow> workspace_entry list ws_result" where
  "ws_list ws directory db = list_directory (ws_user ws) (ws_agent ws) (normalize_directory directory) db"

definition ws_list_all :: "workspace \<Rightarrow> workspace_db \<Rightarrow> string list ws_result" where
  "ws_list_all ws db = list_all_paths (ws_user ws) (ws_agent ws) db"

definition read_or_create :: "nat \<Rightarrow> workspace \<Rightarrow> string \<Rightarrow> workspace_db \<Rightarrow> memory_document ws_result" where
  "read_or_create now ws p db = get_or_create_document_by_path now (ws_user ws) (ws_agent ws) p db"

definition append_memory :: "outside \<Rightarrow> workspace \<Rightarrow> string \<Rightarrow> workspace_db \<Rightarrow> unit ws_result" where
  "append_memory ou ws entry db = append_text (dr_now (ou_draw ou)) ws (newline @ newline) ''MEMORY.md'' entry db"

text \<open>\<open>day\<close> and \<open>clock\<close> are the rendered date and time of \<open>Utc::now\<close>.\<close>

definition daily_path :: "string \<Rightarrow> string" where
  "daily_path day = ''daily/'' @ day @ ''.md''"

definition append_daily_log :: "outside \<Rightarrow> workspace \<Rightarrow> string \<Rightarrow> string \<Rightarrow> string \<Rightarrow> workspace_db \<Rightarrow> unit ws_result" where
  "append_daily_log ou ws day clock entry db = ws_append ou ws (daily_path day) (''['' @ clock @ ''] '' @ entry) db"

definition heartbeat_checklist :: "string \<Rightarrow> outside \<Rightarrow> workspace \<Rightarrow> workspace_db \<Rightarrow> string option ws_result" where
  "heartbeat_checklist HEARTBEAT_SEED ou ws db =
     (case ws_read ou ws ''HEARTBEAT.md'' db of
        (Inr d, db1) \<Rightarrow> (Inr (Some (md_content d)), db1)
      | (Inl (DocumentNotFound _ _), db1) \<Rightarrow> (Inr (Some HEARTBEAT_SEED), db1)
      | (Inl e, db1) \<Rightarrow> (Inl e, db1))"

definition part_of :: "string \<Rightarrow> memory_document ws_result \<Rightarrow> string list" where
  "part_of header r = (case fst r of Inr d \<Rightarrow> if md_content d = [] then [] else [header @ newline @ newline @ md_content d] | Inl _ \<Rightarrow> [])"

definition identity_files :: "(string \<times> string) list" where
  "identity_files = [(''AGENTS.md'', ''## Agent Instructions''), (''SOUL.md'', ''## Core Values''),
     (''USER.md'', ''## User Context''), (''IDENTITY.md'', ''## Identity'')]"

definition system_prompt_for_context :: "outside \<Rightarrow> workspace \<Rightarrow> string \<Rightarrow> string \<Rightarrow> bool \<Rightarrow> workspace_db \<Rightarrow> string ws_result" where
  "system_prompt_for_context ou ws today yesterday is_group_chat db =
     (let ident = concat (map (\<lambda>(p, h). part_of h (ws_read ou ws p db)) identity_files);
          mem = (if is_group_chat then [] else part_of ''## Long-Term Memory'' (ws_read ou ws ''MEMORY.md'' db));
          r1 = read_or_create (dr_now (ou_draw ou)) ws (daily_path today) db;
          r2 = read_or_create (dr_now (ou_draw ou)) ws (daily_path yesterday) (snd r1);
          notes = part_of ''## Today's Notes'' r1 @ part_of (if yesterday = today then ''## Today's Notes'' else ''## Yesterday's Notes'') r2
      in (Inr (join_with (newline @ newline @ ''---'' @ newline @ newline) (ident @ mem @ notes)), snd r2))"

text \<open>The seed texts are the argument \<open>body\<close>.\<close>

definition SEED_FILES :: "string list" where
  "SEED_FILES = [''README.md'', ''MEMORY.md'', ''IDENTITY.md'', ''SOUL.md'', ''AGENTS.md'', ''USER.md'', ''HEARTBEAT.md'']"

fun seed_loop :: "(string \<Rightarrow> string) \<Rightarrow> outside \<Rightarrow> workspace \<Rightarrow> string list \<Rightarrow> nat \<Rightarrow> workspace_db \<Rightarrow> nat ws_result" where
  "seed_loop body ou ws [] cnt db = (Inr cnt, db)"
| "seed_loop body ou ws (p # ps) cnt db =
     (case ws_read ou ws p db of
        (Inl (DocumentNotFound _ _), db1) \<Rightarrow>
          (case ws_write ou ws p (body p) db1 of
             (Inl _, db2) \<Rightarrow> seed_loop body ou ws ps cnt db2
           | (Inr _, db2) \<Rightarrow> seed_loop body ou ws ps (cnt + 1) db2)
      | (_, db1) \<Rightarrow> seed_loop body ou ws ps cnt db1)"

definition seed_if_empty :: "(string \<Rightarrow> string) \<Rightarrow> outside \<Rightarrow> workspace \<Rightarrow> workspace_db \<Rightarrow> nat ws_result" where
  "seed_if_empty body ou ws db = seed_loop body ou ws SEED_FILES 0 db"

subsection \<open>Search\<close>

definition owner_of :: "workspace_db \<Rightarrow> memory_chunk \<Rightarrow> memory_document option" where
  "owner_of db c = find (\<lambda>d. md_id d = mc_document c) (wd_docs db)"

definition owned :: "string \<Rightarrow> uuid option \<Rightarrow> workspace_db \<Rightarrow> memory_chunk \<Rightarrow> bool" where
  "owned user agent db c = (case owner_of db c of Some d \<Rightarrow> md_user d = user \<and> md_agent d = agent | None \<Rightarrow> False)"

definition rank_rows :: "memory_chunk list \<Rightarrow> ranked_result list" where
  "rank_rows cs = map (\<lambda>(n, c). \<lparr>rr_chunk = mc_id c, rr_document = mc_document c, rr_content = mc_content c, rr_rank = n + 1\<rparr>) (enumerate 0 cs)"

definition is_vector_runtime_unavailable_error :: "string \<Rightarrow> bool" where
  "is_vector_runtime_unavailable_error reason =
     (let r = lowercase reason
      in str_contains r ''vector_top_k'' \<or> str_contains r ''no such function'' \<or> str_contains r ''no such module''
         \<or> str_contains r ''no such table'' \<or> str_contains r ''idx_memory_chunks_embedding'' \<or> str_contains r ''vector index'')"

definition hybrid_search ::
  "(string \<Rightarrow> memory_chunk list \<Rightarrow> string + memory_chunk list) \<Rightarrow> (embedding \<Rightarrow> nat \<Rightarrow> memory_chunk list \<Rightarrow> string + memory_chunk list) \<Rightarrow>
   string \<Rightarrow> uuid option \<Rightarrow> string \<Rightarrow> embedding option \<Rightarrow> search_config \<Rightarrow> workspace_db \<Rightarrow> workspace_error + search_result list" where
  "hybrid_search fts vec user agent query emb cfg db =
     (case wd_down db of Some e \<Rightarrow> Inl (SearchFailed e)
      | None \<Rightarrow>
          (case (if sc_use_fts cfg then fts query (wd_chunks db) else Inr []) of
             Inl e \<Rightarrow> Inl (SearchFailed (''FTS query failed: '' @ e))
           | Inr found \<Rightarrow>
               let fts_results = rank_rows (take (sc_pre_limit cfg) (filter (owned user agent db) found))
               in case emb of
                    Some v \<Rightarrow>
                      if sc_use_vector cfg then
                        (case vec v (sc_pre_limit cfg) (wd_chunks db) of
                           Inl e \<Rightarrow>
                             let reason = ''Vector query failed: '' @ e
                             in if sc_use_fts cfg \<and> is_vector_runtime_unavailable_error reason then Inr (reciprocal_rank_fusion fts_results [] cfg)
                                else Inl (SearchFailed reason)
                         | Inr near \<Rightarrow> Inr (reciprocal_rank_fusion fts_results (rank_rows (filter (owned user agent db) near)) cfg))
                      else Inr (reciprocal_rank_fusion fts_results [] cfg)
                  | None \<Rightarrow> Inr (reciprocal_rank_fusion fts_results [] cfg)))"

definition search_with_config ::
  "(string \<Rightarrow> memory_chunk list \<Rightarrow> string + memory_chunk list) \<Rightarrow> (embedding \<Rightarrow> nat \<Rightarrow> memory_chunk list \<Rightarrow> string + memory_chunk list) \<Rightarrow>
   workspace \<Rightarrow> string \<Rightarrow> search_config \<Rightarrow> workspace_db \<Rightarrow> workspace_error + search_result list" where
  "search_with_config fts vec ws query cfg db =
     (case (case ws_embed ws of None \<Rightarrow> Inr None | Some f \<Rightarrow> (case f query of Inl e \<Rightarrow> Inl (EmbeddingFailed e) | Inr v \<Rightarrow> Inr (Some v))) of
        Inl e \<Rightarrow> Inl e
      | Inr emb \<Rightarrow> hybrid_search fts vec (ws_user ws) (ws_agent ws) query emb cfg db)"

definition get_chunks_without_embeddings :: "string \<Rightarrow> uuid option \<Rightarrow> nat \<Rightarrow> workspace_db \<Rightarrow> workspace_error + memory_chunk list" where
  "get_chunks_without_embeddings user agent limit db =
     (case wd_down db of Some e \<Rightarrow> Inl (SearchFailed e)
      | None \<Rightarrow> Inr (take limit (filter (\<lambda>c. owned user agent db c \<and> mc_embedding c = None) (wd_chunks db))))"

definition update_chunk_embedding :: "uuid \<Rightarrow> embedding \<Rightarrow> workspace_db \<Rightarrow> unit ws_result" where
  "update_chunk_embedding i v db =
     (case wd_down db of Some e \<Rightarrow> (Inl (EmbeddingFailed e), db)
      | None \<Rightarrow> (Inr (), db\<lparr>wd_chunks := map (\<lambda>c. if mc_id c = i then c\<lparr>mc_embedding := Some v\<rparr> else c) (wd_chunks db)\<rparr>))"

fun backfill_loop :: "(string \<Rightarrow> string + embedding) \<Rightarrow> memory_chunk list \<Rightarrow> nat \<Rightarrow> workspace_db \<Rightarrow> nat ws_result" where
  "backfill_loop f [] cnt db = (Inr cnt, db)"
| "backfill_loop f (c # cs) cnt db =
     (case f (mc_content c) of
        Inl _ \<Rightarrow> backfill_loop f cs cnt db
      | Inr v \<Rightarrow> then_do (update_chunk_embedding (mc_id c) v db) (\<lambda>_ db1. backfill_loop f cs (cnt + 1) db1))"

definition backfill_embeddings :: "workspace \<Rightarrow> workspace_db \<Rightarrow> nat ws_result" where
  "backfill_embeddings ws db =
     (case ws_embed ws of None \<Rightarrow> (Inr 0, db)
      | Some f \<Rightarrow> (case get_chunks_without_embeddings (ws_user ws) (ws_agent ws) 100 db of
                    Inl e \<Rightarrow> (Inl e, db) | Inr cs \<Rightarrow> backfill_loop f cs 0 db))"

subsection \<open>Hygiene\<close>

record hygiene_config =
  hc_enabled :: bool
  hc_retention_days :: nat
  hc_cadence_hours :: nat

record hygiene_report =
  hr_deleted :: nat
  hr_skipped :: bool

definition log_path :: "workspace_entry \<Rightarrow> string" where
  "log_path e = (if starts_with (we_path e) ''daily/'' then we_path e else ''daily/'' @ we_path e)"

fun cleanup_loop :: "workspace \<Rightarrow> int \<Rightarrow> workspace_entry list \<Rightarrow> nat \<Rightarrow> workspace_db \<Rightarrow> nat \<times> workspace_db" where
  "cleanup_loop ws cutoff [] deleted db = (deleted, db)"
| "cleanup_loop ws cutoff (e # es) deleted db =
     (if we_directory e then cleanup_loop ws cutoff es deleted db
      else case we_updated e of
             Some u \<Rightarrow>
               if int u < cutoff then
                 (case ws_delete ws (log_path e) db of
                    (Inl _, db1) \<Rightarrow> cleanup_loop ws cutoff es deleted db1
                  | (Inr _, db1) \<Rightarrow> cleanup_loop ws cutoff es (deleted + 1) db1)
               else cleanup_loop ws cutoff es deleted db
           | None \<Rightarrow> cleanup_loop ws cutoff es deleted db)"

definition cleanup_daily_logs :: "nat \<Rightarrow> workspace \<Rightarrow> nat \<Rightarrow> workspace_db \<Rightarrow> (workspace_error + nat) \<times> workspace_db" where
  "cleanup_daily_logs now ws retention_days db =
     then_do (ws_list ws ''daily/'' db) (\<lambda>entries db1.
       case cleanup_loop ws (int now - int retention_days * 86400000) entries 0 db1 of (n, db2) \<Rightarrow> (Inr n, db2))"

text \<open>\<open>last_run\<close> is the content of the state file; the last component is what is written to it.\<close>

definition run_if_due :: "nat \<Rightarrow> workspace \<Rightarrow> hygiene_config \<Rightarrow> nat option \<Rightarrow> workspace_db \<Rightarrow> hygiene_report \<times> workspace_db \<times> nat option" where
  "run_if_due now ws cfg last_run db =
     (if \<not> hc_enabled cfg then (\<lparr>hr_deleted = 0, hr_skipped = True\<rparr>, db, last_run)
      else if (case last_run of Some t \<Rightarrow> int now - int t < int (hc_cadence_hours cfg) * 3600000 | None \<Rightarrow> False)
      then (\<lparr>hr_deleted = 0, hr_skipped = True\<rparr>, db, last_run)
      else case cleanup_daily_logs now ws (hc_retention_days cfg) db of
             (Inr n, db1) \<Rightarrow> (\<lparr>hr_deleted = n, hr_skipped = False\<rparr>, db1, Some now)
           | (Inl _, db1) \<Rightarrow> (\<lparr>hr_deleted = 0, hr_skipped = False\<rparr>, db1, Some now))"

end
