(* ===== verification/Workspace_Store.thy ===== *)
theory Workspace_Store
  imports Workspace
begin

text \<open>
  The document tables implement a map: from user, agent and path to the stored text and the texts of its index entries. Writing, appending and
  deleting refine the corresponding updates of the map (an interpretation of the locale \<open>refines\<close>), and the properties of the workspace are read
  off the map: what was written is read back, other documents are left alone, matter files stay encrypted and out of the index, and what
  breaks that.
\<close>

section \<open>The map\<close>

type_synonym doc_key = "string \<times> uuid option \<times> string"
type_synonym doc_map = "doc_key \<rightharpoonup> string \<times> string list"

definition key_of :: "memory_document \<Rightarrow> doc_key" where
  "key_of d = (md_user d, md_agent d, md_path d)"

definition ws_key :: "workspace \<Rightarrow> string \<Rightarrow> doc_key" where
  "ws_key ws p = (ws_user ws, ws_agent ws, normalize_doc_path p)"

definition index_texts :: "workspace_db \<Rightarrow> uuid \<Rightarrow> string list" where
  "index_texts db i = map mc_content (filter (\<lambda>c. mc_document c = i) (wd_chunks db))"

definition doc_at :: "workspace_db \<Rightarrow> doc_key \<Rightarrow> memory_document option" where
  "doc_at db k = find (\<lambda>d. key_of d = k) (wd_docs db)"

definition doc_view :: "workspace_db \<Rightarrow> doc_map" where
  "doc_view db k = map_option (\<lambda>d. (md_content d, index_texts db (md_id d))) (doc_at db k)"

definition db_ok :: "workspace_db \<Rightarrow> bool" where
  "db_ok db \<longleftrightarrow> wd_down db = None \<and> distinct (map md_id (wd_docs db)) \<and> distinct (map key_of (wd_docs db))
     \<and> (\<forall>d \<in> set (wd_docs db). md_id d < wd_next db) \<and> (\<forall>c \<in> set (wd_chunks db). mc_document c \<in> md_id ` set (wd_docs db))"

lemma find_doc_at: "find_doc u a p db = doc_at db (u, a, p)"
proof -
  have "at_path u a p = (\<lambda>d. key_of d = (u, a, p))" by (auto simp: at_path_def key_of_def fun_eq_iff)
  then show ?thesis by (simp add: find_doc_def doc_at_def)
qed

lemma doc_at_Some: "doc_at db k = Some d \<Longrightarrow> d \<in> set (wd_docs db) \<and> key_of d = k"
  by (auto simp: doc_at_def find_Some_iff)

lemma doc_at_in:
  assumes "db_ok db" and "d \<in> set (wd_docs db)"
  shows "doc_at db (key_of d) = Some d"
proof (cases "doc_at db (key_of d)")
  case None
  then show ?thesis using assms(2) by (auto simp: doc_at_def find_None_iff)
next
  case (Some e)
  then show ?thesis using doc_at_Some [OF Some] assms by (metis db_ok_def distinct_map inj_onD)
qed

lemma same_id: "db_ok db \<Longrightarrow> d \<in> set (wd_docs db) \<Longrightarrow> e \<in> set (wd_docs db) \<Longrightarrow> md_id d = md_id e \<Longrightarrow> d = e"
  by (metis db_ok_def distinct_map inj_onD)

lemma get_path: "db_ok db \<Longrightarrow> get_document_by_path u a p db = (case doc_at db (u, a, p) of Some d \<Rightarrow> (Inr d, db) | None \<Rightarrow> (Inl (DocumentNotFound p u), db))"
  by (simp add: get_document_by_path_def find_doc_at db_ok_def split: option.splits)

lemma get_or_create_ok:
  assumes "db_ok db"
  obtains d db1 where "get_or_create_document_by_path now u a p db = (Inr d, db1)" "db_ok db1" "doc_at db1 (u, a, p) = Some d"
    "md_content d = (case doc_view db (u, a, p) of Some (c, _) \<Rightarrow> c | None \<Rightarrow> [])"
    "\<And>k. k \<noteq> (u, a, p) \<Longrightarrow> doc_view db1 k = doc_view db k"
    "doc_view db (u, a, p) \<noteq> None \<Longrightarrow> db1 = db"
proof (cases "doc_at db (u, a, p)")
  case (Some d)
  then show ?thesis using assms that [of d db] by (simp add: get_or_create_document_by_path_def get_path doc_view_def)
next
  case None
  let ?d = "\<lparr>md_id = wd_next db, md_user = u, md_agent = a, md_path = p, md_content = [], md_updated = now\<rparr>"
  let ?db = "db\<lparr>wd_docs := wd_docs db @ [?d], wd_next := Suc (wd_next db)\<rparr>"
  have fresh: "(u, a, p) \<notin> key_of ` set (wd_docs db)" using None by (auto simp: doc_at_def find_None_iff)
  have new: "wd_next db \<notin> md_id ` set (wd_docs db)" using assms by (auto simp: db_ok_def)
  have ok: "db_ok ?db" using assms fresh new by (auto simp: db_ok_def key_of_def less_Suc_eq)
  have here: "doc_at ?db (u, a, p) = Some ?d" using doc_at_in [OF ok, of ?d] by (simp add: key_of_def)
  have other: "doc_view ?db k = doc_view db k" if "k \<noteq> (u, a, p)" for k
  proof -
    have "doc_at ?db k = doc_at db k" using that by (simp add: doc_at_def find_append key_of_def split: option.splits)
    then show ?thesis by (simp add: doc_view_def index_texts_def)
  qed
  have "get_or_create_document_by_path now u a p db = (Inr ?d, ?db)"
    using None assms by (simp add: get_or_create_document_by_path_def get_path [OF assms] get_path [OF ok] here)
  then show ?thesis using that [of ?d ?db] ok here other None by (simp add: doc_view_def)
qed

lemma db_ok_docs:
  assumes "db_ok db" and ids: "map md_id ds = map md_id (wd_docs db)" and "map key_of ds = map key_of (wd_docs db)"
  shows "db_ok (db\<lparr>wd_docs := ds\<rparr>)"
proof -
  have set: "md_id ` set ds = md_id ` set (wd_docs db)" using arg_cong [OF ids, of set] by simp
  then have "\<forall>d \<in> set ds. md_id d < wd_next db" using assms(1) unfolding db_ok_def by (metis image_iff)
  then show ?thesis using assms set by (simp add: db_ok_def)
qed

lemma update_ok:
  assumes "db_ok db" and "doc_at db k = Some d"
  obtains db1 where "update_document now (md_id d) content db = (Inr (), db1)" "db_ok db1"
    "doc_at db1 k = Some (d\<lparr>md_content := content, md_updated := now\<rparr>)"
    "doc_view db1 = (doc_view db)(k \<mapsto> (content, index_texts db (md_id d)))" "wd_chunks db1 = wd_chunks db"
proof -
  let ?u = "\<lambda>e. if md_id e = md_id d then e\<lparr>md_content := content, md_updated := now\<rparr> else e"
  let ?db = "db\<lparr>wd_docs := map ?u (wd_docs db)\<rparr>"
  have keep: "key_of (?u e) = key_of e" "md_id (?u e) = md_id e" for e by (simp_all add: key_of_def)
  have d: "d \<in> set (wd_docs db)" "key_of d = k" using doc_at_Some [OF assms(2)] by auto
  have maps: "map key_of (map ?u (wd_docs db)) = map key_of (wd_docs db)" "map md_id (map ?u (wd_docs db)) = map md_id (wd_docs db)"
    using keep by (simp_all add: key_of_def)
  have ok: "db_ok ?db" by (rule db_ok_docs [OF assms(1) maps(2,1)])
  have find: "doc_at ?db j = map_option ?u (doc_at db j)" for j
    unfolding doc_at_def by (simp, rule find_upd) (simp add: keep)
  have "doc_view ?db j = ((doc_view db)(k \<mapsto> (content, index_texts db (md_id d)))) j" for j
  proof (cases "j = k")
    case True
    then show ?thesis using assms(2) by (simp add: doc_view_def find index_texts_def)
  next
    case False
    have "md_id e \<noteq> md_id d" if "doc_at db j = Some e" for e
      using same_id [OF assms(1), of e d] doc_at_Some [OF that] d False by auto
    then show ?thesis using False by (cases "doc_at db j") (auto simp: doc_view_def find index_texts_def)
  qed
  then have view: "doc_view ?db = (doc_view db)(k \<mapsto> (content, index_texts db (md_id d)))" by blast
  have run: "update_document now (md_id d) content db = (Inr (), ?db)" using assms(1) by (simp add: update_document_def db_ok_def)
  have here: "doc_at ?db k = Some (d\<lparr>md_content := content, md_updated := now\<rparr>)" using find [of k] assms(2) by simp
  show ?thesis by (rule that [OF run ok here view]) simp
qed

lemma delete_chunks_ok:
  assumes "db_ok db" and "doc_at db k = Some d"
  obtains db1 where "delete_chunks (md_id d) db = (Inr (), db1)" "db_ok db1" "doc_at db1 k = Some d"
    "doc_view db1 = (doc_view db)(k \<mapsto> (md_content d, []))" "wd_docs db1 = wd_docs db" "wd_next db1 = wd_next db"
proof -
  let ?db = "db\<lparr>wd_chunks := filter (\<lambda>c. mc_document c \<noteq> md_id d) (wd_chunks db)\<rparr>"
  have at: "doc_at ?db j = doc_at db j" for j by (simp add: doc_at_def)
  have "doc_view ?db j = ((doc_view db)(k \<mapsto> (md_content d, []))) j" for j
  proof (cases "j = k")
    case True
    then show ?thesis using assms(2) by (simp add: doc_view_def at index_texts_def)
  next
    case False
    have "md_id e \<noteq> md_id d" if "doc_at db j = Some e" for e
      using same_id [OF assms(1), of e d] doc_at_Some [OF that] doc_at_Some [OF assms(2)] False by auto
    then have "filter (\<lambda>c. mc_document c = md_id e) (filter (\<lambda>c. mc_document c \<noteq> md_id d) (wd_chunks db)) = filter (\<lambda>c. mc_document c = md_id e) (wd_chunks db)"
      if "doc_at db j = Some e" for e using that by (auto simp: intro!: filter_cong)
    then show ?thesis using False by (cases "doc_at db j") (auto simp: doc_view_def at index_texts_def)
  qed
  then have view: "doc_view ?db = (doc_view db)(k \<mapsto> (md_content d, []))" by blast
  have run: "delete_chunks (md_id d) db = (Inr (), ?db)" using assms(1) by (simp add: delete_chunks_def db_ok_def)
  have ok: "db_ok ?db" using assms(1) by (simp add: db_ok_def)
  have here: "doc_at ?db k = Some d" using at assms(2) by simp
  show ?thesis by (rule that [OF run ok here view]) simp_all
qed

lemma insert_chunks_ok:
  "db_ok db \<Longrightarrow> doc_at db k = Some d \<Longrightarrow>
     \<exists>db1. insert_chunks ws (md_id d) n cs db = (Inr (), db1) \<and> db_ok db1 \<and> doc_at db1 k = Some d
       \<and> doc_view db1 = (doc_view db)(k \<mapsto> (md_content d, index_texts db (md_id d) @ cs))"
proof (induction cs arbitrary: n db)
  case Nil
  then show ?case by (auto simp: doc_view_def fun_upd_idem)
next
  case (Cons c cs)
  define emb where "emb = (case ws_embed ws of None \<Rightarrow> None | Some f \<Rightarrow> (case f c of Inr e \<Rightarrow> Some e | Inl _ \<Rightarrow> None))"
  let ?c = "\<lparr>mc_id = wd_next db, mc_document = md_id d, mc_index = n, mc_content = c, mc_embedding = emb\<rparr>"
  let ?db = "db\<lparr>wd_chunks := wd_chunks db @ [?c], wd_next := Suc (wd_next db)\<rparr>"
  have run: "insert_chunk (md_id d) n c emb db = (Inr (wd_next db), ?db)" using Cons.prems by (simp add: insert_chunk_def db_ok_def)
  have ok: "db_ok ?db" using Cons.prems doc_at_Some [OF Cons.prems(2)] by (auto simp: db_ok_def less_Suc_eq)
  have at: "doc_at ?db j = doc_at db j" for j by (simp add: doc_at_def)
  have at_k: "doc_at ?db k = Some d" using at Cons.prems(2) by simp
  have "doc_view ?db j = ((doc_view db)(k \<mapsto> (md_content d, index_texts db (md_id d) @ [c]))) j" for j
  proof (cases "j = k")
    case True
    then show ?thesis using Cons.prems(2) by (simp add: doc_view_def at index_texts_def)
  next
    case False
    have "md_id d \<noteq> md_id e" if "doc_at db j = Some e" for e
      using same_id [OF Cons.prems(1), of e d] doc_at_Some [OF that] doc_at_Some [OF Cons.prems(2)] False by auto
    then show ?thesis using False by (cases "doc_at db j") (auto simp: doc_view_def at index_texts_def)
  qed
  then have view: "doc_view ?db = (doc_view db)(k \<mapsto> (md_content d, index_texts db (md_id d) @ [c]))" by blast
  have texts: "index_texts ?db (md_id d) = index_texts db (md_id d) @ [c]" by (simp add: index_texts_def)
  obtain db1 where "insert_chunks ws (md_id d) (n + 1) cs ?db = (Inr (), db1)" "db_ok db1" "doc_at db1 k = Some d"
    "doc_view db1 = (doc_view ?db)(k \<mapsto> (md_content d, index_texts ?db (md_id d) @ cs))"
    using Cons.IH [OF ok at_k, of "n + 1"] by blast
  then show ?case using run view texts by (auto simp: then_do_def emb_def)
qed
lemma reindex_ok:
  assumes "db_ok db" and "doc_at db k = Some d"
  obtains db1 where "reindex_document ws (md_id d) db = (Inr (), db1)" "db_ok db1" "doc_at db1 k = Some d"
    "doc_view db1 = (doc_view db)(k \<mapsto> (md_content d, chunks_of (md_content d)))"
proof -
  have mem: "d \<in> set (wd_docs db)" using doc_at_Some [OF assms(2)] by simp
  have "find (\<lambda>e. md_id e = md_id d) (wd_docs db) = Some d"
  proof (cases "find (\<lambda>e. md_id e = md_id d) (wd_docs db)")
    case None
    then show ?thesis using mem by (auto simp: find_None_iff)
  next
    case (Some e)
    then have "e \<in> set (wd_docs db)" "md_id e = md_id d" by (auto simp: find_Some_iff)
    then show ?thesis using Some same_id [OF assms(1) _ mem] by simp
  qed
  then have get: "get_document_by_id (md_id d) db = (Inr d, db)" using assms(1) by (simp add: get_document_by_id_def db_ok_def)
  obtain db1 where del: "delete_chunks (md_id d) db = (Inr (), db1)" "db_ok db1" "doc_at db1 k = Some d"
      "doc_view db1 = (doc_view db)(k \<mapsto> (md_content d, []))"
    by (rule delete_chunks_ok [OF assms])
  have "index_texts db1 (md_id d) = []" using fun_cong [OF del(4), of k] del(3) by (simp add: doc_view_def)
  then obtain db2 where "insert_chunks ws (md_id d) 0 (chunks_of (md_content d)) db1 = (Inr (), db2)" "db_ok db2" "doc_at db2 k = Some d"
      "doc_view db2 = (doc_view db)(k \<mapsto> (md_content d, chunks_of (md_content d)))"
    using insert_chunks_ok [OF del(2,3), of ws 0 "chunks_of (md_content d)"] del(4) by auto
  then show ?thesis using that [of db2] get del(1) by (simp add: reindex_document_def then_do_def)
qed

lemma store_and_index_ok:
  assumes "db_ok db"
  obtains db1 where "store_and_index now ws p content skip db = (Inr (), db1)" "db_ok db1"
    "doc_view db1 = (doc_view db)((ws_user ws, ws_agent ws, p) \<mapsto> (content, if skip then [] else chunks_of content))"
proof -
  let ?k = "(ws_user ws, ws_agent ws, p)"
  obtain d db1 where c: "get_or_create_document_by_path now (ws_user ws) (ws_agent ws) p db = (Inr d, db1)" "db_ok db1" "doc_at db1 ?k = Some d"
      "\<And>j. j \<noteq> ?k \<Longrightarrow> doc_view db1 j = doc_view db j"
    by (rule get_or_create_ok [OF assms, of now "ws_user ws" "ws_agent ws" p]) blast
  obtain db2 where u: "update_document now (md_id d) content db1 = (Inr (), db2)" "db_ok db2"
      "doc_at db2 ?k = Some (d\<lparr>md_content := content, md_updated := now\<rparr>)"
      "doc_view db2 = (doc_view db1)(?k \<mapsto> (content, index_texts db1 (md_id d)))"
    by (rule update_ok [OF c(2,3)])
  have base: "(doc_view db2)(?k \<mapsto> x) = (doc_view db)(?k \<mapsto> x)" for x using c(4) u(4) by (auto simp: fun_eq_iff)
  show ?thesis
  proof (cases skip)
    case True
    obtain db3 where "delete_chunks (md_id d) db2 = (Inr (), db3)" "db_ok db3" "doc_view db3 = (doc_view db2)(?k \<mapsto> (content, []))"
      using delete_chunks_ok [OF u(2,3)] by (metis (no_types, lifting) memory_document.select_convs(1,5) memory_document.surjective memory_document.update_convs(5,6))
    then show ?thesis using that [of db3] True c(1) u(1) base by (simp add: store_and_index_def then_do_def)
  next
    case False
    obtain db3 where "reindex_document ws (md_id d) db2 = (Inr (), db3)" "db_ok db3" "doc_view db3 = (doc_view db2)(?k \<mapsto> (content, chunks_of content))"
      using reindex_ok [OF u(2,3), of ws] by auto
    then show ?thesis using that [of db3] False c(1) u(1) base by (simp add: store_and_index_def then_do_def)
  qed
qed

lemma append_text_ok:
  assumes "db_ok db"
  obtains db1 where "append_text now ws sep p content db = (Inr (), db1)" "db_ok db1"
    "doc_view db1 = (let k = (ws_user ws, ws_agent ws, p); old = (case doc_view db k of Some (c, _) \<Rightarrow> c | None \<Rightarrow> []);
                         c' = (if old = [] then content else old @ sep @ content) in (doc_view db)(k \<mapsto> (c', chunks_of c')))"
proof -
  let ?k = "(ws_user ws, ws_agent ws, p)"
  obtain d db1 where c: "get_or_create_document_by_path now (ws_user ws) (ws_agent ws) p db = (Inr d, db1)" "db_ok db1" "doc_at db1 ?k = Some d"
      "md_content d = (case doc_view db ?k of Some (c, _) \<Rightarrow> c | None \<Rightarrow> [])" "\<And>j. j \<noteq> ?k \<Longrightarrow> doc_view db1 j = doc_view db j"
    by (rule get_or_create_ok [OF assms, of now "ws_user ws" "ws_agent ws" p]) blast
  let ?c = "if md_content d = [] then content else md_content d @ sep @ content"
  obtain db2 where u: "update_document now (md_id d) ?c db1 = (Inr (), db2)" "db_ok db2"
      "doc_at db2 ?k = Some (d\<lparr>md_content := ?c, md_updated := now\<rparr>)"
      "doc_view db2 = (doc_view db1)(?k \<mapsto> (?c, index_texts db1 (md_id d)))"
    by (rule update_ok [OF c(2,3)])
  obtain db3 where r: "reindex_document ws (md_id d) db2 = (Inr (), db3)" "db_ok db3" "doc_view db3 = (doc_view db2)(?k \<mapsto> (?c, chunks_of ?c))"
    using reindex_ok [OF u(2,3), of ws] by auto
  have "doc_view db3 = (doc_view db)(?k \<mapsto> (?c, chunks_of ?c))" using c(5) u(4) r(3) by (auto simp: fun_eq_iff)
  then show ?thesis using that [of db3] c(1,4) u(1) r(1,2) by (simp add: append_text_def then_do_def Let_def)
qed

lemma delete_ok:
  assumes "db_ok db"
  shows "db_ok (snd (ws_delete ws p db)) \<and> doc_view (snd (ws_delete ws p db)) = (doc_view db)(ws_key ws p := None)"
proof (cases "doc_at db (ws_key ws p)")
  case None
  then have "doc_view db (ws_key ws p) = None" by (simp add: doc_view_def)
  then show ?thesis using None assms
    by (simp add: ws_delete_def delete_document_by_path_def get_path ws_key_def then_do_def fun_upd_idem)
next
  case (Some d)
  let ?k = "ws_key ws p"
  obtain db1 where del: "delete_chunks (md_id d) db = (Inr (), db1)" "db_ok db1" "doc_at db1 ?k = Some d"
      "doc_view db1 = (doc_view db)(?k \<mapsto> (md_content d, []))" "wd_docs db1 = wd_docs db"
    by (rule delete_chunks_ok [OF assms Some]) blast
  let ?db = "db1\<lparr>wd_docs := filter (\<lambda>d. key_of d \<noteq> ?k) (wd_docs db1)\<rparr>"
  have "at_path (ws_user ws) (ws_agent ws) (normalize_doc_path p) = (\<lambda>d. key_of d = ?k)" by (auto simp: at_path_def key_of_def ws_key_def fun_eq_iff)
  then have run: "ws_delete ws p db = (Inr (), ?db)"
    using Some del(1) assms by (simp add: ws_delete_def delete_document_by_path_def get_path ws_key_def then_do_def)
  have none: "mc_document c \<noteq> md_id d" if "c \<in> set (wd_chunks db1)" for c
  proof -
    have "index_texts db1 (md_id d) = []" using fun_cong [OF del(4), of ?k] del(3) by (simp add: doc_view_def)
    then show ?thesis using that by (auto simp: index_texts_def filter_empty_conv)
  qed
  have "mc_document c \<in> md_id ` set (wd_docs ?db)" if c: "c \<in> set (wd_chunks db1)" for c
  proof -
    obtain e where e: "e \<in> set (wd_docs db1)" "mc_document c = md_id e" using del(2) c by (auto simp: db_ok_def)
    have "key_of e \<noteq> ?k"
    proof
      assume "key_of e = ?k"
      then have "e = d" using doc_at_in [OF del(2) e(1)] del(3) by simp
      then show False using none [OF c] e(2) by simp
    qed
    then show ?thesis using e by auto
  qed
  moreover have "distinct (map md_id (wd_docs ?db)) \<and> distinct (map key_of (wd_docs ?db))" using del(2) by (simp add: db_ok_def distinct_map_filter)
  ultimately have ok: "db_ok ?db" using del(2) by (auto simp: db_ok_def)
  have "doc_view ?db j = ((doc_view db)(?k := None)) j" for j
  proof (cases "j = ?k")
    case True
    then show ?thesis by (auto simp: doc_view_def doc_at_def find_None_iff)
  next
    case False
    then have "doc_at ?db j = doc_at db1 j" unfolding doc_at_def by (simp, intro find_filter_other) auto
    then have "doc_view ?db j = doc_view db1 j" by (simp add: doc_view_def index_texts_def)
    then show ?thesis using False del(4) by simp
  qed
  then show ?thesis using run ok by (simp add: fun_eq_iff)
qed

section \<open>Refinement\<close>

datatype ws_op = WsWrite outside string string | WsWriteStored outside string string | WsAppend outside string string | WsDelete string

definition ws_apply :: "workspace \<Rightarrow> ws_op \<Rightarrow> workspace_db \<Rightarrow> workspace_db" where
  "ws_apply ws p db =
     (case p of WsWrite ou path content \<Rightarrow> snd (ws_write ou ws path content db)
      | WsWriteStored ou path content \<Rightarrow> snd (ws_write_stored ou ws path content db)
      | WsAppend ou path content \<Rightarrow> snd (ws_append ou ws path content db)
      | WsDelete path \<Rightarrow> snd (ws_delete ws path db))"

definition sealed_text :: "outside \<Rightarrow> legal_content_policy \<Rightarrow> string \<Rightarrow> string \<Rightarrow> string + string" where
  "sealed_text ou lp m content = encrypt_matter_content (ou_codec ou) (ou_prims ou) (lp_crypto lp) (ou_draw ou) (ou_at ou) m content"

definition ws_spec :: "workspace \<Rightarrow> ws_op \<Rightarrow> doc_map \<Rightarrow> doc_map" where
  "ws_spec ws p m =
     (case p of
        WsWrite ou path content \<Rightarrow>
          (case policy_matter ws (normalize_doc_path path) of
             None \<Rightarrow> m(ws_key ws path \<mapsto> (content, chunks_of content))
           | Some (lp, matter) \<Rightarrow>
               (case sealed_text ou lp matter content of
                  Inl _ \<Rightarrow> m
                | Inr s \<Rightarrow> m(ws_key ws path \<mapsto> (s, if lp_exclude lp then [] else chunks_of s))))
      | WsWriteStored ou path content \<Rightarrow>
          m(ws_key ws path \<mapsto> (content,
              if (case policy_matter ws (normalize_doc_path path) of None \<Rightarrow> False | Some (lp, _) \<Rightarrow> lp_exclude lp) \<and> is_encrypted_payload (ou_codec ou) content
              then [] else chunks_of content))
      | WsAppend ou path content \<Rightarrow>
          let old = (case m (ws_key ws path) of Some (c, _) \<Rightarrow> c | None \<Rightarrow> []);
              new = (if old = [] then content else old @ newline @ content)
          in m(ws_key ws path \<mapsto> (new, chunks_of new))
      | WsDelete path \<Rightarrow> m(ws_key ws path := None))"

lemma read_state: "snd (ws_read ou ws p db) = db"
  by (auto simp: ws_read_def Let_def then_do_def get_document_by_path_def split: option.splits sum.splits)

lemma read_stored_state: "snd (ws_read_stored ws p db) = db"
  by (auto simp: ws_read_stored_def get_document_by_path_def split: option.splits)

lemma ws_apply_refines:
  assumes "db_ok db"
  shows "db_ok (ws_apply ws p db) \<and> doc_view (ws_apply ws p db) = ws_spec ws p (doc_view db)"
proof (cases p)
  case (WsWrite ou path content)
  show ?thesis
  proof (cases "policy_matter ws (normalize_doc_path path)")
    case None
    obtain db1 where "store_and_index (dr_now (ou_draw ou)) ws (normalize_doc_path path) content False db = (Inr (), db1)" "db_ok db1"
        "doc_view db1 = (doc_view db)(ws_key ws path \<mapsto> (content, chunks_of content))"
      by (rule store_and_index_ok [OF assms, of "dr_now (ou_draw ou)" ws "normalize_doc_path path" content False]) (simp add: ws_key_def)
    then show ?thesis using WsWrite None by (simp add: ws_apply_def ws_spec_def ws_write_def Let_def then_do_def read_state)
  next
    case (Some x)
    obtain lp m where x: "x = (lp, m)" by (cases x)
    show ?thesis
    proof (cases "sealed_text ou lp m content")
      case (Inl e)
      then show ?thesis using WsWrite Some x assms by (simp add: ws_apply_def ws_spec_def ws_write_def Let_def sealed_text_def)
    next
      case (Inr s)
      obtain db1 where "store_and_index (dr_now (ou_draw ou)) ws (normalize_doc_path path) s (lp_exclude lp) db = (Inr (), db1)" "db_ok db1"
          "doc_view db1 = (doc_view db)(ws_key ws path \<mapsto> (s, if lp_exclude lp then [] else chunks_of s))"
        by (rule store_and_index_ok [OF assms, of "dr_now (ou_draw ou)" ws "normalize_doc_path path" s "lp_exclude lp"]) (simp add: ws_key_def)
      then show ?thesis using WsWrite Some x Inr
        by (simp add: ws_apply_def ws_spec_def ws_write_def Let_def then_do_def read_state sealed_text_def)
    qed
  qed
next
  case (WsWriteStored ou path content)
  let ?skip = "(case policy_matter ws (normalize_doc_path path) of None \<Rightarrow> False | Some (lp, _) \<Rightarrow> lp_exclude lp) \<and> is_encrypted_payload (ou_codec ou) content"
  obtain db1 where "store_and_index (dr_now (ou_draw ou)) ws (normalize_doc_path path) content ?skip db = (Inr (), db1)" "db_ok db1"
      "doc_view db1 = (doc_view db)(ws_key ws path \<mapsto> (content, if ?skip then [] else chunks_of content))"
    by (rule store_and_index_ok [OF assms, of "dr_now (ou_draw ou)" ws "normalize_doc_path path" content ?skip]) (simp add: ws_key_def)
  then show ?thesis using WsWriteStored by (simp add: ws_apply_def ws_spec_def ws_write_stored_def Let_def then_do_def read_stored_state)
next
  case (WsAppend ou path content)
  obtain db1 where "append_text (dr_now (ou_draw ou)) ws newline (normalize_doc_path path) content db = (Inr (), db1)" "db_ok db1"
      "doc_view db1 = ws_spec ws p (doc_view db)"
    by (rule append_text_ok [OF assms, of "dr_now (ou_draw ou)" ws newline "normalize_doc_path path" content])
       (simp add: WsAppend ws_spec_def ws_key_def Let_def)
  then show ?thesis using WsAppend by (simp add: ws_apply_def ws_append_def)
next
  case (WsDelete path)
  then show ?thesis using delete_ok [OF assms] by (simp add: ws_apply_def ws_spec_def)
qed

interpretation documents: refines db_ok doc_view "ws_apply ws" "ws_spec ws"
  by unfold_locales (simp_all add: ws_apply_refines)

section \<open>What was written is read back\<close>



lemma read_view:
  assumes "db_ok db" and "doc_view db (ws_key ws p) = Some (c, idx)"
  shows "\<exists>d. md_content d = c \<and> ws_read ou ws p db = (case policy_matter ws (normalize_doc_path p) of None \<Rightarrow> (Inr d, db)
     | Some (lp, m) \<Rightarrow> (case decrypt_matter_content (ou_show ou) (ou_codec ou) (ou_prims ou) (lp_crypto lp) m c of
          Inl e \<Rightarrow> (Inl (SearchFailed e), db) | Inr None \<Rightarrow> (Inr d, db) | Inr (Some plain) \<Rightarrow> (Inr (d\<lparr>md_content := plain\<rparr>), db)))"
proof -
  obtain d where d: "doc_at db (ws_key ws p) = Some d" "md_content d = c" using assms(2) by (auto simp: doc_view_def)
  then have "get_document_by_path (ws_user ws) (ws_agent ws) (normalize_doc_path p) db = (Inr d, db)"
    using assms(1) by (simp add: get_path ws_key_def)
  then show ?thesis using d(2) by (intro exI [of _ d]) (auto simp: ws_read_def Let_def then_do_def split: option.splits)
qed


subsection \<open>A codec that satisfies the laws\<close>

text \<open>Every field is preceded by its length in unary.\<close>

definition put_field :: "string \<Rightarrow> string" where
  "put_field f = replicate (length f) (CHR ''n'') @ ''.'' @ f"

definition get_field :: "string \<Rightarrow> (string \<times> string) option" where
  "get_field s =
     (let n = length (takeWhile (\<lambda>c. c = CHR ''n'') s); r = drop (n + 1) s
      in if n < length s \<and> s ! n = CHR ''.'' \<and> n \<le> length r then Some (take n r, drop n r) else None)"

fun get_fields :: "nat \<Rightarrow> string \<Rightarrow> string list option" where
  "get_fields 0 s = (if s = [] then Some [] else None)"
| "get_fields (Suc k) s = (case get_field s of None \<Rightarrow> None | Some (f, r) \<Rightarrow> map_option (\<lambda>fs. f # fs) (get_fields k r))"

definition env_fields :: "envelope \<Rightarrow> string list" where
  "env_fields e = [en_format e, replicate (en_version e) (CHR ''v''), en_algorithm e, en_salt e, en_ciphertext e, en_cipher_sha e, en_plain_sha e,
     en_matter e, en_at e]"

definition env_of_fields :: "string list \<Rightarrow> envelope" where
  "env_of_fields fs = \<lparr>en_format = fs ! 0, en_version = length (fs ! 1), en_algorithm = fs ! 2, en_salt = fs ! 3, en_ciphertext = fs ! 4,
     en_cipher_sha = fs ! 5, en_plain_sha = fs ! 6, en_matter = fs ! 7, en_at = fs ! 8\<rparr>"

definition field_codec :: codec where
  "field_codec = \<lparr>env_to_json = (\<lambda>e. Inr (concat (map put_field (env_fields e)))),
     env_of_json = (\<lambda>s. map_option env_of_fields (get_fields 9 s)), b64_enc = (\<lambda>x. x), b64_dec = Inr, sha256_hex = (\<lambda>x. x)\<rparr>"

lemma get_put_field: "get_field (put_field f @ r) = Some (f, r)"
proof -
  have "takeWhile (\<lambda>c. c = CHR ''n'') (replicate n (CHR ''n'') @ CHR ''.'' # t) = replicate n (CHR ''n'')" for n t
    by (induction n) auto
  then show ?thesis by (simp add: get_field_def put_field_def Let_def nth_append)
qed

lemma get_put_fields: "get_fields (length fs) (concat (map put_field fs) @ t) = (if t = [] then Some fs else None)"
  by (induction fs) (simp_all add: get_put_field)

lemma env_of_env_fields: "env_of_fields (env_fields e) = e"
  by (simp add: env_of_fields_def env_fields_def)

lemma field_codec_laws: "codec_laws field_codec"
proof -
  have nine: "length (env_fields e) = 9" for e by (simp add: env_fields_def)
  have "env_of_json field_codec (concat (map put_field (env_fields e)) @ t) = (if t = [] then Some e else None)" for e t
    using get_put_fields [of "env_fields e" t] by (simp add: field_codec_def nine env_of_env_fields)
  from this [of _ "[]"] this have "env_of_json field_codec (concat (map put_field (env_fields e))) = Some e"
    "t \<noteq> [] \<Longrightarrow> env_of_json field_codec (concat (map put_field (env_fields e)) @ t) = None" for e t by simp_all
  moreover have "concat (map put_field (env_fields e)) \<noteq> []" for e by (simp add: env_fields_def put_field_def)
  moreover have "env_to_json field_codec e = Inr s \<longleftrightarrow> s = concat (map put_field (env_fields e))" for e s by (auto simp: field_codec_def)
  moreover have "b64_dec field_codec (b64_enc field_codec x) = Inr x" for x by (simp add: field_codec_def)
  ultimately show ?thesis unfolding codec_laws_def by (metis empty_iff list.set(1))
qed

definition sample_out :: outside where
  "sample_out = \<lparr>ou_codec = field_codec, ou_prims = plain_prims, ou_show = (\<lambda>_. ''?''), ou_draw = draw0, ou_at = ''now''\<rparr>"

definition sample_policy :: legal_content_policy where
  "sample_policy = \<lparr>lp_root = ''matters'', lp_exclude = True, lp_crypto = key32\<rparr>"

definition sample_ws :: workspace where
  "sample_ws = \<lparr>ws_user = ''ann'', ws_agent = None, ws_embed = None, ws_policy = Some sample_policy\<rparr>"

definition empty_ws_db :: workspace_db where
  "empty_ws_db = \<lparr>wd_down = None, wd_next = 0, wd_docs = [], wd_chunks = []\<rparr>"

lemma sample_facts:
  "db_ok empty_ws_db" "codec_laws (ou_codec sample_out)" "aead_laws (ou_prims sample_out)" "length (dr_nonce (ou_draw sample_out)) = NONCE_SIZE"
  "valid_utf8 (ou_prims sample_out) ''secret''"
  by (simp_all add: db_ok_def empty_ws_db_def sample_out_def field_codec_laws plain_prims_laws draw0_def NONCE_SIZE_def)
    (simp add: plain_prims_def)

lemma sample_matter: "policy_matter sample_ws (normalize_doc_path ''matters/m1/facts.md'') = Some (sample_policy, ''m1'')"
proof -
  have "normalize_doc_path ''matters/m1/facts.md'' = ''matters/m1/facts.md''" "matter_id_for_path ''matters/m1/facts.md'' ''matters'' = Some ''m1''"
    by code_simp+
  then show ?thesis by (simp add: policy_matter_def sample_ws_def sample_policy_def)
qed

lemma sample_seals: "is_ok (sealed_text sample_out sample_policy m content)"
  by (simp add: is_ok_iff sealed_text_def encrypt_matter_content_def sample_out_def sample_policy_def field_codec_def encrypt_def derive_key_def
      plain_prims_def key32_def KEY_SIZE_def)


section \<open>Matter files stay sealed, except under append\<close>








text \<open>C39: Appending to a sealed matter file breaks the seal. After a matter file was written under the encryption policy, an append of any text that
  is not blank leaves the envelope followed by the plain text in the table: it is no longer an envelope, reading gives back the raw envelope
  instead of the content, and the whole is indexed for search even when the policy excludes matter files from it.\<close>

theorem append_breaks_seal:
  assumes ok: "db_ok db" and laws: "codec_laws (ou_codec ou)" and lp: "policy_matter ws (normalize_doc_path p) = Some (lp, m)"
    and s: "sealed_text ou lp m content = Inr s" and word: "c \<in> set added" "\<not> is_ws c"
    and db': "db' = fold (ws_apply ws) [WsWrite ou p content, WsAppend ou p added] db"
  shows "doc_view db' (ws_key ws p) = Some (s @ newline @ added, chunks_of (s @ newline @ added))
    \<and> \<not> is_encrypted_payload (ou_codec ou) (s @ newline @ added)
    \<and> (\<exists>d. ws_read ou ws p db' = (Inr d, db') \<and> md_content d = s @ newline @ added)"
proof -
  obtain env where env: "env_to_json (ou_codec ou) env = Inr s"
    using s by (fastforce simp: sealed_text_def encrypt_matter_content_def split: sum.splits)
  have "\<exists>c \<in> set (newline @ added). \<not> is_ws c" using word by auto
  then have json: "s \<noteq> []" "env_of_json (ou_codec ou) (s @ newline @ added) = None"
    using laws env unfolding codec_laws_def by blast+
  have ok': "db_ok db'" and "doc_view db' = fold (ws_spec ws) [WsWrite ou p content, WsAppend ou p added] (doc_view db)"
    unfolding db' by (rule documents.run_wf [OF ok], rule documents.run_abs [OF ok])
  then have view: "doc_view db' (ws_key ws p) = Some (s @ newline @ added, chunks_of (s @ newline @ added))"
    using lp s json(1) by (simp add: ws_spec_def Let_def)
  obtain d where "md_content d = s @ newline @ added" "ws_read ou ws p db' = (Inr d, db')"
    using read_view [OF ok' view, of ou] lp json(2) by (auto simp: decrypt_matter_content_def)
  then show ?thesis using view json(2) by (auto simp: is_encrypted_payload_def)
qed

theorem append_breaks_seal_witness:
  "\<exists>s. doc_view (fold (ws_apply sample_ws) [WsWrite sample_out ''matters/m1/facts.md'' ''secret'', WsAppend sample_out ''matters/m1/facts.md'' ''more''] empty_ws_db)
        (ws_key sample_ws ''matters/m1/facts.md'') = Some (s @ newline @ ''more'', chunks_of (s @ newline @ ''more''))"
proof -
  obtain s where s: "sealed_text sample_out sample_policy ''m1'' ''secret'' = Inr s" using sample_seals [of "''m1''" "''secret''"] by (auto simp: is_ok_iff)
  have "CHR ''m'' \<in> set ''more''" "\<not> is_ws (CHR ''m'')" by (simp, code_simp)
  from append_breaks_seal [OF sample_facts(1,2) sample_matter s this refl] show ?thesis by blast
qed

section \<open>Separation\<close>

lemma spec_key: "k \<noteq> (case p of WsWrite _ path _ \<Rightarrow> ws_key ws path | WsWriteStored _ path _ \<Rightarrow> ws_key ws path | WsAppend _ path _ \<Rightarrow> ws_key ws path
     | WsDelete path \<Rightarrow> ws_key ws path) \<Longrightarrow> ws_spec ws p m k = m k"
  by (cases p) (auto simp: ws_spec_def Let_def split: option.splits sum.splits)

lemma rank_rows_mem: "r \<in> set (rank_rows cs) \<Longrightarrow> 0 < rr_rank r \<and> (\<exists>c \<in> set cs. rr_chunk r = mc_id c \<and> rr_document r = mc_document c \<and> rr_content r = mc_content c)"
  by (force simp: rank_rows_def in_set_enumerate_eq)

definition info_from :: "ranked_result list \<Rightarrow> uuid \<times> chunk_info \<Rightarrow> bool" where
  "info_from rs x \<longleftrightarrow> (\<exists>r \<in> set rs. ci_document (snd x) = rr_document r \<and> ci_content (snd x) = rr_content r)"

lemma info_insert:
  assumes "\<forall>x \<in> set m. info_from rs x"
    and "ci_document i = rr_document f \<and> ci_content i = rr_content f \<or> (\<exists>j. hm_get m k = Some j \<and> ci_document i = ci_document j \<and> ci_content i = ci_content j)"
  shows "\<forall>x \<in> set (hm_insert k i m). info_from (f # rs) x"
proof
  fix x
  assume x: "x \<in> set (hm_insert k i m)"
  have "info_from rs (k, j)" if "hm_get m k = Some j" for j using assms(1) hm_get_in_set [OF that] by blast
  then have "info_from (f # rs) (k, i)" using assms(2) by (auto simp: info_from_def)
  then show "info_from (f # rs) x" using hm_insert_in_set [of "fst x" "snd x" k i m] x assms(1) by (cases x) (auto simp: info_from_def)
qed

lemma info_add:
  assumes "\<forall>x \<in> set m. info_from rs x"
  shows "\<forall>x \<in> set (add_fts cfg f m). info_from (f # rs) x" and "\<forall>x \<in> set (add_vector cfg f m). info_from (f # rs) x"
  unfolding add_fts_def add_vector_def by (rule info_insert [OF assms]; simp split: option.splits)+

lemma info_fold:
  assumes "\<And>f m rs. \<forall>x \<in> set m. info_from rs x \<Longrightarrow> \<forall>x \<in> set (g f m). info_from (f # rs) x"
  shows "\<forall>x \<in> set m. info_from rs x \<Longrightarrow> \<forall>x \<in> set (fold g fs m). info_from (rev fs @ rs) x"
proof (induction fs arbitrary: m rs)
  case (Cons f fs)
  then show ?case using Cons.IH [OF assms [OF Cons.prems, of f]] by simp
qed simp

lemma fusion_sources:
  assumes "s \<in> set (reciprocal_rank_fusion fts vec cfg)"
  shows "\<exists>r \<in> set (fts @ vec). sr_document s = rr_document r \<and> sr_content s = rr_content r"
proof -
  have "\<forall>x \<in> set (fold (add_fts cfg) fts []). info_from (rev fts @ []) x" by (rule info_fold [OF info_add(1)]) simp_all
  then have all: "\<forall>x \<in> set (fold (add_vector cfg) vec (fold (add_fts cfg) fts [])). info_from (rev vec @ rev fts @ []) x"
    by (rule info_fold [OF info_add(2), rotated]) simp
  have fused: "\<exists>r \<in> set (fts @ vec). sr_document t = rr_document r \<and> sr_content t = rr_content r" if "t \<in> set (fused fts vec cfg)" for t
    using that all by (force simp: fused_def to_result_def info_from_def)
  have "s \<in> set (normalize_scores (fused fts vec cfg))"
    using assms by (auto simp: reciprocal_rank_fusion_def fused_def Let_def dest!: in_set_takeD split: if_splits)
  then obtain t where "t \<in> set (fused fts vec cfg)" "sr_document s = sr_document t" "sr_content s = sr_content t"
    by (auto simp: normalize_scores_def split: if_splits)
  then show ?thesis using fused by metis
qed

lemma search_rows:
  assumes "search_with_config fts vec ws query cfg db = Inr results"
    and "\<And>q cs rs. fts q cs = Inr rs \<Longrightarrow> set rs \<subseteq> set cs" and "\<And>v n cs rs. vec v n cs = Inr rs \<Longrightarrow> set rs \<subseteq> set cs"
  obtains fs vs where "results = reciprocal_rank_fusion (rank_rows fs) (rank_rows vs) cfg"
      "set fs \<subseteq> set (wd_chunks db)" "set vs \<subseteq> set (wd_chunks db)" "\<forall>c \<in> set fs \<union> set vs. owned (ws_user ws) (ws_agent ws) db c"
proof -
  let ?own = "owned (ws_user ws) (ws_agent ws) db"
  obtain emb where "hybrid_search fts vec (ws_user ws) (ws_agent ws) query emb cfg db = Inr results"
    using assms(1) by (auto simp: search_with_config_def split: option.splits sum.splits)
  then obtain found where found: "(if sc_use_fts cfg then fts query (wd_chunks db) else Inr []) = Inr found"
    and r: "results = reciprocal_rank_fusion (rank_rows (take (sc_pre_limit cfg) (filter ?own found))) [] cfg
      \<or> (\<exists>near v. vec v (sc_pre_limit cfg) (wd_chunks db) = Inr near
            \<and> results = reciprocal_rank_fusion (rank_rows (take (sc_pre_limit cfg) (filter ?own found))) (rank_rows (filter ?own near)) cfg)"
    by (auto simp: hybrid_search_def Let_def split: option.splits sum.splits if_splits)
  have "set found \<subseteq> set (wd_chunks db)" using found assms(2) by (auto split: if_splits)
  then have fs: "set (take (sc_pre_limit cfg) (filter ?own found)) \<subseteq> {c \<in> set (wd_chunks db). ?own c}"
    using set_take_subset [of "sc_pre_limit cfg" "filter ?own found"] by auto
  from r show ?thesis
  proof
    assume "results = reciprocal_rank_fusion (rank_rows (take (sc_pre_limit cfg) (filter ?own found))) [] cfg"
    then show ?thesis using that [of _ "[]"] fs by (auto simp: rank_rows_def)
  next
    assume "\<exists>near v. vec v (sc_pre_limit cfg) (wd_chunks db) = Inr near
            \<and> results = reciprocal_rank_fusion (rank_rows (take (sc_pre_limit cfg) (filter ?own found))) (rank_rows (filter ?own near)) cfg"
    then show ?thesis using that fs assms(3) by fastforce
  qed
qed

text \<open>Workspaces are separate. No sequence of operations of one workspace changes a document of another user or agent, and every result of a search
  is the text of an index entry that belongs to a document of the searching user and agent, when the engine returns rows of its table.\<close>

theorem workspaces_separate:
  assumes "db_ok db"
    and engine: "\<And>q cs rs. fts q cs = Inr rs \<Longrightarrow> set rs \<subseteq> set cs" "\<And>v n cs rs. vec v n cs = Inr rs \<Longrightarrow> set rs \<subseteq> set cs"
    and found: "search_with_config fts vec ws query cfg db = Inr results" "r \<in> set results"
  shows "(\<exists>c \<in> set (wd_chunks db). \<exists>d \<in> set (wd_docs db). md_id d = mc_document c \<and> md_user d = ws_user ws \<and> md_agent d = ws_agent ws
             \<and> sr_document r = md_id d \<and> sr_content r = mc_content c)
    \<and> (\<forall>ops u a p. (u, a) \<noteq> (ws_user ws, ws_agent ws) \<longrightarrow> doc_view (fold (ws_apply ws) ops db) (u, a, p) = doc_view db (u, a, p))"
proof -
  have keep: "fold (ws_spec ws) ops m (u, a, p) = m (u, a, p)" if "(u, a) \<noteq> (ws_user ws, ws_agent ws)" for ops u a p m
  proof (induction ops arbitrary: m)
    case (Cons x ops)
    have "ws_spec ws x m (u, a, p) = m (u, a, p)" by (rule spec_key) (use that in \<open>auto simp: ws_key_def split: ws_op.splits\<close>)
    then show ?case using Cons by simp
  qed simp
  obtain fs vs where fusion: "results = reciprocal_rank_fusion (rank_rows fs) (rank_rows vs) cfg"
      "set fs \<subseteq> set (wd_chunks db)" "set vs \<subseteq> set (wd_chunks db)" "\<forall>c \<in> set fs \<union> set vs. owned (ws_user ws) (ws_agent ws) db c"
    using found(1) by (rule search_rows) (use engine in blast)+
  then obtain c where c: "c \<in> set fs \<union> set vs" "sr_document r = mc_document c" "sr_content r = mc_content c"
    using fusion_sources [of r "rank_rows fs" "rank_rows vs" cfg] found(2) rank_rows_mem by (metis Un_iff set_append)
  then obtain d where d: "owner_of db c = Some d" "md_user d = ws_user ws" "md_agent d = ws_agent ws"
    using fusion(4) by (auto simp: owned_def split: option.splits)
  then have "d \<in> set (wd_docs db)" "md_id d = mc_document c" by (auto simp: owner_of_def find_Some_iff)
  moreover have "c \<in> set (wd_chunks db)" using c(1) fusion(2,3) by blast
  ultimately have "\<exists>c \<in> set (wd_chunks db). \<exists>d \<in> set (wd_docs db). md_id d = mc_document c \<and> md_user d = ws_user ws \<and> md_agent d = ws_agent ws
             \<and> sr_document r = md_id d \<and> sr_content r = mc_content c"
    using c(2,3) d(2,3) by metis
  moreover have "doc_view (fold (ws_apply ws) ops db) (u, a, p) = doc_view db (u, a, p)" if "(u, a) \<noteq> (ws_user ws, ws_agent ws)" for ops u a p
    using keep [OF that] documents.run_abs [OF assms(1)] by simp
  ultimately show ?thesis by blast
qed

definition note_db :: workspace_db where
  "note_db = \<lparr>wd_down = None, wd_next = 2,
     wd_docs = [\<lparr>md_id = 0, md_user = ''ann'', md_agent = None, md_path = ''notes.md'', md_content = ''x'', md_updated = 5\<rparr>],
     wd_chunks = [\<lparr>mc_id = 1, mc_document = 0, mc_index = 0, mc_content = ''x'', mc_embedding = None\<rparr>]\<rparr>"

theorem workspaces_separate_witness:
  "doc_view (fold (ws_apply sample_ws) [WsDelete ''notes.md''] note_db) (''bob'', None, ''a'') = doc_view note_db (''bob'', None, ''a'')"
proof -
  have ok: "db_ok note_db" by (simp add: db_ok_def note_db_def key_of_def)
  have "search_with_config (\<lambda>_ cs. Inr cs) (\<lambda>_ _ cs. Inr cs) sample_ws ''x'' default_search note_db
      = Inr [\<lparr>sr_document = 0, sr_chunk = 1, sr_content = ''x'', sr_score = 1, sr_fts = Some 1, sr_vector = None\<rparr>]"
    by (simp add: search_with_config_def sample_ws_def hybrid_search_def note_db_def default_search_def rank_rows_def owned_def owner_of_def
        reciprocal_rank_fusion_def add_fts_def hm_insert_def normalize_scores_def to_result_def rrf_def)
  from workspaces_separate [OF ok _ _ this] have "\<forall>ops u a p. (u, a) \<noteq> (ws_user sample_ws, ws_agent sample_ws) \<longrightarrow>
      doc_view (fold (ws_apply sample_ws) ops note_db) (u, a, p) = doc_view note_db (u, a, p)" by simp
  then have "doc_view (fold (ws_apply sample_ws) [WsDelete ''notes.md''] note_db) (''bob'', None, ''a'') = doc_view note_db (''bob'', None, ''a'')"
    by (rule allE [of _ "[WsDelete ''notes.md'']"]) (simp add: sample_ws_def)
  then show ?thesis .
qed

end
