(* ===== verification/Workspace_Care.thy ===== *)
theory Workspace_Care
  imports Workspace_Store
begin

text \<open>
  What the workspace does on its own: the system prompt, the seeding of missing files, and the clean-up of old daily logs.
\<close>

section \<open>Prompts for groups do not depend on the memory file\<close>

definition text_at :: "workspace_db \<Rightarrow> doc_key \<Rightarrow> string" where
  "text_at db k = (case doc_view db k of Some (c, _) \<Rightarrow> c | None \<Rightarrow> [])"

lemma part_of_read:
  assumes "db_ok db"
  shows "part_of h (ws_read ou ws p db) =
    (case doc_view db (ws_key ws p) of None \<Rightarrow> []
     | Some (c, _) \<Rightarrow> (case policy_matter ws (normalize_doc_path p) of
          None \<Rightarrow> if c = [] then [] else [h @ newline @ newline @ c]
        | Some (lp, m) \<Rightarrow> (case decrypt_matter_content (ou_show ou) (ou_codec ou) (ou_prims ou) (lp_crypto lp) m c of
              Inl e \<Rightarrow> [] | Inr None \<Rightarrow> if c = [] then [] else [h @ newline @ newline @ c]
            | Inr (Some t) \<Rightarrow> if t = [] then [] else [h @ newline @ newline @ t])))"
proof (cases "doc_view db (ws_key ws p)")
  case None
  then have "doc_at db (ws_key ws p) = None" by (simp add: doc_view_def)
  then show ?thesis using None assms by (simp add: part_of_def ws_read_def Let_def get_path ws_key_def then_do_def)
next
  case (Some x)
  obtain c idx where x: "x = (c, idx)" by (cases x)
  obtain d where "md_content d = c" "ws_read ou ws p db = (case policy_matter ws (normalize_doc_path p) of None \<Rightarrow> (Inr d, db)
     | Some (lp, m) \<Rightarrow> (case decrypt_matter_content (ou_show ou) (ou_codec ou) (ou_prims ou) (lp_crypto lp) m c of
          Inl e \<Rightarrow> (Inl (SearchFailed e), db) | Inr None \<Rightarrow> (Inr d, db) | Inr (Some plain) \<Rightarrow> (Inr (d\<lparr>md_content := plain\<rparr>), db)))"
    using read_view [OF assms Some [unfolded x], of ou] by blast
  then show ?thesis using Some x by (auto simp: part_of_def split: option.splits sum.splits)
qed

lemma read_or_create_part:
  assumes "db_ok db"
  shows "part_of h (read_or_create now ws p db) =
      (let t = text_at db (ws_user ws, ws_agent ws, p) in if t = [] then [] else [h @ newline @ newline @ t])"
    and "db_ok (snd (read_or_create now ws p db))" and "text_at (snd (read_or_create now ws p db)) k = text_at db k"
proof -
  let ?k = "(ws_user ws, ws_agent ws, p)"
  obtain d db1 where c: "read_or_create now ws p db = (Inr d, db1)" "db_ok db1" "doc_at db1 ?k = Some d"
      "md_content d = text_at db ?k" "\<And>j. j \<noteq> ?k \<Longrightarrow> doc_view db1 j = doc_view db j"
    unfolding read_or_create_def by (rule get_or_create_ok [OF assms, of now "ws_user ws" "ws_agent ws" p]) (auto simp: text_at_def)
  show "part_of h (read_or_create now ws p db) =
      (let t = text_at db ?k in if t = [] then [] else [h @ newline @ newline @ t])" using c by (simp add: part_of_def)
  show "db_ok (snd (read_or_create now ws p db))" using c by simp
  show "text_at (snd (read_or_create now ws p db)) k = text_at db k"
    using c by (cases "k = ?k") (auto simp: text_at_def doc_view_def)
qed

lemma identity_paths: "list_all (\<lambda>(p, h). normalize_doc_path p = p \<and> p \<noteq> ''MEMORY.md'') identity_files"
  by code_simp

lemma daily_not_memory: "daily_path day \<noteq> ''MEMORY.md''"
  by (simp add: daily_path_def)

text \<open>The long-term memory does not reach a group. Two states of the workspace that differ at most in the memory file of its user give the same
  system prompt in a group chat.\<close>

theorem group_prompt_without_memory:
  assumes ok: "db_ok db" "db_ok db'"
    and same: "\<And>k. k \<noteq> (ws_user ws, ws_agent ws, ''MEMORY.md'') \<Longrightarrow> map_option fst (doc_view db k) = map_option fst (doc_view db' k)"
  shows "fst (system_prompt_for_context ou ws today yesterday True db) = fst (system_prompt_for_context ou ws today yesterday True db')"
proof -
  have ident: "part_of h (ws_read ou ws p db) = part_of h (ws_read ou ws p db')" if "(p, h) \<in> set identity_files" for p h
  proof -
    have p: "normalize_doc_path p = p" "p \<noteq> ''MEMORY.md''" using identity_paths that by (auto simp: list_all_iff)
    then have "map_option fst (doc_view db (ws_key ws p)) = map_option fst (doc_view db' (ws_key ws p))"
      by (intro same) (simp add: ws_key_def)
    then show ?thesis unfolding part_of_read [OF ok(1)] part_of_read [OF ok(2)]
      by (cases "doc_view db (ws_key ws p)"; cases "doc_view db' (ws_key ws p)") auto
  qed
  have texts: "text_at db k = text_at db' k" if "k \<noteq> (ws_user ws, ws_agent ws, ''MEMORY.md'')" for k
    using same [OF that] by (auto simp: text_at_def split: option.splits)
  have files: "map (\<lambda>(p, h). part_of h (ws_read ou ws p db)) identity_files = map (\<lambda>(p, h). part_of h (ws_read ou ws p db')) identity_files"
    using ident by auto
  have "text_at db (ws_user ws, ws_agent ws, daily_path x) = text_at db' (ws_user ws, ws_agent ws, daily_path x)" for x
    by (rule texts) (simp add: daily_not_memory)
  then show ?thesis unfolding system_prompt_for_context_def Let_def files
    by (simp add: read_or_create_part [OF ok(1)] read_or_create_part [OF ok(2)]
        read_or_create_part(1) [OF read_or_create_part(2) [OF ok(1)]] read_or_create_part(1) [OF read_or_create_part(2) [OF ok(2)]])
qed

theorem group_prompt_without_memory_witness:
  "fst (system_prompt_for_context sample_out sample_ws ''2026-01-02'' ''2026-01-01'' True (snd (ws_write sample_out sample_ws ''MEMORY.md'' ''x'' empty_ws_db)))
   = fst (system_prompt_for_context sample_out sample_ws ''2026-01-02'' ''2026-01-01'' True empty_ws_db)"
proof (rule group_prompt_without_memory)
  have step: "db_ok (ws_apply sample_ws (WsWrite sample_out ''MEMORY.md'' ''x'') empty_ws_db)"
    "doc_view (ws_apply sample_ws (WsWrite sample_out ''MEMORY.md'' ''x'') empty_ws_db) = ws_spec sample_ws (WsWrite sample_out ''MEMORY.md'' ''x'') (doc_view empty_ws_db)"
    using ws_apply_refines [OF sample_facts(1)] by blast+
  show "db_ok (snd (ws_write sample_out sample_ws ''MEMORY.md'' ''x'' empty_ws_db))" using step(1) by (simp add: ws_apply_def)
  show "db_ok empty_ws_db" by (rule sample_facts(1))
  have "normalize_doc_path ''MEMORY.md'' = ''MEMORY.md''" by code_simp
  then have "ws_spec sample_ws (WsWrite sample_out ''MEMORY.md'' ''x'') m k = m k" if "k \<noteq> (ws_user sample_ws, ws_agent sample_ws, ''MEMORY.md'')" for k m
    using that by (intro spec_key) (simp add: ws_key_def)
  then show "map_option fst (doc_view (snd (ws_write sample_out sample_ws ''MEMORY.md'' ''x'' empty_ws_db)) k) = map_option fst (doc_view empty_ws_db k)"
    if "k \<noteq> (ws_user sample_ws, ws_agent sample_ws, ''MEMORY.md'')" for k
    using step(2) that by (simp add: ws_apply_def)
qed

section \<open>Seeding overwrites nothing\<close>

lemma read_not_found:
  assumes "db_ok db" and "ws_read ou ws p db = (Inl (DocumentNotFound a b), db1)"
  shows "doc_view db (ws_key ws p) = None"
proof (cases "doc_at db (ws_key ws p)")
  case (Some d)
  then show ?thesis using assms
    by (auto simp: ws_read_def Let_def get_path ws_key_def then_do_def split: option.splits sum.splits)
qed (simp add: doc_view_def)

lemma seed_loop_keeps:
  "db_ok db \<Longrightarrow> db_ok (snd (seed_loop body ou ws ps n db)) \<and> (doc_view db k \<noteq> None \<longrightarrow> doc_view (snd (seed_loop body ou ws ps n db)) k = doc_view db k)"
proof (induction ps arbitrary: n db)
  case (Cons p ps)
  obtain r db1 where r: "ws_read ou ws p db = (r, db1)" by (cases "ws_read ou ws p db")
  have same: "db1 = db" using read_state [of ou ws p db] r by simp
  show ?case
  proof (cases "\<exists>a b. r = Inl (DocumentNotFound a b)")
    case True
    then obtain a b where ab: "r = Inl (DocumentNotFound a b)" by blast
    have none: "doc_view db (ws_key ws p) = None" using read_not_found [OF Cons.prems] r ab by blast
    obtain w db2 where w: "ws_write ou ws p (body p) db = (w, db2)" by (cases "ws_write ou ws p (body p) db")
    have "ws_apply ws (WsWrite ou p (body p)) db = db2" using w by (simp add: ws_apply_def)
    then have step: "db_ok db2" "doc_view db2 = ws_spec ws (WsWrite ou p (body p)) (doc_view db)" using ws_apply_refines [OF Cons.prems] by metis+
    have "doc_view db2 k = doc_view db k" if "doc_view db k \<noteq> None"
      unfolding step(2) by (rule spec_key) (use that none in auto)
    then show ?thesis using Cons.IH [OF step(1)] r ab same w by (auto split: sum.splits)
  next
    case False
    then show ?thesis using Cons r same by (auto split: sum.splits workspace_error.splits)
  qed
qed simp

text \<open>Seeding the workspace on start never changes a document that exists, of any user.\<close>

theorem seeding_keeps_documents:
  assumes "db_ok db" and "doc_view db k \<noteq> None"
  shows "doc_view (snd (seed_if_empty body ou ws db)) k = doc_view db k"
  using seed_loop_keeps [OF assms(1)] assms(2) by (simp add: seed_if_empty_def)

theorem seeding_keeps_documents_witness:
  "doc_view (snd (seed_if_empty (\<lambda>p. p) sample_out sample_ws note_db)) (''ann'', None, ''notes.md'') = doc_view note_db (''ann'', None, ''notes.md'')"
proof (rule seeding_keeps_documents)
  show "db_ok note_db" by (simp add: db_ok_def note_db_def key_of_def)
  show "doc_view note_db (''ann'', None, ''notes.md'') \<noteq> None" by (simp add: doc_view_def doc_at_def note_db_def key_of_def)
qed

section \<open>The clean-up touches old daily logs only\<close>

definition entry_ok :: "string \<Rightarrow> memory_document list \<Rightarrow> string \<Rightarrow> workspace_entry \<Rightarrow> bool" where
  "entry_ok dir rows child e \<longleftrightarrow> we_path e = dir @ child \<and> child \<noteq> [] \<and> CHR ''/'' \<notin> set child
     \<and> (\<exists>u. we_updated e = Some u \<and> (\<not> we_directory e \<longrightarrow> (\<exists>d \<in> set rows. md_path d = dir @ child \<and> md_updated d \<le> u)))"

lemma entry_ok_mono: "entry_ok dir rows child e \<Longrightarrow> set rows \<subseteq> set rows' \<Longrightarrow> entry_ok dir rows' child e"
  unfolding entry_ok_def by blast

lemma takeWhile_noslash: "CHR ''/'' \<notin> set r \<Longrightarrow> takeWhile (\<lambda>c. c \<noteq> CHR ''/'') r = r"
  by (induction r) auto

lemma entry_step_ok:
  assumes "\<forall>(k, e) \<in> set m. entry_ok dir rows k e" and "hm_wf m"
  shows "(\<forall>(k, e) \<in> set (entry_step dir d m). entry_ok dir (d # rows) k e) \<and> hm_wf (entry_step dir d m)"
proof (cases "if dir = [] then Some (md_path d) else strip_prefix (md_path d) dir")
  case None
  then have "entry_step dir d m = m" by (simp add: entry_step_def)
  then show ?thesis using assms entry_ok_mono [of dir rows _ _ "d # rows"] by fastforce
next
  case (Some r)
  then have path: "md_path d = dir @ r" by (cases "dir = []") (auto simp: str_simps)
  let ?child = "takeWhile (\<lambda>c. c \<noteq> CHR ''/'') r" and ?isdir = "CHR ''/'' \<in> set r"
  show ?thesis
  proof (cases "?child = []")
    case True
    then have "entry_step dir d m = m" using Some by (simp add: entry_step_def Let_def)
    then show ?thesis using assms entry_ok_mono [of dir rows _ _ "d # rows"] by fastforce
  next
    case False
    define e where "e = (case hm_get m ?child of
        Some e \<Rightarrow> (if ?isdir then e\<lparr>we_directory := True, we_preview := None\<rparr> else e)
                    \<lparr>we_updated := (case we_updated e of Some u \<Rightarrow> Some (max u (md_updated d)) | None \<Rightarrow> None)\<rparr>
      | None \<Rightarrow> \<lparr>we_path = dir @ ?child, we_directory = ?isdir, we_updated = Some (md_updated d),
                 we_preview = (if ?isdir then None else Some (take 200 (md_content d)))\<rparr>)"
    have run: "entry_step dir d m = hm_insert ?child e m" using Some False by (simp add: entry_step_def Let_def e_def)
    have noslash: "CHR ''/'' \<notin> set ?child" by (auto dest: set_takeWhileD)
    have whole: "?child = r" if "\<not> ?isdir" using takeWhile_noslash that by blast
    have own: "md_path d = dir @ ?child" if "\<not> ?isdir" by (simp only: whole [OF that] path)
    have "entry_ok dir (d # rows) ?child e"
    proof (cases "hm_get m ?child")
      case None
      then have e: "we_path e = dir @ ?child" "we_updated e = Some (md_updated d)" "we_directory e = ?isdir" by (simp_all add: e_def)
      have "\<exists>d' \<in> set (d # rows). md_path d' = dir @ ?child \<and> md_updated d' \<le> md_updated d" if "\<not> ?isdir"
        using own [OF that] by (intro bexI [of _ d]) simp_all
      then show ?thesis using e False noslash unfolding entry_ok_def by blast
    next
      case old: (Some e0)
      then have "entry_ok dir rows ?child e0" using assms(1) hm_get_in_set [OF old] by auto
      then obtain u where u: "we_path e0 = dir @ ?child" "we_updated e0 = Some u" by (auto simp: entry_ok_def)
      have e: "we_path e = dir @ ?child" "we_updated e = Some (max u (md_updated d))" "\<not> we_directory e \<Longrightarrow> \<not> ?isdir"
      proof -
        have "e = (if ?isdir then e0\<lparr>we_directory := True, we_preview := None\<rparr> else e0)\<lparr>we_updated := Some (max u (md_updated d))\<rparr>"
          using old u(2) by (simp add: e_def)
        then show "we_path e = dir @ ?child" "we_updated e = Some (max u (md_updated d))" "\<not> we_directory e \<Longrightarrow> \<not> ?isdir"
          using u(1) by (cases ?isdir; simp)+
      qed
      have "\<exists>d' \<in> set (d # rows). md_path d' = dir @ ?child \<and> md_updated d' \<le> max u (md_updated d)" if "\<not> we_directory e"
        using own [OF e(3) [OF that]] by (intro bexI [of _ d]) simp_all
      then show ?thesis using e False noslash unfolding entry_ok_def by blast
    qed
    moreover have "entry_ok dir (d # rows) k x" if "(k, x) \<in> set m" for k x
      using assms(1) that entry_ok_mono [of dir rows k x "d # rows"] by auto
    ultimately show ?thesis unfolding run using assms(2) by (auto dest: hm_insert_in_set)
  qed
qed

lemma entries_ok:
  "\<forall>(k, e) \<in> set m. entry_ok dir rows k e \<Longrightarrow> hm_wf m \<Longrightarrow> \<forall>(k, e) \<in> set (fold (entry_step dir) ds m). entry_ok dir (rev ds @ rows) k e"
proof (induction ds arbitrary: m rows)
  case (Cons d ds)
  then show ?case using Cons.IH [of "entry_step dir d m" "d # rows"] entry_step_ok [OF Cons.prems] by simp
qed simp

definition stale :: "workspace \<Rightarrow> int \<Rightarrow> workspace_db \<Rightarrow> doc_key \<Rightarrow> bool" where
  "stale ws cutoff db k \<longleftrightarrow> (\<exists>d n. doc_at db k = Some d \<and> k = (ws_user ws, ws_agent ws, ''daily/'' @ n) \<and> CHR ''/'' \<notin> set n \<and> int (md_updated d) < cutoff)"

lemma cleanup_loop_view:
  "db_ok db \<Longrightarrow> db_ok (snd (cleanup_loop ws cutoff es n db)) \<and>
     (doc_view (snd (cleanup_loop ws cutoff es n db)) k = doc_view db k \<or>
      doc_view (snd (cleanup_loop ws cutoff es n db)) k = None \<and>
        (\<exists>e \<in> set es. \<not> we_directory e \<and> (\<exists>u. we_updated e = Some u \<and> int u < cutoff)
           \<and> k = ws_key ws (log_path e)))"
proof (induction es arbitrary: n db)
  case (Cons e es)
  show ?case
  proof (cases "\<not> we_directory e \<and> (\<exists>u. we_updated e = Some u \<and> int u < cutoff)")
    case False
    then have "cleanup_loop ws cutoff (e # es) n db = cleanup_loop ws cutoff es n db" by (auto split: option.splits)
    then show ?thesis using Cons by auto
  next
    case True
    let ?p = "log_path e"
    obtain r db1 where del: "ws_delete ws ?p db = (r, db1)" by (cases "ws_delete ws ?p db")
    then have step: "db_ok db1" "doc_view db1 = (doc_view db)(ws_key ws ?p := None)" using delete_ok [OF Cons.prems, of ws ?p] by simp_all
    obtain n' where run: "cleanup_loop ws cutoff (e # es) n db = cleanup_loop ws cutoff es n' db1"
      using True del by (cases r) auto
    show ?thesis unfolding run using Cons.IH [OF step(1), of n'] step(2) True by auto
  qed
qed simp

text \<open>The clean-up removes only old daily logs of its own user: when every stored path is in normal form, a document that is gone after it stood
  directly in \<open>daily/\<close> and was last changed before the retention period; every other document, of whatever user, is as it was. A clean-up
  that is disabled, or comes before the cadence has passed, changes nothing.\<close>

theorem hygiene_removes_old_logs_only:
  assumes ok: "db_ok db" and normal: "\<forall>d \<in> set (wd_docs db). normalize_doc_path (md_path d) = md_path d"
    and run: "run_if_due now ws cfg last_run db = (report, db', last_run')"
  shows "(doc_view db' k = doc_view db k \<or> doc_view db' k = None \<and> stale ws (int now - int (hc_retention_days cfg) * 86400000) db k)
    \<and> (hr_skipped report \<longrightarrow> db' = db)"
proof -
  let ?cut = "int now - int (hc_retention_days cfg) * 86400000" and ?dir = "''daily/''"
  let ?rows = "sort_key md_path (filter (\<lambda>d. md_user d = ws_user ws \<and> md_agent d = ws_agent ws \<and> starts_with (md_path d) ?dir) (wd_docs db))"
  let ?es = "sort_key we_path (map snd (fold (entry_step ?dir) ?rows []))"
  have dir: "normalize_directory ''daily/'' = ''daily''" by code_simp
  have ends: "\<not> ends_with ''daily'' ''/''" by code_simp
  have list: "ws_list ws ''daily/'' db = (Inr ?es, db)" using ok ends by (simp add: ws_list_def list_directory_def dir db_ok_def Let_def)
  have clean: "cleanup_daily_logs now ws (hc_retention_days cfg) db = (Inr (fst (cleanup_loop ws ?cut ?es 0 db)), snd (cleanup_loop ws ?cut ?es 0 db))"
    by (simp add: cleanup_daily_logs_def list then_do_def case_prod_beta)
  have old: "stale ws ?cut db k" if e: "e \<in> set ?es" "\<not> we_directory e" "we_updated e = Some u" "int u < ?cut"
      and k: "k = ws_key ws (log_path e)" for e u
  proof -
    obtain c where "(c, e) \<in> set (fold (entry_step ?dir) ?rows [])" using e(1) by auto
    then have eo: "entry_ok ?dir (rev ?rows @ []) c e" using entries_ok [of "[]" ?dir "[]" ?rows] by auto
    then have path: "we_path e = ?dir @ c" "CHR ''/'' \<notin> set c" unfolding entry_ok_def by blast+
    obtain d where d: "d \<in> set ?rows" "md_path d = ?dir @ c" "md_updated d \<le> u"
      using eo e(2,3) unfolding entry_ok_def by auto
    then have mem: "d \<in> set (wd_docs db)" "md_user d = ws_user ws" "md_agent d = ws_agent ws" by auto
    then have "k = key_of d" using k path(1) d(2) normal by (auto simp: ws_key_def key_of_def log_path_def starts_with_append)
    then show ?thesis using doc_at_in [OF ok mem(1)] mem d path(2) e(4) unfolding stale_def key_of_def by force
  qed
  have "doc_view (snd (cleanup_loop ws ?cut ?es 0 db)) k = doc_view db k \<or>
      doc_view (snd (cleanup_loop ws ?cut ?es 0 db)) k = None \<and> stale ws ?cut db k"
    using cleanup_loop_view [OF ok, of ws ?cut ?es 0 k] old by blast
  then show ?thesis using run clean by (auto simp: run_if_due_def split: if_splits)
qed

definition log_db :: workspace_db where
  "log_db = note_db\<lparr>wd_next := 3, wd_docs := wd_docs note_db @
     [\<lparr>md_id = 2, md_user = ''ann'', md_agent = None, md_path = ''daily/a.md'', md_content = ''x'', md_updated = 7\<rparr>]\<rparr>"

theorem hygiene_removes_old_logs_only_witness:
  "doc_view (fst (snd (run_if_due 86400010 sample_ws \<lparr>hc_enabled = True, hc_retention_days = 1, hc_cadence_hours = 12\<rparr> None log_db)))
     (''ann'', None, ''notes.md'') \<noteq> None"
proof -
  let ?cfg = "\<lparr>hc_enabled = True, hc_retention_days = 1, hc_cadence_hours = 12\<rparr>" and ?k = "(''ann'', None, ''notes.md'')"
  have ok: "db_ok log_db" by (simp add: db_ok_def log_db_def note_db_def key_of_def)
  have "normalize_doc_path ''notes.md'' = ''notes.md''" "normalize_doc_path ''daily/a.md'' = ''daily/a.md''" by code_simp+
  then have normal: "\<forall>d \<in> set (wd_docs log_db). normalize_doc_path (md_path d) = md_path d" by (simp add: log_db_def note_db_def)
  obtain report db' last_run' where run: "run_if_due 86400010 sample_ws ?cfg None log_db = (report, db', last_run')"
    using prod_cases3 by blast
  have "\<not> stale sample_ws c log_db ?k" for c by (simp add: stale_def)
  then have "doc_view db' ?k = doc_view log_db ?k" using hygiene_removes_old_logs_only [OF ok normal run, of ?k] by simp
  moreover have "doc_view log_db ?k \<noteq> None" by (simp add: doc_view_def doc_at_def log_db_def note_db_def key_of_def)
  ultimately show ?thesis by (simp only: run fst_conv snd_conv) simp
qed

end
