(* ===== verification/Memory_Tools.thy ===== *)
theory Memory_Tools
  imports Workspace_Care File_Tools
begin

text \<open>
  The memory tools (\<open>src/tools/builtin/memory.rs\<close>) over the workspace of \<open>Workspace\<close>: \<open>memory_write\<close> with the scope of the active matter,
  the protection of the identity files and the guard against traversal, \<open>memory_read\<close>, \<open>memory_search\<close> and the recursive listing of
  \<open>memory_tree\<close>. The lemmas reduce a write to one operation of the workspace; the properties are where it can land, and how the
  protection of the identity files is passed.
\<close>

section \<open>The tools\<close>

definition PROTECTED_IDENTITY_FILES :: "string list" where
  "PROTECTED_IDENTITY_FILES = [''IDENTITY.md'', ''SOUL.md'', ''AGENTS.md'', ''USER.md'']"

fun policy_part :: "component \<Rightarrow> string list" where
  "policy_part (Normal s) = [s]"
| "policy_part ParentDir = [''..'']"
| "policy_part CurDir = []"
| "policy_part RootDir = []"

definition normalize_policy_path :: "string \<Rightarrow> string" where
  "normalize_policy_path p = join_with ''/'' (concat (map policy_part (components (trim p))))"

definition is_protected_identity_path :: "string \<Rightarrow> bool" where
  "is_protected_identity_path p = list_ex (eq_ignore_case (normalize_policy_path p)) PROTECTED_IDENTITY_FILES"

text \<open>\<open>normalize_workspace_path\<close> and \<open>is_workspace_conflicts_path\<close> of \<open>src/legal/matter.rs\<close>.\<close>

definition normalize_workspace_path :: "string \<Rightarrow> string" where
  "normalize_workspace_path p =
     join_with ''/'' (filter (\<lambda>c. c \<noteq> [] \<and> c \<noteq> ''.'') (split_on (CHR ''/'') (map (\<lambda>c. if c = CHR 0x5C then CHR ''/'' else c) (trim p))))"

definition is_workspace_conflicts_path :: "string \<Rightarrow> bool" where
  "is_workspace_conflicts_path p \<longleftrightarrow> normalize_workspace_path p = ''conflicts.json''"

definition workspace_error_text :: "workspace_error \<Rightarrow> string" where
  "workspace_error_text e =
     (case e of DocumentNotFound t u \<Rightarrow> ''Document not found: '' @ t @ '' for user '' @ u
      | SearchFailed r \<Rightarrow> ''Search failed: '' @ r
      | EmbeddingFailed r \<Rightarrow> ''Embedding generation failed: '' @ r
      | ChunkingFailed r \<Rightarrow> ''Document chunking failed: '' @ r)"

definition opt_str :: "json_value \<Rightarrow> string \<Rightarrow> string option" where
  "opt_str params k = Option.bind (json_get params k) as_str"

definition as_u64 :: "json_value \<Rightarrow> nat option" where
  "as_u64 v = (case v of JInt i \<Rightarrow> if 0 \<le> i \<and> i < 2 ^ 64 then Some (nat i) else None | _ \<Rightarrow> None)"

definition opt_u64 :: "json_value \<Rightarrow> string \<Rightarrow> nat option" where
  "opt_u64 params k = Option.bind (json_get params k) as_u64"

text \<open>The prefix of the active matter when the legal profile requires one.\<close>

definition active_prefix :: "legal_scope option \<Rightarrow> tool_error + string option" where
  "active_prefix legal =
     (case legal of
        None \<Rightarrow> Inr None
      | Some l \<Rightarrow>
          if \<not> (ls_enabled l \<and> ls_require_matter l) then Inr None
          else (case ls_active_matter l of
                  None \<Rightarrow> Inl (NotAuthorized ''No active matter selected. Re-run with --matter <matter_id>.'')
                | Some m \<Rightarrow>
                    if trim m = [] then Inl (NotAuthorized ''Active matter is empty. Re-run with --matter <matter_id>.'')
                    else Inr (Some (matter_prefix l (trim m)))))"

definition under_prefix :: "string option \<Rightarrow> string \<Rightarrow> string" where
  "under_prefix pre p = (case pre of Some q \<Rightarrow> q @ ''/'' @ p | None \<Rightarrow> p)"

text \<open>The path of a custom target.\<close>

definition resolve_target :: "string option \<Rightarrow> string \<Rightarrow> tool_error + string" where
  "resolve_target pre target =
     (let normalized = normalize_policy_path target
      in case (case pre of
                 Some q \<Rightarrow>
                   if starts_with normalized (q @ ''/'') then Inr normalized
                   else if starts_with normalized ''matters/''
                   then Inl (NotAuthorized (''Path '' @ quoted target @ '' is outside the active matter scope '' @ quoted q))
                   else Inr (q @ ''/'' @ normalized)
               | None \<Rightarrow> Inr normalized) of
           Inl e \<Rightarrow> Inl e
         | Inr resolved \<Rightarrow>
             if ParentDir \<in> set (components resolved)
             then Inl (NotAuthorized (''Path '' @ quoted target @ '' contains directory traversal sequences''))
             else Inr resolved)"

definition store_memory :: "outside \<Rightarrow> workspace \<Rightarrow> bool \<Rightarrow> string \<Rightarrow> string \<Rightarrow> workspace_db \<Rightarrow> (tool_error + string) \<times> workspace_db" where
  "store_memory ou ws append_mode p content db =
     (case (if append_mode then map_prod (map_sum id (\<lambda>_. ())) id (ws_append ou ws p content db)
            else map_prod (map_sum id (\<lambda>_. ())) id (ws_write ou ws p content db)) of
        (Inl e, db1) \<Rightarrow> (Inl (ExecutionFailed (''Write failed: '' @ workspace_error_text e)), db1)
      | (Inr _, db1) \<Rightarrow> (Inr p, db1))"

text \<open>\<open>day\<close> and \<open>clock\<close> render \<open>Utc::now\<close>. The outcome says where the content went, and whether the conflict cache is invalidated.\<close>

record memory_written =
  mw_path :: string
  mw_append :: bool
  mw_length :: nat
  mw_invalidates :: bool

definition write_target_path ::
  "outside \<Rightarrow> string \<Rightarrow> string \<Rightarrow> workspace \<Rightarrow> string option \<Rightarrow> bool \<Rightarrow> string \<Rightarrow> string \<Rightarrow> workspace_db \<Rightarrow> (tool_error + string) \<times> workspace_db" where
  "write_target_path ou day clock ws pre append_mode target content db =
     (if target = ''memory'' then store_memory ou ws append_mode (under_prefix pre ''MEMORY.md'') content db
      else if target = ''daily_log'' then store_memory ou ws True (under_prefix pre (daily_path day)) (''['' @ clock @ ''] '' @ content) db
      else if target = ''heartbeat'' then store_memory ou ws append_mode (under_prefix pre ''HEARTBEAT.md'') content db
      else (case resolve_target pre target of
              Inl e \<Rightarrow> (Inl e, db)
            | Inr p \<Rightarrow> store_memory ou ws append_mode p content db))"

definition memory_write ::
  "outside \<Rightarrow> string \<Rightarrow> string \<Rightarrow> workspace \<Rightarrow> legal_scope option \<Rightarrow> json_value \<Rightarrow> workspace_db \<Rightarrow> (tool_error + memory_written) \<times> workspace_db" where
  "memory_write ou day clock ws legal params db =
     (case require_str params ''content'' of
        Inl e \<Rightarrow> (Inl e, db)
      | Inr content \<Rightarrow>
          if trim content = [] then (Inl (InvalidParameters ''content cannot be empty''), db)
          else let target = (case opt_str params ''target'' of Some t \<Rightarrow> t | None \<Rightarrow> ''daily_log'')
               in case active_prefix legal of
                    Inl e \<Rightarrow> (Inl e, db)
                  | Inr pre \<Rightarrow>
                      if is_protected_identity_path target
                      then (Inl (NotAuthorized (''writing to '' @ quoted target @ '' is not allowed (identity file protected from tool writes)'')), db)
                      else let append_mode = (case Option.bind (json_get params ''append'') as_bool of Some b \<Rightarrow> b | None \<Rightarrow> True)
                           in case write_target_path ou day clock ws pre append_mode target content db of
                                (Inl e, db1) \<Rightarrow> (Inl e, db1)
                              | (Inr p, db1) \<Rightarrow> (Inr \<lparr>mw_path = p, mw_append = append_mode, mw_length = length content,
                                    mw_invalidates = is_workspace_conflicts_path p\<rparr>, db1))"

definition memory_read :: "outside \<Rightarrow> workspace \<Rightarrow> json_value \<Rightarrow> workspace_db \<Rightarrow> tool_error + memory_document" where
  "memory_read ou ws params db =
     (case require_str params ''path'' of
        Inl e \<Rightarrow> Inl e
      | Inr p \<Rightarrow> (case fst (ws_read ou ws p db) of
                    Inl e \<Rightarrow> Inl (ExecutionFailed (''Read failed: '' @ workspace_error_text e))
                  | Inr d \<Rightarrow> Inr d))"

definition memory_search ::
  "(string \<Rightarrow> memory_chunk list \<Rightarrow> string + memory_chunk list) \<Rightarrow> (embedding \<Rightarrow> nat \<Rightarrow> memory_chunk list \<Rightarrow> string + memory_chunk list) \<Rightarrow>
   workspace \<Rightarrow> json_value \<Rightarrow> workspace_db \<Rightarrow> tool_error + search_result list" where
  "memory_search fts vec ws params db =
     (case require_str params ''query'' of
        Inl e \<Rightarrow> Inl e
      | Inr query \<Rightarrow>
          let limit = min (case opt_u64 params ''limit'' of Some n \<Rightarrow> n | None \<Rightarrow> 5) 20
          in case search_with_config fts vec ws query (default_search\<lparr>sc_limit := limit\<rparr>) db of
               Inl e \<Rightarrow> Inl (ExecutionFailed (''Search failed: '' @ workspace_error_text e))
             | Inr rs \<Rightarrow> Inr rs)"

definition entry_name :: "workspace_entry \<Rightarrow> string" where
  "entry_name e = last (split_on (CHR ''/'') (we_path e))"

definition display_path :: "workspace_entry \<Rightarrow> string" where
  "display_path e = (if we_directory e then entry_name e @ ''/'' else entry_name e)"

function build_tree :: "workspace \<Rightarrow> string \<Rightarrow> nat \<Rightarrow> nat \<Rightarrow> workspace_db \<Rightarrow> tool_error + json_value list"
  and tree_entries :: "workspace \<Rightarrow> workspace_entry list \<Rightarrow> nat \<Rightarrow> nat \<Rightarrow> workspace_db \<Rightarrow> tool_error + json_value list" where
  "build_tree ws p current_depth max_depth db =
     (if current_depth > max_depth then Inr []
      else case fst (ws_list ws p db) of
             Inl e \<Rightarrow> Inl (ExecutionFailed (''Tree failed: '' @ workspace_error_text e))
           | Inr es \<Rightarrow> tree_entries ws es current_depth max_depth db)"
| "tree_entries ws [] current_depth max_depth db = Inr []"
| "tree_entries ws (e # es) current_depth max_depth db =
     (case (if we_directory e \<and> current_depth < max_depth
            then (case build_tree ws (we_path e) (current_depth + 1) max_depth db of
                    Inl x \<Rightarrow> Inl x
                  | Inr children \<Rightarrow> Inr (if children = [] then JString (display_path e) else JObject [(display_path e, JArray children)]))
            else Inr (JString (display_path e))) of
        Inl x \<Rightarrow> Inl x
      | Inr v \<Rightarrow> (case tree_entries ws es current_depth max_depth db of Inl x \<Rightarrow> Inl x | Inr vs \<Rightarrow> Inr (v # vs)))"
  by pat_completeness auto
termination
  by (relation "measures [\<lambda>x. case x of Inl (ws, p, c, m, db) \<Rightarrow> Suc m - c | Inr (ws, es, c, m, db) \<Rightarrow> Suc m - c,
      \<lambda>x. case x of Inl _ \<Rightarrow> Suc 0 | Inr _ \<Rightarrow> 0,
      \<lambda>x. case x of Inl _ \<Rightarrow> 0 | Inr (ws, es, c, m, db) \<Rightarrow> length es]") auto

declare build_tree.simps [simp del]

definition memory_tree :: "workspace \<Rightarrow> json_value \<Rightarrow> workspace_db \<Rightarrow> tool_error + json_value list" where
  "memory_tree ws params db =
     (let p = (case opt_str params ''path'' of Some s \<Rightarrow> s | None \<Rightarrow> []);
          depth = max 1 (min 10 (case opt_u64 params ''depth'' of Some n \<Rightarrow> n | None \<Rightarrow> 1))
      in build_tree ws p 1 depth db)"

section \<open>Where a write lands\<close>

definition clean_prefix :: "string \<Rightarrow> bool" where
  "clean_prefix p \<longleftrightarrow> p \<noteq> [] \<and> \<not> is_ws (hd p) \<and> \<not> is_ws (last p) \<and> hd p \<noteq> CHR ''/'' \<and> last p \<noteq> CHR ''/'' \<and> collapse_slashes False p = p"

lemma collapse_append:
  "collapse_slashes b (p @ s) = collapse_slashes b p @ collapse_slashes (if p = [] then b else last p = CHR ''/'') s"
  by (induction b p rule: collapse_slashes.induct) auto

lemma drop_end_append: "p \<noteq> [] \<Longrightarrow> \<not> P (last p) \<Longrightarrow> rev (dropWhile P (rev (p @ s))) = p @ rev (dropWhile P (rev s))"
  by (cases p rule: rev_cases) (auto simp: dropWhile_append)

lemma slash_not_ws: "\<not> is_ws (CHR ''/'')"
  by code_simp

lemma normalize_under:
  assumes "clean_prefix p"
  shows "\<exists>rest. normalize_doc_path (p @ ''/'' @ r) = p @ rest \<and> (rest = [] \<or> hd rest = CHR ''/'')"
proof -
  have p: "p \<noteq> []" "\<not> is_ws (hd p)" "\<not> is_ws (last p)" "hd p \<noteq> CHR ''/''" "last p \<noteq> CHR ''/''" "collapse_slashes False p = p"
    using assms by (simp_all add: clean_prefix_def)
  have "trim (p @ ''/'' @ r) = p @ rev (dropWhile is_ws (rev (''/'' @ r)))"
    using p(1,2) drop_end_append [of p is_ws "''/'' @ r"] p(3) by (cases p) (auto simp: trim_def trim_start_def trim_end_def)
  also have "\<dots> = p @ ''/'' @ rev (dropWhile is_ws (rev r))"
    using drop_end_append [of "''/''" is_ws r] slash_not_ws by simp
  finally obtain r' where t: "trim (p @ ''/'' @ r) = p @ ''/'' @ r'" by blast
  have "trim_matches (CHR ''/'') (p @ ''/'' @ r') = p @ rev (dropWhile (\<lambda>x. x = CHR ''/'') (rev (''/'' @ r')))"
    using p(1,4) drop_end_append [of p "\<lambda>x. x = CHR ''/''" "''/'' @ r'"] p(5)
    by (cases p) (auto simp: trim_matches_def trim_start_matches_def trim_end_matches_def)
  moreover obtain s where s: "s = rev (dropWhile (\<lambda>x. x = CHR ''/'') (rev (''/'' @ r')))" "s = [] \<or> hd s = CHR ''/''"
  proof
    have "prefix (rev (dropWhile (\<lambda>x. x = CHR ''/'') (rev (''/'' @ r')))) (''/'' @ r')"
      by (metis suffix_dropWhile suffix_to_prefix rev_rev_ident)
    then show "rev (dropWhile (\<lambda>x. x = CHR ''/'') (rev (''/'' @ r'))) = [] \<or> hd (rev (dropWhile (\<lambda>x. x = CHR ''/'') (rev (''/'' @ r')))) = CHR ''/''"
      by (auto simp: prefix_Cons)
  qed simp
  ultimately have "trim_matches (CHR ''/'') (trim (p @ ''/'' @ r)) = p @ s" by (simp only: t)
  then have "normalize_doc_path (p @ ''/'' @ r) = p @ collapse_slashes False s"
    using p(1,5,6) by (simp only: normalize_doc_path_def collapse_append) simp
  moreover have "collapse_slashes False s = [] \<or> hd (collapse_slashes False s) = CHR ''/''" using s(2) by (cases s) auto
  ultimately show ?thesis by blast
qed

lemma prefix_clean:
  assumes "clean_prefix (trim_matches (CHR ''/'') (ls_matter_root l))" and "sanitize_matter_id m \<noteq> []"
  shows "clean_prefix (matter_prefix l m)"
proof -
  let ?r = "trim_matches (CHR ''/'') (ls_matter_root l)" and ?i = "sanitize_matter_id m"
  have safe: "c \<noteq> CHR ''/''" "\<not> is_ws c" if "c \<in> set ?i" for c
  proof -
    have "matter_char c" using that matter_id_safe [of m] by (simp add: list_all_iff)
    then show "c \<noteq> CHR ''/''" "\<not> is_ws c" by (auto simp: matter_char_def is_ws_def is_lower_def is_digit_def)
  qed
  have id: "collapse_slashes b s = s" if "CHR ''/'' \<notin> set s" for b s using that by (induction b s rule: collapse_slashes.induct) auto
  have "CHR ''/'' \<notin> set ?i" using safe(1) by blast
  then show ?thesis using assms safe [OF last_in_set [OF assms(2)]] by (simp add: clean_prefix_def matter_prefix_def collapse_append id)
qed

lemma store_memory_op:
  "snd (store_memory ou ws a p c db) = ws_apply ws (if a then WsAppend ou p c else WsWrite ou p c) db"
  by (auto simp: store_memory_def ws_apply_def map_prod_def split: prod.splits sum.splits)

definition written_path :: "string \<Rightarrow> string option \<Rightarrow> json_value \<Rightarrow> string \<Rightarrow> bool" where
  "written_path day pre params p \<longleftrightarrow>
     p \<in> under_prefix pre ` {''MEMORY.md'', daily_path day, ''HEARTBEAT.md''}
     \<or> (\<exists>t. opt_str params ''target'' = Some t \<and> \<not> is_protected_identity_path t \<and> resolve_target pre t = Inr p)"

lemma memory_write_op:
  assumes "memory_write ou day clock ws legal params db = (r, db')"
  shows "db' = db \<or> (\<exists>pre p op. active_prefix legal = Inr pre \<and> written_path day pre params p \<and> db' = ws_apply ws op db
    \<and> (\<exists>c. op = WsAppend ou p c \<or> op = WsWrite ou p c))"
proof (cases "db' = db")
  case False
  let ?t = "case opt_str params ''target'' of Some t \<Rightarrow> t | None \<Rightarrow> ''daily_log''"
  obtain content pre a where c: "active_prefix legal = Inr pre" "\<not> is_protected_identity_path ?t"
      "db' = snd (write_target_path ou day clock ws pre a ?t content db)"
    using assms False
    by (auto simp: memory_write_def Let_def split: sum.splits if_splits prod.splits) (metis snd_conv)+
  have "\<exists>a p x. db' = snd (store_memory ou ws a p x db) \<and> written_path day pre params p"
  proof (cases "?t \<in> {''memory'', ''daily_log'', ''heartbeat''}")
    case True
    then have "\<exists>q \<in> {''MEMORY.md'', daily_path day, ''HEARTBEAT.md''}. \<exists>a x. db' = snd (store_memory ou ws a (under_prefix pre q) x db)"
      unfolding c(3) write_target_path_def by (simp split: if_splits) blast
    then show ?thesis unfolding written_path_def by blast
  next
    case custom: False
    then obtain t where t: "opt_str params ''target'' = Some t" "?t = t" by (cases "opt_str params ''target''") auto
    obtain p where p: "resolve_target pre t = Inr p"
      using False custom c(3) t(2) by (cases "resolve_target pre t") (auto simp: write_target_path_def)
    then have "db' = snd (store_memory ou ws a p content db)" using c(3) custom t(2) by (simp add: write_target_path_def)
    then show ?thesis using c(2) t p unfolding written_path_def by metis
  qed
  then show ?thesis using c(1) by (metis store_memory_op)
qed simp

lemma memory_write_changes:
  assumes "db_ok db" and "memory_write ou day clock ws legal params db = (r, db')" and "doc_view db' k \<noteq> doc_view db k"
  obtains pre p where "active_prefix legal = Inr pre" "written_path day pre params p" "k = ws_key ws p"
proof -
  obtain pre p op where w: "active_prefix legal = Inr pre" "written_path day pre params p" "db' = ws_apply ws op db"
    "\<exists>c. op = WsAppend ou p c \<or> op = WsWrite ou p c"
    using memory_write_op [OF assms(2)] assms(3) by metis
  have "doc_view db' = ws_spec ws op (doc_view db)" using ws_apply_refines [OF assms(1)] w(3) by simp
  then have "k = ws_key ws p" using spec_key [of k ws op] w(4) assms(3) by fastforce
  then show ?thesis using that w by blast
qed

text \<open>C40: When the legal profile requires a matter, \<open>memory_write\<close> changes documents of the active matter only: whatever parameters the
  model sends, a document that is different afterwards is one of the tool's own user and lies at or below the directory of the active
  matter. Without an active matter nothing changes.\<close>

theorem memory_write_scoped:
  assumes "db_ok db" and scope: "ls_enabled l" "ls_require_matter l" and root: "clean_prefix (trim_matches (CHR ''/'') (ls_matter_root l))"
    and matter: "\<forall>m. ls_active_matter l = Some m \<longrightarrow> sanitize_matter_id (trim m) \<noteq> []"
    and run: "memory_write ou day clock ws (Some l) params db = (r, db')" and diff: "doc_view db' k \<noteq> doc_view db k"
  shows "\<exists>m rest. ls_active_matter l = Some m \<and> k = (ws_user ws, ws_agent ws, matter_prefix l (trim m) @ rest) \<and> (rest = [] \<or> hd rest = CHR ''/'')"
proof -
  obtain pre p where w: "active_prefix (Some l) = Inr pre" "written_path day pre params p" "k = ws_key ws p"
    using memory_write_changes [OF assms(1) run diff] .
  then obtain m where m: "ls_active_matter l = Some m" "pre = Some (matter_prefix l (trim m))"
    using scope by (auto simp: active_prefix_def split: option.splits if_splits)
  have "\<exists>r. p = matter_prefix l (trim m) @ ''/'' @ r"
    using w(2) by (auto simp: written_path_def under_prefix_def m(2) resolve_target_def Let_def starts_with_append split: sum.splits if_splits) metis
  then show ?thesis using normalize_under [OF prefix_clean [OF root]] matter m(1) w(3) by (auto simp: ws_key_def)
qed

definition demo_params :: "string \<Rightarrow> json_value" where
  "demo_params t = JObject [(''content'', JString ''be kind''), (''target'', JString t), (''append'', JBool False)]"

theorem memory_write_scoped_witness:
  "\<exists>rest. doc_view (snd (memory_write sample_out [] [] sample_ws (Some demo_scope) (demo_params ''memory'') empty_ws_db))
       (''ann'', None, ''matters/acme'' @ rest) \<noteq> None"
proof -
  let ?p = "''matters/acme/MEMORY.md''"
  let ?run = "memory_write sample_out [] [] sample_ws (Some demo_scope) (demo_params ''memory'') empty_ws_db"
  have pre: "active_prefix (Some demo_scope) = Inr (Some ''matters/acme'')" "\<not> is_protected_identity_path ''memory''" "trim ''be kind'' \<noteq> []"
    by code_simp+
  have key: "ws_key sample_ws ?p = (''ann'', None, ?p)" "normalize_doc_path ?p = ?p" "matter_id_for_path ?p ''matters'' = Some ''acme''"
    by code_simp+
  have "snd ?run = snd (store_memory sample_out sample_ws False ?p ''be kind'' empty_ws_db)"
    by (simp add: memory_write_def demo_params_def require_str_def opt_str_def json_get_def as_str_def as_bool_def pre
        write_target_path_def under_prefix_def case_prod_beta split: sum.splits)
  then have "doc_view (snd ?run) = ws_spec sample_ws (WsWrite sample_out ?p ''be kind'') (doc_view empty_ws_db)"
    using ws_apply_refines [OF sample_facts(1)] by (simp add: store_memory_op)
  then have new: "doc_view (snd ?run) (''ann'', None, ?p) \<noteq> doc_view empty_ws_db (''ann'', None, ?p)"
    using sample_seals [of "''acme''" "''be kind''"] key
    by (auto simp: ws_spec_def policy_matter_def sample_ws_def sample_policy_def doc_view_def doc_at_def empty_ws_db_def is_ok_iff sealed_text_def
        split: sum.splits)
  obtain r db' where run: "?run = (r, db')" by (cases ?run)
  have "\<exists>m rest. ls_active_matter demo_scope = Some m \<and> (''ann'', None, ?p) = (ws_user sample_ws, ws_agent sample_ws, matter_prefix demo_scope (trim m) @ rest)
      \<and> (rest = [] \<or> hd rest = CHR ''/'')"
  proof (rule memory_write_scoped [OF sample_facts(1) _ _ _ _ run])
    show "clean_prefix (trim_matches (CHR ''/'') (ls_matter_root demo_scope))" by code_simp
    have "sanitize_matter_id (trim ''acme'') \<noteq> []" by code_simp
    then show "\<forall>m. ls_active_matter demo_scope = Some m \<longrightarrow> sanitize_matter_id (trim m) \<noteq> []" by (simp add: demo_scope_def)
    show "doc_view db' (''ann'', None, ?p) \<noteq> doc_view empty_ws_db (''ann'', None, ?p)" using new by (simp add: run)
  qed (simp_all add: demo_scope_def)
  moreover have "matter_prefix demo_scope (trim ''acme'') = ''matters/acme''" by code_simp
  ultimately obtain rest where "?p = ''matters/acme'' @ rest" by (auto simp: demo_scope_def)
  moreover have "doc_view empty_ws_db k = None" for k by (simp add: doc_view_def doc_at_def empty_ws_db_def)
  ultimately have "doc_view (snd ?run) (''ann'', None, ''matters/acme'' @ rest) \<noteq> None" using new by simp
  then show ?thesis by blast
qed

section \<open>The identity files\<close>

lemma join_with_first: "\<exists>r. join_with sep (w # ws) = w @ r"
  by (cases ws) auto

lemma collapse_join:
  "\<forall>w \<in> set ws. w \<noteq> [] \<and> CHR ''/'' \<notin> set w \<Longrightarrow> collapse_slashes False (join_with ''/'' ws) = join_with ''/'' ws"
proof (induction "''/''" ws rule: join_with.induct)
  case (3 w v ws)
  have id: "collapse_slashes b s = s" if "CHR ''/'' \<notin> set s" for b s using that by (induction b s rule: collapse_slashes.induct) auto
  obtain c r where "join_with ''/'' (v # ws) = c # r" "c \<noteq> CHR ''/''"
    using 3(2) by (cases v; cases ws) auto
  then have "collapse_slashes True (join_with ''/'' (v # ws)) = join_with ''/'' (v # ws)" using 3 by simp
  moreover have "last w \<noteq> CHR ''/''" using 3(2) by (metis last_in_set list.set_intros(1))
  ultimately show ?case using 3(2) by (simp add: collapse_append id)
next
  case (2 w)
  have "collapse_slashes b s = s" if "CHR ''/'' \<notin> set s" for b s using that by (induction b s rule: collapse_slashes.induct) auto
  then show ?case using 2 by simp
qed simp

lemma join_ends:
  "\<forall>w \<in> set ws. w \<noteq> [] \<and> c \<notin> set w \<Longrightarrow> ws \<noteq> [] \<Longrightarrow> join_with [c] ws \<noteq> [] \<and> hd (join_with [c] ws) \<noteq> c \<and> last (join_with [c] ws) \<noteq> c"
proof (induction "[c]" ws rule: join_with.induct)
  case (2 w)
  then show ?case by (metis hd_in_set join_with.simps(2) last_in_set list.set_intros(1))
next
  case (3 w v ws)
  moreover have "hd w \<noteq> c" using 3(2) by (metis hd_in_set list.set_intros(1))
  ultimately show ?case by simp
qed simp

lemma policy_parts: "w \<in> set (concat (map policy_part (components s))) \<Longrightarrow> w \<noteq> [] \<and> CHR ''/'' \<notin> set w"
  by (auto simp: components_def Let_def component_of_def split: if_splits dest: split_on_no_sep)

lemma policy_path_normal:
  assumes "trim (normalize_policy_path t) = normalize_policy_path t"
  shows "normalize_doc_path (normalize_policy_path t) = normalize_policy_path t"
proof -
  let ?ws = "concat (map policy_part (components (trim t)))"
  have ok: "\<forall>w \<in> set ?ws. w \<noteq> [] \<and> CHR ''/'' \<notin> set w" using policy_parts by blast
  have "trim_matches (CHR ''/'') (join_with ''/'' ?ws) = join_with ''/'' ?ws"
    using join_ends [OF ok] by (intro trim_matches_id) (cases "?ws = []"; simp only: join_with.simps; blast)
  then show ?thesis using assms collapse_join [OF ok] by (simp add: normalize_doc_path_def normalize_policy_path_def)
qed

lemma tool_paths_not_identity:
  assumes "p \<in> {''MEMORY.md'', daily_path day, ''HEARTBEAT.md''}"
  shows "normalize_doc_path p \<notin> set PROTECTED_IDENTITY_FILES"
proof -
  have "\<exists>rest. normalize_doc_path (daily_path day) = ''daily'' @ rest"
  proof -
    have "clean_prefix ''daily''" by code_simp
    from normalize_under [OF this, of "day @ ''.md''"] show ?thesis by (auto simp: daily_path_def)
  qed
  moreover have "normalize_doc_path ''MEMORY.md'' = ''MEMORY.md''" "normalize_doc_path ''HEARTBEAT.md'' = ''HEARTBEAT.md''" by code_simp+
  ultimately show ?thesis using assms by (auto simp: PROTECTED_IDENTITY_FILES_def)
qed

text \<open>The identity files are out of the model's reach, up to white space: unless the normalised target begins or ends with white space,
  \<open>memory_write\<close> leaves the four files that make up the agent's identity as they are, whatever the parameters, when no matter is required.\<close>

theorem identity_files_protected:
  assumes "db_ok db" and none: "active_prefix legal = Inr None"
    and edge: "\<forall>t. opt_str params ''target'' = Some t \<longrightarrow> trim (normalize_policy_path t) = normalize_policy_path t"
    and run: "memory_write ou day clock ws legal params db = (r, db')" and f: "f \<in> set PROTECTED_IDENTITY_FILES"
  shows "doc_view db' (ws_user ws, ws_agent ws, f) = doc_view db (ws_user ws, ws_agent ws, f)"
proof (rule ccontr)
  assume "\<not> ?thesis"
  then obtain pre p where w: "active_prefix legal = Inr pre" "written_path day pre params p" "(ws_user ws, ws_agent ws, f) = ws_key ws p"
    by (rule memory_write_changes [OF assms(1) run])
  then have pre: "pre = None" and key: "f = normalize_doc_path p" using none by (simp_all add: ws_key_def)
  show False
  proof (cases "p \<in> {''MEMORY.md'', daily_path day, ''HEARTBEAT.md''}")
    case True
    then show False using tool_paths_not_identity f key by blast
  next
    case False
    then obtain t where t: "opt_str params ''target'' = Some t" "\<not> is_protected_identity_path t" "resolve_target None t = Inr p"
      using w(2) pre by (auto simp: written_path_def under_prefix_def)
    then have "p = normalize_policy_path t" by (simp add: resolve_target_def Let_def split: if_splits)
    then have "f = normalize_policy_path t" using policy_path_normal edge t(1) key by simp
    then show False using t(2) f by (auto simp: is_protected_identity_path_def list_ex_iff eq_ignore_case_def)
  qed
qed

theorem identity_files_protected_witness:
  "doc_view (snd (memory_write sample_out [] [] sample_ws None (demo_params ''/AGENTS.md'') empty_ws_db)) (''ann'', None, ''AGENTS.md'') = None"
proof -
  let ?run = "memory_write sample_out [] [] sample_ws None (demo_params ''/AGENTS.md'') empty_ws_db"
  obtain r db' where run: "?run = (r, db')" by (cases ?run)
  have "trim (normalize_policy_path ''/AGENTS.md'') = normalize_policy_path ''/AGENTS.md''" by code_simp
  then have "\<forall>t. opt_str (demo_params ''/AGENTS.md'') ''target'' = Some t \<longrightarrow> trim (normalize_policy_path t) = normalize_policy_path t"
    by (simp add: opt_str_def demo_params_def json_get_def as_str_def)
  from identity_files_protected [OF sample_facts(1) _ this run, of "''AGENTS.md''"]
  have "doc_view db' (''ann'', None, ''AGENTS.md'') = doc_view empty_ws_db (''ann'', None, ''AGENTS.md'')"
    by (simp add: active_prefix_def PROTECTED_IDENTITY_FILES_def sample_ws_def)
  moreover have "\<dots> = None" by (simp add: doc_view_def doc_at_def empty_ws_db_def)
  ultimately show ?thesis by (simp add: run)
qed

text \<open>White space passes the protection: with the target \<open>/ AGENTS.md\<close> the tool compares \<open> AGENTS.md\<close> with the protected names, finds
  no match, and hands the path to the workspace, which trims it. The agent's instructions are replaced, and the next system prompt
  opens with the text of the model.\<close>

theorem identity_guard_bypassed:
  assumes "db_ok db" and none: "active_prefix legal = Inr None" and plain: "policy_matter ws ''AGENTS.md'' = None" and "trim content \<noteq> []"
    and params: "params = JObject [(''content'', JString content), (''target'', JString ''/ AGENTS.md''), (''append'', JBool False)]"
  shows "\<exists>w db' prompt. memory_write ou day clock ws legal params db = (Inr w, db')
    \<and> doc_view db' (ws_user ws, ws_agent ws, ''AGENTS.md'') = Some (content, chunks_of content)
    \<and> fst (system_prompt_for_context ou ws today yesterday is_group db') = Inr (''## Agent Instructions'' @ newline @ newline @ content @ prompt)"
proof -
  let ?db = "ws_apply ws (WsWrite ou '' AGENTS.md'' content) db" and ?h = "''## Agent Instructions''"
  have norm: "normalize_doc_path '' AGENTS.md'' = ''AGENTS.md''" "normalize_doc_path ''AGENTS.md'' = ''AGENTS.md''"
      "\<not> is_protected_identity_path ''/ AGENTS.md''" "resolve_target None ''/ AGENTS.md'' = Inr '' AGENTS.md''" by code_simp+
  have ok: "db_ok ?db" and view: "doc_view ?db (ws_key ws ''AGENTS.md'') = Some (content, chunks_of content)"
    using ws_apply_refines [OF assms(1), of ws "WsWrite ou '' AGENTS.md'' content"] plain by (simp_all add: ws_spec_def norm ws_key_def)
  obtain d where d: "md_content d = content" "ws_read ou ws ''AGENTS.md'' ?db = (Inr d, ?db)"
    using read_view [OF ok view, of ou] plain by (auto simp: norm)
  obtain db1 where "store_and_index (dr_now (ou_draw ou)) ws ''AGENTS.md'' content False db = (Inr (), db1)"
    using store_and_index_ok [OF assms(1), of "dr_now (ou_draw ou)" ws "''AGENTS.md''" content False] by blast
  then have wr: "ws_write ou ws '' AGENTS.md'' content db = ws_read ou ws ''AGENTS.md'' db1" using plain by (simp add: ws_write_def norm then_do_def)
  then have "?db = db1" by (simp add: ws_apply_def read_state)
  then have "store_memory ou ws False '' AGENTS.md'' content db = (Inr '' AGENTS.md'', ?db)" using wr d(2) by (simp add: store_memory_def)
  then have "\<exists>w. memory_write ou day clock ws legal params db = (Inr w, ?db)"
    using assms(4) none norm(3,4)
    by (simp add: memory_write_def params require_str_def opt_str_def json_get_def as_str_def as_bool_def write_target_path_def)
  moreover have "content \<noteq> []" using assms(4) by (auto simp: trim_def trim_start_def trim_end_def)
  then have "part_of ?h (ws_read ou ws ''AGENTS.md'' ?db) = [?h @ newline @ newline @ content]" using d by (simp add: part_of_def)
  then obtain parts where "fst (system_prompt_for_context ou ws today yesterday is_group ?db)
      = Inr (join_with (newline @ newline @ ''---'' @ newline @ newline) ((?h @ newline @ newline @ content) # parts))"
    by (simp add: system_prompt_for_context_def Let_def identity_files_def del: join_with.simps)
  then have "\<exists>prompt. fst (system_prompt_for_context ou ws today yesterday is_group ?db) = Inr ((?h @ newline @ newline @ content) @ prompt)"
    using join_with_first [of _ "?h @ newline @ newline @ content" parts] by (metis (no_types))
  then have "\<exists>prompt. fst (system_prompt_for_context ou ws today yesterday is_group ?db) = Inr (?h @ newline @ newline @ content @ prompt)"
    by (simp only: append_assoc)
  moreover have "doc_view ?db (ws_user ws, ws_agent ws, ''AGENTS.md'') = Some (content, chunks_of content)"
    using view by (simp only: ws_key_def norm)
  ultimately show ?thesis by blast
qed

theorem identity_guard_bypassed_witness:
  "\<exists>w db'. memory_write sample_out [] [] sample_ws None (demo_params ''/ AGENTS.md'') empty_ws_db = (Inr w, db')
     \<and> doc_view db' (''ann'', None, ''AGENTS.md'') = Some (''be kind'', chunks_of ''be kind'')"
proof -
  have "matter_id_for_path ''AGENTS.md'' ''matters'' = None" "trim ''be kind'' \<noteq> []" by code_simp+
  then show ?thesis
    using identity_guard_bypassed [OF sample_facts(1), of None sample_ws "''be kind''" "demo_params ''/ AGENTS.md''" sample_out "[]" "[]" "[]" "[]" False]
    by (auto simp: active_prefix_def demo_params_def policy_matter_def sample_ws_def sample_policy_def)
qed

end
