(* ===== verification/Leak_Detector.thy ===== *)
theory Leak_Detector
  imports Prelude "HOL-Library.Multiset" "HOL-Library.Sublist"
begin

text \<open>
  The leak detector (\<open>src/safety/leak_detector.rs\<close>): the table of patterns with the legal toggles, the prefix filter that selects the
  patterns to run, the scan, the redaction and the decision to block. The crate \<open>regex\<close> is the parameter \<open>re\<close>, which returns the
  spans of the successive matches of a pattern, and the crate \<open>aho_corasick\<close> the parameter \<open>ac\<close>, which returns the successive
  non-overlapping matches of a list of literals with the index of the literal; the laws the code relies on are \<open>regex_laws\<close>
  and \<open>matcher_laws\<close>. Texts are read as ASCII, so byte offsets are positions.
\<close>

section \<open>Patterns\<close>

datatype leak_action = LeakBlock | LeakRedact | LeakWarn

datatype leak_severity = LeakLow | LeakMedium | LeakHigh | LeakCritical

record leak_pattern =
  lk_name :: string
  lk_regex :: string
  lk_severity :: leak_severity
  lk_action :: leak_action

record leak_match =
  lm_pattern :: string
  lm_severity :: leak_severity
  lm_action :: leak_action
  lm_start :: nat
  lm_end :: nat
  lm_preview :: string

record leak_scan_result =
  ls_matches :: "leak_match list"
  ls_block :: bool
  ls_redacted :: "string option"

record legal_redaction =
  lr_pii :: bool
  lr_phi :: bool
  lr_financial :: bool
  lr_government_id :: bool

datatype redaction_class = ClassAlways | ClassPii | ClassPhi | ClassFinancial | ClassGovernmentId

definition legal_redaction_class :: "string \<Rightarrow> redaction_class" where
  "legal_redaction_class n =
     (if n = ''us_ssn'' then ClassPii
      else if n = ''medical_record_labeled'' then ClassPhi
      else if n \<in> {''credit_card_like'', ''routing_number_labeled'', ''account_number_labeled''} then ClassFinancial
      else if n = ''drivers_license_labeled'' then ClassGovernmentId
      else ClassAlways)"

definition pattern_enabled_for_legal_config :: "string \<Rightarrow> legal_redaction option \<Rightarrow> bool" where
  "pattern_enabled_for_legal_config n redaction =
     (case redaction of None \<Rightarrow> True
      | Some r \<Rightarrow> (case legal_redaction_class n of ClassAlways \<Rightarrow> True | ClassPii \<Rightarrow> lr_pii r | ClassPhi \<Rightarrow> lr_phi r
           | ClassFinancial \<Rightarrow> lr_financial r | ClassGovernmentId \<Rightarrow> lr_government_id r))"

text \<open>A backslash in the source of a regular expression is written \<open>%\<close> here and put back by \<open>rx\<close>; no pattern has a per cent sign.\<close>

definition rx :: "string \<Rightarrow> string" where
  "rx s = map (\<lambda>c. if c = CHR ''%'' then CHR 0x5C else c) s"

definition leak_pat :: "string \<Rightarrow> string \<Rightarrow> leak_severity \<Rightarrow> leak_action \<Rightarrow> leak_pattern" where
  "leak_pat n r s a = \<lparr>lk_name = n, lk_regex = rx r, lk_severity = s, lk_action = a\<rparr>"

definition default_patterns :: "leak_pattern list" where
  "default_patterns =
    [leak_pat ''openai_api_key'' ''sk-(?:proj-)?[a-zA-Z0-9]{20,}(?:T3BlbkFJ[a-zA-Z0-9_-]*)?'' LeakCritical LeakBlock,
     leak_pat ''anthropic_api_key'' ''sk-ant-api[a-zA-Z0-9_-]{90,}'' LeakCritical LeakBlock,
     leak_pat ''aws_access_key'' ''AKIA[0-9A-Z]{16}'' LeakCritical LeakBlock,
     leak_pat ''github_token'' ''gh[pousr]_[A-Za-z0-9_]{36,}'' LeakCritical LeakBlock,
     leak_pat ''github_fine_grained_pat'' ''github_pat_[a-zA-Z0-9]{22}_[a-zA-Z0-9]{59}'' LeakCritical LeakBlock,
     leak_pat ''stripe_api_key'' ''sk_(?:live|test)_[a-zA-Z0-9]{24,}'' LeakCritical LeakBlock,
     leak_pat ''nearai_session'' ''sess_[a-zA-Z0-9]{32,}'' LeakCritical LeakBlock,
     leak_pat ''pem_private_key'' ''-----BEGIN%s+(?:RSA%s+)?PRIVATE%s+KEY-----'' LeakCritical LeakBlock,
     leak_pat ''ssh_private_key'' ''-----BEGIN%s+(?:OPENSSH|EC|DSA)%s+PRIVATE%s+KEY-----'' LeakCritical LeakBlock,
     leak_pat ''google_api_key'' ''AIza[0-9A-Za-z_-]{35}'' LeakHigh LeakBlock,
     leak_pat ''slack_token'' ''xox[baprs]-[0-9a-zA-Z-]{10,}'' LeakHigh LeakBlock,
     leak_pat ''twilio_api_key'' ''SK[a-fA-F0-9]{32}'' LeakHigh LeakBlock,
     leak_pat ''sendgrid_api_key'' ''SG%.[a-zA-Z0-9_-]{22}%.[a-zA-Z0-9_-]{43}'' LeakHigh LeakBlock,
     leak_pat ''bearer_token'' ''Bearer%s+[a-zA-Z0-9_-]{20,}'' LeakHigh LeakRedact,
     leak_pat ''auth_header'' ''(?i)authorization:%s*[a-zA-Z]+%s+[a-zA-Z0-9_-]{20,}'' LeakHigh LeakRedact,
     leak_pat ''us_ssn'' ''%b%d{3}-%d{2}-%d{4}%b'' LeakHigh LeakRedact,
     leak_pat ''credit_card_like'' ''%b(?:%d[ -]?){13,19}%b'' LeakMedium LeakRedact,
     leak_pat ''routing_number_labeled'' ''(?i)%brouting(?:%s+number)?[:%s]*%d{9}%b'' LeakHigh LeakRedact,
     leak_pat ''account_number_labeled'' ''(?i)%baccount(?:%s+number)?[:%s]*%d{6,17}%b'' LeakHigh LeakRedact,
     leak_pat ''drivers_license_labeled'' (''(?i)%bdriver'' @ [CHR 0x27] @ ''?s?%s+license[:%s]*[A-Z0-9-]{5,20}%b'') LeakMedium LeakRedact,
     leak_pat ''medical_record_labeled'' ''(?i)%b(?:mrn|medical%s+record%s+number)[:%s]*[A-Z0-9-]{5,20}%b'' LeakMedium LeakRedact,
     leak_pat ''high_entropy_hex'' ''%b[a-fA-F0-9]{64}%b'' LeakMedium LeakWarn]"

definition regex_special :: "char list" where
  "regex_special = [CHR ''['', CHR ''('', CHR ''.'', CHR ''*'', CHR ''+'', CHR ''?'', CHR ''{'', CHR ''|'', CHR 0x5E, CHR ''$'', CHR 0x5C]"

definition extract_literal_prefix :: "string \<Rightarrow> string option" where
  "extract_literal_prefix r =
     (let p = takeWhile (\<lambda>c. c \<notin> set regex_special) r in if length p \<ge> 3 then Some p else None)"

section \<open>The detector\<close>

record leak_detector =
  ld_patterns :: "leak_pattern list"
  ld_prefixes :: "(string \<times> nat) list"

definition known_prefixes :: "leak_pattern list \<Rightarrow> (string \<times> nat) list" where
  "known_prefixes ps =
     concat (map (\<lambda>(i, p). case extract_literal_prefix (lk_regex p) of Some s \<Rightarrow> if length s \<ge> 3 then [(s, i)] else [] | None \<Rightarrow> [])
       (enumerate 0 ps))"

definition with_patterns :: "leak_pattern list \<Rightarrow> leak_detector" where
  "with_patterns ps = \<lparr>ld_patterns = ps, ld_prefixes = known_prefixes ps\<rparr>"

definition new_with_legal_redaction :: "legal_redaction option \<Rightarrow> leak_detector" where
  "new_with_legal_redaction redaction = with_patterns (filter (\<lambda>p. pattern_enabled_for_legal_config (lk_name p) redaction) default_patterns)"

type_synonym regex_engine = "string \<Rightarrow> string \<Rightarrow> (nat \<times> nat) list"
type_synonym literal_matcher = "string list \<Rightarrow> string \<Rightarrow> (nat \<times> nat \<times> nat) list"

definition add_pattern :: "leak_pattern \<Rightarrow> leak_detector \<Rightarrow> leak_detector" where
  "add_pattern p d = d\<lparr>ld_patterns := ld_patterns d @ [p]\<rparr>"

definition push_new :: "nat \<Rightarrow> nat list \<Rightarrow> nat list" where
  "push_new i xs = (if i \<in> set xs then xs else xs @ [i])"

definition candidate_indices :: "literal_matcher \<Rightarrow> leak_detector \<Rightarrow> string \<Rightarrow> nat list" where
  "candidate_indices ac d content =
     (if ld_prefixes d = [] then [0..<length (ld_patterns d)]
      else let hits = foldl (\<lambda>xs m. push_new (snd (ld_prefixes d ! fst m)) xs) [] (ac (map fst (ld_prefixes d)) content)
           in foldl (\<lambda>xs i. if i \<notin> snd ` set (ld_prefixes d) then push_new i xs else xs) hits [0..<length (ld_patterns d)])"

definition substring :: "string \<Rightarrow> nat \<Rightarrow> nat \<Rightarrow> string" where
  "substring s a b = take (b - a) (drop a s)"

definition mask_secret :: "string \<Rightarrow> string" where
  "mask_secret s =
     (if length s \<le> 8 then replicate (length s) (CHR ''*'')
      else take 4 s @ replicate (min (length s - 8) 8) (CHR ''*'') @ drop (length s - 4) s)"

definition match_of :: "string \<Rightarrow> leak_pattern \<Rightarrow> nat \<times> nat \<Rightarrow> leak_match" where
  "match_of content p r = \<lparr>lm_pattern = lk_name p, lm_severity = lk_severity p, lm_action = lk_action p,
     lm_start = fst r, lm_end = snd r, lm_preview = mask_secret (substring content (fst r) (snd r))\<rparr>"

definition pattern_matches :: "regex_engine \<Rightarrow> string \<Rightarrow> leak_pattern \<Rightarrow> leak_match list" where
  "pattern_matches re content p = map (match_of content p) (re (lk_regex p) content)"

text \<open>\<open>apply_redactions\<close>: what lies between the spans is kept, each span is replaced by the mark.\<close>

fun redact_from :: "string \<Rightarrow> string \<Rightarrow> nat \<Rightarrow> (nat \<times> nat) list \<Rightarrow> string" where
  "redact_from mark content last_end [] = (if last_end < length content then drop last_end content else [])"
| "redact_from mark content last_end ((s, e) # rs) =
     (if s > last_end then substring content last_end s else []) @ mark @ redact_from mark content e rs"

definition apply_redactions :: "string \<Rightarrow> (nat \<times> nat) list \<Rightarrow> string" where
  "apply_redactions content ranges = (if ranges = [] then content else redact_from ''[REDACTED]'' content 0 ranges)"

definition scan_patterns :: "regex_engine \<Rightarrow> leak_pattern list \<Rightarrow> string \<Rightarrow> leak_scan_result" where
  "scan_patterns re ps content =
     (let found = concat (map (pattern_matches re content) ps);
          ranges = sort_key fst (map (\<lambda>m. (lm_start m, lm_end m)) (filter (\<lambda>m. lm_action m = LeakRedact) found))
      in \<lparr>ls_matches = sort_key lm_start found, ls_block = list_ex (\<lambda>m. lm_action m = LeakBlock) found,
          ls_redacted = (if ranges \<noteq> [] then Some (apply_redactions content ranges) else None)\<rparr>)"

definition scan :: "literal_matcher \<Rightarrow> regex_engine \<Rightarrow> leak_detector \<Rightarrow> string \<Rightarrow> leak_scan_result" where
  "scan ac re d content = scan_patterns re (map (\<lambda>i. ld_patterns d ! i) (candidate_indices ac d content)) content"

datatype leak_error = SecretLeakBlocked string string

definition leak_error_text :: "leak_error \<Rightarrow> string" where
  "leak_error_text e = (case e of SecretLeakBlocked p v \<Rightarrow>
     ''Secret leak blocked: pattern '' @ [CHR 0x27] @ p @ [CHR 0x27] @ '' matched '' @ [CHR 0x27] @ v @ [CHR 0x27])"

definition clean_result :: "leak_scan_result \<Rightarrow> string \<Rightarrow> leak_error + string" where
  "clean_result r content =
     (if ls_block r
      then Inl (case find (\<lambda>m. lm_action m = LeakBlock) (ls_matches r) of
                  Some m \<Rightarrow> SecretLeakBlocked (lm_pattern m) (lm_preview m) | None \<Rightarrow> SecretLeakBlocked [] [])
      else Inr (case ls_redacted r of Some c \<Rightarrow> c | None \<Rightarrow> content))"

definition scan_and_clean :: "literal_matcher \<Rightarrow> regex_engine \<Rightarrow> leak_detector \<Rightarrow> string \<Rightarrow> leak_error + string" where
  "scan_and_clean ac re d content = clean_result (scan ac re d content) content"

text \<open>\<open>body\<close> is the text of the body after the lossy conversion.\<close>

fun scan_headers :: "literal_matcher \<Rightarrow> regex_engine \<Rightarrow> leak_detector \<Rightarrow> (string \<times> string) list \<Rightarrow> leak_error + unit" where
  "scan_headers ac re d [] = Inr ()"
| "scan_headers ac re d ((n, v) # hs) =
     (case scan_and_clean ac re d v of
        Inl e \<Rightarrow> Inl (SecretLeakBlocked (''header:'' @ n) (leak_error_text e))
      | Inr _ \<Rightarrow> scan_headers ac re d hs)"

definition scan_http_request ::
  "literal_matcher \<Rightarrow> regex_engine \<Rightarrow> leak_detector \<Rightarrow> string \<Rightarrow> (string \<times> string) list \<Rightarrow> string option \<Rightarrow> leak_error + unit" where
  "scan_http_request ac re d url headers body =
     (case scan_and_clean ac re d url of
        Inl e \<Rightarrow> Inl e
      | Inr _ \<Rightarrow>
          (case scan_headers ac re d headers of
             Inl e \<Rightarrow> Inl e
           | Inr _ \<Rightarrow> (case body of None \<Rightarrow> Inr ()
                       | Some b \<Rightarrow> (case scan_and_clean ac re d b of Inl e \<Rightarrow> Inl e | Inr _ \<Rightarrow> Inr ()))))"

section \<open>What the crates promise\<close>

definition occurs_at :: "string \<Rightarrow> string \<Rightarrow> nat \<Rightarrow> bool" where
  "occurs_at u s i \<longleftrightarrow> i + length u \<le> length s \<and> take (length u) (drop i s) = u"

text \<open>\<open>AhoCorasick::find_iter\<close> with the standard semantics, for non-empty literals: the matches are occurrences, do not overlap and come in
  order; a match is reported as soon as one is complete; an occurrence that is not reported overlaps one that is.\<close>

definition matcher_laws :: "literal_matcher \<Rightarrow> bool" where
  "matcher_laws ac \<longleftrightarrow> (\<forall>us s. [] \<notin> set us \<longrightarrow>
     (\<forall>(k, a, b) \<in> set (ac us s). k < length us \<and> occurs_at (us ! k) s a \<and> b = a + length (us ! k)
        \<and> (\<forall>u \<in> set us. \<forall>i. occurs_at u s i \<longrightarrow> a \<le> i \<longrightarrow> b \<le> i + length u))
     \<and> sorted_wrt (\<lambda>x y. snd (snd x) \<le> fst (snd y)) (ac us s)
     \<and> (\<forall>u \<in> set us. \<forall>i. occurs_at u s i \<longrightarrow> (\<exists>(k, a, b) \<in> set (ac us s). a < i + length u \<and> i < b)))"


text \<open>A matcher that satisfies the laws: the shortest text that completes a literal is searched, from the end of the match before.\<close>

function ac_from :: "string list \<Rightarrow> string \<Rightarrow> nat \<Rightarrow> nat \<Rightarrow> (nat \<times> nat \<times> nat) list" where
  "ac_from us s start e =
     (if e > length s then []
      else case find (\<lambda>k. length (us ! k) \<le> e \<and> start \<le> e - length (us ! k) \<and> occurs_at (us ! k) s (e - length (us ! k))) [0..<length us] of
             Some k \<Rightarrow> (k, e - length (us ! k), e) # ac_from us s e (Suc e)
           | None \<Rightarrow> ac_from us s start (Suc e))"
  by pat_completeness auto
termination
  by (relation "measure (\<lambda>(us, s, start, e). Suc (length s) - e)") auto

declare ac_from.simps [simp del]

definition ac_find :: literal_matcher where
  "ac_find us s = ac_from us s 0 0"

lemma ac_from_ok:
  assumes "[] \<notin> set us" and "start \<le> e" and "\<forall>u \<in> set us. \<forall>i. occurs_at u s i \<longrightarrow> start \<le> i \<longrightarrow> e \<le> i + length u"
  shows "(\<forall>(k, a, b) \<in> set (ac_from us s start e). k < length us \<and> occurs_at (us ! k) s a \<and> b = a + length (us ! k) \<and> start \<le> a
        \<and> (\<forall>u \<in> set us. \<forall>i. occurs_at u s i \<longrightarrow> a \<le> i \<longrightarrow> b \<le> i + length u))
     \<and> sorted_wrt (\<lambda>x y. snd (snd x) \<le> fst (snd y)) (ac_from us s start e)
     \<and> (\<forall>u \<in> set us. \<forall>i. occurs_at u s i \<longrightarrow> start \<le> i \<longrightarrow> (\<exists>(k, a, b) \<in> set (ac_from us s start e). a < i + length u \<and> i < b))"
  using assms
proof (induction us s start e rule: ac_from.induct)
  case (1 us s start e)
  let ?hit = "\<lambda>k. length (us ! k) \<le> e \<and> start \<le> e - length (us ! k) \<and> occurs_at (us ! k) s (e - length (us ! k))"
  show ?case
  proof (cases "e > length s")
    case True
    then have "\<not> occurs_at u s i" if "u \<in> set us" "start \<le> i" for u i using 1(5) that by (force simp: occurs_at_def)
    then show ?thesis using True by (auto simp: ac_from.simps [of us s start e])
  next
    case False
    show ?thesis
    proof (cases "find ?hit [0..<length us]")
      case None
      have "e < i + length u" if u: "u \<in> set us" "occurs_at u s i" "start \<le> i" for u i
      proof -
        obtain k where k: "k < length us" "us ! k = u" using u(1) by (auto simp: in_set_conv_nth)
        have "e \<le> i + length u" using 1(5) u by blast
        moreover have "\<not> ?hit k" using None k(1) unfolding find_None_iff by simp
        then have "e \<noteq> i + length u" using k u by auto
        ultimately show ?thesis by simp
      qed
      then have "\<forall>u \<in> set us. \<forall>i. occurs_at u s i \<longrightarrow> start \<le> i \<longrightarrow> Suc e \<le> i + length u" by (simp add: Suc_le_eq)
      then show ?thesis using 1(1) [OF False None] 1(3,4) False None by (simp add: ac_from.simps [of us s start e])
    next
      case (Some k)
      then have k: "k < length us" "length (us ! k) \<le> e" "start \<le> e - length (us ! k)" "occurs_at (us ! k) s (e - length (us ! k))"
        by (auto simp: find_Some_iff)
      have ne: "us ! k \<noteq> []" using 1(3) k(1) nth_mem by metis
      have nxt: "\<forall>u \<in> set us. \<forall>i. occurs_at u s i \<longrightarrow> e \<le> i \<longrightarrow> Suc e \<le> i + length u"
        using 1(3) by (metis Suc_leI add_le_mono le_add1 length_greater_0_conv less_add_same_cancel1 order_le_less_trans)
      have IH: "(\<forall>(k, a, b) \<in> set (ac_from us s e (Suc e)). k < length us \<and> occurs_at (us ! k) s a \<and> b = a + length (us ! k) \<and> e \<le> a
          \<and> (\<forall>u \<in> set us. \<forall>i. occurs_at u s i \<longrightarrow> a \<le> i \<longrightarrow> b \<le> i + length u))"
        "sorted_wrt (\<lambda>x y. snd (snd x) \<le> fst (snd y)) (ac_from us s e (Suc e))"
        "\<forall>u \<in> set us. \<forall>i. occurs_at u s i \<longrightarrow> e \<le> i \<longrightarrow> (\<exists>(k, a, b) \<in> set (ac_from us s e (Suc e)). a < i + length u \<and> i < b)"
        using 1(2) [OF False Some 1(3) _ nxt] by simp_all
      have run: "ac_from us s start e = (k, e - length (us ! k), e) # ac_from us s e (Suc e)"
        using False Some by (simp add: ac_from.simps [of us s start e])
      have early: "\<forall>u \<in> set us. \<forall>i. occurs_at u s i \<longrightarrow> e - length (us ! k) \<le> i \<longrightarrow> e \<le> i + length u"
        using 1(5) k(3) by (meson order_trans)
      have "\<exists>(k, a, b) \<in> set (ac_from us s start e). a < i + length u \<and> i < b" if u: "u \<in> set us" "occurs_at u s i" "start \<le> i" for u i
      proof (cases "e \<le> i")
        case True
        then show ?thesis using IH(3) u unfolding run by auto
      next
        case before: False
        have "e \<le> i + length u" using 1(5) u by blast
        then have "e - length (us ! k) < i + length u" using ne k(2) by (cases "us ! k") auto
        then show ?thesis using before unfolding run by auto
      qed
      moreover have "start \<le> a" if "(j, a, b) \<in> set (ac_from us s e (Suc e))" for j a b
        using IH(1) that 1(4) by fastforce
      ultimately show ?thesis using IH(1,2) k early unfolding run by auto
    qed
  qed
qed

lemma ac_find_laws: "matcher_laws ac_find"
  unfolding matcher_laws_def ac_find_def using ac_from_ok [of _ 0 0] by (auto 0 4)

section \<open>The prefix filter\<close>

lemma push_all:
  "set (foldl (\<lambda>xs x. push_new (g x) xs) xs0 ys) = set xs0 \<union> g ` set ys"
  "distinct xs0 \<Longrightarrow> distinct (foldl (\<lambda>xs x. push_new (g x) xs) xs0 ys)"
  by (induction ys arbitrary: xs0) (auto simp: push_new_def)

lemma push_filtered:
  "foldl (\<lambda>xs i. if P i then push_new i xs else xs) xs0 ys = foldl (\<lambda>xs i. push_new i xs) xs0 (filter P ys)"
  by (induction ys arbitrary: xs0) auto

lemma candidate_set:
  "set (candidate_indices ac d c) = (if ld_prefixes d = [] then {0..<length (ld_patterns d)}
     else (\<lambda>m. snd (ld_prefixes d ! fst m)) ` set (ac (map fst (ld_prefixes d)) c) \<union> {i. i < length (ld_patterns d) \<and> i \<notin> snd ` set (ld_prefixes d)})"
  using push_all(1) [of "\<lambda>i. i"] by (simp add: candidate_indices_def Let_def push_filtered push_all(1))

lemma candidate_distinct: "distinct (candidate_indices ac d c)"
  using push_all(2) [of _ "\<lambda>i. i"] by (simp add: candidate_indices_def Let_def push_filtered push_all(2))





lemma matcher_hit:
  assumes "matcher_laws ac" and "[] \<notin> set us" and "(k, a, b) \<in> set (ac us s)"
  shows "k < length us" "occurs_at (us ! k) s a" "b = a + length (us ! k)"
    "u \<in> set us \<Longrightarrow> occurs_at u s i \<Longrightarrow> a \<le> i \<Longrightarrow> b \<le> i + length u"
  using assms unfolding matcher_laws_def by fast+


lemma mset_concat_subset:
  assumes "distinct xs" and "distinct ys" and "set xs \<subseteq> set ys" and "\<forall>y \<in> set ys - set xs. f y = []"
  shows "mset (concat (map f xs)) = mset (concat (map f ys))"
proof -
  have sums: "mset (concat (map f zs)) = (\<Sum>z \<in> set zs. mset (f z))" if "distinct zs" for zs
    using that by (induction zs) auto
  show ?thesis using assms by (simp add: sums) (rule sum.mono_neutral_left; auto)
qed





text \<open>The patterns with a literal prefix are among the first fourteen, which no legal toggle removes.\<close>

lemma default_split: "default_patterns = take 14 default_patterns @ drop 14 default_patterns"
  by simp

lemma core_prefixes:
  "ld_prefixes (new_with_legal_redaction r) = [(''sk-'', 0), (''sk-ant-api'', 1), (''AKIA'', 2), (''github_pat_'', 4), (''sk_'', 5), (''sess_'', 6),
     (''-----BEGIN'', 7), (''-----BEGIN'', 8), (''AIza'', 9), (''xox'', 10), (''Bearer'', 13)]"
  "\<exists>rest. ld_patterns (new_with_legal_redaction r) = take 14 default_patterns @ rest \<and> set rest \<subseteq> set (drop 14 default_patterns)"
proof -
  let ?core = "take 14 default_patterns" and ?rest = "filter (\<lambda>p. pattern_enabled_for_legal_config (lk_name p) r) (drop 14 default_patterns)"
  have always: "\<forall>p \<in> set ?core. legal_redaction_class (lk_name p) = ClassAlways" by code_simp
  then have "filter (\<lambda>p. pattern_enabled_for_legal_config (lk_name p) r) ?core = ?core"
    by (auto simp: filter_id_conv pattern_enabled_for_legal_config_def split: option.splits)
  then have "filter (\<lambda>p. pattern_enabled_for_legal_config (lk_name p) r) default_patterns = ?core @ ?rest"
    by (metis default_split filter_append)
  then have ps: "ld_patterns (new_with_legal_redaction r) = ?core @ ?rest" by (simp add: new_with_legal_redaction_def with_patterns_def)
  have none: "\<forall>p \<in> set (drop 14 default_patterns). extract_literal_prefix (lk_regex p) = None" by code_simp
  have "known_prefixes (?core @ ?rest) = known_prefixes ?core"
  proof -
    let ?g = "\<lambda>(i, p). case extract_literal_prefix (lk_regex p) of Some s \<Rightarrow> if length s \<ge> 3 then [(s, i)] else [] | None \<Rightarrow> []"
    have "?g x = []" if "x \<in> set (enumerate 14 ?rest)" for x
    proof -
      have "snd x \<in> set ?rest" using that by (metis map_snd_enumerate nth_mem in_set_conv_nth length_map nth_map)
      then have "extract_literal_prefix (lk_regex (snd x)) = None" using none by simp
      then show ?thesis by (simp add: case_prod_beta)
    qed
    then have "concat (map ?g (enumerate 14 ?rest)) = []" by simp
    moreover have "length ?core = 14" by code_simp
    ultimately show ?thesis by (simp add: known_prefixes_def enumerate_append_eq del: length_take)
  qed
  moreover have "known_prefixes ?core = [(''sk-'', 0), (''sk-ant-api'', 1), (''AKIA'', 2), (''github_pat_'', 4), (''sk_'', 5), (''sess_'', 6),
     (''-----BEGIN'', 7), (''-----BEGIN'', 8), (''AIza'', 9), (''xox'', 10), (''Bearer'', 13)]" by code_simp
  ultimately show "ld_prefixes (new_with_legal_redaction r) = [(''sk-'', 0), (''sk-ant-api'', 1), (''AKIA'', 2), (''github_pat_'', 4), (''sk_'', 5), (''sess_'', 6),
     (''-----BEGIN'', 7), (''-----BEGIN'', 8), (''AIza'', 9), (''xox'', 10), (''Bearer'', 13)]"
    using ps by (simp add: new_with_legal_redaction_def with_patterns_def)
  show "\<exists>rest. ld_patterns (new_with_legal_redaction r) = ?core @ rest \<and> set rest \<subseteq> set (drop 14 default_patterns)"
    by (intro exI [of _ ?rest] conjI ps) auto
qed

lemma occurs_at_prefix: "occurs_at (u @ v) s i \<Longrightarrow> occurs_at u s i"
  by (auto simp: occurs_at_def take_add)

lemma sorted_wrt_pair: "sorted_wrt R xs \<Longrightarrow> x \<in> set xs \<Longrightarrow> y \<in> set xs \<Longrightarrow> x \<noteq> y \<Longrightarrow> R x y \<or> R y x"
  by (induction xs) auto

lemma blind_spots:
  assumes ac: "matcher_laws ac" and d: "d = new_with_legal_redaction r"
  shows "1 \<notin> set (candidate_indices ac d c)"
    and "(\<forall>p \<in> set (ld_patterns d). lk_name p \<noteq> ''anthropic_api_key'' \<longrightarrow> re (lk_regex p) c = []) \<Longrightarrow> scan_and_clean ac re d c = Inr c"
    and "(\<forall>i j. occurs_at ''-----BEGIN'' c i \<and> occurs_at ''-----BEGIN'' c j \<longrightarrow> i = j) \<Longrightarrow> \<not> {7, 8} \<subseteq> set (candidate_indices ac d c)"
proof -
  let ?us = "map fst (ld_prefixes d)"
  have us: "?us = [''sk-'', ''sk-ant-api'', ''AKIA'', ''github_pat_'', ''sk_'', ''sess_'', ''-----BEGIN'', ''-----BEGIN'', ''AIza'', ''xox'', ''Bearer'']"
    "[] \<notin> set ?us" by (simp_all add: d core_prefixes)
  note hit = matcher_hit [OF ac us(2)]
  have named: "snd (ld_prefixes d ! k) = i \<longleftrightarrow> k = m" if "k < 11" "(m, i) \<in> {(1, 1), (6, 7), (7, 8)}" for k m i :: nat
    using that by (auto simp: d core_prefixes less_Suc_eq eval_nat_numeral)
  have reported: "\<exists>a b. (m, a, b) \<in> set (ac ?us c)" if cand: "i \<in> set (candidate_indices ac d c)" and mi: "(m, i) \<in> {(1, 1), (6, 7), (7, 8)}" for m i
  proof -
    have "i \<in> snd ` set (ld_prefixes d)" using mi by (auto simp: d core_prefixes)
    then have "i \<in> (\<lambda>m. snd (ld_prefixes d ! fst m)) ` set (ac ?us c)" using cand by (auto simp: candidate_set split: if_splits)
    then obtain k a b where k: "(k, a, b) \<in> set (ac ?us c)" "i = snd (ld_prefixes d ! k)" by auto
    moreover have "k < 11" using hit(1) [OF k(1)] by (simp add: us)
    ultimately show ?thesis using named [OF _ mi] by blast
  qed
  show one: "1 \<notin> set (candidate_indices ac d c)"
  proof
    assume "1 \<in> set (candidate_indices ac d c)"
    then obtain a b where ab: "(1, a, b) \<in> set (ac ?us c)" using reported [of 1 1] by auto
    then have occ: "occurs_at ''sk-ant-api'' c a" "b = a + 10" using hit(2,3) [OF ab] by (simp_all add: us)
    then have "occurs_at ''sk-'' c a" using occurs_at_prefix [of "''sk-''" "''ant-api''"] by simp
    then show False using hit(4) [OF ab, of "''sk-''" a] occ(2) by (simp add: us)
  qed
  obtain rest where rest: "ld_patterns d = take 14 default_patterns @ rest" "set rest \<subseteq> set (drop 14 default_patterns)"
    using core_prefixes(2) [of r] d by blast
  have other: "lk_name (ld_patterns d ! i) \<noteq> ''anthropic_api_key'' \<and> i < length (ld_patterns d)" if "i \<in> set (candidate_indices ac d c)" for i
  proof -
    have len: "length (take 14 default_patterns) = 14" by code_simp
    have "i < length (ld_patterns d)"
    proof (cases "i \<in> snd ` set (ld_prefixes d)")
      case True
      then have "i < 14" by (auto simp: d core_prefixes)
      then show ?thesis using len by (simp only: rest length_append)
    next
      case False
      then show ?thesis using that hit(1) by (auto simp: candidate_set split: if_splits)
    qed
    moreover have "\<forall>i < 14. i \<noteq> 1 \<longrightarrow> lk_name (take 14 default_patterns ! i) \<noteq> ''anthropic_api_key''" by code_simp
    moreover have "\<forall>p \<in> set (drop 14 default_patterns). lk_name p \<noteq> ''anthropic_api_key''" by code_simp
    moreover have "i \<noteq> 1" using one that by blast
    moreover have "rest ! (i - 14) \<in> set (drop 14 default_patterns)" if "\<not> i < 14" "i < length (ld_patterns d)"
      using that rest(2) len nth_mem [of "i - 14" rest] by (auto simp: rest(1) simp del: length_take)
    ultimately show ?thesis by (cases "i < 14") (simp_all add: rest(1) nth_append len del: length_take)
  qed
  show "scan_and_clean ac re d c = Inr c" if quiet: "\<forall>p \<in> set (ld_patterns d). lk_name p \<noteq> ''anthropic_api_key'' \<longrightarrow> re (lk_regex p) c = []"
  proof -
    have "pattern_matches re c (ld_patterns d ! i) = []" if "i \<in> set (candidate_indices ac d c)" for i
      using other [OF that] quiet by (simp add: pattern_matches_def)
    then have "concat (map (pattern_matches re c) (map (\<lambda>i. ld_patterns d ! i) (candidate_indices ac d c))) = []" by simp
    then show ?thesis by (simp only: scan_and_clean_def scan_def scan_patterns_def) (simp add: clean_result_def)
  qed
  show "\<not> {7, 8} \<subseteq> set (candidate_indices ac d c)"
    if single: "\<forall>i j. occurs_at ''-----BEGIN'' c i \<and> occurs_at ''-----BEGIN'' c j \<longrightarrow> i = j"
  proof
    assume "{7, 8} \<subseteq> set (candidate_indices ac d c)"
    then obtain a b a' b' where ab: "(6, a, b) \<in> set (ac ?us c)" "(7, a', b') \<in> set (ac ?us c)" using reported [of 7 6] reported [of 8 7] by auto
    have occ: "occurs_at ''-----BEGIN'' c a" "b = a + 10" "occurs_at ''-----BEGIN'' c a'" "b' = a' + 10"
      using hit(2,3) [OF ab(1)] hit(2,3) [OF ab(2)] by (simp_all add: us)
    then have same: "a = a'" using single by blast
    have "sorted_wrt (\<lambda>x y. snd (snd x) \<le> fst (snd y)) (ac ?us c)" using ac us(2) unfolding matcher_laws_def by blast
    from sorted_wrt_pair [OF this ab] show False using same occ(2,4) by simp
  qed
qed

text \<open>Two of the patterns of the program are never run, because their literals are not independent. The literal of the OpenAI pattern
  begins the one of the Anthropic pattern, so an Anthropic key is never looked for, and a text whose only secret is such a key passes unchanged;
  the patterns for PEM and for SSH private keys share their literal, so a text with one such header is tested for one of the two kinds only.\<close>

theorem prefix_filter_blind_spots:
  assumes "matcher_laws ac" and "d = new_with_legal_redaction r"
  shows "1 \<notin> set (candidate_indices ac d c)
    \<and> ((\<forall>p \<in> set (ld_patterns d). lk_name p \<noteq> ''anthropic_api_key'' \<longrightarrow> re (lk_regex p) c = []) \<longrightarrow> scan_and_clean ac re d c = Inr c)
    \<and> ((\<forall>i j. occurs_at ''-----BEGIN'' c i \<and> occurs_at ''-----BEGIN'' c j \<longrightarrow> i = j) \<longrightarrow> \<not> {7, 8} \<subseteq> set (candidate_indices ac d c))"
  using blind_spots [OF assms] by blast

definition anthropic_regex :: regex_engine where
  "anthropic_regex r s = (if r = ''sk-ant-api[a-zA-Z0-9_-]{90,}'' \<and> occurs_at ''sk-ant-api'' s 0 then [(0, length s)] else [])"

theorem prefix_filter_blind_spots_witness:
  "anthropic_regex ''sk-ant-api[a-zA-Z0-9_-]{90,}'' (''sk-ant-api'' @ replicate 90 (CHR ''x'')) \<noteq> []
   \<and> scan_and_clean ac_find anthropic_regex (new_with_legal_redaction None) (''sk-ant-api'' @ replicate 90 (CHR ''x'')) = Inr (''sk-ant-api'' @ replicate 90 (CHR ''x''))"
proof -
  have "\<forall>p \<in> set default_patterns. lk_name p \<noteq> ''anthropic_api_key'' \<longrightarrow> lk_regex p \<noteq> ''sk-ant-api[a-zA-Z0-9_-]{90,}''" by code_simp
  then have "\<forall>p \<in> set (ld_patterns (new_with_legal_redaction None)). lk_name p \<noteq> ''anthropic_api_key'' \<longrightarrow> anthropic_regex (lk_regex p) s = []" for s
    by (auto simp: anthropic_regex_def new_with_legal_redaction_def with_patterns_def)
  then have "scan_and_clean ac_find anthropic_regex (new_with_legal_redaction None) s = Inr s" for s
    using prefix_filter_blind_spots [OF ac_find_laws refl] by blast
  moreover have "anthropic_regex ''sk-ant-api[a-zA-Z0-9_-]{90,}'' (''sk-ant-api'' @ s) \<noteq> []" for s by (simp add: anthropic_regex_def occurs_at_def)
  ultimately show ?thesis by blast
qed

section \<open>Redaction\<close>

lemma nths_drop_from: "nths c {i. l \<le> i} = drop l c"
proof (induction c arbitrary: l)
  case (Cons x c)
  then show ?case by (cases l) (simp_all add: nths_Cons nths_all)
qed simp

lemma nths_take_to: "nths c {i. i < n} = take n c"
  by (simp add: lessThan_def flip: nths_upt_eq_take)

lemma nths_two:
  assumes "A = B \<union> C" and "\<forall>i \<in> B. i < k" and "\<forall>i \<in> C. k \<le> i"
  shows "nths c A = nths c B @ nths c C"
  using assms
proof (induction c arbitrary: A B C k)
  case (Cons x c)
  let ?s = "\<lambda>A. {j. Suc j \<in> A}"
  show ?case
  proof (cases k)
    case 0
    then have "B = {}" "A = C" using Cons.prems by auto
    then show ?thesis by simp
  next
    case (Suc k')
    then have "0 \<notin> C" using Cons.prems(3) by auto
    moreover have "nths c (?s A) = nths c (?s B) @ nths c (?s C)"
      by (rule Cons.IH [of _ _ _ k']) (use Cons.prems Suc in auto)
    ultimately show ?thesis using Cons.prems(1) by (simp add: nths_Cons)
  qed
qed simp

lemma nths_segment: "nths c {i. l \<le> i \<and> i < s} = (if s > l then take (s - l) (drop l c) else [])"
proof (cases "s > l")
  case True
  then have "nths c {i. i < s} = nths c {i. i < l} @ nths c {i. l \<le> i \<and> i < s}" by (intro nths_two [of _ _ _ l]) auto
  then have "take s c = take l c @ nths c {i. l \<le> i \<and> i < s}" by (simp add: nths_take_to)
  then show ?thesis using True by (metis append_same_eq same_append_eq take_add le_add_diff_inverse less_imp_le_nat)
next
  case False
  then have "{i. l \<le> i \<and> i < s} = {}" by auto
  then show ?thesis using False by (simp only: nths_empty if_False)
qed

definition covered_by :: "(nat \<times> nat) list \<Rightarrow> nat \<Rightarrow> bool" where
  "covered_by ranges i \<longleftrightarrow> (\<exists>(s, e) \<in> set ranges. s \<le> i \<and> i < e)"

lemma redact_segments:
  assumes "sorted_wrt (\<lambda>x y. fst x \<le> fst y \<and> snd x \<le> snd y) rs" and "\<forall>(s, e) \<in> set rs. s \<le> e \<and> e \<le> length c \<and> l \<le> e" and "l \<le> length c"
  shows "\<exists>segs. redact_from mark c l rs = join_with mark segs \<and> length segs = length rs + 1
    \<and> concat segs = nths c {i. l \<le> i \<and> \<not> covered_by rs i}"
  using assms
proof (induction rs arbitrary: l)
  case Nil
  have "drop l c = nths c {i. l \<le> i}" by (simp add: nths_drop_from)
  then show ?case using Nil by (intro exI [of _ "[drop l c]"]) (auto simp: covered_by_def)
next
  case (Cons r rs)
  obtain s e where r: "r = (s, e)" by (cases r)
  have se: "s \<le> e" "e \<le> length c" "l \<le> e" using Cons.prems(2) r by auto
  have later: "\<forall>(s', e') \<in> set rs. s \<le> s' \<and> e \<le> e'" using Cons.prems(1) r by auto
  obtain segs where segs: "redact_from mark c e rs = join_with mark segs" "length segs = length rs + 1"
      "concat segs = nths c {i. e \<le> i \<and> \<not> covered_by rs i}"
    using Cons.IH [of e] Cons.prems(1,2) later se(2) by fastforce
  let ?gap = "if s > l then substring c l s else []"
  have gap: "?gap = nths c {i. l \<le> i \<and> i < s}"
    by (simp add: substring_def nths_segment)
  have "nths c {i. l \<le> i \<and> \<not> covered_by (r # rs) i} = nths c {i. l \<le> i \<and> i < s} @ nths c {i. e \<le> i \<and> \<not> covered_by rs i}"
  proof (rule nths_two)
    show "{i. l \<le> i \<and> \<not> covered_by (r # rs) i} = {i. l \<le> i \<and> i < s} \<union> {i. e \<le> i \<and> \<not> covered_by rs i}"
      using later se by (auto simp: covered_by_def r)
    show "\<forall>i \<in> {i. l \<le> i \<and> i < s}. i < e" "\<forall>i \<in> {i. e \<le> i \<and> \<not> covered_by rs i}. e \<le> i" using se(1) by auto
  qed
  moreover have "redact_from mark c l (r # rs) = join_with mark (?gap # segs)"
    using segs(1,2) by (cases segs) (auto simp: r)
  ultimately show ?case using segs gap by (intro exI [of _ "?gap # segs"]) simp
qed

text \<open>Redaction keeps exactly what no match covers, as long as no match ends before one that began earlier: the output is the uncovered
  text, in order, with one mark for each match.\<close>

theorem redaction_exact:
  assumes "sorted_wrt (\<lambda>x y. fst x \<le> fst y \<and> snd x \<le> snd y) ranges" and "\<forall>(s, e) \<in> set ranges. s \<le> e \<and> e \<le> length content"
  shows "\<exists>segs. apply_redactions content ranges = join_with ''[REDACTED]'' segs \<and> length segs = length ranges + 1
    \<and> concat segs = nths content {i. \<not> covered_by ranges i}"
proof (cases "ranges = []")
  case True
  then show ?thesis by (intro exI [of _ "[content]"]) (simp add: apply_redactions_def covered_by_def nths_all)
next
  case False
  then show ?thesis using redact_segments [OF assms(1), of content 0 "''[REDACTED]''"] assms(2) by (simp add: apply_redactions_def)
qed

theorem redaction_exact_witness:
  "\<exists>segs. apply_redactions ''a 12 b 34'' [(2, 4), (7, 9)] = join_with ''[REDACTED]'' segs \<and> concat segs = ''a  b ''"
proof -
  have "nths ''a 12 b 34'' {i. \<not> covered_by [(2, 4), (7, 9)] i} = ''a  b ''" by (simp add: nths_def covered_by_def upt_rec)
  then show ?thesis using redaction_exact [of "[(2, 4), (7, 9)]" "''a 12 b 34''"] by auto
qed

lemma mset_pair: "mset xs = mset [x, y] \<Longrightarrow> xs = [x, y] \<or> xs = [y, x]"
proof -
  assume a: "mset xs = mset [x, y]"
  then have "length xs = 2" by (metis size_mset length_Cons list.size(3) One_nat_def numeral_2_eq_2)
  then obtain u v where "xs = [u, v]" by (metis (no_types) One_nat_def Suc_1 length_0_conv length_Suc_conv)
  then show ?thesis using a by (auto simp: add_eq_conv_ex)
qed

text \<open>C24: A match inside another uncovers it: when a second redacted match lies strictly inside a first one, the text of the first from
  the end of the second on is output in clear. A medical record number that contains the digits of a social security number is
  enough: everything after those digits is disclosed.\<close>

theorem nested_redaction_leaks:
  assumes d: "d = new_with_legal_redaction None" and inner: "s1 < s2" "s2 \<le> e2" "e2 < e1" "e1 \<le> length c"
    and found: "\<forall>p \<in> set (ld_patterns d). re (lk_regex p) c = (if lk_name p = ''medical_record_labeled'' then [(s1, e1)]
        else if lk_name p = ''us_ssn'' then [(s2, e2)] else [])" and ac: "matcher_laws ac"
  shows "scan_and_clean ac re d c = Inr (take s1 c @ ''[REDACTED][REDACTED]'' @ substring c e2 e1 @ drop e1 c)"
proof -
  have pats: "ld_patterns d = default_patterns" by (simp add: d new_with_legal_redaction_def with_patterns_def pattern_enabled_for_legal_config_def)
  let ?cs = "candidate_indices ac d c" and ?f = "\<lambda>i. pattern_matches re c (default_patterns ! i)" and ?n = "length default_patterns"
  have n: "?n = 22" by code_simp
  have quiet: "?f i = []" if "i \<in> {0..<?n} - set ?cs" for i
  proof -
    have "i \<in> {0, 1, 2, 4, 5, 6, 7, 8, 9, 10, 13}" using that by (auto simp: candidate_set d core_prefixes pats [unfolded d] split: if_splits)
    moreover have "\<forall>i \<in> {0, 1, 2, 4, 5, 6, 7, 8, 9, 10, 13}. lk_name (default_patterns ! i) \<noteq> ''medical_record_labeled'' \<and> lk_name (default_patterns ! i) \<noteq> ''us_ssn''"
      by code_simp
    ultimately have "lk_name (default_patterns ! i) \<noteq> ''medical_record_labeled''" "lk_name (default_patterns ! i) \<noteq> ''us_ssn''" by (blast, blast)
    moreover have "default_patterns ! i \<in> set (ld_patterns d)" using that by (simp add: pats)
    ultimately show ?thesis using found by (simp add: pattern_matches_def)
  qed
  have inside: "set ?cs \<subseteq> {0..<?n}"
  proof -
    have "k < 11" if "(k, a, b) \<in> set (ac (map fst (ld_prefixes d)) c)" for k a b
      using matcher_hit(1) [OF ac _ that] by (simp add: d core_prefixes)
    moreover have "snd (ld_prefixes d ! k) < 22" if "k < 11" for k using that by (auto simp: d core_prefixes less_Suc_eq eval_nat_numeral)
    ultimately show ?thesis by (auto simp: candidate_set pats n split: if_splits)
  qed
  have "mset (concat (map ?f ?cs)) = mset (concat (map ?f [0..<?n]))"
    by (rule mset_concat_subset) (use candidate_distinct inside quiet in auto)
  moreover have "map ?f [0..<?n] = map (pattern_matches re c) default_patterns" by (metis map_nth map_map comp_apply map_cong)
  moreover have "map (pattern_matches re c) default_patterns = map (\<lambda>p. map (match_of c p) (if lk_name p = ''medical_record_labeled'' then [(s1, e1)]
        else if lk_name p = ''us_ssn'' then [(s2, e2)] else [])) default_patterns"
    using found by (auto simp: pattern_matches_def pats)
  moreover obtain x y where xy: "concat (map (\<lambda>p. map (match_of c p) (if lk_name p = ''medical_record_labeled'' then [(s1, e1)]
        else if lk_name p = ''us_ssn'' then [(s2, e2)] else [])) default_patterns) = [x, y]"
      "lm_start x = s2" "lm_end x = e2" "lm_action x = LeakRedact" "lm_start y = s1" "lm_end y = e1" "lm_action y = LeakRedact"
    by (simp add: default_patterns_def leak_pat_def match_of_def)
  ultimately have "mset (concat (map ?f ?cs)) = mset [x, y]" by simp
  then have "concat (map ?f ?cs) = [x, y] \<or> concat (map ?f ?cs) = [y, x]" by (rule mset_pair)
  then have "scan ac re d c = \<lparr>ls_matches = [y, x], ls_block = False, ls_redacted = Some (apply_redactions c [(s1, e1), (s2, e2)])\<rparr>"
    using xy inner(1) by (auto simp: scan_def scan_patterns_def Let_def pats comp_def)
  moreover have "apply_redactions c [(s1, e1), (s2, e2)] = take s1 c @ ''[REDACTED][REDACTED]'' @ drop e2 c"
    using inner by (auto simp: apply_redactions_def substring_def)
  moreover have "drop e2 c = substring c e2 e1 @ drop e1 c"
    using inner by (metis append_take_drop_id drop_drop le_add_diff_inverse2 less_imp_le_nat substring_def)
  ultimately show ?thesis by (simp add: scan_and_clean_def clean_result_def)
qed

definition mrn_regex :: regex_engine where
  "mrn_regex r s = (if r = rx ''(?i)%b(?:mrn|medical%s+record%s+number)[:%s]*[A-Z0-9-]{5,20}%b'' then [(0, 21)]
     else if r = rx ''%b%d{3}-%d{2}-%d{4}%b'' then [(4, 15)] else [])"

theorem nested_redaction_leaks_witness:
  "scan_and_clean ac_find mrn_regex (new_with_legal_redaction None) ''MRN 123-45-6789-ABCDE'' = Inr ''[REDACTED][REDACTED]-ABCDE''"
proof -
  have "\<forall>p \<in> set default_patterns. mrn_regex (lk_regex p) [] = (if lk_name p = ''medical_record_labeled'' then [(0, 21)]
        else if lk_name p = ''us_ssn'' then [(4, 15)] else [])" by code_simp
  then have "\<forall>p \<in> set (ld_patterns (new_with_legal_redaction None)). mrn_regex (lk_regex p) ''MRN 123-45-6789-ABCDE''
      = (if lk_name p = ''medical_record_labeled'' then [(0, 21)] else if lk_name p = ''us_ssn'' then [(4, 15)] else [])"
    by (simp add: mrn_regex_def new_with_legal_redaction_def with_patterns_def)
  then show ?thesis
    using nested_redaction_leaks [of _ 0 4 15 21 "''MRN 123-45-6789-ABCDE''" mrn_regex ac_find, OF refl]
      ac_find_laws by (simp add: substring_def)
qed

end
