(* ===== verification/Reasoning.thy ===== *)
theory Reasoning
  imports Leak_Detector Hooks Llm_Messages Llm_Provider File_Tools
begin

text \<open>
  The reasoning engine (\<open>src/llm/reasoning.rs\<close>): one call of the model with or without tools, the recovery of tool calls the model wrote as
  text, and the cleaning that keeps a model's internal tags away from the user. The crate \<open>regex\<close> is a parameter: \<open>rt_find\<close> is \<open>find_iter\<close>, and
  \<open>rt_closes r s\<close> tells whether group 1 of the first match in \<open>s\<close> is a slash. \<open>serde_json\<close> is the \<open>json_codec\<close> of \<open>Hooks\<close>; the
  prompt builders are the parameter \<open>prompt\<close>. Texts are read as ASCII, so byte offsets are positions.
\<close>

section \<open>Code regions\<close>

definition skip_while :: "(char \<Rightarrow> bool) \<Rightarrow> string \<Rightarrow> nat \<Rightarrow> nat" where
  "skip_while P s i = i + length (takeWhile P (drop i s))"

definition is_blank :: "char \<Rightarrow> bool" where
  "is_blank c \<longleftrightarrow> c = CHR '' '' \<or> c = CHR 0x09"

definition after_nl :: "string \<Rightarrow> nat \<Rightarrow> nat option" where
  "after_nl s i = map_option (\<lambda>k. i + k + 1) (str_find (drop i s) [CHR 0x0A])"

lemma skip_while_le: "i \<le> length s \<Longrightarrow> skip_while P s i \<le> length s"
  using length_takeWhile_le [of P "drop i s"] by (auto simp: skip_while_def)

lemma skip_while_ge: "i \<le> skip_while P s i"
  by (simp add: skip_while_def)

lemma after_nl_le: "after_nl s i = Some j \<Longrightarrow> i < j \<and> j \<le> length s"
  by (auto simp: after_nl_def dest!: str_find_Some)

text \<open>The line after the opening fence at which the block closes: the end of the closing line.\<close>

function close_fence :: "string \<Rightarrow> char \<Rightarrow> nat \<Rightarrow> nat \<Rightarrow> nat option" where
  "close_fence s c n i =
     (if i \<ge> length s then None
      else let j = skip_while is_blank s i;
               k = skip_while ((=) c) s j;
               l = skip_while is_blank s k
           in if j < length s \<and> s ! j = c \<and> k - j \<ge> n \<and> (l \<ge> length s \<or> s ! l = CHR 0x0A)
              then Some (if l < length s then l + 1 else l)
              else case after_nl s i of Some i' \<Rightarrow> close_fence s c n i' | None \<Rightarrow> None)"
  by pat_completeness auto
termination
  by (relation "measure (\<lambda>(s, c, n, i). length s - i)") (auto dest!: after_nl_le)

declare close_fence.simps [simp del]

lemma close_fence_le: "close_fence s c n i = Some e \<Longrightarrow> i \<le> e \<and> e \<le> length s"
proof (induction s c n i rule: close_fence.induct)
  case (1 s c n i)
  let ?j = "skip_while is_blank s i"
  let ?k = "skip_while ((=) c) s ?j"
  let ?l = "skip_while is_blank s ?k"
  have "i < length s" using 1(2) by (subst (asm) close_fence.simps) (simp split: if_splits)
  then have l: "?l \<le> length s" by (intro skip_while_le) simp
  have "i \<le> ?l" using skip_while_ge [of i is_blank s] skip_while_ge [of ?j "(=) c" s] skip_while_ge [of ?k is_blank s] by linarith
  then show ?case using 1 l after_nl_le [of s i]
    by (subst (asm) (2) close_fence.simps) (fastforce simp: Let_def split: if_splits option.splits)
qed

function fences :: "string \<Rightarrow> nat \<Rightarrow> (nat \<times> nat) list" where
  "fences s i =
     (if i \<ge> length s then []
      else if i > 0 \<and> s ! (i - 1) \<noteq> CHR 0x0A then (case after_nl s i of Some i' \<Rightarrow> fences s i' | None \<Rightarrow> [])
      else let j = skip_while is_blank s i
           in if \<not> (j < length s \<and> (s ! j = CHR 0x60 \<or> s ! j = CHR ''~'')) then (case after_nl s j of Some i' \<Rightarrow> fences s i' | None \<Rightarrow> [])
              else let k = skip_while ((=) (s ! j)) s j
                   in if k - j < 3 then (case after_nl s k of Some i' \<Rightarrow> fences s i' | None \<Rightarrow> [])
                      else case after_nl s k of
                             None \<Rightarrow> [(i, length s)]
                           | Some m \<Rightarrow> (case close_fence s (s ! j) (k - j) m of
                                          Some e \<Rightarrow> (i, e) # fences s e
                                        | None \<Rightarrow> [(i, length s)]))"
  by pat_completeness auto
termination
  by (relation "measure (\<lambda>(s, i). length s - i)")
    (auto dest!: after_nl_le close_fence_le simp: skip_while_def)

declare fences.simps [simp del]

text \<open>The next run of exactly \<open>n\<close> backticks from \<open>k\<close> on, and the inline spans outside the regions found so far.\<close>

lemma skip_while_less: "i < length s \<Longrightarrow> P (s ! i) \<Longrightarrow> i < skip_while P s i"
  by (simp add: skip_while_def Cons_nth_drop_Suc [symmetric])

function close_run :: "string \<Rightarrow> nat \<Rightarrow> nat \<Rightarrow> nat option" where
  "close_run s n k =
     (if k \<ge> length s then None
      else if s ! k \<noteq> CHR 0x60 then close_run s n (k + 1)
      else let e = skip_while ((=) (CHR 0x60)) s k in if e - k = n then Some e else close_run s n e)"
  by pat_completeness auto
termination
  by (relation "measure (\<lambda>(s, n, k). length s - k)") (auto intro!: diff_less_mono2 skip_while_less)

declare close_run.simps [simp del]

lemma close_run_le: "close_run s n k = Some e \<Longrightarrow> k < e \<and> e \<le> length s"
proof (induction s n k rule: close_run.induct)
  case (1 s n k)
  show ?case using 1 skip_while_less [of k s "(=) (CHR 0x60)"] skip_while_le [of k s "(=) (CHR 0x60)"]
    by (subst (asm) (3) close_run.simps) (fastforce simp: Let_def split: if_splits)
qed

definition is_inside_code :: "nat \<Rightarrow> (nat \<times> nat) list \<Rightarrow> bool" where
  "is_inside_code pos regions = list_ex (\<lambda>(a, b). a \<le> pos \<and> pos < b) regions"

function inline_spans :: "string \<Rightarrow> (nat \<times> nat) list \<Rightarrow> nat \<Rightarrow> (nat \<times> nat) list" where
  "inline_spans s regions j =
     (if j \<ge> length s then regions
      else if s ! j \<noteq> CHR 0x60 then inline_spans s regions (j + 1)
      else if is_inside_code j regions then inline_spans s regions (j + 1)
      else let k = skip_while ((=) (CHR 0x60)) s j
           in case close_run s (k - j) k of
                Some e \<Rightarrow> inline_spans s (regions @ [(j, e)]) e
              | None \<Rightarrow> inline_spans s regions k)"
  by pat_completeness auto
termination
proof (relation "measure (\<lambda>(s, r, j). length s - j)", goal_cases)
  case (5 s r j k e)
  then have "j < k" "k < e" "e \<le> length s" using skip_while_less [of j s "(=) (CHR 0x60)"] close_run_le [of s "k - j" k e] by auto
  then show ?case by auto
next
  case (4 s r j k)
  then have "j < k" using skip_while_less [of j s "(=) (CHR 0x60)"] by auto
  then show ?case using 4 by auto
qed auto

declare inline_spans.simps [simp del]

definition find_code_regions :: "string \<Rightarrow> (nat \<times> nat) list" where
  "find_code_regions s = sort_key fst (inline_spans s (fences s 0) 0)"

section \<open>Cleaning a response\<close>

record regex_tags =
  rt_find :: regex_engine
  rt_closes :: "string \<Rightarrow> string \<Rightarrow> bool"

definition tag_names :: string where
  "tag_names = ''think(?:ing)?|thought|thoughts|antthinking|reasoning|reflection|scratchpad|inner_monologue''"

definition QUICK_TAG_RE :: string where "QUICK_TAG_RE = rx ''(?i)<%s*/?%s*(?:'' @ tag_names @ ''|final)'' @ rx ''%b''"
definition THINKING_TAG_RE :: string where "THINKING_TAG_RE = rx ''(?i)<%s*(/?)%s*(?:'' @ tag_names @ rx '')%b[^<>]*>''"
definition FINAL_TAG_RE :: string where "FINAL_TAG_RE = rx ''(?i)<%s*(/?)%s*final%b[^<>]*>''"
definition PIPE_REASONING_TAG_RE :: string where "PIPE_REASONING_TAG_RE = rx ''(?i)<%|(/?)%s*(?:'' @ tag_names @ rx '')%|>''"

text \<open>The tags outside code, each with its range and whether it closes.\<close>

definition tags_outside :: "regex_tags \<Rightarrow> string \<Rightarrow> string \<Rightarrow> (nat \<times> nat) list \<Rightarrow> (nat \<times> nat \<times> bool) list" where
  "tags_outside re r s regions =
     map (\<lambda>(a, b). (a, b, rt_closes re r (drop a s))) (filter (\<lambda>(a, b). \<not> is_inside_code a regions) (rt_find re r s))"

definition text_slice :: "string \<Rightarrow> nat \<Rightarrow> nat \<Rightarrow> string" where
  "text_slice s a b = take (b - a) (drop a s)"

fun strip_between :: "string \<Rightarrow> nat \<Rightarrow> bool \<Rightarrow> (nat \<times> nat \<times> bool) list \<Rightarrow> string" where
  "strip_between s last_index in_tag [] = (if in_tag then [] else drop last_index s)"
| "strip_between s last_index in_tag ((a, b, is_close) # ms) =
     (if \<not> in_tag then text_slice s last_index a @ strip_between s b (\<not> is_close) ms
      else strip_between s b (if is_close then False else True) ms)"

definition strip_thinking_tags_regex :: "regex_tags \<Rightarrow> string \<Rightarrow> (nat \<times> nat) list \<Rightarrow> string" where
  "strip_thinking_tags_regex re s regions = strip_between s 0 False (tags_outside re THINKING_TAG_RE s regions)"

fun final_parts :: "string \<Rightarrow> nat \<Rightarrow> bool \<Rightarrow> bool \<Rightarrow> (nat \<times> nat \<times> bool) list \<Rightarrow> string list \<times> bool" where
  "final_parts s last_index in_final found [] = (if in_final then [drop last_index s] else [], found)"
| "final_parts s last_index in_final found ((a, b, is_close) # ms) =
     (if \<not> in_final \<and> \<not> is_close then final_parts s b True True ms
      else if in_final \<and> is_close then (case final_parts s b False found ms of (ps, f) \<Rightarrow> (text_slice s last_index a # ps, f))
      else final_parts s last_index in_final found ms)"

definition extract_final_content :: "regex_tags \<Rightarrow> string \<Rightarrow> (nat \<times> nat) list \<Rightarrow> string option" where
  "extract_final_content re s regions =
     (case final_parts s 0 False False (tags_outside re FINAL_TAG_RE s regions) of (ps, found) \<Rightarrow> if found then Some (concat ps) else None)"

definition strip_pipe_reasoning_tags :: "regex_tags \<Rightarrow> string \<Rightarrow> string" where
  "strip_pipe_reasoning_tags re s =
     (if rt_find re PIPE_REASONING_TAG_RE s = [] then s
      else strip_between s 0 False (tags_outside re PIPE_REASONING_TAG_RE s (find_code_regions s)))"

text \<open>\<open>result\<close> is what was pushed so far. On a malformed opening tag the loop breaks after its prefix was pushed, and the rest is pushed as it stands.\<close>

function strip_xml_tag_from :: "string \<Rightarrow> string \<Rightarrow> string \<Rightarrow> string" where
  "strip_xml_tag_from tag result remaining =
     (let exact_pos = str_find remaining (''<'' @ tag @ ''>'');
          prefix_pos = str_find remaining (''<'' @ tag @ '' '');
          start = (case (exact_pos, prefix_pos) of
                     (Some a, Some b) \<Rightarrow> Some (min a b) | (Some a, None) \<Rightarrow> Some a | (None, Some b) \<Rightarrow> Some b | (None, None) \<Rightarrow> None)
      in case start of
           None \<Rightarrow> result @ remaining
         | Some a \<Rightarrow>
             let result' = result @ take a remaining
             in case str_find (drop a remaining) ''>'' of
                  None \<Rightarrow> result' @ remaining
                | Some p \<Rightarrow>
                    let open_end = a + p + 1; close = ''</'' @ tag @ ''>''
                    in case str_find (drop open_end remaining) close of
                         Some o' \<Rightarrow> strip_xml_tag_from tag result' (drop (open_end + o' + length close) remaining)
                       | None \<Rightarrow> result')"
  by pat_completeness auto
termination
  by (relation "measure (\<lambda>(t, res, rem). length rem)") (auto dest!: str_find_Some)

definition strip_xml_tag :: "string \<Rightarrow> string \<Rightarrow> string" where
  "strip_xml_tag s tag = strip_xml_tag_from tag [] s"

function strip_pipe_tag_from :: "string \<Rightarrow> string \<Rightarrow> string \<Rightarrow> string" where
  "strip_pipe_tag_from tag result remaining =
     (case str_find remaining (''<|'' @ tag @ ''|>'') of
        None \<Rightarrow> result @ remaining
      | Some a \<Rightarrow>
          let result' = result @ take a remaining; close = ''<|/'' @ tag @ ''|>''
          in case str_find (drop a remaining) close of
               Some o' \<Rightarrow> strip_pipe_tag_from tag result' (drop (a + o' + length close) remaining)
             | None \<Rightarrow> result')"
  by pat_completeness auto
termination
  by (relation "measure (\<lambda>(t, res, rem). length rem)") (auto dest!: str_find_Some)

declare strip_xml_tag_from.simps [simp del] strip_pipe_tag_from.simps [simp del]

definition strip_pipe_tag :: "string \<Rightarrow> string \<Rightarrow> string" where
  "strip_pipe_tag s tag = strip_pipe_tag_from tag [] s"

definition nl3 :: string where "nl3 = [CHR 0x0A, CHR 0x0A, CHR 0x0A]"
definition nl2 :: string where "nl2 = [CHR 0x0A, CHR 0x0A]"

lemma replace_shrinks: "length new < length old \<Longrightarrow> length (replace_all old new s) \<le> length s \<and> (str_contains s old \<longrightarrow> length (replace_all old new s) < length s)"
proof (induction old new s rule: replace_all.induct)
  case (2 old new c s)
  show ?case
  proof (cases "starts_with (c # s) old")
    case True
    then have "length old \<le> length (c # s)" by (metis starts_with_def length_take min_def nat_le_linear)
    then show ?thesis using 2 True by auto
  qed (use 2 in auto)
qed auto

function collapse_from :: "string \<Rightarrow> string" where
  "collapse_from s = (if str_contains s nl3 then collapse_from (replace_all nl3 nl2 s) else s)"
  by pat_completeness auto
termination
  using replace_shrinks [of nl2 nl3] by (relation "measure length") (auto simp: nl2_def nl3_def)

declare collapse_from.simps [simp del]

definition collapse_newlines :: "string \<Rightarrow> string" where
  "collapse_newlines s = trim (collapse_from s)"

definition TOOL_TAGS :: "string list" where
  "TOOL_TAGS = [''tool_call'', ''function_call'', ''tool_calls'']"

definition clean_response :: "regex_tags \<Rightarrow> string \<Rightarrow> string" where
  "clean_response re s =
     (let r1 = (if rt_find re QUICK_TAG_RE s = [] then s
                else let after_thinking = strip_thinking_tags_regex re s (find_code_regions s)
                     in if rt_find re FINAL_TAG_RE after_thinking \<noteq> []
                        then (case extract_final_content re after_thinking (find_code_regions after_thinking) of Some r \<Rightarrow> r | None \<Rightarrow> after_thinking)
                        else after_thinking);
          r2 = strip_pipe_reasoning_tags re r1;
          r3 = foldl (\<lambda>r tag. strip_pipe_tag (strip_xml_tag r tag) tag) r2 TOOL_TAGS
      in collapse_newlines r3)"

section \<open>Recovering tool calls\<close>

definition recover_tags :: "(string \<times> string) list" where
  "recover_tags = [(''<tool_call>'', ''</tool_call>''), (''<|tool_call|>'', ''<|/tool_call|>''),
     (''<function_call>'', ''</function_call>''), (''<|function_call|>'', ''<|/function_call|>'')]"

text \<open>The call written between two tags, if it names an available tool; \<open>n\<close> calls were recovered before it.\<close>

definition recover_inner :: "json_codec \<Rightarrow> (nat \<Rightarrow> string) \<Rightarrow> string list \<Rightarrow> nat \<Rightarrow> string \<Rightarrow> tool_call option" where
  "recover_inner js shw tool_names n inner =
     (if inner = [] then None
      else case Option.bind (json_from_str js inner) (\<lambda>v. Option.bind (json_get v ''name'') (\<lambda>x. Option.bind (as_str x)
                  (\<lambda>name. if name \<in> set tool_names then Some (v, name) else None))) of
             Some (v, name) \<Rightarrow>
               Some \<lparr>tc_id = ''recovered_'' @ shw n, tc_name = name,
                     tc_arguments = json_to_string js (case json_get v ''arguments'' of Some a \<Rightarrow> a | None \<Rightarrow> JObject [])\<rparr>
           | None \<Rightarrow>
               (if trim inner \<in> set tool_names
                then Some \<lparr>tc_id = ''recovered_'' @ shw n, tc_name = trim inner, tc_arguments = json_to_string js (JObject [])\<rparr>
                else None))"

text \<open>The loop over one pair of tags; the guard against two empty tags, which \<open>recover_tags\<close> does not have, is what makes it total.\<close>

function recover_from :: "json_codec \<Rightarrow> (nat \<Rightarrow> string) \<Rightarrow> string list \<Rightarrow> string \<Rightarrow> string \<Rightarrow> tool_call list \<Rightarrow> string \<Rightarrow> tool_call list" where
  "recover_from js shw tool_names opn close calls remaining =
     (case str_find remaining opn of
        None \<Rightarrow> calls
      | Some start \<Rightarrow>
          let after = drop (start + length opn) remaining
          in case str_find after close of
               None \<Rightarrow> calls
             | Some stop \<Rightarrow>
                 if length opn + length close = 0 then calls
                 else recover_from js shw tool_names opn close
                   (calls @ (case recover_inner js shw tool_names (length calls) (trim (take stop after)) of Some tc \<Rightarrow> [tc] | None \<Rightarrow> []))
                   (drop (stop + length close) after))"
  by pat_completeness auto
termination
  by (relation "measure (\<lambda>(js, shw, tn, opn, close, calls, rem). length rem)") (auto simp flip: length_greater_0_conv dest!: str_find_Some)

declare recover_from.simps [simp del]

definition recover_tool_calls_from_content :: "json_codec \<Rightarrow> (nat \<Rightarrow> string) \<Rightarrow> string \<Rightarrow> tool_definition list \<Rightarrow> tool_call list" where
  "recover_tool_calls_from_content js shw content available_tools =
     foldl (\<lambda>calls (opn, close). recover_from js shw (map td_name available_tools) opn close calls content) [] recover_tags"

section \<open>Calling the model\<close>

record tool_completion_request =
  tcr_messages :: "chat_message list"
  tcr_tools :: "tool_definition list"
  tcr_model :: "string option"
  tcr_max_tokens :: "u32 option"
  tcr_temperature :: "u32 option"
  tcr_tool_choice :: "string option"
  tcr_metadata :: "(string, string) hashmap"

record tool_completion_response =
  tcp_content :: "string option"
  tcp_tool_calls :: "tool_call list"
  tcp_input_tokens :: u32
  tcp_output_tokens :: u32
  tcp_finish_reason :: finish_reason

definition new_tool_request :: "chat_message list \<Rightarrow> tool_definition list \<Rightarrow> tool_completion_request" where
  "new_tool_request ms tools = \<lparr>tcr_messages = ms, tcr_tools = tools, tcr_model = None, tcr_max_tokens = None, tcr_temperature = None,
     tcr_tool_choice = None, tcr_metadata = []\<rparr>"

record token_usage =
  tu_input :: u32
  tu_output :: u32

datatype respond_result = TextResult string | CallsResult "tool_call list" "string option"

record respond_output =
  ro_result :: respond_result
  ro_usage :: token_usage

record reasoning_context =
  rc_messages :: "chat_message list"
  rc_tools :: "tool_definition list"
  rc_job_description :: "string option"
  rc_current_state :: "string option"
  rc_metadata :: "(string, string) hashmap"
  rc_force_text :: bool

definition new_context :: reasoning_context where
  "new_context = \<lparr>rc_messages = [], rc_tools = [], rc_job_description = None, rc_current_state = None, rc_metadata = [], rc_force_text = False\<rparr>"

text \<open>The model behind \<open>LlmProvider\<close>, with whatever state it keeps, and what the engine is built from. A temperature is the representation of its \<open>f32\<close>.\<close>

record 'p reasoning =
  rs_complete :: "('p, completion_request, completion_response) provider"
  rs_complete_with_tools :: "('p, tool_completion_request, tool_completion_response) provider"
  rs_tags :: regex_tags
  rs_json :: json_codec
  rs_show :: "nat \<Rightarrow> string"
  rs_prompt :: "reasoning_context \<Rightarrow> string"

definition temperature_07 :: u32 where "temperature_07 = 0x3F333333"

definition fallback_text :: string where
  "fallback_text = ''I'' @ [CHR 0x27] @ ''m not sure how to respond to that.''"

definition final_text :: "'p reasoning \<Rightarrow> string \<Rightarrow> string" where
  "final_text rs content = (let cleaned = clean_response (rs_tags rs) content in if trim cleaned = [] then fallback_text else cleaned)"

definition respond_with_tools :: "'p reasoning \<Rightarrow> reasoning_context \<Rightarrow> 'p \<Rightarrow> (llm_error + respond_output) \<times> 'p" where
  "respond_with_tools rs context p =
     (let messages = system_msg (rs_prompt rs context) # rc_messages context;
          effective_tools = (if rc_force_text context then [] else rc_tools context)
      in if effective_tools \<noteq> []
         then case rs_complete_with_tools rs p
                ((new_tool_request messages effective_tools)\<lparr>tcr_max_tokens := Some 4096, tcr_temperature := Some temperature_07,
                   tcr_tool_choice := Some ''auto'', tcr_metadata := rc_metadata context\<rparr>) of
                (Inl e, p') \<Rightarrow> (Inl e, p')
              | (Inr r, p') \<Rightarrow>
                  let usage = \<lparr>tu_input = tcp_input_tokens r, tu_output = tcp_output_tokens r\<rparr>
                  in if tcp_tool_calls r \<noteq> []
                     then (Inr \<lparr>ro_result = CallsResult (tcp_tool_calls r) (map_option (clean_response (rs_tags rs)) (tcp_content r)), ro_usage = usage\<rparr>, p')
                     else let content = (case tcp_content r of Some c \<Rightarrow> c | None \<Rightarrow> fallback_text);
                              recovered = recover_tool_calls_from_content (rs_json rs) (rs_show rs) content (rc_tools context)
                          in if recovered \<noteq> []
                             then let cleaned = clean_response (rs_tags rs) content
                                  in (Inr \<lparr>ro_result = CallsResult recovered (if cleaned = [] then None else Some cleaned), ro_usage = usage\<rparr>, p')
                             else (Inr \<lparr>ro_result = TextResult (final_text rs content), ro_usage = usage\<rparr>, p')
         else case rs_complete rs p
                ((new_request messages)\<lparr>max_tokens := Some 4096, temperature := Some temperature_07, req_metadata := rc_metadata context\<rparr>) of
                (Inl e, p') \<Rightarrow> (Inl e, p')
              | (Inr r, p') \<Rightarrow>
                  (Inr \<lparr>ro_result = TextResult (final_text rs (resp_content r)),
                        ro_usage = \<lparr>tu_input = input_tokens r, tu_output = output_tokens r\<rparr>\<rparr>, p'))"

definition respond :: "'p reasoning \<Rightarrow> reasoning_context \<Rightarrow> 'p \<Rightarrow> (llm_error + string) \<times> 'p" where
  "respond rs context p =
     (case respond_with_tools rs context p of
        (Inl e, p') \<Rightarrow> (Inl e, p')
      | (Inr out, p') \<Rightarrow>
          (case ro_result out of
             TextResult s \<Rightarrow> (Inr s, p')
           | CallsResult calls _ \<Rightarrow>
               (Inr (''[Calling tools: '' @ join_with '', '' (map (\<lambda>tc. [CHR 0x60] @ tc_name tc @ ''('' @ tc_arguments tc @ '')'' @ [CHR 0x60]) calls) @ '']''), p')))"

definition complete_clean :: "'p reasoning \<Rightarrow> completion_request \<Rightarrow> 'p \<Rightarrow> (llm_error + string \<times> token_usage) \<times> 'p" where
  "complete_clean rs req p =
     (case rs_complete rs p req of
        (Inl e, p') \<Rightarrow> (Inl e, p')
      | (Inr r, p') \<Rightarrow> (Inr (clean_response (rs_tags rs) (resp_content r), \<lparr>tu_input = input_tokens r, tu_output = output_tokens r\<rparr>), p'))"

record tool_selection =
  ts_tool_name :: string
  ts_parameters :: json
  ts_reasoning :: string
  ts_alternatives :: "string list"
  ts_tool_call_id :: string

definition select_tools :: "'p reasoning \<Rightarrow> reasoning_context \<Rightarrow> 'p \<Rightarrow> (llm_error + tool_selection list) \<times> 'p" where
  "select_tools rs context p =
     (if rc_tools context = [] then (Inr [], p)
      else case rs_complete_with_tools rs p
             ((new_tool_request (rc_messages context) (rc_tools context))\<lparr>tcr_max_tokens := Some 1024, tcr_tool_choice := Some ''auto'',
                tcr_metadata := rc_metadata context\<rparr>) of
             (Inl e, p') \<Rightarrow> (Inl e, p')
           | (Inr r, p') \<Rightarrow>
               let reasoning = (case tcp_content r of Some c \<Rightarrow> c | None \<Rightarrow> [])
               in (Inr (map (\<lambda>tc. \<lparr>ts_tool_name = tc_name tc, ts_parameters = tc_arguments tc, ts_reasoning = reasoning, ts_alternatives = [],
                                   ts_tool_call_id = tc_id tc\<rparr>) (tcp_tool_calls r)), p'))"

definition select_tool :: "'p reasoning \<Rightarrow> reasoning_context \<Rightarrow> 'p \<Rightarrow> (llm_error + tool_selection option) \<times> 'p" where
  "select_tool rs context p =
     (case select_tools rs context p of
        (Inl e, p') \<Rightarrow> (Inl e, p')
      | (Inr ts, p') \<Rightarrow> (Inr (case ts of [] \<Rightarrow> None | t # _ \<Rightarrow> Some t), p'))"

section \<open>Values from matter files in the prompt\<close>

definition is_ctrl_char :: "char \<Rightarrow> bool" where
  "is_ctrl_char c \<longleftrightarrow> (let n = of_char c :: nat in n < 32 \<or> n = 127)"

fun legal_value_loop :: "nat \<Rightarrow> bool \<Rightarrow> bool \<Rightarrow> nat \<Rightarrow> string \<Rightarrow> string" where
  "legal_value_loop max_chars seen pend cnt [] = []"
| "legal_value_loop max_chars seen pend cnt (ch # cs) =
     (if is_ctrl_char ch \<and> ch \<notin> {CHR 0x0A, CHR 0x0D, CHR 0x09} then legal_value_loop max_chars seen pend cnt cs
      else let normalized = (if is_ctrl_char ch then CHR '' '' else ch)
           in if is_ws normalized then legal_value_loop max_chars seen (seen \<or> pend) cnt cs
              else if pend
              then (if cnt \<ge> max_chars then []
                    else if cnt + 1 \<ge> max_chars then [CHR '' '']
                    else CHR '' '' # normalized # legal_value_loop max_chars True False (cnt + 2) cs)
              else if cnt \<ge> max_chars then []
              else normalized # legal_value_loop max_chars True False (cnt + 1) cs)"

definition sanitize_legal_context_value :: "string \<Rightarrow> nat \<Rightarrow> string" where
  "sanitize_legal_context_value value max_chars = (if max_chars = 0 then [] else legal_value_loop max_chars False False 0 value)"

definition quote_legal_context_value :: "json_codec \<Rightarrow> string \<Rightarrow> nat \<Rightarrow> string" where
  "quote_legal_context_value js value max_chars = json_to_string js (JString (sanitize_legal_context_value value max_chars))"

text \<open>The first opening and the last closing brace.\<close>

definition extract_json :: "string \<Rightarrow> string option" where
  "extract_json s =
     Option.bind (str_find s ''{'') (\<lambda>start. Option.bind (map_option (\<lambda>k. length s - 1 - k) (str_find (rev s) ''}''))
       (\<lambda>stop. if start < stop then Some (text_slice s start (stop + 1)) else None))"

section \<open>Values are one bounded line\<close>

fun tail_text :: "string \<Rightarrow> string" where
  "tail_text [] = []"
| "tail_text (c # s) =
     (if is_ws c then (if split_whitespace s = [] then [] else CHR '' '' # join_with '' '' (split_whitespace s)) else c # tail_text s)"

lemma join_nonempty_words: "\<forall>w \<in> set ws. w \<noteq> [] \<Longrightarrow> join_with '' '' ws = [] \<longleftrightarrow> ws = []"
  by (induction "'' ''" ws rule: join_with.induct) auto

lemma split_ws_nonempty: "w \<in> set (split_ws_aux acc s) \<Longrightarrow> w \<noteq> []"
  by (induction s arbitrary: acc) (auto split: if_splits)

lemma join_split_acc: "acc \<noteq> [] \<Longrightarrow> join_with '' '' (split_ws_aux acc s) = rev acc @ tail_text s"
proof (induction s arbitrary: acc)
  case (Cons c s)
  then show ?case by (cases "split_ws_aux [] s") (auto simp: split_whitespace_def)
qed simp

definition kept_char :: "char \<Rightarrow> bool" where
  "kept_char c \<longleftrightarrow> \<not> is_ctrl_char c \<or> c \<in> {CHR 0x0A, CHR 0x0D, CHR 0x09}"

definition words_line :: "string \<Rightarrow> string" where
  "words_line s = join_with '' '' (split_whitespace s)"

lemma words_line_Cons: "words_line (c # s) = (if is_ws c then words_line s else c # tail_text s)"
  using join_split_acc [of "[c]" s] by (simp add: words_line_def split_whitespace_def)

lemma tail_text_line: "tail_text (c # s) = (if is_ws c then (if words_line s = [] then [] else CHR '' '' # words_line s) else c # tail_text s)"
proof -
  have "words_line s = [] \<longleftrightarrow> split_whitespace s = []"
    unfolding words_line_def by (rule join_nonempty_words) (auto simp: split_whitespace_def dest: split_ws_nonempty)
  then show ?thesis by (simp add: words_line_def)
qed

lemma control_ws: "kept_char c \<Longrightarrow> is_ws (if is_ctrl_char c then CHR '' '' else c) = is_ws c \<and> (\<not> is_ws c \<longrightarrow> \<not> is_ctrl_char c)"
  by (auto simp: kept_char_def is_ctrl_char_def is_ws_def Let_def)

lemma legal_value_step:
  "legal_value_loop m seen pend n (c # cs) =
     (if \<not> kept_char c then legal_value_loop m seen pend n cs
      else if is_ws c then legal_value_loop m seen (seen \<or> pend) n cs
      else if pend then (if m \<le> n then [] else if m \<le> n + 1 then [CHR '' ''] else CHR '' '' # c # legal_value_loop m True False (n + 2) cs)
      else if m \<le> n then [] else c # legal_value_loop m True False (n + 1) cs)"
  using control_ws [of c] by (auto simp: kept_char_def Let_def)

lemma legal_value_line:
  "legal_value_loop m False False n cs = take (m - n) (words_line (filter kept_char cs))"
  "legal_value_loop m True False n cs = take (m - n) (tail_text (filter kept_char cs))"
  "legal_value_loop m True True n cs = take (m - n) (if words_line (filter kept_char cs) = [] then [] else CHR '' '' # words_line (filter kept_char cs))"
proof (induction cs arbitrary: n)
  case (Cons c cs)
  have less: "\<not> m \<le> k \<Longrightarrow> m - k = Suc (m - Suc k)" for k by arith
  {
    case 1
    then show ?case using Cons less by (auto simp: legal_value_step words_line_Cons simp del: legal_value_loop.simps)
  next
    case 2
    then show ?case using Cons less by (auto simp: legal_value_step tail_text_line simp del: legal_value_loop.simps tail_text.simps)
  next
    case 3
    then show ?case using Cons less [of n] less [of "Suc n"] by (auto simp: legal_value_step words_line_Cons simp del: legal_value_loop.simps)
  }
qed (auto simp: words_line_def split_whitespace_def)

text \<open>C25: What a matter file contributes to the prompt is one bounded line. \<open>sanitize_legal_context_value\<close>, a one-pass loop over characters, gives
  exactly the words of the value without its control characters, joined by single spaces and cut after \<open>max_chars\<close> characters: no line
  break and no control character reaches the prompt, however the value is written.
\<close>

theorem legal_value_one_line:
  "sanitize_legal_context_value value max_chars = take max_chars (join_with '' '' (split_whitespace (filter kept_char value)))
   \<and> length (sanitize_legal_context_value value max_chars) \<le> max_chars
   \<and> list_all (\<lambda>c. \<not> is_ctrl_char c) (sanitize_legal_context_value value max_chars)"
proof -
  have eq: "sanitize_legal_context_value value max_chars = take max_chars (words_line (filter kept_char value))"
    using legal_value_line(1) [of max_chars 0 "value"] by (simp add: sanitize_legal_context_value_def)
  have "c \<in> set (tail_text (filter kept_char cs)) \<union> set (words_line (filter kept_char cs)) \<Longrightarrow> \<not> is_ctrl_char c" for c cs
  proof (induction cs)
    case Nil
    then show ?case by (simp add: words_line_def split_whitespace_def)
  next
    case (Cons x cs)
    then show ?case using control_ws [of x] by (cases "kept_char x") (auto simp: words_line_Cons tail_text_line is_ctrl_char_def simp del: tail_text.simps split: if_splits)
  qed
  then show ?thesis by (auto simp: eq words_line_def list_all_iff dest: in_set_takeD)
qed

section \<open>Code regions are ranges of the text\<close>

definition region_ok :: "string \<Rightarrow> nat \<times> nat \<Rightarrow> bool" where
  "region_ok s r \<longleftrightarrow> fst r < snd r \<and> snd r \<le> length s"

lemma region_okI: "a < b \<Longrightarrow> b \<le> length s \<Longrightarrow> region_ok s (a, b)"
  by (simp add: region_ok_def)

lemma fences_ok: "list_all (region_ok s) (fences s i)"
proof (induction s i rule: fences.induct)
  case (1 s i)
  define j where "j = skip_while is_blank s i"
  define k where "k = skip_while ((=) (s ! j)) s j"
  have "i \<le> k" using skip_while_ge [of i is_blank s] skip_while_ge [of j "(=) (s ! j)" s] by (simp add: j_def k_def)
  then have ok: "region_ok s (i, e)" if "after_nl s k = Some m" "close_fence s (s ! j) (k - j) m = Some e" for m e
    using after_nl_le [OF that(1)] close_fence_le [OF that(2)] by (intro region_okI) auto
  have whole: "region_ok s (i, length s)" if "i < length s" using that by (intro region_okI) auto
  consider "length s \<le> i" | "i < length s" "0 < i \<and> s ! (i - 1) \<noteq> CHR 0x0A" | "i < length s" "\<not> (0 < i \<and> s ! (i - 1) \<noteq> CHR 0x0A)" by linarith
  then show ?case
  proof cases
    case 3
    have eq: "fences s i =
       (if \<not> (j < length s \<and> (s ! j = CHR 0x60 \<or> s ! j = CHR ''~'')) then (case after_nl s j of Some i' \<Rightarrow> fences s i' | None \<Rightarrow> [])
        else if k - j < 3 then (case after_nl s k of Some i' \<Rightarrow> fences s i' | None \<Rightarrow> [])
        else case after_nl s k of None \<Rightarrow> [(i, length s)]
          | Some m \<Rightarrow> (case close_fence s (s ! j) (k - j) m of Some e \<Rightarrow> (i, e) # fences s e | None \<Rightarrow> [(i, length s)]))"
      using 3 by (subst fences.simps) (simp only: Let_def k_def j_def not_le [symmetric] if_False simp_thms)
    show ?thesis using 3 1(2-4) ok whole unfolding eq by (simp add: not_le flip: j_def k_def split: option.splits)
  qed (use 1(1) in \<open>subst fences.simps, simp split: option.splits\<close>)+
qed

lemma inline_ok: "list_all (region_ok s) regions \<Longrightarrow> list_all (region_ok s) (inline_spans s regions j)"
proof (induction s regions j rule: inline_spans.induct)
  case (1 s regions j)
  define k where "k = skip_while ((=) (CHR 0x60)) s j"
  have "j \<le> k" unfolding k_def by (rule skip_while_ge)
  then have ok: "region_ok s (j, e)" if "close_run s (k - j) k = Some e" for e using close_run_le [OF that] by (intro region_okI) auto
  show ?case using 1 ok by (subst inline_spans.simps) (simp add: Let_def flip: k_def split: option.splits)
qed

lemma fences_none: "CHR 0x60 \<notin> set s \<Longrightarrow> CHR ''~'' \<notin> set s \<Longrightarrow> fences s i = []"
proof (induction s i rule: fences.induct)
  case (1 s i)
  have "j < length s \<Longrightarrow> s ! j \<noteq> CHR 0x60 \<and> s ! j \<noteq> CHR ''~''" for j using 1(5,6) nth_mem [of j s] by metis
  then have no: "\<not> (j < length s \<and> (s ! j = CHR 0x60 \<or> s ! j = CHR ''~''))" for j by blast
  show ?case using 1(1,2,5,6) by (subst fences.simps) (simp only: no Let_def simp_thms if_True if_False, simp split: option.splits)
qed

lemma inline_none: "CHR 0x60 \<notin> set s \<Longrightarrow> inline_spans s regions j = regions"
proof (induction s regions j rule: inline_spans.induct)
  case (1 s regions j)
  then have "j < length s \<Longrightarrow> s ! j \<noteq> CHR 0x60" using nth_mem [of j s] by metis
  then show ?case using 1(1,5) by (subst inline_spans.simps) simp
qed

text \<open>The scan for code regions ends on every text and its regions are ranges of that text: each begins before it ends and ends within the text,
  they come in the order of their beginnings, and a text without backticks and tildes has none.
\<close>

theorem code_regions_within:
  "list_all (region_ok s) (find_code_regions s) \<and> sorted (map fst (find_code_regions s))
   \<and> (find_code_regions s = [] \<or> CHR 0x60 \<in> set s \<or> CHR ''~'' \<in> set s)"
proof -
  have "list_all (region_ok s) (inline_spans s (fences s 0) 0)" by (rule inline_ok [OF fences_ok])
  moreover have "find_code_regions s = []" if "CHR 0x60 \<notin> set s" "CHR ''~'' \<notin> set s"
    using that by (simp add: find_code_regions_def inline_none fences_none)
  ultimately show ?thesis by (auto simp: find_code_regions_def list_all_iff)
qed

section \<open>What the stripping keeps\<close>

text \<open>\<open>visible open ms i\<close>: the last tag that begins at or before \<open>i\<close> ends at or before it and closes; without such a tag, the text began outside a block.\<close>

definition visible :: "bool \<Rightarrow> (nat \<times> nat \<times> bool) list \<Rightarrow> nat \<Rightarrow> bool" where
  "visible in_tag ms i \<longleftrightarrow>
     (let before = filter (\<lambda>(a, b, c). a \<le> i) ms
      in if before = [] then \<not> in_tag else case last before of (a, b, is_close) \<Rightarrow> b \<le> i \<and> is_close)"

definition tags_ordered :: "nat \<Rightarrow> nat \<Rightarrow> (nat \<times> nat \<times> bool) list \<Rightarrow> bool" where
  "tags_ordered l n ms \<longleftrightarrow> sorted_wrt (\<lambda>(a, b, c) (a', b', c'). b \<le> a') ms \<and> (\<forall>(a, b, c) \<in> set ms. l \<le> a \<and> a \<le> b \<and> b \<le> n)"

lemma tags_ordered_Cons: "tags_ordered l n ((a, b, c) # ms) \<longleftrightarrow> l \<le> a \<and> a \<le> b \<and> b \<le> n \<and> tags_ordered b n ms"
  by (auto simp: tags_ordered_def split: prod.splits)

lemma visible_Cons:
  assumes "tags_ordered l n ((a, b, c) # ms)"
  shows "visible in_tag ((a, b, c) # ms) i \<longleftrightarrow> (if i < a then \<not> in_tag else b \<le> i \<and> visible (\<not> c) ms i)"
proof -
  have later: "\<forall>(a', b', c') \<in> set ms. b \<le> a' \<and> a' \<le> b'" "a \<le> b" using assms by (auto simp: tags_ordered_Cons tags_ordered_def)
  let ?f = "filter (\<lambda>(a, b, c). a \<le> i) ms"
  have none: "i < a \<Longrightarrow> ?f = []" using later by (force simp: filter_empty_conv)
  have some: "b \<le> i" if "?f \<noteq> []" using that later by (force simp: filter_empty_conv)
  show ?thesis using none some by (cases "?f = []") (auto simp: visible_def Let_def split: prod.splits)
qed

lemma strip_visible: "tags_ordered l (length s) ms \<Longrightarrow> strip_between s l in_tag ms = nths s {i. l \<le> i \<and> visible in_tag ms i}"
proof (induction ms arbitrary: l in_tag)
  case Nil
  have "visible in_tag [] i = (\<not> in_tag)" for i by (simp add: visible_def)
  then show ?case using nths_drop_from [of s l] by (cases in_tag) auto
next
  case (Cons m ms)
  obtain a b c where m: "m = (a, b, c)" by (cases m)
  have le: "l \<le> a" "a \<le> b" "tags_ordered b (length s) ms" using Cons.prems by (auto simp: m tags_ordered_Cons)
  have "nths s {i. l \<le> i \<and> visible in_tag (m # ms) i} =
      nths s {i. l \<le> i \<and> i < a \<and> \<not> in_tag} @ nths s {i. b \<le> i \<and> visible (\<not> c) ms i}"
  proof (rule nths_two)
    show "{i. l \<le> i \<and> visible in_tag (m # ms) i} = {i. l \<le> i \<and> i < a \<and> \<not> in_tag} \<union> {i. b \<le> i \<and> visible (\<not> c) ms i}"
      using visible_Cons [OF Cons.prems [unfolded m]] le by (auto simp: m)
    show "\<forall>i \<in> {i. l \<le> i \<and> i < a \<and> \<not> in_tag}. i < b" using le by auto
  qed auto
  moreover have "text_slice s l a = nths s {i. l \<le> i \<and> i < a}" by (simp add: nths_segment text_slice_def)
  ultimately show ?case using Cons.IH [OF le(3), of "\<not> c"] by (cases in_tag; cases c) (simp_all add: m)
qed

text \<open>What the cleaning of thinking tags keeps is exactly what lies outside them. With the matches of the expression in order and within the text,
  the output is the text at the positions whose last tag before them, not counting tags in code regions, is a complete closing one, or that no
  tag precedes: an unclosed block hides all that follows, and a tag quoted in code neither hides anything nor is removed.
\<close>

theorem thinking_stripped_exact:
  assumes "sorted_wrt (\<lambda>(a, b) (a', b'). b \<le> a') (rt_find re THINKING_TAG_RE s)"
    and "list_all (\<lambda>(a, b). a \<le> b \<and> b \<le> length s) (rt_find re THINKING_TAG_RE s)"
  shows "strip_thinking_tags_regex re s regions = nths s {i. visible False (tags_outside re THINKING_TAG_RE s regions) i}"
proof -
  have "sorted_wrt (\<lambda>(a, b) (a', b'). b \<le> a') (filter (\<lambda>(a, b). \<not> is_inside_code a regions) (rt_find re THINKING_TAG_RE s))"
    using assms(1) by (rule sorted_wrt_filter)
  then have "tags_ordered 0 (length s) (tags_outside re THINKING_TAG_RE s regions)"
    using assms(2) by (auto simp: tags_ordered_def tags_outside_def sorted_wrt_map list_all_iff case_prod_unfold)
  then show ?thesis unfolding strip_thinking_tags_regex_def by (simp add: strip_visible)
qed

definition think_tags :: regex_tags where
  "think_tags = \<lparr>rt_find = (\<lambda>r s. if r = THINKING_TAG_RE then map (\<lambda>(k, a, b). (a, b)) (ac_find [''<think>'', ''</think>''] s) else []),
     rt_closes = (\<lambda>r s. starts_with s ''</'')\<rparr>"

theorem thinking_stripped_exact_witness:
  "strip_thinking_tags_regex think_tags ''a<think>b</think>c'' [] = ''ac''"
proof -
  have "sorted_wrt (\<lambda>(a, b) (a', b'). b \<le> a') (rt_find think_tags THINKING_TAG_RE ''a<think>b</think>c'')" by code_simp
  moreover have "list_all (\<lambda>(a, b). a \<le> b \<and> b \<le> length ''a<think>b</think>c'') (rt_find think_tags THINKING_TAG_RE ''a<think>b</think>c'')" by code_simp
  ultimately have "strip_thinking_tags_regex think_tags ''a<think>b</think>c'' [] =
      nths ''a<think>b</think>c'' {i. visible False (tags_outside think_tags THINKING_TAG_RE ''a<think>b</think>c'' []) i}"
    by (rule thinking_stripped_exact)
  also have "\<dots> = map fst (filter (\<lambda>p. visible False (tags_outside think_tags THINKING_TAG_RE ''a<think>b</think>c'' []) (snd p))
      (zip ''a<think>b</think>c'' [0..<length ''a<think>b</think>c'']))"
    unfolding nths_def by (simp only: mem_Collect_eq)
  also have "\<dots> = ''ac''" by code_simp
  finally show ?thesis .
qed

section \<open>What a call of the model can return\<close>

definition recovered_ok :: "(nat \<Rightarrow> string) \<Rightarrow> string list \<Rightarrow> tool_call list \<Rightarrow> bool" where
  "recovered_ok shw names calls \<longleftrightarrow> set (map tc_name calls) \<subseteq> set names
     \<and> map tc_id calls = map (\<lambda>i. ''recovered_'' @ shw i) [0..<length calls]"

lemma recover_inner_ok: "recover_inner js shw names n inner = Some tc \<Longrightarrow> tc_name tc \<in> set names \<and> tc_id tc = ''recovered_'' @ shw n"
  by (auto simp: recover_inner_def split: if_splits option.splits bind_splits)

lemma recover_from_ok: "recovered_ok shw names calls \<Longrightarrow> recovered_ok shw names (recover_from js shw names opn close calls remaining)"
proof (induction js shw names opn close calls remaining rule: recover_from.induct)
  case (1 js shw names opn close calls remaining)
  have "recovered_ok shw names (calls @ (case recover_inner js shw names (length calls) inner of Some tc \<Rightarrow> [tc] | None \<Rightarrow> []))" for inner
    using 1(2) recover_inner_ok [of js shw names "length calls" inner] by (auto simp: recovered_ok_def split: option.splits)
  then show ?case using 1 by (subst recover_from.simps) (simp add: Let_def split: option.splits)
qed

lemma recovered_calls: "recovered_ok shw (map td_name tools) (recover_tool_calls_from_content js shw content tools)"
proof -
  have "recovered_ok shw names calls \<Longrightarrow>
      recovered_ok shw names (foldl (\<lambda>calls (opn, close). recover_from js shw names opn close calls content) calls ts)" for names calls ts
    by (induction ts arbitrary: calls) (auto intro: recover_from_ok)
  moreover have "recovered_ok shw (map td_name tools) []" by (simp add: recovered_ok_def)
  ultimately show ?thesis unfolding recover_tool_calls_from_content_def by blast
qed

lemma recovered_distinct: "recovered_ok shw names calls \<Longrightarrow> inj shw \<Longrightarrow> distinct (map tc_id calls)"
  by (auto simp: recovered_ok_def distinct_map inj_on_def dest: injD)

lemma fallback_shown: "trim fallback_text \<noteq> []"
  by code_simp

lemma final_text_shown: "trim (final_text rs content) \<noteq> []"
  using fallback_shown by (simp add: final_text_def Let_def)

lemma forced_text:
  assumes "respond_with_tools rs context p = (Inr out, p')" and "rc_force_text context \<or> rc_tools context = []"
  obtains s where "ro_result out = TextResult s"
  using assms by (auto simp: respond_with_tools_def Let_def split: prod.splits sum.splits if_splits)

lemma respond_text: "respond_with_tools rs context p = (Inr out, p') \<Longrightarrow> ro_result out = TextResult s \<Longrightarrow> trim s \<noteq> []"
  by (auto simp: respond_with_tools_def Let_def final_text_shown split: prod.splits sum.splits if_splits)

lemma respond_calls:
  assumes "respond_with_tools rs context p = (Inr out, p')" and "ro_result out = CallsResult calls content"
  shows "calls \<noteq> [] \<and> rc_tools context \<noteq> [] \<and> \<not> rc_force_text context
    \<and> ((\<exists>req r. tcr_tools req = rc_tools context \<and> rs_complete_with_tools rs p req = (Inr r, p') \<and> calls = tcp_tool_calls r)
       \<or> (\<exists>c. calls = recover_tool_calls_from_content (rs_json rs) (rs_show rs) c (rc_tools context)))"
proof -
  define req where "req = new_tool_request (system_msg (rs_prompt rs context) # rc_messages context) (rc_tools context)
    \<lparr>tcr_max_tokens := Some 4096, tcr_temperature := Some temperature_07, tcr_tool_choice := Some ''auto'', tcr_metadata := rc_metadata context\<rparr>"
  have "tcr_tools req = rc_tools context" by (simp add: req_def new_tool_request_def)
  moreover have "\<not> rc_force_text context" "rc_tools context \<noteq> []" using forced_text [OF assms(1)] assms(2) by auto
  ultimately show ?thesis using assms
    by (auto simp: respond_with_tools_def Let_def simp flip: req_def split: prod.splits sum.splits if_splits)
qed

text \<open>What one call of the model returns. A text is never blank. Tool calls come back only when tools were offered and text was not forced, and
  there is at least one; they are the calls the provider reported, or calls recovered from the text, and then each names a tool that was
  offered and the ids are distinct, as long as numbers print differently. With text forced or no tool offered, the model is never asked for
  tool calls and the answer is a text.
\<close>

theorem respond_outcome:
  assumes "respond_with_tools rs context p = (Inr out, p')" and "inj (rs_show rs)"
  shows "case ro_result out of
      TextResult s \<Rightarrow> trim s \<noteq> []
    | CallsResult calls content \<Rightarrow> calls \<noteq> [] \<and> rc_tools context \<noteq> [] \<and> \<not> rc_force_text context
        \<and> ((\<exists>req r. tcr_tools req = rc_tools context \<and> rs_complete_with_tools rs p req = (Inr r, p') \<and> calls = tcp_tool_calls r)
           \<or> set (map tc_name calls) \<subseteq> set (map td_name (rc_tools context)) \<and> distinct (map tc_id calls))"
proof (cases "ro_result out")
  case (TextResult s)
  then show ?thesis using respond_text [OF assms(1)] by simp
next
  case (CallsResult calls content)
  have "set (map tc_name calls) \<subseteq> set (map td_name (rc_tools context)) \<and> distinct (map tc_id calls)"
    if "calls = recover_tool_calls_from_content (rs_json rs) (rs_show rs) c (rc_tools context)" for c
    using recovered_calls [of "rs_show rs" "rc_tools context" "rs_json rs" c, folded that] recovered_distinct [OF _ assms(2)]
    unfolding recovered_ok_def by blast
  then show ?thesis using respond_calls [OF assms(1) CallsResult] unfolding CallsResult respond_result.case by blast
qed

definition echo_model :: "unit reasoning" where
  "echo_model = \<lparr>rs_complete = (\<lambda>p r. (Inr \<lparr>resp_content = ''done'', input_tokens = 1, output_tokens = 1, resp_finish_reason = Stop\<rparr>, p)),
     rs_complete_with_tools = (\<lambda>p r. (Inr \<lparr>tcp_content = Some ''<tool_call>echo</tool_call>'', tcp_tool_calls = [], tcp_input_tokens = 1,
        tcp_output_tokens = 1, tcp_finish_reason = Stop\<rparr>, p)),
     rs_tags = \<lparr>rt_find = (\<lambda>_ _. []), rt_closes = (\<lambda>_ _. False)\<rparr>, rs_json = \<lparr>json_from_str = (\<lambda>_. None), json_to_string = (\<lambda>_. ''{}'')\<rparr>,
     rs_show = (\<lambda>n. replicate n (CHR ''1'')), rs_prompt = (\<lambda>_. ''system'')\<rparr>"

definition echo_tool :: tool_definition where
  "echo_tool = \<lparr>td_name = ''echo'', td_description = '''', td_parameters = JNull\<rparr>"

lemma echo_recovers:
  "respond_with_tools echo_model (new_context\<lparr>rc_tools := [echo_tool]\<rparr>) () =
     (Inr \<lparr>ro_result = CallsResult [\<lparr>tc_id = ''recovered_'', tc_name = ''echo'', tc_arguments = ''{}''\<rparr>] None, ro_usage = \<lparr>tu_input = 1, tu_output = 1\<rparr>\<rparr>, ())"
  by code_simp

theorem respond_outcome_witness:
  "\<exists>out. respond_with_tools echo_model (new_context\<lparr>rc_tools := [echo_tool]\<rparr>) () = (Inr out, ())
     \<and> (\<exists>calls. ro_result out = CallsResult calls None \<and> calls \<noteq> [])"
proof -
  have "inj (rs_show echo_model)" by (auto simp: echo_model_def inj_def dest: arg_cong [of _ _ length])
  from respond_outcome [OF echo_recovers this] show ?thesis unfolding echo_recovers by auto
qed

lemma str_find_first: "CHR ''<'' \<notin> set pre \<Longrightarrow> str_find (pre @ ''<'' @ rest) (CHR ''<'' # p) = map_option ((+) (length pre)) (str_find (''<'' @ rest) (CHR ''<'' # p))"
  by (induction pre) (auto simp: starts_with_def option.map_comp comp_def)

lemma str_find_absent: "c \<notin> set s \<Longrightarrow> c \<in> set p \<Longrightarrow> str_find s p = None"
proof (induction s)
  case (Cons x s)
  then have "x # s \<noteq> p @ t" for t by (metis Un_iff set_ConsD set_append)
  then show ?case using Cons by (auto simp: starts_with_append)
qed auto

text \<open>A tool tag that is opened and never finished repeats the answer instead of being dropped: when the answer ends in an opening tool tag with
  attributes but no closing angle bracket, everything before the tag is sent twice, followed by the broken tag itself.
\<close>

theorem malformed_tag_repeats_answer:
  assumes "CHR ''<'' \<notin> set pre" and "CHR ''>'' \<notin> set attrs" and "CHR ''>'' \<notin> set pre"
  shows "strip_xml_tag (pre @ ''<tool_call '' @ attrs) ''tool_call'' = pre @ pre @ ''<tool_call '' @ attrs"
proof -
  have "str_find (pre @ ''<tool_call '' @ attrs) ''<tool_call>'' = None" using assms by (intro str_find_absent [of "CHR ''>''"]) auto
  moreover have "str_find (pre @ ''<tool_call '' @ attrs) ''<tool_call '' = Some (length pre)"
    using str_find_first [OF assms(1), of "''tool_call '' @ attrs" "''tool_call ''"] by (simp add: starts_with_def)
  moreover have "str_find (''<tool_call '' @ attrs) ''>'' = None" using assms by (intro str_find_absent [of "CHR ''>''"]) auto
  ultimately show ?thesis unfolding strip_xml_tag_def by (subst strip_xml_tag_from.simps) (simp add: Let_def)
qed

theorem malformed_tag_repeats_answer_witness:
  "strip_xml_tag ''Filed. <tool_call name'' ''tool_call'' = ''Filed. Filed. <tool_call name''"
  using malformed_tag_repeats_answer [of "''Filed. ''" "''name''"] by simp

end
