(* ===== verification/Conversations.thy ===== *)
theory Conversations
  imports Tool_Types "HOL-Library.Product_Lexorder" "HOL-Library.AList" "HOL-Library.Sublist"
begin

text \<open>
  The store of conversations (\<open>src/db/libsql/conversations.rs\<close>): the tables \<open>conversations\<close> and \<open>conversation_messages\<close> as lists in the order of their
  rows, and every operation of the store. Times are texts in the database and are compared as texts: the code writes RFC 3339 with
  milliseconds, while a column left to its default holds \<open>datetime('now')\<close> with a blank between date and time. A \<open>stamp\<close> keeps the
  format and the milliseconds since the epoch, and \<open>stamp_key\<close> is the order of the texts. Foreign keys are not enforced by the connection.
\<close>

section \<open>Time stamps\<close>

datatype stamp = SqlDefault nat | Rfc3339 nat

definition day_ms :: nat where "day_ms = 86400000"

text \<open>The date, then the character after it (a blank is smaller than a \<open>T\<close>), then the time; the default has whole seconds.\<close>

definition stamp_key :: "stamp \<Rightarrow> nat \<times> nat \<times> nat" where
  "stamp_key s = (case s of SqlDefault t \<Rightarrow> (t div day_ms, 0, t div 1000) | Rfc3339 t \<Rightarrow> (t div day_ms, 1, t))"

definition fmt_ts :: "nat \<Rightarrow> stamp" where "fmt_ts t = Rfc3339 t"

section \<open>Tables\<close>

record conversation_row =
  cv_id :: uuid
  cv_channel :: string
  cv_user :: string
  cv_thread :: "string option"
  cv_matter :: "string option"
  cv_started_at :: stamp
  cv_last_activity :: stamp
  cv_metadata :: json_value

record message_row =
  cm_id :: uuid
  cm_conversation :: uuid
  cm_role :: string
  cm_content :: string
  cm_created_at :: nat

record conversation_db =
  conversations :: "conversation_row list"
  conversation_messages :: "message_row list"

text \<open>\<open>ConvConstraint i m\<close> says that conversation \<open>i\<close> is already bound to matter \<open>m\<close>.\<close>

datatype conv_error = ConvQuery string | ConvNotFound uuid | ConvConstraint uuid string

section \<open>Operations\<close>

text \<open>An insert fails when the key exists.\<close>

definition insert_conversation :: "conversation_row \<Rightarrow> conversation_db \<Rightarrow> (conv_error + uuid) \<times> conversation_db" where
  "insert_conversation r db =
     (if cv_id r \<in> set (map cv_id (conversations db)) then (Inl (ConvQuery ''UNIQUE constraint failed: conversations.id''), db)
      else (Inr (cv_id r), db\<lparr>conversations := conversations db @ [r]\<rparr>))"

definition new_row :: "nat \<Rightarrow> uuid \<Rightarrow> string \<Rightarrow> string \<Rightarrow> string option \<Rightarrow> json_value \<Rightarrow> conversation_row" where
  "new_row now i channel user thread meta =
     \<lparr>cv_id = i, cv_channel = channel, cv_user = user, cv_thread = thread, cv_matter = None, cv_started_at = SqlDefault now,
      cv_last_activity = SqlDefault now, cv_metadata = meta\<rparr>"

definition create_conversation :: "nat \<Rightarrow> uuid \<Rightarrow> string \<Rightarrow> string \<Rightarrow> string option \<Rightarrow> conversation_db \<Rightarrow> (conv_error + uuid) \<times> conversation_db" where
  "create_conversation now i channel user thread db = insert_conversation (new_row now i channel user thread (JObject [])) db"

definition create_conversation_with_metadata :: "nat \<Rightarrow> uuid \<Rightarrow> string \<Rightarrow> string \<Rightarrow> json_value \<Rightarrow> conversation_db \<Rightarrow> (conv_error + uuid) \<times> conversation_db" where
  "create_conversation_with_metadata now i channel user meta db = insert_conversation (new_row now i channel user None meta) db"

definition touch_conversation :: "nat \<Rightarrow> uuid \<Rightarrow> conversation_db \<Rightarrow> conversation_db" where
  "touch_conversation now i db =
     db\<lparr>conversations := map (\<lambda>r. if cv_id r = i then r\<lparr>cv_last_activity := fmt_ts now\<rparr> else r) (conversations db)\<rparr>"

definition add_conversation_message :: "nat \<Rightarrow> uuid \<Rightarrow> uuid \<Rightarrow> string \<Rightarrow> string \<Rightarrow> conversation_db \<Rightarrow> uuid \<times> conversation_db" where
  "add_conversation_message now mid i role content db =
     (mid, touch_conversation now i
        (db\<lparr>conversation_messages := conversation_messages db @
              [\<lparr>cm_id = mid, cm_conversation = i, cm_role = role, cm_content = content, cm_created_at = now\<rparr>]\<rparr>))"

definition ensure_conversation :: "nat \<Rightarrow> uuid \<Rightarrow> string \<Rightarrow> string \<Rightarrow> string option \<Rightarrow> conversation_db \<Rightarrow> conversation_db" where
  "ensure_conversation now i channel user thread db =
     (if i \<in> set (map cv_id (conversations db)) then touch_conversation now i db
      else db\<lparr>conversations := conversations db @ [new_row now i channel user thread (JObject [])]\<rparr>)"

text \<open>\<open>ORDER BY created_at, rowid\<close> is a stable sort of the rows.\<close>

definition messages_of :: "uuid \<Rightarrow> conversation_db \<Rightarrow> message_row list" where
  "messages_of i db = sort_key cm_created_at (filter (\<lambda>m. cm_conversation m = i) (conversation_messages db))"

definition list_conversation_messages :: "uuid \<Rightarrow> conversation_db \<Rightarrow> message_row list" where
  "list_conversation_messages i db = messages_of i db"

definition list_conversation_messages_paginated :: "uuid \<Rightarrow> nat option \<Rightarrow> nat \<Rightarrow> conversation_db \<Rightarrow> message_row list \<times> bool" where
  "list_conversation_messages_paginated i before limit db =
     (let rows = (case before of Some t \<Rightarrow> filter (\<lambda>m. cm_created_at m < t) (messages_of i db) | None \<Rightarrow> messages_of i db);
          fetched = take (limit + 1) (rev rows)
      in (rev (take limit fetched), length fetched > limit))"

record conversation_summary =
  cs_id :: uuid
  cs_title :: "string option"
  cs_message_count :: nat
  cs_started_at :: stamp
  cs_last_activity :: stamp
  cs_thread_type :: "string option"
  cs_matter :: "string option"

definition summary_of :: "conversation_db \<Rightarrow> conversation_row \<Rightarrow> conversation_summary" where
  "summary_of db r =
     \<lparr>cs_id = cv_id r,
      cs_title = map_option (\<lambda>m. take 100 (cm_content m)) (find (\<lambda>m. cm_role m = ''user'') (messages_of (cv_id r) db)),
      cs_message_count = length (filter (\<lambda>m. cm_conversation m = cv_id r) (conversation_messages db)),
      cs_started_at = cv_started_at r, cs_last_activity = cv_last_activity r,
      cs_thread_type = Option.bind (json_get (cv_metadata r) ''thread_type'') as_str, cs_matter = cv_matter r\<rparr>"

text \<open>\<open>ORDER BY last_activity DESC\<close> compares texts.\<close>

definition by_activity :: "conversation_row list \<Rightarrow> conversation_row list" where
  "by_activity rs = rev (sort_key (stamp_key \<circ> cv_last_activity) (rev rs))"

definition list_conversations_with_preview :: "string \<Rightarrow> string \<Rightarrow> nat \<Rightarrow> conversation_db \<Rightarrow> conversation_summary list" where
  "list_conversations_with_preview user channel limit db =
     map (summary_of db) (take limit (by_activity (filter (\<lambda>r. cv_user r = user \<and> cv_channel r = channel) (conversations db))))"

definition list_conversations_with_preview_for_matter :: "string \<Rightarrow> string \<Rightarrow> string \<Rightarrow> nat \<Rightarrow> conversation_db \<Rightarrow> conversation_summary list" where
  "list_conversations_with_preview_for_matter user channel matter limit db =
     map (summary_of db) (take limit (by_activity (filter (\<lambda>r. cv_user r = user \<and> cv_channel r = channel \<and> cv_matter r = Some matter) (conversations db))))"

definition get_or_create_assistant_conversation :: "nat \<Rightarrow> uuid \<Rightarrow> string \<Rightarrow> string \<Rightarrow> conversation_db \<Rightarrow> (conv_error + uuid) \<times> conversation_db" where
  "get_or_create_assistant_conversation now i user channel db =
     (case find (\<lambda>r. cv_user r = user \<and> cv_channel r = channel \<and> json_get (cv_metadata r) ''thread_type'' = Some (JString ''assistant'')) (conversations db) of
        Some r \<Rightarrow> (Inr (cv_id r), db)
      | None \<Rightarrow> insert_conversation (new_row now i channel user None
                  (JObject [(''thread_type'', JString ''assistant''), (''title'', JString ''Assistant'')])) db)"

text \<open>\<open>json_patch\<close> of an object with a one-member object: a null removes the member, an object is merged, anything else replaces it.\<close>

fun json_patch :: "json_value \<Rightarrow> json_value \<Rightarrow> json_value" where
  "json_patch t (JObject ps) =
     JObject (fold (\<lambda>(k, v) ms. if v = JNull then filter (\<lambda>(k', _). k' \<noteq> k) ms
                else let w = json_patch (case map_of ms k of Some u \<Rightarrow> u | None \<Rightarrow> JNull) v in AList.update k w ms)
       ps (case t of JObject ms \<Rightarrow> ms | _ \<Rightarrow> []))"
| "json_patch t p = p"

definition update_conversation_metadata_field :: "uuid \<Rightarrow> string \<Rightarrow> json_value \<Rightarrow> conversation_db \<Rightarrow> conversation_db" where
  "update_conversation_metadata_field i k v db =
     db\<lparr>conversations := map (\<lambda>r. if cv_id r = i then r\<lparr>cv_metadata := json_patch (cv_metadata r) (JObject [(k, v)])\<rparr> else r) (conversations db)\<rparr>"

definition get_conversation_metadata :: "uuid \<Rightarrow> conversation_db \<Rightarrow> json_value option" where
  "get_conversation_metadata i db = map_option cv_metadata (find (\<lambda>r. cv_id r = i) (conversations db))"

definition conversation_belongs_to_user :: "uuid \<Rightarrow> string \<Rightarrow> conversation_db \<Rightarrow> bool" where
  "conversation_belongs_to_user i user db = list_ex (\<lambda>r. cv_id r = i \<and> cv_user r = user) (conversations db)"

definition find_conversation :: "uuid \<Rightarrow> string \<Rightarrow> conversation_db \<Rightarrow> conversation_row option" where
  "find_conversation i user db = find (\<lambda>r. cv_id r = i \<and> cv_user r = user) (conversations db)"

definition get_conversation_matter_id :: "uuid \<Rightarrow> string \<Rightarrow> conversation_db \<Rightarrow> string option" where
  "get_conversation_matter_id i user db = Option.bind (find_conversation i user db) cv_matter"

definition bind_conversation_to_matter :: "nat \<Rightarrow> uuid \<Rightarrow> string \<Rightarrow> string \<Rightarrow> conversation_db \<Rightarrow> (conv_error + unit) \<times> conversation_db" where
  "bind_conversation_to_matter now i user matter db =
     (case find_conversation i user db of
        None \<Rightarrow> (Inl (ConvNotFound i), db)
      | Some r \<Rightarrow>
          (case cv_matter r of
             Some current \<Rightarrow>
               (if current \<noteq> matter then (Inl (ConvConstraint i current), db) else (Inr (), db))
           | None \<Rightarrow>
               (Inr (), db\<lparr>conversations := map (\<lambda>r. if cv_id r = i \<and> cv_user r = user
                             then r\<lparr>cv_matter := Some matter, cv_last_activity := fmt_ts now\<rparr> else r) (conversations db)\<rparr>)))"

section \<open>Ownership and binding are permanent\<close>

text \<open>One operation of the store, whoever calls it.\<close>

inductive conv_step :: "conversation_db \<Rightarrow> conversation_db \<Rightarrow> bool" where
  create: "conv_step db (snd (create_conversation now i channel user thread db))"
| create_meta: "conv_step db (snd (create_conversation_with_metadata now i channel user meta db))"
| assistant: "conv_step db (snd (get_or_create_assistant_conversation now i user channel db))"
| touched: "conv_step db (touch_conversation now i db)"
| message: "conv_step db (snd (add_conversation_message now mid i role content db))"
| ensured: "conv_step db (ensure_conversation now i channel user thread db)"
| meta: "conv_step db (update_conversation_metadata_field i k v db)"
| bound: "conv_step db (snd (bind_conversation_to_matter now i user matter db))"

definition ids_unique :: "conversation_db \<Rightarrow> bool" where
  "ids_unique db \<longleftrightarrow> distinct (map cv_id (conversations db))"

text \<open>\<open>grows\<close>: the rows stay, with their key and owner, their matter once they have one, and the messages stay in place; rows and messages are only added.\<close>

definition row_kept :: "conversation_row \<Rightarrow> conversation_row \<Rightarrow> bool" where
  "row_kept r r' \<longleftrightarrow> cv_id r' = cv_id r \<and> cv_user r' = cv_user r \<and> cv_channel r' = cv_channel r \<and> (cv_matter r = None \<or> cv_matter r' = cv_matter r)"

definition grows :: "conversation_db \<Rightarrow> conversation_db \<Rightarrow> bool" where
  "grows db db' \<longleftrightarrow> (\<exists>rs. list_all2 row_kept (conversations db @ rs) (conversations db') \<and> distinct (map cv_id (conversations db @ rs)))
     \<and> (\<exists>ms. conversation_messages db' = conversation_messages db @ ms)"

lemma row_kept_refl [simp]: "row_kept r r"
  by (simp add: row_kept_def)


lemma kept_map: "(\<And>r. r \<in> set rs \<Longrightarrow> row_kept r (f r)) \<Longrightarrow> list_all2 row_kept rs (map f rs)"
  by (simp add: list_all2_conv_all_nth)

lemma kept_ids: "list_all2 row_kept rs rs' \<Longrightarrow> map cv_id rs' = map cv_id rs"
  by (auto simp: list_all2_conv_all_nth row_kept_def intro!: nth_equalityI)

lemma grows_map:
  assumes "ids_unique db" and "\<And>r. r \<in> set (conversations db) \<Longrightarrow> row_kept r (f r)"
  shows "grows db (db\<lparr>conversations := map f (conversations db)\<rparr>)"
  unfolding grows_def by (intro conjI exI [of _ "[]"]) (use assms in \<open>auto simp: ids_unique_def intro: kept_map\<close>)

lemma conv_grows_refl: "ids_unique db \<Longrightarrow> grows db db"
  unfolding grows_def by (intro conjI exI [of _ "[]"]) (auto simp: ids_unique_def list_all2_conv_all_nth)

lemma insert_grows: "ids_unique db \<Longrightarrow> grows db (snd (insert_conversation r db))"
proof (cases "cv_id r \<in> set (map cv_id (conversations db))")
  case False
  assume "ids_unique db"
  then show ?thesis using False unfolding grows_def
    by (intro conjI exI [of _ "[r]"] exI [of _ "[]"]) (auto simp: insert_conversation_def ids_unique_def list_all2_conv_all_nth)
qed (simp add: insert_conversation_def conv_grows_refl)

lemma find_unique:
  assumes "ids_unique db" and "find_conversation i user db = Some r" and "x \<in> set (conversations db)" and "cv_id x = i"
  shows "x = r"
proof -
  have "r \<in> set (conversations db)" "cv_id r = i" using assms(2) by (auto simp: find_conversation_def find_Some_iff)
  then show ?thesis using assms(1,3,4) unfolding ids_unique_def distinct_map by (metis inj_onD)
qed

lemma step_grows: "conv_step db db' \<Longrightarrow> ids_unique db \<Longrightarrow> grows db db'"
proof (induction rule: conv_step.induct)
  case (message db now mid i role content)
  have "grows db (touch_conversation now i db)" unfolding touch_conversation_def by (rule grows_map [OF message]) (auto simp: row_kept_def)
  then show ?case by (auto simp: grows_def add_conversation_message_def touch_conversation_def)
next
  case (ensured db now i channel user thread)
  show ?case
  proof (cases "i \<in> set (map cv_id (conversations db))")
    case True
    then show ?thesis using grows_map [OF ensured, of "\<lambda>r. if cv_id r = i then r\<lparr>cv_last_activity := fmt_ts now\<rparr> else r"]
      by (simp add: ensure_conversation_def touch_conversation_def row_kept_def)
  next
    case False
    have "grows db (snd (insert_conversation (new_row now i channel user thread (JObject [])) db))" by (rule insert_grows [OF ensured])
    then show ?thesis using False by (simp add: ensure_conversation_def insert_conversation_def new_row_def)
  qed
next
  case (bound db now i user matter)
  show ?case
  proof (cases "find_conversation i user db")
    case (Some r)
    show ?thesis
    proof (cases "cv_matter r")
      case None
      have "grows db (db\<lparr>conversations := map (\<lambda>r. if cv_id r = i \<and> cv_user r = user
          then r\<lparr>cv_matter := Some matter, cv_last_activity := fmt_ts now\<rparr> else r) (conversations db)\<rparr>)"
        by (rule grows_map [OF bound]) (use find_unique [OF bound Some] None in \<open>auto simp: row_kept_def\<close>)
      then show ?thesis using Some None by (simp add: bind_conversation_to_matter_def)
    qed (simp add: bind_conversation_to_matter_def Some conv_grows_refl [OF bound])
  qed (simp add: bind_conversation_to_matter_def conv_grows_refl [OF bound])
next
  case (touched db now i)
  then show ?case unfolding touch_conversation_def by (intro grows_map) (auto simp: row_kept_def)
next
  case (meta db i k v)
  then show ?case unfolding update_conversation_metadata_field_def by (intro grows_map) (auto simp: row_kept_def)
qed (auto simp: create_conversation_def create_conversation_with_metadata_def get_or_create_assistant_conversation_def
  intro: insert_grows conv_grows_refl split: option.splits)

lemma grows_unique: "grows db db' \<Longrightarrow> ids_unique db'"
  by (auto simp: grows_def ids_unique_def dest: kept_ids)

text \<open>The key stays unique in every store that grows from an empty one.\<close>

definition empty_store :: "conversation_db \<Rightarrow> bool" where
  "empty_store db \<longleftrightarrow> conversations db = [] \<and> conversation_messages db = []"

interpretation conversation_store: steps_inv empty_store conv_step ids_unique
proof (unfold_locales, goal_cases)
  case (1 s)
  then show ?case by (simp add: empty_store_def ids_unique_def)
next
  case (2 s t)
  then show ?case by (blast intro: grows_unique step_grows)
qed







text \<open>The answer to a conversation's matter is definite in every store the program can reach: from an empty store on, whatever operations ran, at most one
  row has a given key, so a conversation belongs to one user and has at most one matter.
\<close>

theorem one_owner_one_matter:
  assumes "reach empty_store conv_step db" and "conversation_belongs_to_user i user db" and "conversation_belongs_to_user i user' db"
  shows "user = user' \<and> get_conversation_matter_id i user db = get_conversation_matter_id i user' db"
proof -
  have u: "ids_unique db" by (rule conversation_store.reach_inv [OF assms(1)])
  obtain r r' where "r \<in> set (conversations db)" "cv_id r = i" "cv_user r = user" "r' \<in> set (conversations db)" "cv_id r' = i" "cv_user r' = user'"
    using assms(2,3) by (auto simp: conversation_belongs_to_user_def list_ex_iff)
  then have "r = r'" using u unfolding ids_unique_def distinct_map by (metis inj_onD)
  then have "user = user'" using \<open>cv_user r = user\<close> \<open>cv_user r' = user'\<close> by simp
  then show ?thesis by simp
qed

section \<open>Pages\<close>

text \<open>A reader of the history: the newest page, then the page before the oldest message it has, until nothing is left.\<close>

fun read_back :: "nat \<Rightarrow> uuid \<Rightarrow> nat option \<Rightarrow> nat \<Rightarrow> conversation_db \<Rightarrow> message_row list" where
  "read_back 0 i before limit db = []"
| "read_back (Suc n) i before limit db =
     (case list_conversation_messages_paginated i before limit db of
        (page, has_more) \<Rightarrow> (if has_more \<and> page \<noteq> [] then read_back n i (Some (cm_created_at (hd page))) limit db else []) @ page)"

lemma page_of_rows:
  "list_conversation_messages_paginated i before limit db =
     (let rows = (case before of Some t \<Rightarrow> filter (\<lambda>m. cm_created_at m < t) (messages_of i db) | None \<Rightarrow> messages_of i db)
      in (drop (length rows - limit) rows, limit < length rows))"
proof -
  have "rev (take limit (take (limit + 1) (rev rows))) = drop (length rows - limit) rows" for rows :: "message_row list"
    by (simp only: take_take) (simp add: take_rev)
  then show ?thesis by (simp add: list_conversation_messages_paginated_def Let_def min_def)
qed

lemma sorted_filter_less:
  fixes f :: "'a \<Rightarrow> nat"
  assumes "sorted_wrt (<) (map f xs)" and "k < length xs"
  shows "filter (\<lambda>x. f x < f (xs ! k)) xs = take k xs"
proof -
  have lt: "f (xs ! j) < f (xs ! k) \<longleftrightarrow> j < k" if "j < length xs" for j
    using sorted_wrt_nth_less [OF assms(1), of j k] sorted_wrt_nth_less [OF assms(1), of k j] assms(2) that
    by (cases "j = k"; cases "j < k") auto
  have "filter (\<lambda>x. f x < f (xs ! k)) (take k xs) = take k xs"
    using lt assms(2) by (auto simp: filter_id_conv in_set_conv_nth)
  moreover have "filter (\<lambda>x. f x < f (xs ! k)) (drop k xs) = []"
    using lt by (auto simp: filter_empty_conv in_set_conv_nth)
  ultimately show ?thesis by (metis append_take_drop_id filter_append self_append_conv)
qed

lemma read_back_rows:
  assumes "sorted_wrt (<) (map cm_created_at (messages_of i db))" and "0 < limit"
    and "rows = (case before of Some t \<Rightarrow> filter (\<lambda>m. cm_created_at m < t) (messages_of i db) | None \<Rightarrow> messages_of i db)"
    and "rows = take (length rows) (messages_of i db)" and "length rows \<le> n"
  shows "read_back n i before limit db = rows"
  using assms(3-5)
proof (induction n arbitrary: before rows)
  case (Suc n)
  let ?k = "length rows - limit"
  let ?all = "messages_of i db"
  have page: "list_conversation_messages_paginated i before limit db = (drop ?k rows, limit < length rows)"
    unfolding page_of_rows Suc.prems(1) [symmetric] by simp
  show ?case
  proof (cases "limit < length rows")
    case True
    have lt: "?k < length rows" using True assms(2) by linarith
    have "length rows \<le> length ?all" by (metis Suc.prems(2) length_take min.cobounded1)
    then have k: "?k < length ?all" "rows ! ?k = ?all ! ?k" using lt by (simp, metis Suc.prems(2) nth_take)
    have hd: "hd (drop ?k rows) = ?all ! ?k" using True assms(2) k(2) by (simp add: hd_drop_conv_nth)
    have "read_back n i (Some (cm_created_at (?all ! ?k))) limit db = take ?k ?all"
    proof (rule Suc.IH)
      show "take ?k ?all = (case Some (cm_created_at (?all ! ?k)) of Some t \<Rightarrow> filter (\<lambda>m. cm_created_at m < t) ?all | None \<Rightarrow> ?all)"
        using sorted_filter_less [OF assms(1) k(1)] by simp
      show "length (take ?k ?all) \<le> n" using Suc.prems(3) assms(2) True by simp
    qed (use k(1) in simp)
    moreover have "take ?k ?all = take ?k rows" using Suc.prems(2) by (metis diff_le_self min.absorb1 take_take)
    ultimately show ?thesis using True assms(2) page hd by simp
  next
    case False
    then show ?thesis using page by simp
  qed
qed simp

text \<open>Paging through a conversation reads all of it. When no two of its messages have the same time, a reader who asks for pages of any size, each
  before the oldest message it has, gets exactly the messages of the conversation, in their order, after finitely many pages.
\<close>

theorem pages_complete:
  assumes "distinct (map cm_created_at (list_conversation_messages i db))" and "0 < limit"
  shows "read_back (length (list_conversation_messages i db)) i None limit db = list_conversation_messages i db"
proof -
  have "sorted (map cm_created_at (messages_of i db))" by (simp add: messages_of_def)
  then have "sorted_wrt (<) (map cm_created_at (messages_of i db))" using assms(1) by (simp add: strict_sorted_iff list_conversation_messages_def)
  then show ?thesis using read_back_rows [of i db limit "messages_of i db" None] assms(2) by (simp add: list_conversation_messages_def)
qed

definition conv_msg :: "nat \<Rightarrow> nat \<Rightarrow> message_row" where
  "conv_msg mid t = \<lparr>cm_id = mid, cm_conversation = 1, cm_role = ''user'', cm_content = ''text'', cm_created_at = t\<rparr>"

theorem pages_complete_witness:
  "map cm_id (read_back 3 1 None 2 \<lparr>conversations = [], conversation_messages = [conv_msg 1 10, conv_msg 2 20, conv_msg 3 30]\<rparr>) = [1, 2, 3]"
proof -
  let ?db = "\<lparr>conversations = [], conversation_messages = [conv_msg 1 10, conv_msg 2 20, conv_msg 3 30]\<rparr>"
  have l: "list_conversation_messages 1 ?db = [conv_msg 1 10, conv_msg 2 20, conv_msg 3 30]" by code_simp
  then have "distinct (map cm_created_at (list_conversation_messages 1 ?db))" by (simp add: conv_msg_def)
  then have "read_back (length (list_conversation_messages 1 ?db)) 1 None 2 ?db = list_conversation_messages 1 ?db" by (rule pages_complete) simp
  then have "read_back 3 1 None 2 ?db = [conv_msg 1 10, conv_msg 2 20, conv_msg 3 30]" unfolding l by (simp add: numeral_3_eq_3)
  then show ?thesis by (simp add: conv_msg_def)
qed

text \<open>Two messages of the same millisecond on either side of a page: the older one is never read. A conversation that was only created sorts below
  every conversation that was touched on the same day, however much earlier.\<close>

lemma equal_times_lose_messages:
  "map cm_id (read_back 2 1 None 1 \<lparr>conversations = [], conversation_messages = [conv_msg 1 10, conv_msg 2 10]\<rparr>) = [2]"
  by code_simp

text \<open>A new conversation is not listed first. Its last activity is the default of the column, which is written in another format than the times of
  the code and sorts below all of them on the same day: a conversation that was created later than another was touched is listed after it.
\<close>

theorem new_conversation_listed_below_older:
  assumes "t \<le> t'" and "t div day_ms = t' div day_ms" and "i \<noteq> j"
  shows "map cs_id (list_conversations_with_preview user channel 2 (snd (create_conversation t' j channel user None
      (touch_conversation t i (snd (create_conversation t i channel user None \<lparr>conversations = [], conversation_messages = []\<rparr>)))))) = [i, j]"
  using assms by (simp add: list_conversations_with_preview_def create_conversation_def insert_conversation_def touch_conversation_def new_row_def
      by_activity_def summary_of_def fmt_ts_def stamp_key_def)

theorem new_conversation_listed_below_older_witness:
  "map cs_id (list_conversations_with_preview ''ada'' ''gateway'' 2 (snd (create_conversation 50000000 2 ''gateway'' ''ada'' None
      (touch_conversation 1000 1 (snd (create_conversation 1000 1 ''gateway'' ''ada'' None \<lparr>conversations = [], conversation_messages = []\<rparr>)))))) = [1, 2]"
  using new_conversation_listed_below_older [of 1000 50000000 1 2 "''ada''" "''gateway''"] by (simp add: day_ms_def)

end
