(* ===== verification/Spec2Isabelle.thy ===== *)
theory Spec2Isabelle
  imports Matter_Work Llm_Chain Context_Manager Session Cost_Guard Rate_Limiter Pairing Trust_Ledger Audit_Chain Token_Store Court_Calendar Skill_Registry Message_Loop Shell_Tool Http_Tool Safety_Validator Conflict_Graph Memory_Tools Dispatcher Conversations
begin

text \<open>
  \<^bold>\<open>A verification library for cLawyer.\<close>

  cLawyer is a personal assistant for legal practice, written in Rust (\<open>src/src\<close>): channels feed user input
  to an agent that keeps sessions and threads, calls language models through a chain of provider decorators,
  runs tools in a sandbox behind network policies, tracks jobs and costs, and keeps the records of a law practice
  (matters, time, invoices, client money in trust, an audit log) in a database. The library models the parts
  that carry the program's own logic as HOL functions and step relations, one theory per component, and proves
  the properties that make them correct.

  \<^bold>\<open>Conventions.\<close> A struct is a record, an enum a datatype, \<open>Result<T, E>\<close> is \<open>'e + 't\<close>, a HashMap an association
  list with distinct keys whose order is the unspecified iteration order (the theorems hold for every order).
  A method that takes \<open>&mut self\<close> or a lock is a state transformer that returns its result and the new state; the
  section under one lock, and one database transaction, is one atomic step. What the environment decides is an argument:
  the clock, fresh identifiers, random draws, the outcome of a write. Code outside \<open>src/\<close> is a parameter:
  HTTP providers, URL parsing and percent-decoding, SHA-256, HKDF and AES-GCM, the crates \<open>regex\<close> and \<open>aho_corasick\<close>, YAML, JSON and number rendering,
  the Gregorian calendar of \<open>chrono\<close>, the answers of the file system, time-stamp parsing; the laws the code relies on are named hypotheses,
  each met by a concrete instance. Words
  keep their width where overflow matters (\<open>u32\<close>, \<open>u64\<close> as words, casts and saturation written out); \<open>Decimal\<close> is an exact
  rational with \<open>round_dp\<close> written out; strings are read as ASCII. Interleaving of concurrent calls is a step relation
  with the reachable states \<open>reach\<close> and the invariant contract \<open>steps_inv\<close> of \<open>Prelude\<close>. Loops are structural, or carry a
  termination measure. Loops that do not end for every input are partial functions over options whose termination is proved where it holds
  (\<open>push_past\<close>, \<open>count_court_days\<close>, \<open>chunk_loop\<close>). No definition runs on fuel; the agentic loop counts its iterations
  up to the bound of the configuration, as the code does.

  \<^bold>\<open>Language models\<close> (\<open>src/llm\<close>). \<open>Llm_Provider\<close> is the provider interface and the error type with its two
  classifications, and the locales that say what a decorator may do. \<open>Llm_Messages\<close>: messages, requests,
  \<open>sanitize_tool_messages\<close>. \<open>Circuit_Breaker\<close>, \<open>Retry\<close>, \<open>Failover\<close>, \<open>Response_Cache\<close>, \<open>Smart_Routing\<close> model one
  decorator each, with its state, its operations, and its invariant over interleaved calls (an open circuit
  rejects, trips at the threshold and recovers; the retry loop stops and its delays are bounded; failover tries the
  providers in order and binds tasks in a bounded table; the cache answers only what was answered for the same key and
  evicts the least recently used entry; routing sends each task to one tier). \<open>Llm_Chain\<close> composes them as
  \<open>build_provider_chain\<close> does and shows that the whole chain returns only answers of the wrapped providers.

  \<^bold>\<open>Agent state.\<close> \<open>Job_State\<close> and \<open>Context_Manager\<close> (\<open>src/context\<close>): the job state machine, its history, budgets and
  memory, and the bounded table of active jobs. \<open>Undo\<close> and \<open>Session\<close> (\<open>src/agent/undo.rs\<close>, \<open>session.rs\<close>, \<open>thread_ops.rs\<close>):
  checkpoints, turns, threads, restoring from stored messages, the approval gate and the compaction guard.
  \<open>Cost_Guard\<close> (\<open>src/agent/cost_guard.rs\<close>, \<open>src/llm/costs.rs\<close>) and \<open>Rate_Limiter\<close> (\<open>src/tools/rate_limiter.rs\<close>): limits over
  every sequence of calls.

  \<^bold>\<open>Access and network.\<close> \<open>Pairing\<close> (\<open>src/pairing/store.rs\<close>): channel keys, pending requests, approvals under a rate
  limit, the allow list. \<open>Network_Policy\<close> (\<open>src/sandbox/proxy\<close>, \<open>src/tools/wasm/allowlist.rs\<close>, \<open>src/legal/policy.rs\<close>): the four
  host matchers against one contract, the proxy's decision, the WASM allowlist over normalised paths, the legal
  domain policy, approval rules and matter identifiers. \<open>Token_Store\<close> (\<open>src/orchestrator/auth.rs\<close>): per-job bearer tokens.
  \<open>Access_Control\<close> (\<open>src/channels/web/auth.rs\<close>, \<open>handlers/users.rs\<close>, \<open>handlers/matters/core.rs\<close> and \<open>impl RbacStore\<close>): accounts, token hashes,
  memberships, the bearer middleware and the handlers that manage members. \<open>Matter_Work\<close> (\<open>handlers/matters/work.rs\<close>): tasks and notes
  behind the access guard. \<open>Secrets\<close> (\<open>src/secrets\<close>, \<open>src/tools/wasm/credential_injector.rs\<close>): sealed secrets in two stores that
  refine one map, and their injection into requests.

  \<^bold>\<open>The agent loop.\<close> \<open>Message_Loop\<close> (\<open>src/agent/submission.rs\<close>, \<open>router.rs\<close>, \<open>agent_loop.rs\<close>): parsing of submissions and the handling of one
  message. \<open>Hooks\<close> (\<open>src/hooks\<close>): the chain of life-cycle hooks. \<open>Dispatcher\<close> (\<open>src/agent/dispatcher.rs\<close>): the loop that asks the model,
  passes every tool call through the hooks and the approval decision, runs the batch and records the results: every call is answered
  once and in order, only cleared calls run, a tool under forced approval never runs inside the loop, the number of model calls is bounded, and the loop
  answers when the model does. \<open>Reasoning\<close> (\<open>src/llm/reasoning.rs\<close>): cleaning of answers, recovery of tool calls from text, the legal context.
  \<open>Conversations\<close> (\<open>src/db/libsql/conversations.rs\<close>): the stored conversations, whose owner and matter never change once set.

  \<^bold>\<open>Safety.\<close> \<open>Leak_Detector\<close>, \<open>Safety_Layer\<close> and \<open>Safety_Validator\<close> (\<open>src/safety\<close>): the patterns, the prefix filter against the scan of all
  patterns, redaction, the policy, the escaping of tool output, and the validation of input.

  \<^bold>\<open>Tools and skills.\<close> \<open>Tool_Types\<close> (\<open>src/tools/tool.rs\<close>): JSON values, parameters, approval requirements. \<open>File_Tools\<close>, \<open>Shell_Tool\<close>,
  \<open>Http_Tool\<close>, \<open>Memory_Tools\<close> (\<open>src/tools/builtin\<close>): the guards of the built-in tools, with the confinement of paths and memory writes.
  \<open>Skills\<close> and \<open>Skill_Registry\<close> (\<open>src/skills\<close>): selection, attenuation, gating, parsing, and the registry over every sequence of
  installations, removals and reloads.

  \<^bold>\<open>Workspace\<close> (\<open>src/workspace\<close>, \<open>src/db/libsql/workspace.rs\<close>, \<open>src/legal/workspace_crypto.rs\<close>). \<open>Workspace\<close> has the document tables and every operation,
  \<open>Workspace_Store\<close> the refinement of a map of documents and what follows from it (round trip, sealed matter files),
  \<open>Workspace_Index\<close> chunking and rank fusion, \<open>Workspace_Care\<close> the system prompt, seeding and clean-up.

  \<^bold>\<open>Legal practice.\<close> \<open>Legal_Billing\<close> (\<open>src/legal/billing.rs\<close> and the libSQL queries it uses): rate schedules, draft
  invoices, totals, codes. \<open>Trust_Ledger\<close> (\<open>src/db/libsql/legal_practice.rs\<close>): invoices, finalisation, payments and the
  trust ledger, over every sequence of operations. \<open>Audit_Chain\<close> (\<open>src/legal/audit.rs\<close>): the hash-chained log.
  \<open>Court_Calendar\<close> (\<open>src/legal/calendar.rs\<close>, \<open>jurisdictions.rs\<close>): court days, holidays and deadlines, whose loops end. \<open>Conflict_Text\<close> and
  \<open>Conflict_Graph\<close> (\<open>src/legal/matter.rs\<close>, \<open>src/db/libsql/legal_conflicts.rs\<close>): conflict checks in texts and in the graph of parties; every
  recorded party is found, and the search along relationships returns exactly the paths within its bound.

  \<^bold>\<open>Interfaces.\<close> Each contract between components is a locale that is interpreted on the model's own definitions in the
  theory that provides them: \<open>steps_inv\<close> (an invariant of a step relation), the decorator contracts of
  \<open>Llm_Provider\<close>, \<open>host_matcher\<close> (a match stays within a domain), \<open>billable_table\<close> (rows that can be billed once),
  \<open>refines\<close> (tables that implement a map: memberships, both secret stores, the documents of the workspace), \<open>calendar\<close> (the Gregorian laws) and \<open>file_system\<close>
  (what path resolution promises).

  \<^bold>\<open>What modelling showed.\<close> The daily budget of the cost guard never resets once it is reached
  (\<open>Cost_Guard\<close>); approving a sender erases the senders approved before (\<open>Pairing\<close>); a late success closes an open
  circuit (\<open>Circuit_Breaker\<close>); the retry delay collapses for large attempt numbers (\<open>Retry\<close>); tool messages are
  accepted out of order (\<open>Llm_Messages\<close>); the rate limiter's window is fixed, not sliding (\<open>Rate_Limiter\<close>); payments
  below a cent are rounded apart on invoice and ledger (\<open>Trust_Ledger\<close>); the audit chain starts anew at each restart
  (\<open>Audit_Chain\<close>); the gateway account keeps its access after it is deactivated (\<open>Access_Control\<close>); a silent reply shuts the agent
  down (\<open>Message_Loop\<close>); an installed skill gains trust by a reload (\<open>Skill_Registry\<close>); tools taken away by attenuation still run, the text of a tool's
  error reaches the model unfiltered, the results of a batch are recorded on its last call, and a tool registered within a batch skips
  approval (\<open>Dispatcher\<close>); the Anthropic pattern is never run and nested redactions leak (\<open>Leak_Detector\<close>); a null byte restores an
  escaped token (\<open>Safety_Layer\<close>); a malformed tag repeats the answer (\<open>Reasoning\<close>); pages lose messages with equal times (\<open>Conversations\<close>); appending
  to a sealed file breaks its seal (\<open>Workspace_Store\<close>); a blank passes the guard of the identity files (\<open>Memory_Tools\<close>).

  \<^bold>\<open>Not modelled.\<close> Channels, the terminal interface and most web handlers (I/O and glue; the handlers of members, users, tasks and
  notes are modelled); concrete HTTP providers; the prompt builders and planning calls of the reasoning engine; the worker, the scheduler,
  compaction and self repair; the continuation of a turn after an approval, beyond the gate; the WASM runtime,
  containers and the proxy's sockets; the PostgreSQL backend, migrations and the database tables not named above; key chains; setup, command line,
  tunnels, logging. They call the parts above, or are bindings to crates whose behaviour would have to be assumed. Left out inside modelled components:
  log output, poisoned locks, I/O errors the code maps to a default, and time stamps that are only stored.
\<close>

end
